(* ===== verification/Prelude.thy ===== *)
theory Prelude
  imports
    "HOL-Library.AList"
    "HOL-Library.List_Lexorder"
    "HOL-Library.Char_ord"
    "HOL-Library.Product_Lexorder"
begin

text \<open>
  Shared vocabulary of the pyverge development: the exceptions the code raises, Python's
  \<open>dict\<close>, \<open>defaultdict\<close> and identity-keyed \<open>set\<close> as insertion-ordered association lists and
  lists, \<open>bisect\<close> as the binary search of the standard library, the monad of operations that
  raise while they mutate, and the lemmas on them that every component uses.

  Python strings are \<^typ>\<open>string\<close>; their comparison is the lexicographic order of
  \<open>List_Lexorder\<close> over \<open>Char_ord\<close>, tuples compare by \<open>Product_Lexorder\<close>.
\<close>

named_theorems dict_simps \<open>what a dict operation does to a lookup\<close>
named_theorems reg_simps \<open>projections of the registry operations\<close>
named_theorems wf_intros \<open>preservation of the well-formedness invariants\<close>

section \<open>Exceptions\<close>

text \<open>
  One constructor per exception class that the modelled code raises; messages are not kept.
  \<open>is_catalog_error\<close> follows the class hierarchy of \<open>core/errors.py\<close> and
  \<open>core/registry/errors.py\<close>: it is what \<open>except CatalogError\<close> catches.
\<close>

datatype error =
    ValueError
  | TypeError
  | KeyError
  | IndexError
  | AssertionError
  | NotImplementedError
  | CatalogError
  | NamespaceMismatchError
  | HealthValidationError
  | ModelNotFoundError
  | ModelAlreadyRegisteredError
  | ModelConflictError
  | MissingReferenceError
  | MigrationNotFoundError
  | MigrationConflictError
  | MigrationPathError
  | NodeConflictError
  | MigrationApplicationError
  | PayloadValidationError
  | MaxDepthExceededError
  | RevisionMismatchError
  | VersionStrategyMismatchError
  | RevisionConflictError
  | GraphCycleError
  | AsyncExecutionRequired
  | TargetValidationError
  | UnknownModelError
  | JsonPatchException
  | AttributeError
  | RuntimeError
  | RecursionError
  | UnboundLocalError
  | NegotiationError
  | CeleryError
  | StartupValidationError
  | SystemExit
  | CancelledError
  | UserError

definition is_catalog_error :: "error \<Rightarrow> bool" where
  "is_catalog_error e \<longleftrightarrow> e \<in> {CatalogError, NamespaceMismatchError, HealthValidationError,
     ModelNotFoundError, ModelAlreadyRegisteredError, ModelConflictError, MissingReferenceError,
     MigrationNotFoundError, MigrationConflictError}"

type_synonym 'a res = "error + 'a"

definition bindR :: "'a res \<Rightarrow> ('a \<Rightarrow> 'b res) \<Rightarrow> 'b res" where
  "bindR m f = (case m of Inl e \<Rightarrow> Inl e | Inr a \<Rightarrow> f a)"

definition okR :: "'a res \<Rightarrow> bool" where
  "okR m = (case m of Inl _ \<Rightarrow> False | Inr _ \<Rightarrow> True)"

fun mapR :: "('a \<Rightarrow> 'b res) \<Rightarrow> 'a list \<Rightarrow> 'b list res" where
  "mapR f [] = Inr []"
| "mapR f (x # xs) = bindR (f x) (\<lambda>y. bindR (mapR f xs) (\<lambda>ys. Inr (y # ys)))"

lemma bindR_simps [simp]:
  "bindR (Inl e) f = Inl e"
  "bindR (Inr a) f = f a"
  by (simp_all add: bindR_def)

lemma bindR_eq_Inr: "bindR m f = Inr b \<longleftrightarrow> (\<exists>a. m = Inr a \<and> f a = Inr b)"
  by (cases m) auto

lemma okR_simps [simp]: "\<not> okR (Inl e)" "okR (Inr a)"
  by (simp_all add: okR_def)

lemma okR_iff: "okR m \<longleftrightarrow> (\<exists>a. m = Inr a)"
  by (cases m) auto

lemma mapR_Inr_map: "(\<And>x. x \<in> set xs \<Longrightarrow> f x = Inr (g x)) \<Longrightarrow> mapR f xs = Inr (map g xs)"
  by (induction xs) auto

lemma mapR_map: "(\<And>x. x \<in> set xs \<Longrightarrow> f (g x) = Inr (h x)) \<Longrightarrow> mapR f (map g xs) = Inr (map h xs)"
  by (induction xs) auto

lemma mapR_cong [fundef_cong]:
  "xs = ys \<Longrightarrow> (\<And>x. x \<in> set ys \<Longrightarrow> f x = g x) \<Longrightarrow> mapR f xs = mapR g ys"
proof (induction ys arbitrary: xs)
  case (Cons y ys)
  then show ?case by (cases "g y") auto
qed simp

lemma mapR_okR: "okR (mapR f xs) \<longleftrightarrow> (\<forall>x \<in> set xs. okR (f x))"
proof (induction xs)
  case (Cons x xs)
  then show ?case by (cases "f x"; cases "mapR f xs") auto
qed simp

lemma mapR_error: "mapR f xs = Inl e \<Longrightarrow> \<exists>x \<in> set xs. f x = Inl e"
proof (induction xs)
  case (Cons x xs)
  then show ?case by (cases "f x"; cases "mapR f xs") auto
qed simp

lemma mapR_eq_Inr: "mapR f xs = Inr ys \<longleftrightarrow> list_all2 (\<lambda>x y. f x = Inr y) xs ys"
  by (induction xs arbitrary: ys) (auto simp: bindR_eq_Inr list_all2_Cons1)

lemma list_all2_inD: "list_all2 P xs ys \<Longrightarrow> y \<in> set ys \<Longrightarrow> \<exists>x \<in> set xs. P x y"
  by (induction rule: list_all2_induct) auto

section \<open>Operations that raise while they mutate\<close>

text \<open>
  A Python method may have changed its object before it raises, so an operation returns the
  outcome together with the state it leaves behind.
\<close>

type_synonym ('s, 'a) op = "'s \<Rightarrow> 'a res \<times> 's"

definition bindS :: "('s, 'a) op \<Rightarrow> ('a \<Rightarrow> ('s, 'b) op) \<Rightarrow> ('s, 'b) op" where
  "bindS m f s = (case m s of (Inl e, s') \<Rightarrow> (Inl e, s') | (Inr a, s') \<Rightarrow> f a s')"

definition returnS :: "'a \<Rightarrow> ('s, 'a) op" where
  "returnS a s = (Inr a, s)"

definition raiseS :: "error \<Rightarrow> ('s, 'a) op" where
  "raiseS e s = (Inl e, s)"

fun forS :: "('a \<Rightarrow> ('s, unit) op) \<Rightarrow> 'a list \<Rightarrow> ('s, unit) op" where
  "forS f [] = returnS ()"
| "forS f (x # xs) = bindS (f x) (\<lambda>_. forS f xs)"

lemma returnS_simps [simp]: "returnS a s = (Inr a, s)" "raiseS e s = (Inl e, s)"
  by (simp_all add: returnS_def raiseS_def)

lemma bindS_simps [simp]:
  "m s = (Inl e, s') \<Longrightarrow> bindS m f s = (Inl e, s')"
  "m s = (Inr a, s') \<Longrightarrow> bindS m f s = f a s'"
  by (simp_all add: bindS_def)

lemma bindS_return [simp]: "bindS (returnS a) f = f a" "bindS (raiseS e) f = raiseS e"
  by (auto simp: bindS_def fun_eq_iff)

fun mapS :: "('a \<Rightarrow> ('s, 'b) op) \<Rightarrow> 'a list \<Rightarrow> ('s, 'b list) op" where
  "mapS f [] = returnS []"
| "mapS f (x # xs) = bindS (f x) (\<lambda>y. bindS (mapS f xs) (\<lambda>ys. returnS (y # ys)))"

fun foldS :: "('a \<Rightarrow> 'b \<Rightarrow> ('s, 'b) op) \<Rightarrow> 'a list \<Rightarrow> 'b \<Rightarrow> ('s, 'b) op" where
  "foldS f [] b = returnS b"
| "foldS f (x # xs) b = bindS (f x b) (foldS f xs)"

lemma mapS_cong [fundef_cong]: "xs = ys \<Longrightarrow> (\<And>x. x \<in> set ys \<Longrightarrow> f x = g x) \<Longrightarrow> mapS f xs = mapS g ys"
proof -
  have "(\<And>x. x \<in> set ys \<Longrightarrow> f x = g x) \<Longrightarrow> mapS f ys = mapS g ys" by (induction ys) auto
  then show "xs = ys \<Longrightarrow> (\<And>x. x \<in> set ys \<Longrightarrow> f x = g x) \<Longrightarrow> mapS f xs = mapS g ys" by simp
qed

lemma forS_invariant:
  assumes step: "\<And>x s. x \<in> set xs \<Longrightarrow> P s \<Longrightarrow> P (snd (f x s))" and "P s"
  shows "P (snd (forS f xs s))"
  using assms
proof (induction xs arbitrary: s)
  case (Cons x xs)
  have "P (snd (f x s))" using Cons.prems by simp
  then show ?case using Cons.IH Cons.prems(1)
    by (cases "f x s"; cases "fst (f x s)") (auto simp: bindS_def)
qed simp

text \<open>An operation that keeps a property of the state, whether it returns or raises.\<close>

named_theorems keeps_intros \<open>operations that keep a property\<close>

definition keeps :: "('s \<Rightarrow> bool) \<Rightarrow> ('s, 'a) op \<Rightarrow> bool" where
  "keeps P m \<longleftrightarrow> (\<forall>s. P s \<longrightarrow> P (snd (m s)))"

lemma keepsI: "(\<And>s. P s \<Longrightarrow> P (snd (m s))) \<Longrightarrow> keeps P m"
  by (simp add: keeps_def)

lemma keepsD: "keeps P m \<Longrightarrow> P s \<Longrightarrow> P (snd (m s))"
  by (simp add: keeps_def)

definition liftS :: "'a res \<Rightarrow> ('s, 'a) op" where
  "liftS x s = (x, s)"

lemma liftS_simps [simp]: "liftS x s = (x, s)"
  by (simp add: liftS_def)

lemma keeps_basic [keeps_intros]: "keeps P (returnS a)" "keeps P (raiseS e)" "keeps P (liftS x)"
  by (simp_all add: keeps_def)

lemma keeps_bind [keeps_intros]: "keeps P m \<Longrightarrow> (\<And>a. keeps P (f a)) \<Longrightarrow> keeps P (bindS m f)"
  unfolding keeps_def bindS_def by (fastforce split: prod.split sum.split)

lemma keeps_if [keeps_intros]: "(b \<Longrightarrow> keeps P m) \<Longrightarrow> (\<not> b \<Longrightarrow> keeps P m') \<Longrightarrow> keeps P (if b then m else m')"
  by simp

lemma keeps_for [keeps_intros]: "(\<And>x. keeps P (f x)) \<Longrightarrow> keeps P (forS f xs)"
  unfolding keeps_def by (auto intro: forS_invariant)

lemma keeps_case_prod [keeps_intros]: "(\<And>a b. keeps P (f a b)) \<Longrightarrow> keeps P (case p of (a, b) \<Rightarrow> f a b)"
  by (cases p) simp

lemma bindS_Inr: "bindS m f s = (Inr b, s') \<longleftrightarrow> (\<exists>a t. m s = (Inr a, t) \<and> f a t = (Inr b, s'))"
  by (cases "m s") (auto simp: bindS_def split: sum.splits)

section \<open>Dictionaries\<close>

text \<open>
  A \<open>dict\<close> is an association list in insertion order with distinct keys: \<^const>\<open>map_of\<close>
  reads it, \<^const>\<open>AList.update\<close> assigns (in place, or at the end for a new key) and
  \<^const>\<open>AList.delete\<close> deletes. \<open>dict_get d k x\<close> is \<open>d.get(k, x)\<close>.
\<close>

type_synonym ('k, 'a) dict = "('k \<times> 'a) list"

definition dict_get :: "('k, 'a) dict \<Rightarrow> 'k \<Rightarrow> 'a \<Rightarrow> 'a" where
  "dict_get d k x = (case map_of d k of None \<Rightarrow> x | Some v \<Rightarrow> v)"

definition dict_has :: "('k, 'a) dict \<Rightarrow> 'k \<Rightarrow> bool" where
  "dict_has d k \<longleftrightarrow> map_of d k \<noteq> None"

definition dict_ok :: "('k, 'a) dict \<Rightarrow> bool" where
  "dict_ok d \<longleftrightarrow> distinct (map fst d)"

text \<open>Reading a missing key of a \<open>defaultdict\<close> stores the default.\<close>

definition dict_touch :: "'a \<Rightarrow> 'k \<Rightarrow> ('k, 'a) dict \<Rightarrow> ('k, 'a) dict" where
  "dict_touch x k d = (if dict_has d k then d else AList.update k x d)"

definition dict_of :: "('k \<times> 'a) list \<Rightarrow> ('k, 'a) dict" where
  "dict_of kvs = fold (\<lambda>(k, v). AList.update k v) kvs []"

lemma map_of_dict_of: "map_of (dict_of kvs) = map_of (rev kvs)"
proof -
  have "map_of (fold (\<lambda>(k, v). AList.update k v) kvs d) = map_of (rev kvs @ d)" for d
    by (induction kvs arbitrary: d) (auto simp: update_conv' map_add_def fun_eq_iff split: option.splits)
  then show ?thesis by (simp add: dict_of_def)
qed

lemma dict_get_simps [simp]: "dict_get [] k x = x"
  by (simp add: dict_get_def)

lemma dict_get_update [dict_simps]:
  "dict_get (AList.update k v d) k' x = (if k' = k then v else dict_get d k' x)"
  by (simp add: dict_get_def update_conv')

lemma dict_get_delete [dict_simps]:
  "dict_get (AList.delete k d) k' x = (if k' = k then x else dict_get d k' x)"
  by (simp add: dict_get_def delete_conv')

lemma dict_has_update [dict_simps]:
  "dict_has (AList.update k v d) k' \<longleftrightarrow> k' = k \<or> dict_has d k'"
  by (simp add: dict_has_def update_conv')

lemma dict_has_delete [dict_simps]:
  "dict_has (AList.delete k d) k' \<longleftrightarrow> k' \<noteq> k \<and> dict_has d k'"
  by (simp add: dict_has_def delete_conv')

lemma dict_has_iff: "dict_has d k \<longleftrightarrow> k \<in> fst ` set d"
  by (simp add: dict_has_def map_of_eq_None_iff)

lemma dict_get_touch [dict_simps]: "dict_get (dict_touch x k d) k' x = dict_get d k' x"
  by (auto simp: dict_touch_def dict_has_def dict_get_def update_conv')

lemma dict_has_touch [dict_simps]: "dict_has (dict_touch x k d) k' \<longleftrightarrow> k' = k \<or> dict_has d k'"
  by (auto simp: dict_touch_def dict_has_def update_conv')

lemma dict_ok_update [wf_intros]: "dict_ok d \<Longrightarrow> dict_ok (AList.update k v d)"
  by (simp add: dict_ok_def distinct_update)

lemma dict_ok_delete [wf_intros]: "dict_ok d \<Longrightarrow> dict_ok (AList.delete k d)"
  by (simp add: dict_ok_def distinct_delete)

lemma dict_ok_touch [wf_intros]: "dict_ok d \<Longrightarrow> dict_ok (dict_touch x k d)"
  by (simp add: dict_touch_def dict_ok_update)

lemma dict_ok_Nil [simp]: "dict_ok []"
  by (simp add: dict_ok_def)

lemma dict_ok_filter: "dict_ok d \<Longrightarrow> dict_ok (filter P d)"
  by (auto simp: dict_ok_def distinct_map intro: inj_on_subset)

lemma dict_ok_map_of: "dict_ok d \<Longrightarrow> (k, v) \<in> set d \<Longrightarrow> map_of d k = Some v"
  by (simp add: dict_ok_def)

lemma map_of_map_snd: "map_of (map (\<lambda>(k, v). (k, f k v)) d) k = map_option (f k) (map_of d k)"
  by (induction d) auto

lemma dict_ok_map_snd: "dict_ok d \<Longrightarrow> dict_ok (map (\<lambda>(k, v). (k, f k v)) d)"
  by (simp add: dict_ok_def comp_def case_prod_unfold)

section \<open>Sorted lists and binary search\<close>

text \<open>
  \<open>bisect\<close> of the standard library: the loop keeps \<open>lo \<le> hi\<close> and moves to the half that
  the test at the midpoint selects. \<open>bisect_left\<close> tests \<open>a[mid] < x\<close>, \<open>bisect_right\<close>
  tests \<open>not (x < a[mid])\<close>; \<open>insort_left\<close> and \<open>insort\<close> insert at those positions.
  \<open>f\<close> maps a list element to the identity that the element's comparison operators use.
\<close>

function bisect_loop :: "('b \<Rightarrow> bool) \<Rightarrow> 'b list \<Rightarrow> nat \<Rightarrow> nat \<Rightarrow> nat" where
  "bisect_loop t xs lo hi =
     (if lo < hi then
        (let mid = (lo + hi) div 2 in
         if t (xs ! mid) then bisect_loop t xs (mid + 1) hi else bisect_loop t xs lo mid)
      else lo)"
  by pat_completeness auto
termination
  by (relation "measure (\<lambda>(t, xs, lo, hi). hi - lo)") auto

declare bisect_loop.simps [simp del]

definition bisect_left :: "('b \<Rightarrow> 'k::linorder) \<Rightarrow> 'b list \<Rightarrow> 'k \<Rightarrow> nat" where
  "bisect_left f xs k = bisect_loop (\<lambda>x. f x < k) xs 0 (length xs)"

definition bisect_right :: "('b \<Rightarrow> 'k::linorder) \<Rightarrow> 'b list \<Rightarrow> 'k \<Rightarrow> nat" where
  "bisect_right f xs k = bisect_loop (\<lambda>x. \<not> k < f x) xs 0 (length xs)"

definition insert_at :: "nat \<Rightarrow> 'b \<Rightarrow> 'b list \<Rightarrow> 'b list" where
  "insert_at i x xs = take i xs @ x # drop i xs"

definition delete_at :: "nat \<Rightarrow> 'b list \<Rightarrow> 'b list" where
  "delete_at i xs = take i xs @ drop (Suc i) xs"

definition insort_left :: "('b \<Rightarrow> 'k::linorder) \<Rightarrow> 'b \<Rightarrow> 'b list \<Rightarrow> 'b list" where
  "insort_left f x xs = insert_at (bisect_left f xs (f x)) x xs"

definition insort_right :: "('b \<Rightarrow> 'k::linorder) \<Rightarrow> 'b \<Rightarrow> 'b list \<Rightarrow> 'b list" where
  "insort_right f x xs = insert_at (bisect_right f xs (f x)) x xs"

text \<open>The guarded lookup every caller writes: \<open>idx < len(xs) and xs[idx] == key\<close>.\<close>

definition sorted_find :: "('b \<Rightarrow> 'k::linorder) \<Rightarrow> 'b list \<Rightarrow> 'k \<Rightarrow> 'b option" where
  "sorted_find f xs k =
     (let i = bisect_left f xs k in if i < length xs \<and> f (xs ! i) = k then Some (xs ! i) else None)"

definition sorted_remove :: "('b \<Rightarrow> 'k::linorder) \<Rightarrow> 'k \<Rightarrow> 'b list \<Rightarrow> 'b list" where
  "sorted_remove f k xs =
     (let i = bisect_left f xs k in if i < length xs \<and> f (xs ! i) = k then delete_at i xs else xs)"

text \<open>Strictly ascending by identity: a sorted list without equal elements.\<close>

definition asc :: "('b \<Rightarrow> 'k::linorder) \<Rightarrow> 'b list \<Rightarrow> bool" where
  "asc f xs \<longleftrightarrow> sorted_wrt (<) (map f xs)"

lemma bisect_loop_bounds:
  assumes "lo \<le> hi"
  shows "lo \<le> bisect_loop t xs lo hi \<and> bisect_loop t xs lo hi \<le> hi"
  using assms
proof (induction t xs lo hi rule: bisect_loop.induct)
  case (1 t xs lo hi)
  let ?m = "(lo + hi) div 2"
  show ?case
  proof (cases "lo < hi")
    case True
    then have "?m < hi" "lo \<le> ?m" by auto
    with 1 True show ?thesis
      by (subst (1 2) bisect_loop.simps) (fastforce simp: Let_def)
  next
    case False
    with 1 show ?thesis by (subst (1 2) bisect_loop.simps) simp
  qed
qed

text \<open>
  On a list where the test holds on a prefix exactly, the loop finds the length of that prefix.
\<close>

lemma bisect_loop_split:
  assumes "\<forall>i < length xs. t (xs ! i) \<longleftrightarrow> i < p" "lo \<le> p" "p \<le> hi" "hi \<le> length xs"
  shows "bisect_loop t xs lo hi = p"
  using assms
proof (induction t xs lo hi rule: bisect_loop.induct)
  case (1 t xs lo hi)
  let ?m = "(lo + hi) div 2"
  show ?case
  proof (cases "lo < hi")
    case True
    then have m: "?m < hi" "lo \<le> ?m" by auto
    with 1(3-6) have t: "t (xs ! ?m) \<longleftrightarrow> ?m < p" by auto
    show ?thesis
    proof (cases "?m < p")
      case True
      with m t 1(1) [OF \<open>lo < hi\<close> refl] 1(3-6) show ?thesis
        by (subst bisect_loop.simps) (simp add: Let_def)
    next
      case False
      with m t 1(2) [OF \<open>lo < hi\<close> refl] 1(3-6) show ?thesis
        by (subst bisect_loop.simps) (simp add: Let_def)
    qed
  next
    case False
    with 1 show ?thesis by (subst bisect_loop.simps) simp
  qed
qed

lemma prefix_test:
  assumes "\<And>x y. x \<in> set us \<Longrightarrow> t x" "\<And>y. y \<in> set vs \<Longrightarrow> \<not> t y"
  shows "bisect_loop t (us @ vs) 0 (length (us @ vs)) = length us"
proof (rule bisect_loop_split)
  show "\<forall>i < length (us @ vs). t ((us @ vs) ! i) \<longleftrightarrow> i < length us"
    using assms by (auto simp: nth_append)
qed auto

lemma asc_append: "asc f (us @ vs) \<longleftrightarrow> asc f us \<and> asc f vs \<and> (\<forall>x \<in> set us. \<forall>y \<in> set vs. f x < f y)"
  by (auto simp: asc_def sorted_wrt_append)

lemma asc_Cons: "asc f (x # xs) \<longleftrightarrow> (\<forall>y \<in> set xs. f x < f y) \<and> asc f xs"
  by (auto simp: asc_def)

lemma asc_Nil [simp]: "asc f []"
  by (simp add: asc_def)

lemma asc_distinct: "asc f xs \<Longrightarrow> distinct xs"
  by (induction xs) (auto simp: asc_Cons)

lemma asc_sort_id: "asc f xs \<Longrightarrow> sort_key f xs = xs"
  by (simp add: asc_def sort_key_id_if_sorted strict_sorted_iff)

lemma asc_distinct_keys: "asc f xs \<Longrightarrow> distinct (map f xs)"
  by (simp add: asc_def strict_sorted_iff)

lemma asc_inj_on: "asc f xs \<Longrightarrow> inj_on f (set xs)"
  by (simp add: asc_def strict_sorted_iff distinct_map)

lemma asc_inj: "asc f xs \<Longrightarrow> x \<in> set xs \<Longrightarrow> y \<in> set xs \<Longrightarrow> f x = f y \<Longrightarrow> x = y"
  by (metis asc_inj_on inj_onD)

lemma asc_filter: "asc f xs \<Longrightarrow> asc f (filter P xs)"
  by (induction xs) (auto simp: asc_Cons)

text \<open>Every ascending list splits at a key: below it, at most one element at it, above it.\<close>

lemma asc_split:
  assumes "asc f xs"
  obtains us vs where "xs = us @ vs" "\<And>x. x \<in> set us \<Longrightarrow> f x < k" "\<And>x. x \<in> set vs \<Longrightarrow> k \<le> f x"
proof -
  have "xs = takeWhile (\<lambda>x. f x < k) xs @ dropWhile (\<lambda>x. f x < k) xs" by simp
  moreover have "f x < k" if "x \<in> set (takeWhile (\<lambda>x. f x < k) xs)" for x
    using that by (rule set_takeWhileD [THEN conjunct2])
  moreover have "k \<le> f x" if "x \<in> set (dropWhile (\<lambda>x. f x < k) xs)" for x
    using that assms
  proof (induction xs)
    case (Cons a xs)
    then show ?case by (cases "f a < k") (auto simp: asc_Cons)
  qed simp
  ultimately show ?thesis using that by blast
qed

lemma bisect_left_split:
  assumes "\<And>x. x \<in> set us \<Longrightarrow> f x < k" "\<And>x. x \<in> set vs \<Longrightarrow> k \<le> f x"
  shows "bisect_left f (us @ vs) k = length us"
  unfolding bisect_left_def by (rule prefix_test) (auto dest: assms simp: not_less)

lemma bisect_right_split:
  assumes "\<And>x. x \<in> set us \<Longrightarrow> f x \<le> k" "\<And>x. x \<in> set vs \<Longrightarrow> k < f x"
  shows "bisect_right f (us @ vs) k = length us"
  unfolding bisect_right_def by (rule prefix_test) (auto dest: assms simp: not_less)

lemma bisect_left_le: "bisect_left f xs k \<le> length xs"
  by (simp add: bisect_left_def bisect_loop_bounds)

lemma bisect_left_count:
  assumes "asc f xs"
  shows "bisect_left f xs k = length (filter (\<lambda>x. f x < k) xs)"
proof -
  obtain us vs where s: "xs = us @ vs" "\<And>x. x \<in> set us \<Longrightarrow> f x < k" "\<And>x. x \<in> set vs \<Longrightarrow> k \<le> f x"
    using asc_split [OF assms] by blast
  then have "filter (\<lambda>x. f x < k) us = us" "filter (\<lambda>x. f x < k) vs = []"
    by (auto simp: filter_id_conv filter_empty_conv not_less)
  with bisect_left_split [of us f k vs] s show ?thesis by simp
qed

lemma sorted_find_Some:
  assumes "asc f xs"
  shows "sorted_find f xs k = Some x \<longleftrightarrow> x \<in> set xs \<and> f x = k"
proof -
  obtain us vs where s: "xs = us @ vs" "\<And>x. x \<in> set us \<Longrightarrow> f x < k" "\<And>x. x \<in> set vs \<Longrightarrow> k \<le> f x"
    using asc_split [OF assms] by blast
  with bisect_left_split [of us f k vs] have b: "bisect_left f xs k = length us" by simp
  show ?thesis
  proof (cases vs)
    case Nil
    with s b show ?thesis by (auto simp: sorted_find_def Let_def)
  next
    case (Cons v vs')
    with s assms have "\<forall>y \<in> set vs'. f v < f y" by (simp add: asc_append asc_Cons)
    moreover have "f x \<noteq> k" if "x \<in> set us" for x using s(2) that by force
    moreover have "f x \<noteq> k" if "x \<in> set vs'" for x
      using s(3) Cons that calculation(1) by (metis leD list.set_intros(1) order_less_le_trans)
    ultimately show ?thesis using s(1) b Cons
      by (auto simp: sorted_find_def Let_def nth_append)
  qed
qed

lemma sorted_find_None:
  assumes "asc f xs"
  shows "sorted_find f xs k = None \<longleftrightarrow> k \<notin> f ` set xs"
proof -
  have "sorted_find f xs k = None \<longleftrightarrow> (\<forall>x. sorted_find f xs k \<noteq> Some x)"
    by (metis not_None_eq)
  then show ?thesis by (auto simp: sorted_find_Some [OF assms])
qed

lemma sorted_find_Nil [simp]: "sorted_find f [] k = None"
  by (simp add: sorted_find_def)

lemma sorted_find_sound: "sorted_find f xs k = Some x \<Longrightarrow> x \<in> set xs \<and> f x = k"
  by (auto simp: sorted_find_def Let_def split: if_splits) (metis nth_mem)

lemma insort_left_asc:
  assumes "asc f xs" "f x \<notin> f ` set xs"
  shows "asc f (insort_left f x xs) \<and> set (insort_left f x xs) = insert x (set xs)"
proof -
  obtain us vs where s: "xs = us @ vs" "\<And>y. y \<in> set us \<Longrightarrow> f y < f x" "\<And>y. y \<in> set vs \<Longrightarrow> f x \<le> f y"
    using asc_split [OF assms(1)] by blast
  have "insort_left f x xs = us @ x # vs"
    using bisect_left_split [of us f "f x" vs] s
    by (simp add: insort_left_def insert_at_def)
  moreover have "f x < f y" if "y \<in> set vs" for y
    using s(1,3) assms(2) that by (metis UnCI image_eqI order_le_less set_append)
  ultimately show ?thesis using assms(1) s by (auto simp: asc_append asc_Cons)
qed

lemma insort_right_asc:
  assumes "asc f xs" "f x \<notin> f ` set xs"
  shows "asc f (insort_right f x xs) \<and> set (insort_right f x xs) = insert x (set xs)"
proof -
  obtain us vs where s: "xs = us @ vs" "\<And>y. y \<in> set us \<Longrightarrow> f y < f x" "\<And>y. y \<in> set vs \<Longrightarrow> f x \<le> f y"
    using asc_split [OF assms(1)] by blast
  have lt: "f x < f y" if "y \<in> set vs" for y
    using s(1,3) assms(2) that by (metis UnCI image_eqI order_le_less set_append)
  have "insort_right f x xs = us @ x # vs"
    using bisect_right_split [of us f "f x" vs] s(1,2) lt
    by (simp add: insort_right_def insert_at_def order_less_imp_le)
  then show ?thesis using assms(1) s lt by (auto simp: asc_append asc_Cons)
qed

lemma sorted_remove_filter:
  assumes "asc f xs"
  shows "sorted_remove f k xs = filter (\<lambda>x. f x \<noteq> k) xs"
proof -
  obtain us vs where s: "xs = us @ vs" "\<And>x. x \<in> set us \<Longrightarrow> f x < k" "\<And>x. x \<in> set vs \<Longrightarrow> k \<le> f x"
    using asc_split [OF assms] by blast
  have b: "bisect_left f xs k = length us" using bisect_left_split [of us f k vs] s by simp
  have us: "filter (\<lambda>x. f x \<noteq> k) us = us" using s(2) by (force simp: filter_id_conv)
  show ?thesis
  proof (cases vs)
    case Nil
    with s b us show ?thesis by (simp add: sorted_remove_def Let_def)
  next
    case (Cons v vs')
    with s assms have "\<forall>y \<in> set vs'. f v < f y" by (simp add: asc_append asc_Cons)
    with s(3) Cons have "filter (\<lambda>x. f x \<noteq> k) vs' = vs'" by (force simp: filter_id_conv)
    with s(1) b us Cons show ?thesis
      by (simp add: sorted_remove_def Let_def nth_append delete_at_def)
  qed
qed

lemmas sorted_index_simps = sorted_find_Some sorted_find_None sorted_remove_filter

text \<open>Two ascending lists with the same elements are equal: an index is determined by its set.\<close>

lemma asc_unique: "asc f xs \<Longrightarrow> asc f ys \<Longrightarrow> set xs = set ys \<Longrightarrow> xs = ys"
proof (induction xs arbitrary: ys)
  case (Cons x xs)
  then obtain y ys' where ys: "ys = y # ys'" by (cases ys) auto
  have "x = y"
  proof (rule ccontr)
    assume "x \<noteq> y"
    with Cons.prems ys have "x \<in> set ys'" "y \<in> set xs" by auto
    with Cons.prems ys have "f y < f x" "f x < f y" by (auto simp: asc_Cons)
    then show False by simp
  qed
  moreover from this Cons.prems ys have "set xs = set ys'"
    by (auto simp: asc_Cons)
  ultimately show ?case using Cons.IH [of ys'] Cons.prems ys by (simp add: asc_Cons)
qed simp

section \<open>Identity-keyed sets\<close>

text \<open>
  A Python \<open>set\<close> of objects whose \<open>__eq__\<close> and \<open>__hash__\<close> use an identity \<open>f\<close>, as a list in
  insertion order: adding an equal element keeps the old one, \<open>discard\<close> removes by identity.
\<close>

definition pset_add :: "('b \<Rightarrow> 'k) \<Rightarrow> 'b \<Rightarrow> 'b list \<Rightarrow> 'b list" where
  "pset_add f x xs = (if f x \<in> f ` set xs then xs else xs @ [x])"

definition pset_update :: "('b \<Rightarrow> 'k) \<Rightarrow> 'b list \<Rightarrow> 'b list \<Rightarrow> 'b list" where
  "pset_update f xs ys = fold (pset_add f) ys xs"

definition pset_discard :: "('b \<Rightarrow> 'k) \<Rightarrow> 'k \<Rightarrow> 'b list \<Rightarrow> 'b list" where
  "pset_discard f k xs = filter (\<lambda>x. f x \<noteq> k) xs"

lemma pset_add_ids: "f ` set (pset_add f x xs) = insert (f x) (f ` set xs)"
  by (auto simp: pset_add_def)

lemma pset_add_subset: "set (pset_add f x xs) \<subseteq> insert x (set xs)"
  by (auto simp: pset_add_def)

lemma pset_update_subset: "set (pset_update f xs ys) \<subseteq> set xs \<union> set ys"
proof (induction ys arbitrary: xs)
  case (Cons y ys)
  then show ?case using pset_add_subset [of f y xs] by (fastforce simp: pset_update_def)
qed (simp add: pset_update_def)

lemma pset_update_ids: "f ` set (pset_update f xs ys) = f ` set xs \<union> f ` set ys"
  by (induction ys arbitrary: xs) (auto simp: pset_update_def pset_add_ids)

lemma pset_discard_set [simp]: "set (pset_discard f k xs) = {x \<in> set xs. f x \<noteq> k}"
  by (auto simp: pset_discard_def)

end
