(* ===== verification/Values.thy ===== *)
theory Values
  imports Prelude
begin

text \<open>
  The values the program handles. \<open>json\<close> is a JSON document (payloads, canonical data,
  metadata); \<open>pyval\<close> is a Python object as the canonical encoders of
  \<open>core/versioning/canonical.py\<close> tell them apart. A \<open>float\<close> is kept as its finiteness, its
  value when that is an integer (\<open>float.is_integer\<close>), and its \<open>repr\<close>, which determines it;
  integers are unbounded.
\<close>

datatype pyfloat = PyFloat (flt_finite: bool) (flt_int: "int option") (flt_repr: string)

datatype json =
    JNull
  | JBool bool
  | JInt int
  | JFloat pyfloat
  | JStr string
  | JList "json list"
  | JObj "(string \<times> json) list"

datatype pyval =
    PNone
  | PBool bool
  | PInt int
  | PFloat pyfloat
  | PStr string
  | PBytes "nat list"
  | PMap "(pyval \<times> pyval) list"
  | PSeq "pyval list"
  | PSet "pyval list"
  | PCanon pyval
  | PData "(string \<times> pyval) list"
  | PType string string
  | PAlias string
  | POpaque string

text \<open>\<open>value[key]\<close> and \<open>value.get(key)\<close> on a JSON document.\<close>

fun jget :: "json \<Rightarrow> string \<Rightarrow> json option" where
  "jget (JObj d) k = map_of d k"
| "jget _ k = None"

fun jitem :: "json \<Rightarrow> string \<Rightarrow> json res" where
  "jitem (JObj d) k = (case map_of d k of None \<Rightarrow> Inl KeyError | Some v \<Rightarrow> Inr v)"
| "jitem _ k = Inl TypeError"

text \<open>
  \<open>str(x)\<close> on a JSON value: decimal integers, the names of the constants, and \<open>repr\<close> for
  containers, in which strings are quoted.
\<close>

definition digit_char :: "nat \<Rightarrow> char" where
  "digit_char n = char_of (48 + n)"

fun show_nat :: "nat \<Rightarrow> string" where
  "show_nat n = (if n < 10 then [digit_char n] else show_nat (n div 10) @ [digit_char (n mod 10)])"

declare show_nat.simps [simp del]

definition show_int :: "int \<Rightarrow> string" where
  "show_int i = (if i < 0 then CHR ''-'' # show_nat (nat (- i)) else show_nat (nat i))"

definition hex_char :: "nat \<Rightarrow> char" where
  "hex_char n = (if n < 10 then char_of (48 + n) else char_of (87 + n))"

definition repr_quote :: "string \<Rightarrow> char" where
  "repr_quote s = (if CHR 0x27 \<in> set s \<and> CHR 0x22 \<notin> set s then CHR 0x22 else CHR 0x27)"

definition repr_char :: "char \<Rightarrow> char \<Rightarrow> string" where
  "repr_char q c =
     (if c = q \<or> c = CHR 0x5C then [CHR 0x5C, c]
      else if c = CHR 0x0A then [CHR 0x5C, CHR ''n'']
      else if c = CHR 0x0D then [CHR 0x5C, CHR ''r'']
      else if c = CHR 0x09 then [CHR 0x5C, CHR ''t'']
      else if (of_char c :: nat) < 32 \<or> (of_char c :: nat) = 127
      then [CHR 0x5C, CHR ''x'', hex_char (of_char c div 16), hex_char (of_char c mod 16)]
      else [c])"

definition repr_str :: "string \<Rightarrow> string" where
  "repr_str s = (let q = repr_quote s in [q] @ concat (map (repr_char q) s) @ [q])"

fun join :: "string \<Rightarrow> string list \<Rightarrow> string" where
  "join sep [] = []"
| "join sep [x] = x"
| "join sep (x # y # ys) = x @ sep @ join sep (y # ys)"

text \<open>\<open>s in t\<close> on strings.\<close>

definition substring :: "string \<Rightarrow> string \<Rightarrow> bool" where
  "substring s t \<longleftrightarrow> list_ex (\<lambda>i. take (length s) (drop i t) = s) [0..<Suc (length t)]"

fun py_repr :: "json \<Rightarrow> string" where
  "py_repr JNull = ''None''"
| "py_repr (JBool b) = (if b then ''True'' else ''False'')"
| "py_repr (JInt i) = show_int i"
| "py_repr (JFloat x) = flt_repr x"
| "py_repr (JStr s) = repr_str s"
| "py_repr (JList xs) = ''['' @ join '', '' (map py_repr xs) @ '']''"
| "py_repr (JObj d) = ''{'' @ join '', '' (map (\<lambda>(k, v). repr_str k @ '': '' @ py_repr v) d) @ ''}''"

fun py_str :: "json \<Rightarrow> string" where
  "py_str (JStr s) = s"
| "py_str v = py_repr v"

text \<open>\<open>bool(x)\<close> on a JSON value.\<close>

fun truthy :: "json \<Rightarrow> bool" where
  "truthy JNull = False"
| "truthy (JBool b) = b"
| "truthy (JInt i) = (i \<noteq> 0)"
| "truthy (JFloat x) = (flt_int x \<noteq> Some 0)"
| "truthy (JStr s) = (s \<noteq> [])"
| "truthy (JList xs) = (xs \<noteq> [])"
| "truthy (JObj d) = (d \<noteq> [])"

fun py_of_json :: "json \<Rightarrow> pyval" where
  "py_of_json JNull = PNone"
| "py_of_json (JBool b) = PBool b"
| "py_of_json (JInt i) = PInt i"
| "py_of_json (JFloat x) = PFloat x"
| "py_of_json (JStr s) = PStr s"
| "py_of_json (JList xs) = PSeq (map py_of_json xs)"
| "py_of_json (JObj d) = PMap (map (\<lambda>(k, v). (PStr k, py_of_json v)) d)"

text \<open>A document in which every object is a dictionary: no key occurs twice.\<close>

fun json_ok :: "json \<Rightarrow> bool" where
  "json_ok (JList xs) = list_all json_ok xs"
| "json_ok (JObj d) = (distinct (map fst d) \<and> list_all (\<lambda>(k, v). json_ok v) d)"
| "json_ok _ = True"

text \<open>
  \<open>==\<close> on JSON values: booleans and integral floats equal the integer of the same value, and
  dictionaries compare without regard to order. \<open>json_key\<close> is a normal form for it.
\<close>

fun json_key :: "json \<Rightarrow> json" where
  "json_key (JBool b) = JInt (if b then 1 else 0)"
| "json_key (JFloat x) = (case flt_int x of Some i \<Rightarrow> JInt i | None \<Rightarrow> JFloat x)"
| "json_key (JList xs) = JList (map json_key xs)"
| "json_key (JObj d) = JObj (sort_key fst (map (\<lambda>(k, v). (k, json_key v)) d))"
| "json_key v = v"

definition py_eq :: "json \<Rightarrow> json \<Rightarrow> bool" where
  "py_eq a b \<longleftrightarrow> json_key a = json_key b"

lemma jitem_Some: "jget v k = Some x \<Longrightarrow> jitem v k = Inr x"
  by (cases v) auto

end
