(* ===== verification/Identity.thy ===== *)
theory Identity
  imports Values
begin

text \<open>
  Graph identity, from \<open>core/versioning/identity/nodes.py\<close> and \<open>edges.py\<close>.

  The version slot of an identity holds any totally ordered value (\<open>VersionValueProtocol\<close>);
  \<open>semver.Version\<close> and \<open>pendulum.Date\<close> come from packages outside the repository. The type
  variable \<open>'v\<close> stands for the version values, its order and equality for theirs, and what else
  the code asks of a version is an argument: \<open>strategy_of\<close> is \<open>type(version)\<close> and \<open>show_v\<close> is
  \<open>str(version)\<close>.
\<close>

section \<open>Parsing versions\<close>

text \<open>
  The argument of \<open>parse_version\<close> is a parsed value already, a \<open>DateTime\<close> (a \<open>Date\<close> by
  subclassing that is not accepted as one), a string, or anything else. \<open>semver_parse\<close> is
  \<open>Version.parse\<close>, \<open>pendulum_parse\<close> is \<open>pendulum.parse(..., exact=True)\<close>; \<open>None\<close> is their
  \<open>ValueError\<close>.
\<close>

datatype 'v version_arg = Parsed 'v | DateTimeArg 'v | StrArg string | OtherArg

datatype 'v pendulum_value = PDate 'v | PDateTime 'v | PNotADate

definition parse_version ::
  "(string \<Rightarrow> 'v option) \<Rightarrow> (string \<Rightarrow> 'v pendulum_value option) \<Rightarrow> 'v version_arg \<Rightarrow> 'v res" where
  "parse_version semver_parse pendulum_parse value =
     (case value of
        Parsed v \<Rightarrow> Inr v
      | DateTimeArg v \<Rightarrow> Inl TypeError
      | OtherArg \<Rightarrow> Inl TypeError
      | StrArg s \<Rightarrow>
          (case semver_parse s of
             Some v \<Rightarrow> Inr v
           | None \<Rightarrow>
               (case pendulum_parse s of
                  Some (PDate d) \<Rightarrow> Inr d
                | Some (PDateTime d) \<Rightarrow> Inr d
                | Some PNotADate \<Rightarrow> Inl ValueError
                | None \<Rightarrow> Inl ValueError)))"

section \<open>Node identity\<close>

datatype 'v node_id = NodeId (nid_namespace: string) (nid_kind: string) (nid_version: 'v)

definition identity :: "'v node_id \<Rightarrow> string \<times> string \<times> 'v" where
  "identity n = (nid_namespace n, nid_kind n, nid_version n)"

lemma identity_inj: "identity a = identity b \<longleftrightarrow> a = b"
  by (cases a; cases b) (auto simp: identity_def)

instantiation node_id :: (linorder) linorder
begin

definition less_eq_node_id :: "'a node_id \<Rightarrow> 'a node_id \<Rightarrow> bool" where
  "less_eq_node_id a b \<longleftrightarrow> identity a \<le> identity b"

definition less_node_id :: "'a node_id \<Rightarrow> 'a node_id \<Rightarrow> bool" where
  "less_node_id a b \<longleftrightarrow> identity a < identity b"

instance
  by standard (auto simp: less_eq_node_id_def less_node_id_def identity_inj
    dest: order_antisym intro: order_trans)

end

text \<open>\<open>NodeId.__post_init__\<close>: the namespace is not empty (kind and version are typed here).\<close>

definition mk_node_id :: "string \<Rightarrow> string \<Rightarrow> 'v \<Rightarrow> 'v node_id res" where
  "mk_node_id ns k v = (if ns = [] then Inl ValueError else Inr (NodeId ns k v))"

definition node_id_parse ::
  "('v version_arg \<Rightarrow> 'v res) \<Rightarrow> string \<Rightarrow> string \<Rightarrow> 'v version_arg \<Rightarrow> 'v node_id res" where
  "node_id_parse parse ns k v = bindR (parse v) (mk_node_id ns k)"

definition with_namespace :: "'v node_id \<Rightarrow> string \<Rightarrow> 'v node_id res" where
  "with_namespace n ns = mk_node_id ns (nid_kind n) (nid_version n)"

text \<open>
  The comparison operators check the operand and the strategies before they compare; the right
  operand is \<open>None\<close> when it is not a \<open>NodeId\<close>.
\<close>

definition check_operand :: "('v \<Rightarrow> string) \<Rightarrow> 'v node_id \<Rightarrow> 'v node_id option \<Rightarrow> 'v node_id res" where
  "check_operand strategy_of a other =
     (case other of
        None \<Rightarrow> Inl NotImplementedError
      | Some b \<Rightarrow> if strategy_of (nid_version a) \<noteq> strategy_of (nid_version b)
                  then Inl TypeError else Inr b)"

definition node_eq :: "('v \<Rightarrow> string) \<Rightarrow> 'v node_id \<Rightarrow> 'v node_id option \<Rightarrow> bool res" where
  "node_eq strategy_of a other =
     bindR (check_operand strategy_of a other) (\<lambda>b. Inr (identity a = identity b))"

definition node_lt :: "('v::linorder \<Rightarrow> string) \<Rightarrow> 'v node_id \<Rightarrow> 'v node_id option \<Rightarrow> bool res" where
  "node_lt strategy_of a other =
     bindR (check_operand strategy_of a other) (\<lambda>b. Inr (identity a < identity b))"

definition node_gt :: "('v::linorder \<Rightarrow> string) \<Rightarrow> 'v node_id \<Rightarrow> 'v node_id option \<Rightarrow> bool res" where
  "node_gt strategy_of a other =
     bindR (check_operand strategy_of a other) (\<lambda>b. Inr (identity a > identity b))"

definition node_str :: "('v \<Rightarrow> string) \<Rightarrow> 'v node_id \<Rightarrow> string" where
  "node_str show_v n =
     (if nid_namespace n \<noteq> [] then nid_namespace n @ '':'' @ nid_kind n @ ''@'' @ show_v (nid_version n)
      else nid_kind n @ ''@'' @ show_v (nid_version n))"

text \<open>The canonical data that \<open>NodeId.digest\<close> hashes.\<close>

definition node_id_canonical :: "('v \<Rightarrow> string) \<Rightarrow> 'v node_id \<Rightarrow> json" where
  "node_id_canonical show_v n = JObj
     [(''namespace'', JStr (nid_namespace n)), (''kind'', JStr (nid_kind n)),
      (''version'', JStr (show_v (nid_version n)))]"

section \<open>Edge identity\<close>

definition default_discriminator :: string where
  "default_discriminator = ''default''"

datatype 'v edge_id =
  EdgeId (eid_source: "'v node_id") (eid_target: "'v node_id") (eid_discriminator: string)

definition edge_identity :: "'v edge_id \<Rightarrow> 'v node_id \<times> 'v node_id \<times> string" where
  "edge_identity e = (eid_source e, eid_target e, eid_discriminator e)"

lemma edge_identity_inj: "edge_identity a = edge_identity b \<longleftrightarrow> a = b"
  by (cases a; cases b) (auto simp: edge_identity_def)

definition edge_lt :: "'v::linorder edge_id \<Rightarrow> 'v edge_id \<Rightarrow> bool" where
  "edge_lt a b \<longleftrightarrow> edge_identity a < edge_identity b"

instantiation edge_id :: (linorder) linorder
begin

definition less_eq_edge_id :: "'a edge_id \<Rightarrow> 'a edge_id \<Rightarrow> bool" where
  "less_eq_edge_id a b \<longleftrightarrow> edge_identity a \<le> edge_identity b"

definition less_edge_id :: "'a edge_id \<Rightarrow> 'a edge_id \<Rightarrow> bool" where
  "less_edge_id a b \<longleftrightarrow> edge_lt a b"

instance
  by standard (auto simp: less_eq_edge_id_def less_edge_id_def edge_lt_def edge_identity_inj
    dest: order_antisym intro: order_trans)

end

text \<open>\<open>EdgeId.__post_init__\<close>: the three checks, in the order of the code.\<close>

definition mk_edge_id :: "'v node_id \<Rightarrow> 'v node_id \<Rightarrow> string \<Rightarrow> 'v edge_id res" where
  "mk_edge_id s t d =
     (if d = [] then Inl ValueError
      else if nid_namespace s \<noteq> nid_namespace t then Inl ValueError
      else if nid_kind s \<noteq> nid_kind t then Inl ValueError
      else Inr (EdgeId s t d))"

definition edge_ok :: "'v edge_id \<Rightarrow> bool" where
  "edge_ok e \<longleftrightarrow> eid_discriminator e \<noteq> [] \<and> nid_namespace (eid_source e) = nid_namespace (eid_target e)
     \<and> nid_kind (eid_source e) = nid_kind (eid_target e)"

definition eid_kind :: "'v edge_id \<Rightarrow> string" where
  "eid_kind e = nid_kind (eid_source e)"

definition eid_namespace :: "'v edge_id \<Rightarrow> string" where
  "eid_namespace e = nid_namespace (eid_source e)"

definition eid_key :: "'v edge_id \<Rightarrow> 'v node_id \<times> 'v node_id" where
  "eid_key e = (eid_source e, eid_target e)"

definition is_default_discriminator :: "'v edge_id \<Rightarrow> bool" where
  "is_default_discriminator e \<longleftrightarrow> eid_discriminator e = default_discriminator"

definition edge_str :: "('v \<Rightarrow> string) \<Rightarrow> 'v edge_id \<Rightarrow> string" where
  "edge_str show_v e =
     (let label = node_str show_v (eid_source e) @ ''->'' @ node_str show_v (eid_target e) in
      if is_default_discriminator e then label else label @ ''#'' @ eid_discriminator e)"

definition edge_id_canonical :: "('v \<Rightarrow> string) \<Rightarrow> 'v edge_id \<Rightarrow> json" where
  "edge_id_canonical show_v e = JObj
     [(''source'', node_id_canonical show_v (eid_source e)),
      (''target'', node_id_canonical show_v (eid_target e)),
      (''discriminator'', JStr (eid_discriminator e))]"

section \<open>Lemmas\<close>

lemma mk_edge_id_ok: "mk_edge_id s t d = Inr e \<longleftrightarrow> e = EdgeId s t d \<and> edge_ok e"
  by (auto simp: mk_edge_id_def edge_ok_def)

lemma edge_less_endpoints:
  "a < b \<longleftrightarrow> eid_source a < eid_source b \<or> eid_source a = eid_source b \<and>
     (eid_target a < eid_target b \<or> eid_target a = eid_target b \<and>
        eid_discriminator a < eid_discriminator b)"
  for a b :: "'v::linorder edge_id"
  by (simp add: less_edge_id_def edge_lt_def edge_identity_def less_prod_def')

lemma node_less_version:
  "nid_namespace a = nid_namespace b \<Longrightarrow> nid_kind a = nid_kind b \<Longrightarrow>
     a < b \<longleftrightarrow> nid_version a < nid_version b"
  for a b :: "'v::linorder node_id"
  by (simp add: less_node_id_def identity_def)

end
