(* ===== verification/Metadata.thy ===== *)
theory Metadata
  imports Identity
begin

text \<open>
  References, type references and descriptors, from \<open>core/versioning/identity/metadata.py\<close> and
  \<open>core/versioning/frozen.py\<close>, with the canonical (JSON) form of each and the reader of that form.
  A \<open>FrozenMap\<close> keeps insertion order, so it is an association list with distinct keys.
\<close>

section \<open>FrozenMap\<close>

type_synonym ('k, 'a) frozen_map = "('k \<times> 'a) list"

definition fm_updated :: "('k, 'a) frozen_map \<Rightarrow> ('k \<times> 'a) list \<Rightarrow> ('k, 'a) frozen_map" where
  "fm_updated m values = fold (\<lambda>(k, v). AList.update k v) values m"

definition fm_removed :: "('k, 'a) frozen_map \<Rightarrow> 'k list \<Rightarrow> ('k, 'a) frozen_map" where
  "fm_removed m keys = filter (\<lambda>(k, v). k \<notin> set keys) m"

definition fm_sorted_items :: "(string, 'a) frozen_map \<Rightarrow> (string \<times> 'a) list" where
  "fm_sorted_items m = sort_key fst m"

section \<open>References\<close>

type_synonym metadata = "(string \<times> json) list"

record model_ref =
  mr_provider_id :: string
  mr_entity_id :: string
  mr_metadata :: metadata

text \<open>
  A node key carries a bare \<open>NodeRef\<close> or, by subclassing, a \<open>ModelRef\<close>; an edge key carries an
  \<open>EdgeRef\<close>, of which \<open>MigrationRef\<close> and \<open>HookRef\<close> are subclasses. Metadata does not take part in
  equality (\<open>compare=False\<close>): \<open>model_ref_key\<close> is what equality and hashing of a \<open>ModelRef\<close> read.
\<close>

datatype node_ref = NodeRef metadata | NodeModelRef model_ref

record migration_ref =
  mgr_provider_id :: string
  mgr_entity_id :: string
  mgr_metadata :: metadata

datatype edge_ref = EdgeRef metadata | EdgeMigrationRef migration_ref

record hook_ref =
  hr_provider_id :: string
  hr_entity_id :: string
  hr_config :: metadata
  hr_metadata :: metadata

definition model_ref_key :: "model_ref \<Rightarrow> string \<times> string" where
  "model_ref_key r = (mr_provider_id r, mr_entity_id r)"

definition hook_ref_key :: "hook_ref \<Rightarrow> string \<times> string" where
  "hook_ref_key r = (hr_provider_id r, hr_entity_id r)"

text \<open>\<open>KeyRef.merged\<close> and \<open>KeyRef.get\<close> on the metadata mapping.\<close>

definition ref_merged :: "metadata \<Rightarrow> (string \<times> json) list \<Rightarrow> metadata" where
  "ref_merged m values = fold (\<lambda>(k, v). AList.update k v) values m"

definition ref_get :: "metadata \<Rightarrow> string \<Rightarrow> json \<Rightarrow> json" where
  "ref_get m k d = dict_get m k d"

definition metadata_entry :: "metadata \<Rightarrow> (string \<times> json) list" where
  "metadata_entry m = (if m = [] then [] else [(''metadata'', JObj m)])"

definition key_ref_to_canonical :: "metadata \<Rightarrow> json" where
  "key_ref_to_canonical m = JObj (metadata_entry m)"

text \<open>\<open>dict(value.get("metadata", \{\}))\<close>; \<open>dict\<close> of something that is no mapping raises.\<close>

fun as_dict :: "json option \<Rightarrow> metadata res" where
  "as_dict None = Inr []"
| "as_dict (Some (JObj d)) = Inr d"
| "as_dict (Some _) = Inl TypeError"

definition key_ref_from_canonical :: "json \<Rightarrow> metadata res" where
  "key_ref_from_canonical v = as_dict (jget v ''metadata'')"

definition model_ref_to_canonical :: "model_ref \<Rightarrow> json" where
  "model_ref_to_canonical r = JObj
     ([(''provider_id'', JStr (mr_provider_id r)), (''entity_id'', JStr (mr_entity_id r))]
      @ metadata_entry (mr_metadata r))"

text \<open>The reader accepts the older names \<open>provider\<close> and \<open>model_id\<close> as fallbacks.\<close>

definition get_or :: "json \<Rightarrow> string \<Rightarrow> string \<Rightarrow> json" where
  "get_or v k k' = (case jget v k of Some x \<Rightarrow> x | None \<Rightarrow>
     (case jget v k' of Some x \<Rightarrow> x | None \<Rightarrow> JNull))"

definition model_ref_from_canonical :: "json \<Rightarrow> model_ref res" where
  "model_ref_from_canonical v =
     (let p = get_or v ''provider_id'' ''provider''; e = get_or v ''entity_id'' ''model_id'' in
      if p = JNull \<or> e = JNull then Inl ValueError
      else bindR (as_dict (jget v ''metadata'')) (\<lambda>m.
        Inr \<lparr>mr_provider_id = py_str p, mr_entity_id = py_str e, mr_metadata = m\<rparr>))"

definition migration_ref_to_canonical :: "migration_ref \<Rightarrow> json" where
  "migration_ref_to_canonical r = JObj
     ([(''provider_id'', JStr (mgr_provider_id r)), (''entity_id'', JStr (mgr_entity_id r))]
      @ metadata_entry (mgr_metadata r))"

definition migration_ref_from_canonical :: "json \<Rightarrow> migration_ref res" where
  "migration_ref_from_canonical v =
     bindR (jitem v ''provider_id'') (\<lambda>p. bindR (jitem v ''entity_id'') (\<lambda>e.
     bindR (as_dict (jget v ''metadata'')) (\<lambda>m.
       Inr \<lparr>mgr_provider_id = py_str p, mgr_entity_id = py_str e, mgr_metadata = m\<rparr>)))"

definition hook_ref_to_canonical :: "hook_ref \<Rightarrow> json" where
  "hook_ref_to_canonical r = JObj
     ([(''provider_id'', JStr (hr_provider_id r)), (''entity_id'', JStr (hr_entity_id r)),
       (''config'', JObj (hr_config r))]
      @ metadata_entry (hr_metadata r))"

definition hook_ref_from_canonical :: "json \<Rightarrow> hook_ref res" where
  "hook_ref_from_canonical v =
     bindR (jitem v ''provider_id'') (\<lambda>p. bindR (jitem v ''entity_id'') (\<lambda>e.
     bindR (jitem v ''config'') (\<lambda>c. bindR (as_dict (Some c)) (\<lambda>c.
     bindR (as_dict (jget v ''metadata'')) (\<lambda>m.
       Inr \<lparr>hr_provider_id = py_str p, hr_entity_id = py_str e, hr_config = c, hr_metadata = m\<rparr>)))))"

record migration_descriptor =
  md_strategy :: string
  md_identity :: string

definition migration_descriptor_to_canonical :: "migration_descriptor \<Rightarrow> json" where
  "migration_descriptor_to_canonical d = JObj
     [(''strategy'', JStr (md_strategy d)), (''identity'', JStr (md_identity d))]"

definition migration_descriptor_from_canonical :: "json \<Rightarrow> migration_descriptor res" where
  "migration_descriptor_from_canonical v =
     bindR (jitem v ''strategy'') (\<lambda>s. bindR (jitem v ''identity'') (\<lambda>i.
       Inr \<lparr>md_strategy = py_str s, md_identity = py_str i\<rparr>))"

section \<open>Type references\<close>

datatype type_kind = TK_ANY | TK_NULL | TK_BOOLEAN | TK_INTEGER | TK_NUMBER | TK_STRING | TK_BYTES
  | TK_ARRAY | TK_OBJECT | TK_MAP | TK_UNION | TK_LITERAL | TK_MODEL | TK_UNKNOWN

fun type_kind_value :: "type_kind \<Rightarrow> string" where
  "type_kind_value TK_ANY = ''any''"
| "type_kind_value TK_NULL = ''null''"
| "type_kind_value TK_BOOLEAN = ''boolean''"
| "type_kind_value TK_INTEGER = ''integer''"
| "type_kind_value TK_NUMBER = ''number''"
| "type_kind_value TK_STRING = ''string''"
| "type_kind_value TK_BYTES = ''bytes''"
| "type_kind_value TK_ARRAY = ''array''"
| "type_kind_value TK_OBJECT = ''object''"
| "type_kind_value TK_MAP = ''map''"
| "type_kind_value TK_UNION = ''union''"
| "type_kind_value TK_LITERAL = ''literal''"
| "type_kind_value TK_MODEL = ''model''"
| "type_kind_value TK_UNKNOWN = ''unknown''"

definition all_type_kinds :: "type_kind list" where
  "all_type_kinds = [TK_ANY, TK_NULL, TK_BOOLEAN, TK_INTEGER, TK_NUMBER, TK_STRING, TK_BYTES,
     TK_ARRAY, TK_OBJECT, TK_MAP, TK_UNION, TK_LITERAL, TK_MODEL, TK_UNKNOWN]"

text \<open>\<open>TypeKind(value)\<close>: the member with that value, or \<open>ValueError\<close>.\<close>

definition type_kind_of :: "json \<Rightarrow> type_kind res" where
  "type_kind_of v = (case List.find (\<lambda>k. JStr (type_kind_value k) = v) all_type_kinds of
     None \<Rightarrow> Inl ValueError | Some k \<Rightarrow> Inr k)"

datatype type_ref =
  TypeRef (tr_kind: type_kind) (tr_item: "type_ref option") (tr_args: "type_ref list")
    (tr_fields: "(string \<times> type_ref) list option") (tr_ref: "model_ref option")
    (tr_version: "string option") (tr_values: "json list") (tr_name: "string option")

definition opt_entry :: "string \<Rightarrow> json option \<Rightarrow> (string \<times> json) list" where
  "opt_entry k v = (case v of None \<Rightarrow> [] | Some x \<Rightarrow> [(k, x)])"

definition list_entry :: "string \<Rightarrow> json list \<Rightarrow> (string \<times> json) list" where
  "list_entry k xs = (if xs = [] then [] else [(k, JList xs)])"

fun type_ref_to_canonical :: "type_ref \<Rightarrow> json" where
  "type_ref_to_canonical (TypeRef kd item args flds ref ver vals nm) = JObj
     ([(''kind'', JStr (type_kind_value kd))]
      @ opt_entry ''name'' (map_option JStr nm)
      @ opt_entry ''item'' (map_option type_ref_to_canonical item)
      @ list_entry ''args'' (map type_ref_to_canonical args)
      @ opt_entry ''fields'' (map_option (\<lambda>m. JObj (fm_sorted_items
          (map (\<lambda>(k, t). (k, type_ref_to_canonical t)) m))) flds)
      @ opt_entry ''ref'' (map_option model_ref_to_canonical ref)
      @ opt_entry ''version'' (map_option JStr ver)
      @ list_entry ''values'' vals)"

text \<open>Iterating \<open>value.get(key, ())\<close>: a missing key is the empty tuple.\<close>

fun as_list :: "json option \<Rightarrow> json list res" where
  "as_list None = Inr []"
| "as_list (Some (JList xs)) = Inr xs"
| "as_list (Some _) = Inl TypeError"

definition present :: "json option \<Rightarrow> json option" where
  "present v = (case v of Some JNull \<Rightarrow> None | _ \<Rightarrow> v)"

lemma present_Some: "present v = Some w \<Longrightarrow> v = Some w"
  by (auto simp: present_def split: option.splits json.splits)

lemma jget_size: "jget v k = Some w \<Longrightarrow> size w < size v"
proof (induction v k rule: jget.induct)
  case (1 d k)
  then have "(k, w) \<in> set d" by (auto dest: map_of_SomeD)
  then have "size w < size_list (size_prod (\<lambda>_. 0) size) d"
    by (induction d) auto
  then show ?case by simp
qed auto

lemma as_list_size: "as_list v = Inr xs \<Longrightarrow> x \<in> set xs \<Longrightarrow> v = Some w \<Longrightarrow> size x < size w"
proof (cases w)
  case (JList ys)
  assume "as_list v = Inr xs" "x \<in> set xs" "v = Some w"
  with JList have "x \<in> set ys" by simp
  then have "size x < Suc (size_list size ys)" by (induction ys) auto
  with JList show ?thesis by simp
qed auto

lemma as_dict_size:
  "as_dict v = Inr d \<Longrightarrow> (k, x) \<in> set d \<Longrightarrow> v = Some w \<Longrightarrow> size x < size w"
proof (cases w)
  case (JObj d')
  assume "as_dict v = Inr d" "(k, x) \<in> set d" "v = Some w"
  with JObj have "(k, x) \<in> set d'" by simp
  then have "size x < Suc (size_list (size_prod (\<lambda>_. 0) size) d')"
    by (induction d') auto
  with JObj show ?thesis by simp
qed auto

function type_ref_from_canonical :: "json \<Rightarrow> type_ref res" where
  "type_ref_from_canonical v =
     bindR (jitem v ''kind'') (\<lambda>kj. bindR (type_kind_of kj) (\<lambda>kd.
     bindR (case present (jget v ''item'') of None \<Rightarrow> Inr None
            | Some i \<Rightarrow> bindR (type_ref_from_canonical i) (\<lambda>t. Inr (Some t))) (\<lambda>item.
     bindR (case as_list (jget v ''args'') of Inl e \<Rightarrow> Inl e
            | Inr xs \<Rightarrow> mapR type_ref_from_canonical xs) (\<lambda>args.
     bindR (case present (jget v ''fields'') of None \<Rightarrow> Inr None
            | Some f \<Rightarrow> (case as_dict (Some f) of Inl e \<Rightarrow> Inl e
               | Inr d \<Rightarrow> bindR (mapR (\<lambda>p. bindR (type_ref_from_canonical (snd p))
                                              (\<lambda>t. Inr (fst p, t))) d)
                           (\<lambda>m. Inr (Some m)))) (\<lambda>flds.
     bindR (case present (jget v ''ref'') of None \<Rightarrow> Inr None
            | Some r \<Rightarrow> bindR (model_ref_from_canonical r) (\<lambda>m. Inr (Some m))) (\<lambda>ref.
     bindR (as_list (jget v ''values'')) (\<lambda>vals.
       Inr (TypeRef kd item args flds ref
              (map_option py_str (present (jget v ''version''))) vals
              (map_option py_str (present (jget v ''name'')))))))))))"
  by pat_completeness auto
termination
proof (relation "measure size")
  fix v i kj kd
  assume "present (jget v ''item'') = Some i"
  then show "(i, v) \<in> measure size" by (auto dest: present_Some jget_size)
next
  fix v xs x
  assume "as_list (jget v ''args'') = Inr xs" "x \<in> set xs"
  then show "(x, v) \<in> measure size"
    by (cases "jget v ''args''") (auto intro: less_trans [OF as_list_size jget_size])
next
  fix v f d and p :: "string \<times> json"
  assume a: "present (jget v ''fields'') = Some f" "as_dict (Some f) = Inr d" "p \<in> set d"
  then have "size (snd p) < size f" by (metis as_dict_size prod.collapse)
  moreover have "size f < size v" using a(1) by (auto dest: present_Some jget_size)
  ultimately show "(snd p, v) \<in> measure size" by simp
qed auto

declare type_ref_from_canonical.simps [simp del]

section \<open>Field and model descriptors\<close>

text \<open>
  The default of a field is a JSON value or the marker \<open>NO_DEFAULT\<close> (\<open>None\<close> here); the
  annotation is a Python object that takes no part in equality or serialisation.
\<close>

datatype 'v field_descriptor =
  FieldDescriptor (fd_name: string) (fd_type_ref: type_ref) (fd_required: bool)
    (fd_default: "json option") (fd_references: "'v node_id list") (fd_annotation: pyval)

record 'v model_descriptor =
  desc_ref :: model_ref
  desc_fields :: "(string, 'v field_descriptor) frozen_map"

definition desc_references :: "'v model_descriptor \<Rightarrow> 'v node_id list" where
  "desc_references d = remdups (concat (map (fd_references \<circ> snd) (desc_fields d)))"

definition desc_with_ref :: "'v model_descriptor \<Rightarrow> model_ref \<Rightarrow> 'v model_descriptor" where
  "desc_with_ref d r = d\<lparr>desc_ref := r\<rparr>"

definition desc_with_fields :: "'v model_descriptor \<Rightarrow> 'v field_descriptor list \<Rightarrow> 'v model_descriptor" where
  "desc_with_fields d fs = d\<lparr>desc_fields := fm_updated (desc_fields d) (map (\<lambda>f. (fd_name f, f)) fs)\<rparr>"

definition desc_without_fields :: "'v model_descriptor \<Rightarrow> string list \<Rightarrow> 'v model_descriptor" where
  "desc_without_fields d names = d\<lparr>desc_fields := fm_removed (desc_fields d) names\<rparr>"

definition field_to_canonical :: "('v \<Rightarrow> string) \<Rightarrow> 'v field_descriptor \<Rightarrow> json" where
  "field_to_canonical show_v f = JObj
     ([(''name'', JStr (fd_name f)), (''required'', JBool (fd_required f)),
       (''type_ref'', type_ref_to_canonical (fd_type_ref f))]
      @ list_entry ''references'' (map (node_id_canonical show_v) (fd_references f))
      @ opt_entry ''default'' (fd_default f))"

text \<open>\<open>parse_v\<close> is the \<open>parse_version\<close> callable the readers are given.\<close>

definition node_id_from_canonical :: "(string \<Rightarrow> 'v res) \<Rightarrow> json \<Rightarrow> 'v node_id res" where
  "node_id_from_canonical parse_v v =
     bindR (jitem v ''namespace'') (\<lambda>n. bindR (jitem v ''kind'') (\<lambda>k.
     bindR (jitem v ''version'') (\<lambda>x. bindR (parse_v (py_str x)) (\<lambda>ver.
       mk_node_id (py_str n) (py_str k) ver))))"

definition field_from_canonical :: "(string \<Rightarrow> 'v res) \<Rightarrow> json \<Rightarrow> 'v field_descriptor res" where
  "field_from_canonical parse_v v =
     bindR (as_list (jget v ''references'')) (\<lambda>rs.
     bindR (mapR (node_id_from_canonical parse_v) rs) (\<lambda>refs.
     bindR (jitem v ''name'') (\<lambda>n. bindR (jitem v ''type_ref'') (\<lambda>t.
     bindR (type_ref_from_canonical t) (\<lambda>tr.
       Inr (FieldDescriptor (py_str n) tr
              (case jget v ''required'' of None \<Rightarrow> False | Some b \<Rightarrow> truthy b)
              (jget v ''default'') refs PNone))))))"

definition reference_order :: "('v \<Rightarrow> string) \<Rightarrow> 'v node_id \<Rightarrow> string \<times> string \<times> string" where
  "reference_order show_v n = (nid_namespace n, nid_kind n, show_v (nid_version n))"

definition desc_to_canonical :: "('v \<Rightarrow> string) \<Rightarrow> 'v model_descriptor \<Rightarrow> json" where
  "desc_to_canonical show_v d = JObj
     [(''ref'', model_ref_to_canonical (desc_ref d)),
      (''fields'', JObj (map (\<lambda>(k, f). (k, field_to_canonical show_v f)) (fm_sorted_items (desc_fields d)))),
      (''references'', JList (map (node_id_canonical show_v)
          (sort_key (reference_order show_v) (desc_references d))))]"

definition desc_from_canonical :: "(string \<Rightarrow> 'v res) \<Rightarrow> json \<Rightarrow> 'v model_descriptor res" where
  "desc_from_canonical parse_v v =
     bindR (jitem v ''ref'') (\<lambda>r. bindR (model_ref_from_canonical r) (\<lambda>ref.
     bindR (as_dict (jget v ''fields'')) (\<lambda>d.
     bindR (mapR (\<lambda>(k, x). bindR (field_from_canonical parse_v x) (\<lambda>f. Inr (k, f))) d) (\<lambda>fs.
       Inr \<lparr>desc_ref = ref, desc_fields = fs\<rparr>))))"

section \<open>Round trips\<close>

text \<open>
  Reading back what \<open>to_canonical\<close> wrote gives the value up to the order of the fields, which
  \<open>FrozenMap\<close> equality ignores: \<open>type_ref_norm\<close> sorts them, at every depth.
\<close>

fun type_ref_norm :: "type_ref \<Rightarrow> type_ref" where
  "type_ref_norm (TypeRef kd item args flds ref ver vals nm) =
     TypeRef kd (map_option type_ref_norm item) (map type_ref_norm args)
       (map_option (\<lambda>m. fm_sorted_items (map (\<lambda>(k, t). (k, type_ref_norm t)) m)) flds) ref ver vals nm"

definition field_norm :: "'v field_descriptor \<Rightarrow> 'v field_descriptor" where
  "field_norm f = FieldDescriptor (fd_name f) (type_ref_norm (fd_type_ref f)) (fd_required f)
     (fd_default f) (fd_references f) PNone"

definition desc_norm :: "'v model_descriptor \<Rightarrow> 'v model_descriptor" where
  "desc_norm d = d\<lparr>desc_fields := map (\<lambda>(k, f). (k, field_norm f)) (fm_sorted_items (desc_fields d))\<rparr>"

lemma map_of_entry_last [simp]:
  "map_of (opt_entry k v) k' = (if k = k' then v else None)"
  "map_of (list_entry k xs) k' = (if k = k' \<and> xs \<noteq> [] then Some (JList xs) else None)"
  "map_of (metadata_entry m) k' = (if ''metadata'' = k' \<and> m \<noteq> [] then Some (JObj m) else None)"
  by (auto simp: opt_entry_def list_entry_def metadata_entry_def split: option.splits)

lemma model_ref_roundtrip: "model_ref_from_canonical (model_ref_to_canonical r) = Inr r"
  by (simp add: model_ref_from_canonical_def model_ref_to_canonical_def get_or_def map_add_def)

lemma migration_ref_roundtrip: "migration_ref_from_canonical (migration_ref_to_canonical r) = Inr r"
  by (simp add: migration_ref_from_canonical_def migration_ref_to_canonical_def map_add_def)

lemma hook_ref_roundtrip: "hook_ref_from_canonical (hook_ref_to_canonical r) = Inr r"
  by (simp add: hook_ref_from_canonical_def hook_ref_to_canonical_def map_add_def)

lemma type_kind_roundtrip [simp]: "type_kind_of (JStr (type_kind_value k)) = Inr k"
  by (cases k) (simp_all add: type_kind_of_def all_type_kinds_def)

lemma present_simps [simp]:
  "present None = None" "present (Some (JStr s)) = Some (JStr s)"
  "present (Some (JObj d)) = Some (JObj d)"
  "present (map_option JStr x) = map_option JStr x"
  by (simp_all add: present_def) (cases x; simp add: present_def)

lemma present_canonical [simp]:
  "present (map_option type_ref_to_canonical x) = map_option type_ref_to_canonical x"
  "present (map_option model_ref_to_canonical y) = map_option model_ref_to_canonical y"
  "present (map_option (\<lambda>z. JObj (g z)) w) = map_option (\<lambda>z. JObj (g z)) w"
proof -
  show "present (map_option type_ref_to_canonical x) = map_option type_ref_to_canonical x"
  proof (cases x)
    case (Some t)
    then show ?thesis by (cases t) simp
  qed simp
  show "present (map_option model_ref_to_canonical y) = map_option model_ref_to_canonical y"
    by (cases y) (simp_all add: model_ref_to_canonical_def)
  show "present (map_option (\<lambda>z. JObj (g z)) w) = map_option (\<lambda>z. JObj (g z)) w"
    by (cases w) simp_all
qed

lemma sort_key_fst_map:
  "sort_key fst (map (\<lambda>(k, t). (k, g t)) m) = map (\<lambda>(k, t). (k, g t)) (sort_key fst m)"
proof -
  have i: "insort_key fst (k, g t) (map (\<lambda>(k, t). (k, g t)) m) =
           map (\<lambda>(k, t). (k, g t)) (insort_key fst (k, t) m)" for k t m
    by (induction m) auto
  show ?thesis by (induction m) (auto simp: i)
qed

lemma mapR_snd:
  "(\<And>k t. (k, t) \<in> set m \<Longrightarrow> f t = Inr (g t)) \<Longrightarrow>
   mapR (\<lambda>p. bindR (f (snd p)) (\<lambda>t. Inr (fst p, t))) m = Inr (map (\<lambda>(k, t). (k, g t)) m)"
  by (rule mapR_Inr_map) auto

lemma as_list_entry [simp]:
  "as_list (if xs \<noteq> [] then Some (JList xs) else None) = Inr xs"
  "as_list (if xs = [] then None else Some (JList xs)) = Inr xs"
  by auto

lemma type_ref_jget:
  fixes kd item args flds ref ver vals nm
  defines "v \<equiv> type_ref_to_canonical (TypeRef kd item args flds ref ver vals nm)"
  shows "jitem v ''kind'' = Inr (JStr (type_kind_value kd))"
    and "jget v ''name'' = map_option JStr nm"
    and "jget v ''item'' = map_option type_ref_to_canonical item"
    and "as_list (jget v ''args'') = Inr (map type_ref_to_canonical args)"
    and "jget v ''fields'' = map_option (\<lambda>m. JObj (fm_sorted_items
           (map (\<lambda>(k, t). (k, type_ref_to_canonical t)) m))) flds"
    and "jget v ''ref'' = map_option model_ref_to_canonical ref"
    and "jget v ''version'' = map_option JStr ver"
    and "as_list (jget v ''values'') = Inr vals"
  unfolding v_def by (simp_all add: map_add_def split: option.split)

lemma type_ref_roundtrip_norm:
  "type_ref_from_canonical (type_ref_to_canonical t) = Inr (type_ref_norm t)"
proof (induction t)
  case (TypeRef kd item args flds ref ver vals nm)
  have args: "mapR type_ref_from_canonical (map type_ref_to_canonical args) = Inr (map type_ref_norm args)"
    using TypeRef(2) by (induction args) auto
  have flds: "mapR (\<lambda>p. bindR (type_ref_from_canonical (snd p)) (\<lambda>t. Inr (fst p, t)))
      (fm_sorted_items (map (\<lambda>(k, t). (k, type_ref_to_canonical t)) m))
      = Inr (fm_sorted_items (map (\<lambda>(k, t). (k, type_ref_norm t)) m))" if "flds = Some m" for m
  proof -
    have "type_ref_from_canonical (type_ref_to_canonical t) = Inr (type_ref_norm t)"
      if "(k, t) \<in> set m" for k t
      using TypeRef(3) [of m "(k, t)" t] that \<open>flds = Some m\<close> by simp
    then show ?thesis
      unfolding fm_sorted_items_def sort_key_fst_map
      by (intro trans [OF mapR_Inr_map [where g = "\<lambda>(k, t). (k, the (case type_ref_from_canonical t of Inr x \<Rightarrow> Some x | _ \<Rightarrow> None))"]])
        (auto simp: comp_def)
  qed
  have item: "type_ref_from_canonical (type_ref_to_canonical i) = Inr (type_ref_norm i)" if "item = Some i" for i
    using TypeRef(1) that by simp
  show ?case
    by (subst type_ref_from_canonical.simps)
      (simp only: type_ref_jget present_canonical present_simps bindR_simps type_kind_roundtrip,
        cases item; cases flds; cases ref;
        simp add: args flds item model_ref_roundtrip option.map_comp comp_def option.map_ident)
qed

lemma node_id_roundtrip:
  assumes "parse_v (show_v (nid_version n)) = Inr (nid_version n)" "nid_namespace n \<noteq> []"
  shows "node_id_from_canonical parse_v (node_id_canonical show_v n) = Inr n"
  using assms by (cases n) (simp add: node_id_from_canonical_def node_id_canonical_def mk_node_id_def)

lemma field_jget:
  "as_list (jget (field_to_canonical show_v f) ''references'')
     = Inr (map (node_id_canonical show_v) (fd_references f))"
  "jitem (field_to_canonical show_v f) ''name'' = Inr (JStr (fd_name f))"
  "jitem (field_to_canonical show_v f) ''type_ref'' = Inr (type_ref_to_canonical (fd_type_ref f))"
  "jget (field_to_canonical show_v f) ''required'' = Some (JBool (fd_required f))"
  "jget (field_to_canonical show_v f) ''default'' = fd_default f"
  by (simp_all add: field_to_canonical_def map_add_def split: option.split)

lemma field_roundtrip:
  assumes "\<And>n. n \<in> set (fd_references f) \<Longrightarrow>
      parse_v (show_v (nid_version n)) = Inr (nid_version n) \<and> nid_namespace n \<noteq> []"
  shows "field_from_canonical parse_v (field_to_canonical show_v f) = Inr (field_norm f)"
proof -
  have "mapR (node_id_from_canonical parse_v) (map (node_id_canonical show_v) (fd_references f))
      = Inr (map id (fd_references f))"
    by (rule mapR_map) (simp add: assms node_id_roundtrip)
  then show ?thesis
    by (simp add: field_from_canonical_def field_jget type_ref_roundtrip_norm field_norm_def)
qed

lemma desc_roundtrip_norm:
  assumes "\<And>n. n \<in> set (desc_references d) \<Longrightarrow>
      parse_v (show_v (nid_version n)) = Inr (nid_version n) \<and> nid_namespace n \<noteq> []"
  shows "desc_from_canonical parse_v (desc_to_canonical show_v d) = Inr (desc_norm d)"
proof -
  have f: "field_from_canonical parse_v (field_to_canonical show_v f) = Inr (field_norm f)"
    if "(k, f) \<in> set (desc_fields d)" for k f
  proof (rule field_roundtrip)
    fix n assume "n \<in> set (fd_references f)"
    with that have "n \<in> set (desc_references d)" by (force simp: desc_references_def)
    then show "parse_v (show_v (nid_version n)) = Inr (nid_version n) \<and> nid_namespace n \<noteq> []"
      by (rule assms)
  qed
  have "mapR (\<lambda>(k, x). bindR (field_from_canonical parse_v x) (\<lambda>f. Inr (k, f)))
      (map (\<lambda>(k, f). (k, field_to_canonical show_v f)) (fm_sorted_items (desc_fields d)))
      = Inr (map (\<lambda>(k, f). (k, field_norm f)) (fm_sorted_items (desc_fields d)))"
    unfolding fm_sorted_items_def by (rule mapR_map) (auto simp: f)
  then show ?thesis
    by (simp add: desc_from_canonical_def desc_to_canonical_def model_ref_roundtrip desc_norm_def)
qed

text \<open>Values for the concrete instances of the properties.\<close>

definition sample_ref :: model_ref where
  "sample_ref = \<lparr>mr_provider_id = ''p'', mr_entity_id = ''m.User'', mr_metadata = []\<rparr>"

definition sample_field :: "string \<Rightarrow> bool \<Rightarrow> 'v field_descriptor" where
  "sample_field name req =
     FieldDescriptor name (TypeRef TK_INTEGER None [] None None None [] None) req None [] PNone"

definition sample_desc :: "'v field_descriptor list \<Rightarrow> 'v model_descriptor" where
  "sample_desc fs = \<lparr>desc_ref = sample_ref, desc_fields = map (\<lambda>f. (fd_name f, f)) fs\<rparr>"

lemma fd_sample [simp]:
  "fd_name (sample_field n b) = n" "fd_required (sample_field n b) = b"
  "fd_default (sample_field n b) = None" "fd_references (sample_field n b) = []"
  by (simp_all add: sample_field_def)

text \<open>A model descriptor survives its canonical form: reading back what \<open>to_canonical\<close> writes
  gives the descriptor with its fields in key order (the order a \<open>FrozenMap\<close> comparison ignores)
  and without the Python annotations, for every parser that inverts \<open>str\<close> on the referenced
  versions.\<close>

theorem desc_roundtrip:
  assumes "\<And>n. n \<in> set (desc_references d) \<Longrightarrow>
      parse_v (show_v (nid_version n)) = Inr (nid_version n) \<and> nid_namespace n \<noteq> []"
  shows "desc_from_canonical parse_v (desc_to_canonical show_v d) = Inr (desc_norm d)"
  using assms by (rule desc_roundtrip_norm)

theorem desc_roundtrip_witness:
  "desc_from_canonical (\<lambda>s. Inr s) (desc_to_canonical (\<lambda>v. v)
     \<lparr>desc_ref = \<lparr>mr_provider_id = ''p'', mr_entity_id = ''m.User'', mr_metadata = []\<rparr>,
      desc_fields = [(''name'', FieldDescriptor ''name'' (TypeRef TK_STRING None [] None None None [] None)
                        True None [NodeId ''ns'' ''Address'' ''1.0.0''] PNone),
                     (''age'', FieldDescriptor ''age'' (TypeRef TK_INTEGER None [] None None None [] None)
                        False (Some JNull) [] PNone)]\<rparr>)
   = Inr \<lparr>desc_ref = \<lparr>mr_provider_id = ''p'', mr_entity_id = ''m.User'', mr_metadata = []\<rparr>,
      desc_fields = [(''age'', FieldDescriptor ''age'' (TypeRef TK_INTEGER None [] None None None [] None)
                        False (Some JNull) [] PNone),
                     (''name'', FieldDescriptor ''name'' (TypeRef TK_STRING None [] None None None [] None)
                        True None [NodeId ''ns'' ''Address'' ''1.0.0''] PNone)]\<rparr>"
  by (subst desc_roundtrip)
    (simp_all add: desc_references_def desc_norm_def field_norm_def fm_sorted_items_def)

end
