(* ===== verification/Canonical.thy ===== *)
theory Canonical
  imports Values "HOL-Library.Multiset"
begin

text \<open>
  Canonical values and content hashing, from \<open>core/versioning/canonical.py\<close>: the encoder chain
  of \<open>default_encoders\<close>, \<open>json.dumps\<close> with the arguments \<open>Canonicalizer.dumps\<close> gives it, and
  \<open>ContentHasher.digest\<close>. The hash algorithm is an argument, a function from the encoded text.
\<close>

section \<open>Canonical JSON text\<close>

definition escape_char :: "char \<Rightarrow> string" where
  "escape_char c =
     (if c = CHR 0x22 then [CHR 0x5C, CHR 0x22]
      else if c = CHR 0x5C then [CHR 0x5C, CHR 0x5C]
      else if c = CHR 0x0A then [CHR 0x5C, CHR ''n'']
      else if c = CHR 0x0D then [CHR 0x5C, CHR ''r'']
      else if c = CHR 0x09 then [CHR 0x5C, CHR ''t'']
      else if c = CHR 0x0C then [CHR 0x5C, CHR ''f'']
      else if c = CHR 0x08 then [CHR 0x5C, CHR ''b'']
      else if (of_char c :: nat) < 32
      then [CHR 0x5C, CHR ''u'', CHR ''0'', CHR ''0'', hex_char (of_char c div 16), hex_char (of_char c mod 16)]
      else [c])"

definition dumps_str :: "string \<Rightarrow> string" where
  "dumps_str s = [CHR 0x22] @ concat (map escape_char s) @ [CHR 0x22]"

fun dumps_json :: "json \<Rightarrow> string" where
  "dumps_json JNull = ''null''"
| "dumps_json (JBool b) = (if b then ''true'' else ''false'')"
| "dumps_json (JInt i) = show_int i"
| "dumps_json (JFloat x) = flt_repr x"
| "dumps_json (JStr s) = dumps_str s"
| "dumps_json (JList xs) = ''['' @ join '','' (map dumps_json xs) @ '']''"
| "dumps_json (JObj d) = ''{'' @ join '','' (map (\<lambda>(k, t). dumps_str k @ '':'' @ t)
      (sort_key fst (map (\<lambda>(k, v). (k, dumps_json v)) d))) @ ''}''"

section \<open>The encoders\<close>

text \<open>
  One definition per encoder class, given the encoded parts. \<open>supports\<close> and
  \<open>default_encoders\<close> are the chain; each constructor of \<^typ>\<open>pyval\<close> is a class of objects that
  the chain tells apart, so \<open>encode\<close> selects by constructor what the first supporting encoder is.
\<close>

datatype encoder = ScalarEncoder | FloatEncoder | BytesEncoder | MappingEncoder | SequenceEncoder
  | SetEncoder | CanonicalizableEncoder | DataclassEncoder | TypeEncoder

fun supports :: "encoder \<Rightarrow> pyval \<Rightarrow> bool" where
  "supports ScalarEncoder v = (case v of PNone \<Rightarrow> True | PBool _ \<Rightarrow> True | PInt _ \<Rightarrow> True | PStr _ \<Rightarrow> True | _ \<Rightarrow> False)"
| "supports FloatEncoder v = (case v of PFloat _ \<Rightarrow> True | _ \<Rightarrow> False)"
| "supports BytesEncoder v = (case v of PBytes _ \<Rightarrow> True | _ \<Rightarrow> False)"
| "supports MappingEncoder v = (case v of PMap _ \<Rightarrow> True | _ \<Rightarrow> False)"
| "supports SequenceEncoder v = (case v of PSeq _ \<Rightarrow> True | _ \<Rightarrow> False)"
| "supports SetEncoder v = (case v of PSet _ \<Rightarrow> True | _ \<Rightarrow> False)"
| "supports CanonicalizableEncoder v = (case v of PCanon _ \<Rightarrow> True | _ \<Rightarrow> False)"
| "supports DataclassEncoder v = (case v of PData _ \<Rightarrow> True | _ \<Rightarrow> False)"
| "supports TypeEncoder v = (case v of PType _ _ \<Rightarrow> True | PAlias _ \<Rightarrow> True | _ \<Rightarrow> False)"

definition default_encoders :: "encoder list" where
  "default_encoders = [ScalarEncoder, FloatEncoder, BytesEncoder, MappingEncoder, SequenceEncoder,
     SetEncoder, CanonicalizableEncoder, DataclassEncoder, TypeEncoder]"

definition encode_float :: "pyfloat \<Rightarrow> json res" where
  "encode_float x = (if flt_finite x then Inr (JFloat x) else Inl ValueError)"

definition encode_bytes :: "nat list \<Rightarrow> json" where
  "encode_bytes bs = JStr (concat (map (\<lambda>b. [hex_char (b div 16), hex_char (b mod 16)]) bs))"

definition encode_mapping :: "(pyval \<times> json res) list \<Rightarrow> json res" where
  "encode_mapping kvs =
     bindR (mapR (\<lambda>(k, r). case k of PStr s \<Rightarrow> bindR r (\<lambda>j. Inr (s, j)) | _ \<Rightarrow> Inl TypeError) kvs)
       (\<lambda>d. Inr (JObj (sort_key fst d)))"

definition encode_sequence :: "json res list \<Rightarrow> json res" where
  "encode_sequence rs = bindR (mapR id rs) (\<lambda>js. Inr (JList js))"

definition encode_set :: "json res list \<Rightarrow> json res" where
  "encode_set rs = bindR (mapR id rs) (\<lambda>js. Inr (JList (sort_key dumps_json js)))"

definition encode_dataclass :: "(string \<times> json res) list \<Rightarrow> json res" where
  "encode_dataclass fs = encode_mapping (map (\<lambda>(k, r). (PStr k, r)) fs)"

definition encode_type :: "string \<Rightarrow> string \<Rightarrow> json" where
  "encode_type module qualname = JStr (module @ ''.'' @ qualname)"

fun encode :: "pyval \<Rightarrow> json res" where
  "encode PNone = Inr JNull"
| "encode (PBool b) = Inr (JBool b)"
| "encode (PInt i) = Inr (JInt i)"
| "encode (PStr s) = Inr (JStr s)"
| "encode (PFloat x) = encode_float x"
| "encode (PBytes bs) = Inr (encode_bytes bs)"
| "encode (PMap kvs) = encode_mapping (map (\<lambda>(k, v). (k, encode v)) kvs)"
| "encode (PSeq xs) = encode_sequence (map encode xs)"
| "encode (PSet xs) = encode_set (map encode xs)"
| "encode (PCanon v) = encode v"
| "encode (PData fs) = encode_dataclass (map (\<lambda>(k, v). (k, encode v)) fs)"
| "encode (PType m q) = Inr (encode_type m q)"
| "encode (PAlias s) = Inr (JStr s)"
| "encode (POpaque t) = Inl TypeError"

definition canonical_dumps :: "pyval \<Rightarrow> string res" where
  "canonical_dumps v = bindR (encode v) (\<lambda>j. Inr (dumps_json j))"

definition content_digest_of :: "(string \<Rightarrow> string) \<Rightarrow> pyval \<Rightarrow> string res" where
  "content_digest_of hash_alg v = bindR (canonical_dumps v) (\<lambda>t. Inr (hash_alg t))"

section \<open>Canonical documents\<close>

text \<open>What \<open>encode\<close> produces: finite floats, and objects in strictly ascending key order.\<close>

fun canonical :: "json \<Rightarrow> bool" where
  "canonical (JFloat x) = flt_finite x"
| "canonical (JList xs) = list_all canonical xs"
| "canonical (JObj d) = (sorted (map fst d) \<and> distinct (map fst d) \<and> list_all (\<lambda>(k, v). canonical v) d)"
| "canonical _ = True"

text \<open>A value whose mappings are dictionaries and whose dataclass fields have distinct names.\<close>

fun pyval_ok :: "pyval \<Rightarrow> bool" where
  "pyval_ok (PMap kvs) = (distinct (map fst kvs) \<and> list_all (\<lambda>(k, v). pyval_ok v) kvs)"
| "pyval_ok (PSeq xs) = list_all pyval_ok xs"
| "pyval_ok (PSet xs) = list_all pyval_ok xs"
| "pyval_ok (PCanon v) = pyval_ok v"
| "pyval_ok (PData fs) = (distinct (map fst fs) \<and> list_all (\<lambda>(k, v). pyval_ok v) fs)"
| "pyval_ok _ = True"

lemma encoder_unique: "supports e v \<Longrightarrow> supports e' v \<Longrightarrow> e = e'"
  by (cases e; cases e'; cases v) auto

lemma sort_key_fst_perm:
  fixes xs ys :: "('k::linorder \<times> 'a) list"
  assumes "mset xs = mset ys" "distinct (map fst xs)"
  shows "sort_key fst xs = sort_key fst ys"
proof (rule properties_for_sort_key)
  show "mset (sort_key fst ys) = mset xs" using assms(1) by simp
  show "sorted (map fst (sort_key fst ys))" by simp
  have d: "distinct (map fst (sort_key fst ys))"
    using assms by (metis mset_eq_imp_distinct_iff mset_map mset_sort)
  have one: "filter (\<lambda>x. fst k = fst x) zs = [k]" if "distinct (map fst zs)" "k \<in> set zs" for k zs
    using that by (induction zs) (auto simp: filter_empty_conv image_iff)
  fix k
  assume k: "k \<in> set (sort_key fst ys)"
  moreover from k have "k \<in> set xs" using assms(1) by (metis mset_eq_setD set_sort)
  ultimately show "filter (\<lambda>x. fst k = fst x) (sort_key fst ys) = filter (\<lambda>x. fst k = fst x) xs"
    using one [OF d] one [OF assms(2)] by metis
qed

lemma sort_key_fst_id: "sorted (map fst xs) \<Longrightarrow> sort_key fst xs = xs"
  by (rule sort_key_id_if_sorted)

section \<open>The text determines the document\<close>

definition is_digit :: "char \<Rightarrow> bool" where
  "is_digit c \<longleftrightarrow> 48 \<le> (of_char c :: nat) \<and> (of_char c :: nat) \<le> 57"

definition num_char :: "char \<Rightarrow> bool" where
  "num_char c \<longleftrightarrow> is_digit c \<or> c = CHR ''+'' \<or> c = CHR ''-'' \<or> c = CHR ''.'' \<or> c = CHR ''e''"

fun floats :: "json \<Rightarrow> pyfloat set" where
  "floats (JFloat x) = {x}"
| "floats (JList xs) = \<Union> (set (map floats xs))"
| "floats (JObj d) = \<Union> (set (map (\<lambda>(k, v). floats v) d))"
| "floats _ = {}"

text \<open>
  What Python documents of \<open>repr\<close> on finite floats: it determines the float, and it is a decimal
  number with a point or an exponent.
\<close>

definition float_reprs :: "pyfloat set \<Rightarrow> bool" where
  "float_reprs F \<longleftrightarrow> inj_on flt_repr F \<and> (\<forall>x \<in> F. (\<forall>c \<in> set (flt_repr x). num_char c) \<and>
     (CHR ''.'' \<in> set (flt_repr x) \<or> CHR ''e'' \<in> set (flt_repr x)))"

definition read_nat :: "string \<Rightarrow> nat" where
  "read_nat s = foldl (\<lambda>a c. 10 * a + (of_char c - 48)) 0 s"

lemma of_digit_char: "n < 10 \<Longrightarrow> of_char (digit_char n) = 48 + n"
  by (simp add: digit_char_def)

lemma read_show_nat: "read_nat (show_nat n) = n"
proof (induction n rule: show_nat.induct)
  case (1 n)
  show ?case
  proof (cases "n < 10")
    case True
    then show ?thesis by (subst show_nat.simps) (simp add: read_nat_def of_digit_char)
  next
    case False
    with 1 have "read_nat (show_nat (n div 10)) = n div 10" by simp
    with False show ?thesis
      by (subst show_nat.simps) (simp add: read_nat_def of_digit_char)
  qed
qed

lemma show_nat_digits: "\<forall>c \<in> set (show_nat n). is_digit c"
proof (induction n rule: show_nat.induct)
  case (1 n)
  have d: "is_digit (digit_char k)" if "k < 10" for k
    using that by (simp add: is_digit_def of_digit_char)
  show ?case
    by (subst show_nat.simps) (use 1 d [of "n mod 10"] d [of n] in auto)
qed

lemma show_nat_nonempty [simp]: "show_nat n \<noteq> []"
  by (subst show_nat.simps) simp

lemma show_nat_inj: "show_nat m = show_nat n \<longleftrightarrow> m = n"
  by (metis read_show_nat)

lemma not_digit [simp]: "\<not> is_digit (CHR ''-'')" "\<not> is_digit (CHR ''.'')" "\<not> is_digit (CHR ''e'')"
  by (simp_all add: is_digit_def)

lemma show_int_inj: "show_int i = show_int j \<longleftrightarrow> i = j"
proof -
  have m: "CHR ''-'' # show_nat a \<noteq> show_nat b" for a b
    using show_nat_digits [of b] not_digit(1) by (metis list.set_intros(1))
  then show ?thesis by (auto simp: show_int_def show_nat_inj) (metis m)+
qed

lemma show_int_chars: "c \<in> set (show_int i) \<Longrightarrow> is_digit c \<or> c = CHR ''-''"
  using show_nat_digits by (auto simp: show_int_def split: if_splits)

lemma hex_char_inj: "m < 16 \<Longrightarrow> n < 16 \<Longrightarrow> hex_char m = hex_char n \<longleftrightarrow> m = n"
proof -
  assume "m < 16" "n < 16"
  then have "of_char (hex_char m) = (if m < 10 then 48 + m else 87 + m)"
    "of_char (hex_char n) = (if n < 10 then 48 + n else 87 + n)"
    by (simp_all add: hex_char_def)
  then have "hex_char m = hex_char n \<Longrightarrow> (if m < 10 then 48 + m else 87 + m) = (if n < 10 then 48 + n else 87 + n)"
    by metis
  then show ?thesis by (auto split: if_splits)
qed

lemma escape_control:
  assumes "(of_char c :: nat) < 32" "(of_char d :: nat) < 32"
    "hex_char (of_char c div 16) = hex_char (of_char d div 16)"
    "hex_char (of_char c mod 16) = hex_char (of_char d mod 16)"
  shows "c = d"
proof -
  have "(of_char c :: nat) div 16 = of_char d div 16" "(of_char c :: nat) mod 16 = of_char d mod 16"
    using assms by (simp_all add: hex_char_inj)
  then have "(of_char c :: nat) = of_char d" by (metis mult_div_mod_eq)
  then show ?thesis by simp
qed

lemma escape_char_prefix: "escape_char c @ X = escape_char d @ Y \<Longrightarrow> c = d \<and> X = Y"
  by (auto simp: escape_char_def split: if_splits dest: escape_control)

lemma escape_char_head: "escape_char c @ X \<noteq> CHR 0x22 # Y"
  by (auto simp: escape_char_def)

lemma dumps_str_body:
  "concat (map escape_char s) @ CHR 0x22 # X = concat (map escape_char t) @ CHR 0x22 # Y
   \<Longrightarrow> s = t \<and> X = Y"
proof (induction s arbitrary: t)
  case Nil
  then show ?case by (cases t) (auto dest: sym escape_char_head [THEN notE])
next
  case (Cons c s)
  then obtain d t' where t: "t = d # t'"
    by (cases t) (auto dest: escape_char_head [THEN notE])
  with Cons.prems have "c = d \<and> concat (map escape_char s) @ CHR 0x22 # X
      = concat (map escape_char t') @ CHR 0x22 # Y"
    by (intro escape_char_prefix) simp
  with Cons.IH t show ?case by blast
qed

lemma dumps_str_prefix: "dumps_str s @ X = dumps_str t @ Y \<Longrightarrow> s = t \<and> X = Y"
  using dumps_str_body [of s X t Y] by (simp add: dumps_str_def)

definition delim :: "string \<Rightarrow> bool" where
  "delim r \<longleftrightarrow> r = [] \<or> hd r \<in> {CHR '','', CHR '']'', CHR ''}''}"

lemma delim_simps [simp]: "delim []" "delim (CHR '','' # r)" "delim (CHR '']'' # r)" "delim (CHR ''}'' # r)"
  by (simp_all add: delim_def)

lemma delim_not_num: "delim (c # r) \<Longrightarrow> \<not> num_char c"
  by (auto simp: delim_def num_char_def is_digit_def)

lemma num_text_prefix:
  assumes "\<forall>c \<in> set s. num_char c" "\<forall>c \<in> set t. num_char c" "delim X" "delim Y" "s @ X = t @ Y"
  shows "s = t \<and> X = Y"
proof -
  have "takeWhile num_char (u @ Z) = u" if "\<forall>c \<in> set u. num_char c" "delim Z" for u Z
    using that by (cases Z) (auto simp: takeWhile_append delim_not_num)
  then have "s = t" using assms by metis
  then show ?thesis using assms(5) by simp
qed

text \<open>The first character tells the kind of the document.\<close>

fun jkind :: "json \<Rightarrow> nat" where
  "jkind JNull = 0" | "jkind (JBool _) = 1" | "jkind (JInt _) = 2" | "jkind (JFloat _) = 2"
| "jkind (JStr _) = 3" | "jkind (JList _) = 4" | "jkind (JObj _) = 5"

definition head_kind :: "char \<Rightarrow> nat" where
  "head_kind c = (if num_char c then 2 else if c = CHR 0x22 then 3 else if c = CHR ''['' then 4
     else if c = CHR ''{'' then 5 else if c = CHR ''n'' then 0 else if c = CHR ''t'' \<or> c = CHR ''f'' then 1 else 6)"

lemma show_int_num: "show_int i \<noteq> []" "\<forall>c \<in> set (show_int i). num_char c"
  by (simp add: show_int_def) (auto simp: num_char_def dest: show_int_chars)

lemma dumps_head:
  assumes "float_reprs (floats j)"
  shows "dumps_json j \<noteq> [] \<and> head_kind (hd (dumps_json j)) = jkind j"
proof (cases j)
  case (JInt i)
  with show_int_num [of i] show ?thesis by (cases "show_int i") (auto simp: head_kind_def)
next
  case (JFloat x)
  with assms have "\<forall>c \<in> set (flt_repr x). num_char c" "flt_repr x \<noteq> []"
    by (auto simp: float_reprs_def)
  with JFloat show ?thesis by (cases "flt_repr x") (auto simp: head_kind_def)
qed (auto simp: head_kind_def dumps_str_def num_char_def is_digit_def)

lemma float_reprs_subset: "float_reprs F \<Longrightarrow> G \<subseteq> F \<Longrightarrow> float_reprs G"
  by (auto simp: float_reprs_def intro: inj_on_subset)

lemma dumps_kind:
  assumes "float_reprs (floats j \<union> floats k)" "dumps_json j @ X = dumps_json k @ Y"
  shows "jkind j = jkind k"
proof -
  have "float_reprs (floats j)" "float_reprs (floats k)"
    using assms(1) by (auto intro: float_reprs_subset)
  then have h: "dumps_json j \<noteq> []" "head_kind (hd (dumps_json j)) = jkind j"
    "dumps_json k \<noteq> []" "head_kind (hd (dumps_json k)) = jkind k"
    using dumps_head by blast+
  have "hd (dumps_json j) = hd (dumps_json k)"
    using arg_cong [OF assms(2), of hd] h by simp
  with h show ?thesis by simp
qed

lemma dumps_not_close:
  assumes "float_reprs (floats j)" "c = CHR '']'' \<or> c = CHR ''}''"
  shows "dumps_json j @ X \<noteq> c # Z"
proof
  assume "dumps_json j @ X = c # Z"
  then have "hd (dumps_json j @ X) = c" by simp
  with dumps_head [OF assms(1)] have "head_kind c = jkind j" by simp
  moreover have "head_kind c = 6"
    using assms(2) by (elim disjE) (simp_all add: head_kind_def num_char_def is_digit_def)
  ultimately show False by (cases j) auto
qed

lemma num_dumps_prefix:
  assumes "jkind j = 2" "jkind k = 2" "float_reprs (floats j \<union> floats k)" "delim X" "delim Y"
    "dumps_json j @ X = dumps_json k @ Y"
  shows "j = k \<and> X = Y"
proof -
  have n: "\<forall>c \<in> set (dumps_json l). num_char c" if "jkind l = 2" "float_reprs (floats l)" for l
    using that show_int_num by (cases l) (auto simp: float_reprs_def)
  have "dumps_json j = dumps_json k \<and> X = Y"
    using assms by (intro num_text_prefix n) (auto intro: float_reprs_subset)
  moreover have ne: "show_int i \<noteq> flt_repr x" if "float_reprs {x}" for i x
  proof
    assume "show_int i = flt_repr x"
    then have "\<forall>c \<in> set (flt_repr x). is_digit c \<or> c = CHR ''-''" using show_int_chars by metis
    with that show False by (auto simp: float_reprs_def)
  qed
  moreover have "x = y" if "flt_repr x = flt_repr y" "float_reprs {x, y}" for x y
    using that unfolding float_reprs_def inj_on_def by blast
  moreover have "(\<exists>i. l = JInt i) \<or> (\<exists>x. l = JFloat x)" if "jkind l = 2" for l
    using that by (cases l) auto
  then consider i i' where "j = JInt i" "k = JInt i'" | i x where "j = JInt i" "k = JFloat x"
    | x i where "j = JFloat x" "k = JInt i" | x y where "j = JFloat x" "k = JFloat y"
    using assms(1,2) by metis
  then show ?thesis
    using calculation assms(3) by cases (simp_all add: show_int_inj, metis+)
qed

lemma join_step:
  "join '','' (map f (x # xs)) @ close # X
   = f x @ (if xs = [] then close # X else CHR '','' # join '','' (map f xs) @ close # X)"
  by (cases xs) auto

lemma join_prefix:
  assumes "\<And>x y X Y. x \<in> set xs \<Longrightarrow> y \<in> set ys \<Longrightarrow> delim X \<Longrightarrow> delim Y \<Longrightarrow> f x @ X = f y @ Y \<Longrightarrow> x = y \<and> X = Y"
    and "\<And>x X Z. x \<in> set xs \<union> set ys \<Longrightarrow> f x @ X \<noteq> close # Z"
    and "close = CHR '']'' \<or> close = CHR ''}''"
    and "join '','' (map f xs) @ close # X = join '','' (map f ys) @ close # Y"
  shows "xs = ys \<and> X = Y"
  using assms
proof (induction xs arbitrary: ys)
  case Nil
  show ?case
  proof (cases ys)
    case (Cons y ys')
    with Nil(4) have "close # X = f y @ (if ys' = [] then close # Y else CHR '','' # join '','' (map f ys') @ close # Y)"
      by (simp only: join_step) simp
    with Nil(2) [of y] Cons show ?thesis by (metis UnI2 list.set_intros(1))
  qed (use Nil in simp)
next
  case (Cons x xs)
  let ?t = "\<lambda>xs X. if xs = [] then close # X else CHR '','' # join '','' (map f xs) @ close # X"
  have d: "delim (?t xs X)" for xs :: "'a list" and X using Cons.prems(3) by auto
  show ?case
  proof (cases ys)
    case Nil
    with Cons.prems(4) have "f x @ ?t xs X = close # Y" by (simp only: join_step) simp
    with Cons.prems(2) [of x] show ?thesis by (metis UnI1 list.set_intros(1))
  next
    case (Cons y ys')
    with Cons.prems(4) have e: "f x @ ?t xs X = f y @ ?t ys' Y" by (simp only: join_step)
    have xy: "x = y" "?t xs X = ?t ys' Y"
      using Cons.prems(1) [OF _ _ d d e] Cons by simp_all
    show ?thesis
    proof (cases "xs = [] \<or> ys' = []")
      case True
      with xy Cons.prems(3) Cons show ?thesis by (auto split: if_splits)
    next
      case False
      with xy have "join '','' (map f xs) @ close # X = join '','' (map f ys') @ close # Y" by simp
      then have "xs = ys' \<and> X = Y"
        using Cons.prems(1-3) \<open>ys = y # ys'\<close> by (intro Cons.IH) auto
      with xy Cons show ?thesis by simp
    qed
  qed
qed

lemma canonical_obj_dumps:
  "canonical (JObj d) \<Longrightarrow> dumps_json (JObj d) = CHR ''{'' # join '','' (map (\<lambda>(k, v). dumps_str k @ '':'' @ dumps_json v) d) @ ''}''"
  by (simp add: sort_key_fst_id comp_def case_prod_unfold)

text \<open>No canonical text is a proper prefix of another, up to what may follow a value.\<close>

lemma dumps_prefix:
  assumes "canonical j" "canonical k" "float_reprs (floats j \<union> floats k)" "delim X" "delim Y"
    "dumps_json j @ X = dumps_json k @ Y"
  shows "j = k \<and> X = Y"
  using assms
proof (induction j arbitrary: k X Y)
  case (JList xs)
  then have "jkind k = 4" using dumps_kind [of "JList xs" k X Y] by simp
  then obtain ys where k: "k = JList ys" by (cases k) auto
  have "xs = ys \<and> X = Y"
  proof (rule join_prefix)
    fix x y X Y
    assume a: "x \<in> set xs" "y \<in> set ys" "delim X" "delim Y" "dumps_json x @ X = dumps_json y @ Y"
    show "x = y \<and> X = Y"
    proof (rule JList.IH)
      show "float_reprs (floats x \<union> floats y)"
        using JList.prems(3) a k by (auto elim!: float_reprs_subset)
    qed (use a JList.prems k in \<open>auto simp: list_all_iff\<close>)
  next
    fix x X Z
    assume "x \<in> set xs \<union> set ys"
    then have "float_reprs (floats x)" using JList.prems(3) k by (auto elim!: float_reprs_subset)
    then show "dumps_json x @ X \<noteq> CHR '']'' # Z" by (rule dumps_not_close) simp
  qed (use JList.prems(6) k in auto)
  with k show ?case by simp
next
  case (JObj d)
  then have "jkind k = 5" using dumps_kind [of "JObj d" k X Y] by simp
  then obtain e where k: "k = JObj e" by (cases k) auto
  let ?f = "\<lambda>(k, v). dumps_str k @ '':'' @ dumps_json v"
  have "d = e \<and> X = Y"
  proof (rule join_prefix [where f = ?f])
    fix x y X Y
    assume a: "x \<in> set d" "y \<in> set e" "delim X" "delim Y" "?f x @ X = ?f y @ Y"
    obtain kx vx ky vy where p: "x = (kx, vx)" "y = (ky, vy)" by fastforce
    with a(5) dumps_str_prefix [of kx "'':'' @ dumps_json vx @ X" ky "'':'' @ dumps_json vy @ Y"]
    have e: "kx = ky" "dumps_json vx @ X = dumps_json vy @ Y" by auto
    have "vx = vy \<and> X = Y"
    proof (rule JObj.IH)
      show "float_reprs (floats vx \<union> floats vy)"
        using JObj.prems(3) a p k by (fastforce elim!: float_reprs_subset)
    qed (use a e p JObj.prems k in \<open>auto simp: list_all_iff\<close>)
    with e p show "x = y \<and> X = Y" by simp
  next
    fix x X Z
    show "?f x @ X \<noteq> CHR ''}'' # Z" by (cases x) (simp add: dumps_str_def)
  qed (use JObj.prems(1,2,6) k in \<open>auto simp: canonical_obj_dumps simp del: canonical.simps dumps_json.simps\<close>)
  with k show ?case by simp
next
  case (JStr s)
  then have "jkind k = 3" using dumps_kind [of "JStr s" k X Y] by simp
  then obtain t where "k = JStr t" by (cases k) auto
  with JStr.prems(6) dumps_str_prefix [of s X t Y] show ?case by simp
next
  case JNull
  then have "jkind k = 0" using dumps_kind [of JNull k X Y] by simp
  then have "k = JNull" by (cases k) auto
  with JNull show ?case by simp
next
  case (JBool b)
  then have "jkind k = 1" using dumps_kind [of "JBool b" k X Y] by simp
  then obtain c where "k = JBool c" by (cases k) auto
  with JBool show ?case by (auto split: if_splits)
next
  case (JInt i)
  then have "jkind k = 2" using dumps_kind [of "JInt i" k X Y] by simp
  then show ?case using JInt.prems by (intro num_dumps_prefix) simp_all
next
  case (JFloat x)
  then have "jkind k = 2" using dumps_kind [of "JFloat x" k X Y] by simp
  then show ?case using JFloat.prems by (intro num_dumps_prefix) simp_all
qed

section \<open>Correctness of the encoders\<close>

lemma sort_key_fst_canonical:
  "distinct (map fst d) \<Longrightarrow> (\<And>k v. (k, v) \<in> set d \<Longrightarrow> canonical v) \<Longrightarrow> canonical (JObj (sort_key fst d))"
  by (auto simp: list_all_iff) (metis distinct_map distinct_sort inj_on_def set_sort)

lemma encode_mapping_Inr:
  "encode_mapping kvs = Inr j \<longleftrightarrow>
     (\<exists>d. j = JObj (sort_key fst d) \<and> list_all2 (\<lambda>(k, r) (s, v). k = PStr s \<and> r = Inr v) kvs d)"
proof -
  have "(\<lambda>(k, r). case k of PStr s \<Rightarrow> bindR r (\<lambda>j. Inr (s, j)) | _ \<Rightarrow> Inl TypeError) p = Inr q
      \<longleftrightarrow> (\<lambda>(k, r) (s, v). k = PStr s \<and> r = Inr v) p q" for p :: "pyval \<times> json res" and q
    by (cases p; cases q) (auto simp: bindR_eq_Inr split: pyval.splits)
  then show ?thesis by (auto simp: encode_mapping_def bindR_eq_Inr mapR_eq_Inr)
qed

lemma encode_items_keys:
  "list_all2 (\<lambda>(k, r) (s, v). k = PStr s \<and> r = Inr v) (map (\<lambda>(k, v). (k, encode v)) kvs) d
   \<Longrightarrow> map fst kvs = map (PStr \<circ> fst) d"
  by (induction kvs arbitrary: d) (auto simp: list_all2_Cons1)

lemma encode_items_vals:
  "list_all2 (\<lambda>(k, r) (s, v). k = PStr s \<and> r = Inr v) (map (\<lambda>(k, v). (k, encode v)) kvs) d
   \<Longrightarrow> (s, j) \<in> set d \<Longrightarrow> \<exists>v. (PStr s, v) \<in> set kvs \<and> encode v = Inr j"
proof (induction kvs arbitrary: d)
  case (Cons p kvs)
  obtain q zs where d: "d = q # zs" "fst p = PStr (fst q)" "encode (snd p) = Inr (snd q)"
    "list_all2 (\<lambda>(k, r) (s, v). k = PStr s \<and> r = Inr v) (map (\<lambda>(k, v). (k, encode v)) kvs) zs"
    using Cons.prems(1) by (cases p) (auto simp: list_all2_Cons1)
  show ?case
  proof (cases "(s, j) = q")
    case True
    then have "(PStr s, snd p) \<in> set (p # kvs)" "encode (snd p) = Inr j"
      using d by (auto simp: prod_eq_iff)
    then show ?thesis by blast
  next
    case False
    then show ?thesis using Cons d by fastforce
  qed
qed simp

lemma encode_map_canonical:
  assumes "encode (PMap kvs) = Inr j" "distinct (map fst kvs)"
    "\<And>k v w. (k, v) \<in> set kvs \<Longrightarrow> encode v = Inr w \<Longrightarrow> canonical w"
  shows "canonical j"
proof -
  obtain d where d: "j = JObj (sort_key fst d)"
    "list_all2 (\<lambda>(k, r) (s, v). k = PStr s \<and> r = Inr v) (map (\<lambda>(k, v). (k, encode v)) kvs) d"
    using assms(1) by (auto simp: encode_mapping_Inr)
  have "distinct (map fst d)"
    using encode_items_keys [OF d(2)] assms(2) by (metis distinct_map map_map)
  then show ?thesis using d(1) encode_items_vals [OF d(2)] assms(3)
    by (metis sort_key_fst_canonical)
qed

lemma encode_data_map: "encode (PData fs) = encode (PMap (map (\<lambda>(k, v). (PStr k, v)) fs))"
  by (simp add: encode_dataclass_def comp_def case_prod_unfold)

lemma mapR_id_map: "mapR id (map encode xs) = mapR encode xs"
  by (induction xs) auto

lemma encode_canonical: "pyval_ok v \<Longrightarrow> encode v = Inr j \<Longrightarrow> canonical j"
proof (induction v arbitrary: j)
  case (PMap kvs)
  then show ?case by (intro encode_map_canonical [OF PMap.prems(2)]) (fastforce simp: list_all_iff)+
next
  case (PData fs)
  have "distinct (map fst (map (\<lambda>(k, v). (PStr k, v)) fs))"
    using PData.prems(1) by (auto simp: distinct_map inj_on_def comp_def case_prod_unfold)
  moreover have "canonical w" if "(k, v) \<in> set (map (\<lambda>(k, v). (PStr k, v)) fs)" "encode v = Inr w" for k v w
    using PData that by (fastforce simp: list_all_iff)
  ultimately show ?case
    using PData.prems(2) unfolding encode_data_map by (rule encode_map_canonical [rotated])
next
  case (PSeq xs)
  then show ?case
    by (auto simp: encode_sequence_def mapR_id_map bindR_eq_Inr mapR_eq_Inr list_all_iff
        in_set_conv_nth list_all2_conv_all_nth) (metis nth_mem)
next
  case (PSet xs)
  then show ?case
    by (auto simp: encode_set_def mapR_id_map bindR_eq_Inr mapR_eq_Inr list_all_iff
        in_set_conv_nth list_all2_conv_all_nth) (metis nth_mem)
qed (auto simp: encode_float_def encode_bytes_def encode_type_def split: if_splits)

lemma encode_py_of_json: "canonical j \<Longrightarrow> encode (py_of_json j) = Inr j"
proof (induction j)
  case (JList xs)
  then have "mapR encode (map py_of_json xs) = Inr (map id xs)"
    by (intro mapR_map) (auto simp: list_all_iff)
  then show ?case by (simp add: encode_sequence_def mapR_id_map del: map_map)
next
  case (JObj d)
  have "list_all2 (\<lambda>(k, r) (s, v). k = PStr s \<and> r = Inr v)
      (map (\<lambda>(k, v). (k, encode v)) (map (\<lambda>(k, v). (PStr k, py_of_json v)) d)) d"
    using JObj by (auto simp: list_all2_conv_all_nth list_all_iff case_prod_unfold) (metis nth_mem snds.intros prod.collapse)
  then show ?case using JObj.prems
    by (auto simp: encode_mapping_Inr sort_key_fst_id intro!: exI [of _ d])
qed (auto simp: encode_float_def)

text \<open>
  The chain of responsibility of \<open>Canonicalizer.encode\<close>: the first encoder of
  \<open>default_encoders\<close> that supports the value runs. At most one encoder supports a value, so the
  order of the chain does not matter, and the equations of \<open>encode\<close> are this dispatch.
\<close>

fun run_encoder :: "encoder \<Rightarrow> pyval \<Rightarrow> json res" where
  "run_encoder ScalarEncoder v = (case v of PNone \<Rightarrow> Inr JNull | PBool b \<Rightarrow> Inr (JBool b)
     | PInt i \<Rightarrow> Inr (JInt i) | PStr s \<Rightarrow> Inr (JStr s) | _ \<Rightarrow> Inl TypeError)"
| "run_encoder FloatEncoder v = (case v of PFloat x \<Rightarrow> encode_float x | _ \<Rightarrow> Inl TypeError)"
| "run_encoder BytesEncoder v = (case v of PBytes bs \<Rightarrow> Inr (encode_bytes bs) | _ \<Rightarrow> Inl TypeError)"
| "run_encoder MappingEncoder v = (case v of PMap kvs \<Rightarrow>
     encode_mapping (map (\<lambda>(k, v). (k, encode v)) kvs) | _ \<Rightarrow> Inl TypeError)"
| "run_encoder SequenceEncoder v = (case v of PSeq xs \<Rightarrow> encode_sequence (map encode xs) | _ \<Rightarrow> Inl TypeError)"
| "run_encoder SetEncoder v = (case v of PSet xs \<Rightarrow> encode_set (map encode xs) | _ \<Rightarrow> Inl TypeError)"
| "run_encoder CanonicalizableEncoder v = (case v of PCanon w \<Rightarrow> encode w | _ \<Rightarrow> Inl TypeError)"
| "run_encoder DataclassEncoder v = (case v of PData fs \<Rightarrow>
     encode_dataclass (map (\<lambda>(k, v). (k, encode v)) fs) | _ \<Rightarrow> Inl TypeError)"
| "run_encoder TypeEncoder v = (case v of PType m q \<Rightarrow> Inr (encode_type m q)
     | PAlias s \<Rightarrow> Inr (JStr s) | _ \<Rightarrow> Inl TypeError)"

lemma encode_dispatch:
  "encode v = (case List.find (\<lambda>e. supports e v) default_encoders of
     None \<Rightarrow> Inl TypeError | Some e \<Rightarrow> run_encoder e v)"
  by (cases v) (simp_all add: default_encoders_def)

lemma list_all2_mset:
  assumes "list_all2 P xs ds" "mset xs = mset ys"
  shows "\<exists>es. list_all2 P ys es \<and> mset es = mset ds"
  using assms list_all2_reorder_left_invariance [of P xs ds ys] by simp

lemma filter_eq_count: "filter (\<lambda>x. x = k) zs = replicate (count (mset zs) k) k"
  by (induction zs) auto

lemma dumps_inj_canonical:
  "canonical j \<Longrightarrow> canonical k \<Longrightarrow> float_reprs (floats j \<union> floats k) \<Longrightarrow>
     dumps_json j = dumps_json k \<longleftrightarrow> j = k"
  using dumps_prefix [of j k "[]" "[]"] by auto

section \<open>Properties\<close>

text \<open>
  The encoders produce a canonical document (finite floats, objects with strictly ascending
  keys) from every Python value they accept, and encoding is idempotent: the document, read back
  as a Python value, encodes to itself.
\<close>

theorem encode_idempotent:
  assumes "pyval_ok v" "encode v = Inr j"
  shows "canonical j \<and> encode (py_of_json j) = Inr j"
  using encode_canonical [OF assms] encode_py_of_json by blast

theorem encode_idempotent_witness:
  "canonical (JObj [(''a'', JList [JInt 1]), (''b'', JNull)]) \<and>
   encode (py_of_json (JObj [(''a'', JList [JInt 1]), (''b'', JNull)])) =
     Inr (JObj [(''a'', JList [JInt 1]), (''b'', JNull)])"
  by (rule encode_idempotent [of "PMap [(PStr ''b'', PNone), (PStr ''a'', PSet [PInt 1])]"])
    (simp_all add: encode_mapping_def encode_set_def)

text \<open>
  The canonical text does not depend on the insertion order of a dictionary: a dictionary with
  the same items in another order encodes to the same document.
\<close>

theorem encode_dict_order:
  assumes "encode (PMap kvs) = Inr j" "distinct (map fst kvs)" "mset kvs' = mset kvs"
  shows "encode (PMap kvs') = Inr j"
proof -
  let ?P = "\<lambda>(k, r) (s, v). k = PStr s \<and> r = Inr v" and ?f = "\<lambda>(k, v). (k, encode v)"
  obtain d where d: "j = JObj (sort_key fst d)" "list_all2 ?P (map ?f kvs) d"
    using assms(1) by (auto simp: encode_mapping_Inr)
  obtain d' where d': "list_all2 ?P (map ?f kvs') d'" "mset d' = mset d"
    using list_all2_mset [OF d(2), of "map ?f kvs'"] assms(3) by auto
  have "distinct (map fst d)"
    using encode_items_keys [OF d(2)] assms(2) by (metis distinct_map map_map)
  then have "sort_key fst d = sort_key fst d'" using d'(2) by (metis sort_key_fst_perm)
  then show ?thesis using d d' by (auto simp: encode_mapping_Inr)
qed

theorem encode_dict_order_witness:
  "encode (PMap [(PStr ''b'', PNone), (PStr ''a'', PInt 1)]) = Inr (JObj [(''a'', JInt 1), (''b'', JNull)])"
  by (rule encode_dict_order [of "[(PStr ''a'', PInt 1), (PStr ''b'', PNone)]"])
    (simp_all add: encode_mapping_def)

text \<open>
  C40. Two values have the same canonical text exactly when they encode to the same document, so the
  text that is hashed identifies the content. What it relies on is Python's \<open>repr\<close> of the floats
  that occur (\<open>float_reprs\<close>).
\<close>

theorem canonical_dumps_inj:
  assumes "pyval_ok v" "pyval_ok w" "encode v = Inr j" "encode w = Inr k"
    "float_reprs (floats j \<union> floats k)"
  shows "canonical_dumps v = canonical_dumps w \<longleftrightarrow> j = k"
  using assms encode_canonical dumps_inj_canonical by (simp add: canonical_dumps_def)

theorem canonical_dumps_inj_witness:
  "(canonical_dumps (PSeq [PInt 1, PInt 2]) = canonical_dumps (PSeq [PInt 12])) =
     (JList [JInt 1, JInt 2] = JList [JInt 12])"
  by (rule canonical_dumps_inj) (simp_all add: encode_sequence_def float_reprs_def)

text \<open>
  The canonical form of a set does not depend on the order in which Python iterates over it.
\<close>

theorem encode_set_order:
  assumes "encode (PSet xs) = Inr j" "list_all pyval_ok xs" "mset ys = mset xs"
    "float_reprs (floats j)"
  shows "encode (PSet ys) = Inr j"
proof -
  obtain js where js: "j = JList (sort_key dumps_json js)" "list_all2 (\<lambda>x y. encode x = Inr y) xs js"
    using assms(1) by (auto simp: encode_set_def mapR_id_map bindR_eq_Inr mapR_eq_Inr)
  obtain ks where ks: "list_all2 (\<lambda>x y. encode x = Inr y) ys ks" "mset ks = mset js"
    using list_all2_mset [OF js(2)] assms(3) by metis
  have can: "canonical k" if k: "k \<in> set js" for k
  proof -
    obtain x where "x \<in> set xs" "encode x = Inr k"
      using list_all2_inD [OF js(2) k] by blast
    then show ?thesis using assms(2) encode_canonical by (auto simp: list_all_iff)
  qed
  have inj: "inj_on dumps_json (set js)"
  proof (rule inj_onI)
    fix a b assume ab: "a \<in> set js" "b \<in> set js" "dumps_json a = dumps_json b"
    then have "floats a \<union> floats b \<subseteq> floats j" using js(1) by auto
    then show "a = b" using ab can dumps_inj_canonical float_reprs_subset [OF assms(4)] by blast
  qed
  have "sort_key dumps_json ks = sort_key dumps_json js"
  proof (rule properties_for_sort_key)
    show "mset (sort_key dumps_json js) = mset ks" using ks by simp
    fix k assume "k \<in> set (sort_key dumps_json js)"
    then have k: "k \<in> set js" by simp
    have "filter (\<lambda>x. dumps_json k = dumps_json x) zs = replicate (count (mset js) k) k"
      if "mset zs = mset js" for zs
    proof -
      have "filter (\<lambda>x. dumps_json k = dumps_json x) zs = filter (\<lambda>x. x = k) zs"
        by (rule filter_cong [OF refl]) (metis inj inj_onD k mset_eq_setD that)
      then show ?thesis using that by (simp add: filter_eq_count)
    qed
    then show "filter (\<lambda>x. dumps_json k = dumps_json x) (sort_key dumps_json js) =
        filter (\<lambda>x. dumps_json k = dumps_json x) ks" using ks(2) by simp
  qed simp
  then show ?thesis using ks js
    by (simp add: encode_set_def mapR_id_map bindR_eq_Inr mapR_eq_Inr) metis
qed

theorem encode_set_order_witness:
  "encode (PSet [PInt 2, PNone, PInt 1]) = Inr (JList [JInt 1, JInt 2, JNull])"
proof (rule encode_set_order [of "[PInt 1, PInt 2, PNone]"])
  show "encode (PSet [PInt 1, PInt 2, PNone]) = Inr (JList [JInt 1, JInt 2, JNull])"
    by (simp add: encode_set_def show_int_def show_nat.simps digit_char_def less_eq_char_def less_char_def)
qed (simp_all add: float_reprs_def)

end
