(* ===== verification/Nodes.thy ===== *)
theory Nodes
  imports Metadata Canonical
begin

text \<open>
  Node objects of \<open>core/versioning/identity/nodes.py\<close>: a bare \<open>NodeId\<close>, a \<open>VersionKey\<close> that adds
  storage metadata, and a \<open>VersionNode\<close> that binds a model descriptor. All three compare and hash
  by the identity of the underlying \<open>NodeId\<close>, so an object's identity is \<open>node_id_of\<close>.
\<close>

section \<open>Objects\<close>

datatype 'v node =
    IdNode "'v node_id"
  | KeyNode "'v node_id" node_ref
  | ModelNode "'v node_id" model_ref "'v model_descriptor"

fun node_id_of :: "'v node \<Rightarrow> 'v node_id" where
  "node_id_of (IdNode i) = i"
| "node_id_of (KeyNode i r) = i"
| "node_id_of (ModelNode i r d) = i"

fun is_model :: "'v node \<Rightarrow> bool" where
  "is_model (ModelNode i r d) = True"
| "is_model _ = False"

fun descriptor :: "'v node \<Rightarrow> 'v model_descriptor option" where
  "descriptor (ModelNode i r d) = Some d"
| "descriptor _ = None"

fun modelref :: "'v node \<Rightarrow> model_ref option" where
  "modelref (ModelNode i r d) = Some (desc_ref d)"
| "modelref _ = None"

text \<open>\<open>fields\<close> is a \<open>frozenset\<close>; the list is compared as a set.\<close>

fun node_fields :: "'v node \<Rightarrow> string list" where
  "node_fields (ModelNode i r d) = map fst (desc_fields d)"
| "node_fields _ = []"

fun node_references :: "'v node \<Rightarrow> 'v node_id list" where
  "node_references (ModelNode i r d) = desc_references d"
| "node_references _ = []"

section \<open>Operations\<close>

text \<open>\<open>new.reconcile(existing)\<close> of \<open>VersionKey\<close> and, on models, of \<open>VersionNode\<close>.\<close>

fun node_reconcile :: "'v node \<Rightarrow> 'v node \<Rightarrow> 'v node res" where
  "node_reconcile (ModelNode i r d) existing =
     (if \<not> is_model existing then Inr (ModelNode i r d)
      else if set (node_fields (ModelNode i r d)) \<noteq> set (node_fields existing) then Inl NodeConflictError
      else Inr existing)"
| "node_reconcile _ existing = Inr existing"

fun with_descriptor :: "'v node \<Rightarrow> 'v model_descriptor \<Rightarrow> 'v node" where
  "with_descriptor (ModelNode i r _) d = ModelNode i r d"
| "with_descriptor n d = n"

fun node_with_fields :: "'v node \<Rightarrow> 'v field_descriptor list \<Rightarrow> 'v node" where
  "node_with_fields (ModelNode i r d) fs = with_descriptor (ModelNode i r d) (desc_with_fields d fs)"
| "node_with_fields n fs = n"

fun node_without_fields :: "'v node \<Rightarrow> string list \<Rightarrow> 'v node" where
  "node_without_fields (ModelNode i r d) names = with_descriptor (ModelNode i r d) (desc_without_fields d names)"
| "node_without_fields n names = n"

text \<open>\<open>VersionNode.content_payload\<close>; the set \<open>references\<close> is sorted by text.\<close>

definition node_content_payload ::
  "('v \<Rightarrow> string) \<Rightarrow> 'v node_id \<Rightarrow> 'v model_descriptor \<Rightarrow> pyval res" where
  "node_content_payload show_v i d =
     (if mr_entity_id (desc_ref d) = [] then Inl ValueError
      else Inr (PMap
        [(PStr ''id'', PStr (node_str show_v i)),
         (PStr ''model'', PStr (mr_entity_id (desc_ref d))),
         (PStr ''fields'', PSeq (map PStr (sort (map fst (desc_fields d))))),
         (PStr ''references'', PSeq (map PStr (sort (map (node_str show_v) (desc_references d)))))]))"

text \<open>
  \<open>digest\<close>: the manifest checksum of a \<open>VersionNode\<close>, the identity digest of the others.
  \<open>hash_alg\<close> is the hash algorithm on the UTF-8 text.
\<close>

fun node_digest :: "(string \<Rightarrow> string) \<Rightarrow> ('v \<Rightarrow> string) \<Rightarrow> 'v node \<Rightarrow> string res" where
  "node_digest hash_alg show_v (ModelNode i r d) =
     bindR (node_content_payload show_v i d) (content_digest_of hash_alg)"
| "node_digest hash_alg show_v n = content_digest_of hash_alg (py_of_json (node_id_canonical show_v (node_id_of n)))"

definition node_to_canonical :: "('v \<Rightarrow> string) \<Rightarrow> 'v node_id \<Rightarrow> model_ref \<Rightarrow> 'v model_descriptor \<Rightarrow> json" where
  "node_to_canonical show_v i r d = JObj
     [(''namespace'', JStr (nid_namespace i)), (''kind'', JStr (nid_kind i)),
      (''version'', JStr (show_v (nid_version i))),
      (''ref'', model_ref_to_canonical r), (''model'', desc_to_canonical show_v d)]"

definition node_from_canonical :: "(string \<Rightarrow> 'v res) \<Rightarrow> json \<Rightarrow> 'v node res" where
  "node_from_canonical parse_v v =
     bindR (jitem v ''model'') (\<lambda>m. bindR (desc_from_canonical parse_v m) (\<lambda>d.
     bindR (case present (jget v ''ref'') of None \<Rightarrow> Inr (desc_ref d)
            | Some r \<Rightarrow> model_ref_from_canonical r) (\<lambda>ref.
     bindR (node_id_from_canonical parse_v v) (\<lambda>i.
       Inr (ModelNode i ref d)))))"

section \<open>Lemmas\<close>

lemma node_reconcile_id: "node_id_of new = node_id_of old \<Longrightarrow> node_reconcile new old = Inr n \<Longrightarrow> node_id_of n = node_id_of old"
  by (cases new) (auto split: if_splits)

lemma node_reconcile_cases: "node_reconcile new old = Inr n \<Longrightarrow> n = new \<or> n = old"
  by (cases new) (auto split: if_splits)

lemma with_fields_id [simp]:
  "node_id_of (with_descriptor n d) = node_id_of n"
  "node_id_of (node_with_fields n fs) = node_id_of n"
  "node_id_of (node_without_fields n names) = node_id_of n"
  by (cases n; simp)+

section \<open>Properties\<close>

text \<open>
  A version node survives its canonical form: reading back what \<open>to_canonical\<close> writes gives the
  same identity, the same storage reference and the descriptor in canonical field order.
\<close>

theorem node_roundtrip:
  assumes "\<And>n. n \<in> insert i (set (desc_references d)) \<Longrightarrow>
      parse_v (show_v (nid_version n)) = Inr (nid_version n) \<and> nid_namespace n \<noteq> []"
  shows "node_from_canonical parse_v (node_to_canonical show_v i r d) = Inr (ModelNode i r (desc_norm d))"
proof -
  have d: "desc_from_canonical parse_v (desc_to_canonical show_v d) = Inr (desc_norm d)"
    by (rule desc_roundtrip_norm) (simp add: assms)
  have "present (Some (model_ref_to_canonical r)) = Some (model_ref_to_canonical r)"
    by (simp add: model_ref_to_canonical_def)
  then show ?thesis using assms [of i]
    by (cases i) (simp add: node_from_canonical_def node_to_canonical_def d model_ref_roundtrip
        node_id_from_canonical_def mk_node_id_def)
qed

theorem node_roundtrip_witness:
  "node_from_canonical (\<lambda>s. Inr s) (node_to_canonical (\<lambda>v. v) (NodeId ''app'' ''User'' ''1.0.0'')
     \<lparr>mr_provider_id = ''p'', mr_entity_id = ''m.User'', mr_metadata = []\<rparr>
     \<lparr>desc_ref = \<lparr>mr_provider_id = ''p'', mr_entity_id = ''m.User'', mr_metadata = []\<rparr>, desc_fields = []\<rparr>)
   = Inr (ModelNode (NodeId ''app'' ''User'' ''1.0.0'')
       \<lparr>mr_provider_id = ''p'', mr_entity_id = ''m.User'', mr_metadata = []\<rparr>
       \<lparr>desc_ref = \<lparr>mr_provider_id = ''p'', mr_entity_id = ''m.User'', mr_metadata = []\<rparr>, desc_fields = []\<rparr>)"
  by (subst node_roundtrip) (simp_all add: desc_references_def desc_norm_def fm_sorted_items_def)

text \<open>
  Reconciling keeps the richer definition: the result has the common identity, a bound model is
  never replaced by another and never lost, a model fills a slot that held only a key, and the only
  failure is two models whose field names differ.
\<close>

theorem node_reconcile_spec:
  assumes "node_id_of new = node_id_of old"
  shows "(\<forall>n. node_reconcile new old = Inr n \<longrightarrow>
            node_id_of n = node_id_of old \<and> (is_model n \<longleftrightarrow> is_model new \<or> is_model old)
            \<and> (is_model old \<longrightarrow> n = old))
       \<and> (node_reconcile new old = Inl NodeConflictError \<longleftrightarrow>
            is_model new \<and> is_model old \<and> set (node_fields new) \<noteq> set (node_fields old))
       \<and> (\<forall>e. node_reconcile new old = Inl e \<longrightarrow> e = NodeConflictError)"
  using assms by (cases new) auto

theorem node_reconcile_spec_witness:
  "\<exists>n. node_reconcile (ModelNode (NodeId ''a'' ''K'' (1::nat)) \<lparr>mr_provider_id = ''p'', mr_entity_id = ''e'', mr_metadata = []\<rparr>
          \<lparr>desc_ref = \<lparr>mr_provider_id = ''p'', mr_entity_id = ''e'', mr_metadata = []\<rparr>, desc_fields = []\<rparr>)
        (KeyNode (NodeId ''a'' ''K'' 1) (NodeRef [])) = Inr n \<and> is_model n"
  using node_reconcile_spec [of "ModelNode (NodeId ''a'' ''K'' (1::nat)) \<lparr>mr_provider_id = ''p'', mr_entity_id = ''e'', mr_metadata = []\<rparr>
          \<lparr>desc_ref = \<lparr>mr_provider_id = ''p'', mr_entity_id = ''e'', mr_metadata = []\<rparr>, desc_fields = []\<rparr>"
        "KeyNode (NodeId ''a'' ''K'' 1) (NodeRef [])"] by auto

end
