(* ===== verification/Diff.thy ===== *)
theory Diff
  imports Nodes
begin

text \<open>
  Structural diffs between two versions of a model, from \<open>core/versioning/diff.py\<close>: how a diff is
  built field by field, the queries on it, its inversion, and the change sets that summarise it.
\<close>

section \<open>Equality of field parts\<close>

text \<open>
  Dataclass equality of \<open>TypeRef\<close>: mappings compare without order, a \<open>ModelRef\<close> without its
  metadata, literal values with \<open>==\<close>. \<open>type_ref_key\<close> is a normal form for it.
\<close>

fun type_ref_key :: "type_ref \<Rightarrow> type_ref" where
  "type_ref_key (TypeRef kd item args flds ref ver vals nm) =
     TypeRef kd (map_option type_ref_key item) (map type_ref_key args)
       (map_option (\<lambda>m. fm_sorted_items (map (\<lambda>(k, t). (k, type_ref_key t)) m)) flds)
       (map_option (\<lambda>r. r\<lparr>mr_metadata := []\<rparr>) ref) ver (map json_key vals) nm"

definition type_ref_eq :: "type_ref \<Rightarrow> type_ref \<Rightarrow> bool" where
  "type_ref_eq a b \<longleftrightarrow> type_ref_key a = type_ref_key b"

fun default_eq :: "json option \<Rightarrow> json option \<Rightarrow> bool" where
  "default_eq (Some a) (Some b) = py_eq a b"
| "default_eq None None = True"
| "default_eq _ _ = False"

text \<open>The marker \<open>NO_DEFAULT\<close> is an instance of a dataclass without fields.\<close>

definition no_default :: pyval where
  "no_default = PData []"

definition default_value :: "json option \<Rightarrow> pyval" where
  "default_value d = (case d of None \<Rightarrow> no_default | Some j \<Rightarrow> py_of_json j)"

section \<open>Diffs\<close>

datatype field_status = ADDED | REMOVED | MODIFIED | UNCHANGED

fun status_value :: "field_status \<Rightarrow> string" where
  "status_value ADDED = ''added''"
| "status_value REMOVED = ''removed''"
| "status_value MODIFIED = ''modified''"
| "status_value UNCHANGED = ''unchanged''"

fun status_inverted :: "field_status \<Rightarrow> field_status" where
  "status_inverted ADDED = REMOVED"
| "status_inverted REMOVED = ADDED"
| "status_inverted s = s"

datatype field_change = FieldChange (fc_status: field_status) (fc_details: "(string \<times> pyval) list")

datatype diff_origin = SCHEMA | MIGRATION

fun origin_value :: "diff_origin \<Rightarrow> string" where
  "origin_value SCHEMA = ''schema''"
| "origin_value MIGRATION = ''migration''"

record 'v diff =
  diff_source :: "'v node"
  diff_target :: "'v node"
  diff_fields :: "(string, field_change) frozen_map"
  diff_origin :: diff_origin

definition from_to :: "pyval \<Rightarrow> pyval \<Rightarrow> pyval" where
  "from_to a b = PMap [(PStr ''from'', a), (PStr ''to'', b)]"

definition added_change :: "'v field_descriptor \<Rightarrow> field_change" where
  "added_change f = FieldChange ADDED
     [(''type'', fd_annotation f),
      (''type_ref'', py_of_json (type_ref_to_canonical (fd_type_ref f))),
      (''required'', PBool (fd_required f)),
      (''default'', case fd_default f of None \<Rightarrow> PNone | Some j \<Rightarrow> py_of_json j)]"

definition field_changes_of :: "'v field_descriptor \<Rightarrow> 'v field_descriptor \<Rightarrow> (string \<times> pyval) list" where
  "field_changes_of a b =
     (if type_ref_eq (fd_type_ref a) (fd_type_ref b) then []
      else [(''type_changed'', from_to (py_of_json (type_ref_to_canonical (fd_type_ref a)))
                                  (py_of_json (type_ref_to_canonical (fd_type_ref b))))])
     @ (if fd_required a = fd_required b then []
        else [(''required_changed'', from_to (PBool (fd_required a)) (PBool (fd_required b)))])
     @ (if default_eq (fd_default a) (fd_default b) then []
        else [(''default_changed'', from_to (default_value (fd_default a)) (default_value (fd_default b)))])"

definition common_change :: "'v field_descriptor \<Rightarrow> 'v field_descriptor \<Rightarrow> field_change" where
  "common_change a b =
     (let changes = field_changes_of a b in
      FieldChange (if changes \<noteq> [] then MODIFIED else UNCHANGED) changes)"

text \<open>
  \<open>_diff_fields\<close>: the names that only the target has, then those that only the source has, then the
  common ones, each group in name order.
\<close>

definition diff_fields_of :: "'v model_descriptor \<Rightarrow> 'v model_descriptor \<Rightarrow> (string, field_change) frozen_map" where
  "diff_fields_of source target =
     (let s = desc_fields source; t = desc_fields target in
      map (\<lambda>name. (name, added_change (the (map_of t name))))
        (sort (filter (\<lambda>n. \<not> dict_has s n) (map fst t)))
      @ map (\<lambda>name. (name, FieldChange REMOVED []))
        (sort (filter (\<lambda>n. \<not> dict_has t n) (map fst s)))
      @ map (\<lambda>name. (name, common_change (the (map_of s name)) (the (map_of t name))))
        (sort (filter (dict_has t) (map fst s))))"

text \<open>\<open>_build_diff\<close>; a target that is not \<open>Versionable\<close> (a bare key) yields a diff without fields.\<close>

definition build_diff :: "('v \<Rightarrow> string) \<Rightarrow> 'v node_id \<Rightarrow> model_ref \<Rightarrow> 'v model_descriptor \<Rightarrow> 'v node \<Rightarrow> 'v diff res" where
  "build_diff strategy_of i r d target =
     bindR (case descriptor target of
              None \<Rightarrow> Inr []
            | Some d' \<Rightarrow>
                if strategy_of (nid_version i) \<noteq> strategy_of (nid_version (node_id_of target)) then Inl ValueError
                else if nid_kind i \<noteq> nid_kind (node_id_of target) then Inl ValueError
                else Inr (diff_fields_of d d'))
       (\<lambda>fields. Inr \<lparr>diff_source = ModelNode i r d, diff_target = target, diff_fields = fields,
                       diff_origin = SCHEMA\<rparr>)"

definition diff_with_field :: "'v diff \<Rightarrow> string \<Rightarrow> field_change \<Rightarrow> 'v diff" where
  "diff_with_field d name change = d\<lparr>diff_fields := fm_updated (diff_fields d) [(name, change)]\<rparr>"

definition diff_with_fields :: "'v diff \<Rightarrow> (string \<times> field_change) list \<Rightarrow> 'v diff" where
  "diff_with_fields d changes = d\<lparr>diff_fields := fm_updated (diff_fields d) changes\<rparr>"

definition details_value :: "(string \<times> pyval) list \<Rightarrow> pyval" where
  "details_value d = PMap (map (\<lambda>(k, v). (PStr k, v)) d)"

definition fingerprint_payload :: "'v diff \<Rightarrow> pyval" where
  "fingerprint_payload d = PMap
     [(PStr ''fields'', PMap (map (\<lambda>(name, c). (PStr name, PMap
         [(PStr ''status'', PStr (status_value (fc_status c))), (PStr ''details'', details_value (fc_details c))]))
         (sort_key fst (diff_fields d)))),
      (PStr ''origin'', PStr (origin_value (diff_origin d)))]"

section \<open>Queries\<close>

definition names_with :: "field_status \<Rightarrow> 'v diff \<Rightarrow> string list" where
  "names_with st d = sort (map fst (filter (\<lambda>(n, c). fc_status c = st) (diff_fields d)))"

definition added_fields :: "'v diff \<Rightarrow> string list" where
  "added_fields = names_with ADDED"

definition removed_fields :: "'v diff \<Rightarrow> string list" where
  "removed_fields = names_with REMOVED"

definition unchanged_fields :: "'v diff \<Rightarrow> string list" where
  "unchanged_fields = names_with UNCHANGED"

definition info_with :: "field_status \<Rightarrow> 'v diff \<Rightarrow> (string \<times> (string \<times> pyval) list) list" where
  "info_with st d = map (\<lambda>(n, c). (n, fc_details c))
     (filter (\<lambda>(n, c). fc_status c = st) (sort_key fst (diff_fields d)))"

definition modified_fields :: "'v diff \<Rightarrow> (string \<times> (string \<times> pyval) list) list" where
  "modified_fields = info_with MODIFIED"

definition added_field_info :: "'v diff \<Rightarrow> (string \<times> (string \<times> pyval) list) list" where
  "added_field_info = info_with ADDED"

definition is_backward :: "('v::linorder \<Rightarrow> string) \<Rightarrow> 'v diff \<Rightarrow> bool res" where
  "is_backward strategy_of d =
     node_gt strategy_of (node_id_of (diff_source d)) (Some (node_id_of (diff_target d)))"

definition is_forward :: "('v::linorder \<Rightarrow> string) \<Rightarrow> 'v diff \<Rightarrow> bool res" where
  "is_forward strategy_of d =
     node_lt strategy_of (node_id_of (diff_source d)) (Some (node_id_of (diff_target d)))"

definition is_identity :: "'v diff \<Rightarrow> bool" where
  "is_identity d \<longleftrightarrow> added_fields d = [] \<and> removed_fields d = [] \<and> modified_fields d = []"

definition has_additions :: "'v diff \<Rightarrow> bool" where
  "has_additions d \<longleftrightarrow> added_fields d \<noteq> []"

definition has_removals :: "'v diff \<Rightarrow> bool" where
  "has_removals d \<longleftrightarrow> removed_fields d \<noteq> []"

definition has_modifications :: "'v diff \<Rightarrow> bool" where
  "has_modifications d \<longleftrightarrow> modified_fields d \<noteq> []"

definition has_type_changes :: "'v diff \<Rightarrow> bool" where
  "has_type_changes d \<longleftrightarrow> list_ex (\<lambda>(n, c). dict_has c ''type_changed'') (modified_fields d)"

definition has_constraint_changes :: "'v diff \<Rightarrow> bool" where
  "has_constraint_changes d \<longleftrightarrow> list_ex (\<lambda>(n, c). dict_has c ''required_changed'') (modified_fields d)"

definition has_status :: "field_status \<Rightarrow> 'v diff \<Rightarrow> string \<Rightarrow> bool" where
  "has_status st d field = (case map_of (diff_fields d) field of None \<Rightarrow> False | Some c \<Rightarrow> fc_status c = st)"

definition is_added :: "'v diff \<Rightarrow> string \<Rightarrow> bool" where
  "is_added = has_status ADDED"

definition is_removed :: "'v diff \<Rightarrow> string \<Rightarrow> bool" where
  "is_removed = has_status REMOVED"

definition is_modified :: "'v diff \<Rightarrow> string \<Rightarrow> bool" where
  "is_modified = has_status MODIFIED"

text \<open>\<open>bool(x)\<close>, \<open>x.get(k)\<close> and \<open>x[k]\<close> on a Python value held in the details.\<close>

fun py_truthy :: "pyval \<Rightarrow> bool" where
  "py_truthy PNone = False"
| "py_truthy (PBool b) = b"
| "py_truthy (PInt i) = (i \<noteq> 0)"
| "py_truthy (PFloat x) = (flt_int x \<noteq> Some 0)"
| "py_truthy (PStr s) = (s \<noteq> [])"
| "py_truthy (PBytes b) = (b \<noteq> [])"
| "py_truthy (PMap m) = (m \<noteq> [])"
| "py_truthy (PSeq xs) = (xs \<noteq> [])"
| "py_truthy (PSet xs) = (xs \<noteq> [])"
| "py_truthy _ = True"

fun py_item :: "pyval \<Rightarrow> string \<Rightarrow> pyval res" where
  "py_item (PMap m) k = (case map_of m (PStr k) of None \<Rightarrow> Inl KeyError | Some v \<Rightarrow> Inr v)"
| "py_item _ k = Inl TypeError"

definition is_added_required :: "'v diff \<Rightarrow> string \<Rightarrow> bool" where
  "is_added_required d field =
     (case map_of (added_field_info d) field of
        None \<Rightarrow> False
      | Some info \<Rightarrow> info \<noteq> [] \<and> py_truthy (dict_get info ''required'' PNone))"

definition added_default :: "'v diff \<Rightarrow> string \<Rightarrow> pyval" where
  "added_default d field =
     (case map_of (added_field_info d) field of
        None \<Rightarrow> PNone
      | Some info \<Rightarrow> if info \<noteq> [] then dict_get info ''default'' PNone else PNone)"

definition modified_change :: "'v diff \<Rightarrow> string \<Rightarrow> string \<Rightarrow> pyval" where
  "modified_change d field key = dict_get (dict_get (modified_fields d) field []) key PNone"

definition is_union_expansion :: "'v diff \<Rightarrow> string \<Rightarrow> bool res" where
  "is_union_expansion d field =
     (let rc = modified_change d field ''required_changed'' in
      if rc = PNone then Inr False
      else bindR (py_item rc ''from'') (\<lambda>a. if \<not> py_truthy a then Inr False
        else bindR (py_item rc ''to'') (\<lambda>b. Inr (\<not> py_truthy b))))"

definition is_union_contraction :: "'v diff \<Rightarrow> string \<Rightarrow> bool res" where
  "is_union_contraction d field =
     (let rc = modified_change d field ''required_changed'' in
      if rc = PNone then Inr False
      else bindR (py_item rc ''from'') (\<lambda>a. if py_truthy a then Inr False
        else bindR (py_item rc ''to'') (\<lambda>b. Inr (py_truthy b))))"

definition diff_inverted :: "'v diff \<Rightarrow> 'v diff" where
  "diff_inverted d = d\<lparr>diff_fields :=
     map (\<lambda>(n, c). (n, FieldChange (status_inverted (fc_status c)) (fc_details c))) (diff_fields d)\<rparr>"

section \<open>Change sets\<close>

record 'a change_set =
  cs_added :: "'a list"
  cs_removed :: "'a list"
  cs_modified :: "'a list"

definition field_changes :: "'v diff \<Rightarrow> string change_set" where
  "field_changes d = \<lparr>cs_added = added_fields d, cs_removed = removed_fields d,
     cs_modified = map fst (modified_fields d)\<rparr>"

definition cs_changed :: "'a change_set \<Rightarrow> bool" where
  "cs_changed c \<longleftrightarrow> cs_added c \<noteq> [] \<or> cs_removed c \<noteq> [] \<or> cs_modified c \<noteq> []"

definition cs_summary :: "('a \<Rightarrow> string) \<Rightarrow> 'a change_set \<Rightarrow> string \<Rightarrow> string list" where
  "cs_summary show_a c label =
     concat (map (\<lambda>(verb, values). if values = [] then []
               else [label @ '' '' @ verb @ '': '' @ join '', '' (sort (map show_a values))])
       [(''added'', cs_added c), (''removed'', cs_removed c), (''changed'', cs_modified c)])"

section \<open>Lemmas\<close>

lemma map_of_map_names:
  "map_of (map (\<lambda>n. (n, g n)) ns) n = (if n \<in> set ns then Some (g n) else None)"
  by (induction ns) auto

lemma map_of_diff_fields:
  "map_of (diff_fields_of s t) n =
     (case (map_of (desc_fields s) n, map_of (desc_fields t) n) of
        (None, None) \<Rightarrow> None
      | (None, Some f) \<Rightarrow> Some (added_change f)
      | (Some f, None) \<Rightarrow> Some (FieldChange REMOVED [])
      | (Some f, Some g) \<Rightarrow> Some (common_change f g))"
  by (cases "map_of (desc_fields s) n"; cases "map_of (desc_fields t) n")
    (auto simp: diff_fields_of_def Let_def map_add_def map_of_map_names dict_has_def map_of_eq_None_iff
      dest: map_of_SomeD split: option.splits intro: rev_image_eqI)

lemma diff_fields_distinct:
  assumes "dict_ok (desc_fields s)" "dict_ok (desc_fields t)"
  shows "distinct (map fst (diff_fields_of s t))"
  using assms
  by (auto simp: diff_fields_of_def Let_def comp_def dict_ok_def dict_has_iff distinct_filter)

lemma common_change_status:
  "fc_status (common_change a b) = UNCHANGED \<longleftrightarrow>
     type_ref_eq (fd_type_ref a) (fd_type_ref b) \<and> fd_required a = fd_required b
     \<and> default_eq (fd_default a) (fd_default b)"
  "fc_status (common_change a b) = MODIFIED \<longleftrightarrow> fc_status (common_change a b) \<noteq> UNCHANGED"
  "fc_status (common_change a b) \<noteq> ADDED" "fc_status (common_change a b) \<noteq> REMOVED"
  by (auto simp: common_change_def field_changes_of_def Let_def)

lemma common_change_eq:
  "common_change f g =
     (if type_ref_eq (fd_type_ref f) (fd_type_ref g) \<and> fd_required f = fd_required g
         \<and> default_eq (fd_default f) (fd_default g)
      then FieldChange UNCHANGED [] else FieldChange MODIFIED (field_changes_of f g))"
  by (auto simp: common_change_def field_changes_of_def)

lemma default_eq_commute: "default_eq a b = default_eq b a"
  by (cases a; cases b) (auto simp: py_eq_def)

lemma names_with_set: "set (names_with st d) = {n. \<exists>c. (n, c) \<in> set (diff_fields d) \<and> fc_status c = st}"
  by (force simp: names_with_def)

lemma names_with_empty: "names_with st d = [] \<longleftrightarrow> (\<forall>(n, c) \<in> set (diff_fields d). fc_status c \<noteq> st)"
proof -
  have "names_with st d = [] \<longleftrightarrow> set (names_with st d) = {}" by simp
  then show ?thesis unfolding names_with_set by auto
qed

lemma modified_empty: "modified_fields d = [] \<longleftrightarrow> (\<forall>(n, c) \<in> set (diff_fields d). fc_status c \<noteq> MODIFIED)"
  by (auto simp: modified_fields_def info_with_def filter_empty_conv)

lemma status_inverted_inverted [simp]: "status_inverted (status_inverted s) = s"
  by (cases s) auto

lemma is_identity_all: "is_identity d \<longleftrightarrow> (\<forall>(n, c) \<in> set (diff_fields d). fc_status c = UNCHANGED)"
proof -
  have "st = UNCHANGED \<longleftrightarrow> st \<noteq> ADDED \<and> st \<noteq> REMOVED \<and> st \<noteq> MODIFIED" for st by (cases st) auto
  then show ?thesis
    by (auto simp: is_identity_def added_fields_def removed_fields_def names_with_empty modified_empty)
qed

lemma diff_fields_status:
  "map_option fc_status (map_of (diff_fields_of t s) n) =
   map_option (status_inverted \<circ> fc_status) (map_of (diff_fields_of s t) n)"
proof (cases "map_of (desc_fields s) n"; cases "map_of (desc_fields t) n")
  fix a b assume ab: "map_of (desc_fields s) n = Some a" "map_of (desc_fields t) n = Some b"
  have "fc_status (common_change b a) = UNCHANGED \<longleftrightarrow> fc_status (common_change a b) = UNCHANGED"
    by (auto simp: common_change_status(1) type_ref_eq_def default_eq_commute)
  then have "fc_status (common_change b a) = status_inverted (fc_status (common_change a b))"
    using common_change_status [of a b] common_change_status [of b a]
    by (cases "fc_status (common_change a b)"; cases "fc_status (common_change b a)") auto
  then show ?thesis using ab by (simp add: map_of_diff_fields)
qed (simp_all add: map_of_diff_fields added_change_def)

section \<open>Properties\<close>

text \<open>
  A diff says exactly what happened to every field: a name that only the target has is added with
  its schema, one that only the source has is removed, a common one is unchanged when type,
  requiredness and default are equal and modified with the list of differences otherwise, and no other
  name occurs.
\<close>

theorem build_diff_fields:
  assumes "build_diff strategy_of i r d (ModelNode j r' d') = Inr df"
  shows "map_of (diff_fields df) n =
     (case (map_of (desc_fields d) n, map_of (desc_fields d') n) of
        (None, None) \<Rightarrow> None
      | (None, Some f) \<Rightarrow> Some (added_change f)
      | (Some f, None) \<Rightarrow> Some (FieldChange REMOVED [])
      | (Some f, Some g) \<Rightarrow>
          if type_ref_eq (fd_type_ref f) (fd_type_ref g) \<and> fd_required f = fd_required g
             \<and> default_eq (fd_default f) (fd_default g)
          then Some (FieldChange UNCHANGED [])
          else Some (FieldChange MODIFIED (field_changes_of f g)))
   \<and> nid_kind i = nid_kind j"
proof -
  have "diff_fields df = diff_fields_of d d'" "nid_kind i = nid_kind j"
    using assms by (auto simp: build_diff_def bindR_eq_Inr split: if_splits)
  then show ?thesis by (simp add: map_of_diff_fields common_change_eq split: option.split)
qed

theorem build_diff_fields_witness:
  "map_of (diff_fields_of (sample_desc [sample_field ''x'' True, sample_field ''y'' True] :: nat model_descriptor)
      (sample_desc [sample_field ''y'' False, sample_field ''z'' False])) ''y''
   = Some (FieldChange MODIFIED [(''required_changed'', from_to (PBool True) (PBool False))])"
  using build_diff_fields [of "\<lambda>v. ''int''" "NodeId ''a'' ''K'' (1::nat)" sample_ref
      "sample_desc [sample_field ''x'' True, sample_field ''y'' True]" "NodeId ''a'' ''K'' 2" sample_ref
      "sample_desc [sample_field ''y'' False, sample_field ''z'' False]" _ "''y''"]
  by (simp add: build_diff_def sample_desc_def field_changes_of_def type_ref_eq_def sample_field_def)

text \<open>
  A diff between two well-formed models is the identity exactly when the models have the same
  field names and equal types, requiredness and defaults.
\<close>

theorem diff_identity_iff:
  assumes "dict_ok (desc_fields d)" "dict_ok (desc_fields d')"
    "build_diff strategy_of i r d (ModelNode j r' d') = Inr df"
  shows "is_identity df \<longleftrightarrow> fst ` set (desc_fields d) = fst ` set (desc_fields d') \<and>
     (\<forall>n f g. map_of (desc_fields d) n = Some f \<longrightarrow> map_of (desc_fields d') n = Some g \<longrightarrow>
        type_ref_eq (fd_type_ref f) (fd_type_ref g) \<and> fd_required f = fd_required g
        \<and> default_eq (fd_default f) (fd_default g))"
  (is "_ \<longleftrightarrow> ?keys \<and> ?eqs")
proof -
  have df: "diff_fields df = diff_fields_of d d'"
    using assms(3) by (auto simp: build_diff_def bindR_eq_Inr split: if_splits)
  have "is_identity df \<longleftrightarrow> (\<forall>n c. map_of (diff_fields df) n = Some c \<longrightarrow> fc_status c = UNCHANGED)"
    using diff_fields_distinct [OF assms(1, 2)]
    by (auto simp: is_identity_all df dest: map_of_SomeD)
  also have "\<dots> \<longleftrightarrow> (\<forall>n. (map_of (desc_fields d) n = None \<longleftrightarrow> map_of (desc_fields d') n = None)
      \<and> (\<forall>f g. map_of (desc_fields d) n = Some f \<longrightarrow> map_of (desc_fields d') n = Some g \<longrightarrow>
          fc_status (common_change f g) = UNCHANGED))"
    by (intro all_cong1) (auto simp: df map_of_diff_fields added_change_def split: option.splits)
  also have "\<dots> \<longleftrightarrow> ?keys \<and> ?eqs"
    by (auto simp: common_change_status(1) map_of_eq_None_iff set_eq_iff)
  finally show ?thesis .
qed

theorem diff_identity_iff_witness:
  "is_identity \<lparr>diff_source = ModelNode (NodeId ''a'' ''K'' (1::nat)) sample_ref (sample_desc [sample_field ''x'' True]),
      diff_target = ModelNode (NodeId ''a'' ''K'' 2) sample_ref (sample_desc [sample_field ''x'' True]),
      diff_fields = [(''x'', FieldChange UNCHANGED [])], diff_origin = SCHEMA\<rparr>"
  by (subst diff_identity_iff [of "sample_desc [sample_field ''x'' True]" "sample_desc [sample_field ''x'' True]"
        "\<lambda>v. ''int''" "NodeId ''a'' ''K'' (1::nat)" sample_ref "NodeId ''a'' ''K'' 2" sample_ref])
    (simp_all add: sample_desc_def build_diff_def diff_fields_of_def common_change_eq type_ref_eq_def dict_ok_def
      dict_has_def)

text \<open>
  The reverse diff and the inverted diff agree: for every field, the status in the diff from
  target to source is the inverted status of the diff from source to target, and inverting twice
  gives the diff back.
\<close>

theorem diff_inverted_reverse:
  assumes "build_diff strategy_of i r d (ModelNode j r' d') = Inr df"
    "build_diff strategy_of j r' d' (ModelNode i r d) = Inr df'"
  shows "map_option fc_status (map_of (diff_fields df') n) =
           map_option fc_status (map_of (diff_fields (diff_inverted df)) n)
       \<and> diff_inverted (diff_inverted df) = df"
proof -
  have df: "diff_fields df = diff_fields_of d d'" "diff_fields df' = diff_fields_of d' d"
    using assms by (auto simp: build_diff_def bindR_eq_Inr split: if_splits)
  have "diff_inverted (diff_inverted df) = df"
    by (simp add: diff_inverted_def case_prod_unfold comp_def)
  then show ?thesis using df
    by (simp add: diff_inverted_def map_of_map_snd diff_fields_status option.map_comp comp_def)
qed

lemma build_diff_models:
  "nid_kind i = nid_kind j \<Longrightarrow> strategy_of (nid_version i) = strategy_of (nid_version j) \<Longrightarrow>
   build_diff strategy_of i r d (ModelNode j r' d') =
     Inr \<lparr>diff_source = ModelNode i r d, diff_target = ModelNode j r' d',
          diff_fields = diff_fields_of d d', diff_origin = SCHEMA\<rparr>"
  by (simp add: build_diff_def)

theorem diff_inverted_reverse_witness:
  "map_option fc_status (map_of (diff_fields_of (sample_desc [] :: nat model_descriptor)
      (sample_desc [sample_field ''x'' True])) ''x'') = Some ADDED"
  using diff_inverted_reverse [of "\<lambda>v. ''int''" "NodeId ''a'' ''K'' (1::nat)" sample_ref
      "sample_desc [sample_field ''x'' True]" "NodeId ''a'' ''K'' 2" sample_ref "sample_desc []" _ _ "''x''",
      OF build_diff_models build_diff_models]
  by (simp add: diff_inverted_def diff_fields_of_def sample_desc_def dict_has_def)

end
