(* ===== verification/Edges.thy ===== *)
theory Edges
  imports Diff
begin

text \<open>
  Edge objects of \<open>core/versioning/identity/edges.py\<close>: a bare \<open>EdgeId\<close>, an \<open>EdgeKey\<close> with storage
  metadata, and an executable \<open>VersionEdge\<close>. Like nodes they compare by identity, \<open>eid_of\<close>; their
  endpoints are node objects, which may be bare identities. \<open>entity\<close> is what the health index holds:
  a node or an edge.
\<close>

section \<open>Objects\<close>

datatype 'v edge =
    IdEdge "'v node" "'v node" string
  | KeyEdge "'v node" "'v node" string edge_ref
  | VersionEdge "'v node" "'v node" string migration_ref "'v diff" migration_descriptor

fun edge_source :: "'v edge \<Rightarrow> 'v node" where
  "edge_source (IdEdge s t x) = s"
| "edge_source (KeyEdge s t x r) = s"
| "edge_source (VersionEdge s t x r d m) = s"

fun edge_target :: "'v edge \<Rightarrow> 'v node" where
  "edge_target (IdEdge s t x) = t"
| "edge_target (KeyEdge s t x r) = t"
| "edge_target (VersionEdge s t x r d m) = t"

fun edge_discriminator :: "'v edge \<Rightarrow> string" where
  "edge_discriminator (IdEdge s t x) = x"
| "edge_discriminator (KeyEdge s t x r) = x"
| "edge_discriminator (VersionEdge s t x r d m) = x"

definition eid_of :: "'v edge \<Rightarrow> 'v edge_id" where
  "eid_of e = EdgeId (node_id_of (edge_source e)) (node_id_of (edge_target e)) (edge_discriminator e)"

definition edge_kind :: "'v edge \<Rightarrow> string" where
  "edge_kind e = eid_kind (eid_of e)"

fun is_executable :: "'v edge \<Rightarrow> bool" where
  "is_executable (VersionEdge s t x r d m) = True"
| "is_executable _ = False"

fun edge_diff :: "'v edge \<Rightarrow> 'v diff option" where
  "edge_diff (VersionEdge s t x r d m) = Some d"
| "edge_diff _ = None"

section \<open>Operations\<close>

text \<open>
  The constructors run \<open>EdgeId.__post_init__\<close>. \<open>from_pair\<close> of \<open>EdgeKey\<close> with the default
  discriminator or another; \<open>from_version_edge\<close> keeps the endpoints and takes the edge's reference.
\<close>

definition edge_key_from_pair :: "'v node \<Rightarrow> 'v node \<Rightarrow> string \<Rightarrow> edge_ref option \<Rightarrow> 'v edge res" where
  "edge_key_from_pair s t x r =
     bindR (mk_edge_id (node_id_of s) (node_id_of t) x)
       (\<lambda>_. Inr (KeyEdge s t x (case r of None \<Rightarrow> EdgeRef [] | Some r \<Rightarrow> r)))"

fun edge_key_of :: "'v edge \<Rightarrow> 'v edge" where
  "edge_key_of (IdEdge s t x) = KeyEdge s t x (EdgeRef [])"
| "edge_key_of (KeyEdge s t x r) = KeyEdge s t x r"
| "edge_key_of (VersionEdge s t x r d m) = KeyEdge s t x (EdgeMigrationRef r)"

definition mk_version_edge ::
  "'v node \<Rightarrow> 'v node \<Rightarrow> string \<Rightarrow> migration_ref \<Rightarrow> 'v diff \<Rightarrow> migration_descriptor \<Rightarrow> 'v edge res" where
  "mk_version_edge s t x r d m =
     bindR (mk_edge_id (node_id_of s) (node_id_of t) x) (\<lambda>_. Inr (VersionEdge s t x r d m))"

fun with_diff :: "'v edge \<Rightarrow> 'v diff \<Rightarrow> 'v edge" where
  "with_diff (VersionEdge s t x r _ m) d = VersionEdge s t x r d m"
| "with_diff e d = e"

fun with_migration :: "'v edge \<Rightarrow> migration_descriptor \<Rightarrow> 'v edge" where
  "with_migration (VersionEdge s t x r d _) m = VersionEdge s t x r d m"
| "with_migration e m = e"

text \<open>\<open>content_payload\<close> and \<open>digest\<close>; the endpoints are hashed first, in order.\<close>

definition edge_content_payload ::
  "(string \<Rightarrow> string) \<Rightarrow> ('v \<Rightarrow> string) \<Rightarrow> 'v node \<Rightarrow> 'v node \<Rightarrow> string \<Rightarrow> 'v diff \<Rightarrow> migration_descriptor \<Rightarrow> pyval res" where
  "edge_content_payload hash_alg show_v s t x d m =
     bindR (node_digest hash_alg show_v s) (\<lambda>hs. bindR (node_digest hash_alg show_v t) (\<lambda>ht.
       Inr (PMap
         [(PStr ''id'', PStr (edge_str show_v (EdgeId (node_id_of s) (node_id_of t) x))),
          (PStr ''source'', PStr hs), (PStr ''target'', PStr ht),
          (PStr ''discriminator'', PStr x),
          (PStr ''diff'', fingerprint_payload d),
          (PStr ''migration'', PMap [(PStr ''strategy'', PStr (md_strategy m)),
                                      (PStr ''identity'', PStr (md_identity m))])])))"

fun edge_digest :: "(string \<Rightarrow> string) \<Rightarrow> ('v \<Rightarrow> string) \<Rightarrow> 'v edge \<Rightarrow> string res" where
  "edge_digest hash_alg show_v (VersionEdge s t x r d m) =
     bindR (edge_content_payload hash_alg show_v s t x d m) (content_digest_of hash_alg)"
| "edge_digest hash_alg show_v e = content_digest_of hash_alg (py_of_json (edge_id_canonical show_v (eid_of e)))"

section \<open>Entities\<close>

datatype 'v entity = NodeE "'v node" | EdgeE "'v edge"

datatype 'v entity_id = NodeKey "'v node_id" | EdgeKeyId "'v edge_id"

fun entity_key :: "'v entity \<Rightarrow> 'v entity_id" where
  "entity_key (NodeE n) = NodeKey (node_id_of n)"
| "entity_key (EdgeE e) = EdgeKeyId (eid_of e)"

fun entity_namespace :: "'v entity \<Rightarrow> string" where
  "entity_namespace (NodeE n) = nid_namespace (node_id_of n)"
| "entity_namespace (EdgeE e) = eid_namespace (eid_of e)"

text \<open>\<open>getattr(entity, "references", ())\<close>.\<close>

fun entity_references :: "'v entity \<Rightarrow> 'v node_id list" where
  "entity_references (NodeE n) = node_references n"
| "entity_references (EdgeE e) = []"

section \<open>Lemmas\<close>

lemma eid_of_simps [simp]:
  "eid_source (eid_of e) = node_id_of (edge_source e)"
  "eid_target (eid_of e) = node_id_of (edge_target e)"
  "eid_discriminator (eid_of e) = edge_discriminator e"
  by (simp_all add: eid_of_def)

lemma edge_key_of_eid [simp]: "eid_of (edge_key_of e) = eid_of e"
  by (cases e) (simp_all add: eid_of_def)

lemma with_diff_eid [simp]: "eid_of (with_diff e d) = eid_of e" "eid_of (with_migration e m) = eid_of e"
  by (cases e; simp add: eid_of_def)+

lemma edge_key_from_pair_Inr:
  "edge_key_from_pair s t x r = Inr e \<Longrightarrow> eid_of e = EdgeId (node_id_of s) (node_id_of t) x \<and> edge_ok (eid_of e)"
  by (auto simp: edge_key_from_pair_def bindR_eq_Inr mk_edge_id_ok eid_of_def)

lemma mk_version_edge_Inr:
  "mk_version_edge s t x r d m = Inr e \<Longrightarrow>
     e = VersionEdge s t x r d m \<and> edge_ok (eid_of e)"
  by (auto simp: mk_version_edge_def bindR_eq_Inr mk_edge_id_ok eid_of_def)

end
