(* ===== verification/Index.thy ===== *)
theory Index
  imports Edges
begin

text \<open>
  The contract of a keyed index, as the registry relies on it for its sorted lists: what a lookup
  returns after an insertion or a deletion, and that both keep the index well formed. The registry's
  node list and its edge lists are the two providers.
\<close>

locale keyed_index =
  fixes lookup :: "'s \<Rightarrow> 'k \<Rightarrow> 'b option"
    and insert_entry :: "'b \<Rightarrow> 's \<Rightarrow> 's"
    and delete_key :: "'k \<Rightarrow> 's \<Rightarrow> 's"
    and key :: "'b \<Rightarrow> 'k"
    and members :: "'s \<Rightarrow> 'b set"
    and invar :: "'s \<Rightarrow> bool"
  assumes lookup_iff: "invar s \<Longrightarrow> lookup s k = Some x \<longleftrightarrow> x \<in> members s \<and> key x = k"
    and insert_members: "invar s \<Longrightarrow> lookup s (key x) = None \<Longrightarrow> members (insert_entry x s) = insert x (members s)"
    and delete_members: "invar s \<Longrightarrow> members (delete_key k s) = {x \<in> members s. key x \<noteq> k}"
    and invar_insert: "invar s \<Longrightarrow> lookup s (key x) = None \<Longrightarrow> invar (insert_entry x s)"
    and invar_delete: "invar s \<Longrightarrow> invar (delete_key k s)"
begin

lemma lookup_None: "invar s \<Longrightarrow> lookup s k = None \<longleftrightarrow> (\<forall>x \<in> members s. key x \<noteq> k)"
  using lookup_iff [of s k] by (metis not_None_eq)

lemma lookup_insert:
  assumes "invar s" "lookup s (key x) = None"
  shows "lookup (insert_entry x s) k = (if k = key x then Some x else lookup s k)"
proof (cases "k = key x")
  case True
  then show ?thesis using assms by (simp add: lookup_iff invar_insert insert_members)
next
  case False
  have "lookup (insert_entry x s) k = Some y \<longleftrightarrow> lookup s k = Some y" for y
    using assms False by (auto simp: lookup_iff invar_insert insert_members)
  then have "lookup (insert_entry x s) k = lookup s k" by (metis not_None_eq)
  then show ?thesis using False by simp
qed

lemma lookup_delete:
  assumes "invar s"
  shows "lookup (delete_key k s) k' = (if k' = k then None else lookup s k')"
proof -
  have "lookup (delete_key k s) k' = Some y \<longleftrightarrow> k' \<noteq> k \<and> lookup s k' = Some y" for y
    using assms by (auto simp: lookup_iff invar_delete delete_members)
  then show ?thesis by (metis not_None_eq)
qed

text \<open>Replacing an entry: delete the old one, insert the new one under the same key.\<close>

lemma replace_entry:
  assumes "invar s"
  shows "invar (insert_entry x (delete_key (key x) s))"
    and "lookup (insert_entry x (delete_key (key x) s)) k = (if k = key x then Some x else lookup s k)"
    and "members (insert_entry x (delete_key (key x) s)) = insert x {y \<in> members s. key y \<noteq> key x}"
  using assms
  by (simp_all add: invar_delete invar_insert lookup_insert lookup_delete insert_members delete_members)

lemma key_unique: "invar s \<Longrightarrow> x \<in> members s \<Longrightarrow> y \<in> members s \<Longrightarrow> key x = key y \<Longrightarrow> x = y"
  by (metis lookup_iff option.inject)

end

text \<open>The registry's version list: \<open>bisect.insort_left\<close> on nodes, ordered by node identity.\<close>

interpretation node_index: keyed_index
  "sorted_find node_id_of" "insort_left node_id_of" "sorted_remove node_id_of"
  "node_id_of :: 'v::linorder node \<Rightarrow> 'v node_id" set "asc node_id_of"
  by unfold_locales (auto simp: sorted_index_simps insort_left_asc asc_filter)

text \<open>The edge lists: \<open>bisect.insort\<close> on edges, ordered by edge identity.\<close>

interpretation edge_index: keyed_index
  "sorted_find eid_of" "insort_right eid_of" "sorted_remove eid_of"
  "eid_of :: 'v::linorder edge \<Rightarrow> 'v edge_id" set "asc eid_of"
  by unfold_locales (auto simp: sorted_index_simps insort_right_asc asc_filter)

end
