(* ===== verification/Registry.thy ===== *)
theory Registry
  imports Index
begin

text \<open>
  The in-memory registry of \<open>core/registry/memory.py\<close>: its sorted stores, their secondary indexes
  and the incremental health index, with every operation that reads or changes them. Sorted lists are
  searched with \<open>bisect\<close>, defaultdicts store a default when they are read by subscript, and an
  operation that raises returns the state it leaves behind.

  One registry holds versions of one strategy (\<open>core/graph/revision.py\<close> enforces it for snapshots),
  so comparisons between entries do not raise. Python sets are lists keyed by identity; the model
  iterates over them in insertion order, and no result here depends on that order.
\<close>

section \<open>Health issues\<close>

datatype severity = SevInfo | SevWarning | SevError

datatype fail_level = Level severity | LevelNever

datatype 'v detail = DNode "'v node" | DNodeId "'v node_id" | DNames "string list"

record 'v health_issue =
  hi_code :: string
  hi_severity :: severity
  hi_entity :: "'v entity"
  hi_details :: "(string \<times> 'v detail) list"

fun severity_index :: "severity \<Rightarrow> nat" where
  "severity_index SevInfo = 0"
| "severity_index SevWarning = 1"
| "severity_index SevError = 2"

fun blocks :: "'v health_issue \<Rightarrow> fail_level \<Rightarrow> bool" where
  "blocks i LevelNever = False"
| "blocks i (Level l) = (severity_index (hi_severity i) \<ge> severity_index l)"

section \<open>State\<close>

record 'v health_index =
  health_issues_of :: "('v entity_id, 'v health_issue list) dict"
  issues_by_namespace :: "(string, 'v entity list) dict"
  references_to :: "('v node_id, 'v entity list) dict"
  references_by_entity :: "('v entity_id, 'v node_id list) dict"

record 'v registry =
  reg_namespace :: string
  by_versions :: "'v node list"
  by_kinds :: "(string, 'v node list) dict"
  by_models :: "(string \<times> string, 'v node) dict"
  migrations_of_kind :: "(string, 'v edge list) dict"
  edges_by_version :: "('v node_id, 'v edge list) dict"
  hooks_of :: "('v edge_id, hook_ref list) dict"
  digest_index :: "(string, 'v edge) dict option"
  reg_health :: "'v health_index"

text \<open>
  A migration callable as the identity resolver sees it, and the registration request. What a
  registry is configured with: hash algorithm, \<open>str\<close> on versions, the missing-endpoint policy, the
  health linters, and the reflection port (an adapter outside the registry).
\<close>

record callable =
  cl_migration_identity :: "migration_descriptor option"
  cl_migration_id :: "string option"
  cl_module :: string
  cl_qualname :: string
  cl_firstlineno :: "nat option"

record 'v migration_spec =
  spec_from :: "'v node"
  spec_to :: "'v node"
  spec_func :: callable
  spec_discriminator :: string

record ('v, 'b) reflection_port =
  rp_diff :: "'v node \<Rightarrow> 'v node \<Rightarrow> callable option \<Rightarrow> 'v diff res"
  rp_reflect :: "'v diff \<Rightarrow> 'v node res"
  rp_bind :: "'v diff \<Rightarrow> 'b res"

record ('v, 'b) reg_config =
  cfg_hash :: "string \<Rightarrow> string"
  cfg_show :: "'v \<Rightarrow> string"
  cfg_strategy :: "'v \<Rightarrow> string"
  cfg_on_missing :: string
  cfg_linters :: "('v registry \<Rightarrow> 'v entity \<Rightarrow> 'v health_issue list) list"
  cfg_reflection :: "('v, 'b) reflection_port option"

definition empty_health :: "'v health_index" where
  "empty_health = \<lparr>health_issues_of = [], issues_by_namespace = [], references_to = [],
     references_by_entity = []\<rparr>"

definition new_registry :: "string \<Rightarrow> bool \<Rightarrow> 'v registry res" where
  "new_registry ns index_digests =
     (if ns = [] then Inl ValueError
      else Inr \<lparr>reg_namespace = ns, by_versions = [], by_kinds = [], by_models = [],
        migrations_of_kind = [], edges_by_version = [], hooks_of = [],
        digest_index = (if index_digests then Some [] else None), reg_health = empty_health\<rparr>)"

section \<open>Lookups\<close>

definition find_entry :: "'v::linorder node_id \<Rightarrow> 'v registry \<Rightarrow> 'v node option" where
  "find_entry k r = sorted_find node_id_of (by_versions r) k"

definition has_entry :: "'v::linorder node_id \<Rightarrow> 'v registry \<Rightarrow> bool" where
  "has_entry k r \<longleftrightarrow> find_entry k r \<noteq> None"

definition get_entry :: "'v::linorder node_id \<Rightarrow> 'v registry \<Rightarrow> 'v node res" where
  "get_entry k r = (case find_entry k r of None \<Rightarrow> Inl ModelNotFoundError | Some n \<Rightarrow> Inr n)"

definition has_model :: "'v::linorder node_id \<Rightarrow> 'v registry \<Rightarrow> bool" where
  "has_model k r \<longleftrightarrow> (let xs = by_versions r; i = bisect_left node_id_of xs k in
     i < length xs \<and> node_id_of (xs ! i) = k)"

definition find_model :: "'v::linorder node_id \<Rightarrow> 'v registry \<Rightarrow> 'v node option" where
  "find_model k r = (case find_entry k r of None \<Rightarrow> None | Some n \<Rightarrow> if is_model n then Some n else None)"

definition get_model :: "'v::linorder node_id \<Rightarrow> 'v registry \<Rightarrow> 'v node res" where
  "get_model k r = (case find_entry k r of
     None \<Rightarrow> Inl ModelNotFoundError | Some n \<Rightarrow> if is_model n then Inr n else Inl ModelNotFoundError)"

definition get_model_by_ref :: "model_ref \<Rightarrow> 'v registry \<Rightarrow> 'v node res" where
  "get_model_by_ref ref r = (case map_of (by_models r) (model_ref_key ref) of
     None \<Rightarrow> Inl ModelNotFoundError | Some n \<Rightarrow> Inr n)"

definition versions :: "'v registry \<Rightarrow> 'v node list" where
  "versions r = filter is_model (by_versions r)"

definition kinds :: "'v registry \<Rightarrow> string list" where
  "kinds r = map fst (migrations_of_kind r)"

definition entities :: "'v registry \<Rightarrow> string list" where
  "entities r = sort (map fst (filter (\<lambda>(k, vs). vs \<noteq> []) (by_kinds r)))"

definition kind_entries :: "string \<Rightarrow> 'v registry \<Rightarrow> 'v node list" where
  "kind_entries k r = dict_get (by_kinds r) k []"

definition kind_versions :: "string \<Rightarrow> 'v registry \<Rightarrow> 'v node list" where
  "kind_versions k r = filter is_model (dict_get (by_kinds r) k [])"

definition models :: "string option \<Rightarrow> 'v registry \<Rightarrow> (string \<times> string) list" where
  "models k r = (case k of
     None \<Rightarrow> map fst (by_models r)
   | Some k \<Rightarrow> remdups (map (model_ref_key \<circ> the \<circ> modelref) (kind_versions k r)))"

definition latest_version :: "'v registry \<Rightarrow> 'v node res" where
  "latest_version r = (if versions r = [] then Inl CatalogError else Inr (last (versions r)))"

definition latest :: "string \<Rightarrow> 'v registry \<Rightarrow> 'v node res" where
  "latest k r = (if kind_versions k r = [] then Inl CatalogError else Inr (last (kind_versions k r)))"

definition earliest :: "string \<Rightarrow> 'v registry \<Rightarrow> 'v node res" where
  "earliest k r = (if kind_versions k r = [] then Inl CatalogError else Inr (hd (kind_versions k r)))"

definition edges :: "string \<Rightarrow> 'v registry \<Rightarrow> 'v edge list" where
  "edges k r = dict_get (migrations_of_kind r) k []"

definition migrations :: "string \<Rightarrow> 'v registry \<Rightarrow> 'v edge list" where
  "migrations k r = filter is_executable (dict_get (migrations_of_kind r) k [])"

definition edges_of :: "'v node_id \<Rightarrow> 'v registry \<Rightarrow> 'v edge list" where
  "edges_of n r = dict_get (edges_by_version r) n []"

definition migrations_of :: "'v node_id \<Rightarrow> 'v registry \<Rightarrow> 'v edge list" where
  "migrations_of n r = filter is_executable (dict_get (edges_by_version r) n [])"

text \<open>\<open>_find_edge\<close> builds a key from the pair, so the key is validated again.\<close>

definition find_edge :: "string \<Rightarrow> 'v::linorder node_id \<times> 'v node_id \<Rightarrow> string \<Rightarrow> 'v registry \<Rightarrow> 'v edge res" where
  "find_edge k pair x r =
     bindR (mk_edge_id (fst pair) (snd pair) x) (\<lambda>key.
       (case sorted_find eid_of (dict_get (migrations_of_kind r) k []) key of
          None \<Rightarrow> Inl MigrationNotFoundError | Some e \<Rightarrow> Inr e))"

definition get_edge :: "'v::linorder edge_id \<Rightarrow> 'v registry \<Rightarrow> 'v edge res" where
  "get_edge key r = (case sorted_find eid_of (dict_get (migrations_of_kind r) (eid_kind key) []) key of
     None \<Rightarrow> Inl MigrationNotFoundError | Some e \<Rightarrow> Inr e)"

definition has_edge :: "'v::linorder edge_id \<Rightarrow> 'v registry \<Rightarrow> bool" where
  "has_edge key r \<longleftrightarrow> sorted_find eid_of (dict_get (migrations_of_kind r) (eid_kind key) []) key \<noteq> None"

definition has_migration :: "'v::linorder edge_id \<Rightarrow> 'v registry \<Rightarrow> bool res" where
  "has_migration key r =
     (case find_edge (eid_kind key) (eid_key key) (eid_discriminator key) r of
        Inr e \<Rightarrow> Inr (is_executable e)
      | Inl MigrationNotFoundError \<Rightarrow> Inr False
      | Inl err \<Rightarrow> Inl err)"

definition get_migration :: "'v::linorder edge_id \<Rightarrow> 'v registry \<Rightarrow> 'v edge res" where
  "get_migration key r =
     bindR (find_edge (eid_kind key) (eid_key key) (eid_discriminator key) r)
       (\<lambda>e. if is_executable e then Inr e else Inl MigrationNotFoundError)"

definition has_hooks :: "'v edge_id \<Rightarrow> 'v registry \<Rightarrow> bool" where
  "has_hooks key r \<longleftrightarrow> dict_has (hooks_of r) key"

definition get_hooks :: "'v edge_id \<Rightarrow> 'v registry \<Rightarrow> hook_ref list" where
  "get_hooks key r = dict_get (hooks_of r) key []"

definition find_edge_by_digest :: "string \<Rightarrow> 'v registry \<Rightarrow> 'v edge option" where
  "find_edge_by_digest v r = (case digest_index r of None \<Rightarrow> None | Some d \<Rightarrow> map_of d v)"

text \<open>Reads that subscript a defaultdict, and so may add an empty bucket.\<close>

definition hooks :: "'v edge_id option \<Rightarrow> ('v registry, hook_ref list) op" where
  "hooks key r = (case key of
     None \<Rightarrow> (Inr (concat (map snd (hooks_of r))), r)
   | Some k \<Rightarrow> (Inr (dict_get (hooks_of r) k []), r\<lparr>hooks_of := dict_touch [] k (hooks_of r)\<rparr>))"

definition adjacent_positions :: "'v::linorder node list \<Rightarrow> 'v node_id \<Rightarrow> 'v node_id \<Rightarrow> bool" where
  "adjacent_positions xs s t \<longleftrightarrow>
     abs (int (bisect_left node_id_of xs s) - int (bisect_left node_id_of xs t)) = 1"

definition is_adjacent :: "'v::linorder edge_id \<Rightarrow> ('v registry, bool) op" where
  "is_adjacent key r =
     (Inr (adjacent_positions (dict_get (by_kinds r) (eid_kind key) []) (eid_source key) (eid_target key)),
      r\<lparr>by_kinds := dict_touch [] (eid_kind key) (by_kinds r)\<rparr>)"

definition is_critical_edge :: "'v::linorder edge_id \<Rightarrow> ('v registry, bool) op" where
  "is_critical_edge key r =
     (let es = dict_get (migrations_of_kind r) (eid_kind key) []; idx = bisect_left eid_of es key in
      (Inr (length es > 2 \<and> (idx > 0 \<or> int idx < int (length es) - 1)),
       r\<lparr>migrations_of_kind := dict_touch [] (eid_kind key) (migrations_of_kind r)\<rparr>))"

section \<open>The health index\<close>

definition unlink_reference :: "'v entity \<Rightarrow> 'v node_id \<Rightarrow> ('v node_id, 'v entity list) dict \<Rightarrow> ('v node_id, 'v entity list) dict" where
  "unlink_reference e n m = (case map_of m n of
     None \<Rightarrow> m
   | Some bucket \<Rightarrow> (let b = pset_discard entity_key (entity_key e) bucket in
       if b = [] then AList.delete n m else AList.update n b m))"

definition link_reference :: "'v entity \<Rightarrow> 'v node_id \<Rightarrow> ('v node_id, 'v entity list) dict \<Rightarrow> ('v node_id, 'v entity list) dict" where
  "link_reference e n m = AList.update n (pset_add entity_key e (dict_get m n [])) m"

definition set_references :: "'v entity \<Rightarrow> 'v node_id list \<Rightarrow> 'v health_index \<Rightarrow> 'v health_index" where
  "set_references e refs h =
     (let old = dict_get (references_by_entity h) (entity_key e) [];
          by_entity = AList.delete (entity_key e) (references_by_entity h);
          to = fold (unlink_reference e) old (references_to h) in
      if refs = [] then h\<lparr>references_to := to, references_by_entity := by_entity\<rparr>
      else h\<lparr>references_to := fold (link_reference e) refs to,
             references_by_entity := AList.update (entity_key e) refs by_entity\<rparr>)"

definition set_health :: "'v entity \<Rightarrow> 'v health_issue list \<Rightarrow> 'v health_index \<Rightarrow> 'v health_index" where
  "set_health e issues h =
     (let ns = entity_namespace e;
          m = (case map_of (issues_by_namespace h) ns of
                 None \<Rightarrow> issues_by_namespace h
               | Some bucket \<Rightarrow> (let b = pset_discard entity_key (entity_key e) bucket in
                   if b = [] then AList.delete ns (issues_by_namespace h)
                   else AList.update ns b (issues_by_namespace h))) in
      if issues = []
      then h\<lparr>issues_by_namespace := m,
             health_issues_of := AList.delete (entity_key e) (health_issues_of h)\<rparr>
      else h\<lparr>issues_by_namespace := AList.update ns (pset_add entity_key e (dict_get m ns [])) m,
             health_issues_of := AList.update (entity_key e) issues (health_issues_of h)\<rparr>)"

definition drop_entity :: "'v entity \<Rightarrow> 'v registry \<Rightarrow> 'v registry" where
  "drop_entity e r = r\<lparr>reg_health := set_references e [] (set_health e [] (reg_health r))\<rparr>"

definition lint :: "('v, 'b) reg_config \<Rightarrow> 'v registry \<Rightarrow> 'v entity \<Rightarrow> 'v health_issue list" where
  "lint cfg r e = concat (map (\<lambda>l. l r e) (cfg_linters cfg))"

definition refresh_entity :: "('v, 'b) reg_config \<Rightarrow> 'v entity \<Rightarrow> 'v registry \<Rightarrow> 'v registry" where
  "refresh_entity cfg e r =
     (let r1 = r\<lparr>reg_health := set_references e (entity_references e) (reg_health r)\<rparr> in
      r1\<lparr>reg_health := set_health e (lint cfg r1 e) (reg_health r1)\<rparr>)"

definition refresh_health :: "('v, 'b) reg_config \<Rightarrow> 'v entity list \<Rightarrow> 'v registry \<Rightarrow> 'v registry" where
  "refresh_health cfg es r = fold (refresh_entity cfg) (pset_update entity_key [] es) r"

definition affected_by_node_change :: "'v node \<Rightarrow> 'v registry \<Rightarrow> 'v entity list" where
  "affected_by_node_change n r =
     pset_update entity_key
       (pset_update entity_key [NodeE n] (dict_get (references_to (reg_health r)) (node_id_of n) []))
       (map EdgeE (dict_get (edges_by_version r) (node_id_of n) []))"

definition affected_by_edge_change :: "'v edge \<Rightarrow> 'v entity list" where
  "affected_by_edge_change e = [EdgeE e, NodeE (edge_source e), NodeE (edge_target e)]"

definition rebuild_health :: "('v, 'b) reg_config \<Rightarrow> 'v registry \<Rightarrow> 'v registry" where
  "rebuild_health cfg r =
     refresh_health cfg (map NodeE (by_versions r) @ map EdgeE (concat (map snd (migrations_of_kind r))))
       (r\<lparr>reg_health := empty_health\<rparr>)"

fun entity_str :: "('v \<Rightarrow> string) \<Rightarrow> 'v entity \<Rightarrow> string" where
  "entity_str show_v (NodeE n) = node_str show_v (node_id_of n)"
| "entity_str show_v (EdgeE e) = edge_str show_v (eid_of e)"

definition health_issues :: "('v, 'b) reg_config \<Rightarrow> 'v registry \<Rightarrow> 'v health_issue list" where
  "health_issues cfg r = sort_key (\<lambda>i. (entity_str (cfg_show cfg) (hi_entity i), hi_code i))
     (concat (map snd (health_issues_of (reg_health r))))"

definition health :: "('v, 'b) reg_config \<Rightarrow> 'v entity option \<Rightarrow> fail_level option \<Rightarrow> 'v registry \<Rightarrow> 'v health_issue list res" where
  "health cfg entity level r =
     (let issues = (case entity of None \<Rightarrow> health_issues cfg r
                    | Some e \<Rightarrow> dict_get (health_issues_of (reg_health r)) (entity_key e) []) in
      case level of
        None \<Rightarrow> Inr issues
      | Some l \<Rightarrow> if list_ex (\<lambda>i. blocks i l) issues then Inl HealthValidationError else Inr issues)"

end
