(* ===== verification/Registry_Write.thy ===== *)
theory Registry_Write
  imports Registry
begin

text \<open>
  The writers of \<open>core/registry/memory.py\<close>: models, migrations, hooks, whole kinds and copies. Each
  returns its outcome and the registry it leaves, with the defaultdict buckets that a failing call has
  created and the partial updates that precede an exception.
\<close>

section \<open>Models\<close>

definition by_models_add :: "'v node \<Rightarrow> (string \<times> string, 'v node) dict \<Rightarrow> (string \<times> string, 'v node) dict" where
  "by_models_add n m = (case modelref n of None \<Rightarrow> m | Some ref \<Rightarrow> AList.update (model_ref_key ref) n m)"

definition by_models_pop :: "'v node \<Rightarrow> (string \<times> string, 'v node) dict \<Rightarrow> (string \<times> string, 'v node) dict" where
  "by_models_pop n m = (case modelref n of None \<Rightarrow> m | Some ref \<Rightarrow> AList.delete (model_ref_key ref) m)"

definition store :: "('v::linorder, 'b) reg_config \<Rightarrow> 'v node \<Rightarrow> ('v registry, 'v node) op" where
  "store cfg n r =
     (if find_entry (node_id_of n) r \<noteq> None then (Inl ModelAlreadyRegisteredError, r)
      else (let k = nid_kind (node_id_of n);
                r1 = r\<lparr>by_versions := insort_left node_id_of n (by_versions r),
                       by_kinds := AList.update k (insort_left node_id_of n (dict_get (by_kinds r) k [])) (by_kinds r),
                       by_models := by_models_add n (by_models r)\<rparr> in
            (Inr n, refresh_health cfg (affected_by_node_change n r1) r1)))"

definition remove_entry :: "('v::linorder, 'b) reg_config \<Rightarrow> 'v node \<Rightarrow> ('v registry, unit) op" where
  "remove_entry cfg n r =
     (let affected = affected_by_node_change n r;
          i = node_id_of n; k = nid_kind i;
          r1 = r\<lparr>by_versions := sorted_remove node_id_of i (by_versions r),
                 by_kinds := AList.update k (sorted_remove node_id_of i (dict_get (by_kinds r) k [])) (by_kinds r),
                 by_models := by_models_pop n (by_models r)\<rparr> in
      (Inr (), refresh_health cfg (pset_discard entity_key (NodeKey i) affected) (drop_entity (NodeE n) r1)))"

definition reconcile :: "('v::linorder, 'b) reg_config \<Rightarrow> 'v node \<Rightarrow> ('v registry, 'v node) op" where
  "reconcile cfg n r =
     (case find_entry (node_id_of n) r of
        None \<Rightarrow> store cfg n r
      | Some existing \<Rightarrow>
          if \<not> is_model existing \<and> is_model n then (Inl CatalogError, r)
          else (case node_reconcile n existing of
                  Inl NodeConflictError \<Rightarrow> (Inl ModelConflictError, r)
                | Inl e \<Rightarrow> (Inl e, r)
                | Inr resolved \<Rightarrow>
                    if resolved \<noteq> existing
                    then bindS (remove_entry cfg existing) (\<lambda>_. store cfg resolved) r
                    else (Inr existing, r)))"

definition hydrate :: "('v::linorder, 'b) reg_config \<Rightarrow> 'v node \<Rightarrow> ('v registry, 'v node) op" where
  "hydrate cfg n r =
     (if \<not> is_model n then (Inl TypeError, r)
      else (case find_entry (node_id_of n) r of
              None \<Rightarrow> store cfg n r
            | Some existing \<Rightarrow>
                if is_model existing then reconcile cfg n r
                else bindS (remove_entry cfg existing) (\<lambda>_. store cfg n) r))"

definition remove_model :: "('v::linorder, 'b) reg_config \<Rightarrow> 'v node_id \<Rightarrow> ('v registry, unit) op" where
  "remove_model cfg key r =
     (let k = nid_kind key;
          version_idx = bisect_left node_id_of (by_versions r) key;
          ks = dict_get (by_kinds r) k [];
          kind_idx = bisect_left node_id_of ks key;
          r0 = r\<lparr>by_kinds := dict_touch [] k (by_kinds r)\<rparr> in
      if version_idx = length (by_versions r) \<or> node_id_of (by_versions r ! version_idx) \<noteq> key
      then (Inl CatalogError, r0)
      else if migrations_of key r \<noteq> [] then (Inl CatalogError, r0)
      else (let version = by_versions r ! version_idx;
                affected = affected_by_node_change version r0 in
            if \<not> kind_idx < length ks then (Inl IndexError, r0)
            else (let r1 = r0\<lparr>by_versions := delete_at version_idx (by_versions r0),
                              by_kinds := AList.update k (delete_at kind_idx ks) (by_kinds r0),
                              by_models := by_models_pop version (by_models r0)\<rparr> in
                  (Inr (), refresh_health cfg (pset_discard entity_key (NodeKey key) affected)
                             (drop_entity (NodeE version) r1)))))"

definition remove_model_by_ref :: "('v::linorder, 'b) reg_config \<Rightarrow> model_ref \<Rightarrow> ('v registry, unit) op" where
  "remove_model_by_ref cfg ref r = (case map_of (by_models r) (model_ref_key ref) of
     None \<Rightarrow> (Inl ModelNotFoundError, r)
   | Some n \<Rightarrow> remove_model cfg (node_id_of n) r)"

definition clear_models :: "('v::linorder, 'b) reg_config \<Rightarrow> ('v registry, unit) op" where
  "clear_models cfg r =
     (if migrations_of_kind r \<noteq> [] then (Inl CatalogError, r)
      else (Inr (), rebuild_health cfg (r\<lparr>by_versions := [], by_models := [], by_kinds := []\<rparr>)))"

section \<open>Hooks\<close>

definition add_hook :: "('v::linorder, 'b) reg_config \<Rightarrow> 'v edge \<Rightarrow> hook_ref \<Rightarrow> ('v registry, unit) op" where
  "add_hook cfg key hook r =
     (Inr (), refresh_health cfg [EdgeE key]
        (r\<lparr>hooks_of := AList.update (eid_of key) (dict_get (hooks_of r) (eid_of key) [] @ [hook]) (hooks_of r)\<rparr>))"

text \<open>
  \<open>list.remove\<close> deletes the first equal element; \<open>hook_eq\<close> is dataclass equality of \<open>HookRef\<close>, which
  leaves out configuration and metadata.
\<close>

definition hook_eq :: "hook_ref \<Rightarrow> hook_ref \<Rightarrow> bool" where
  "hook_eq a b \<longleftrightarrow> hook_ref_key a = hook_ref_key b"

fun remove_first :: "('a \<Rightarrow> bool) \<Rightarrow> 'a list \<Rightarrow> 'a list" where
  "remove_first P [] = []"
| "remove_first P (x # xs) = (if P x then xs else x # remove_first P xs)"

definition remove_hook :: "('v::linorder, 'b) reg_config \<Rightarrow> 'v edge \<Rightarrow> hook_ref option \<Rightarrow> ('v registry, unit) op" where
  "remove_hook cfg key hook r =
     (let k = eid_of key in
      case map_of (hooks_of r) k of
        None \<Rightarrow> (Inl CatalogError, r)
      | Some hs \<Rightarrow>
          (case hook of
             None \<Rightarrow> (Inr (), refresh_health cfg [EdgeE key] (r\<lparr>hooks_of := AList.delete k (hooks_of r)\<rparr>))
           | Some h \<Rightarrow>
               if list_ex (hook_eq h) hs
               then (let hs' = remove_first (hook_eq h) hs in
                     (Inr (), refresh_health cfg [EdgeE key] (r\<lparr>hooks_of :=
                        if hs' = [] then AList.delete k (hooks_of r) else AList.update k hs' (hooks_of r)\<rparr>)))
               else (Inl ValueError, r)))"

definition clear_hooks :: "'v edge_id option \<Rightarrow> ('v registry, unit) op" where
  "clear_hooks key r = (case key of
     None \<Rightarrow> (Inr (), r\<lparr>hooks_of := []\<rparr>)
   | Some k \<Rightarrow> if \<not> dict_has (hooks_of r) k then (Inl CatalogError, r)
               else (Inr (), r\<lparr>hooks_of := AList.delete k (hooks_of r)\<rparr>))"

section \<open>Migrations\<close>

definition resolve_identity :: "callable \<Rightarrow> migration_descriptor res" where
  "resolve_identity f =
     (case cl_migration_identity f of
        Some d \<Rightarrow> Inr d
      | None \<Rightarrow>
          (case cl_migration_id f of
             Some (c # s) \<Rightarrow> Inr \<lparr>md_strategy = ''callable'', md_identity = c # s\<rparr>
           | _ \<Rightarrow>
               if cl_module f = [] \<or> cl_qualname f = [] then Inl ValueError
               else (case (substring ''<lambda>'' (cl_qualname f), cl_firstlineno f) of
                       (True, Some line) \<Rightarrow> Inr \<lparr>md_strategy = ''callable'',
                          md_identity = cl_module f @ ''.'' @ cl_qualname f @ '':'' @ show_nat line\<rparr>
                     | _ \<Rightarrow> Inr \<lparr>md_strategy = ''callable'', md_identity = cl_module f @ ''.'' @ cl_qualname f\<rparr>)))"

definition ebv_add :: "'v node_id \<Rightarrow> 'v edge \<Rightarrow> ('v node_id, 'v edge list) dict \<Rightarrow> ('v node_id, 'v edge list) dict" where
  "ebv_add n e m = AList.update n (pset_add eid_of e (dict_get m n [])) m"

definition ebv_discard :: "'v edge_id \<Rightarrow> 'v node_id \<Rightarrow> ('v node_id, 'v edge list) dict \<Rightarrow> ('v node_id, 'v edge list) dict" where
  "ebv_discard k n m = (case map_of m n of
     None \<Rightarrow> m
   | Some bucket \<Rightarrow> (let b = pset_discard eid_of k bucket in
       if b = [] then AList.delete n m else AList.update n b m))"

definition insert_edge :: "('v::linorder, 'b) reg_config \<Rightarrow> 'v edge \<Rightarrow> ('v registry, 'v edge) op" where
  "insert_edge cfg e r =
     (let k = edge_kind e;
          r1 = r\<lparr>migrations_of_kind := AList.update k (insort_right eid_of e (dict_get (migrations_of_kind r) k []))
                   (migrations_of_kind r),
                 edges_by_version := ebv_add (eid_target (eid_of e)) e
                   (ebv_add (eid_source (eid_of e)) e (edges_by_version r))\<rparr> in
      case (if is_executable e then digest_index r1 else None) of
        None \<Rightarrow> (Inr e, refresh_health cfg (affected_by_edge_change e) r1)
      | Some d \<Rightarrow>
          (case edge_digest (cfg_hash cfg) (cfg_show cfg) e of
             Inl err \<Rightarrow> (Inl err, r1)
           | Inr h \<Rightarrow> (let r2 = r1\<lparr>digest_index := Some (AList.update h (edge_key_of e) d)\<rparr> in
               (Inr e, refresh_health cfg (affected_by_edge_change e) r2))))"

text \<open>A key-only edge makes room for the executable edge with the same identity.\<close>

definition unlink_edge :: "'v::linorder edge \<Rightarrow> 'v registry \<Rightarrow> 'v registry" where
  "unlink_edge e r =
     (let k = edge_kind e; i = eid_of e in
      r\<lparr>migrations_of_kind := AList.update k (sorted_remove eid_of i (dict_get (migrations_of_kind r) k []))
           (dict_touch [] k (migrations_of_kind r)),
        edges_by_version := ebv_discard i (eid_target i) (ebv_discard i (eid_source i) (edges_by_version r))\<rparr>)"

text \<open>\<open>store_migration\<close> from \<open>paths = self._migrations[edge.kind]\<close> on.\<close>

definition store_edge :: "('v::linorder, 'b) reg_config \<Rightarrow> 'v edge \<Rightarrow> ('v registry, 'v edge) op" where
  "store_edge cfg e r =
     (let k = edge_kind e;
          r0 = r\<lparr>migrations_of_kind := dict_touch [] k (migrations_of_kind r)\<rparr>;
          paths = dict_get (migrations_of_kind r) k [] in
      case sorted_find eid_of paths (eid_of e) of
        None \<Rightarrow> insert_edge cfg e r0
      | Some existing \<Rightarrow>
          if is_executable e \<and> \<not> is_executable existing
          then insert_edge cfg e (unlink_edge existing r)
          else if is_executable existing \<and> is_executable e
          then (case edge_digest (cfg_hash cfg) (cfg_show cfg) existing of
                  Inl err \<Rightarrow> (Inl err, r0)
                | Inr registered \<Rightarrow>
                    (case edge_digest (cfg_hash cfg) (cfg_show cfg) e of
                       Inl err \<Rightarrow> (Inl err, r0)
                     | Inr incoming \<Rightarrow>
                         if registered \<noteq> incoming then (Inl MigrationConflictError, r0)
                         else (Inr existing, r0)))
          else (Inr existing, r0))"

definition store_migration_edge :: "('v::linorder, 'b) reg_config \<Rightarrow> 'v edge \<Rightarrow> ('v registry, 'v edge) op" where
  "store_migration_edge cfg e r =
     (if is_executable e \<and> list_ex (\<lambda>i. i \<notin> node_id_of ` set (by_versions r))
           [eid_source (eid_of e), eid_target (eid_of e)]
      then (Inl MigrationNotFoundError, r)
      else store_edge cfg e r)"

definition require_reflection :: "('v, 'b) reg_config \<Rightarrow> ('v, 'b) reflection_port res" where
  "require_reflection cfg = (case cfg_reflection cfg of None \<Rightarrow> Inl CatalogError | Some p \<Rightarrow> Inr p)"

text \<open>
  The registration of a \<open>MigrationSpec\<close>: a missing endpoint is reconstructed from the other one and
  stored, the pair has to be adjacent, and the edge that results is stored like a given one.
\<close>

definition reconstruct :: "('v::linorder, 'b) reg_config \<Rightarrow> ('v, 'b) reflection_port \<Rightarrow> 'v node \<Rightarrow> 'v node \<Rightarrow> callable
    \<Rightarrow> ('v registry, 'v node) op" where
  "reconstruct cfg port anchor missing func =
     (if cfg_on_missing cfg \<noteq> ''reconstruct_model'' then raiseS ModelNotFoundError
      else bindS (liftS (rp_diff port anchor missing (Some func))) (\<lambda>d.
           bindS (liftS (rp_reflect port d)) (\<lambda>n.
           bindS (store cfg n) (\<lambda>_. returnS n))))"

definition resolve_endpoints :: "('v::linorder, 'b) reg_config \<Rightarrow> ('v, 'b) reflection_port \<Rightarrow> 'v migration_spec
    \<Rightarrow> ('v registry, 'v node \<times> 'v node) op" where
  "resolve_endpoints cfg port spec r =
     (if nid_kind (node_id_of (spec_from spec)) \<noteq> nid_kind (node_id_of (spec_to spec)) then (Inl CatalogError, r)
      else (case (find_model (node_id_of (spec_from spec)) r, find_model (node_id_of (spec_to spec)) r) of
        (None, None) \<Rightarrow> (Inl ModelNotFoundError, r)
      | (Some a, Some b) \<Rightarrow> (Inr (a, b), r)
      | (None, Some b) \<Rightarrow>
          bindS (reconstruct cfg port b (spec_from spec) (spec_func spec)) (\<lambda>a. returnS (a, b)) r
      | (Some a, None) \<Rightarrow>
          bindS (reconstruct cfg port a (spec_to spec) (spec_func spec)) (\<lambda>b. returnS (a, b)) r))"

definition build_spec_edge :: "('v::linorder, 'b) reflection_port \<Rightarrow> 'v migration_spec \<Rightarrow> 'v node \<Rightarrow> 'v node
    \<Rightarrow> ('v registry, 'v edge) op" where
  "build_spec_edge port spec a b =
     bindS (liftS (edge_key_from_pair a b default_discriminator None)) (\<lambda>key.
     bindS (is_adjacent (eid_of key)) (\<lambda>adj.
     if \<not> adj then raiseS CatalogError
     else bindS (liftS (resolve_identity (spec_func spec))) (\<lambda>m.
          bindS (liftS (rp_diff port a b None)) (\<lambda>d.
          liftS (mk_version_edge a b (spec_discriminator spec)
            \<lparr>mgr_provider_id = md_strategy m, mgr_entity_id = md_identity m, mgr_metadata = []\<rparr> d m)))))"

definition resolve_spec_edge :: "('v::linorder, 'b) reg_config \<Rightarrow> 'v migration_spec \<Rightarrow> ('v registry, 'v edge) op" where
  "resolve_spec_edge cfg spec =
     bindS (liftS (require_reflection cfg)) (\<lambda>port.
     bindS (resolve_endpoints cfg port spec) (\<lambda>(a, b). build_spec_edge port spec a b))"

definition store_migration_spec :: "('v::linorder, 'b) reg_config \<Rightarrow> 'v migration_spec \<Rightarrow> ('v registry, 'v edge) op" where
  "store_migration_spec cfg spec = bindS (resolve_spec_edge cfg spec) (store_edge cfg)"

definition reflect :: "('v::linorder, 'b) reg_config \<Rightarrow> 'v node \<Rightarrow> 'v node \<Rightarrow> callable \<Rightarrow> 'v node res" where
  "reflect cfg anchor target func =
     (if cfg_on_missing cfg \<noteq> ''reconstruct_model'' then Inl ModelNotFoundError
      else bindR (require_reflection cfg) (\<lambda>port.
           bindR (rp_diff port anchor target (Some func)) (rp_reflect port)))"

definition bind_migration :: "('v, 'b) reg_config \<Rightarrow> 'v node \<Rightarrow> 'v node \<Rightarrow> 'b res" where
  "bind_migration cfg source target =
     (if nid_kind (node_id_of source) \<noteq> nid_kind (node_id_of target) then Inl CatalogError
      else if cfg_strategy cfg (nid_version (node_id_of source)) \<noteq> cfg_strategy cfg (nid_version (node_id_of target))
      then Inl CatalogError
      else bindR (require_reflection cfg) (\<lambda>port.
           bindR (rp_diff port source target None) (rp_bind port)))"

text \<open>A bucket that has become empty is deleted.\<close>

definition put_bucket :: "'k \<Rightarrow> 'a list \<Rightarrow> ('k, 'a list) dict \<Rightarrow> ('k, 'a list) dict" where
  "put_bucket k xs m = (if xs = [] then AList.delete k m else AList.update k xs m)"

definition remove_migration :: "('v::linorder, 'b) reg_config \<Rightarrow> 'v edge \<Rightarrow> ('v registry, unit) op" where
  "remove_migration cfg key r =
     (let i = eid_of key; k = edge_kind key;
          paths = dict_get (migrations_of_kind r) k [];
          r0 = r\<lparr>migrations_of_kind := dict_touch [] k (migrations_of_kind r)\<rparr> in
      if dict_has (hooks_of r) i then (Inl CatalogError, r)
      else (case sorted_find eid_of paths i of
        None \<Rightarrow> (Inr (), refresh_health cfg (affected_by_edge_change key) r0)
      | Some existing \<Rightarrow>
          (let rest = sorted_remove eid_of i paths;
               r1 = r0\<lparr>migrations_of_kind := put_bucket k rest (migrations_of_kind r0)\<rparr>;
               finish = (\<lambda>r. let r' = r\<lparr>edges_by_version := ebv_discard i (eid_target i)
                                          (ebv_discard i (eid_source i) (edges_by_version r))\<rparr> in
                  (Inr (), refresh_health cfg
                     (pset_discard entity_key (EdgeKeyId i) (affected_by_edge_change existing))
                     (drop_entity (EdgeE existing) r'))) in
           case (if is_executable existing then digest_index r1 else None) of
             None \<Rightarrow> finish r1
           | Some d \<Rightarrow>
               (case edge_digest (cfg_hash cfg) (cfg_show cfg) existing of
                  Inl err \<Rightarrow> (Inl err, r1)
                | Inr h \<Rightarrow> finish (r1\<lparr>digest_index := Some (AList.delete h d)\<rparr>)))))"

definition clear_migrations :: "('v::linorder, 'b) reg_config \<Rightarrow> ('v registry, unit) op" where
  "clear_migrations cfg r =
     (Inr (), rebuild_health cfg (r\<lparr>hooks_of := [], migrations_of_kind := [], edges_by_version := [],
        digest_index := map_option (\<lambda>_. []) (digest_index r)\<rparr>))"

text \<open>
  The first loop of \<open>remove_migration_range\<close>: the consecutive pairs from \<open>lo\<close> up to \<open>hi\<close>, each one
  checked; \<open>kind_versions[i + 1]\<close> raises beyond the end.
\<close>

definition range_check :: "'v::linorder edge \<Rightarrow> ('v registry, bool) op" where
  "range_check key =
     bindS (\<lambda>r. (has_migration (eid_of key) r, r)) (\<lambda>present.
     if \<not> present then returnS False
     else bindS (is_adjacent (eid_of key)) (\<lambda>adj.
          if adj then raiseS CatalogError
          else bindS (\<lambda>r. (Inr (has_hooks (eid_of key) r), r)) (\<lambda>hooked.
               if hooked then raiseS CatalogError else returnS True)))"

fun range_keys :: "'v::linorder node list \<Rightarrow> nat list \<Rightarrow> ('v registry, 'v edge list) op" where
  "range_keys vs [] = returnS []"
| "range_keys vs (i # is) =
     (if \<not> Suc i < length vs then raiseS IndexError
      else bindS (liftS (edge_key_from_pair (vs ! i) (vs ! Suc i) default_discriminator None)) (\<lambda>key.
           bindS (range_check key) (\<lambda>take.
           bindS (range_keys vs is) (\<lambda>ks. returnS (if take then key # ks else ks)))))"

definition remove_migration_range :: "('v::linorder, 'b) reg_config \<Rightarrow> 'v node_id \<Rightarrow> 'v node_id \<Rightarrow> ('v registry, unit) op" where
  "remove_migration_range cfg from_version to_version r =
     (let vs = kind_versions (nid_kind from_version) r;
          lo = bisect_left node_id_of vs from_version;
          hi = bisect_left node_id_of vs to_version in
      bindS (range_keys vs [lo..<hi]) (\<lambda>keys. forS (remove_migration cfg) keys) r)"

section \<open>Kinds and copies\<close>

definition crosses :: "'v node list \<Rightarrow> 'v edge \<Rightarrow> bool" where
  "crosses vs e \<longleftrightarrow> eid_source (eid_of e) \<notin> node_id_of ` set vs \<or> eid_target (eid_of e) \<notin> node_id_of ` set vs"

definition drop_edge :: "('v::linorder, 'b) reg_config \<Rightarrow> 'v edge \<Rightarrow> ('v registry, unit) op" where
  "drop_edge cfg e =
     bindS (\<lambda>r. if has_hooks (eid_of e) r then clear_hooks (Some (eid_of e)) r else (Inr (), r))
       (\<lambda>_. remove_migration cfg (edge_key_of e))"

definition drop_edges_of :: "('v::linorder, 'b) reg_config \<Rightarrow> 'v node list \<Rightarrow> 'v node \<Rightarrow> ('v registry, unit) op" where
  "drop_edges_of cfg vs v r =
     forS (drop_edge cfg) (filter (\<lambda>e. \<not> crosses vs e) (migrations_of (node_id_of v) r)) r"

definition try_remove_model :: "('v::linorder, 'b) reg_config \<Rightarrow> 'v node \<Rightarrow> ('v registry, unit) op" where
  "try_remove_model cfg n r = (case remove_model cfg (node_id_of n) r of
     (Inl e, r') \<Rightarrow> if is_catalog_error e then (Inr (), r') else (Inl e, r')
   | (Inr _, r') \<Rightarrow> (Inr (), r'))"

definition delete_kind :: "('v::linorder, 'b) reg_config \<Rightarrow> string \<Rightarrow> ('v registry, unit) op" where
  "delete_kind cfg k r =
     (let vs = kind_versions k r in
      if vs = [] then (Inr (), r)
      else if list_ex (\<lambda>v. list_ex (crosses vs) (migrations_of (node_id_of v) r)) vs then (Inl CatalogError, r)
      else bindS (forS (drop_edges_of cfg vs) vs)
             (\<lambda>_. forS (try_remove_model cfg) (rev vs)) r)"

definition copy_from :: "'v registry \<Rightarrow> ('v registry, unit) op" where
  "copy_from source r =
     (Inr (), source\<lparr>reg_namespace := reg_namespace r,
        digest_index := (case digest_index source of None \<Rightarrow> digest_index r | Some d \<Rightarrow> Some d)\<rparr>)"

end
