(* ===== verification/Registry_Invariant.thy ===== *)
theory Registry_Invariant
  imports Registry_Write
begin

text \<open>
  The well-formedness invariant of the registry and its preservation by every writer: the version list
  is strictly sorted, the kind index is its partition, the model index points into it, every migration
  list is strictly sorted and holds edges of its kind only, the incidence index lists exactly the
  edges at each endpoint, and the digest index points to registered executable edges of that digest.

  With a digest index, hashing an edge can raise (\<open>VersionNode.content_payload\<close> refuses an empty model
  id) after the edge has been linked or unlinked in part; \<open>digestable\<close> excludes such edges.
\<close>

section \<open>The invariant\<close>

definition nodes_wf :: "'v::linorder node list \<Rightarrow> (string, 'v node list) dict \<Rightarrow> bool" where
  "nodes_wf bv bk \<longleftrightarrow> asc node_id_of bv \<and> dict_ok bk \<and>
     (\<forall>k. dict_get bk k [] = filter (\<lambda>n. nid_kind (node_id_of n) = k) bv)"

definition models_wf :: "'v node list \<Rightarrow> (string \<times> string, 'v node) dict \<Rightarrow> bool" where
  "models_wf bv bm \<longleftrightarrow> dict_ok bm \<and>
     (\<forall>k n. map_of bm k = Some n \<longrightarrow> n \<in> set bv \<and> map_option model_ref_key (modelref n) = Some k)"

definition bucket_wf :: "string \<Rightarrow> 'v::linorder edge list \<Rightarrow> bool" where
  "bucket_wf k es \<longleftrightarrow> asc eid_of es \<and> (\<forall>e \<in> set es. edge_kind e = k \<and> edge_ok (eid_of e))"

definition incident :: "'v node_id \<Rightarrow> 'v edge \<Rightarrow> bool" where
  "incident n e \<longleftrightarrow> n = eid_source (eid_of e) \<or> n = eid_target (eid_of e)"

definition edges_wf :: "(string, 'v::linorder edge list) dict \<Rightarrow> ('v node_id, 'v edge list) dict \<Rightarrow> bool" where
  "edges_wf mg ebv \<longleftrightarrow> dict_ok mg \<and> dict_ok ebv \<and> (\<forall>k. bucket_wf k (dict_get mg k [])) \<and>
     (\<forall>n. distinct (map eid_of (dict_get ebv n [])) \<and>
       (\<forall>e. e \<in> set (dict_get ebv n []) \<longleftrightarrow> e \<in> set (dict_get mg (edge_kind e) []) \<and> incident n e))"

definition digests_wf :: "('v::linorder, 'b) reg_config \<Rightarrow> (string, 'v edge list) dict \<Rightarrow> (string, 'v edge) dict option \<Rightarrow> bool" where
  "digests_wf cfg mg di \<longleftrightarrow> (\<forall>d h key. di = Some d \<longrightarrow> map_of d h = Some key \<longrightarrow>
     (\<exists>e \<in> set (dict_get mg (edge_kind key) []).
        is_executable e \<and> edge_key_of e = key \<and> edge_digest (cfg_hash cfg) (cfg_show cfg) e = Inr h))"

definition digestable :: "('v, 'b) reg_config \<Rightarrow> (string, 'v edge) dict option \<Rightarrow> 'v edge \<Rightarrow> bool" where
  "digestable cfg di e \<longleftrightarrow> di = None \<or> \<not> is_executable e \<or> okR (edge_digest (cfg_hash cfg) (cfg_show cfg) e)"

definition digests_total :: "('v, 'b) reg_config \<Rightarrow> (string, 'v edge list) dict \<Rightarrow> (string, 'v edge) dict option \<Rightarrow> bool" where
  "digests_total cfg mg di \<longleftrightarrow> (\<forall>k. \<forall>e \<in> set (dict_get mg k []). digestable cfg di e)"

definition reg_wf :: "('v::linorder, 'b) reg_config \<Rightarrow> 'v registry \<Rightarrow> bool" where
  "reg_wf cfg r \<longleftrightarrow> reg_namespace r \<noteq> [] \<and> nodes_wf (by_versions r) (by_kinds r)
     \<and> models_wf (by_versions r) (by_models r)
     \<and> edges_wf (migrations_of_kind r) (edges_by_version r)
     \<and> digests_wf cfg (migrations_of_kind r) (digest_index r)
     \<and> digests_total cfg (migrations_of_kind r) (digest_index r)"

section \<open>Frame of the health index\<close>

lemma refresh_entity_frame: "\<exists>h. refresh_entity cfg e r = r\<lparr>reg_health := h\<rparr>"
  by (auto simp: refresh_entity_def Let_def)

lemma refresh_health_frame: "\<exists>h. refresh_health cfg es r = r\<lparr>reg_health := h\<rparr>"
proof -
  have "\<exists>h. fold (refresh_entity cfg) xs r = r\<lparr>reg_health := h\<rparr>" for xs
  proof (induction xs arbitrary: r)
    case Nil
    have "r = r\<lparr>reg_health := reg_health r\<rparr>" by simp
    then show ?case by (metis fold_Nil id_apply)
  next
    case (Cons x xs)
    obtain h where h: "refresh_entity cfg x r = r\<lparr>reg_health := h\<rparr>" using refresh_entity_frame by blast
    obtain h' where "fold (refresh_entity cfg) xs (r\<lparr>reg_health := h\<rparr>) = r\<lparr>reg_health := h, reg_health := h'\<rparr>"
      using Cons by blast
    then show ?case by (auto simp: h)
  qed
  then show ?thesis by (simp add: refresh_health_def)
qed

lemma refresh_health_sel [simp, reg_simps]:
  "reg_namespace (refresh_health cfg es r) = reg_namespace r"
  "by_versions (refresh_health cfg es r) = by_versions r"
  "by_kinds (refresh_health cfg es r) = by_kinds r"
  "by_models (refresh_health cfg es r) = by_models r"
  "migrations_of_kind (refresh_health cfg es r) = migrations_of_kind r"
  "edges_by_version (refresh_health cfg es r) = edges_by_version r"
  "hooks_of (refresh_health cfg es r) = hooks_of r"
  "digest_index (refresh_health cfg es r) = digest_index r"
  using refresh_health_frame [of cfg es r] by auto

lemma drop_entity_sel [simp, reg_simps]:
  "reg_namespace (drop_entity e r) = reg_namespace r"
  "by_versions (drop_entity e r) = by_versions r"
  "by_kinds (drop_entity e r) = by_kinds r"
  "by_models (drop_entity e r) = by_models r"
  "migrations_of_kind (drop_entity e r) = migrations_of_kind r"
  "edges_by_version (drop_entity e r) = edges_by_version r"
  "hooks_of (drop_entity e r) = hooks_of r"
  "digest_index (drop_entity e r) = digest_index r"
  by (simp_all add: drop_entity_def)

lemma rebuild_health_sel [simp, reg_simps]:
  "reg_namespace (rebuild_health cfg r) = reg_namespace r"
  "by_versions (rebuild_health cfg r) = by_versions r"
  "by_kinds (rebuild_health cfg r) = by_kinds r"
  "by_models (rebuild_health cfg r) = by_models r"
  "migrations_of_kind (rebuild_health cfg r) = migrations_of_kind r"
  "edges_by_version (rebuild_health cfg r) = edges_by_version r"
  "hooks_of (rebuild_health cfg r) = hooks_of r"
  "digest_index (rebuild_health cfg r) = digest_index r"
  by (simp_all add: rebuild_health_def)

lemma find_entry_frame [simp]:
  "find_entry k (refresh_health cfg es r) = find_entry k r" "find_entry k (drop_entity e r) = find_entry k r"
  by (simp_all add: find_entry_def)

section \<open>Models\<close>

lemma asc_map_filter_insort:
  assumes "asc node_id_of bv" "node_id_of n \<notin> node_id_of ` set bv"
  shows "filter P (insort_left node_id_of n bv) =
     (if P n then insort_left node_id_of n (filter P bv) else filter P bv)"
proof (rule asc_unique [where f = node_id_of])
  have f: "asc node_id_of (filter P bv)" "node_id_of n \<notin> node_id_of ` set (filter P bv)"
    using assms by (auto simp: asc_filter)
  show "asc node_id_of (filter P (insort_left node_id_of n bv))"
    using insort_left_asc [OF assms] by (simp add: asc_filter)
  show "asc node_id_of (if P n then insort_left node_id_of n (filter P bv) else filter P bv)"
    using insort_left_asc [OF f] f by simp
  show "set (filter P (insort_left node_id_of n bv)) =
      set (if P n then insort_left node_id_of n (filter P bv) else filter P bv)"
    using insort_left_asc [OF assms] insort_left_asc [OF f] by auto
qed

lemma nodes_wf_insert:
  assumes "nodes_wf bv bk" "node_id_of n \<notin> node_id_of ` set bv"
  defines "k \<equiv> nid_kind (node_id_of n)"
  shows "nodes_wf (insort_left node_id_of n bv)
     (AList.update k (insort_left node_id_of n (dict_get bk k [])) bk)"
  using assms insort_left_asc [of node_id_of bv n]
  by (auto simp: nodes_wf_def asc_map_filter_insort dict_get_update dict_ok_update)

lemma nodes_wf_delete:
  assumes "nodes_wf bv bk"
  shows "nodes_wf (sorted_remove node_id_of i bv)
     (AList.update (nid_kind i) (sorted_remove node_id_of i (dict_get bk (nid_kind i) [])) bk)"
proof -
  have a: "asc node_id_of bv" "asc node_id_of (filter P bv)" for P
    using assms by (auto simp: nodes_wf_def asc_filter)
  have "filter (\<lambda>n. nid_kind (node_id_of n) = k) (filter (\<lambda>n. node_id_of n \<noteq> i) bv) =
      filter (\<lambda>n. nid_kind (node_id_of n) = k) bv" if "k \<noteq> nid_kind i" for k
    using that by (auto simp: filter_filter intro: filter_cong)
  then show ?thesis using assms a
    by (auto simp: nodes_wf_def sorted_remove_filter dict_get_update dict_ok_update filter_filter conj_commute)
qed

lemma nodes_wf_touch: "nodes_wf bv bk \<Longrightarrow> nodes_wf bv (dict_touch [] k bk)"
  by (auto simp: nodes_wf_def dict_simps dict_ok_touch)

lemma models_wf_insert:
  "models_wf bv bm \<Longrightarrow> set bv \<subseteq> set bv' \<Longrightarrow> n \<in> set bv' \<Longrightarrow> models_wf bv' (by_models_add n bm)"
  by (auto simp: models_wf_def by_models_add_def dict_ok_update update_conv split: option.splits)

text \<open>
  \<open>remove_entry\<close> takes any entry of an identity and drops the model reference of its argument. The model
  index stays right when the argument has the model reference of the stored entry of its identity, as the
  stored entry itself has.
\<close>

definition removable :: "'v node \<Rightarrow> 'v registry \<Rightarrow> bool" where
  "removable n r \<longleftrightarrow> (\<forall>m \<in> set (by_versions r). node_id_of m = node_id_of n \<longrightarrow>
     modelref m = None \<or> modelref m = modelref n)"

lemma models_wf_delete:
  assumes "models_wf bv bm" "set bv' = {x \<in> set bv. node_id_of x \<noteq> node_id_of n}"
    "\<And>m. m \<in> set bv \<Longrightarrow> node_id_of m = node_id_of n \<Longrightarrow> modelref m = None \<or> modelref m = modelref n"
  shows "models_wf bv' (by_models_pop n bm)"
  using assms
  by (fastforce simp: models_wf_def by_models_pop_def dict_ok_delete delete_conv split: option.splits if_splits)

lemma find_entry_Some: "reg_wf cfg r \<Longrightarrow> find_entry k r = Some n \<longleftrightarrow> n \<in> set (by_versions r) \<and> node_id_of n = k"
  by (auto simp: reg_wf_def nodes_wf_def find_entry_def sorted_find_Some)

lemma find_entry_None: "reg_wf cfg r \<Longrightarrow> find_entry k r = None \<longleftrightarrow> k \<notin> node_id_of ` set (by_versions r)"
  by (auto simp: reg_wf_def nodes_wf_def find_entry_def sorted_find_None)

lemma store_wf [wf_intros]: "reg_wf cfg r \<Longrightarrow> reg_wf cfg (snd (store cfg n r))"
proof (cases "find_entry (node_id_of n) r")
  case None
  assume wf: "reg_wf cfg r"
  then have n: "node_id_of n \<notin> node_id_of ` set (by_versions r)" using None by (simp add: find_entry_None)
  then have "set (insort_left node_id_of n (by_versions r)) = insert n (set (by_versions r))"
    using wf insort_left_asc [of node_id_of "by_versions r" n] by (simp add: reg_wf_def nodes_wf_def)
  then show ?thesis using wf None n
    by (auto simp: store_def Let_def reg_wf_def nodes_wf_insert intro!: models_wf_insert)
qed (simp add: store_def)

lemma stored_removable: "reg_wf cfg r \<Longrightarrow> n \<in> set (by_versions r) \<Longrightarrow> removable n r"
  using asc_inj by (fastforce simp: removable_def reg_wf_def nodes_wf_def)

lemma remove_removable_wf:
  assumes "reg_wf cfg r" "removable n r"
  shows "reg_wf cfg (snd (remove_entry cfg n r))"
proof -
  have a: "asc node_id_of (by_versions r)" using assms by (simp add: reg_wf_def nodes_wf_def)
  have "models_wf (sorted_remove node_id_of (node_id_of n) (by_versions r)) (by_models_pop n (by_models r))"
    using assms a by (intro models_wf_delete [of "by_versions r"]) (auto simp: reg_wf_def removable_def sorted_remove_filter)
  then show ?thesis using assms(1)
    by (auto simp: remove_entry_def Let_def reg_wf_def nodes_wf_delete)
qed

lemma remove_entry_wf [wf_intros]:
  "reg_wf cfg r \<Longrightarrow> n \<in> set (by_versions r) \<Longrightarrow> reg_wf cfg (snd (remove_entry cfg n r))"
  by (intro remove_removable_wf stored_removable)

lemma replace_wf:
  "reg_wf cfg r \<Longrightarrow> e \<in> set (by_versions r) \<Longrightarrow>
     reg_wf cfg (snd (bindS (remove_entry cfg e) (\<lambda>_. store cfg n) r))"
proof -
  assume a: "reg_wf cfg r" "e \<in> set (by_versions r)"
  have "reg_wf cfg (snd (remove_entry cfg e r))" using a by (rule remove_entry_wf)
  moreover have "remove_entry cfg e r = (Inr (), snd (remove_entry cfg e r))"
    by (simp add: remove_entry_def Let_def)
  ultimately show ?thesis by (metis bindS_simps(2) store_wf)
qed

lemma reconcile_wf [wf_intros]: "reg_wf cfg r \<Longrightarrow> reg_wf cfg (snd (reconcile cfg n r))"
  by (auto simp: reconcile_def find_entry_Some store_wf replace_wf
      split: option.splits sum.splits error.splits)

lemma hydrate_wf [wf_intros]: "reg_wf cfg r \<Longrightarrow> reg_wf cfg (snd (hydrate cfg n r))"
  by (auto simp: hydrate_def find_entry_Some store_wf replace_wf reconcile_wf split: option.splits)

lemma bisect_found:
  assumes "asc f xs" "k \<in> f ` set xs"
  shows "bisect_left f xs k < length xs" "f (xs ! bisect_left f xs k) = k"
    "delete_at (bisect_left f xs k) xs = sorted_remove f k xs"
proof -
  have "sorted_find f xs k \<noteq> None" using assms by (simp add: sorted_find_None)
  then show "bisect_left f xs k < length xs" "f (xs ! bisect_left f xs k) = k"
    by (auto simp: sorted_find_def Let_def split: if_splits)
  then show "delete_at (bisect_left f xs k) xs = sorted_remove f k xs"
    by (simp add: sorted_remove_def Let_def)
qed

text \<open>On a well-formed registry \<open>remove_model\<close> either refuses or is \<open>remove_entry\<close> of the stored node.\<close>

lemma remove_model_eq:
  assumes "reg_wf cfg r"
  shows "remove_model cfg key r =
     (case find_entry key r of
        None \<Rightarrow> (Inl CatalogError, r\<lparr>by_kinds := dict_touch [] (nid_kind key) (by_kinds r)\<rparr>)
      | Some n \<Rightarrow>
          if migrations_of key r \<noteq> []
          then (Inl CatalogError, r\<lparr>by_kinds := dict_touch [] (nid_kind key) (by_kinds r)\<rparr>)
          else remove_entry cfg n (r\<lparr>by_kinds := dict_touch [] (nid_kind key) (by_kinds r)\<rparr>))"
proof -
  have a: "asc node_id_of (by_versions r)" using assms by (simp add: reg_wf_def nodes_wf_def)
  let ?i = "bisect_left node_id_of (by_versions r) key"
  have ks: "dict_get (by_kinds r) (nid_kind key) [] = filter (\<lambda>n. nid_kind (node_id_of n) = nid_kind key) (by_versions r)"
    using assms by (simp add: reg_wf_def nodes_wf_def)
  have dt: "dict_get (dict_touch [] k m) k' [] = dict_get m k' []" for m :: "(string, 'a node list) dict" and k k'
    by (simp add: dict_simps)
  show ?thesis
  proof (cases "find_entry key r")
    case None
    then have "?i = length (by_versions r) \<or> node_id_of (by_versions r ! ?i) \<noteq> key"
      using bisect_left_le [of node_id_of "by_versions r" key]
      by (auto simp: find_entry_def sorted_find_def Let_def split: if_splits)
    then show ?thesis using None by (simp add: remove_model_def Let_def)
  next
    case (Some n)
    then have n: "n \<in> set (by_versions r)" "node_id_of n = key" using assms by (auto simp: find_entry_Some)
    then have k: "key \<in> node_id_of ` set (by_versions r)"
      "key \<in> node_id_of ` set (dict_get (by_kinds r) (nid_kind key) [])" by (auto simp: ks)
    have nth: "by_versions r ! ?i = n"
      using asc_inj [OF a] bisect_found [OF a k(1)] n by (metis nth_mem)
    have a': "asc node_id_of (dict_get (by_kinds r) (nid_kind key) [])" using a by (simp add: ks asc_filter)
    note b = bisect_found [OF a k(1)] bisect_found [OF a' k(2)]
    show ?thesis using Some n nth b
      by (simp add: remove_model_def remove_entry_def Let_def dt affected_by_node_change_def)
  qed
qed

lemma touch_kinds_wf: "reg_wf cfg r \<Longrightarrow> reg_wf cfg (r\<lparr>by_kinds := dict_touch [] k (by_kinds r)\<rparr>)"
  by (simp add: reg_wf_def nodes_wf_touch)

lemma remove_model_wf [wf_intros]: "reg_wf cfg r \<Longrightarrow> reg_wf cfg (snd (remove_model cfg key r))"
  by (auto simp: remove_model_eq find_entry_Some touch_kinds_wf intro!: remove_entry_wf split: option.splits)

lemma remove_model_by_ref_wf [wf_intros]: "reg_wf cfg r \<Longrightarrow> reg_wf cfg (snd (remove_model_by_ref cfg ref r))"
  by (simp add: remove_model_by_ref_def remove_model_wf split: option.splits)

lemma clear_models_wf [wf_intros]: "reg_wf cfg r \<Longrightarrow> reg_wf cfg (snd (clear_models cfg r))"
  by (auto simp: clear_models_def reg_wf_def nodes_wf_def models_wf_def)

section \<open>Migrations\<close>

lemma dict_get_ebv_add [dict_simps]:
  "dict_get (ebv_add n e m) n' [] = (if n' = n then pset_add eid_of e (dict_get m n []) else dict_get m n' [])"
  by (simp add: ebv_add_def dict_get_update)

lemma dict_get_ebv_discard [dict_simps]:
  "dict_get (ebv_discard k n m) n' [] = (if n' = n then pset_discard eid_of k (dict_get m n []) else dict_get m n' [])"
proof (cases "map_of m n")
  case None
  then show ?thesis by (simp add: ebv_discard_def dict_get_def pset_discard_def)
next
  case (Some b)
  then have "dict_get m n [] = b" by (simp add: dict_get_def)
  then show ?thesis using Some by (simp add: ebv_discard_def Let_def dict_get_update dict_get_delete)
qed

lemma ebv_ok [wf_intros]:
  "dict_ok m \<Longrightarrow> dict_ok (ebv_add n e m)" "dict_ok m \<Longrightarrow> dict_ok (ebv_discard k n m)"
  by (auto simp: ebv_add_def ebv_discard_def Let_def dict_ok_update dict_ok_delete split: option.splits)

lemma edge_kind_eid: "eid_of e = eid_of e' \<Longrightarrow> edge_kind e = edge_kind e'"
  by (simp add: edge_kind_def)

lemma edges_wf_get: "edges_wf mg ebv \<Longrightarrow> bucket_wf k (dict_get mg k [])"
  by (simp add: edges_wf_def)

lemma edges_wf_member:
  "edges_wf mg ebv \<Longrightarrow> e \<in> set (dict_get ebv n []) \<longleftrightarrow> e \<in> set (dict_get mg (edge_kind e) []) \<and> incident n e"
  by (simp add: edges_wf_def)

lemma pset_discard_distinct: "distinct (map f xs) \<Longrightarrow> distinct (map f (pset_discard f k xs))"
  by (induction xs) (auto simp: pset_discard_def)

lemma pset_add_fresh: "f x \<notin> f ` set xs \<Longrightarrow> pset_add f x xs = xs @ [x]"
  "x \<in> set xs \<Longrightarrow> pset_add f x xs = xs"
  by (auto simp: pset_add_def)

lemma edges_wf_insert:
  assumes wf: "edges_wf mg ebv" and e: "edge_ok (eid_of e)"
    and new: "eid_of e \<notin> eid_of ` set (dict_get mg (edge_kind e) [])"
  shows "edges_wf (AList.update (edge_kind e) (insort_right eid_of e (dict_get mg (edge_kind e) [])) mg)
     (ebv_add (eid_target (eid_of e)) e (ebv_add (eid_source (eid_of e)) e ebv))"
    (is "edges_wf ?mg ?ebv")
proof -
  have b: "bucket_wf (edge_kind e) (dict_get mg (edge_kind e) [])" using wf by (simp add: edges_wf_def)
  then have ins: "asc eid_of (insort_right eid_of e (dict_get mg (edge_kind e) []))"
    "set (insort_right eid_of e (dict_get mg (edge_kind e) [])) = insert e (set (dict_get mg (edge_kind e) []))"
    using insort_right_asc [OF _ new] by (auto simp: bucket_wf_def)
  have fresh: "eid_of e \<notin> eid_of ` set (dict_get ebv n [])" for n
  proof
    assume "eid_of e \<in> eid_of ` set (dict_get ebv n [])"
    then obtain x where x: "eid_of x = eid_of e" "x \<in> set (dict_get mg (edge_kind x) [])"
      using wf by (auto simp: edges_wf_member)
    then have "edge_kind x = edge_kind e" by (intro edge_kind_eid)
    then show False using x new by (metis image_eqI)
  qed
  have get: "dict_get ?ebv n [] = dict_get ebv n [] @ (if incident n e then [e] else [])" for n
    by (auto simp: dict_simps incident_def pset_add_fresh fresh)
  have "bucket_wf k (dict_get ?mg k [])" for k
    using wf b ins e by (auto simp: edges_wf_def bucket_wf_def dict_get_update)
  moreover have "e' \<in> set (dict_get ?ebv n []) \<longleftrightarrow> e' \<in> set (dict_get ?mg (edge_kind e') []) \<and> incident n e'" for e' n
    unfolding get using ins(2) by (cases "edge_kind e' = edge_kind e"; cases "e' = e")
      (auto simp: edges_wf_member [OF wf] dict_get_update)
  moreover have "distinct (map eid_of (dict_get ?ebv n []))" for n
    unfolding get using wf fresh [of n] by (auto simp: edges_wf_def)
  ultimately show ?thesis using wf unfolding edges_wf_def by (simp add: dict_ok_update ebv_ok)
qed

lemma edges_wf_delete:
  assumes wf: "edges_wf mg ebv" and mg': "dict_ok mg'"
    "\<And>k. dict_get mg' k [] = (if k = eid_kind i then filter (\<lambda>e. eid_of e \<noteq> i) (dict_get mg k []) else dict_get mg k [])"
  shows "edges_wf mg' (ebv_discard i (eid_target i) (ebv_discard i (eid_source i) ebv))" (is "edges_wf _ ?ebv")
proof -
  have mem: "e \<in> set (dict_get mg' (edge_kind e) []) \<longleftrightarrow> e \<in> set (dict_get mg (edge_kind e) []) \<and> eid_of e \<noteq> i" for e
    by (auto simp: mg'(2) edge_kind_def)
  have get: "dict_get ?ebv n [] = (if n = eid_source i \<or> n = eid_target i
      then pset_discard eid_of i (dict_get ebv n []) else dict_get ebv n [])" for n
    by (auto simp: dict_simps pset_discard_def)
  have "e \<in> set (dict_get ?ebv n []) \<longleftrightarrow> e \<in> set (dict_get mg' (edge_kind e) []) \<and> incident n e" for e n
    by (cases "eid_of e = i") (auto simp: get mem edges_wf_member [OF wf] incident_def)
  moreover have "bucket_wf k (dict_get mg' k [])" for k
    using wf by (auto simp: edges_wf_def bucket_wf_def mg'(2) asc_filter)
  moreover have "distinct (map eid_of (dict_get ?ebv n []))" for n
    using wf by (auto simp: get edges_wf_def pset_discard_distinct)
  ultimately show ?thesis using wf mg'(1) unfolding edges_wf_def by (simp add: ebv_ok)
qed

lemma edges_wf_touch: "edges_wf mg ebv \<Longrightarrow> edges_wf (dict_touch [] k mg) ebv"
  by (simp add: edges_wf_def dict_simps dict_ok_touch)

lemma digests_wf_touch: "digests_wf cfg mg di \<Longrightarrow> digests_wf cfg (dict_touch [] k mg) di"
  by (simp add: digests_wf_def dict_simps)

lemma digests_wf_mono:
  assumes "digests_wf cfg mg di"
    "\<And>e k. e \<in> set (dict_get mg k []) \<Longrightarrow> is_executable e \<Longrightarrow> e \<in> set (dict_get mg' k [])"
  shows "digests_wf cfg mg' di"
  using assms unfolding digests_wf_def by blast

lemma digests_total_touch: "digests_total cfg mg di \<Longrightarrow> digests_total cfg (dict_touch [] k mg) di"
  by (simp add: digests_total_def dict_simps)

lemma digests_wf_add:
  assumes "digests_wf cfg mg (Some d)" "e \<in> set (dict_get mg (edge_kind e) [])" "is_executable e"
    "edge_digest (cfg_hash cfg) (cfg_show cfg) e = Inr h"
  shows "digests_wf cfg mg (Some (AList.update h (edge_key_of e) d))"
proof -
  have "edge_kind (edge_key_of e) = edge_kind e" by (simp add: edge_kind_def)
  then show ?thesis using assms by (auto simp: digests_wf_def update_conv)
qed

lemma touch_migrations_wf: "reg_wf cfg r \<Longrightarrow> reg_wf cfg (r\<lparr>migrations_of_kind := dict_touch [] k (migrations_of_kind r)\<rparr>)"
  by (simp add: reg_wf_def edges_wf_touch digests_wf_touch digests_total_touch)

lemma insert_edge_wf:
  assumes wf: "reg_wf cfg r" and e: "edge_ok (eid_of e)"
    and new: "eid_of e \<notin> eid_of ` set (dict_get (migrations_of_kind r) (edge_kind e) [])"
    and dig: "digestable cfg (digest_index r) e"
  shows "reg_wf cfg (snd (insert_edge cfg e r))"
proof -
  let ?mg = "AList.update (edge_kind e) (insort_right eid_of e (dict_get (migrations_of_kind r) (edge_kind e) [])) (migrations_of_kind r)"
  have ed: "edges_wf ?mg (ebv_add (eid_target (eid_of e)) e (ebv_add (eid_source (eid_of e)) e (edges_by_version r)))"
    using wf e new by (intro edges_wf_insert) (auto simp: reg_wf_def)
  have a: "asc eid_of (dict_get (migrations_of_kind r) (edge_kind e) [])"
    using wf by (auto simp: reg_wf_def edges_wf_def bucket_wf_def)
  have s: "set (insort_right eid_of e (dict_get (migrations_of_kind r) (edge_kind e) [])) =
      insert e (set (dict_get (migrations_of_kind r) (edge_kind e) []))"
    using insort_right_asc [OF a new] by simp
  then have di: "digests_wf cfg ?mg (digest_index r)"
    using wf by (auto simp: reg_wf_def dict_get_update elim!: digests_wf_mono)
  have mem: "e \<in> set (dict_get ?mg (edge_kind e) [])" using s by (simp add: dict_get_update)
  have tot: "digests_total cfg ?mg (digest_index r)"
    using wf dig s by (auto simp: reg_wf_def digests_total_def dict_get_update)
  have upd: "digests_total cfg ?mg (Some d')" if "digest_index r = Some d" for d d'
    using tot that by (simp add: digests_total_def digestable_def)
  show ?thesis using wf ed di tot upd digests_wf_add [OF _ mem] dig
    by (auto simp: insert_edge_def Let_def reg_wf_def digestable_def okR_iff simp del: eid_of_simps
        split: option.splits sum.splits if_splits)
qed

lemma unlink_edge_wf:
  assumes wf: "reg_wf cfg r" and ex: "\<not> is_executable x"
    and x: "x \<in> set (dict_get (migrations_of_kind r) (edge_kind x) [])"
  shows "reg_wf cfg (unlink_edge x r)"
proof -
  let ?k = "edge_kind x" and ?i = "eid_of x"
  let ?paths = "dict_get (migrations_of_kind r) ?k []"
  let ?mg = "AList.update ?k (sorted_remove eid_of ?i ?paths) (dict_touch [] ?k (migrations_of_kind r))"
  let ?ebv = "ebv_discard ?i (eid_target ?i) (ebv_discard ?i (eid_source ?i) (edges_by_version r))"
  have a: "asc eid_of ?paths" using wf by (auto simp: reg_wf_def edges_wf_def bucket_wf_def)
  have mg: "dict_get ?mg k [] = (if k = eid_kind ?i then filter (\<lambda>e. eid_of e \<noteq> ?i)
      (dict_get (migrations_of_kind r) k []) else dict_get (migrations_of_kind r) k [])" for k
    using a by (auto simp: dict_simps sorted_remove_filter edge_kind_def)
  have "edges_wf ?mg ?ebv"
  proof (rule edges_wf_delete [where mg = "migrations_of_kind r"])
    show "edges_wf (migrations_of_kind r) (edges_by_version r)" "dict_ok ?mg"
      using wf by (auto simp: reg_wf_def edges_wf_def dict_ok_update dict_ok_touch)
  qed (rule mg)
  moreover have "digests_wf cfg ?mg (digest_index r)"
  proof (rule digests_wf_mono)
    show "digests_wf cfg (migrations_of_kind r) (digest_index r)" using wf by (simp add: reg_wf_def)
    fix y k assume y: "y \<in> set (dict_get (migrations_of_kind r) k [])" "is_executable y"
    then have "eid_of y \<noteq> ?i" if "k = ?k" using asc_inj [OF a x] that ex by metis
    then show "y \<in> set (dict_get ?mg k [])" unfolding mg using y by (auto simp: edge_kind_def)
  qed
  moreover have "digests_total cfg ?mg (digest_index r)"
    unfolding digests_total_def mg using wf by (auto simp: reg_wf_def digests_total_def)
  ultimately show ?thesis using wf by (simp add: unlink_edge_def Let_def reg_wf_def)
qed

lemma unlink_edge_gone:
  "reg_wf cfg r \<Longrightarrow> eid_of x \<notin> eid_of ` set (dict_get (migrations_of_kind (unlink_edge x r)) (edge_kind x) [])"
  by (auto simp: unlink_edge_def Let_def dict_get_update sorted_remove_filter reg_wf_def edges_wf_def bucket_wf_def)

lemma store_edge_wf [wf_intros]:
  assumes wf: "reg_wf cfg r" and e: "edge_ok (eid_of e)" and dig: "digestable cfg (digest_index r) e"
  shows "reg_wf cfg (snd (store_edge cfg e r))"
proof -
  let ?paths = "dict_get (migrations_of_kind r) (edge_kind e) []"
  have r0: "reg_wf cfg (r\<lparr>migrations_of_kind := dict_touch [] (edge_kind e) (migrations_of_kind r)\<rparr>)"
    using wf by (rule touch_migrations_wf)
  have a: "asc eid_of ?paths" using wf by (auto simp: reg_wf_def edges_wf_def bucket_wf_def)
  show ?thesis
  proof (cases "sorted_find eid_of ?paths (eid_of e)")
    case None
    then have "eid_of e \<notin> eid_of ` set ?paths" by (simp add: sorted_find_None [OF a])
    then show ?thesis using None r0 e dig
      by (simp add: store_edge_def Let_def insert_edge_wf dict_simps)
  next
    case (Some x)
    then have x: "x \<in> set ?paths" "eid_of x = eid_of e" by (simp_all add: sorted_find_Some [OF a])
    then have k: "edge_kind x = edge_kind e" by (intro edge_kind_eid)
    have "reg_wf cfg (snd (insert_edge cfg e (unlink_edge x r)))" if "\<not> is_executable x"
      using unlink_edge_wf [OF wf that] unlink_edge_gone [OF wf, of x] x k e dig
      by (intro insert_edge_wf) (auto simp: unlink_edge_def Let_def)
    then show ?thesis using Some r0
      by (auto simp: store_edge_def Let_def split: sum.splits)
  qed
qed

lemma store_migration_edge_wf [wf_intros]:
  "reg_wf cfg r \<Longrightarrow> edge_ok (eid_of e) \<Longrightarrow> digestable cfg (digest_index r) e \<Longrightarrow>
     reg_wf cfg (snd (store_migration_edge cfg e r))"
  by (simp add: store_migration_edge_def store_edge_wf)

lemma digests_wf_delete:
  assumes "digests_wf cfg mg (Some d)" "edge_digest (cfg_hash cfg) (cfg_show cfg) x = Inr h"
    "\<And>y k. y \<in> set (dict_get mg k []) \<Longrightarrow> y \<noteq> x \<Longrightarrow> y \<in> set (dict_get mg' k [])"
  shows "digests_wf cfg mg' (Some (AList.delete h d))"
  unfolding digests_wf_def
proof (intro allI impI)
  fix d' h' key
  assume d': "Some (AList.delete h d) = Some d'" and "map_of d' h' = Some key"
  then have h': "h' \<noteq> h" "map_of d h' = Some key" by (auto simp: delete_conv split: if_splits)
  then obtain e where e: "e \<in> set (dict_get mg (edge_kind key) [])" "is_executable e" "edge_key_of e = key"
    "edge_digest (cfg_hash cfg) (cfg_show cfg) e = Inr h'"
    using assms(1) unfolding digests_wf_def by blast
  then have "e \<noteq> x" using h' assms(2) by auto
  then show "\<exists>e \<in> set (dict_get mg' (edge_kind key) []). is_executable e \<and> edge_key_of e = key \<and>
      edge_digest (cfg_hash cfg) (cfg_show cfg) e = Inr h'"
    using e assms(3) by blast
qed

lemma remove_migration_wf [wf_intros]:
  assumes wf: "reg_wf cfg r"
  shows "reg_wf cfg (snd (remove_migration cfg key r))"
proof -
  let ?k = "edge_kind key" and ?i = "eid_of key"
  let ?paths = "dict_get (migrations_of_kind r) ?k []"
  let ?tmg = "dict_touch [] ?k (migrations_of_kind r)"
  let ?rest = "sorted_remove eid_of ?i ?paths"
  define mg' where "mg' = put_bucket ?k ?rest ?tmg"
  let ?ebv = "ebv_discard ?i (eid_target ?i) (ebv_discard ?i (eid_source ?i) (edges_by_version r))"
  have r0: "reg_wf cfg (r\<lparr>migrations_of_kind := ?tmg\<rparr>)" using wf by (rule touch_migrations_wf)
  have a: "asc eid_of ?paths" using wf by (auto simp: reg_wf_def edges_wf_def bucket_wf_def)
  have mg: "dict_get mg' k [] = (if k = eid_kind ?i then filter (\<lambda>e. eid_of e \<noteq> ?i)
      (dict_get (migrations_of_kind r) k []) else dict_get (migrations_of_kind r) k [])" for k
    using a by (auto simp: mg'_def put_bucket_def dict_simps sorted_remove_filter edge_kind_def)
  have ed: "edges_wf mg' ?ebv"
  proof (rule edges_wf_delete [where mg = "migrations_of_kind r"])
    show "edges_wf (migrations_of_kind r) (edges_by_version r)" "dict_ok mg'"
      using wf by (auto simp: mg'_def put_bucket_def reg_wf_def edges_wf_def dict_ok_update dict_ok_touch dict_ok_delete)
  qed (rule mg)
  have tot: "digests_total cfg mg' (digest_index r)"
    unfolding digests_total_def mg using wf by (auto simp: reg_wf_def digests_total_def)
  show ?thesis
  proof (cases "sorted_find eid_of ?paths ?i")
    case None
    then show ?thesis using wf r0 by (simp add: remove_migration_def Let_def reg_wf_def)
  next
    case (Some x)
    then have x: "x \<in> set ?paths" "eid_of x = ?i" by (simp_all add: sorted_find_Some [OF a])
    have keep: "y \<in> set (dict_get mg' k [])"
      if "y \<in> set (dict_get (migrations_of_kind r) k [])" "y \<noteq> x" for y k
    proof -
      have "eid_of y \<noteq> ?i" if "k = ?k"
        using asc_inj [OF a x(1), of y] x(2) \<open>y \<noteq> x\<close> \<open>y \<in> _\<close> that by metis
      then show ?thesis unfolding mg using that by (auto simp: edge_kind_def)
    qed
    have same: "digests_wf cfg mg' (digest_index r)" if "digest_index r = None \<or> \<not> is_executable x"
    proof (cases "digest_index r")
      case (Some d)
      then have ne: "\<not> is_executable x" using that by simp
      have "digests_wf cfg (migrations_of_kind r) (digest_index r)" using wf by (simp add: reg_wf_def)
      then show ?thesis by (rule digests_wf_mono) (metis keep ne)
    qed (simp add: digests_wf_def)
    have del: "digests_wf cfg mg' (Some (AList.delete h d)) \<and> digests_total cfg mg' (Some (AList.delete h d))"
      if "digest_index r = Some d" "edge_digest (cfg_hash cfg) (cfg_show cfg) x = Inr h" for d h
    proof
      have "digests_wf cfg (migrations_of_kind r) (Some d)" using wf that(1) by (simp add: reg_wf_def)
      then show "digests_wf cfg mg' (Some (AList.delete h d))"
        using that(2) by (rule digests_wf_delete) (rule keep)
      show "digests_total cfg mg' (Some (AList.delete h d))"
        using tot that(1) by (simp add: digests_total_def digestable_def)
    qed
    have dig: "digestable cfg (digest_index r) x" using wf x by (auto simp: reg_wf_def digests_total_def)
    show ?thesis
    proof (cases "digest_index r = None \<or> \<not> is_executable x")
      case True
      then show ?thesis using wf r0 Some ed tot same [OF True]
        by (cases "is_executable x")
          (simp_all add: remove_migration_def Let_def reg_wf_def flip: mg'_def del: eid_of_simps)
    next
      case False
      then obtain d h where "digest_index r = Some d" "is_executable x"
        "edge_digest (cfg_hash cfg) (cfg_show cfg) x = Inr h"
        using dig by (auto simp: digestable_def okR_iff)
      then show ?thesis using wf r0 Some ed del [of d h]
        by (simp add: remove_migration_def Let_def reg_wf_def flip: mg'_def del: eid_of_simps)
    qed
  qed
qed

lemma clear_migrations_wf [wf_intros]: "reg_wf cfg r \<Longrightarrow> reg_wf cfg (snd (clear_migrations cfg r))"
  by (auto simp: clear_migrations_def reg_wf_def edges_wf_def bucket_wf_def digests_wf_def digests_total_def)

lemma reg_wf_hooks [simp]: "reg_wf cfg (r\<lparr>hooks_of := hs\<rparr>) = reg_wf cfg r"
  by (simp add: reg_wf_def)

lemma reg_wf_refresh [simp]: "reg_wf cfg (refresh_health cfg' es r) = reg_wf cfg r"
  by (simp add: reg_wf_def)

lemma hooks_wf [wf_intros]:
  "reg_wf cfg r \<Longrightarrow> reg_wf cfg (snd (add_hook cfg key h r))"
  "reg_wf cfg r \<Longrightarrow> reg_wf cfg (snd (remove_hook cfg key ho r))"
  "reg_wf cfg r \<Longrightarrow> reg_wf cfg (snd (clear_hooks ko r))"
  "reg_wf cfg r \<Longrightarrow> reg_wf cfg (snd (hooks ko r))"
  by (auto simp: add_hook_def remove_hook_def clear_hooks_def hooks_def Let_def split: option.splits)

lemma touching_reads_wf [wf_intros]:
  "reg_wf cfg r \<Longrightarrow> reg_wf cfg (snd (is_adjacent i r))"
  "reg_wf cfg r \<Longrightarrow> reg_wf cfg (snd (is_critical_edge i r))"
  by (simp_all add: is_adjacent_def is_critical_edge_def Let_def touch_kinds_wf touch_migrations_wf)

lemma keeps_wf [keeps_intros]:
  "keeps (reg_wf cfg) (store cfg n)" "keeps (reg_wf cfg) (remove_migration cfg e)"
  "keeps (reg_wf cfg) (is_adjacent i)" "keeps (reg_wf cfg) (clear_hooks ko)"
  "keeps (reg_wf cfg) (remove_model cfg j)"
  by (auto intro!: keepsI wf_intros)

lemma keeps_reconstruct [keeps_intros]: "keeps (reg_wf cfg) (reconstruct cfg port a m f)"
  unfolding reconstruct_def by (intro keeps_intros)

lemma keeps_resolve_endpoints [keeps_intros]: "keeps (reg_wf cfg) (resolve_endpoints cfg port spec)"
proof (rule keepsI)
  fix r :: "'a registry" assume wf: "reg_wf cfg r"
  have "keeps (reg_wf cfg) (bindS (reconstruct cfg port a m f) g)" if "\<And>x. keeps (reg_wf cfg) (g x)"
    for a m f and g :: "'a node \<Rightarrow> ('a registry, 'a node \<times> 'a node) op"
    using that by (intro keeps_intros)
  from keepsD [OF this [OF keeps_basic(1)] wf]
  show "reg_wf cfg (snd (resolve_endpoints cfg port spec r))"
    using wf by (simp add: resolve_endpoints_def split: option.split)
qed

lemma keeps_build_spec_edge [keeps_intros]: "keeps (reg_wf cfg) (build_spec_edge port spec a b)"
  unfolding build_spec_edge_def by (intro keeps_intros)

lemma keeps_resolve_spec_edge [keeps_intros]: "keeps (reg_wf cfg) (resolve_spec_edge cfg spec)"
  unfolding resolve_spec_edge_def by (intro keeps_intros)

lemma resolve_spec_edge_ok: "resolve_spec_edge cfg spec r = (Inr e, r') \<Longrightarrow> edge_ok (eid_of e)"
  by (auto simp: resolve_spec_edge_def build_spec_edge_def bindS_Inr dest!: mk_version_edge_Inr split: if_splits)

lemma store_migration_spec_wf [wf_intros]:
  assumes wf: "reg_wf cfg r"
    and dig: "\<And>e r'. resolve_spec_edge cfg spec r = (Inr e, r') \<Longrightarrow> digestable cfg (digest_index r') e"
  shows "reg_wf cfg (snd (store_migration_spec cfg spec r))"
proof (cases "resolve_spec_edge cfg spec r")
  case (Pair x r')
  then have "reg_wf cfg r'" using keepsD [OF keeps_resolve_spec_edge wf, of spec] by simp
  then show ?thesis using Pair dig resolve_spec_edge_ok [of cfg spec r]
    by (cases x) (auto simp: store_migration_spec_def intro: store_edge_wf)
qed

lemma keeps_range_check [keeps_intros]: "keeps (reg_wf cfg) (range_check key)"
  unfolding range_check_def by (intro keeps_intros) (auto intro: keepsI)

lemma keeps_range_keys [keeps_intros]: "keeps (reg_wf cfg) (range_keys vs is)"
  by (induction "is") (simp_all only: range_keys.simps, (intro keeps_intros | assumption)+)

lemma remove_migration_range_wf [wf_intros]:
  "reg_wf cfg r \<Longrightarrow> reg_wf cfg (snd (remove_migration_range cfg a b r))"
  unfolding remove_migration_range_def Let_def by (rule keepsD) (intro keeps_intros)

lemma keeps_drop_edge [keeps_intros]: "keeps (reg_wf cfg) (drop_edge cfg e)"
  unfolding drop_edge_def by (intro keeps_intros) (auto intro!: keepsI hooks_wf)

lemma keeps_drop_edges_of [keeps_intros]: "keeps (reg_wf cfg) (drop_edges_of cfg vs v)"
  by (rule keepsI) (auto simp: drop_edges_of_def intro: keepsD [OF keeps_for [OF keeps_drop_edge]])

lemma keeps_try_remove_model [keeps_intros]: "keeps (reg_wf cfg) (try_remove_model cfg n)"
proof (rule keepsI)
  fix r :: "'a registry" assume "reg_wf cfg r"
  from remove_model_wf [OF this, of "node_id_of n"] show "reg_wf cfg (snd (try_remove_model cfg n r))"
    by (auto simp: try_remove_model_def split: prod.splits sum.splits)
qed

lemma delete_kind_wf [wf_intros]: "reg_wf cfg r \<Longrightarrow> reg_wf cfg (snd (delete_kind cfg k r))"
proof -
  assume wf: "reg_wf cfg r"
  have "keeps (reg_wf cfg) (bindS (forS (drop_edges_of cfg vs) vs) (\<lambda>_. forS (try_remove_model cfg) (rev vs)))" for vs
    by (intro keeps_intros)
  from keepsD [OF this wf] show ?thesis using wf by (simp add: delete_kind_def Let_def)
qed

lemma copy_from_wf:
  assumes "reg_wf cfg s" "reg_namespace r \<noteq> []" "digest_index s = None \<longrightarrow> digest_index r = None"
  shows "reg_wf cfg (snd (copy_from s r))"
  using assms by (auto simp: copy_from_def reg_wf_def split: option.splits)

lemma new_registry_wf: "new_registry ns idx = Inr r \<Longrightarrow> reg_wf cfg r"
  by (auto simp: new_registry_def reg_wf_def nodes_wf_def models_wf_def edges_wf_def bucket_wf_def
      digests_wf_def digests_total_def split: if_splits)

section \<open>Reachable registries\<close>

text \<open>
  One call on a registry, with the state it leaves whether it returns or raises. The premises are what
  the object constructors guarantee of an edge (\<open>edge_ok\<close>), that hashing does not raise, and that
  \<open>remove_entry\<close> is given an entry with the model reference of the stored one. A registry is also produced
  by \<open>copy_from\<close> another one, which keeps its own digest index when the other has none (so that one is
  asked to have none either; \<open>copy\<close> always satisfies this). What the last two conditions exclude is shown
  by \<open>Health.removal_leaves_model\<close> and \<open>Graph.copy_keeps_digests\<close>.
\<close>

inductive reg_step :: "('v::linorder, 'b) reg_config \<Rightarrow> 'v registry \<Rightarrow> 'v registry \<Rightarrow> bool"
  for cfg :: "('v::linorder, 'b) reg_config" where
  st_store: "reg_step cfg r (snd (store cfg n r))"
| st_hydrate: "reg_step cfg r (snd (hydrate cfg n r))"
| st_reconcile: "reg_step cfg r (snd (reconcile cfg n r))"
| st_remove_entry: "removable n r \<Longrightarrow> reg_step cfg r (snd (remove_entry cfg n r))"
| st_remove_model: "reg_step cfg r (snd (remove_model cfg i r))"
| st_remove_model_by_ref: "reg_step cfg r (snd (remove_model_by_ref cfg ref r))"
| st_clear_models: "reg_step cfg r (snd (clear_models cfg r))"
| st_delete_kind: "reg_step cfg r (snd (delete_kind cfg k r))"
| st_store_edge: "edge_ok (eid_of e) \<Longrightarrow> digestable cfg (digest_index r) e \<Longrightarrow>
    reg_step cfg r (snd (store_migration_edge cfg e r))"
| st_store_spec: "(\<And>e r'. resolve_spec_edge cfg spec r = (Inr e, r') \<Longrightarrow> digestable cfg (digest_index r') e) \<Longrightarrow>
    reg_step cfg r (snd (store_migration_spec cfg spec r))"
| st_remove_migration: "reg_step cfg r (snd (remove_migration cfg e r))"
| st_remove_range: "reg_step cfg r (snd (remove_migration_range cfg a b r))"
| st_clear_migrations: "reg_step cfg r (snd (clear_migrations cfg r))"
| st_add_hook: "reg_step cfg r (snd (add_hook cfg e h r))"
| st_remove_hook: "reg_step cfg r (snd (remove_hook cfg e ho r))"
| st_clear_hooks: "reg_step cfg r (snd (clear_hooks ko r))"
| st_hooks: "reg_step cfg r (snd (hooks ko r))"
| st_is_adjacent: "reg_step cfg r (snd (is_adjacent i r))"
| st_is_critical: "reg_step cfg r (snd (is_critical_edge i r))"

inductive reg_reachable :: "('v::linorder, 'b) reg_config \<Rightarrow> 'v registry \<Rightarrow> bool"
  for cfg :: "('v::linorder, 'b) reg_config" where
  rr_new: "new_registry ns idx = Inr r \<Longrightarrow> reg_reachable cfg r"
| rr_step: "reg_reachable cfg r \<Longrightarrow> reg_step cfg r r' \<Longrightarrow> reg_reachable cfg r'"
| rr_copy: "reg_reachable cfg r \<Longrightarrow> reg_reachable cfg s \<Longrightarrow> (digest_index s = None \<longrightarrow> digest_index r = None) \<Longrightarrow>
    reg_reachable cfg (snd (copy_from s r))"

lemma reg_step_wf: "reg_step cfg r r' \<Longrightarrow> reg_wf cfg r \<Longrightarrow> reg_wf cfg r'"
  by (induction rule: reg_step.induct) (auto intro: wf_intros remove_removable_wf)

lemma reg_reachable_wf: "reg_reachable cfg r \<Longrightarrow> reg_wf cfg r"
  proof (induction rule: reg_reachable.induct)
  case (rr_copy r s)
  then show ?case by (intro copy_from_wf) (simp_all add: reg_wf_def)
qed (auto intro: new_registry_wf reg_step_wf)

end
