(* ===== verification/Linters.thy ===== *)
theory Linters
  imports Registry_Invariant
begin

text \<open>
  The health linters of \<open>core/registry/linters\<close>. Each is a function of the registry and one entity,
  as \<open>Registry._refresh_health\<close> calls it; \<open>default_health_linters\<close> is \<open>DEFAULT_HEALTH_LINTERS\<close>. The
  text of a message is a function of the other parts of an issue and is not kept.
\<close>

section \<open>Missing references\<close>

fun is_version_key :: "'v entity \<Rightarrow> bool" where
  "is_version_key (NodeE (KeyNode i r)) = True"
| "is_version_key (NodeE (ModelNode i r d)) = True"
| "is_version_key _ = False"

fun is_edge_key :: "'v entity \<Rightarrow> bool" where
  "is_edge_key (EdgeE (KeyEdge s t x r)) = True"
| "is_edge_key (EdgeE (VersionEdge s t x r d m)) = True"
| "is_edge_key _ = False"

definition missing_references_linter :: "'v::linorder registry \<Rightarrow> 'v entity \<Rightarrow> 'v health_issue list" where
  "missing_references_linter r e =
     (if \<not> is_version_key e then []
      else concat (map (\<lambda>ref.
        (let local = (nid_namespace ref = reg_namespace r) in
         if local \<and> has_model ref r then []
         else [\<lparr>hi_code = (if local then ''reference.missing.local'' else ''reference.missing.namespaced''),
                hi_severity = SevError, hi_entity = e, hi_details = [(''reference'', DNodeId ref)]\<rparr>]))
        (entity_references e)))"

section \<open>Missing endpoints\<close>

definition endpoint_issues :: "'v::linorder registry \<Rightarrow> 'v entity \<Rightarrow> 'v node \<Rightarrow> 'v health_issue list" where
  "endpoint_issues r e n =
     (if nid_namespace (node_id_of n) \<noteq> reg_namespace r
      then [\<lparr>hi_code = ''namespace.unresolved'', hi_severity = SevError, hi_entity = e,
             hi_details = [(''endpoint'', DNode n)]\<rparr>]
      else if \<not> has_entry (node_id_of n) r
      then [\<lparr>hi_code = ''edge.endpoint.missing'', hi_severity = SevError, hi_entity = e,
             hi_details = [(''endpoint'', DNode n)]\<rparr>]
      else [])"

fun missing_edge_endpoints_linter :: "'v::linorder registry \<Rightarrow> 'v entity \<Rightarrow> 'v health_issue list" where
  "missing_edge_endpoints_linter r (EdgeE x) =
     (if \<not> is_edge_key (EdgeE x) then []
      else endpoint_issues r (EdgeE x) (edge_source x) @ endpoint_issues r (EdgeE x) (edge_target x))"
| "missing_edge_endpoints_linter r (NodeE n) = []"

section \<open>Missing migrations\<close>

text \<open>
  \<open>pairwise\<close>: the first consecutive pair that starts at the entity decides. The pair is of one kind and
  namespace, so building its key does not raise.
\<close>

fun missing_pair :: "'v::linorder registry \<Rightarrow> 'v node_id \<Rightarrow> 'v node list \<Rightarrow> 'v health_issue list" where
  "missing_pair r i (s # t # vs) =
     (if node_id_of s \<noteq> i \<or> nid_namespace (node_id_of s) \<noteq> nid_namespace (node_id_of t)
      then missing_pair r i (t # vs)
      else if has_migration (EdgeId (node_id_of s) (node_id_of t) default_discriminator) r = Inr True then []
      else [\<lparr>hi_code = ''migration.missing'', hi_severity = SevError,
             hi_entity = EdgeE (KeyEdge s t default_discriminator (EdgeRef [])),
             hi_details = [(''source'', DNode s), (''target'', DNode t)]\<rparr>])"
| "missing_pair r i _ = []"

fun missing_migrations_linter :: "'v::linorder registry \<Rightarrow> 'v entity \<Rightarrow> 'v health_issue list" where
  "missing_migrations_linter r (NodeE n) =
     (if \<not> is_version_key (NodeE n) then []
      else missing_pair r (node_id_of n) (kind_versions (nid_kind (node_id_of n)) r))"
| "missing_migrations_linter r (EdgeE e) = []"

definition default_health_linters :: "('v::linorder registry \<Rightarrow> 'v entity \<Rightarrow> 'v health_issue list) list" where
  "default_health_linters = [missing_references_linter, missing_edge_endpoints_linter, missing_migrations_linter]"

section \<open>Compatibility\<close>

record compatibility_report =
  cr_kind :: string
  cr_source_version :: string
  cr_target_version :: string
  cr_added :: "string list"
  cr_removed :: "string list"
  cr_modified :: "string list"
  cr_breaking :: bool

definition report_from_diff :: "('v \<Rightarrow> string) \<Rightarrow> string list \<Rightarrow> 'v diff \<Rightarrow> compatibility_report" where
  "report_from_diff show_v identity_fields d =
     (let added = filter (\<lambda>f. f \<notin> set identity_fields) (added_fields d);
          removed = filter (\<lambda>f. f \<notin> set identity_fields) (removed_fields d);
          modified = filter (\<lambda>(f, c). f \<notin> set identity_fields) (modified_fields d) in
      \<lparr>cr_kind = nid_kind (node_id_of (diff_source d)),
       cr_source_version = show_v (nid_version (node_id_of (diff_source d))),
       cr_target_version = show_v (nid_version (node_id_of (diff_target d))),
       cr_added = added, cr_removed = removed, cr_modified = sort (map fst modified),
       cr_breaking = (removed \<noteq> [] \<or> list_ex (\<lambda>(f, c). dict_has c ''type_changed'') modified
         \<or> list_ex (\<lambda>(f, c). dict_has c ''required_changed'') modified
         \<or> list_ex (is_added_required d) added)\<rparr>)"

definition required_additions :: "compatibility_report \<Rightarrow> 'v diff \<Rightarrow> string list" where
  "required_additions rep d = filter (is_added_required d) (cr_added rep)"

fun compatibility_linter :: "('v \<Rightarrow> string) \<Rightarrow> string list \<Rightarrow> 'v registry \<Rightarrow> 'v entity \<Rightarrow> 'v health_issue list" where
  "compatibility_linter show_v identity_fields r (EdgeE (VersionEdge s t x ref d m)) =
     (let rep = report_from_diff show_v identity_fields d in
      if \<not> cr_breaking rep then []
      else [\<lparr>hi_code = ''migration.structural_breaking'', hi_severity = SevWarning,
             hi_entity = EdgeE (edge_key_of (VersionEdge s t x ref d m)),
             hi_details = [(''removed'', DNames (cr_removed rep)), (''modified'', DNames (cr_modified rep)),
                           (''required_additions'', DNames (required_additions rep d))]\<rparr>])"
| "compatibility_linter show_v identity_fields r _ = []"

section \<open>Lemmas\<close>

lemma has_model_entry: "has_model k r \<longleftrightarrow> has_entry k r"
  by (simp add: has_model_def has_entry_def find_entry_def sorted_find_def Let_def)

lemma info_with_member:
  assumes "distinct (map fst (diff_fields d))"
  shows "(n, c) \<in> set (info_with st d) \<longleftrightarrow> map_of (diff_fields d) n = Some (FieldChange st c)"
proof -
  have "(n, c) \<in> set (info_with st d) \<longleftrightarrow> (n, FieldChange st c) \<in> set (diff_fields d)"
    unfolding info_with_def by (force simp: image_iff)
  then show ?thesis using assms by (simp add: map_of_eq_Some_iff)
qed

lemma map_of_info_with:
  assumes d: "distinct (map fst (diff_fields d))"
  shows "map_of (info_with st d) n = Some c \<longleftrightarrow> map_of (diff_fields d) n = Some (FieldChange st c)"
proof -
  have s: "distinct (map fst (sort_key fst (diff_fields d)))"
    using d by (metis mset_eq_imp_distinct_iff mset_map mset_sort)
  have f: "map fst (info_with st d) = map fst (filter (\<lambda>(n, c). fc_status c = st) (sort_key fst (diff_fields d)))"
    by (simp add: info_with_def case_prod_unfold comp_def)
  have "distinct (map fst (info_with st d))" unfolding f using s by (rule distinct_map_filter)
  then show ?thesis using info_with_member [OF d] by (simp add: map_of_eq_Some_iff)
qed

lemma is_added_required_iff:
  assumes "distinct (map fst (diff_fields d))" "map_of (diff_fields d) n = Some (added_change f)"
  shows "is_added_required d n \<longleftrightarrow> fd_required f"
proof -
  have "map_of (added_field_info d) n = Some (fc_details (added_change f))"
    using assms(2) by (simp add: added_field_info_def map_of_info_with [OF assms(1)] added_change_def)
  then show ?thesis by (simp add: is_added_required_def added_change_def dict_get_def)
qed

definition breaking_field :: "'v field_descriptor option \<Rightarrow> 'v field_descriptor option \<Rightarrow> bool" where
  "breaking_field old new = (case (old, new) of
     (Some f, None) \<Rightarrow> True
   | (None, Some g) \<Rightarrow> fd_required g
   | (Some f, Some g) \<Rightarrow> \<not> type_ref_eq (fd_type_ref f) (fd_type_ref g) \<or> fd_required f \<noteq> fd_required g
   | (None, None) \<Rightarrow> False)"

lemma names_with_member:
  assumes "distinct (map fst (diff_fields d))"
  shows "n \<in> set (names_with st d) \<longleftrightarrow> (\<exists>c. map_of (diff_fields d) n = Some (FieldChange st c))"
proof -
  have "(\<exists>c. (n, c) \<in> set (diff_fields d) \<and> fc_status c = st) \<longleftrightarrow> (\<exists>c. (n, FieldChange st c) \<in> set (diff_fields d))"
    by (metis field_change.collapse field_change.sel(1))
  then show ?thesis using assms by (simp add: names_with_set map_of_eq_Some_iff)
qed

lemma missing_pair_iff:
  assumes "asc node_id_of vs" "i < length vs"
    "\<forall>n \<in> set vs. nid_namespace (node_id_of n) = ns"
  shows "missing_pair r (node_id_of (vs ! i)) vs = [] \<longleftrightarrow>
     (Suc i < length vs \<longrightarrow> has_migration (EdgeId (node_id_of (vs ! i)) (node_id_of (vs ! Suc i)) default_discriminator) r = Inr True)"
  using assms
proof (induction r "node_id_of (vs ! i)" vs arbitrary: i rule: missing_pair.induct)
  case (1 r s t vs)
  show ?case
  proof (cases i)
    case 0
    then show ?thesis using 1 by simp
  next
    case (Suc j)
    have ne: "node_id_of s \<noteq> node_id_of ((s # t # vs) ! i)"
      using 1(2) 1(3) Suc by (auto simp: asc_Cons) (metis less_irrefl nth_mem set_ConsD length_Cons)
    have "missing_pair r (node_id_of ((t # vs) ! j)) (t # vs) = [] \<longleftrightarrow>
       (Suc j < length (t # vs) \<longrightarrow> has_migration (EdgeId (node_id_of ((t # vs) ! j)) (node_id_of ((t # vs) ! Suc j)) default_discriminator) r = Inr True)"
      using 1(1) [OF _ ] 1(2-) Suc ne by (auto simp: asc_Cons)
    then show ?thesis using Suc ne by simp
  qed
qed (auto)

section \<open>Properties\<close>

text \<open>
  A transition is reported as structurally breaking exactly when some field, the identity fields
  apart, is removed, is added as required, or changes its type or its requiredness. In particular an
  added optional field and a changed default do not break.
\<close>

theorem compatibility_breaking_iff:
  assumes "dict_ok (desc_fields d)" "dict_ok (desc_fields d')"
    "build_diff strategy_of i r d (ModelNode j r' d') = Inr df"
  shows "cr_breaking (report_from_diff show_v identity_fields df) \<longleftrightarrow>
     (\<exists>n. n \<notin> set identity_fields \<and> breaking_field (map_of (desc_fields d) n) (map_of (desc_fields d') n))"
proof -
  have df: "diff_fields df = diff_fields_of d d'"
    using assms(3) by (auto simp: build_diff_def bindR_eq_Inr split: if_splits)
  have dist: "distinct (map fst (diff_fields df))" using diff_fields_distinct assms(1,2) df by simp
  note at = map_of_diff_fields [of d d', folded df]
  have "n \<in> set (removed_fields df) \<longleftrightarrow> map_of (desc_fields d) n \<noteq> None \<and> map_of (desc_fields d') n = None" for n
    by (auto simp: removed_fields_def names_with_member [OF dist] at added_change_def common_change_eq split: option.splits)
  moreover have "n \<in> set (added_fields df) \<and> is_added_required df n \<longleftrightarrow>
      map_of (desc_fields d) n = None \<and> (\<exists>g. map_of (desc_fields d') n = Some g \<and> fd_required g)" for n
  proof -
    have "is_added_required df n \<longleftrightarrow> fd_required g"
      if "map_of (desc_fields d) n = None" "map_of (desc_fields d') n = Some g" for g
      by (rule is_added_required_iff [OF dist]) (simp add: at that)
    then show ?thesis
      by (auto simp: added_fields_def names_with_member [OF dist] at common_change_eq added_change_def
          split: option.splits if_splits)
  qed
  moreover have "(\<exists>c. (n, c) \<in> set (modified_fields df) \<and> (dict_has c ''type_changed'' \<or> dict_has c ''required_changed'')) \<longleftrightarrow>
      (\<exists>f g. map_of (desc_fields d) n = Some f \<and> map_of (desc_fields d') n = Some g \<and>
         (\<not> type_ref_eq (fd_type_ref f) (fd_type_ref g) \<or> fd_required f \<noteq> fd_required g))" for n
    unfolding modified_fields_def info_with_member [OF dist] at
    by (auto simp: common_change_eq added_change_def field_changes_of_def dict_has_def split: option.splits if_splits)
  ultimately have "breaking_field (map_of (desc_fields d) n) (map_of (desc_fields d') n) \<longleftrightarrow>
      n \<in> set (removed_fields df) \<or> n \<in> set (added_fields df) \<and> is_added_required df n \<or>
      (\<exists>c. (n, c) \<in> set (modified_fields df) \<and> (dict_has c ''type_changed'' \<or> dict_has c ''required_changed''))" for n
    by (simp add: breaking_field_def split: option.split)
  moreover have "cr_breaking (report_from_diff show_v identity_fields df) \<longleftrightarrow> (\<exists>n. n \<notin> set identity_fields \<and>
      (n \<in> set (removed_fields df) \<or> n \<in> set (added_fields df) \<and> is_added_required df n \<or>
      (\<exists>c. (n, c) \<in> set (modified_fields df) \<and> (dict_has c ''type_changed'' \<or> dict_has c ''required_changed''))))"
    by (simp add: report_from_diff_def Let_def filter_empty_conv list_ex_iff Bex_def) blast
  ultimately show ?thesis by simp
qed

theorem compatibility_breaking_iff_witness:
  "\<not> cr_breaking (report_from_diff show_nat [''version'']
     \<lparr>diff_source = ModelNode (NodeId ''a'' ''K'' 1) sample_ref (sample_desc [sample_field ''x'' True]),
      diff_target = ModelNode (NodeId ''a'' ''K'' 2) sample_ref
        (sample_desc [sample_field ''x'' True, sample_field ''y'' False]),
      diff_fields = diff_fields_of (sample_desc [sample_field ''x'' True] :: nat model_descriptor)
        (sample_desc [sample_field ''x'' True, sample_field ''y'' False]), diff_origin = SCHEMA\<rparr>)"
proof -
  have ok: "dict_ok (desc_fields (sample_desc [sample_field ''x'' True] :: nat model_descriptor))"
    "dict_ok (desc_fields (sample_desc [sample_field ''x'' True, sample_field ''y'' False] :: nat model_descriptor))"
    by (simp_all add: sample_desc_def dict_ok_def)
  have b: "build_diff (\<lambda>_. ''int'') (NodeId ''a'' ''K'' 1) sample_ref (sample_desc [sample_field ''x'' True])
      (ModelNode (NodeId ''a'' ''K'' 2) sample_ref (sample_desc [sample_field ''x'' True, sample_field ''y'' False]))
      = Inr \<lparr>diff_source = ModelNode (NodeId ''a'' ''K'' (1::nat)) sample_ref (sample_desc [sample_field ''x'' True]),
      diff_target = ModelNode (NodeId ''a'' ''K'' 2) sample_ref
        (sample_desc [sample_field ''x'' True, sample_field ''y'' False]),
      diff_fields = diff_fields_of (sample_desc [sample_field ''x'' True] :: nat model_descriptor)
        (sample_desc [sample_field ''x'' True, sample_field ''y'' False]), diff_origin = SCHEMA\<rparr>"
    by (simp add: build_diff_models)
  show ?thesis unfolding compatibility_breaking_iff [OF ok b]
    by (auto simp: sample_desc_def breaking_field_def type_ref_eq_def split: option.splits if_splits)
qed

text \<open>
  The missing-migration linter on a registry whose models of a kind share a namespace: a stored
  model is clean exactly when it is the latest version of its kind or an executable default migration
  to the next version is registered.
\<close>

theorem missing_migrations_spec:
  assumes "reg_reachable cfg r" "i < length (kind_versions k r)"
    "\<forall>n \<in> set (kind_versions k r). nid_namespace (node_id_of n) = ns"
  shows "missing_migrations_linter r (NodeE (kind_versions k r ! i)) = [] \<longleftrightarrow>
     (Suc i < length (kind_versions k r) \<longrightarrow>
        has_migration (EdgeId (node_id_of (kind_versions k r ! i)) (node_id_of (kind_versions k r ! Suc i))
          default_discriminator) r = Inr True)"
proof -
  have wf: "reg_wf cfg r" using assms(1) by (rule reg_reachable_wf)
  have kv: "kind_versions k r = filter is_model (filter (\<lambda>n. nid_kind (node_id_of n) = k) (by_versions r))"
    using wf by (simp add: kind_versions_def reg_wf_def nodes_wf_def)
  have "asc node_id_of (kind_versions k r)" using wf by (simp add: kv reg_wf_def nodes_wf_def asc_filter)
  note m = missing_pair_iff [OF this assms(2,3)]
  let ?n = "kind_versions k r ! i"
  have "?n \<in> set (kind_versions k r)" using assms(2) by simp
  then have n: "is_model ?n" "nid_kind (node_id_of ?n) = k" by (auto simp: kv)
  then have "is_version_key (NodeE ?n)" by (cases ?n) auto
  then show ?thesis using m n(2) by simp
qed

end
