(* ===== verification/Registry_Spec.thy ===== *)
theory Registry_Spec
  imports Linters
begin

text \<open>
  What the registry promises: an abstract catalog of finite maps that the detailed stores implement,
  the coherence of the health index, the reading of the linters, and the properties of the registry.
\<close>

section \<open>An abstract catalog\<close>

text \<open>
  The contract of the registry's core: nodes and edges by identity, hooks by edge identity. The commands
  have the outcome of the registry's methods; hashes decide between a repeated and a conflicting edge.
\<close>

record 'v catalog =
  cat_nodes :: "'v node_id \<Rightarrow> 'v node option"
  cat_edges :: "'v edge_id \<Rightarrow> 'v edge option"
  cat_hooks :: "'v edge_id \<Rightarrow> hook_ref list option"

datatype 'v command =
    Store "'v node"
  | Hydrate "'v node"
  | Reconcile "'v node"
  | RemoveModel "'v node_id"
  | StoreMigration "'v edge"
  | RemoveMigration "'v edge"
  | AddHook "'v edge" hook_ref
  | ClearHooks "'v edge_id"
  | ClearMigrations

definition edge_at :: "'v::linorder edge_id \<Rightarrow> 'v registry \<Rightarrow> 'v edge option" where
  "edge_at i r = sorted_find eid_of (dict_get (migrations_of_kind r) (eid_kind i) []) i"

definition catalog_of :: "'v::linorder registry \<Rightarrow> 'v catalog" where
  "catalog_of r = \<lparr>cat_nodes = (\<lambda>k. find_entry k r), cat_edges = (\<lambda>i. edge_at i r),
     cat_hooks = map_of (hooks_of r)\<rparr>"

definition spec_store :: "'v node \<Rightarrow> 'v catalog \<Rightarrow> 'v entity res \<times> 'v catalog" where
  "spec_store n c = (if cat_nodes c (node_id_of n) \<noteq> None then (Inl ModelAlreadyRegisteredError, c)
     else (Inr (NodeE n), c\<lparr>cat_nodes := (cat_nodes c)(node_id_of n \<mapsto> n)\<rparr>))"

definition spec_reconcile :: "'v node \<Rightarrow> 'v catalog \<Rightarrow> 'v entity res \<times> 'v catalog" where
  "spec_reconcile n c = (case cat_nodes c (node_id_of n) of
     None \<Rightarrow> spec_store n c
   | Some old \<Rightarrow>
       if \<not> is_model old \<and> is_model n then (Inl CatalogError, c)
       else if is_model n \<and> set (node_fields n) \<noteq> set (node_fields old) then (Inl ModelConflictError, c)
       else (Inr (NodeE old), c))"

definition spec_hydrate :: "'v node \<Rightarrow> 'v catalog \<Rightarrow> 'v entity res \<times> 'v catalog" where
  "spec_hydrate n c =
     (if \<not> is_model n then (Inl TypeError, c)
      else (case cat_nodes c (node_id_of n) of
        Some old \<Rightarrow> if is_model old then spec_reconcile n c
                    else (Inr (NodeE n), c\<lparr>cat_nodes := (cat_nodes c)(node_id_of n \<mapsto> n)\<rparr>)
      | None \<Rightarrow> spec_store n c))"

definition spec_remove_model :: "'v node_id \<Rightarrow> 'v catalog \<Rightarrow> unit res \<times> 'v catalog" where
  "spec_remove_model i c =
     (if cat_nodes c i = None \<or> (\<exists>k e. cat_edges c k = Some e \<and> is_executable e \<and> incident i e)
      then (Inl CatalogError, c)
      else (Inr (), c\<lparr>cat_nodes := (cat_nodes c)(i := None)\<rparr>))"

text \<open>\<open>same\<close> is the comparison of content digests, which may raise.\<close>

definition spec_store_migration :: "('v edge \<Rightarrow> 'v edge \<Rightarrow> bool res) \<Rightarrow> 'v edge \<Rightarrow> 'v catalog \<Rightarrow> 'v entity res \<times> 'v catalog" where
  "spec_store_migration same e c =
     (if is_executable e \<and> (cat_nodes c (eid_source (eid_of e)) = None \<or> cat_nodes c (eid_target (eid_of e)) = None)
      then (Inl MigrationNotFoundError, c)
      else (case cat_edges c (eid_of e) of
        None \<Rightarrow> (Inr (EdgeE e), c\<lparr>cat_edges := (cat_edges c)(eid_of e \<mapsto> e)\<rparr>)
      | Some old \<Rightarrow>
          if is_executable e \<and> \<not> is_executable old
          then (Inr (EdgeE e), c\<lparr>cat_edges := (cat_edges c)(eid_of e \<mapsto> e)\<rparr>)
          else if is_executable e
          then (case same old e of Inl err \<Rightarrow> (Inl err, c)
                | Inr False \<Rightarrow> (Inl MigrationConflictError, c) | Inr True \<Rightarrow> (Inr (EdgeE old), c))
          else (Inr (EdgeE old), c)))"

definition spec_remove_migration :: "'v edge \<Rightarrow> 'v catalog \<Rightarrow> unit res \<times> 'v catalog" where
  "spec_remove_migration e c =
     (if cat_hooks c (eid_of e) \<noteq> None then (Inl CatalogError, c)
      else (Inr (), c\<lparr>cat_edges := (cat_edges c)(eid_of e := None)\<rparr>))"

fun nodeR :: "'v node res \<times> 's \<Rightarrow> 'v entity option res \<times> 's" where
  "nodeR (x, s) = (map_sum id (\<lambda>n. Some (NodeE n)) x, s)"

fun edgeR :: "'v edge res \<times> 's \<Rightarrow> 'v entity option res \<times> 's" where
  "edgeR (x, s) = (map_sum id (\<lambda>n. Some (EdgeE n)) x, s)"

fun unitR :: "unit res \<times> 's \<Rightarrow> 'v entity option res \<times> 's" where
  "unitR (x, s) = (map_sum id (\<lambda>n. None) x, s)"

fun entR :: "'v entity res \<times> 's \<Rightarrow> 'v entity option res \<times> 's" where
  "entR (x, s) = (map_sum id Some x, s)"

fun run_command :: "('v::linorder, 'b) reg_config \<Rightarrow> 'v command \<Rightarrow> ('v registry, 'v entity option) op" where
  "run_command cfg (Store n) r = nodeR (store cfg n r)"
| "run_command cfg (Hydrate n) r = nodeR (hydrate cfg n r)"
| "run_command cfg (Reconcile n) r = nodeR (reconcile cfg n r)"
| "run_command cfg (RemoveModel i) r = unitR (remove_model cfg i r)"
| "run_command cfg (StoreMigration e) r = edgeR (store_migration_edge cfg e r)"
| "run_command cfg (RemoveMigration e) r = unitR (remove_migration cfg e r)"
| "run_command cfg (AddHook e h) r = unitR (add_hook cfg e h r)"
| "run_command cfg (ClearHooks i) r = unitR (clear_hooks (Some i) r)"
| "run_command cfg ClearMigrations r = unitR (clear_migrations cfg r)"

definition same_digest :: "('v, 'b) reg_config \<Rightarrow> 'v edge \<Rightarrow> 'v edge \<Rightarrow> bool res" where
  "same_digest cfg a b =
     bindR (edge_digest (cfg_hash cfg) (cfg_show cfg) a) (\<lambda>x.
     bindR (edge_digest (cfg_hash cfg) (cfg_show cfg) b) (\<lambda>y. Inr (x = y)))"

fun spec_command :: "('v, 'b) reg_config \<Rightarrow> 'v command \<Rightarrow> 'v catalog \<Rightarrow> 'v entity option res \<times> 'v catalog" where
  "spec_command cfg (Store n) c = entR (spec_store n c)"
| "spec_command cfg (Hydrate n) c = entR (spec_hydrate n c)"
| "spec_command cfg (Reconcile n) c = entR (spec_reconcile n c)"
| "spec_command cfg (RemoveModel i) c = unitR (spec_remove_model i c)"
| "spec_command cfg (StoreMigration e) c = entR (spec_store_migration (same_digest cfg) e c)"
| "spec_command cfg (RemoveMigration e) c = unitR (spec_remove_migration e c)"
| "spec_command cfg (AddHook e h) c =
     (Inr None, c\<lparr>cat_hooks := (cat_hooks c)(eid_of e \<mapsto> (case cat_hooks c (eid_of e) of None \<Rightarrow> [h] | Some hs \<Rightarrow> hs @ [h]))\<rparr>)"
| "spec_command cfg (ClearHooks i) c =
     (if cat_hooks c i = None then (Inl CatalogError, c) else (Inr None, c\<lparr>cat_hooks := (cat_hooks c)(i := None)\<rparr>))"
| "spec_command cfg ClearMigrations c = (Inr None, c\<lparr>cat_edges := (\<lambda>_. None), cat_hooks := (\<lambda>_. None)\<rparr>)"

definition command_ok :: "('v, 'b) reg_config \<Rightarrow> 'v registry \<Rightarrow> 'v command \<Rightarrow> bool" where
  "command_ok cfg r c = (case c of
     StoreMigration e \<Rightarrow> edge_ok (eid_of e) \<and> digestable cfg (digest_index r) e | _ \<Rightarrow> True)"

section \<open>The stores implement the catalog\<close>

lemma catalog_of_frame [simp]:
  "catalog_of (refresh_health cfg es r) = catalog_of r"
  "catalog_of (drop_entity e r) = catalog_of r"
  "catalog_of (rebuild_health cfg r) = catalog_of r"
  by (simp_all add: catalog_of_def edge_at_def find_entry_def)

lemma catalog_of_touch [simp]:
  "catalog_of (r\<lparr>by_kinds := m\<rparr>) = catalog_of r"
  "catalog_of (r\<lparr>migrations_of_kind := dict_touch [] k (migrations_of_kind r)\<rparr>) = catalog_of r"
  by (simp_all add: catalog_of_def edge_at_def find_entry_def dict_simps)

lemma store_catalog:
  assumes "reg_wf cfg r" "find_entry (node_id_of n) r = None"
  shows "catalog_of (snd (store cfg n r)) = (catalog_of r)\<lparr>cat_nodes := (cat_nodes (catalog_of r))(node_id_of n \<mapsto> n)\<rparr>"
    and "fst (store cfg n r) = Inr n"
  using assms node_index.lookup_insert [of "by_versions r" n]
  by (auto simp: store_def Let_def catalog_of_def edge_at_def find_entry_def fun_eq_iff reg_wf_def nodes_wf_def)

lemma remove_entry_catalog:
  assumes "reg_wf cfg r"
  shows "catalog_of (snd (remove_entry cfg n r)) = (catalog_of r)\<lparr>cat_nodes := (cat_nodes (catalog_of r))(node_id_of n := None)\<rparr>"
    and "remove_entry cfg n r = (Inr (), snd (remove_entry cfg n r))"
  using assms node_index.lookup_delete [of "by_versions r" "node_id_of n"]
  by (auto simp: remove_entry_def Let_def catalog_of_def edge_at_def find_entry_def fun_eq_iff reg_wf_def nodes_wf_def)

lemma resR_sel [simp]:
  "fst (nodeR p) = map_sum id (\<lambda>n. Some (NodeE n)) (fst p)" "snd (nodeR p) = snd p"
  "fst (edgeR q) = map_sum id (\<lambda>n. Some (EdgeE n)) (fst q)" "snd (edgeR q) = snd q"
  "fst (unitR u) = map_sum id (\<lambda>n. None) (fst u)" "snd (unitR u) = snd u"
  "fst (entR v) = map_sum id Some (fst v)" "snd (entR v) = snd v"
  by (cases p; simp; fail | cases q; simp; fail | cases u; simp; fail | cases v; simp; fail)+

definition refines :: "('v::linorder, 'b) reg_config \<Rightarrow> 'v command \<Rightarrow> 'v registry \<Rightarrow> bool" where
  "refines cfg c r \<longleftrightarrow> fst (run_command cfg c r) = fst (spec_command cfg c (catalog_of r))
     \<and> catalog_of (snd (run_command cfg c r)) = snd (spec_command cfg c (catalog_of r))"

lemma cat_nodes_of [simp]: "cat_nodes (catalog_of r) k = find_entry k r"
  "cat_edges (catalog_of r) i = edge_at i r" "cat_hooks (catalog_of r) = map_of (hooks_of r)"
  by (simp_all add: catalog_of_def)

lemma refines_store: "reg_wf cfg r \<Longrightarrow> refines cfg (Store n) r"
  using store_catalog [of cfg r n]
  by (cases "find_entry (node_id_of n) r") (auto simp: refines_def spec_store_def store_def)

lemma replace_catalog:
  assumes "reg_wf cfg r" "find_entry (node_id_of n) r = Some old"
  shows "fst (bindS (remove_entry cfg old) (\<lambda>_. store cfg n) r) = Inr n"
    and "catalog_of (snd (bindS (remove_entry cfg old) (\<lambda>_. store cfg n) r)) =
      (catalog_of r)\<lparr>cat_nodes := (cat_nodes (catalog_of r))(node_id_of n \<mapsto> n)\<rparr>"
proof -
  let ?r = "snd (remove_entry cfg old r)"
  have old: "old \<in> set (by_versions r)" "node_id_of old = node_id_of n"
    using assms by (auto simp: find_entry_Some)
  have wf: "reg_wf cfg ?r" using assms(1) old(1) by (rule remove_entry_wf)
  note c = remove_entry_catalog(1) [OF assms(1), of old]
  have "find_entry (node_id_of n) ?r = None"
    using arg_cong [OF c, of "\<lambda>c. cat_nodes c (node_id_of n)"] old by simp
  note st = store_catalog [OF wf this]
  have b: "bindS (remove_entry cfg old) (\<lambda>_. store cfg n) r = store cfg n ?r"
    using remove_entry_catalog(2) [OF assms(1), of old] by (metis bindS_simps(2))
  show "fst (bindS (remove_entry cfg old) (\<lambda>_. store cfg n) r) = Inr n" using st(2) b by simp
  show "catalog_of (snd (bindS (remove_entry cfg old) (\<lambda>_. store cfg n) r)) =
      (catalog_of r)\<lparr>cat_nodes := (cat_nodes (catalog_of r))(node_id_of n \<mapsto> n)\<rparr>"
    unfolding b st(1) c using old(2) by simp
qed

lemma refines_reconcile: "reg_wf cfg r \<Longrightarrow> refines cfg (Reconcile n) r"
proof (cases "find_entry (node_id_of n) r")
  case None
  assume "reg_wf cfg r"
  from refines_store [OF this, of n] None show ?thesis
    by (simp add: refines_def reconcile_def spec_reconcile_def)
next
  case (Some old)
  then show ?thesis
    by (cases n) (auto simp: refines_def reconcile_def spec_reconcile_def)
qed

lemma refines_hydrate:
  assumes wf: "reg_wf cfg r"
  shows "refines cfg (Hydrate n) r"
proof (cases "find_entry (node_id_of n) r")
  case None
  with refines_store [OF wf, of n] show ?thesis
    by (simp add: refines_def hydrate_def spec_hydrate_def)
next
  case (Some old)
  with refines_reconcile [OF wf, of n] replace_catalog [OF wf Some] show ?thesis
    by (simp add: refines_def hydrate_def spec_hydrate_def)
qed

lemma edge_at_member:
  assumes "reg_wf cfg r"
  shows "edge_at i r = Some e \<longleftrightarrow> e \<in> set (dict_get (migrations_of_kind r) (edge_kind e) []) \<and> eid_of e = i"
proof -
  have a: "asc eid_of (dict_get (migrations_of_kind r) k [])" for k
    using assms by (auto simp: reg_wf_def edges_wf_def bucket_wf_def)
  show ?thesis unfolding edge_at_def sorted_find_Some [OF a] by (auto simp: edge_kind_def)
qed

lemma refines_remove_model:
  assumes wf: "reg_wf cfg r"
  shows "refines cfg (RemoveModel i) r"
proof -
  have ex: "migrations_of i r \<noteq> [] \<longleftrightarrow> (\<exists>k e. edge_at k r = Some e \<and> is_executable e \<and> incident i e)"
  proof -
    have "edges_wf (migrations_of_kind r) (edges_by_version r)" using wf by (simp add: reg_wf_def)
    from edges_wf_member [OF this] show ?thesis
      by (auto simp: migrations_of_def filter_empty_conv edge_at_member [OF wf])
  qed
  show ?thesis
  proof (cases "find_entry i r")
    case None
    then show ?thesis by (simp add: refines_def remove_model_eq [OF wf] spec_remove_model_def)
  next
    case (Some n)
    then have n: "node_id_of n = i" using wf by (simp add: find_entry_Some)
    let ?r = "r\<lparr>by_kinds := dict_touch [] (nid_kind i) (by_kinds r)\<rparr>"
    have "reg_wf cfg ?r" using wf by (rule touch_kinds_wf)
    from remove_entry_catalog [OF this, of n] have
      "fst (remove_entry cfg n ?r) = Inr ()"
      "catalog_of (snd (remove_entry cfg n ?r)) = (catalog_of r)\<lparr>cat_nodes := (cat_nodes (catalog_of r))(i := None)\<rparr>"
      by (metis fst_conv, simp add: n)
    then show ?thesis using Some ex
      by (auto simp: refines_def remove_model_eq [OF wf] spec_remove_model_def)
  qed
qed

lemma edge_at_insert:
  assumes "reg_wf cfg r" "edge_at (eid_of e) r = None"
  shows "edge_at i (r\<lparr>migrations_of_kind := AList.update (edge_kind e)
      (insort_right eid_of e (dict_get (migrations_of_kind r) (edge_kind e) [])) (migrations_of_kind r),
      edges_by_version := m\<rparr>) = (if i = eid_of e then Some e else edge_at i r)"
proof -
  have a: "asc eid_of (dict_get (migrations_of_kind r) (edge_kind e) [])"
    using assms(1) by (auto simp: reg_wf_def edges_wf_def bucket_wf_def)
  have "sorted_find eid_of (dict_get (migrations_of_kind r) (edge_kind e) []) (eid_of e) = None"
    using assms(2) by (simp add: edge_at_def edge_kind_def)
  from edge_index.lookup_insert [OF a this] show ?thesis
    by (auto simp: edge_at_def dict_get_update edge_kind_def)
qed

lemma insert_edge_catalog:
  assumes "reg_wf cfg r" "edge_at (eid_of e) r = None" "digestable cfg (digest_index r) e"
  shows "fst (insert_edge cfg e r) = Inr e"
    and "catalog_of (snd (insert_edge cfg e r)) = (catalog_of r)\<lparr>cat_edges := (cat_edges (catalog_of r))(eid_of e \<mapsto> e)\<rparr>"
proof -
  have c: "catalog_of (r\<lparr>migrations_of_kind := AList.update (edge_kind e)
      (insort_right eid_of e (dict_get (migrations_of_kind r) (edge_kind e) [])) (migrations_of_kind r),
      edges_by_version := m\<rparr>) = (catalog_of r)\<lparr>cat_edges := (cat_edges (catalog_of r))(eid_of e \<mapsto> e)\<rparr>" for m
    using edge_at_insert [OF assms(1,2)] by (auto simp: catalog_of_def find_entry_def fun_eq_iff)
  have d: "catalog_of (x\<lparr>digest_index := y\<rparr>) = catalog_of x" for x y
    by (simp add: catalog_of_def find_entry_def edge_at_def fun_eq_iff)
  show "fst (insert_edge cfg e r) = Inr e"
    using assms(3) by (auto simp: insert_edge_def Let_def digestable_def okR_iff split: option.split sum.split)
  show "catalog_of (snd (insert_edge cfg e r)) = (catalog_of r)\<lparr>cat_edges := (cat_edges (catalog_of r))(eid_of e \<mapsto> e)\<rparr>"
    using assms(3) by (auto simp: insert_edge_def Let_def digestable_def okR_iff c d split: option.split sum.split)
qed

lemma edge_at_delete:
  assumes "reg_wf cfg r"
  shows "edge_at i (r\<lparr>migrations_of_kind := put_bucket (edge_kind e) (sorted_remove eid_of (eid_of e)
      (dict_get (migrations_of_kind r) (edge_kind e) [])) (dict_touch [] (edge_kind e) (migrations_of_kind r))\<rparr>)
      = (if i = eid_of e then None else edge_at i r)"
    and "edge_at i (r\<lparr>migrations_of_kind := AList.update (edge_kind e) (sorted_remove eid_of (eid_of e)
      (dict_get (migrations_of_kind r) (edge_kind e) [])) (dict_touch [] (edge_kind e) (migrations_of_kind r))\<rparr>)
      = (if i = eid_of e then None else edge_at i r)"
proof -
  let ?p = "dict_get (migrations_of_kind r) (edge_kind e) []"
  have "asc eid_of ?p" using assms by (auto simp: reg_wf_def edges_wf_def bucket_wf_def)
  from edge_index.lookup_delete [OF this, of "eid_of e"]
  have l: "sorted_find eid_of (sorted_remove eid_of (eid_of e) ?p) j =
      (if j = eid_of e then None else sorted_find eid_of ?p j)" for j .
  show "edge_at i (r\<lparr>migrations_of_kind := AList.update (edge_kind e) (sorted_remove eid_of (eid_of e) ?p)
      (dict_touch [] (edge_kind e) (migrations_of_kind r))\<rparr>) = (if i = eid_of e then None else edge_at i r)"
    using l [of i] by (auto simp: edge_at_def dict_simps edge_kind_def)
  show "edge_at i (r\<lparr>migrations_of_kind := put_bucket (edge_kind e) (sorted_remove eid_of (eid_of e) ?p)
      (dict_touch [] (edge_kind e) (migrations_of_kind r))\<rparr>) = (if i = eid_of e then None else edge_at i r)"
    using l [of i] by (auto simp: edge_at_def dict_simps edge_kind_def put_bucket_def)
qed

lemma edge_at_frame [simp]:
  "edge_at i (r\<lparr>edges_by_version := m\<rparr>) = edge_at i r" "edge_at i (r\<lparr>digest_index := d\<rparr>) = edge_at i r"
  "find_entry k (r\<lparr>edges_by_version := m\<rparr>) = find_entry k r" "find_entry k (r\<lparr>digest_index := d\<rparr>) = find_entry k r"
  "find_entry k (r\<lparr>migrations_of_kind := mg\<rparr>) = find_entry k r"
  "catalog_of (r\<lparr>edges_by_version := m\<rparr>) = catalog_of r" "catalog_of (r\<lparr>digest_index := d\<rparr>) = catalog_of r"
  by (simp_all add: edge_at_def find_entry_def catalog_of_def)

lemma catalog_migrations:
  "(\<And>i. edge_at i (r\<lparr>migrations_of_kind := mg\<rparr>) = (if i = j then x else edge_at i r)) \<Longrightarrow>
   catalog_of (r\<lparr>migrations_of_kind := mg\<rparr>) = (catalog_of r)\<lparr>cat_edges := (cat_edges (catalog_of r))(j := x)\<rparr>"
  by (auto simp: catalog_of_def fun_eq_iff)

lemma store_edge_refines:
  assumes wf: "reg_wf cfg r" and dig: "digestable cfg (digest_index r) e"
  shows "fst (edgeR (store_edge cfg e r)) = fst (entR (case edge_at (eid_of e) r of
        None \<Rightarrow> (Inr (EdgeE e), ())
      | Some old \<Rightarrow> if is_executable e \<and> \<not> is_executable old then (Inr (EdgeE e), ())
          else if is_executable e then (case same_digest cfg old e of Inl err \<Rightarrow> (Inl err, ())
                | Inr False \<Rightarrow> (Inl MigrationConflictError, ()) | Inr True \<Rightarrow> (Inr (EdgeE old), ()))
          else (Inr (EdgeE old), ())))"
    and "catalog_of (snd (store_edge cfg e r)) =
      (if edge_at (eid_of e) r = None \<or> is_executable e \<and> \<not> is_executable (the (edge_at (eid_of e) r))
       then (catalog_of r)\<lparr>cat_edges := (cat_edges (catalog_of r))(eid_of e \<mapsto> e)\<rparr> else catalog_of r)"
proof -
  let ?r = "r\<lparr>migrations_of_kind := dict_touch [] (edge_kind e) (migrations_of_kind r)\<rparr>"
  have r0: "reg_wf cfg ?r" using wf by (rule touch_migrations_wf)
  have at: "edge_at (eid_of e) r = sorted_find eid_of (dict_get (migrations_of_kind r) (edge_kind e) []) (eid_of e)"
    "edge_at i ?r = edge_at i r" for i
    by (simp_all add: edge_at_def edge_kind_def dict_simps)
  note new = insert_edge_catalog [OF r0, of e]
  have up: "fst (insert_edge cfg e (unlink_edge x r)) = Inr e"
    "catalog_of (snd (insert_edge cfg e (unlink_edge x r))) =
       (catalog_of r)\<lparr>cat_edges := (cat_edges (catalog_of r))(eid_of e \<mapsto> e)\<rparr>"
    if x: "edge_at (eid_of e) r = Some x" "\<not> is_executable x" for x
  proof -
    have m: "x \<in> set (dict_get (migrations_of_kind r) (edge_kind x) [])" "eid_of x = eid_of e"
      using x by (simp_all add: edge_at_member [OF wf])
    have w: "reg_wf cfg (unlink_edge x r)" using wf x(2) m(1) by (rule unlink_edge_wf)
    have i: "edge_at i (unlink_edge x r) = (if i = eid_of x then None else edge_at i r)" for i
      using edge_at_delete(2) [OF wf, of i x] by (simp add: unlink_edge_def Let_def)
    have c: "catalog_of (unlink_edge x r) = (catalog_of r)\<lparr>cat_edges := (cat_edges (catalog_of r))(eid_of x := None)\<rparr>"
      using edge_at_delete(2) [OF wf, of _ x] by (simp add: unlink_edge_def Let_def catalog_migrations)
    have d: "digestable cfg (digest_index (unlink_edge x r)) e" using dig by (simp add: unlink_edge_def Let_def)
    note ins = insert_edge_catalog [OF w _ d]
    show "fst (insert_edge cfg e (unlink_edge x r)) = Inr e"
      "catalog_of (snd (insert_edge cfg e (unlink_edge x r))) =
       (catalog_of r)\<lparr>cat_edges := (cat_edges (catalog_of r))(eid_of e \<mapsto> e)\<rparr>"
      using ins i m(2) c by simp_all
  qed
  show "fst (edgeR (store_edge cfg e r)) = fst (entR (case edge_at (eid_of e) r of
        None \<Rightarrow> (Inr (EdgeE e), ())
      | Some old \<Rightarrow> if is_executable e \<and> \<not> is_executable old then (Inr (EdgeE e), ())
          else if is_executable e then (case same_digest cfg old e of Inl err \<Rightarrow> (Inl err, ())
                | Inr False \<Rightarrow> (Inl MigrationConflictError, ()) | Inr True \<Rightarrow> (Inr (EdgeE old), ()))
          else (Inr (EdgeE old), ())))"
    using new(1) up(1) at dig
    by (auto simp: store_edge_def Let_def same_digest_def bindR_def split: option.split sum.split)
  show "catalog_of (snd (store_edge cfg e r)) =
      (if edge_at (eid_of e) r = None \<or> is_executable e \<and> \<not> is_executable (the (edge_at (eid_of e) r))
       then (catalog_of r)\<lparr>cat_edges := (cat_edges (catalog_of r))(eid_of e \<mapsto> e)\<rparr> else catalog_of r)"
    using new(2) up(2) at dig
    by (auto simp: store_edge_def Let_def split: option.split sum.split)
qed

lemma refines_store_migration:
  assumes wf: "reg_wf cfg r" and dig: "digestable cfg (digest_index r) e"
  shows "refines cfg (StoreMigration e) r"
proof -
  have g: "i \<notin> node_id_of ` set (by_versions r) \<longleftrightarrow> find_entry i r = None" for i
    using wf by (simp add: find_entry_None)
  show ?thesis
    using store_edge_refines [OF wf dig]
    by (auto simp: refines_def store_migration_edge_def spec_store_migration_def g
        split: option.split sum.split bool.split)
qed

lemma refines_remove_migration:
  assumes wf: "reg_wf cfg r"
  shows "refines cfg (RemoveMigration e) r"
proof -
  let ?k = "edge_kind e"
  let ?r = "r\<lparr>migrations_of_kind := put_bucket ?k (sorted_remove eid_of (eid_of e)
      (dict_get (migrations_of_kind r) ?k [])) (dict_touch [] ?k (migrations_of_kind r))\<rparr>"
  have c: "catalog_of ?r = (catalog_of r)\<lparr>cat_edges := (cat_edges (catalog_of r))(eid_of e := None)\<rparr>"
    using edge_at_delete(1) [OF wf, of _ e] by (rule catalog_migrations)
  have at: "edge_at (eid_of e) r = sorted_find eid_of (dict_get (migrations_of_kind r) ?k []) (eid_of e)"
    by (simp add: edge_at_def edge_kind_def)
  have id: "(catalog_of r)\<lparr>cat_edges := (cat_edges (catalog_of r))(eid_of e := None)\<rparr> = catalog_of r"
    if "edge_at (eid_of e) r = None" using that by (auto simp: catalog_of_def fun_eq_iff)
  have dig: "digestable cfg (digest_index r) x" if "edge_at (eid_of e) r = Some x" for x
    using wf that by (auto simp: edge_at_member [OF wf] reg_wf_def digests_total_def)
  show ?thesis
  proof (cases "edge_at (eid_of e) r")
    case None
    then show ?thesis using at id
      by (auto simp: refines_def remove_migration_def Let_def spec_remove_migration_def dict_has_def)
  next
    case (Some x)
    then show ?thesis using at c dig [OF Some]
      by (auto simp: refines_def remove_migration_def Let_def spec_remove_migration_def dict_has_def
          digestable_def okR_iff simp del: eid_of_simps split: option.split)
  qed
qed

lemma refines_hooks: "refines cfg (AddHook e h) r" "refines cfg (ClearHooks i) r" "refines cfg ClearMigrations r"
  by (auto simp: refines_def add_hook_def clear_hooks_def clear_migrations_def catalog_of_def find_entry_def edge_at_def
      dict_has_def dict_get_def fun_eq_iff update_conv delete_conv split: option.split)

lemma command_refines: "reg_wf cfg r \<Longrightarrow> command_ok cfg r c \<Longrightarrow> refines cfg c r"
  by (cases c) (auto simp: command_ok_def intro: refines_store refines_hydrate refines_reconcile
      refines_remove_model refines_store_migration refines_remove_migration refines_hooks)

lemma command_wf: "reg_wf cfg r \<Longrightarrow> command_ok cfg r c \<Longrightarrow> reg_wf cfg (snd (run_command cfg c r))"
  by (cases c) (auto simp: command_ok_def intro: wf_intros)

fun run_commands :: "('v::linorder, 'b) reg_config \<Rightarrow> 'v command list \<Rightarrow> 'v registry \<Rightarrow> 'v entity option res list \<times> 'v registry" where
  "run_commands cfg [] r = ([], r)"
| "run_commands cfg (c # cs) r =
     (let (x, r1) = run_command cfg c r; (xs, r2) = run_commands cfg cs r1 in (x # xs, r2))"

fun spec_commands :: "('v, 'b) reg_config \<Rightarrow> 'v command list \<Rightarrow> 'v catalog \<Rightarrow> 'v entity option res list \<times> 'v catalog" where
  "spec_commands cfg [] c = ([], c)"
| "spec_commands cfg (x # xs) c =
     (let (y, c1) = spec_command cfg x c; (ys, c2) = spec_commands cfg xs c1 in (y # ys, c2))"

definition command_edge_ok :: "'v command \<Rightarrow> bool" where
  "command_edge_ok c = (case c of StoreMigration e \<Rightarrow> edge_ok (eid_of e) | _ \<Rightarrow> True)"

lemma digest_index_None:
  "digest_index r = None \<Longrightarrow> digest_index (snd (run_command cfg c r)) = None"
proof -
  assume d: "digest_index r = None"
  have s: "digest_index (snd (store cfg n r)) = digest_index r"
    "digest_index (snd (remove_entry cfg n r)) = digest_index r" for n and r :: "'a registry"
    by (simp_all add: store_def remove_entry_def Let_def)
  have b: "digest_index (snd (bindS (remove_entry cfg n) (\<lambda>_. store cfg m) r)) = digest_index r" for n m
    and r :: "'a registry"
    by (simp add: bindS_def s split: prod.split sum.split) (metis s(2) snd_conv)
  have rc: "digest_index (snd (reconcile cfg n r)) = digest_index r" for n
    by (auto simp: reconcile_def s b split: option.split sum.split error.split)
  have e: "digest_index (snd (insert_edge cfg x q)) = None" if "digest_index q = None" for x and q :: "'a registry"
    using that by (simp add: insert_edge_def Let_def)
  show ?thesis
    using d by (cases c) (auto simp: s b rc e hydrate_def remove_model_def store_migration_edge_def store_edge_def
        remove_migration_def add_hook_def clear_hooks_def clear_migrations_def unlink_edge_def Let_def
        split: option.split sum.split)
qed

lemma commands_refine:
  assumes "reg_wf cfg r" "digest_index r = None" "list_all command_edge_ok cs"
  shows "fst (run_commands cfg cs r) = fst (spec_commands cfg cs (catalog_of r))
     \<and> catalog_of (snd (run_commands cfg cs r)) = snd (spec_commands cfg cs (catalog_of r))"
  using assms
proof (induction cs arbitrary: r)
  case (Cons c cs)
  have ok: "command_ok cfg r c"
    using Cons.prems by (auto simp: command_ok_def command_edge_ok_def digestable_def split: command.splits)
  let ?r = "snd (run_command cfg c r)"
  have ref: "fst (run_command cfg c r) = fst (spec_command cfg c (catalog_of r))"
    "catalog_of ?r = snd (spec_command cfg c (catalog_of r))"
    using command_refines [OF Cons.prems(1) ok] by (simp_all add: refines_def)
  have "reg_wf cfg ?r" "digest_index ?r = None"
    using Cons.prems ok by (auto intro: command_wf digest_index_None)
  from Cons.IH [OF this] Cons.prems(3) ref show ?case by (simp add: Let_def case_prod_unfold)
qed simp

end
