(* ===== verification/Health.thy ===== *)
theory Health
  imports Registry_Spec
begin

text \<open>
  The health index. Every writer of the registry changes the index through \<open>_set_references\<close> and
  \<open>_set_health\<close> only; the locale states that once, and its two interpretations give the coherence of
  the reference index and of the issue index on every reachable registry.
\<close>

section \<open>Invariants of the index\<close>

locale health_invariant =
  fixes P :: "'v::linorder health_index \<Rightarrow> bool"
  assumes empty: "P empty_health"
    and refs: "P h \<Longrightarrow> P (set_references e ns h)"
    and issues: "P h \<Longrightarrow> P (set_health e is h)"
begin

lemma refresh: "P (reg_health r) \<Longrightarrow> P (reg_health (refresh_health cfg es r))"
proof -
  have "P (reg_health (fold (refresh_entity cfg) xs r))" if "P (reg_health r)" for xs r
    using that by (induction xs arbitrary: r) (auto simp: refresh_entity_def Let_def refs issues)
  then show "P (reg_health r) \<Longrightarrow> P (reg_health (refresh_health cfg es r))" by (simp add: refresh_health_def)
qed

lemma drop: "P (reg_health r) \<Longrightarrow> P (reg_health (drop_entity e r))"
  by (simp add: drop_entity_def refs issues)

lemma rebuild: "P (reg_health (rebuild_health cfg r))"
  by (simp add: rebuild_health_def refresh empty)

lemma store_keeps: "keeps (\<lambda>r. P (reg_health r)) (store cfg n)"
  by (rule keepsI) (simp add: store_def Let_def refresh)

lemma remove_entry_keeps: "keeps (\<lambda>r. P (reg_health r)) (remove_entry cfg n)"
  by (rule keepsI) (simp add: remove_entry_def Let_def refresh drop)

lemma replace_keeps: "keeps (\<lambda>r. P (reg_health r)) (bindS (remove_entry cfg m) (\<lambda>_. store cfg n))"
  by (intro keeps_bind remove_entry_keeps store_keeps)

lemma reconcile_keeps: "keeps (\<lambda>r. P (reg_health r)) (reconcile cfg n)"
  by (rule keepsI) (auto simp: reconcile_def intro: keepsD [OF store_keeps] keepsD [OF replace_keeps]
      split: option.split sum.split error.split)

lemma hydrate_keeps: "keeps (\<lambda>r. P (reg_health r)) (hydrate cfg n)"
  by (rule keepsI) (auto simp: hydrate_def intro: keepsD [OF store_keeps] keepsD [OF replace_keeps]
      keepsD [OF reconcile_keeps] split: option.split)

lemma remove_model_keeps: "keeps (\<lambda>r. P (reg_health r)) (remove_model cfg i)"
  by (rule keepsI) (simp add: remove_model_def Let_def refresh drop)

lemma hook_keeps:
  "keeps (\<lambda>r. P (reg_health r)) (add_hook cfg x h)" "keeps (\<lambda>r. P (reg_health r)) (remove_hook cfg x ho)"
  "keeps (\<lambda>r. P (reg_health r)) (clear_hooks ko)" "keeps (\<lambda>r. P (reg_health r)) (hooks ko)"
  by (auto intro!: keepsI simp: add_hook_def remove_hook_def clear_hooks_def hooks_def Let_def refresh split: option.split)

lemma read_keeps: "keeps (\<lambda>r. P (reg_health r)) (is_adjacent i)" "keeps (\<lambda>r. P (reg_health r)) (is_critical_edge i)"
  by (auto intro!: keepsI simp: is_adjacent_def is_critical_edge_def Let_def)

lemma insert_edge_keeps: "keeps (\<lambda>r. P (reg_health r)) (insert_edge cfg x)"
  by (rule keepsI) (auto simp: insert_edge_def Let_def refresh split: option.split sum.split)

lemma store_edge_keeps: "keeps (\<lambda>r. P (reg_health r)) (store_edge cfg x)"
proof (rule keepsI)
  fix r :: "'v registry"
  assume p: "P (reg_health r)"
  have "P (reg_health (unlink_edge y r))" for y using p by (simp add: unlink_edge_def Let_def)
  moreover have "P (reg_health (r\<lparr>migrations_of_kind := m\<rparr>))" for m using p by simp
  ultimately show "P (reg_health (snd (store_edge cfg x r)))"
    by (auto simp: store_edge_def Let_def intro!: keepsD [OF insert_edge_keeps] split: option.split sum.split)
qed

lemma store_migration_edge_keeps: "keeps (\<lambda>r. P (reg_health r)) (store_migration_edge cfg x)"
  by (rule keepsI) (simp add: store_migration_edge_def keepsD [OF store_edge_keeps])

lemma reconstruct_keeps: "keeps (\<lambda>r. P (reg_health r)) (reconstruct cfg port a m f)"
  unfolding reconstruct_def by (intro keeps_intros store_keeps)

lemma resolve_endpoints_keeps: "keeps (\<lambda>r. P (reg_health r)) (resolve_endpoints cfg port spec)"
proof (rule keepsI)
  fix r :: "'v registry"
  assume p: "P (reg_health r)"
  have "keeps (\<lambda>r. P (reg_health r)) (bindS (reconstruct cfg port a m f) (\<lambda>x. returnS (g x)))" for a m f
    and g :: "'v node \<Rightarrow> 'v node \<times> 'v node"
    by (intro keeps_intros reconstruct_keeps)
  from keepsD [OF this p] show "P (reg_health (snd (resolve_endpoints cfg port spec r)))"
    using p by (simp add: resolve_endpoints_def split: option.split)
qed

lemma store_migration_spec_keeps: "keeps (\<lambda>r. P (reg_health r)) (store_migration_spec cfg spec)"
  unfolding store_migration_spec_def resolve_spec_edge_def build_spec_edge_def
  by (intro keeps_intros resolve_endpoints_keeps store_edge_keeps read_keeps)

lemma remove_migration_keeps: "keeps (\<lambda>r. P (reg_health r)) (remove_migration cfg x)"
  by (rule keepsI) (auto simp: remove_migration_def Let_def refresh drop split: option.split sum.split)

lemma remove_range_keeps: "keeps (\<lambda>r. P (reg_health r)) (remove_migration_range cfg a b)"
proof (rule keepsI)
  fix r :: "'v registry"
  assume p: "P (reg_health r)"
  have c: "keeps (\<lambda>r. P (reg_health r)) (range_check key)" for key :: "'v edge"
    unfolding range_check_def by (intro keeps_intros read_keeps) (auto intro: keepsI)
  have "keeps (\<lambda>r. P (reg_health r)) (range_keys vs is)" for vs and "is" :: "nat list"
    by (induction "is") (simp_all only: range_keys.simps, (intro keeps_intros c | assumption)+)
  then have "keeps (\<lambda>r. P (reg_health r)) (bindS (range_keys vs is) (forS (remove_migration cfg)))" for vs "is"
    by (intro keeps_intros remove_migration_keeps)
  from keepsD [OF this p] show "P (reg_health (snd (remove_migration_range cfg a b r)))"
    by (simp add: remove_migration_range_def Let_def)
qed

lemma delete_kind_keeps: "keeps (\<lambda>r. P (reg_health r)) (delete_kind cfg k)"
proof (rule keepsI)
  fix r :: "'v registry"
  assume p: "P (reg_health r)"
  have d: "keeps (\<lambda>r. P (reg_health r)) (drop_edge cfg x)" for x
    unfolding drop_edge_def
    by (intro keeps_bind remove_migration_keeps) (auto intro!: keepsI keepsD [OF hook_keeps(3)])
  have do: "keeps (\<lambda>r. P (reg_health r)) (drop_edges_of cfg vs v)" for vs v
    by (rule keepsI) (auto simp: drop_edges_of_def intro: keepsD [OF keeps_for [OF d]])
  have t: "keeps (\<lambda>r. P (reg_health r)) (try_remove_model cfg n)" for n
  proof (rule keepsI)
    fix r :: "'v registry" assume "P (reg_health r)"
    from keepsD [OF remove_model_keeps, OF this, of cfg "node_id_of n"]
    show "P (reg_health (snd (try_remove_model cfg n r)))"
      by (auto simp: try_remove_model_def split: prod.splits sum.splits)
  qed
  have "keeps (\<lambda>r. P (reg_health r)) (bindS (forS (drop_edges_of cfg vs) vs) (\<lambda>_. forS (try_remove_model cfg) (rev vs)))" for vs
    by (intro keeps_intros do t)
  from keepsD [OF this p] show "P (reg_health (snd (delete_kind cfg k r)))" using p by (simp add: delete_kind_def Let_def)
qed

lemma step: "reg_step cfg r r' \<Longrightarrow> P (reg_health r) \<Longrightarrow> P (reg_health r')"
proof (induction rule: reg_step.induct)
  case (st_remove_model_by_ref r ref)
  then show ?case by (auto simp: remove_model_by_ref_def intro: keepsD [OF remove_model_keeps] split: option.split)
qed (auto simp: clear_models_def clear_migrations_def rebuild
    intro: keepsD [OF store_keeps] keepsD [OF hydrate_keeps] keepsD [OF reconcile_keeps] keepsD [OF remove_entry_keeps]
      keepsD [OF remove_model_keeps] keepsD [OF delete_kind_keeps] keepsD [OF store_migration_edge_keeps]
      keepsD [OF store_migration_spec_keeps] keepsD [OF remove_migration_keeps] keepsD [OF remove_range_keeps]
      keepsD [OF hook_keeps(1)] keepsD [OF hook_keeps(2)] keepsD [OF hook_keeps(3)] keepsD [OF hook_keeps(4)]
      keepsD [OF read_keeps(1)] keepsD [OF read_keeps(2)])

lemma reachable: "reg_reachable cfg r \<Longrightarrow> P (reg_health r)"
  by (induction rule: reg_reachable.induct) (auto simp: new_registry_def copy_from_def empty step split: if_splits)

end

section \<open>The reference index\<close>

definition refs_coherent :: "'v health_index \<Rightarrow> bool" where
  "refs_coherent h \<longleftrightarrow> (\<forall>n k. k \<in> entity_key ` set (dict_get (references_to h) n []) \<longleftrightarrow>
     n \<in> set (dict_get (references_by_entity h) k []))"

lemma dict_get_unlink:
  "dict_get (unlink_reference e n m) n' [] =
     (if n' = n then pset_discard entity_key (entity_key e) (dict_get m n []) else dict_get m n' [])"
proof (cases "map_of m n")
  case None
  then show ?thesis by (simp add: unlink_reference_def dict_get_def pset_discard_def)
next
  case (Some b)
  then have "dict_get m n [] = b" by (simp add: dict_get_def)
  then show ?thesis using Some by (simp add: unlink_reference_def Let_def dict_simps)
qed

lemma dict_get_fold_unlink:
  "entity_key ` set (dict_get (fold (unlink_reference e) ns m) n []) =
     (if n \<in> set ns then entity_key ` set (dict_get m n []) - {entity_key e} else entity_key ` set (dict_get m n []))"
  by (induction ns arbitrary: m) (auto simp: dict_get_unlink)

lemma dict_get_fold_link:
  "entity_key ` set (dict_get (fold (link_reference e) ns m) n []) =
     (if n \<in> set ns then insert (entity_key e) (entity_key ` set (dict_get m n [])) else entity_key ` set (dict_get m n []))"
  by (induction ns arbitrary: m) (auto simp: link_reference_def dict_simps pset_add_ids)

lemma refs_coherent_set:
  assumes "refs_coherent h"
  shows "refs_coherent (set_references e ns h)"
proof -
  let ?k = "entity_key e"
  have old: "k \<in> entity_key ` set (dict_get (fold (unlink_reference e) (dict_get (references_by_entity h) ?k [])
      (references_to h)) n []) \<longleftrightarrow> k \<noteq> ?k \<and> n \<in> set (dict_get (references_by_entity h) k [])" for k n
    using assms unfolding dict_get_fold_unlink refs_coherent_def by auto
  show ?thesis unfolding refs_coherent_def
    by (auto simp: set_references_def Let_def dict_simps dict_get_fold_link old)
qed

interpretation refs_index: health_invariant refs_coherent
  by unfold_locales
    (simp add: refs_coherent_def empty_health_def, erule refs_coherent_set,
     auto simp: refs_coherent_def set_health_def Let_def)

section \<open>The issue index\<close>

fun key_namespace :: "'v entity_id \<Rightarrow> string" where
  "key_namespace (NodeKey i) = nid_namespace i"
| "key_namespace (EdgeKeyId i) = eid_namespace i"

lemma key_namespace_entity [simp]: "key_namespace (entity_key e) = entity_namespace e"
  by (cases e) auto

definition issues_coherent :: "'v health_index \<Rightarrow> bool" where
  "issues_coherent h \<longleftrightarrow> (\<forall>ns k. k \<in> entity_key ` set (dict_get (issues_by_namespace h) ns []) \<longleftrightarrow>
      key_namespace k = ns \<and> dict_get (health_issues_of h) k [] \<noteq> [])
    \<and> (\<forall>k is. map_of (health_issues_of h) k = Some is \<longrightarrow> is \<noteq> [])"

lemma dict_get_discard:
  "dict_get (case map_of m ns of None \<Rightarrow> m | Some b \<Rightarrow>
     (let c = pset_discard f k b in if c = [] then AList.delete ns m else AList.update ns c m)) ns' [] =
   (if ns' = ns then pset_discard f k (dict_get m ns []) else dict_get m ns' [])"
  by (auto simp: dict_simps Let_def dict_get_def [of m] pset_discard_def split: option.split)

lemma issues_coherent_set:
  assumes "issues_coherent h"
  shows "issues_coherent (set_health e is h)"
proof -
  let ?ns = "entity_namespace e" and ?k = "entity_key e"
  define m where "m = (case map_of (issues_by_namespace h) ?ns of
       None \<Rightarrow> issues_by_namespace h
     | Some bucket \<Rightarrow> (let b = pset_discard entity_key ?k bucket in
         if b = [] then AList.delete ?ns (issues_by_namespace h) else AList.update ?ns b (issues_by_namespace h)))"
  have m: "k \<in> entity_key ` set (dict_get m ns []) \<longleftrightarrow>
      k \<noteq> ?k \<and> key_namespace k = ns \<and> dict_get (health_issues_of h) k [] \<noteq> []" for k ns
  proof -
    have "entity_key ` {x \<in> A. entity_key x \<noteq> ?k} = entity_key ` A - {?k}" for A by auto
    then show ?thesis using assms unfolding m_def dict_get_discard issues_coherent_def by auto
  qed
  have none: "map_of (health_issues_of h) k = Some is' \<Longrightarrow> is' \<noteq> []" for k is'
    using assms by (auto simp: issues_coherent_def)
  show ?thesis
  proof (cases "is = []")
    case True
    then have "set_health e is h = h\<lparr>issues_by_namespace := m, health_issues_of := AList.delete ?k (health_issues_of h)\<rparr>"
      by (simp add: set_health_def m_def Let_def)
    then show ?thesis using m none
      by (auto simp: issues_coherent_def dict_simps delete_conv split: if_splits)
  next
    case False
    then have "set_health e is h = h\<lparr>issues_by_namespace := AList.update ?ns (pset_add entity_key e (dict_get m ?ns [])) m,
        health_issues_of := AList.update ?k is (health_issues_of h)\<rparr>"
      by (simp add: set_health_def m_def Let_def)
    then show ?thesis using m none False
      by (auto simp: issues_coherent_def dict_simps update_conv pset_add_ids split: if_splits)
  qed
qed

interpretation issue_index: health_invariant issues_coherent
  by unfold_locales
    (simp add: issues_coherent_def empty_health_def, simp add: issues_coherent_def set_references_def Let_def,
     erule issues_coherent_set)

section \<open>Concrete registries\<close>

definition sample_cfg :: "(nat, unit) reg_config" where
  "sample_cfg = \<lparr>cfg_hash = id, cfg_show = show_nat, cfg_strategy = (\<lambda>_. ''int''), cfg_on_missing = ''raise'',
     cfg_linters = default_health_linters, cfg_reflection = None\<rparr>"

definition sample_model :: "nat \<Rightarrow> nat node" where
  "sample_model v = ModelNode (NodeId ''a'' ''K'' v) sample_ref (sample_desc [sample_field ''x'' True])"

definition sample_empty :: "nat registry" where
  "sample_empty = \<lparr>reg_namespace = ''a'', by_versions = [], by_kinds = [], by_models = [],
     migrations_of_kind = [], edges_by_version = [], hooks_of = [], digest_index = None, reg_health = empty_health\<rparr>"

definition sample_two :: "nat registry" where
  "sample_two = snd (store sample_cfg (sample_model 2) (snd (store sample_cfg (sample_model 1) sample_empty)))"

lemma sample_empty_reachable: "reg_reachable sample_cfg sample_empty"
  by (rule rr_new [of "''a''" False]) (simp add: new_registry_def sample_empty_def)

lemma sample_two_reachable: "reg_reachable sample_cfg sample_two"
  unfolding sample_two_def by (intro rr_step [OF rr_step [OF sample_empty_reachable st_store] st_store])

section \<open>Lemmas for the properties\<close>

lemma bisect_nth: "asc f xs \<Longrightarrow> i < length xs \<Longrightarrow> bisect_left f xs (f (xs ! i)) = i"
proof -
  assume a: "asc f xs" "i < length xs"
  have xs: "xs = take i xs @ drop i xs" by simp
  have "asc f (take i xs @ drop i xs)" using a by simp
  then have lt: "f x < f y" if "x \<in> set (take i xs)" "y \<in> set (drop i xs)" for x y
    using that unfolding asc_append by blast
  have d: "drop i xs = xs ! i # drop (Suc i) xs" using a by (simp add: Cons_nth_drop_Suc)
  have "asc f (drop i xs)" using a by (metis append_take_drop_id asc_append)
  then have le: "f (xs ! i) \<le> f y" if "y \<in> set (drop i xs)" for y
    using that unfolding d asc_Cons by (auto intro: order_less_imp_le)
  have "bisect_left f (take i xs @ drop i xs) (f (xs ! i)) = length (take i xs)"
    by (rule bisect_left_split) (auto intro: lt le simp: d)
  then show "bisect_left f xs (f (xs ! i)) = i" using a by simp
qed

lemma count_between:
  assumes "asc f xs" "s < t"
  shows "bisect_left f xs t = bisect_left f xs s + length (filter (\<lambda>x. s \<le> f x \<and> f x < t) xs)"
proof -
  have "length (filter (\<lambda>x. f x < t) xs) = length (filter (\<lambda>x. f x < s) xs) + length (filter (\<lambda>x. s \<le> f x \<and> f x < t) xs)"
    using assms(2) by (induction xs) auto
  then show ?thesis by (simp add: bisect_left_count [OF assms(1)])
qed

lemma adjacent_iff:
  assumes a: "asc node_id_of xs" and st: "s < t" "s \<in> node_id_of ` set xs"
  shows "adjacent_positions xs s t \<longleftrightarrow> (\<forall>n \<in> set xs. \<not> (s < node_id_of n \<and> node_id_of n < t))"
proof -
  let ?P = "\<lambda>x. s \<le> node_id_of x \<and> node_id_of x < t"
  obtain n where n: "n \<in> set xs" "node_id_of n = s" using st by auto
  have adj: "adjacent_positions xs s t \<longleftrightarrow> length (filter ?P xs) = 1"
    using count_between [OF a st(1)] by (auto simp: adjacent_positions_def)
  have d: "distinct (filter ?P xs)" using a by (simp add: asc_distinct)
  have mem: "n \<in> set (filter ?P xs)" using n st by simp
  have "length (filter ?P xs) = 1 \<longleftrightarrow> set (filter ?P xs) = {n}"
  proof
    assume "length (filter ?P xs) = 1"
    then obtain y where "filter ?P xs = [y]" by (auto simp: length_Suc_conv)
    then show "set (filter ?P xs) = {n}" using mem by auto
  next
    assume "set (filter ?P xs) = {n}"
    then show "length (filter ?P xs) = 1" using distinct_card [OF d] by simp
  qed
  also have "\<dots> \<longleftrightarrow> (\<forall>x \<in> set xs. \<not> (s < node_id_of x \<and> node_id_of x < t))"
  proof
    assume "set (filter ?P xs) = {n}"
    then show "\<forall>x \<in> set xs. \<not> (s < node_id_of x \<and> node_id_of x < t)" using n by force
  next
    assume no: "\<forall>x \<in> set xs. \<not> (s < node_id_of x \<and> node_id_of x < t)"
    have "x = n" if "x \<in> set xs" "s \<le> node_id_of x" "node_id_of x < t" for x
      using no that asc_inj [OF a _ n(1)] n(2) by (metis order_le_less)
    then show "set (filter ?P xs) = {n}" using mem by auto
  qed
  finally show ?thesis using adj by simp
qed

lemma range_keys_none:
  assumes a: "asc node_id_of vs" and kind: "\<forall>n \<in> set vs. nid_kind (node_id_of n) = k"
    and r: "dict_get (by_kinds r) k [] = vs" and run: "range_keys vs is r = (x, r')"
  shows "(\<forall>ks. x = Inr ks \<longrightarrow> ks = []) \<and> catalog_of r' = catalog_of r"
  using r run
proof (induction "is" arbitrary: r x r')
  case (Cons i "is")
  show ?case
  proof (cases "Suc i < length vs")
    case True
    let ?s = "node_id_of (vs ! i)" and ?t = "node_id_of (vs ! Suc i)"
    show ?thesis
    proof (cases "edge_key_from_pair (vs ! i) (vs ! Suc i) default_discriminator None")
      case (Inr key)
      then have key: "eid_of key = EdgeId ?s ?t default_discriminator"
        using edge_key_from_pair_Inr by blast
      then have k: "eid_kind (eid_of key) = k" using kind True by (simp add: eid_kind_def)
      have "bisect_left node_id_of vs ?s = i" "bisect_left node_id_of vs ?t = Suc i"
        using bisect_nth [OF a, of i] bisect_nth [OF a, of "Suc i"] True by simp_all
      then have adj: "is_adjacent (eid_of key) r =
          (Inr True, r\<lparr>by_kinds := dict_touch [] k (by_kinds r)\<rparr>)"
        using key k Cons.prems(1) by (simp add: is_adjacent_def adjacent_positions_def)
      show ?thesis
      proof (cases "has_migration (eid_of key) r")
        case (Inl e)
        then show ?thesis using Cons.prems(2) True Inr by (auto simp: range_check_def bindS_def)
      next
        case (Inr b)
        show ?thesis
        proof (cases b)
          case True
          then show ?thesis using Cons.prems(2) \<open>Suc i < length vs\<close> \<open>edge_key_from_pair _ _ _ _ = Inr key\<close> Inr adj
            by (auto simp: range_check_def bindS_def)
        next
          case False
          then have step: "range_keys vs (i # is) r =
              bindS (range_keys vs is) (\<lambda>ks. returnS ks) r"
            using \<open>Suc i < length vs\<close> \<open>edge_key_from_pair _ _ _ _ = Inr key\<close> Inr
            by (simp add: range_check_def bindS_def)
          obtain y q where y: "range_keys vs is r = (y, q)" by fastforce
          then show ?thesis using Cons.IH [OF Cons.prems(1) y] Cons.prems(2) unfolding step
            by (auto simp: bindS_def split: sum.splits)
        qed
      qed
    qed (use Cons.prems True in \<open>auto simp: bindS_def\<close>)
  qed (use Cons.prems in auto)
qed auto

section \<open>Properties\<close>

text \<open>
  C1. Every registry that a sequence of calls and copies can produce is well formed: the version list is
  strictly sorted by identity, the kind index is its partition, the model index points into it, every
  migration list is strictly sorted with edges of its kind, the incidence index lists exactly the
  edges at each endpoint, and the digest index names registered executable edges with that digest.
  Three conditions are put on the calls (\<open>reg_step\<close>, \<open>reg_reachable\<close>): \<open>remove_entry\<close> is given an entry
  with the model reference of the stored one (if that is a model), \<open>copy_from\<close> does not copy a registry
  without a digest index into one with such an index, and, where there is a digest index, hashing the
  stored edge does not raise. Without the first two the invariant is lost: \<open>removal_leaves_model\<close> below
  and \<open>copy_keeps_digests\<close> in \<open>Graph\<close>.
\<close>

theorem registry_invariant:
  assumes "reg_reachable cfg r"
  shows "reg_wf cfg r"
  using assms by (rule reg_reachable_wf)

theorem registry_invariant_witness: "reg_wf sample_cfg sample_two"
  by (rule registry_invariant) (rule sample_two_reachable)

text \<open>
  \<open>remove_entry\<close> with the key of a stored model removes the model from the version list and the kind
  index, but not from the model index, which drops the model reference of the argument only: the
  registry does not have the entry any more and still finds the model by its reference.
\<close>

theorem removal_leaves_model:
  "let r = snd (remove_entry sample_cfg (IdNode (NodeId ''a'' ''K'' 2)) sample_two)
   in \<not> has_entry (NodeId ''a'' ''K'' 2) r \<and> get_model_by_ref sample_ref r = Inr (sample_model 2)"
  by code_simp

theorem removal_leaves_model_unsound:
  "\<not> reg_wf sample_cfg (snd (remove_entry sample_cfg (IdNode (NodeId ''a'' ''K'' 2)) sample_two))"
proof -
  let ?r = "snd (remove_entry sample_cfg (IdNode (NodeId ''a'' ''K'' 2)) sample_two)"
  have "map_of (by_models ?r) (model_ref_key sample_ref) = Some (sample_model 2)"
    "by_versions ?r = [sample_model 1]" by code_simp+
  moreover have "sample_model 2 \<notin> set [sample_model 1]" by (simp add: sample_model_def)
  ultimately show ?thesis unfolding reg_wf_def models_wf_def by metis
qed

text \<open>
  C2. The registry implements an abstract catalog of maps: for every sequence of model, migration and
  hook commands, the outcomes (results and exceptions) and the entries stored afterwards are those of
  the abstract specification, starting from any reachable registry without a digest index.
\<close>

theorem registry_refines_catalog:
  assumes "reg_reachable cfg r" "digest_index r = None" "list_all command_edge_ok cs"
  shows "fst (run_commands cfg cs r) = fst (spec_commands cfg cs (catalog_of r))
     \<and> catalog_of (snd (run_commands cfg cs r)) = snd (spec_commands cfg cs (catalog_of r))"
  using commands_refine [OF reg_reachable_wf [OF assms(1)] assms(2, 3)] .

theorem registry_refines_catalog_witness:
  "fst (run_commands sample_cfg [Store (sample_model 1), Store (sample_model 1)] sample_empty) =
     [Inr (Some (NodeE (sample_model 1))), Inl ModelAlreadyRegisteredError]"
proof -
  have "fst (spec_commands sample_cfg [Store (sample_model 1), Store (sample_model 1)] (catalog_of sample_empty)) =
      [Inr (Some (NodeE (sample_model 1))), Inl ModelAlreadyRegisteredError]"
    by (simp add: spec_store_def catalog_of_def find_entry_def sample_empty_def sample_model_def)
  then show ?thesis
    using registry_refines_catalog [OF sample_empty_reachable, of "[Store (sample_model 1), Store (sample_model 1)]"]
    by (simp add: sample_empty_def command_edge_ok_def)
qed

text \<open>
  The health index is coherent on every reachable registry: an entity is listed under a reference
  exactly when it is recorded as referring to it, it is listed under a namespace exactly when it is of
  that namespace and has issues, and no entity is recorded with an empty list of issues.
\<close>

theorem health_index_coherent:
  assumes "reg_reachable cfg r"
  shows "(k \<in> entity_key ` set (dict_get (references_to (reg_health r)) n []) \<longleftrightarrow>
            n \<in> set (dict_get (references_by_entity (reg_health r)) k []))
       \<and> (k \<in> entity_key ` set (dict_get (issues_by_namespace (reg_health r)) ns []) \<longleftrightarrow>
            key_namespace k = ns \<and> dict_get (health_issues_of (reg_health r)) k [] \<noteq> [])
       \<and> map_of (health_issues_of (reg_health r)) k \<noteq> Some []"
  using refs_index.reachable [OF assms] issue_index.reachable [OF assms]
  unfolding refs_coherent_def issues_coherent_def by metis

theorem health_index_coherent_witness:
  "NodeKey (NodeId ''b'' ''K'' 1) \<notin> entity_key ` set (dict_get (issues_by_namespace (reg_health sample_two)) ''a'' [])"
  using health_index_coherent [OF sample_two_reachable, of "NodeKey (NodeId ''b'' ''K'' 1)" _ "''a''"] by simp

text \<open>
  The incremental health index misses findings: after storing two versions of a model without a
  migration between them the registry reports no issue, although the linters, applied to the same
  registry, report the missing migration. Storing a version refreshes the version itself, its
  referrers and its edges, but not the preceding version, whose issue this is.
\<close>

theorem missing_migration_not_reported:
  "health_issues sample_cfg sample_two = [] \<and>
   map hi_code (health_issues sample_cfg (rebuild_health sample_cfg sample_two)) = [''migration.missing'']"
proof
  show "health_issues sample_cfg sample_two = []" by code_simp
  show "map hi_code (health_issues sample_cfg (rebuild_health sample_cfg sample_two)) = [''migration.missing'']"
    by code_simp
qed

text \<open>
  Adjacency is what its name says: for a registered source below the target, the positions differ
  by one exactly when no entry of the kind lies strictly between them.
\<close>

theorem is_adjacent_spec:
  assumes "reg_reachable cfg r" "edge_ok i" "has_entry (eid_source i) r" "eid_source i < eid_target i"
  shows "fst (is_adjacent i r) = Inr (\<forall>n \<in> set (by_versions r).
     nid_kind (node_id_of n) = eid_kind i \<longrightarrow> \<not> (eid_source i < node_id_of n \<and> node_id_of n < eid_target i))"
proof -
  have wf: "reg_wf cfg r" using assms(1) by (rule reg_reachable_wf)
  let ?xs = "filter (\<lambda>n. nid_kind (node_id_of n) = eid_kind i) (by_versions r)"
  have xs: "dict_get (by_kinds r) (eid_kind i) [] = ?xs" "asc node_id_of ?xs"
    using wf by (auto simp: reg_wf_def nodes_wf_def asc_filter)
  have "eid_source i \<in> node_id_of ` set ?xs"
    using assms(3) wf by (auto simp: has_entry_def find_entry_Some eid_kind_def intro!: rev_image_eqI)
  from adjacent_iff [OF xs(2) assms(4) this] show ?thesis by (auto simp: is_adjacent_def xs(1))
qed

theorem is_adjacent_spec_witness:
  "fst (is_adjacent (EdgeId (NodeId ''a'' ''K'' 1) (NodeId ''a'' ''K'' 2) ''default'') sample_two) = Inr True"
proof -
  have e: "has_entry (NodeId ''a'' ''K'' 1) sample_two" by code_simp
  have v: "map node_id_of (by_versions sample_two) = [NodeId ''a'' ''K'' 1, NodeId ''a'' ''K'' 2]" by code_simp
  have "\<forall>n \<in> set (by_versions sample_two). node_id_of n \<in> {NodeId ''a'' ''K'' 1, NodeId ''a'' ''K'' 2}"
    using arg_cong [OF v, of set] by auto
  then show ?thesis
    using is_adjacent_spec [OF sample_two_reachable, of "EdgeId (NodeId ''a'' ''K'' 1) (NodeId ''a'' ''K'' 2) ''default''"] e
    by (auto simp: edge_ok_def less_node_id_def identity_def)
qed

text \<open>
  \<open>is_critical_edge\<close> does not look at the edge: in a kind with more than two edges every key of
  that kind is critical, registered or not.
\<close>

theorem critical_edge_always:
  assumes "2 < length (edges (eid_kind i) r)"
  shows "fst (is_critical_edge i r) = Inr True"
  using assms by (auto simp: is_critical_edge_def Let_def edges_def)

theorem critical_edge_always_witness:
  "fst (is_critical_edge (EdgeId (NodeId ''a'' ''K'' 7) (NodeId ''a'' ''K'' 9) ''zzz'')
     (sample_empty\<lparr>migrations_of_kind := [(''K'', [IdEdge (IdNode (NodeId ''a'' ''K'' 1)) (IdNode (NodeId ''a'' ''K'' 2)) ''d'',
        IdEdge (IdNode (NodeId ''a'' ''K'' 2)) (IdNode (NodeId ''a'' ''K'' 3)) ''d'',
        IdEdge (IdNode (NodeId ''a'' ''K'' 3)) (IdNode (NodeId ''a'' ''K'' 4)) ''d''])]\<rparr>)) = Inr True"
  by (rule critical_edge_always) (simp add: edges_def dict_get_def eid_kind_def)

text \<open>
  Asking for the hooks of an edge blocks its removal: on any registry, after reading the hooks of
  an edge without hooks, the edge counts as having hooks and \<open>remove_migration\<close> refuses it.
\<close>

theorem reading_hooks_blocks_removal:
  "let r' = snd (hooks (Some (eid_of e)) r) in
   has_hooks (eid_of e) r' \<and> remove_migration cfg e r' = (Inl CatalogError, r')
   \<and> fst (hooks (Some (eid_of e)) r) = Inr (get_hooks (eid_of e) r)"
  by (simp add: hooks_def has_hooks_def get_hooks_def remove_migration_def Let_def dict_has_touch)

text \<open>
  \<open>remove_migration_range\<close> never removes a migration when all entries of the kind are models:
  consecutive versions are always adjacent and an adjacent migration is refused, so the call either
  raises or finds nothing to remove. The stored nodes, edges and hooks are unchanged.
\<close>

theorem remove_range_removes_nothing:
  assumes "reg_reachable cfg r" "\<forall>n \<in> set (kind_entries (nid_kind a) r). is_model n"
  shows "catalog_of (snd (remove_migration_range cfg a b r)) = catalog_of r"
proof -
  have wf: "reg_wf cfg r" using assms(1) by (rule reg_reachable_wf)
  let ?vs = "dict_get (by_kinds r) (nid_kind a) []"
  have vs: "kind_versions (nid_kind a) r = ?vs"
    using assms(2) by (simp add: kind_versions_def kind_entries_def)
  have a: "asc node_id_of ?vs" "\<forall>n \<in> set ?vs. nid_kind (node_id_of n) = nid_kind a"
    using wf by (auto simp: reg_wf_def nodes_wf_def asc_filter)
  obtain x r' where run: "range_keys ?vs [bisect_left node_id_of ?vs a..<bisect_left node_id_of ?vs b] r = (x, r')"
    by fastforce
  from range_keys_none [OF a refl run] run show ?thesis
    by (cases x) (auto simp: remove_migration_range_def Let_def vs bindS_def)
qed

theorem remove_range_removes_nothing_witness:
  "catalog_of (snd (remove_migration_range sample_cfg (NodeId ''a'' ''K'' 1) (NodeId ''a'' ''K'' 2) sample_two))
     = catalog_of sample_two"
proof (rule remove_range_removes_nothing [OF sample_two_reachable])
  have "list_all is_model (kind_entries ''K'' sample_two)" by code_simp
  then show "\<forall>n \<in> set (kind_entries (nid_kind (NodeId ''a'' ''K'' 1)) sample_two). is_model n"
    by (simp add: list_all_iff)
qed

theorem missing_migrations_spec_witness:
  "missing_migrations_linter sample_two (NodeE (kind_versions ''K'' sample_two ! 1)) = []"
proof -
  have l: "length (kind_versions ''K'' sample_two) = 2" by code_simp
  have "list_all (\<lambda>n. nid_namespace (node_id_of n) = ''a'') (kind_versions ''K'' sample_two)" by code_simp
  then have "\<forall>n \<in> set (kind_versions ''K'' sample_two). nid_namespace (node_id_of n) = ''a''"
    by (simp add: list_all_iff)
  then show ?thesis using missing_migrations_spec [OF sample_two_reachable, of 1 "''K''" "''a''"] l by simp
qed

end
