(* ===== verification/Traversal.thy ===== *)
theory Traversal
  imports Prelude
begin

text \<open>
  The breadth-first search that both backends run (\<open>core/graph/backend/indexed.py\<close> on node identities,
  \<open>native.py\<close> on indices), over any type of nodes and edges. The loops are \<open>while\<close> loops, so they are
  partial functions whose value \<open>None\<close> would be divergence; the locale shows that on a graph with
  finitely many targets they return, and that the path found is a shortest one.
\<close>

section \<open>The search\<close>

text \<open>
  The inner \<open>for\<close> loop over the outgoing edges of one node: \<open>Inl\<close> is the early return with the
  predecessor map, \<open>Inr\<close> the queue, the seen nodes and the predecessors after the loop.
\<close>

fun bfs_scan :: "('e \<Rightarrow> 'n) \<Rightarrow> 'n \<Rightarrow> 'e list \<Rightarrow> 'n list \<Rightarrow> 'n list \<Rightarrow> ('n \<times> 'e) list
    \<Rightarrow> ('n \<times> 'e) list + 'n list \<times> 'n list \<times> ('n \<times> 'e) list" where
  "bfs_scan tgt goal [] queue seen pm = Inr (queue, seen, pm)"
| "bfs_scan tgt goal (e # es) queue seen pm =
     (if tgt e \<in> set seen then bfs_scan tgt goal es queue seen pm
      else if tgt e = goal then Inl (AList.update (tgt e) e pm)
      else bfs_scan tgt goal es (queue @ [tgt e]) (tgt e # seen) (AList.update (tgt e) e pm))"

partial_function (option) bfs_loop :: "('n \<Rightarrow> 'e list) \<Rightarrow> ('e \<Rightarrow> 'n) \<Rightarrow> 'n \<Rightarrow> 'n list \<Rightarrow> 'n list \<Rightarrow> ('n \<times> 'e) list
    \<Rightarrow> ('n \<times> 'e) list option option" where
  "bfs_loop out tgt goal queue seen pm =
     (case queue of
        [] \<Rightarrow> Some None
      | c # q \<Rightarrow>
          (case bfs_scan tgt goal (out c) q seen pm of
             Inl pm' \<Rightarrow> Some (Some pm')
           | Inr (q', seen', pm') \<Rightarrow> bfs_loop out tgt goal q' seen' pm'))"

text \<open>\<open>_reconstruct\<close>: follow the predecessors back to the start; a missing one is a \<open>KeyError\<close>.\<close>

partial_function (option) bfs_reconstruct :: "('e \<Rightarrow> 'n) \<Rightarrow> 'n \<Rightarrow> 'n \<Rightarrow> ('n \<times> 'e) list \<Rightarrow> 'e list \<Rightarrow> 'e list res option" where
  "bfs_reconstruct src start current pm path =
     (if current = start then Some (Inr path)
      else (case map_of pm current of
              None \<Rightarrow> Some (Inl KeyError)
            | Some e \<Rightarrow> bfs_reconstruct src start (src e) pm (e # path)))"

declare bfs_loop.simps [code] bfs_reconstruct.simps [code]

definition bfs_path :: "('n \<Rightarrow> 'e list) \<Rightarrow> ('e \<Rightarrow> 'n) \<Rightarrow> ('e \<Rightarrow> 'n) \<Rightarrow> 'n \<Rightarrow> 'n \<Rightarrow> 'e list option res option" where
  "bfs_path out src tgt start goal =
     (if start = goal then Some (Inr (Some []))
      else (case bfs_loop out tgt goal [start] [start] [] of
              None \<Rightarrow> None
            | Some None \<Rightarrow> Some (Inr None)
            | Some (Some pm) \<Rightarrow>
                map_option (map_sum id Some) (bfs_reconstruct src start goal pm [])))"

section \<open>Walks\<close>

fun walk :: "('n \<Rightarrow> 'e list) \<Rightarrow> ('e \<Rightarrow> 'n) \<Rightarrow> 'n \<Rightarrow> 'e list \<Rightarrow> 'n \<Rightarrow> bool" where
  "walk out tgt s [] t \<longleftrightarrow> s = t"
| "walk out tgt s (e # es) t \<longleftrightarrow> e \<in> set (out s) \<and> walk out tgt (tgt e) es t"

lemma walk_append: "walk out tgt s (es @ fs) t \<longleftrightarrow> (\<exists>u. walk out tgt s es u \<and> walk out tgt u fs t)"
  by (induction es arbitrary: s) auto

section \<open>Correctness\<close>

locale finite_graph =
  fixes out :: "'n \<Rightarrow> 'e list" and src tgt :: "'e \<Rightarrow> 'n"
  assumes src_out: "e \<in> set (out n) \<Longrightarrow> src e = n"
    and finite_targets: "finite (\<Union>n. tgt ` set (out n))"
begin

text \<open>
  The invariant in the middle of the scan of \<open>c\<close>, with the edges \<open>es\<close> still to come: \<open>d\<close> is the distance
  at which a seen node was found. Nodes that are neither queued nor current have been scanned.
\<close>

definition bfs_inv :: "'n \<Rightarrow> 'n \<Rightarrow> ('n \<Rightarrow> nat) \<Rightarrow> 'n \<Rightarrow> 'e list \<Rightarrow> 'n list \<Rightarrow> 'n list \<Rightarrow> ('n \<times> 'e) list \<Rightarrow> bool" where
  "bfs_inv start goal d c es q seen pm \<longleftrightarrow>
     start \<in> set seen \<and> d start = 0 \<and> goal \<notin> set seen \<and> c \<in> set seen \<and> set q \<subseteq> set seen \<and> distinct seen
     \<and> set es \<subseteq> set (out c)
     \<and> (\<forall>v \<in> set seen. v \<noteq> start \<longrightarrow> (\<exists>e. map_of pm v = Some e \<and> tgt e = v \<and> src e \<in> set seen
          \<and> e \<in> set (out (src e)) \<and> d v = d (src e) + 1))
     \<and> (\<forall>v \<in> set seen - set q - {c}. \<forall>e \<in> set (out v). tgt e \<in> set seen \<and> d (tgt e) \<le> d v + 1)
     \<and> (\<forall>e \<in> set (out c) - set es. tgt e \<in> set seen \<and> d (tgt e) \<le> d c + 1)
     \<and> (\<forall>v \<in> set q. d c \<le> d v) \<and> (\<forall>v \<in> set seen. d v \<le> d c + 1) \<and> sorted (map d q)"

lemma inv_frontier:
  assumes "bfs_inv start goal d c es q seen pm" "walk out tgt start p v"
  shows "v \<in> set seen \<and> d v \<le> length p \<or> (\<exists>u \<in> insert c (set q). d u + 1 \<le> length p)"
  using assms(2)
proof (induction p arbitrary: v rule: rev_induct)
  case Nil
  then show ?case using assms(1) by (auto simp: bfs_inv_def)
next
  case (snoc e p)
  then obtain u where u: "walk out tgt start p u" "e \<in> set (out u)" "v = tgt e" by (auto simp: walk_append)
  from snoc.IH [OF u(1)] show ?case
  proof
    assume a: "u \<in> set seen \<and> d u \<le> length p"
    show ?thesis
    proof (cases "u \<in> insert c (set q)")
      case True
      then show ?thesis using a by auto
    next
      case False
      then have "tgt e \<in> set seen \<and> d (tgt e) \<le> d u + 1"
        using assms(1) a u(2) unfolding bfs_inv_def by blast
      then show ?thesis using a u(3) by auto
    qed
  next
    assume "\<exists>u \<in> insert c (set q). d u + 1 \<le> length p"
    then obtain w where "w \<in> insert c (set q)" "d w + 1 \<le> length (p @ [e])" by force
    then show ?thesis by blast
  qed
qed

lemma inv_goal_far:
  assumes "bfs_inv start goal d c es q seen pm" "walk out tgt start p goal"
  shows "d c + 1 \<le> length p"
proof -
  have "goal \<notin> set seen" using assms(1) by (simp add: bfs_inv_def)
  then obtain u where u: "u \<in> insert c (set q)" "d u + 1 \<le> length p"
    using inv_frontier [OF assms] by blast
  then have "d c \<le> d u" using assms(1) by (auto simp: bfs_inv_def)
  with u show ?thesis by simp
qed

lemma inv_add:
  assumes inv: "bfs_inv start goal d c (e # es) q seen pm" and new: "tgt e \<notin> set seen" "tgt e \<noteq> goal"
  shows "bfs_inv start goal (d(tgt e := d c + 1)) c es (q @ [tgt e]) (tgt e # seen) (AList.update (tgt e) e pm)"
proof -
  have e: "e \<in> set (out c)" "src e = c" using inv src_out [of e c] by (auto simp: bfs_inv_def)
  have c: "c \<in> set seen" "c \<noteq> tgt e" using inv new by (auto simp: bfs_inv_def)
  have ne: "v \<noteq> tgt e" if "v \<in> set seen" for v using new that by auto
  have q: "set q \<subseteq> set seen" using inv by (simp add: bfs_inv_def)
  then have sq: "map (d(tgt e := d c + 1)) q = map d q" using ne by auto
  show ?thesis
    unfolding bfs_inv_def
  proof (intro conjI)
    show "\<forall>v \<in> set (tgt e # seen). v \<noteq> start \<longrightarrow> (\<exists>x. map_of (AList.update (tgt e) e pm) v = Some x \<and> tgt x = v
        \<and> src x \<in> set (tgt e # seen) \<and> x \<in> set (out (src x))
        \<and> (d(tgt e := d c + 1)) v = (d(tgt e := d c + 1)) (src x) + 1)"
    proof (intro ballI impI)
      fix v assume v: "v \<in> set (tgt e # seen)" "v \<noteq> start"
      show "\<exists>x. map_of (AList.update (tgt e) e pm) v = Some x \<and> tgt x = v
        \<and> src x \<in> set (tgt e # seen) \<and> x \<in> set (out (src x))
        \<and> (d(tgt e := d c + 1)) v = (d(tgt e := d c + 1)) (src x) + 1"
      proof (cases "v = tgt e")
        case True
        then show ?thesis using e c by (auto simp: update_conv)
      next
        case False
        then have "v \<in> set seen" using v by simp
        then obtain x where "map_of pm v = Some x" "tgt x = v" "src x \<in> set seen" "x \<in> set (out (src x))"
          "d v = d (src x) + 1" using inv v(2) unfolding bfs_inv_def by blast
        then show ?thesis using False ne by (auto simp: update_conv)
      qed
    qed
    show "\<forall>v \<in> set (tgt e # seen) - set (q @ [tgt e]) - {c}. \<forall>x \<in> set (out v).
        tgt x \<in> set (tgt e # seen) \<and> (d(tgt e := d c + 1)) (tgt x) \<le> (d(tgt e := d c + 1)) v + 1"
    proof (intro ballI)
      fix v x assume v: "v \<in> set (tgt e # seen) - set (q @ [tgt e]) - {c}" "x \<in> set (out v)"
      then have "tgt x \<in> set seen \<and> d (tgt x) \<le> d v + 1" using inv unfolding bfs_inv_def by auto
      then show "tgt x \<in> set (tgt e # seen) \<and> (d(tgt e := d c + 1)) (tgt x) \<le> (d(tgt e := d c + 1)) v + 1"
        using v ne by auto
    qed
    show "\<forall>x \<in> set (out c) - set es. tgt x \<in> set (tgt e # seen) \<and>
        (d(tgt e := d c + 1)) (tgt x) \<le> (d(tgt e := d c + 1)) c + 1"
    proof
      fix x assume x: "x \<in> set (out c) - set es"
      show "tgt x \<in> set (tgt e # seen) \<and> (d(tgt e := d c + 1)) (tgt x) \<le> (d(tgt e := d c + 1)) c + 1"
      proof (cases "x = e")
        case False
        then have "tgt x \<in> set seen \<and> d (tgt x) \<le> d c + 1" using inv x unfolding bfs_inv_def by auto
        then show ?thesis using ne c by auto
      qed (use c in auto)
    qed
    show "\<forall>v \<in> set (q @ [tgt e]). (d(tgt e := d c + 1)) c \<le> (d(tgt e := d c + 1)) v"
      using inv c ne q unfolding bfs_inv_def by auto
    show "\<forall>v \<in> set (tgt e # seen). (d(tgt e := d c + 1)) v \<le> (d(tgt e := d c + 1)) c + 1"
      using inv c unfolding bfs_inv_def by auto
    have "\<forall>v \<in> set q. d v \<le> d c + 1" "sorted (map d q)" using inv q unfolding bfs_inv_def by auto
    then have "sorted (map d q @ [d c + 1])" by (auto simp: sorted_append)
    then show "sorted (map (d(tgt e := d c + 1)) (q @ [tgt e]))"
      unfolding map_append sq by simp
  qed (use inv new c ne in \<open>auto simp: bfs_inv_def\<close>)
qed

lemma inv_skip:
  "bfs_inv start goal d c (e # es) q seen pm \<Longrightarrow> tgt e \<in> set seen \<Longrightarrow> bfs_inv start goal d c es q seen pm"
  unfolding bfs_inv_def by auto

lemma scan_inv:
  assumes "bfs_inv start goal d c es q seen pm" "bfs_scan tgt goal es q seen pm = Inr (q', seen', pm')"
  shows "\<exists>d'. bfs_inv start goal d' c [] q' seen' pm'
    \<and> length q' + card ((\<Union>n. tgt ` set (out n)) - set seen') = length q + card ((\<Union>n. tgt ` set (out n)) - set seen)"
  using assms
proof (induction es arbitrary: d q seen pm)
  case (Cons e es)
  let ?T = "\<Union>n. tgt ` set (out n)"
  show ?case
  proof (cases "tgt e \<in> set seen")
    case True
    then show ?thesis using Cons.IH [OF inv_skip [OF Cons.prems(1) True]] Cons.prems(2) by simp
  next
    case False
    then have g: "tgt e \<noteq> goal" using Cons.prems(2) by auto
    have "tgt e \<in> ?T" using Cons.prems(1) by (auto simp: bfs_inv_def)
    then have "card (?T - set seen) = Suc (card (?T - set (tgt e # seen)))"
      using card.remove [of "?T - set seen" "tgt e"] finite_targets False by (simp add: Diff_insert [symmetric])
    moreover have "\<exists>d'. bfs_inv start goal d' c [] q' seen' pm'
      \<and> length q' + card (?T - set seen') = length (q @ [tgt e]) + card (?T - set (tgt e # seen))"
      using Cons.IH [OF inv_add [OF Cons.prems(1) False g]] Cons.prems(2) False g by simp
    ultimately show ?thesis by simp
  qed
qed auto

text \<open>Following the predecessors from a seen node gives a walk of the recorded length.\<close>

lemma reconstruct_walk:
  assumes preds: "\<forall>v \<in> V. v \<noteq> start \<longrightarrow> (\<exists>e. map_of pm v = Some e \<and> tgt e = v \<and> src e \<in> V
      \<and> e \<in> set (out (src e)) \<and> d v = d (src e) + 1)"
    and "v \<in> V" "d start = (0::nat)" "start \<in> V"
  shows "\<exists>p. bfs_reconstruct src start v pm acc = Some (Inr (p @ acc)) \<and> walk out tgt start p v \<and> length p = d v"
  using assms(2)
proof (induction "d v" arbitrary: v acc)
  case 0
  then have "v = start" using preds by force
  then show ?case using 0 by (subst bfs_reconstruct.simps) simp
next
  case (Suc n)
  then have ne: "v \<noteq> start" using assms(3) by auto
  then obtain e where e: "map_of pm v = Some e" "tgt e = v" "src e \<in> V" "e \<in> set (out (src e))"
    "d v = d (src e) + 1" using preds Suc.prems by blast
  then have "n = d (src e)" using Suc.hyps(2) by simp
  from Suc.hyps(1) [OF this e(3), of "e # acc"] obtain p where
    "bfs_reconstruct src start (src e) pm (e # acc) = Some (Inr (p @ e # acc))"
    "walk out tgt start p (src e)" "length p = d (src e)" by blast
  then show ?case using ne e
    by (intro exI [of _ "p @ [e]"]) (subst bfs_reconstruct.simps, auto simp: walk_append)
qed

lemma scan_found:
  assumes "bfs_inv start goal d c es q seen pm" "bfs_scan tgt goal es q seen pm = Inl pm'"
  shows "\<exists>p. bfs_reconstruct src start goal pm' [] = Some (Inr p) \<and> walk out tgt start p goal \<and> length p = d c + 1"
  using assms
proof (induction es arbitrary: d q seen pm)
  case (Cons e es)
  show ?case
  proof (cases "tgt e \<in> set seen")
    case True
    then show ?thesis using Cons.IH [OF inv_skip [OF Cons.prems(1) True]] Cons.prems(2) by simp
  next
    case False
    note inv = Cons.prems(1)
    show ?thesis
    proof (cases "tgt e = goal")
      case True
      then have pm': "pm' = AList.update goal e pm" using Cons.prems(2) False by simp
      have e: "e \<in> set (out c)" "src e = c" using inv src_out [of e c] by (auto simp: bfs_inv_def)
      have g: "goal \<notin> set seen" and s: "start \<in> set seen" "c \<in> set seen" "d start = 0"
        using inv by (auto simp: bfs_inv_def)
      have "\<forall>v \<in> set seen. v \<noteq> start \<longrightarrow> (\<exists>x. map_of pm' v = Some x \<and> tgt x = v \<and> src x \<in> set seen
          \<and> x \<in> set (out (src x)) \<and> d v = d (src x) + 1)"
      proof (intro ballI impI)
        fix v assume v: "v \<in> set seen" "v \<noteq> start"
        then have "v \<noteq> goal" using g by auto
        then show "\<exists>x. map_of pm' v = Some x \<and> tgt x = v \<and> src x \<in> set seen \<and> x \<in> set (out (src x)) \<and> d v = d (src x) + 1"
          using inv v unfolding bfs_inv_def pm' by (simp add: update_conv)
      qed
      from reconstruct_walk [OF this s(2,3,1), of "[e]"] obtain p where
        p: "bfs_reconstruct src start c pm' [e] = Some (Inr (p @ [e]))" "walk out tgt start p c" "length p = d c" by blast
      have "goal \<noteq> start" using g s by auto
      then have "bfs_reconstruct src start goal pm' [] = Some (Inr (p @ [e]))"
        by (subst bfs_reconstruct.simps) (simp add: pm' update_conv e p(1) [unfolded pm'])
      then show ?thesis using p e True by (intro exI [of _ "p @ [e]"]) (auto simp: walk_append)
    next
      case no: False
      then show ?thesis using Cons.IH [OF inv_add [OF inv False no]] Cons.prems(2) False inv
        by (auto simp: bfs_inv_def)
    qed
  qed
qed simp

lemma inv_next:
  assumes "bfs_inv start goal d c [] (v # q) seen pm"
  shows "bfs_inv start goal d v (out v) q seen pm"
proof -
  have le: "d c \<le> d v" "\<forall>x \<in> set seen. d x \<le> d c + 1" using assms unfolding bfs_inv_def by auto
  have "\<forall>x \<in> set seen. d x \<le> d v + 1" using le by (meson add_right_mono le_trans)
  moreover have "\<forall>x \<in> set seen - set q - {v}. \<forall>e \<in> set (out x). tgt e \<in> set seen \<and> d (tgt e) \<le> d x + 1"
  proof (intro ballI)
    fix x e assume x: "x \<in> set seen - set q - {v}" "e \<in> set (out x)"
    show "tgt e \<in> set seen \<and> d (tgt e) \<le> d x + 1"
      using assms x unfolding bfs_inv_def by (cases "x = c") auto
  qed
  moreover have "\<forall>x \<in> set q. d v \<le> d x" "sorted (map d q)" using assms unfolding bfs_inv_def by auto
  ultimately show ?thesis using assms unfolding bfs_inv_def by auto
qed

lemma inv_start: "start \<noteq> goal \<Longrightarrow> bfs_inv start goal (\<lambda>_. 0) start (out start) [] [start] []"
  unfolding bfs_inv_def by auto

lemma loop_correct:
  assumes "bfs_inv start goal d c [] q seen pm" and found: "goal \<noteq> start"
  shows "\<exists>x. bfs_loop out tgt goal q seen pm = Some x \<and>
    (case x of None \<Rightarrow> \<forall>p. \<not> walk out tgt start p goal
     | Some pm' \<Rightarrow> \<exists>p. bfs_reconstruct src start goal pm' [] = Some (Inr p) \<and> walk out tgt start p goal
         \<and> (\<forall>p'. walk out tgt start p' goal \<longrightarrow> length p \<le> length p'))"
  using assms(1)
proof (induction "length q + card ((\<Union>n. tgt ` set (out n)) - set seen)" arbitrary: d c q seen pm rule: less_induct)
  case less
  show ?case
  proof (cases q)
    case Nil
    have "\<not> walk out tgt start p goal" for p
    proof
      assume w: "walk out tgt start p goal"
      have "v \<in> set seen" if "walk out tgt start p v" for v p
        using that
      proof (induction p arbitrary: v rule: rev_induct)
        case Nil
        then show ?case using less.prems by (auto simp: bfs_inv_def)
      next
        case (snoc e p)
        then obtain u where "u \<in> set seen" "e \<in> set (out u)" "v = tgt e" by (auto simp: walk_append)
        then show ?case using less.prems \<open>q = []\<close> unfolding bfs_inv_def by (cases "u = c") auto
      qed
      then show False using w less.prems by (auto simp: bfs_inv_def)
    qed
    then show ?thesis using Nil by (subst bfs_loop.simps) auto
  next
    case (Cons v q')
    have inv: "bfs_inv start goal d v (out v) q' seen pm" using less.prems Cons by (auto intro: inv_next)
    show ?thesis
    proof (cases "bfs_scan tgt goal (out v) q' seen pm")
      case (Inl pm')
      from scan_found [OF inv Inl] inv_goal_far [OF inv] show ?thesis
        using Cons Inl by (subst bfs_loop.simps) fastforce
    next
      case (Inr y)
      obtain q2 seen2 pm2 where y: "y = (q2, seen2, pm2)" by (cases y) auto
      from scan_inv [OF inv Inr [unfolded y]] obtain d' where d': "bfs_inv start goal d' v [] q2 seen2 pm2"
        "length q2 + card ((\<Union>n. tgt ` set (out n)) - set seen2) = length q' + card ((\<Union>n. tgt ` set (out n)) - set seen)"
        by blast
      then have "length q2 + card ((\<Union>n. tgt ` set (out n)) - set seen2) < length q + card ((\<Union>n. tgt ` set (out n)) - set seen)"
        using Cons by simp
      from less.hyps [OF this d'(1)] show ?thesis using Cons Inr y by (subst bfs_loop.simps) simp
    qed
  qed
qed

theorem bfs_correct:
  "\<exists>r. bfs_path out src tgt start goal = Some (Inr r) \<and>
    (case r of None \<Rightarrow> \<forall>p. \<not> walk out tgt start p goal
     | Some p \<Rightarrow> walk out tgt start p goal \<and> (\<forall>p'. walk out tgt start p' goal \<longrightarrow> length p \<le> length p'))"
proof (cases "start = goal")
  case False
  let ?loop = "bfs_loop out tgt goal [start] [start] []"
  have "\<exists>x. ?loop = Some x \<and>
    (case x of None \<Rightarrow> \<forall>p. \<not> walk out tgt start p goal
     | Some pm' \<Rightarrow> \<exists>p. bfs_reconstruct src start goal pm' [] = Some (Inr p) \<and> walk out tgt start p goal
         \<and> (\<forall>p'. walk out tgt start p' goal \<longrightarrow> length p \<le> length p'))"
    (is "?good")
  proof -
    note inv = inv_start [OF False]
    show ?good
    proof (cases "bfs_scan tgt goal (out start) [] [start] []")
      case (Inl pm')
      from scan_found [OF inv Inl] inv_goal_far [OF inv] show ?thesis
        using Inl by (subst bfs_loop.simps) fastforce
    next
      case (Inr y)
      obtain q2 seen2 pm2 where y: "y = (q2, seen2, pm2)" by (cases y) auto
      from scan_inv [OF inv Inr [unfolded y]] obtain d' where "bfs_inv start goal d' start [] q2 seen2 pm2" by blast
      from loop_correct [OF this] show ?thesis using False Inr y by (subst bfs_loop.simps) auto
    qed
  qed
  then obtain x where x: "?loop = Some x" "case x of None \<Rightarrow> \<forall>p. \<not> walk out tgt start p goal
     | Some pm' \<Rightarrow> \<exists>p. bfs_reconstruct src start goal pm' [] = Some (Inr p) \<and> walk out tgt start p goal
         \<and> (\<forall>p'. walk out tgt start p' goal \<longrightarrow> length p \<le> length p')" by blast
  show ?thesis
  proof (cases x)
    case None
    then show ?thesis using x False by (simp add: bfs_path_def)
  next
    case (Some pm)
    then obtain p where "bfs_reconstruct src start goal pm [] = Some (Inr p)" "walk out tgt start p goal"
      "\<forall>p'. walk out tgt start p' goal \<longrightarrow> length p \<le> length p'" using x(2) by auto
    then show ?thesis using x(1) Some False by (intro exI [of _ "Some p"]) (simp add: bfs_path_def)
  qed
qed (auto simp: bfs_path_def)

end

end
