(* ===== verification/Topological.thy ===== *)
theory Topological
  imports Traversal "HOL-Library.Multiset"
begin

text \<open>
  Kahn's algorithm as \<open>IndexedBackend.topological_sort\<close> runs it (\<open>core/graph/backend/indexed.py\<close>), over
  any type of nodes and edges, and its correctness: it always returns, it raises \<open>GraphCycleError\<close>
  exactly on a graph with a cycle, and otherwise it lists every node once, sources before targets.
\<close>

section \<open>The algorithm\<close>

text \<open>\<open>indegree[edge.target.id] += 1\<close> raises when the target is not a node.\<close>

fun count_indegrees :: "('e \<Rightarrow> 'n) \<Rightarrow> 'e list \<Rightarrow> ('n \<times> int) list \<Rightarrow> ('n \<times> int) list res" where
  "count_indegrees tgt [] m = Inr m"
| "count_indegrees tgt (e # es) m =
     (case map_of m (tgt e) of
        None \<Rightarrow> Inl KeyError
      | Some i \<Rightarrow> count_indegrees tgt es (AList.update (tgt e) (i + 1) m))"

fun kahn_scan :: "('e \<Rightarrow> 'n) \<Rightarrow> 'e list \<Rightarrow> 'n list \<Rightarrow> ('n \<times> int) list \<Rightarrow> ('n list \<times> ('n \<times> int) list) res" where
  "kahn_scan tgt [] ready m = Inr (ready, m)"
| "kahn_scan tgt (e # es) ready m =
     (case map_of m (tgt e) of
        None \<Rightarrow> Inl KeyError
      | Some i \<Rightarrow> kahn_scan tgt es (if i - 1 = 0 then ready @ [tgt e] else ready) (AList.update (tgt e) (i - 1) m))"

partial_function (option) kahn_loop :: "('n \<Rightarrow> 'e list) \<Rightarrow> ('e \<Rightarrow> 'n) \<Rightarrow> 'n list \<Rightarrow> ('n \<times> int) list \<Rightarrow> 'n list \<Rightarrow> 'n list res option" where
  "kahn_loop out tgt ready m ordered =
     (case ready of
        [] \<Rightarrow> Some (Inr ordered)
      | c # rest \<Rightarrow>
          (case kahn_scan tgt (out c) rest m of
             Inl e \<Rightarrow> Some (Inl e)
           | Inr (ready', m') \<Rightarrow> kahn_loop out tgt ready' m' (ordered @ [c])))"

declare kahn_loop.simps [code]

definition topological_order :: "'n::linorder list \<Rightarrow> 'e list \<Rightarrow> ('n \<Rightarrow> 'e list) \<Rightarrow> ('e \<Rightarrow> 'n) \<Rightarrow> 'n list res option" where
  "topological_order nodes edges out tgt =
     (case count_indegrees tgt edges (dict_of (map (\<lambda>n. (n, 0)) nodes)) of
        Inl e \<Rightarrow> Some (Inl e)
      | Inr m \<Rightarrow>
          map_option (\<lambda>r. bindR r (\<lambda>ordered. if length ordered \<noteq> length m then Inl GraphCycleError else Inr ordered))
            (kahn_loop out tgt (filter (\<lambda>n. map_of m n = Some 0) (sort (map fst m))) m []))"

section \<open>Correctness\<close>

definition topo_sorted :: "'e set \<Rightarrow> ('e \<Rightarrow> 'n) \<Rightarrow> ('e \<Rightarrow> 'n) \<Rightarrow> 'n list \<Rightarrow> bool" where
  "topo_sorted E src tgt xs \<longleftrightarrow> (\<forall>e \<in> E. tgt e \<in> set xs \<longrightarrow> (\<exists>ys zs. xs = ys @ tgt e # zs \<and> src e \<in> set ys))"

definition into :: "('e \<Rightarrow> 'n) \<Rightarrow> 'e list \<Rightarrow> 'n \<Rightarrow> int" where
  "into tgt es v = int (length (filter (\<lambda>e. tgt e = v) es))"

lemma into_simps [simp]: "into tgt [] v = 0"
  "into tgt (e # es) v = (if tgt e = v then into tgt es v + 1 else into tgt es v)"
  by (simp_all add: into_def)

lemma into_nonneg [simp]: "0 \<le> into tgt es v"
  by (simp add: into_def)

lemma into_zero: "into tgt es v = 0 \<longleftrightarrow> (\<forall>e \<in> set es. tgt e \<noteq> v)"
  by (auto simp: into_def filter_empty_conv)

lemma count_indegrees_total:
  assumes "tgt ` set es \<subseteq> fst ` set m" "dict_ok m"
  shows "\<exists>m'. count_indegrees tgt es m = Inr m' \<and> map fst m' = map fst m \<and>
     (\<forall>v. map_of m' v = map_option (\<lambda>i. i + into tgt es v) (map_of m v))"
  using assms
proof (induction es arbitrary: m)
  case Nil
  then show ?case by (simp add: option.map_ident)
next
  case (Cons e es)
  then have "map_of m (tgt e) \<noteq> None" by (auto simp: map_of_eq_None_iff)
  then obtain i where i: "map_of m (tgt e) = Some i" by blast
  let ?m = "AList.update (tgt e) (i + 1) m"
  have keys: "map fst ?m = map fst m" using i by (force simp: update_keys dest: map_of_SomeD)
  have "tgt ` set es \<subseteq> fst ` set ?m" using Cons.prems(1) arg_cong [OF keys, of set] by auto
  from Cons.IH [OF this dict_ok_update [OF Cons.prems(2)]] obtain m' where
    m': "count_indegrees tgt es ?m = Inr m'" "map fst m' = map fst ?m"
    "\<forall>v. map_of m' v = map_option (\<lambda>i. i + into tgt es v) (map_of ?m v)" by blast
  show ?case using i m' keys by (auto simp: update_conv)
qed

locale finite_dag_input =
  fixes nodes :: "'n::linorder list" and edges :: "'e list" and out :: "'n \<Rightarrow> 'e list" and src tgt :: "'e \<Rightarrow> 'n"
  assumes distinct_nodes: "distinct nodes"
    and endpoints: "e \<in> set edges \<Longrightarrow> src e \<in> set nodes \<and> tgt e \<in> set nodes"
    and out_edges: "mset (out n) = mset (filter (\<lambda>e. src e = n) edges)"
begin

text \<open>The invariant after the node \<open>c\<close> (the last of \<open>ordered\<close>) has been taken, with \<open>es\<close> of its edges to come.\<close>

definition kahn_inv :: "'e list \<Rightarrow> 'n list \<Rightarrow> ('n \<times> int) list \<Rightarrow> 'n list \<Rightarrow> bool" where
  "kahn_inv es ready m ordered \<longleftrightarrow>
     (\<forall>v \<in> set nodes. map_of m v = Some (into tgt (filter (\<lambda>e. src e \<notin> set ordered) edges) v + into tgt es v))
     \<and> (\<forall>v \<in> set nodes. map_of m v = Some 0 \<longleftrightarrow> v \<in> set ordered \<union> set ready)
     \<and> distinct (ordered @ ready) \<and> set (ordered @ ready) \<subseteq> set nodes \<and> set es \<subseteq> set edges
     \<and> topo_sorted (set edges) src tgt ordered"

lemma scan_inv:
  assumes "kahn_inv es ready m ordered"
  shows "\<exists>ready' m'. kahn_scan tgt es ready m = Inr (ready', m') \<and> kahn_inv [] ready' m' ordered"
  using assms
proof (induction es arbitrary: ready m)
  case (Cons e es)
  let ?F = "filter (\<lambda>e. src e \<notin> set ordered) edges"
  have e: "tgt e \<in> set nodes" using Cons.prems endpoints by (auto simp: kahn_inv_def)
  define i where "i = into tgt ?F (tgt e) + into tgt (e # es) (tgt e)"
  have i: "map_of m (tgt e) = Some i" "i \<ge> 1" using Cons.prems e by (auto simp: kahn_inv_def i_def)
  let ?ready = "if i - 1 = 0 then ready @ [tgt e] else ready" and ?m = "AList.update (tgt e) (i - 1) m"
  have "map_of m (tgt e) \<noteq> Some 0" using i by simp
  then have ne: "tgt e \<notin> set ordered \<union> set ready" using Cons.prems e unfolding kahn_inv_def by blast
  have "kahn_inv es ?ready ?m ordered"
    using Cons.prems e i ne unfolding kahn_inv_def i_def by (auto simp: update_conv)
  from Cons.IH [OF this] show ?case using i by simp
qed simp

lemma take_next:
  assumes "kahn_inv [] (c # ready) m ordered"
  shows "kahn_inv (out c) ready m (ordered @ [c])"
proof -
  let ?F = "\<lambda>xs. filter (\<lambda>e. src e \<notin> set xs) edges"
  have c: "c \<notin> set ordered" "c \<in> set nodes" "map_of m c = Some 0"
    using assms unfolding kahn_inv_def by auto
  have split: "into tgt (?F ordered) v = into tgt (?F (ordered @ [c])) v + into tgt (out c) v" for v
  proof -
    have "mset (filter (\<lambda>e. tgt e = v) (out c)) = mset (filter (\<lambda>e. tgt e = v \<and> src e = c) edges)"
      by (simp add: out_edges filter_filter_mset conj_commute)
    then have o: "length (filter (\<lambda>e. tgt e = v) (out c)) = length (filter (\<lambda>e. tgt e = v \<and> src e = c) edges)"
      by (rule mset_eq_length)
    have "length (filter (\<lambda>e. tgt e = v \<and> src e \<notin> set ordered) xs) =
        length (filter (\<lambda>e. tgt e = v \<and> src e \<notin> set (ordered @ [c])) xs) + length (filter (\<lambda>e. tgt e = v \<and> src e = c) xs)" for xs
      using c(1) by (induction xs) auto
    then show ?thesis using o by (simp add: into_def filter_filter conj_commute)
  qed
  have no_in: "src e \<in> set ordered" if "e \<in> set edges" "tgt e = c" for e
  proof -
    have "into tgt (?F ordered) c = 0" using assms c unfolding kahn_inv_def by auto
    then show ?thesis using that by (auto simp: into_zero)
  qed
  have "topo_sorted (set edges) src tgt (ordered @ [c])"
    unfolding topo_sorted_def
  proof (intro ballI impI)
    fix e assume e: "e \<in> set edges" "tgt e \<in> set (ordered @ [c])"
    show "\<exists>ys zs. ordered @ [c] = ys @ tgt e # zs \<and> src e \<in> set ys"
    proof (cases "tgt e \<in> set ordered")
      case True
      then obtain ys zs where "ordered = ys @ tgt e # zs" "src e \<in> set ys"
        using assms e(1) unfolding kahn_inv_def topo_sorted_def by blast
      then show ?thesis by (metis append_Cons append_assoc)
    next
      case False
      then show ?thesis using e no_in by auto
    qed
  qed
  moreover have "set (out c) \<subseteq> set edges"
    using out_edges [of c] by (metis filter_is_subset mset_eq_setD)
  ultimately show ?thesis using assms split unfolding kahn_inv_def by auto
qed

lemma loop_inv:
  assumes "kahn_inv [] ready m ordered"
  shows "\<exists>ordered' m'. kahn_loop out tgt ready m ordered = Some (Inr ordered') \<and> kahn_inv [] [] m' ordered'"
  using assms
proof (induction "length nodes - length ordered" arbitrary: ready m ordered rule: less_induct)
  case less
  show ?case
  proof (cases ready)
    case Nil
    then show ?thesis using less.prems by (subst kahn_loop.simps) auto
  next
    case (Cons c rest)
    from less.prems have inv: "kahn_inv (out c) rest m (ordered @ [c])" unfolding Cons by (rule take_next)
    then obtain ready' m' where s: "kahn_scan tgt (out c) rest m = Inr (ready', m')" "kahn_inv [] ready' m' (ordered @ [c])"
      using scan_inv by blast
    have "length (ordered @ [c]) \<le> length nodes"
      using inv distinct_nodes unfolding kahn_inv_def
      by (metis card_mono distinct_append distinct_card finite_set le_sup_iff set_append)
    then have "length nodes - length (ordered @ [c]) < length nodes - length ordered" by simp
    from less.hyps [OF this s(2)] show ?thesis using Cons s(1) by (subst kahn_loop.simps) simp
  qed
qed

lemma start_inv:
  assumes "count_indegrees tgt edges (dict_of (map (\<lambda>n. (n, 0)) nodes)) = Inr m"
    "\<forall>v \<in> set nodes. map_of m v = Some (into tgt edges v)" "map fst m = nodes"
  shows "kahn_inv [] (filter (\<lambda>n. map_of m n = Some 0) (sort (map fst m))) m []"
  using assms distinct_nodes by (auto simp: kahn_inv_def topo_sorted_def)

lemma topo_acyclic:
  assumes "distinct xs" "set edges' \<subseteq> set edges" "topo_sorted (set edges) src tgt xs" "set xs = set nodes"
  shows "acyclic ((\<lambda>e. (src e, tgt e)) ` set edges)"
proof -
  let ?pos = "\<lambda>v. length (takeWhile (\<lambda>x. x \<noteq> v) xs)"
  have "?pos (src e) < ?pos (tgt e)" if e: "e \<in> set edges" for e
  proof -
    have "tgt e \<in> set xs" using e endpoints assms(4) by auto
    then obtain ys zs where x: "xs = ys @ tgt e # zs" "src e \<in> set ys"
      using assms(3) e unfolding topo_sorted_def by blast
    then have "tgt e \<notin> set ys" using assms(1) by auto
    then have "takeWhile (\<lambda>x. x \<noteq> tgt e) xs = ys" using x(1) by (auto simp: takeWhile_append)
    moreover obtain us vs where u: "ys = us @ src e # vs" "src e \<notin> set us" using x(2) by (meson split_list_first)
    then have "takeWhile (\<lambda>x. x \<noteq> src e) xs = us" using x(1) by (auto simp: takeWhile_append)
    ultimately show ?thesis using u by simp
  qed
  then have "(\<lambda>e. (src e, tgt e)) ` set edges \<subseteq> measure ?pos" by auto
  then have "wf ((\<lambda>e. (src e, tgt e)) ` set edges)" by (rule wf_subset [OF wf_measure])
  then show ?thesis by (rule wf_acyclic)
qed

lemma stuck_cyclic:
  assumes "kahn_inv [] [] m ordered" "set ordered \<noteq> set nodes"
  shows "\<not> acyclic ((\<lambda>e. (src e, tgt e)) ` set edges)"
proof
  let ?R = "(\<lambda>e. (src e, tgt e)) ` set edges" and ?S = "set nodes - set ordered"
  assume "acyclic ?R"
  then have wf: "wf ?R" by (intro finite_acyclic_wf) auto
  have "set ordered \<subseteq> set nodes" using assms(1) by (simp add: kahn_inv_def)
  then obtain x where "x \<in> ?S" using assms(2) by blast
  then obtain z where z: "z \<in> ?S" "\<And>y. (y, z) \<in> ?R \<Longrightarrow> y \<notin> ?S" using wfE_min [OF wf] by metis
  have "map_of m z \<noteq> Some 0" using assms(1) z(1) unfolding kahn_inv_def by auto
  then have "into tgt (filter (\<lambda>e. src e \<notin> set ordered) edges) z \<noteq> 0" using assms(1) z(1) unfolding kahn_inv_def by auto
  then obtain e where e: "e \<in> set edges" "src e \<notin> set ordered" "tgt e = z" by (auto simp: into_zero)
  then have "(src e, z) \<in> ?R" "src e \<in> ?S" using endpoints by auto
  then show False using z(2) by blast
qed

lemma dict_of_nodes: "dict_of (map (\<lambda>n. (n, 0)) nodes) = map (\<lambda>n. (n, 0 :: int)) nodes"
proof -
  have "fold (\<lambda>(k, v). AList.update k v) (map (\<lambda>n. (n, 0 :: int)) xs) m = m @ map (\<lambda>n. (n, 0)) xs"
    if "distinct xs" "set xs \<inter> fst ` set m = {}" for xs m
    using that
  proof (induction xs arbitrary: m)
    case (Cons x xs)
    have "AList.update x 0 m = m @ [(x, 0)]" using Cons.prems by (induction m) auto
    then show ?case using Cons by auto
  qed simp
  from this [OF distinct_nodes, of "[]"] show ?thesis by (simp add: dict_of_def)
qed

theorem order_correct:
  "\<exists>r. topological_order nodes edges out tgt = Some r \<and>
    (case r of
       Inr xs \<Rightarrow> distinct xs \<and> set xs = set nodes \<and> topo_sorted (set edges) src tgt xs
     | Inl err \<Rightarrow> err = GraphCycleError)
    \<and> (okR r \<longleftrightarrow> acyclic ((\<lambda>e. (src e, tgt e)) ` set edges))"
proof -
  let ?m0 = "map (\<lambda>n. (n, 0 :: int)) nodes"
  have keys: "map fst ?m0 = nodes" by (simp add: comp_def)
  have "tgt ` set edges \<subseteq> fst ` set ?m0" using endpoints by (auto simp: image_image)
  moreover have "dict_ok ?m0" using distinct_nodes keys by (simp add: dict_ok_def)
  ultimately obtain m where m: "count_indegrees tgt edges ?m0 = Inr m" "map fst m = nodes"
    "\<forall>v. map_of m v = map_option (\<lambda>i. i + into tgt edges v) (map_of ?m0 v)"
    using count_indegrees_total [of tgt edges ?m0] keys by auto
  have "map_of ?m0 v = Some 0" if "v \<in> set nodes" for v using that by (auto simp: map_of_map_restrict restrict_map_def)
  then have v: "\<forall>v \<in> set nodes. map_of m v = Some (into tgt edges v)" using m(3) by simp
  from loop_inv [OF start_inv [OF _ v m(2)]] obtain ordered m' where
    l: "kahn_loop out tgt (filter (\<lambda>n. map_of m n = Some 0) (sort (map fst m))) m [] = Some (Inr ordered)"
    "kahn_inv [] [] m' ordered"
    using m(1) dict_of_nodes by auto
  have len: "length m = length nodes" using arg_cong [OF m(2), of length] by simp
  have o: "distinct ordered" "set ordered \<subseteq> set nodes" "topo_sorted (set edges) src tgt ordered"
    using l(2) by (auto simp: kahn_inv_def)
  have eq: "length ordered = length nodes \<longleftrightarrow> set ordered = set nodes"
    using o distinct_nodes by (metis card_subset_eq distinct_card finite_set)
  have r: "topological_order nodes edges out tgt = Some (if length ordered \<noteq> length nodes then Inl GraphCycleError else Inr ordered)"
    using m(1) l(1) len by (simp add: topological_order_def dict_of_nodes)
  show ?thesis
  proof (cases "set ordered = set nodes")
    case True
    then show ?thesis using r eq o topo_acyclic [OF o(1) subset_refl o(3)] by simp
  next
    case False
    then show ?thesis using r eq stuck_cyclic [OF l(2)] by simp
  qed
qed

end

end
