(* ===== verification/Backend.thy ===== *)
theory Backend
  imports Health Topological
begin

text \<open>
  The graph backends of \<open>core/graph/backend\<close>: the indexed backend with every index that \<open>build\<close> derives,
  its queries and traversals, and the traversal of the native backends over a graph library, which is
  a parameter. A frozenset of edges is a list keyed by identity.
\<close>

section \<open>State\<close>

record 'v backend =
  bk_name :: string
  bk_namespace :: string
  bk_nodes :: "'v node list"
  bk_edges :: "'v edge list"
  nodes_by_id :: "('v node_id, 'v node) dict"
  edges_by_id :: "('v edge_id, 'v edge) dict"
  nodes_by_kind :: "(string, 'v node list) dict"
  edges_by_kind :: "(string, 'v edge list) dict"
  edges_by_endpoint :: "('v node_id, 'v edge list) dict"
  outgoing_by_node :: "('v node_id, 'v edge list) dict"
  incoming_by_node :: "('v node_id, 'v edge list) dict"
  edges_by_pair :: "('v node_id \<times> 'v node_id, 'v edge list) dict"
  node_positions :: "('v node_id, nat) dict"
  edge_ids :: "'v edge_id list"
  models_by_ref :: "(string \<times> string, 'v node) dict"
  executable_edge_ids :: "'v edge_id list"
  edge_metadata :: "('v edge_id, (string \<times> string) list) dict"
  bk_digests :: "(string, 'v edge_id) dict"
  node_digests :: "('v node_id, string) dict"
  edge_digests :: "('v edge_id, string) dict"
  hook_specs :: "('v edge_id, hook_ref list) dict"

text \<open>The keyword arguments of \<open>build\<close> that are stored as given.\<close>

record 'v backend_args =
  ba_name :: string
  ba_namespace :: string
  ba_models_by_ref :: "(string \<times> string, 'v node) dict option"
  ba_executable_edge_ids :: "'v edge_id list"
  ba_edge_metadata :: "('v edge_id, (string \<times> string) list) dict"
  ba_digests :: "(string, 'v edge_id) dict"
  ba_node_digests :: "('v node_id, string) dict"
  ba_edge_digests :: "('v edge_id, string) dict"
  ba_hook_specs :: "('v edge_id, hook_ref list) dict"

section \<open>Building\<close>

text \<open>\<open>d.setdefault(k, []).append(x)\<close> and \<open>d.setdefault(k, set()).add(x)\<close>.\<close>

definition append_to :: "'k \<Rightarrow> 'a \<Rightarrow> ('k, 'a list) dict \<Rightarrow> ('k, 'a list) dict" where
  "append_to k x m = AList.update k (dict_get m k [] @ [x]) m"

definition add_edge_to :: "'v node_id \<Rightarrow> 'v edge \<Rightarrow> ('v node_id, 'v edge list) dict \<Rightarrow> ('v node_id, 'v edge list) dict" where
  "add_edge_to k e m = AList.update k (pset_add eid_of e (dict_get m k [])) m"

definition group_by :: "('a \<Rightarrow> 'k) \<Rightarrow> 'a list \<Rightarrow> ('k, 'a list) dict" where
  "group_by f xs = fold (\<lambda>x. append_to (f x) x) xs []"

text \<open>The position of an entry is the length of its kind's bucket when it is appended.\<close>

definition positions_of :: "'v node list \<Rightarrow> ('v node_id, nat) dict" where
  "positions_of ns = snd (fold (\<lambda>n (buckets, pos).
     (append_to (nid_kind (node_id_of n)) n buckets,
      AList.update (node_id_of n) (length (dict_get buckets (nid_kind (node_id_of n)) [])) pos)) ns ([], []))"

definition build_backend :: "'v::linorder node list \<Rightarrow> 'v edge list \<Rightarrow> 'v backend_args \<Rightarrow> 'v backend" where
  "build_backend nds edgs args =
     (let ns = sort_key node_id_of nds; es = sort_key eid_of edgs;
          namespace = (if ba_namespace args \<noteq> [] then ba_namespace args
                       else if ns \<noteq> [] then nid_namespace (node_id_of (hd ns))
                       else if es \<noteq> [] then eid_namespace (eid_of (hd es)) else []) in
      \<lparr>bk_name = (if ba_name args \<noteq> [] then ba_name args else namespace),
       bk_namespace = namespace,
       bk_nodes = ns,
       bk_edges = es,
       nodes_by_id = dict_of (map (\<lambda>n. (node_id_of n, n)) ns),
       edges_by_id = dict_of (map (\<lambda>e. (eid_of e, e)) es),
       nodes_by_kind = group_by (nid_kind \<circ> node_id_of) ns,
       edges_by_kind = group_by edge_kind es,
       edges_by_endpoint = fold (\<lambda>e m. add_edge_to (eid_target (eid_of e)) e (add_edge_to (eid_source (eid_of e)) e m)) es [],
       outgoing_by_node = fold (\<lambda>e. add_edge_to (eid_source (eid_of e)) e) es [],
       incoming_by_node = fold (\<lambda>e. add_edge_to (eid_target (eid_of e)) e) es [],
       edges_by_pair = group_by (eid_key \<circ> eid_of) es,
       node_positions = positions_of ns,
       edge_ids = pset_update id [] (map eid_of es),
       models_by_ref = (case ba_models_by_ref args of
           Some m \<Rightarrow> m
         | None \<Rightarrow> fold by_models_add ns []),
       executable_edge_ids = ba_executable_edge_ids args,
       edge_metadata = ba_edge_metadata args,
       bk_digests = ba_digests args,
       node_digests = ba_node_digests args,
       edge_digests = ba_edge_digests args,
       hook_specs = sort_key fst (ba_hook_specs args)\<rparr>)"

section \<open>Queries\<close>

definition edge_key :: "'v edge_id \<Rightarrow> 'v backend \<Rightarrow> 'v edge res" where
  "edge_key i bk = (case map_of (edges_by_id bk) i of None \<Rightarrow> Inl KeyError | Some e \<Rightarrow> Inr e)"

definition executable_edges :: "'v backend \<Rightarrow> 'v edge list res" where
  "executable_edges bk = mapR (\<lambda>i. edge_key i bk) (executable_edge_ids bk)"

definition bk_is_executable :: "'v edge_id \<Rightarrow> 'v backend \<Rightarrow> bool" where
  "bk_is_executable i bk \<longleftrightarrow> i \<in> set (executable_edge_ids bk)"

definition nodes_for_kind :: "string \<Rightarrow> 'v backend \<Rightarrow> 'v node list" where
  "nodes_for_kind k bk = dict_get (nodes_by_kind bk) k []"

definition edges_for_kind :: "string \<Rightarrow> 'v backend \<Rightarrow> 'v edge list" where
  "edges_for_kind k bk = dict_get (edges_by_kind bk) k []"

definition bk_incident :: "'v node_id \<Rightarrow> 'v backend \<Rightarrow> 'v edge list" where
  "bk_incident n bk = dict_get (edges_by_endpoint bk) n []"

definition outgoing :: "'v node_id \<Rightarrow> 'v backend \<Rightarrow> 'v edge list" where
  "outgoing n bk = dict_get (outgoing_by_node bk) n []"

definition incoming :: "'v node_id \<Rightarrow> 'v backend \<Rightarrow> 'v edge list" where
  "incoming n bk = dict_get (incoming_by_node bk) n []"

definition edges_between :: "'v node_id \<Rightarrow> 'v node_id \<Rightarrow> 'v backend \<Rightarrow> 'v edge list" where
  "edges_between s t bk = dict_get (edges_by_pair bk) (s, t) []"

definition has_node :: "'v node_id \<Rightarrow> 'v backend \<Rightarrow> bool" where
  "has_node n bk \<longleftrightarrow> dict_has (nodes_by_id bk) n"

definition bk_has_edge :: "'v edge_id \<Rightarrow> 'v backend \<Rightarrow> bool" where
  "bk_has_edge i bk \<longleftrightarrow> i \<in> set (edge_ids bk)"

datatype direction = DirOut | DirIn | DirBoth

definition neighbors :: "'v::linorder node_id \<Rightarrow> direction \<Rightarrow> 'v backend \<Rightarrow> 'v node_id list" where
  "neighbors n dir bk = sort (remdups
     ((if dir \<in> {DirOut, DirBoth} then map (eid_target \<circ> eid_of) (outgoing n bk) else []) @
      (if dir \<in> {DirIn, DirBoth} then map (eid_source \<circ> eid_of) (incoming n bk) else [])))"

definition index_of :: "'v node_id \<Rightarrow> 'v backend \<Rightarrow> nat option" where
  "index_of n bk = map_of (node_positions bk) n"

section \<open>Traversal\<close>

text \<open>The predicate is \<open>None\<close> when every edge may be used.\<close>

definition passes :: "('v edge \<Rightarrow> bool) option \<Rightarrow> 'v edge \<Rightarrow> bool" where
  "passes predicate e = (case predicate of None \<Rightarrow> True | Some p \<Rightarrow> p e)"

definition usable :: "('v::linorder edge \<Rightarrow> bool) option \<Rightarrow> 'v backend \<Rightarrow> 'v node_id \<Rightarrow> 'v edge list" where
  "usable predicate bk n = filter (passes predicate) (sort_key eid_of (outgoing n bk))"

definition shortest_path :: "'v::linorder node_id \<Rightarrow> 'v node_id \<Rightarrow> ('v edge \<Rightarrow> bool) option \<Rightarrow> 'v backend
    \<Rightarrow> 'v edge list option res option" where
  "shortest_path source target predicate bk =
     bfs_path (usable predicate bk) (eid_source \<circ> eid_of) (eid_target \<circ> eid_of) source target"

definition topological_sort :: "'v::linorder backend \<Rightarrow> 'v node_id list res option" where
  "topological_sort bk =
     topological_order (map node_id_of (bk_nodes bk)) (bk_edges bk)
       (\<lambda>n. sort_key eid_of (outgoing n bk)) (eid_target \<circ> eid_of)"

text \<open>
  A native backend numbers the nodes by their position in the indexed backend, hands the pairs of indices
  to a graph library and asks it for adjacent indices. The library is a parameter: \<open>lib_out pairs i\<close> and
  \<open>lib_in pairs i\<close> are its out- and in-neighbours of a vertex, \<open>lib_topo n pairs\<close> its topological order.
\<close>

record 'v native_backend =
  delegate :: "'v backend"
  native_pairs :: "(nat \<times> nat) list"
  native_index :: "('v node_id, nat) dict"
  id_by_index :: "'v node_id list"

definition index_at :: "('v node_id, nat) dict \<Rightarrow> 'v node_id \<Rightarrow> nat res" where
  "index_at ix i = (case map_of ix i of None \<Rightarrow> Inl KeyError | Some n \<Rightarrow> Inr n)"

definition native_build :: "'v::linorder node list \<Rightarrow> 'v edge list \<Rightarrow> 'v backend_args \<Rightarrow> 'v native_backend res" where
  "native_build nds edgs args =
     (let d = build_backend nds edgs args;
          ids = map node_id_of (bk_nodes d);
          ix = dict_of (zip ids [0..<length ids]) in
      bindR (mapR (\<lambda>e. bindR (index_at ix (eid_source (eid_of e))) (\<lambda>s.
                        bindR (index_at ix (eid_target (eid_of e))) (\<lambda>t. Inr (s, t)))) (bk_edges d)) (\<lambda>ps.
      Inr \<lparr>delegate = d, native_pairs = ps, native_index = ix, id_by_index = ids\<rparr>))"

definition native_neighbors :: "((nat \<times> nat) list \<Rightarrow> nat \<Rightarrow> nat list) \<Rightarrow> ((nat \<times> nat) list \<Rightarrow> nat \<Rightarrow> nat list)
    \<Rightarrow> 'v::linorder node_id \<Rightarrow> direction \<Rightarrow> 'v native_backend \<Rightarrow> 'v node_id list res" where
  "native_neighbors lib_out lib_in n dir nb =
     bindR (index_at (native_index nb) n) (\<lambda>i.
       Inr (sort (map (nth (id_by_index nb)) (remdups
         ((if dir \<in> {DirOut, DirBoth} then lib_out (native_pairs nb) i else []) @
          (if dir \<in> {DirIn, DirBoth} then lib_in (native_pairs nb) i else []))))))"

text \<open>The edge between two indices is the first one that the predicate accepts.\<close>

definition native_edge_to :: "('v edge \<Rightarrow> bool) option \<Rightarrow> 'v native_backend \<Rightarrow> nat \<Rightarrow> nat \<Rightarrow> 'v edge option" where
  "native_edge_to predicate nb s t =
     List.find (passes predicate) (edges_between (id_by_index nb ! s) (id_by_index nb ! t) (delegate nb))"

definition native_usable :: "((nat \<times> nat) list \<Rightarrow> nat \<Rightarrow> nat list) \<Rightarrow> ('v edge \<Rightarrow> bool) option \<Rightarrow> 'v native_backend
    \<Rightarrow> nat \<Rightarrow> 'v edge list" where
  "native_usable lib_out predicate nb c =
     List.map_filter (native_edge_to predicate nb c) (sort (lib_out (native_pairs nb) c))"

definition native_pos :: "'v native_backend \<Rightarrow> 'v node_id \<Rightarrow> nat" where
  "native_pos nb i = the (map_of (native_index nb) i)"

definition native_shortest_path :: "((nat \<times> nat) list \<Rightarrow> nat \<Rightarrow> nat list) \<Rightarrow> 'v node_id \<Rightarrow> 'v node_id
    \<Rightarrow> ('v edge \<Rightarrow> bool) option \<Rightarrow> 'v native_backend \<Rightarrow> 'v edge list option res option" where
  "native_shortest_path lib_out source target predicate nb =
     (case bindR (index_at (native_index nb) source) (\<lambda>s. bindR (index_at (native_index nb) target) (\<lambda>t. Inr (s, t))) of
        Inl e \<Rightarrow> Some (Inl e)
      | Inr (s, t) \<Rightarrow>
          bfs_path (native_usable lib_out predicate nb)
            (native_pos nb \<circ> eid_source \<circ> eid_of) (native_pos nb \<circ> eid_target \<circ> eid_of) s t)"

definition native_topological_sort :: "(nat \<Rightarrow> (nat \<times> nat) list \<Rightarrow> nat list res) \<Rightarrow> 'v native_backend \<Rightarrow> 'v node_id list res" where
  "native_topological_sort lib_topo nb =
     bindR (lib_topo (length (id_by_index nb)) (native_pairs nb)) (\<lambda>is. Inr (map (nth (id_by_index nb)) is))"

section \<open>The indexes agree with the lists\<close>

lemma dict_get_append_to [dict_simps]:
  "dict_get (append_to k x m) k' [] = (if k' = k then dict_get m k [] @ [x] else dict_get m k' [])"
  by (simp add: append_to_def dict_get_update)

lemma dict_get_group_by: "dict_get (group_by f xs) k [] = filter (\<lambda>x. f x = k) xs"
proof -
  have "dict_get (fold (\<lambda>x. append_to (f x) x) xs m) k [] = dict_get m k [] @ filter (\<lambda>x. f x = k) xs" for m
    by (induction xs arbitrary: m) (auto simp: dict_simps)
  then show ?thesis by (simp add: group_by_def)
qed

lemma dict_get_add_edge_to [dict_simps]:
  "dict_get (add_edge_to k e m) k' [] = (if k' = k then pset_add eid_of e (dict_get m k []) else dict_get m k' [])"
  by (simp add: add_edge_to_def dict_get_update)

lemma dict_get_fold_add:
  assumes "distinct (map eid_of es)" "\<forall>e \<in> set es. eid_of e \<notin> eid_of ` set (dict_get m n [])"
  shows "dict_get (fold (\<lambda>e. add_edge_to (f e) e) es m) n [] = dict_get m n [] @ filter (\<lambda>e. f e = n) es"
  using assms
proof (induction es arbitrary: m)
  case (Cons e es)
  let ?m = "add_edge_to (f e) e m"
  have "dict_get ?m n [] = dict_get m n [] @ (if f e = n then [e] else [])"
    using Cons.prems by (auto simp: dict_simps pset_add_def)
  moreover have "\<forall>x \<in> set es. eid_of x \<notin> eid_of ` set (dict_get ?m n [])"
    using Cons.prems calculation by (auto simp: image_iff)
  ultimately show ?case using Cons.IH [of ?m] Cons.prems by auto
qed simp

lemma dict_get_fold_add2:
  assumes "distinct (map eid_of es)" "\<forall>e \<in> set es. eid_of e \<notin> eid_of ` set (dict_get m n [])"
  shows "dict_get (fold (\<lambda>e m. add_edge_to (g e) e (add_edge_to (f e) e m)) es m) n [] =
     dict_get m n [] @ filter (\<lambda>e. f e = n \<or> g e = n) es"
  using assms
proof (induction es arbitrary: m)
  case (Cons e es)
  let ?m = "add_edge_to (g e) e (add_edge_to (f e) e m)"
  have "dict_get ?m n [] = dict_get m n [] @ (if f e = n \<or> g e = n then [e] else [])"
    using Cons.prems by (auto simp: dict_simps pset_add_def)
  moreover have "\<forall>x \<in> set es. eid_of x \<notin> eid_of ` set (dict_get ?m n [])"
    using Cons.prems calculation by (auto simp: image_iff)
  ultimately show ?case using Cons.IH [of ?m] Cons.prems by auto
qed simp

lemma dict_of_distinct: "distinct (map fst kvs) \<Longrightarrow> dict_of kvs = kvs"
proof -
  have "fold (\<lambda>(k, v). AList.update k v) xs m = m @ xs"
    if "distinct (map fst xs)" "fst ` set xs \<inter> fst ` set m = {}" for xs m
    using that
  proof (induction xs arbitrary: m)
    case (Cons x xs)
    have "AList.update (fst x) (snd x) m = m @ [(fst x, snd x)]" using Cons.prems by (induction m) auto
    then show ?case using Cons by (auto simp: case_prod_unfold)
  qed simp
  from this [of kvs "[]"] show "distinct (map fst kvs) \<Longrightarrow> dict_of kvs = kvs" by (simp add: dict_of_def)
qed

definition backend_wf :: "'v::linorder backend \<Rightarrow> bool" where
  "backend_wf bk \<longleftrightarrow> asc node_id_of (bk_nodes bk) \<and> asc eid_of (bk_edges bk)
     \<and> (\<forall>i. map_of (nodes_by_id bk) i = sorted_find node_id_of (bk_nodes bk) i)
     \<and> (\<forall>i. map_of (edges_by_id bk) i = sorted_find eid_of (bk_edges bk) i)
     \<and> (\<forall>k. nodes_for_kind k bk = filter (\<lambda>n. nid_kind (node_id_of n) = k) (bk_nodes bk))
     \<and> (\<forall>k. edges_for_kind k bk = filter (\<lambda>e. edge_kind e = k) (bk_edges bk))
     \<and> (\<forall>n. outgoing n bk = filter (\<lambda>e. eid_source (eid_of e) = n) (bk_edges bk))
     \<and> (\<forall>n. incoming n bk = filter (\<lambda>e. eid_target (eid_of e) = n) (bk_edges bk))
     \<and> (\<forall>n. bk_incident n bk = filter (incident n) (bk_edges bk))
     \<and> (\<forall>s t. edges_between s t bk = filter (\<lambda>e. eid_key (eid_of e) = (s, t)) (bk_edges bk))
     \<and> (\<forall>i. bk_has_edge i bk \<longleftrightarrow> i \<in> eid_of ` set (bk_edges bk))"

lemma backend_wfD:
  assumes "backend_wf bk"
  shows "asc node_id_of (bk_nodes bk)" "asc eid_of (bk_edges bk)"
    "map_of (nodes_by_id bk) i = sorted_find node_id_of (bk_nodes bk) i"
    "map_of (edges_by_id bk) j = sorted_find eid_of (bk_edges bk) j"
    "nodes_for_kind k bk = filter (\<lambda>n. nid_kind (node_id_of n) = k) (bk_nodes bk)"
    "edges_for_kind k bk = filter (\<lambda>e. edge_kind e = k) (bk_edges bk)"
    "bk_incident n bk = filter (incident n) (bk_edges bk)"
    "edges_between s t bk = filter (\<lambda>e. eid_key (eid_of e) = (s, t)) (bk_edges bk)"
    "bk_has_edge j bk \<longleftrightarrow> j \<in> eid_of ` set (bk_edges bk)"
  using assms by (simp_all only: backend_wf_def)

lemma asc_sort_key: "distinct (map f xs) \<Longrightarrow> asc f (sort_key f xs)"
proof -
  assume "distinct (map f xs)"
  then have "distinct (map f (sort_key f xs))" by (metis mset_eq_imp_distinct_iff mset_map mset_sort)
  then show ?thesis by (simp add: asc_def strict_sorted_iff)
qed

lemma map_of_ids:
  assumes "asc f xs"
  shows "map_of (map (\<lambda>x. (f x, x)) xs) k = sorted_find f xs k"
proof (cases "sorted_find f xs k")
  case None
  then have "k \<notin> f ` set xs" by (simp add: sorted_find_None [OF assms])
  then have "map_of (map (\<lambda>x. (f x, x)) xs) k = None" by (simp add: map_of_eq_None_iff image_image)
  then show ?thesis using None by simp
next
  case (Some x)
  have "distinct (map fst (map (\<lambda>x. (f x, x)) xs))" using assms by (auto simp: asc_def comp_def strict_sorted_iff)
  moreover have "(k, x) \<in> set (map (\<lambda>x. (f x, x)) xs)" using Some by (auto simp: sorted_find_Some [OF assms])
  ultimately have "map_of (map (\<lambda>x. (f x, x)) xs) k = Some x" by (simp only: map_of_eq_Some_iff)
  then show ?thesis using Some by simp
qed

lemma build_backend_wf:
  assumes "distinct (map node_id_of nds)" "distinct (map eid_of edgs)"
  shows "backend_wf (build_backend nds edgs args)"
proof -
  let ?ns = "sort_key node_id_of nds" and ?es = "sort_key eid_of edgs"
  have a: "asc node_id_of ?ns" "asc eid_of ?es" using assms by (auto intro: asc_sort_key)
  have d: "distinct (map fst (map (\<lambda>n. (node_id_of n, n)) ?ns))" "distinct (map fst (map (\<lambda>e. (eid_of e, e)) ?es))"
    "distinct (map eid_of ?es)"
    using a by (auto simp: asc_def comp_def strict_sorted_iff)
  have inc: "incident n = (\<lambda>e. eid_source (eid_of e) = n \<or> eid_target (eid_of e) = n)" for n :: "'a node_id"
    by (auto simp: incident_def)
  note add = dict_get_fold_add [OF d(3), of "[]", simplified]
  note add2 = dict_get_fold_add2 [OF d(3), of "[]", simplified]
  show ?thesis
    unfolding backend_wf_def
    using a dict_of_distinct [OF d(1)] dict_of_distinct [OF d(2)] pset_update_ids [of id "[]" "map eid_of ?es"]
    by (simp add: build_backend_def Let_def nodes_for_kind_def edges_for_kind_def outgoing_def incoming_def
        bk_incident_def edges_between_def bk_has_edge_def dict_get_group_by add add2 map_of_ids inc comp_def)
qed


section \<open>Traversals of a built backend\<close>

text \<open>A chain of edges of \<open>E\<close> from one node to another.\<close>

fun chained :: "'v edge set \<Rightarrow> 'v node_id \<Rightarrow> 'v edge list \<Rightarrow> 'v node_id \<Rightarrow> bool" where
  "chained E s [] t \<longleftrightarrow> s = t"
| "chained E s (e # es) t \<longleftrightarrow> e \<in> E \<and> eid_source (eid_of e) = s \<and> chained E (eid_target (eid_of e)) es t"

definition allowed :: "('v edge \<Rightarrow> bool) option \<Rightarrow> 'v edge list \<Rightarrow> 'v edge set" where
  "allowed predicate es = {e \<in> set es. passes predicate e}"

lemma fold_add_members:
  "e \<in> set (dict_get (fold (\<lambda>e. add_edge_to (f e) e) es m) n []) \<Longrightarrow>
     e \<in> set (dict_get m n []) \<or> f e = n \<and> e \<in> set es"
proof (induction es arbitrary: m)
  case (Cons x es)
  then have "e \<in> set (dict_get (add_edge_to (f x) x m) n []) \<or> f e = n \<and> e \<in> set es" by simp
  then show ?case by (auto simp: dict_simps pset_add_def split: if_splits)
qed simp

lemma outgoing_build:
  "e \<in> set (outgoing n (build_backend nds edgs args)) \<Longrightarrow> eid_source (eid_of e) = n \<and> e \<in> set edgs"
  by (auto simp: outgoing_def build_backend_def Let_def dest: fold_add_members simp del: eid_of_simps)

interpretation indexed: finite_graph
  "usable predicate (build_backend nds edgs args)" "eid_source \<circ> eid_of" "eid_target \<circ> eid_of"
  for predicate and nds :: "'v::linorder node list" and edgs args
proof
  fix e n assume "e \<in> set (usable predicate (build_backend nds edgs args) n)"
  then show "(eid_source \<circ> eid_of) e = n" by (auto simp: usable_def dest: outgoing_build simp del: eid_of_simps)
next
  have "(\<Union>n. (eid_target \<circ> eid_of) ` set (usable predicate (build_backend nds edgs args) n))
      \<subseteq> (eid_target \<circ> eid_of) ` set edgs"
    by (auto simp: usable_def dest: outgoing_build simp del: eid_of_simps)
  then show "finite (\<Union>n. (eid_target \<circ> eid_of) ` set (usable predicate (build_backend nds edgs args) n))"
    by (rule finite_subset) simp
qed

lemma backend_wf_outgoing:
  "backend_wf bk \<Longrightarrow> outgoing n bk = filter (\<lambda>e. eid_source (eid_of e) = n) (bk_edges bk)"
  by (simp add: backend_wf_def del: eid_of_simps)

lemma walk_usable:
  assumes "backend_wf bk"
  shows "walk (usable predicate bk) (eid_target \<circ> eid_of) s p t \<longleftrightarrow> chained (allowed predicate (bk_edges bk)) s p t"
  by (induction p arbitrary: s)
    (auto simp: usable_def allowed_def backend_wf_outgoing [OF assms] simp del: eid_of_simps)

lemma build_backend_lists [simp]:
  "bk_nodes (build_backend nds edgs args) = sort_key node_id_of nds"
  "bk_edges (build_backend nds edgs args) = sort_key eid_of edgs"
  by (simp_all add: build_backend_def Let_def)

lemma allowed_sort [simp]: "allowed predicate (sort_key f es) = allowed predicate es"
  by (simp add: allowed_def)

lemma shortest_path_ok:
  assumes "distinct (map node_id_of nds)" "distinct (map eid_of edgs)"
  shows "\<exists>r. shortest_path source target predicate (build_backend nds edgs args) = Some (Inr r) \<and>
    (case r of
       None \<Rightarrow> \<forall>p. \<not> chained (allowed predicate edgs) source p target
     | Some p \<Rightarrow> chained (allowed predicate edgs) source p target \<and>
         (\<forall>p'. chained (allowed predicate edgs) source p' target \<longrightarrow> length p \<le> length p'))"
  using indexed.bfs_correct [of predicate nds edgs args source target]
  unfolding walk_usable [OF build_backend_wf [OF assms]] build_backend_lists allowed_sort shortest_path_def .

text \<open>
  C3. The shortest path of the indexed backend: on distinct nodes and edges it always returns; it returns
  \<open>None\<close> exactly when no chain of edges that pass the predicate leads from the source to the target, and
  otherwise a chain of such edges from the source to the target that no other chain undercuts.
\<close>

theorem shortest_path_correct:
  assumes "distinct (map node_id_of nds)" "distinct (map eid_of edgs)"
  shows "\<exists>r. shortest_path source target predicate (build_backend nds edgs args) = Some (Inr r) \<and>
    (case r of
       None \<Rightarrow> \<forall>p. \<not> chained (allowed predicate edgs) source p target
     | Some p \<Rightarrow> chained (allowed predicate edgs) source p target \<and>
         (\<forall>p'. chained (allowed predicate edgs) source p' target \<longrightarrow> length p \<le> length p'))"
  by (rule shortest_path_ok [OF assms])

text \<open>A backend whose edges join nodes of the backend; the traversals that number the nodes need it.\<close>

definition backend_closed :: "'v backend \<Rightarrow> bool" where
  "backend_closed bk \<longleftrightarrow> (\<forall>e \<in> set (bk_edges bk).
     eid_source (eid_of e) \<in> node_id_of ` set (bk_nodes bk) \<and> eid_target (eid_of e) \<in> node_id_of ` set (bk_nodes bk))"

typedef (overloaded) 'v closed_backend = "{bk :: 'v::linorder backend. backend_wf bk \<and> backend_closed bk}"
  morphisms the_backend Closed
proof -
  have "backend_wf (build_backend [] [] args)" "backend_closed (build_backend [] [] args)" for args :: "'v backend_args"
    by (rule build_backend_wf) (simp_all add: backend_closed_def)
  then show ?thesis by blast
qed

interpretation kahn: finite_dag_input
  "map node_id_of (bk_nodes (the_backend cb))" "bk_edges (the_backend cb)"
  "\<lambda>n. sort_key eid_of (outgoing n (the_backend cb))" "eid_source \<circ> eid_of" "eid_target \<circ> eid_of"
  for cb :: "'v::linorder closed_backend"
proof
  have wf: "backend_wf (the_backend cb)" "backend_closed (the_backend cb)" using the_backend [of cb] by auto
  then show "distinct (map node_id_of (bk_nodes (the_backend cb)))" by (simp add: backend_wf_def asc_distinct_keys)
  show "(eid_source \<circ> eid_of) e \<in> set (map node_id_of (bk_nodes (the_backend cb))) \<and>
      (eid_target \<circ> eid_of) e \<in> set (map node_id_of (bk_nodes (the_backend cb)))"
    if "e \<in> set (bk_edges (the_backend cb))" for e
    using wf(2) that by (simp add: backend_closed_def del: eid_of_simps)
  show "mset (sort_key eid_of (outgoing n (the_backend cb))) =
      mset (filter (\<lambda>e. (eid_source \<circ> eid_of) e = n) (bk_edges (the_backend cb)))" for n
    by (simp add: backend_wf_outgoing [OF wf(1)] del: eid_of_simps)
qed

definition edge_relation :: "'v edge list \<Rightarrow> ('v node_id \<times> 'v node_id) set" where
  "edge_relation es = (\<lambda>e. (eid_source (eid_of e), eid_target (eid_of e))) ` set es"

text \<open>
  C4. The topological order of the indexed backend, on distinct nodes and edges that join them: it always
  returns; the order lists every node once with the source of an edge before its target, and
  \<open>GraphCycleError\<close> is raised exactly when the edges form a cycle.
\<close>

theorem topological_sort_correct:
  assumes "distinct (map node_id_of nds)" "distinct (map eid_of edgs)"
    and "\<forall>e \<in> set edgs. eid_source (eid_of e) \<in> node_id_of ` set nds \<and> eid_target (eid_of e) \<in> node_id_of ` set nds"
  shows "\<exists>r. topological_sort (build_backend nds edgs args) = Some r \<and>
    (case r of
       Inr ids \<Rightarrow> distinct ids \<and> set ids = node_id_of ` set nds \<and>
         topo_sorted (set edgs) (eid_source \<circ> eid_of) (eid_target \<circ> eid_of) ids
     | Inl err \<Rightarrow> err = GraphCycleError)
    \<and> (okR r \<longleftrightarrow> acyclic (edge_relation edgs))"
proof -
  let ?bk = "build_backend nds edgs args"
  have "?bk \<in> {bk. backend_wf bk \<and> backend_closed bk}"
    using build_backend_wf [OF assms(1,2)] assms(3) by (simp add: backend_closed_def del: eid_of_simps)
  then have eq: "the_backend (Closed ?bk) = ?bk" by (rule Closed_inverse)
  show ?thesis
    using kahn.order_correct [of "Closed ?bk"]
    unfolding eq topological_sort_def edge_relation_def comp_def build_backend_lists set_map set_sort .
qed


section \<open>Native backends conform to the indexed one\<close>

text \<open>What the graph library documents: the neighbours of a vertex are the ends of its edges.\<close>

definition library_out :: "((nat \<times> nat) list \<Rightarrow> nat \<Rightarrow> nat list) \<Rightarrow> bool" where
  "library_out lib_out \<longleftrightarrow> (\<forall>ps i. set (lib_out ps i) = {t. (i, t) \<in> set ps})"

text \<open>The indexes of a native backend over distinct nodes and edges that join them.\<close>

definition native_wf :: "'v::linorder native_backend \<Rightarrow> bool" where
  "native_wf nb \<longleftrightarrow> backend_wf (delegate nb) \<and> id_by_index nb = map node_id_of (bk_nodes (delegate nb))
     \<and> distinct (id_by_index nb)
     \<and> (\<forall>i n. map_of (native_index nb) i = Some n \<longleftrightarrow> n < length (id_by_index nb) \<and> id_by_index nb ! n = i)
     \<and> (\<forall>s t. (s, t) \<in> set (native_pairs nb) \<longleftrightarrow> s < length (id_by_index nb) \<and> t < length (id_by_index nb)
          \<and> (\<exists>e \<in> set (bk_edges (delegate nb)). eid_key (eid_of e) = (id_by_index nb ! s, id_by_index nb ! t)))"

lemma map_of_positions:
  assumes "distinct ids"
  shows "map_of (dict_of (zip ids [0..<length ids])) i = Some n \<longleftrightarrow> n < length ids \<and> ids ! n = i"
proof -
  have d: "distinct (map fst (zip ids [0..<length ids]))" using assms by simp
  show ?thesis unfolding dict_of_distinct [OF d] map_of_eq_Some_iff [OF d] by (auto simp: in_set_zip)
qed

text \<open>The pairs of a list of edges, under any numbering of the nodes in which they all have a place.\<close>

definition pair_of :: "('v node_id, nat) dict \<Rightarrow> 'v edge \<Rightarrow> nat \<times> nat" where
  "pair_of ix e = (the (map_of ix (eid_source (eid_of e))), the (map_of ix (eid_target (eid_of e))))"

lemma pairs_total:
  assumes "\<forall>e \<in> set es. \<exists>s t. map_of ix (eid_source (eid_of e)) = Some s \<and> map_of ix (eid_target (eid_of e)) = Some t"
  shows "mapR (\<lambda>e. bindR (index_at ix (eid_source (eid_of e))) (\<lambda>s.
      bindR (index_at ix (eid_target (eid_of e))) (\<lambda>t. Inr (s, t)))) es = Inr (map (pair_of ix) es)"
  using assms by (intro mapR_Inr_map) (auto simp: index_at_def pair_of_def simp del: eid_of_simps)

lemma pairs_of_edges:
  assumes "\<forall>e \<in> set es. \<exists>s t. map_of ix (eid_source (eid_of e)) = Some s \<and> map_of ix (eid_target (eid_of e)) = Some t"
    and ix: "\<And>i n. map_of ix i = Some n \<longleftrightarrow> n < length ids \<and> ids ! n = i"
  shows "(s, t) \<in> pair_of ix ` set es \<longleftrightarrow> s < length ids \<and> t < length ids
      \<and> (\<exists>e \<in> set es. eid_key (eid_of e) = (ids ! s, ids ! t))" (is "?l \<longleftrightarrow> ?r")
proof
  assume ?l
  then obtain e where e: "e \<in> set es" "(s, t) = pair_of ix e" by blast
  with assms(1) have "map_of ix (eid_source (eid_of e)) = Some s" "map_of ix (eid_target (eid_of e)) = Some t"
    by (auto simp: pair_of_def simp del: eid_of_simps)
  then show ?r using e(1) unfolding ix eid_key_def by metis
next
  assume r: ?r
  then obtain e where e: "e \<in> set es" "eid_source (eid_of e) = ids ! s" "eid_target (eid_of e) = ids ! t"
    unfolding eid_key_def by blast
  then have "map_of ix (eid_source (eid_of e)) = Some s" "map_of ix (eid_target (eid_of e)) = Some t"
    using r unfolding ix by metis+
  then have "(s, t) = pair_of ix e" by (simp add: pair_of_def del: eid_of_simps)
  then show ?l using e(1) by blast
qed

lemma native_build_wf:
  assumes "distinct (map node_id_of nds)" "distinct (map eid_of edgs)"
    and "\<forall>e \<in> set edgs. eid_source (eid_of e) \<in> node_id_of ` set nds \<and> eid_target (eid_of e) \<in> node_id_of ` set nds"
  shows "\<exists>nb. native_build nds edgs args = Inr nb \<and> native_wf nb \<and> delegate nb = build_backend nds edgs args"
proof -
  let ?d = "build_backend nds edgs args" and ?ids = "map node_id_of (sort_key node_id_of nds)"
  let ?ix = "dict_of (zip ?ids [0..<length ?ids])" and ?es = "sort_key eid_of edgs"
  have wf: "backend_wf ?d" by (rule build_backend_wf [OF assms(1,2)])
  then have d: "distinct ?ids" by (simp add: backend_wf_def asc_distinct_keys)
  note ix = map_of_positions [OF d]
  have "\<exists>n. map_of ?ix i = Some n" if "i \<in> set ?ids" for i
    unfolding ix using that by (simp only: in_set_conv_nth)
  then have at: "\<forall>e \<in> set ?es. \<exists>s t. map_of ?ix (eid_source (eid_of e)) = Some s \<and> map_of ?ix (eid_target (eid_of e)) = Some t"
    using assms(3) by (simp del: eid_of_simps)
  let ?nb = "\<lparr>delegate = ?d, native_pairs = map (pair_of ?ix) ?es, native_index = ?ix, id_by_index = ?ids\<rparr>"
  have "native_build nds edgs args = Inr ?nb"
    unfolding native_build_def Let_def build_backend_lists pairs_total [OF at] by simp
  moreover have "native_wf ?nb"
    unfolding native_wf_def native_backend.simps set_map using wf d ix pairs_of_edges [OF at ix] by simp
  ultimately show ?thesis by auto
qed

text \<open>A native walk is a chain, and every chain has a native walk of the same length.\<close>

lemma native_edges_between:
  "native_wf nb \<Longrightarrow> edges_between s t (delegate nb) = filter (\<lambda>e. eid_key (eid_of e) = (s, t)) (bk_edges (delegate nb))"
  unfolding native_wf_def by (blast dest: backend_wfD(8))

lemma native_usable_sound:
  assumes "native_wf nb" "library_out lib_out" "e \<in> set (native_usable lib_out predicate nb c)"
  shows "c < length (id_by_index nb) \<and> e \<in> allowed predicate (bk_edges (delegate nb))
    \<and> eid_source (eid_of e) = id_by_index nb ! c \<and> native_pos nb (eid_source (eid_of e)) = c
    \<and> (\<exists>t < length (id_by_index nb). eid_target (eid_of e) = id_by_index nb ! t \<and> native_pos nb (eid_target (eid_of e)) = t)"
proof -
  obtain t where t: "t \<in> set (lib_out (native_pairs nb) c)" "native_edge_to predicate nb c t = Some e"
    using assms(3) by (auto simp: native_usable_def List.map_filter_def)
  then have "(c, t) \<in> set (native_pairs nb)" using assms(2) by (simp add: library_out_def)
  then have r: "c < length (id_by_index nb)" "t < length (id_by_index nb)" using assms(1) by (auto simp: native_wf_def)
  have e: "e \<in> set (edges_between (id_by_index nb ! c) (id_by_index nb ! t) (delegate nb))" "passes predicate e"
    using t(2) by (auto simp: native_edge_to_def find_Some_iff)
  have "map_of (native_index nb) (id_by_index nb ! c) = Some c" "map_of (native_index nb) (id_by_index nb ! t) = Some t"
    using assms(1) r by (auto simp: native_wf_def)
  then show ?thesis using e r
    by (auto simp: native_edges_between [OF assms(1)] allowed_def eid_key_def native_pos_def simp del: eid_of_simps)
qed

lemma native_usable_complete:
  assumes "native_wf nb" "library_out lib_out" "e \<in> allowed predicate (bk_edges (delegate nb))"
    and "eid_key (eid_of e) = (id_by_index nb ! s, id_by_index nb ! t)" "s < length (id_by_index nb)" "t < length (id_by_index nb)"
  shows "\<exists>e' \<in> set (native_usable lib_out predicate nb s). native_pos nb (eid_target (eid_of e')) = t"
proof -
  have "(s, t) \<in> set (native_pairs nb)" using assms by (auto simp: native_wf_def allowed_def)
  then have t: "t \<in> set (sort (lib_out (native_pairs nb) s))" using assms(2) by (simp add: library_out_def)
  have "native_edge_to predicate nb s t \<noteq> None"
    using assms(3,4) by (auto simp: native_edge_to_def find_None_iff native_edges_between [OF assms(1)] allowed_def)
  then obtain e' where e': "native_edge_to predicate nb s t = Some e'" by blast
  then have "e' \<in> set (edges_between (id_by_index nb ! s) (id_by_index nb ! t) (delegate nb))"
    by (auto simp: native_edge_to_def find_Some_iff)
  then have "eid_target (eid_of e') = id_by_index nb ! t"
    by (simp add: native_edges_between [OF assms(1)] eid_key_def del: eid_of_simps)
  moreover have "map_of (native_index nb) (id_by_index nb ! t) = Some t" using assms(1,6) by (auto simp: native_wf_def)
  ultimately have "native_pos nb (eid_target (eid_of e')) = t" by (simp add: native_pos_def del: eid_of_simps)
  moreover have "e' \<in> set (native_usable lib_out predicate nb s)"
    using t e' by (force simp: native_usable_def List.map_filter_def)
  ultimately show ?thesis by blast
qed

lemma native_walk_chained:
  assumes "native_wf nb" "library_out lib_out"
    and "walk (native_usable lib_out predicate nb) (native_pos nb \<circ> eid_target \<circ> eid_of) s p t"
  shows "chained (allowed predicate (bk_edges (delegate nb))) (id_by_index nb ! s) p (id_by_index nb ! t)"
  using assms(3)
proof (induction p arbitrary: s)
  case (Cons e p)
  then have e: "e \<in> set (native_usable lib_out predicate nb s)" by simp
  from native_usable_sound [OF assms(1,2) e] Cons.prems Cons.IH [of "native_pos nb (eid_target (eid_of e))"]
  show ?case by (auto simp del: eid_of_simps)
qed simp

lemma chained_native_walk:
  assumes "native_wf nb" "library_out lib_out" "backend_closed (delegate nb)" "s < length (id_by_index nb)"
    and "chained (allowed predicate (bk_edges (delegate nb))) (id_by_index nb ! s) p (id_by_index nb ! t)"
    and "t < length (id_by_index nb)"
  shows "\<exists>p'. length p' = length p \<and> walk (native_usable lib_out predicate nb) (native_pos nb \<circ> eid_target \<circ> eid_of) s p' t"
  using assms(4,5)
proof (induction p arbitrary: s)
  case Nil
  moreover have "distinct (id_by_index nb)" using assms(1) unfolding native_wf_def by blast
  ultimately have "s = t" using assms(6) nth_eq_iff_index_eq by auto
  then show ?case by (intro exI [of _ "[]"]) simp
next
  case (Cons e p)
  then have e: "e \<in> allowed predicate (bk_edges (delegate nb))" "eid_source (eid_of e) = id_by_index nb ! s"
    "chained (allowed predicate (bk_edges (delegate nb))) (eid_target (eid_of e)) p (id_by_index nb ! t)"
    by (auto simp del: eid_of_simps)
  then have "eid_target (eid_of e) \<in> set (id_by_index nb)"
    using assms(1,3) by (simp add: backend_closed_def allowed_def native_wf_def del: eid_of_simps)
  then obtain u where u: "u < length (id_by_index nb)" "id_by_index nb ! u = eid_target (eid_of e)"
    by (metis in_set_conv_nth)
  have k: "eid_key (eid_of e) = (id_by_index nb ! s, id_by_index nb ! u)" using e u by (simp add: eid_key_def del: eid_of_simps)
  from native_usable_complete [OF assms(1,2) e(1) k Cons.prems(1) u(1)] obtain e' where
    e': "e' \<in> set (native_usable lib_out predicate nb s)" "native_pos nb (eid_target (eid_of e')) = u" by blast
  from Cons.IH [OF u(1) e(3) [folded u(2)]] obtain p' where "length p' = length p"
    "walk (native_usable lib_out predicate nb) (native_pos nb \<circ> eid_target \<circ> eid_of) u p' t" by blast
  then show ?case using e' by (intro exI [of _ "e' # p'"]) (simp add: comp_def del: eid_of_simps)
qed

lemma native_finite_graph:
  assumes "native_wf nb" "library_out lib_out"
  shows "finite_graph (native_usable lib_out predicate nb) (native_pos nb \<circ> eid_source \<circ> eid_of) (native_pos nb \<circ> eid_target \<circ> eid_of)"
proof
  fix e n assume "e \<in> set (native_usable lib_out predicate nb n)"
  from native_usable_sound [OF assms this] show "(native_pos nb \<circ> eid_source \<circ> eid_of) e = n" unfolding comp_def by blast
next
  have "(\<Union>n. (native_pos nb \<circ> eid_target \<circ> eid_of) ` set (native_usable lib_out predicate nb n)) \<subseteq> {..<length (id_by_index nb)}"
    using native_usable_sound [OF assms] by (auto simp del: eid_of_simps)
  then show "finite (\<Union>n. (native_pos nb \<circ> eid_target \<circ> eid_of) ` set (native_usable lib_out predicate nb n))"
    by (rule finite_subset) simp
qed

text \<open>
  C5. A native backend conforms to the indexed one: over a graph library whose out-neighbours of a vertex
  are the ends of its edges, on distinct nodes and edges that join them, the native backend can be built,
  and between two of its nodes its shortest path returns \<open>None\<close> exactly when the indexed backend does,
  and otherwise a chain of edges that pass the predicate, as long as the one of the indexed backend.
\<close>

theorem native_conforms:
  assumes "library_out lib_out"
    and "distinct (map node_id_of nds)" "distinct (map eid_of edgs)"
    and "\<forall>e \<in> set edgs. eid_source (eid_of e) \<in> node_id_of ` set nds \<and> eid_target (eid_of e) \<in> node_id_of ` set nds"
    and "source \<in> node_id_of ` set nds" "target \<in> node_id_of ` set nds"
  shows "\<exists>nb r r'. native_build nds edgs args = Inr nb
    \<and> native_shortest_path lib_out source target predicate nb = Some (Inr r)
    \<and> shortest_path source target predicate (build_backend nds edgs args) = Some (Inr r')
    \<and> rel_option (\<lambda>p p'. chained (allowed predicate edgs) source p target \<and> length p = length p') r r'"
proof -
  let ?C = "\<lambda>p. chained (allowed predicate edgs) source p target"
  from native_build_wf [OF assms(2-4)] obtain nb where nb: "native_build nds edgs args = Inr nb" "native_wf nb"
    "delegate nb = build_backend nds edgs args" by blast
  have closed: "backend_closed (delegate nb)" using nb(3) assms(4) by (simp add: backend_closed_def del: eid_of_simps)
  have ids: "set (id_by_index nb) = node_id_of ` set nds" using nb(2,3) by (simp add: native_wf_def)
  then obtain s t where st: "s < length (id_by_index nb)" "id_by_index nb ! s = source"
    "t < length (id_by_index nb)" "id_by_index nb ! t = target" using assms(5,6) by (metis in_set_conv_nth)
  then have "map_of (native_index nb) source = Some s" "map_of (native_index nb) target = Some t"
    using nb(2) by (auto simp: native_wf_def)
  then have sp: "native_shortest_path lib_out source target predicate nb = bfs_path (native_usable lib_out predicate nb)
      (native_pos nb \<circ> eid_source \<circ> eid_of) (native_pos nb \<circ> eid_target \<circ> eid_of) s t"
    by (simp add: native_shortest_path_def index_at_def)
  let ?W = "\<lambda>p. walk (native_usable lib_out predicate nb) (native_pos nb \<circ> eid_target \<circ> eid_of) s p t"
  from finite_graph.bfs_correct [OF native_finite_graph [OF nb(2) assms(1)], of predicate s t, folded sp] obtain r where
    r: "native_shortest_path lib_out source target predicate nb = Some (Inr r)"
    "case r of None \<Rightarrow> \<forall>p. \<not> ?W p | Some p \<Rightarrow> ?W p \<and> (\<forall>p'. ?W p' \<longrightarrow> length p \<le> length p')" by blast
  have "allowed predicate (bk_edges (delegate nb)) = allowed predicate edgs" using nb(3) by simp
  then have wc: "?W p \<Longrightarrow> ?C p" and cw: "?C p \<Longrightarrow> \<exists>p'. length p' = length p \<and> ?W p'" for p
    using native_walk_chained [OF nb(2) assms(1)] chained_native_walk [OF nb(2) assms(1) closed st(1) _ st(3)] st by metis+
  from shortest_path_ok [OF assms(2,3)] obtain r' where
    r': "shortest_path source target predicate (build_backend nds edgs args) = Some (Inr r')"
    "case r' of None \<Rightarrow> \<forall>p. \<not> ?C p | Some p \<Rightarrow> ?C p \<and> (\<forall>p'. ?C p' \<longrightarrow> length p \<le> length p')" by blast
  have "rel_option (\<lambda>p p'. ?C p \<and> length p = length p') r r'"
  proof (cases r)
    case None
    then have "\<forall>p. \<not> ?C p" using r(2) cw by auto
    then show ?thesis using None r'(2) by (cases r') auto
  next
    case (Some p)
    then have p: "?C p" "\<forall>p'. ?W p' \<longrightarrow> length p \<le> length p'" using r(2) wc by auto
    then obtain p' where p': "r' = Some p'" using r'(2) by (cases r') auto
    then have "?C p'" "length p' \<le> length p" using r'(2) p by auto
    then show ?thesis using Some p p' cw [of p'] by auto
  qed
  then show ?thesis using nb(1) r(1) r'(1) by blast
qed

section \<open>A concrete backend\<close>

definition sample_node :: "nat \<Rightarrow> nat node" where
  "sample_node v = IdNode (NodeId ''a'' ''K'' v)"

definition sample_edge :: "nat \<Rightarrow> nat \<Rightarrow> nat edge" where
  "sample_edge s t = IdEdge (sample_node s) (sample_node t) ''default''"

definition sample_args :: "nat backend_args" where
  "sample_args = \<lparr>ba_name = [], ba_namespace = [], ba_models_by_ref = None, ba_executable_edge_ids = [],
     ba_edge_metadata = [], ba_digests = [], ba_node_digests = [], ba_edge_digests = [], ba_hook_specs = []\<rparr>"

definition sample_nodes :: "nat node list" where "sample_nodes = [sample_node 1, sample_node 2, sample_node 3]"

definition sample_edges :: "nat edge list" where "sample_edges = [sample_edge 1 2, sample_edge 2 3, sample_edge 1 3]"

definition sample_lib_out :: "(nat \<times> nat) list \<Rightarrow> nat \<Rightarrow> nat list" where
  "sample_lib_out ps i = map snd (filter (\<lambda>p. fst p = i) ps)"

lemma sample_graph:
  "distinct (map node_id_of sample_nodes)" "distinct (map eid_of sample_edges)"
  "\<forall>e \<in> set sample_edges. eid_source (eid_of e) \<in> node_id_of ` set sample_nodes \<and> eid_target (eid_of e) \<in> node_id_of ` set sample_nodes"
  by (simp_all add: sample_nodes_def sample_edges_def sample_node_def sample_edge_def eid_of_def)

lemma sample_library: "library_out sample_lib_out"
  by (force simp: library_out_def sample_lib_out_def)

theorem shortest_path_correct_witness:
  "\<exists>p. shortest_path (NodeId ''a'' ''K'' 1) (NodeId ''a'' ''K'' 3) None (build_backend sample_nodes sample_edges sample_args)
     = Some (Inr (Some p)) \<and> length p \<le> 1"
proof -
  let ?chain = "\<lambda>p. chained (allowed None sample_edges) (NodeId ''a'' ''K'' 1) p (NodeId ''a'' ''K'' 3)"
  obtain r where r: "shortest_path (NodeId ''a'' ''K'' 1) (NodeId ''a'' ''K'' 3) None (build_backend sample_nodes sample_edges sample_args)
      = Some (Inr r)" "case r of None \<Rightarrow> \<forall>p. \<not> ?chain p | Some p \<Rightarrow> ?chain p \<and> (\<forall>p'. ?chain p' \<longrightarrow> length p \<le> length p')"
    using shortest_path_correct [OF sample_graph(1,2), of "NodeId ''a'' ''K'' 1" "NodeId ''a'' ''K'' 3" None sample_args] by blast
  have c: "?chain [sample_edge 1 3]"
    by (simp add: allowed_def passes_def sample_edges_def sample_edge_def sample_node_def eid_of_def)
  have "r \<noteq> None"
  proof
    assume "r = None"
    with r(2) have "\<forall>p. \<not> ?chain p" by (simp only: option.case simp_thms)
    with c show False by blast
  qed
  then obtain p where "r = Some p" by blast
  moreover from this have "length p \<le> length [sample_edge 1 3]" using r(2) c by (simp only: option.case simp_thms)
  ultimately show ?thesis using r(1) by simp
qed

theorem topological_sort_correct_witness:
  "\<exists>ids. topological_sort (build_backend sample_nodes sample_edges sample_args) = Some (Inr ids)
     \<and> set ids = node_id_of ` set sample_nodes"
proof -
  have "(edge_relation sample_edges)\<inverse> \<subseteq> measure (\<lambda>i. 3 - nid_version i)"
    by (auto simp: edge_relation_def sample_edges_def sample_edge_def sample_node_def eid_of_def)
  then have "acyclic (edge_relation sample_edges)"
    by (meson acyclic_subset acyclic_converse wf_acyclic wf_measure)
  then show ?thesis
    using topological_sort_correct [OF sample_graph, of sample_args] by (auto simp: okR_def split: sum.splits)
qed

theorem native_conforms_witness:
  "\<exists>nb p. native_build sample_nodes sample_edges sample_args = Inr nb \<and>
     native_shortest_path sample_lib_out (NodeId ''a'' ''K'' 2) (NodeId ''a'' ''K'' 1) None nb = Some (Inr p)"
proof -
  have "NodeId ''a'' ''K'' 2 \<in> node_id_of ` set sample_nodes" "NodeId ''a'' ''K'' 1 \<in> node_id_of ` set sample_nodes"
    by (simp_all add: sample_nodes_def sample_node_def)
  from native_conforms [OF sample_library sample_graph this, of sample_args None] show ?thesis by blast
qed

end
