(* ===== verification/Revision.thy ===== *)
theory Revision
  imports Backend
begin

text \<open>
  Revisions of a locked graph, from \<open>core/graph/revision.py\<close>: the version strategy of a graph, the
  digest of its content, the digest of the manifest, and the revision derived from a backend. The hash
  algorithm, \<open>str\<close> of a version and \<open>type\<close> of a version are arguments.
\<close>

section \<open>Version strategy\<close>

text \<open>
  A value type is its qualified name; \<open>is_semver\<close> tells the subclasses of \<open>semver.Version\<close> and
  \<open>is_date\<close> the type \<open>pendulum.Date\<close>.
\<close>

record value_types =
  is_semver :: "string \<Rightarrow> bool"
  is_date :: "string \<Rightarrow> bool"

definition strategy_name :: "value_types \<Rightarrow> string \<Rightarrow> string" where
  "strategy_name ty t = (if is_semver ty t then ''semver'' else if is_date ty t then ''date'' else t)"

definition version_strategy :: "value_types \<Rightarrow> ('v \<Rightarrow> string) \<Rightarrow> 'v list \<Rightarrow> string res" where
  "version_strategy ty type_of vs =
     (case remdups (map type_of vs) of
        [] \<Rightarrow> Inr ''none''
      | [t] \<Rightarrow> Inr (strategy_name ty t)
      | _ \<Rightarrow> Inl VersionStrategyMismatchError)"

section \<open>Revisions\<close>

record revision =
  rev_strategy :: string
  rev_versions :: "(string, string list) dict"
  rev_content_digest :: string

definition dict_eq :: "('k, 'a) dict \<Rightarrow> ('k, 'a) dict \<Rightarrow> bool" where
  "dict_eq a b \<longleftrightarrow> set (map fst a) = set (map fst b) \<and> (\<forall>k \<in> set (map fst a). map_of a k = map_of b k)"

definition revision_eq :: "revision \<Rightarrow> revision \<Rightarrow> bool" where
  "revision_eq a b \<longleftrightarrow> rev_strategy a = rev_strategy b \<and> dict_eq (rev_versions a) (rev_versions b)
     \<and> rev_content_digest a = rev_content_digest b"

definition same_content :: "revision \<Rightarrow> revision \<Rightarrow> bool" where
  "same_content a b \<longleftrightarrow> rev_content_digest a = rev_content_digest b"

definition revision_to_canonical :: "revision \<Rightarrow> json" where
  "revision_to_canonical r = JObj
     [(''version_strategy'', JStr (rev_strategy r)),
      (''versions'', JObj (map (\<lambda>(k, vs). (k, JList (map JStr vs))) (sort_key fst (rev_versions r)))),
      (''content_digest'', JStr (rev_content_digest r))]"

section \<open>Digests\<close>

definition node_id_digest :: "(string \<Rightarrow> string) \<Rightarrow> ('v \<Rightarrow> string) \<Rightarrow> 'v node_id \<Rightarrow> string res" where
  "node_id_digest hash_alg show_v i = content_digest_of hash_alg (py_of_json (node_id_canonical show_v i))"

definition edge_id_digest :: "(string \<Rightarrow> string) \<Rightarrow> ('v \<Rightarrow> string) \<Rightarrow> 'v edge_id \<Rightarrow> string res" where
  "edge_id_digest hash_alg show_v i = content_digest_of hash_alg (py_of_json (edge_id_canonical show_v i))"

definition hook_digest :: "(string \<Rightarrow> string) \<Rightarrow> hook_ref \<Rightarrow> string res" where
  "hook_digest hash_alg h = content_digest_of hash_alg (py_of_json (hook_ref_to_canonical h))"

definition dict_at :: "('k, 'a) dict \<Rightarrow> 'k \<Rightarrow> 'a res" where
  "dict_at d k = (case map_of d k of None \<Rightarrow> Inl KeyError | Some a \<Rightarrow> Inr a)"

text \<open>What is hashed: the rows of the nodes, of the edges and of the hooks.\<close>

definition node_rows :: "(string \<Rightarrow> string) \<Rightarrow> ('v \<Rightarrow> string) \<Rightarrow> 'v backend \<Rightarrow> (string \<times> string) list res" where
  "node_rows hash_alg show_v bk =
     mapR (\<lambda>n. bindR (node_id_digest hash_alg show_v (node_id_of n)) (\<lambda>i.
       bindR (dict_at (node_digests bk) (node_id_of n)) (\<lambda>d. Inr (i, d)))) (bk_nodes bk)"

definition edge_rows :: "(string \<Rightarrow> string) \<Rightarrow> ('v \<Rightarrow> string) \<Rightarrow> 'v backend \<Rightarrow> (string \<times> string \<times> bool) list res" where
  "edge_rows hash_alg show_v bk =
     mapR (\<lambda>e. bindR (edge_id_digest hash_alg show_v (eid_of e)) (\<lambda>i.
       bindR (dict_at (edge_digests bk) (eid_of e)) (\<lambda>d. Inr (i, d, eid_of e \<in> set (executable_edge_ids bk))))) (bk_edges bk)"

definition hook_rows :: "(string \<Rightarrow> string) \<Rightarrow> ('v \<Rightarrow> string) \<Rightarrow> 'v backend \<Rightarrow> (string \<times> string list) list res" where
  "hook_rows hash_alg show_v bk =
     mapR (\<lambda>(i, refs). bindR (edge_id_digest hash_alg show_v i) (\<lambda>d.
       bindR (mapR (hook_digest hash_alg) refs) (\<lambda>hs. Inr (d, hs)))) (hook_specs bk)"

definition content_payload :: "string \<Rightarrow> (string \<times> string) list \<Rightarrow> (string \<times> string \<times> bool) list \<Rightarrow> (string \<times> string list) list \<Rightarrow> pyval" where
  "content_payload ns nrows erows hrows = PMap
     [(PStr ''namespace'', PStr ns),
      (PStr ''nodes'', PSeq (map (\<lambda>(i, d). PSeq [PStr i, PStr d]) nrows)),
      (PStr ''edges'', PSeq (map (\<lambda>(i, d, x). PSeq [PStr i, PStr d, PBool x]) erows)),
      (PStr ''hooks'', PSeq (map (\<lambda>(i, hs). PSeq [PStr i, PSeq (map PStr hs)]) hrows))]"

definition content_digest :: "(string \<Rightarrow> string) \<Rightarrow> ('v \<Rightarrow> string) \<Rightarrow> 'v backend \<Rightarrow> string res" where
  "content_digest hash_alg show_v bk =
     bindR (node_rows hash_alg show_v bk) (\<lambda>nrows. bindR (edge_rows hash_alg show_v bk) (\<lambda>erows.
       bindR (hook_rows hash_alg show_v bk) (\<lambda>hrows.
         content_digest_of hash_alg (content_payload (bk_namespace bk) nrows erows hrows))))"

definition manifest_digest :: "(string \<Rightarrow> string) \<Rightarrow> 'v backend \<Rightarrow> revision \<Rightarrow> string res" where
  "manifest_digest hash_alg bk rv = content_digest_of hash_alg (PMap
     [(PStr ''namespace'', PStr (bk_namespace bk)), (PStr ''revision'', py_of_json (revision_to_canonical rv))])"

definition derive :: "value_types \<Rightarrow> ('v \<Rightarrow> string) \<Rightarrow> (string \<Rightarrow> string) \<Rightarrow> ('v \<Rightarrow> string) \<Rightarrow> 'v backend \<Rightarrow> revision res" where
  "derive ty type_of hash_alg show_v bk =
     bindR (version_strategy ty type_of (map (nid_version \<circ> node_id_of) (bk_nodes bk))) (\<lambda>s.
       bindR (content_digest hash_alg show_v bk) (\<lambda>d.
         Inr \<lparr>rev_strategy = s,
              rev_versions = map (\<lambda>k. (k, map (show_v \<circ> nid_version \<circ> node_id_of) (nodes_for_kind k bk)))
                (map fst (nodes_by_kind bk)),
              rev_content_digest = d\<rparr>))"

section \<open>The content digest identifies the content\<close>

lemma version_strategy_ok:
  "okR (version_strategy ty type_of vs) \<longleftrightarrow> (\<forall>v \<in> set vs. \<forall>w \<in> set vs. type_of v = type_of w)"
proof (cases "remdups (map type_of vs)")
  case Nil
  then show ?thesis by (simp add: version_strategy_def)
next
  case (Cons t ts)
  have s: "type_of ` set vs = insert t (set ts)" using arg_cong [OF Cons, of set] by simp
  have "distinct (t # ts)" unfolding Cons [symmetric] by (rule distinct_remdups)
  then have "ts = [] \<longleftrightarrow> (\<forall>x \<in> insert t (set ts). \<forall>y \<in> insert t (set ts). x = y)"
  proof (cases ts)
    case (Cons u us)
    then have "t \<noteq> u" "t \<in> insert t (set ts)" "u \<in> insert t (set ts)" using \<open>distinct (t # ts)\<close> by simp_all
    then have "\<not> (\<forall>x \<in> insert t (set ts). \<forall>y \<in> insert t (set ts). x = y)" by blast
    then show ?thesis using Cons by blast
  qed simp
  also have "\<dots> \<longleftrightarrow> (\<forall>v \<in> set vs. \<forall>w \<in> set vs. type_of v = type_of w)" unfolding s [symmetric] by blast
  finally have "ts = [] \<longleftrightarrow> (\<forall>v \<in> set vs. \<forall>w \<in> set vs. type_of v = type_of w)" .
  moreover have "okR (version_strategy ty type_of vs) \<longleftrightarrow> ts = []"
    unfolding version_strategy_def Cons by (cases ts) simp_all
  ultimately show ?thesis by (rule trans [rotated])
qed

text \<open>The documents that are hashed, in canonical key order.\<close>

definition content_json :: "string \<Rightarrow> (string \<times> string) list \<Rightarrow> (string \<times> string \<times> bool) list \<Rightarrow> (string \<times> string list) list \<Rightarrow> json" where
  "content_json ns nrows erows hrows = JObj
     [(''edges'', JList (map (\<lambda>(i, d, x). JList [JStr i, JStr d, JBool x]) erows)),
      (''hooks'', JList (map (\<lambda>(i, hs). JList [JStr i, JList (map JStr hs)]) hrows)),
      (''namespace'', JStr ns),
      (''nodes'', JList (map (\<lambda>(i, d). JList [JStr i, JStr d]) nrows))]"

definition node_id_json :: "('v \<Rightarrow> string) \<Rightarrow> 'v node_id \<Rightarrow> json" where
  "node_id_json show_v n = JObj
     [(''kind'', JStr (nid_kind n)), (''namespace'', JStr (nid_namespace n)),
      (''version'', JStr (show_v (nid_version n)))]"

definition edge_id_json :: "('v \<Rightarrow> string) \<Rightarrow> 'v edge_id \<Rightarrow> json" where
  "edge_id_json show_v e = JObj
     [(''discriminator'', JStr (eid_discriminator e)), (''source'', node_id_json show_v (eid_source e)),
      (''target'', node_id_json show_v (eid_target e))]"

lemma encode_node_id: "encode (py_of_json (node_id_canonical show_v n)) = Inr (node_id_json show_v n)"
  by (simp add: node_id_canonical_def node_id_json_def encode_mapping_def)

lemma encode_edge_id: "encode (py_of_json (edge_id_canonical show_v e)) = Inr (edge_id_json show_v e)"
  using encode_node_id [of show_v "eid_source e"] encode_node_id [of show_v "eid_target e"]
  by (simp add: edge_id_canonical_def edge_id_json_def encode_mapping_def)

lemma encode_content: "encode (content_payload ns nrows erows hrows) = Inr (content_json ns nrows erows hrows)"
proof -
  have "encode (PSeq (map (\<lambda>(i, d). PSeq [PStr i, PStr d]) nrows)) = Inr (JList (map (\<lambda>(i, d). JList [JStr i, JStr d]) nrows))"
    by (induction nrows) (auto simp: encode_sequence_def bindR_eq_Inr)
  moreover have "encode (PSeq (map (\<lambda>(i, d, x). PSeq [PStr i, PStr d, PBool x]) erows)) =
      Inr (JList (map (\<lambda>(i, d, x). JList [JStr i, JStr d, JBool x]) erows))"
    by (induction erows) (auto simp: encode_sequence_def bindR_eq_Inr)
  moreover have strs: "mapR id (map encode (map PStr hs)) = Inr (map JStr hs)" for hs by (induction hs) auto
  have "encode (PSeq (map (\<lambda>(i, hs). PSeq [PStr i, PSeq (map PStr hs)]) hrows)) =
      Inr (JList (map (\<lambda>(i, hs). JList [JStr i, JList (map JStr hs)]) hrows))"
    using strs by (induction hrows) (auto simp: encode_sequence_def bindR_eq_Inr simp del: map_map)
  ultimately show ?thesis by (simp add: content_payload_def content_json_def encode_mapping_def del: encode.simps(8))
qed

lemma documents_canonical:
  "canonical (content_json ns nrows erows hrows)" "floats (content_json ns nrows erows hrows) = {}"
  "canonical (node_id_json show_v n)" "floats (node_id_json show_v n) = {}"
  "canonical (edge_id_json show_v e)" "floats (edge_id_json show_v e) = {}"
  by (auto simp: content_json_def node_id_json_def edge_id_json_def list_all_iff)

lemma content_json_inj:
  "content_json ns nrows erows hrows = content_json ns' nrows' erows' hrows' \<longleftrightarrow>
     ns = ns' \<and> nrows = nrows' \<and> erows = erows' \<and> hrows = hrows'"
proof -
  have "inj (\<lambda>(i, d). JList [JStr i, JStr d])" "inj (\<lambda>(i, d, x). JList [JStr i, JStr d, JBool x])"
    by (auto simp: inj_def)
  moreover have "inj (\<lambda>(i, hs). JList [JStr i, JList (map JStr hs)])"
    by (auto simp: inj_def dest: map_injective [OF _ injI])
  ultimately show ?thesis by (auto simp: content_json_def dest: map_injective)
qed

text \<open>A hash without collisions, as far as the digests of this program are concerned.\<close>

lemma digest_inj:
  assumes "inj hash_alg" "encode v = Inr j" "encode w = Inr k" "canonical j" "canonical k" "floats j = {}" "floats k = {}"
    and "content_digest_of hash_alg v = content_digest_of hash_alg w"
  shows "j = k"
proof -
  have "hash_alg (dumps_json j) = hash_alg (dumps_json k)"
    using assms(2,3,8) by (simp add: content_digest_of_def canonical_dumps_def)
  then have "dumps_json j = dumps_json k" by (rule injD [OF assms(1)])
  moreover have "float_reprs (floats j \<union> floats k)" using assms(6,7) by (simp add: float_reprs_def)
  ultimately show ?thesis using dumps_inj_canonical [OF assms(4,5)] by blast
qed

lemma node_id_digest_inj:
  assumes "inj hash_alg" "inj show_v" "node_id_digest hash_alg show_v i = node_id_digest hash_alg show_v j"
  shows "i = j"
proof -
  have "node_id_json show_v i = node_id_json show_v j"
    using assms(3) unfolding node_id_digest_def
    by (rule digest_inj [OF assms(1) encode_node_id encode_node_id documents_canonical(3,3,4,4)])
  then show ?thesis using assms(2) by (cases i; cases j) (auto simp: node_id_json_def dest: injD)
qed

lemma edge_id_digest_inj:
  assumes "inj hash_alg" "inj show_v" "edge_id_digest hash_alg show_v i = edge_id_digest hash_alg show_v j"
  shows "i = j"
proof -
  have e: "edge_id_json show_v i = edge_id_json show_v j"
    using assms(3) unfolding edge_id_digest_def
    by (rule digest_inj [OF assms(1) encode_edge_id encode_edge_id documents_canonical(5,5,6,6)])
  have "a = b" if "node_id_json show_v a = node_id_json show_v b" for a b
    using that assms(2) by (cases a; cases b) (auto simp: node_id_json_def dest: injD)
  then show ?thesis using e by (cases i; cases j) (auto simp: edge_id_json_def)
qed

lemma mapR_same_result:
  assumes "mapR f xs = Inr zs" "mapR g ys = Inr zs" "\<And>x y z. f x = Inr z \<Longrightarrow> g y = Inr z \<Longrightarrow> h x = k y"
  shows "map h xs = map k ys"
  using assms unfolding mapR_eq_Inr by (induction xs arbitrary: ys zs) (auto simp: list_all2_Cons1 list_all2_Cons2)

text \<open>
  With a hash algorithm without collisions and \<open>str\<close> distinct on versions, the content digest
  identifies the content of a graph: two backends with the same content digest have the same namespace,
  the same nodes and edges in the same order, each with the same digest of its content, the same
  executable edges among them, and hooks with the same digests on the same edges.
\<close>

theorem content_digest_identifies:
  assumes "inj hash_alg" "inj show_v"
    and "content_digest hash_alg show_v bk = Inr d" "content_digest hash_alg show_v bk' = Inr d"
  shows "bk_namespace bk = bk_namespace bk'
    \<and> map (\<lambda>n. (node_id_of n, map_of (node_digests bk) (node_id_of n))) (bk_nodes bk) =
      map (\<lambda>n. (node_id_of n, map_of (node_digests bk') (node_id_of n))) (bk_nodes bk')
    \<and> map (\<lambda>e. (eid_of e, map_of (edge_digests bk) (eid_of e), bk_is_executable (eid_of e) bk)) (bk_edges bk) =
      map (\<lambda>e. (eid_of e, map_of (edge_digests bk') (eid_of e), bk_is_executable (eid_of e) bk')) (bk_edges bk')
    \<and> map (\<lambda>(i, refs). (i, mapR (hook_digest hash_alg) refs)) (hook_specs bk) =
      map (\<lambda>(i, refs). (i, mapR (hook_digest hash_alg) refs)) (hook_specs bk')"
proof -
  from assms(3) obtain nr er hr where r: "node_rows hash_alg show_v bk = Inr nr" "edge_rows hash_alg show_v bk = Inr er"
    "hook_rows hash_alg show_v bk = Inr hr" "content_digest_of hash_alg (content_payload (bk_namespace bk) nr er hr) = Inr d"
    by (auto simp: content_digest_def bindR_eq_Inr)
  from assms(4) obtain nr' er' hr' where r': "node_rows hash_alg show_v bk' = Inr nr'" "edge_rows hash_alg show_v bk' = Inr er'"
    "hook_rows hash_alg show_v bk' = Inr hr'" "content_digest_of hash_alg (content_payload (bk_namespace bk') nr' er' hr') = Inr d"
    by (auto simp: content_digest_def bindR_eq_Inr)
  have "content_json (bk_namespace bk) nr er hr = content_json (bk_namespace bk') nr' er' hr'"
    by (rule digest_inj [OF assms(1) encode_content encode_content]) (simp_all add: documents_canonical r(4) r'(4))
  then have eq: "bk_namespace bk = bk_namespace bk'" "nr' = nr" "er' = er" "hr' = hr"
    by (auto simp: content_json_inj)
  note r' = r'(1-3) [unfolded eq]
  note at = node_id_digest_inj [OF assms(1,2)] edge_id_digest_inj [OF assms(1,2)]
  have "map (\<lambda>n. (node_id_of n, map_of (node_digests bk) (node_id_of n))) (bk_nodes bk) =
      map (\<lambda>n. (node_id_of n, map_of (node_digests bk') (node_id_of n))) (bk_nodes bk')"
    by (rule mapR_same_result [OF r(1) [unfolded node_rows_def] r'(1) [unfolded node_rows_def]])
      (auto simp: bindR_eq_Inr dict_at_def split: option.splits intro: at)
  moreover have "map (\<lambda>e. (eid_of e, map_of (edge_digests bk) (eid_of e), bk_is_executable (eid_of e) bk)) (bk_edges bk) =
      map (\<lambda>e. (eid_of e, map_of (edge_digests bk') (eid_of e), bk_is_executable (eid_of e) bk')) (bk_edges bk')"
    by (rule mapR_same_result [OF r(2) [unfolded edge_rows_def] r'(2) [unfolded edge_rows_def]])
      (auto simp: bindR_eq_Inr dict_at_def bk_is_executable_def split: option.splits intro: at)
  moreover have "map (\<lambda>(i, refs). (i, mapR (hook_digest hash_alg) refs)) (hook_specs bk) =
      map (\<lambda>(i, refs). (i, mapR (hook_digest hash_alg) refs)) (hook_specs bk')"
    by (rule mapR_same_result [OF r(3) [unfolded hook_rows_def] r'(3) [unfolded hook_rows_def]])
      (auto simp: bindR_eq_Inr intro: at)
  ultimately show ?thesis using eq(1) by blast
qed

definition sample_digests :: "nat backend_args" where
  "sample_digests = sample_args\<lparr>ba_node_digests := [(NodeId ''a'' ''K'' 1, ''x''), (NodeId ''a'' ''K'' 2, ''y'')]\<rparr>"

theorem content_digest_identifies_witness:
  "map node_id_of (bk_nodes (build_backend [sample_node 2, sample_node 1] [] sample_digests)) =
     map node_id_of (bk_nodes (build_backend [sample_node 1, sample_node 2] [] sample_digests))"
proof -
  let ?a = "build_backend [sample_node 2, sample_node 1] [] sample_digests"
    and ?b = "build_backend [sample_node 1, sample_node 2] [] sample_digests"
  have "content_digest id show_nat ?a = content_digest id show_nat ?b \<and> okR (content_digest id show_nat ?b)" by code_simp
  then obtain d where "content_digest id show_nat ?a = Inr d" "content_digest id show_nat ?b = Inr d" by (auto simp: okR_iff)
  from content_digest_identifies [OF inj_on_id _ this] have
    "map (\<lambda>n. (node_id_of n, map_of (node_digests ?a) (node_id_of n))) (bk_nodes ?a) =
     map (\<lambda>n. (node_id_of n, map_of (node_digests ?b) (node_id_of n))) (bk_nodes ?b)"
    using show_nat_inj by (auto simp: inj_def)
  from arg_cong [OF this, of "map fst"] show ?thesis by (simp add: comp_def)
qed

end
