(* ===== verification/Graph.thy ===== *)
theory Graph
  imports Revision
begin

text \<open>
  Graph snapshots: \<open>MigrationGraph\<close> of \<open>core/graph/graph.py\<close> with its lookups and the adjacent edge walk,
  and \<open>GraphBuilder\<close> of \<open>core/graph/builder.py\<close>, which compiles a registry into a snapshot over the
  indexed backend. Names carry the prefix \<open>mg_\<close> where the registry has an operation of the same name.
\<close>

section \<open>Snapshots\<close>

record 'v migration_graph =
  mg_backend :: "'v backend"
  mg_revision :: revision
  mg_manifest_digest :: string

definition mg_name :: "'v migration_graph \<Rightarrow> string" where
  "mg_name g = bk_name (mg_backend g)"

definition mg_namespace :: "'v migration_graph \<Rightarrow> string" where
  "mg_namespace g = bk_namespace (mg_backend g)"

definition mg_same_content :: "'v migration_graph \<Rightarrow> 'v migration_graph \<Rightarrow> bool" where
  "mg_same_content a b \<longleftrightarrow> same_content (mg_revision a) (mg_revision b)"

definition mg_same_manifest :: "'v migration_graph \<Rightarrow> 'v migration_graph \<Rightarrow> bool" where
  "mg_same_manifest a b \<longleftrightarrow> mg_manifest_digest a = mg_manifest_digest b"

definition mg_digests :: "'v migration_graph \<Rightarrow> (string, 'v edge) dict res" where
  "mg_digests g = mapR (\<lambda>(d, i). bindR (dict_at (edges_by_id (mg_backend g)) i) (\<lambda>e. Inr (d, e))) (bk_digests (mg_backend g))"

definition mg_versions :: "'v migration_graph \<Rightarrow> 'v node list" where
  "mg_versions g = filter is_model (bk_nodes (mg_backend g))"

definition mg_kind_versions :: "string \<Rightarrow> 'v migration_graph \<Rightarrow> 'v node list" where
  "mg_kind_versions k g = filter is_model (nodes_for_kind k (mg_backend g))"

definition mg_versions_for :: "string option \<Rightarrow> 'v migration_graph \<Rightarrow> 'v node list" where
  "mg_versions_for k g = (case k of None \<Rightarrow> mg_versions g | Some k \<Rightarrow> mg_kind_versions k g)"

definition mg_kinds :: "'v migration_graph \<Rightarrow> string list" where
  "mg_kinds g = sort (remdups (map fst (nodes_by_kind (mg_backend g)) @ map fst (edges_by_kind (mg_backend g))))"

definition mg_entities :: "'v migration_graph \<Rightarrow> string list" where
  "mg_entities g = filter (\<lambda>k. nodes_for_kind k (mg_backend g) \<noteq> []) (mg_kinds g)"

definition mg_models :: "string option \<Rightarrow> 'v migration_graph \<Rightarrow> (string \<times> string) list" where
  "mg_models k g = (case k of
     None \<Rightarrow> map fst (models_by_ref (mg_backend g))
   | Some k \<Rightarrow> remdups (map (model_ref_key \<circ> the \<circ> modelref)
       (filter (\<lambda>n. modelref n \<noteq> None) (nodes_for_kind k (mg_backend g)))))"

definition mg_kind_entries :: "string \<Rightarrow> 'v migration_graph \<Rightarrow> 'v node list" where
  "mg_kind_entries k g = nodes_for_kind k (mg_backend g)"

definition mg_find_entry :: "'v node_id \<Rightarrow> 'v migration_graph \<Rightarrow> 'v node option" where
  "mg_find_entry i g = map_of (nodes_by_id (mg_backend g)) i"

definition mg_has_entry :: "'v node_id \<Rightarrow> 'v migration_graph \<Rightarrow> bool" where
  "mg_has_entry i g \<longleftrightarrow> mg_find_entry i g \<noteq> None"

definition mg_get_entry :: "'v node_id \<Rightarrow> 'v migration_graph \<Rightarrow> 'v node res" where
  "mg_get_entry i g = (case mg_find_entry i g of None \<Rightarrow> Inl ModelNotFoundError | Some n \<Rightarrow> Inr n)"

definition mg_find_model :: "'v node_id \<Rightarrow> 'v migration_graph \<Rightarrow> 'v node option" where
  "mg_find_model i g = (case mg_find_entry i g of
     None \<Rightarrow> None | Some n \<Rightarrow> if is_model n then Some n else None)"

definition mg_has_model :: "'v node_id \<Rightarrow> 'v migration_graph \<Rightarrow> bool" where
  "mg_has_model i g \<longleftrightarrow> mg_find_model i g \<noteq> None"

definition mg_get_model :: "'v node_id \<Rightarrow> 'v migration_graph \<Rightarrow> 'v node res" where
  "mg_get_model i g = (case mg_find_model i g of None \<Rightarrow> Inl ModelNotFoundError | Some n \<Rightarrow> Inr n)"

definition mg_get_model_by_ref :: "model_ref \<Rightarrow> 'v migration_graph \<Rightarrow> 'v node res" where
  "mg_get_model_by_ref ref g = (case map_of (models_by_ref (mg_backend g)) (model_ref_key ref) of
     None \<Rightarrow> Inl ModelNotFoundError | Some n \<Rightarrow> Inr n)"

definition mg_latest :: "string \<Rightarrow> 'v migration_graph \<Rightarrow> 'v node res" where
  "mg_latest k g = (if mg_kind_versions k g = [] then Inl CatalogError else Inr (last (mg_kind_versions k g)))"

definition mg_earliest :: "string \<Rightarrow> 'v migration_graph \<Rightarrow> 'v node res" where
  "mg_earliest k g = (if mg_kind_versions k g = [] then Inl CatalogError else Inr (hd (mg_kind_versions k g)))"

definition mg_latest_version :: "'v migration_graph \<Rightarrow> 'v node res" where
  "mg_latest_version g = (if mg_versions g = [] then Inl CatalogError else Inr (last (mg_versions g)))"

definition mg_edges :: "string \<Rightarrow> 'v migration_graph \<Rightarrow> 'v edge list" where
  "mg_edges k g = edges_for_kind k (mg_backend g)"

definition mg_migrations :: "string \<Rightarrow> 'v migration_graph \<Rightarrow> 'v edge list" where
  "mg_migrations k g = filter (\<lambda>e. bk_is_executable (eid_of e) (mg_backend g)) (edges_for_kind k (mg_backend g))"

definition mg_edges_of :: "'v node_id \<Rightarrow> 'v migration_graph \<Rightarrow> 'v edge list" where
  "mg_edges_of i g = bk_incident i (mg_backend g)"

definition mg_migrations_of :: "'v node_id \<Rightarrow> 'v migration_graph \<Rightarrow> 'v edge list" where
  "mg_migrations_of i g = filter (\<lambda>e. bk_is_executable (eid_of e) (mg_backend g)) (bk_incident i (mg_backend g))"

text \<open>The filters of \<open>node_entries\<close> and \<open>edge_entries\<close>; an absent flag does not filter.\<close>

definition flag_ok :: "bool option \<Rightarrow> bool \<Rightarrow> bool" where
  "flag_ok flag actual = (case flag of None \<Rightarrow> True | Some b \<Rightarrow> actual = b)"

definition node_entries :: "bool option \<Rightarrow> bool option \<Rightarrow> bool option \<Rightarrow> 'v migration_graph \<Rightarrow> 'v node list" where
  "node_entries full connected orphaned g =
     filter (\<lambda>n. let is_connected = bk_incident (node_id_of n) (mg_backend g) \<noteq> [] in
       flag_ok full (is_model n) \<and> flag_ok connected is_connected \<and> flag_ok orphaned (\<not> is_connected))
       (bk_nodes (mg_backend g))"

definition edge_entries :: "string option \<Rightarrow> bool option \<Rightarrow> string option \<Rightarrow> 'v migration_graph \<Rightarrow> 'v edge list" where
  "edge_entries kind executable origin g =
     filter (\<lambda>e. flag_ok executable (bk_is_executable (eid_of e) (mg_backend g)) \<and>
       (case origin of None \<Rightarrow> True
        | Some x \<Rightarrow> map_of (dict_get (edge_metadata (mg_backend g)) (eid_of e) []) ''origin'' = Some x))
       (case kind of None \<Rightarrow> bk_edges (mg_backend g) | Some k \<Rightarrow> edges_for_kind k (mg_backend g))"

definition mg_find_edge :: "'v node_id \<times> 'v node_id \<Rightarrow> string \<Rightarrow> 'v migration_graph \<Rightarrow> 'v edge res" where
  "mg_find_edge pair x g =
     (case List.find (\<lambda>e. edge_discriminator e = x) (edges_between (fst pair) (snd pair) (mg_backend g)) of
        None \<Rightarrow> Inl MigrationNotFoundError | Some e \<Rightarrow> Inr e)"

definition mg_has_migration :: "'v edge_id \<Rightarrow> 'v migration_graph \<Rightarrow> bool" where
  "mg_has_migration i g \<longleftrightarrow> (case map_of (edges_by_id (mg_backend g)) i of
     None \<Rightarrow> False | Some e \<Rightarrow> bk_is_executable (eid_of e) (mg_backend g))"

definition mg_has_edge :: "'v edge_id \<Rightarrow> 'v migration_graph \<Rightarrow> bool" where
  "mg_has_edge i g \<longleftrightarrow> bk_has_edge i (mg_backend g)"

definition mg_get_edge :: "'v edge_id \<Rightarrow> 'v migration_graph \<Rightarrow> 'v edge res" where
  "mg_get_edge i g = (case map_of (edges_by_id (mg_backend g)) i of
     None \<Rightarrow> Inl MigrationNotFoundError | Some e \<Rightarrow> Inr e)"

definition mg_get_migration :: "'v edge_id \<Rightarrow> 'v migration_graph \<Rightarrow> 'v edge res" where
  "mg_get_migration i g = (case map_of (edges_by_id (mg_backend g)) i of
     None \<Rightarrow> Inl MigrationNotFoundError
   | Some e \<Rightarrow> if bk_is_executable (eid_of e) (mg_backend g) then Inr e else Inl MigrationNotFoundError)"

definition mg_is_adjacent :: "'v edge_id \<Rightarrow> 'v migration_graph \<Rightarrow> bool" where
  "mg_is_adjacent i g = (case (index_of (eid_source i) (mg_backend g), index_of (eid_target i) (mg_backend g)) of
     (Some a, Some b) \<Rightarrow> abs (int a - int b) = 1
   | _ \<Rightarrow> False)"

fun position_of :: "('a \<Rightarrow> bool) \<Rightarrow> 'a list \<Rightarrow> nat option" where
  "position_of P [] = None"
| "position_of P (x # xs) = (if P x then Some 0 else map_option Suc (position_of P xs))"

definition mg_is_critical_edge :: "'v edge_id \<Rightarrow> 'v migration_graph \<Rightarrow> bool" where
  "mg_is_critical_edge i g =
     (let es = edges_for_kind (eid_kind i) (mg_backend g) in
      case position_of (\<lambda>e. eid_of e = i) es of
        None \<Rightarrow> False
      | Some idx \<Rightarrow> length es > 2 \<and> (idx > 0 \<or> int idx < int (length es) - 1))"

definition mg_find_edge_by_digest :: "string \<Rightarrow> 'v migration_graph \<Rightarrow> 'v edge option" where
  "mg_find_edge_by_digest d g = (case map_of (bk_digests (mg_backend g)) d of
     None \<Rightarrow> None | Some i \<Rightarrow> map_of (edges_by_id (mg_backend g)) i)"

section \<open>The adjacent edge walk\<close>

text \<open>
  The \<open>while\<close> loop of \<open>edge_path\<close> from position \<open>lo\<close> to position \<open>hi\<close> of the versions of a kind: the next
  position is one up or one down, the edge to it is looked up, and a missing or inexecutable edge is a
  \<open>MigrationPathError\<close>. The positions come from the list, so the subscripts are in range.
\<close>

function edge_walk :: "'v node list \<Rightarrow> string \<Rightarrow> 'v migration_graph \<Rightarrow> nat \<Rightarrow> nat \<Rightarrow> 'v edge list res" where
  "edge_walk vs x g lo hi =
     (if lo = hi then Inr []
      else (let nxt = (if lo < hi then lo + 1 else lo - 1) in
        case mg_find_edge (node_id_of (vs ! lo), node_id_of (vs ! nxt)) x g of
          Inl _ \<Rightarrow> Inl MigrationPathError
        | Inr e \<Rightarrow>
            if \<not> bk_is_executable (eid_of e) (mg_backend g) then Inl MigrationPathError
            else bindR (edge_walk vs x g nxt hi) (\<lambda>path. Inr (e # path))))"

  by pat_completeness auto

termination
  by (relation "measure (\<lambda>(vs, x, g, lo, hi). if lo < hi then hi - lo else lo - hi)") auto

declare edge_walk.simps [simp del]

definition edge_path :: "'v node_id \<Rightarrow> 'v node_id \<Rightarrow> string \<Rightarrow> 'v migration_graph \<Rightarrow> 'v edge list res" where
  "edge_path from_version to_version x g =
     (if nid_kind from_version \<noteq> nid_kind to_version then Inl CatalogError
      else (let vs = mg_kind_versions (nid_kind from_version) g;
                positions = dict_of (zip (map node_id_of vs) [0..<length vs]) in
        case map_of positions from_version of
          None \<Rightarrow> Inl MigrationPathError
        | Some lo \<Rightarrow> (case map_of positions to_version of
            None \<Rightarrow> Inl MigrationPathError
          | Some hi \<Rightarrow> edge_walk vs x g lo hi)))"

definition migration_path :: "'v node_id \<Rightarrow> 'v node_id \<Rightarrow> 'v migration_graph \<Rightarrow> ('v node \<times> 'v node) list res" where
  "migration_path a b g = bindR (edge_path a b default_discriminator g)
     (\<lambda>es. Inr (map (\<lambda>e. (edge_source e, edge_target e)) es))"

section \<open>Building a snapshot\<close>

text \<open>\<open>entry.ref\<close>: a bare \<open>EdgeId\<close> has none.\<close>

fun edge_ref_of :: "'v edge \<Rightarrow> edge_ref res" where
  "edge_ref_of (IdEdge s t x) = Inl AttributeError"
| "edge_ref_of (KeyEdge s t x r) = Inr r"
| "edge_ref_of (VersionEdge s t x r d m) = Inr (EdgeMigrationRef r)"

fun edge_migration :: "'v edge \<Rightarrow> migration_descriptor option" where
  "edge_migration (VersionEdge s t x r d m) = Some m"
| "edge_migration _ = None"

text \<open>What the loop over the edges of the source collects.\<close>

record 'v edge_tables =
  et_edges :: "('v edge_id, 'v edge) dict"
  et_digests :: "('v edge_id, string) dict"
  et_hooks :: "('v edge_id, hook_ref list) dict"
  et_executable :: "'v edge_id list"
  et_metadata :: "('v edge_id, (string \<times> string) list) dict"

definition sorted_hooks :: "(string \<Rightarrow> string) \<Rightarrow> hook_ref list \<Rightarrow> hook_ref list res" where
  "sorted_hooks hash_alg hs =
     bindR (mapR (\<lambda>h. bindR (hook_digest hash_alg h) (\<lambda>d. Inr (d, h))) hs) (\<lambda>ps. Inr (map snd (sort_key fst ps)))"

definition add_snapshot_edge :: "('v::linorder, 'b) reg_config \<Rightarrow> 'v registry \<Rightarrow> 'v edge \<Rightarrow> 'v edge_tables \<Rightarrow> 'v edge_tables res" where
  "add_snapshot_edge cfg r entry t =
     bindR (edge_ref_of entry) (\<lambda>ref.
     bindR (edge_key_from_pair (edge_source entry) (edge_target entry) (edge_discriminator entry) (Some ref)) (\<lambda>edge.
     bindR (edge_digest (cfg_hash cfg) (cfg_show cfg) entry) (\<lambda>d.
     let i = eid_of edge; hs = get_hooks i r in
     bindR (if hs = [] then Inr (et_hooks t)
            else bindR (sorted_hooks (cfg_hash cfg) hs) (\<lambda>sorted. Inr (AList.update i sorted (et_hooks t)))) (\<lambda>hooks'.
     Inr \<lparr>et_edges = AList.update i edge (et_edges t),
          et_digests = AList.update i d (et_digests t),
          et_hooks = hooks',
          et_executable = (if is_executable entry then pset_add id i (et_executable t) else et_executable t),
          et_metadata = (case edge_migration entry of
              None \<Rightarrow> et_metadata t
            | Some m \<Rightarrow> AList.update i [(''strategy'', md_strategy m), (''migration_id'', md_identity m)] (et_metadata t))\<rparr>))))"

fun foldR :: "('a \<Rightarrow> 's \<Rightarrow> 's res) \<Rightarrow> 'a list \<Rightarrow> 's \<Rightarrow> 's res" where
  "foldR f [] s = Inr s"
| "foldR f (x # xs) s = bindR (f x s) (foldR f xs)"

definition snapshot_kinds :: "'v registry \<Rightarrow> string list" where
  "snapshot_kinds r = remdups (entities r @ kinds r)"

definition snapshot_edges :: "('v::linorder, 'b) reg_config \<Rightarrow> 'v registry \<Rightarrow> 'v edge_tables res" where
  "snapshot_edges cfg r =
     foldR (add_snapshot_edge cfg r) (concat (map (\<lambda>k. edges k r) (snapshot_kinds r)))
       \<lparr>et_edges = [], et_digests = [], et_hooks = [], et_executable = [], et_metadata = []\<rparr>"

definition snapshot_models :: "'v registry \<Rightarrow> (string \<times> string, 'v node) dict res" where
  "snapshot_models r = mapR (\<lambda>k. case map_of (by_models r) k of
     None \<Rightarrow> Inl ModelNotFoundError | Some n \<Rightarrow> Inr (k, n)) (models None r)"

definition build_graph :: "value_types \<Rightarrow> ('v::linorder, 'b) reg_config \<Rightarrow> 'v registry \<Rightarrow> revision option \<Rightarrow> 'v migration_graph res" where
  "build_graph ty cfg r expected =
     bindR (version_strategy ty (cfg_strategy cfg) (map (nid_version \<circ> node_id_of) (by_versions r))) (\<lambda>_.
     let nds = sort_key node_id_of (by_versions r) in
     bindR (mapR (\<lambda>n. bindR (node_digest (cfg_hash cfg) (cfg_show cfg) n) (\<lambda>d. Inr (node_id_of n, d))) nds) (\<lambda>nd.
     bindR (snapshot_edges cfg r) (\<lambda>t.
     let edgs = sort_key eid_of (map snd (et_edges t)) in
     if length (remdups (map (nid_namespace \<circ> node_id_of) nds @ map (eid_namespace \<circ> eid_of) edgs)) > 1
     then Inl CatalogError
     else bindR (snapshot_models r) (\<lambda>ms.
     let bk = build_backend nds edgs
           \<lparr>ba_name = reg_namespace r, ba_namespace = reg_namespace r, ba_models_by_ref = Some ms,
            ba_executable_edge_ids = et_executable t, ba_edge_metadata = et_metadata t,
            ba_digests = map (\<lambda>(d, e). (d, eid_of e)) (case digest_index r of None \<Rightarrow> [] | Some d \<Rightarrow> d),
            ba_node_digests = dict_of nd, ba_edge_digests = et_digests t, ba_hook_specs = et_hooks t\<rparr> in
     bindR (derive ty (cfg_strategy cfg) (cfg_hash cfg) (cfg_show cfg) bk) (\<lambda>derived.
     if (case expected of None \<Rightarrow> False | Some rv \<Rightarrow> \<not> revision_eq rv derived) then Inl RevisionMismatchError
     else bindR (manifest_digest (cfg_hash cfg) bk derived) (\<lambda>m.
       Inr \<lparr>mg_backend = bk, mg_revision = derived, mg_manifest_digest = m\<rparr>))))))"

section \<open>What the builder collects\<close>

lemma add_snapshot_edge_Inr:
  assumes "add_snapshot_edge cfg r e t = Inr t'"
  shows "et_edges t' = AList.update (eid_of e) (edge_key_of e) (et_edges t)
    \<and> et_executable t' = (if is_executable e then pset_add id (eid_of e) (et_executable t) else et_executable t)
    \<and> (\<exists>d. edge_digest (cfg_hash cfg) (cfg_show cfg) e = Inr d \<and> et_digests t' = AList.update (eid_of e) d (et_digests t))
    \<and> et_metadata t' = (case edge_migration e of
              None \<Rightarrow> et_metadata t
            | Some m \<Rightarrow> AList.update (eid_of e) [(''strategy'', md_strategy m), (''migration_id'', md_identity m)] (et_metadata t))"
proof -
  from assms obtain ref edge d where e: "edge_ref_of e = Inr ref"
    "edge_key_from_pair (edge_source e) (edge_target e) (edge_discriminator e) (Some ref) = Inr edge"
    "edge_digest (cfg_hash cfg) (cfg_show cfg) e = Inr d"
    by (auto simp: add_snapshot_edge_def bindR_eq_Inr)
  have "edge = edge_key_of e" using e(1,2) by (cases e) (auto simp: edge_key_from_pair_def bindR_eq_Inr)
  then show ?thesis using assms e by (auto simp: add_snapshot_edge_def bindR_eq_Inr Let_def split: option.splits)
qed

lemma update_fresh: "k \<notin> fst ` set d \<Longrightarrow> AList.update k v d = d @ [(k, v)]"
  by (induction d) auto

lemma foldR_snapshot:
  assumes "foldR (add_snapshot_edge cfg r) es t = Inr t'" "distinct (map eid_of es)"
    and "eid_of ` set es \<inter> fst ` set (et_edges t) = {}" "eid_of ` set es \<inter> set (et_executable t) = {}"
  shows "et_edges t' = et_edges t @ map (\<lambda>e. (eid_of e, edge_key_of e)) es
    \<and> et_executable t' = et_executable t @ map eid_of (filter is_executable es)
    \<and> (\<forall>e \<in> set es. okR (edge_digest (cfg_hash cfg) (cfg_show cfg) e))"
  using assms
proof (induction es arbitrary: t)
  case (Cons e es)
  from Cons.prems(1) obtain t1 where t1: "add_snapshot_edge cfg r e t = Inr t1" "foldR (add_snapshot_edge cfg r) es t1 = Inr t'"
    by (auto simp: bindR_eq_Inr)
  note s = add_snapshot_edge_Inr [OF t1(1)]
  have ne: "\<forall>x \<in> set es. eid_of x \<noteq> eid_of e" using Cons.prems(2) by (force simp: image_iff)
  have ed: "et_edges t1 = et_edges t @ [(eid_of e, edge_key_of e)]"
    using s Cons.prems(3) by (simp add: update_fresh)
  have ex: "et_executable t1 = et_executable t @ (if is_executable e then [eid_of e] else [])"
    using s Cons.prems(4) by (simp add: pset_add_def)
  have "et_edges t' = et_edges t1 @ map (\<lambda>e. (eid_of e, edge_key_of e)) es
    \<and> et_executable t' = et_executable t1 @ map eid_of (filter is_executable es)
    \<and> (\<forall>e \<in> set es. okR (edge_digest (cfg_hash cfg) (cfg_show cfg) e))"
    by (rule Cons.IH [OF t1(2)]) (use Cons.prems ed ex ne in auto)
  then show ?case using s ed ex by (auto simp: okR_iff)
qed simp

lemma distinct_buckets:
  assumes "distinct ks" "\<And>k. distinct (map f (g k))" "\<And>k x. x \<in> set (g k) \<Longrightarrow> h (f x) = k"
  shows "distinct (map f (concat (map g ks)))"
  using assms by (induction ks) (auto simp: image_iff, metis)

definition registry_edges :: "'v registry \<Rightarrow> 'v edge list" where
  "registry_edges r = concat (map (\<lambda>k. edges k r) (snapshot_kinds r))"

lemma edges_bucket: "reg_wf cfg r \<Longrightarrow> bucket_wf k (edges k r)"
  unfolding reg_wf_def edges_def using edges_wf_get by blast

lemma registry_edges_distinct:
  assumes "reg_wf cfg r"
  shows "distinct (map eid_of (registry_edges r))"
proof -
  have "distinct (map eid_of (edges k r))" "e \<in> set (edges k r) \<Longrightarrow> eid_kind (eid_of e) = k" for k e
    using edges_bucket [OF assms, of k] by (auto simp: bucket_wf_def asc_distinct_keys edge_kind_def)
  then show ?thesis
    unfolding registry_edges_def by (intro distinct_buckets [where h = eid_kind]) (auto simp: snapshot_kinds_def)
qed

lemma registry_edges_set: "reg_wf cfg r \<Longrightarrow> e \<in> set (registry_edges r) \<longleftrightarrow> e \<in> set (edges (edge_kind e) r)"
proof -
  assume wf: "reg_wf cfg r"
  have "k \<in> set (snapshot_kinds r)" if "e \<in> set (edges k r)" for k
  proof -
    have "map_of (migrations_of_kind r) k \<noteq> None" using that by (cases "map_of (migrations_of_kind r) k") (auto simp: edges_def dict_get_def)
    then have "k \<in> fst ` set (migrations_of_kind r)" by (simp add: map_of_eq_None_iff)
    then show ?thesis by (simp add: snapshot_kinds_def kinds_def)
  qed
  moreover have "edge_kind e = k" if "e \<in> set (edges k r)" for k
    using edges_bucket [OF wf] that by (auto simp: bucket_wf_def)
  ultimately show ?thesis by (auto simp: registry_edges_def)
qed

text \<open>The backend of a snapshot, as far as the lookups see it.\<close>

lemma build_graph_backend:
  assumes "reg_wf cfg r" "build_graph ty cfg r expected = Inr g"
  shows "backend_wf (mg_backend g) \<and> bk_nodes (mg_backend g) = by_versions r
    \<and> bk_edges (mg_backend g) = sort_key eid_of (map edge_key_of (registry_edges r))
    \<and> executable_edge_ids (mg_backend g) = map eid_of (filter is_executable (registry_edges r))
    \<and> bk_namespace (mg_backend g) = reg_namespace r
    \<and> models_by_ref (mg_backend g) = by_models r"
proof -
  from assms(2) obtain nd t ms args where b: "snapshot_edges cfg r = Inr t" "snapshot_models r = Inr ms"
    "mg_backend g = build_backend (sort_key node_id_of (by_versions r)) (sort_key eid_of (map snd (et_edges t))) args"
    "ba_executable_edge_ids args = et_executable t" "ba_namespace args = reg_namespace r" "ba_models_by_ref args = Some ms"
    by (force simp: build_graph_def bindR_eq_Inr Let_def split: if_splits)
  have asc: "asc node_id_of (by_versions r)" and ns: "reg_namespace r \<noteq> []"
    using assms(1) by (auto simp: reg_wf_def nodes_wf_def)
  note d = registry_edges_distinct [OF assms(1)]
  from foldR_snapshot [OF b(1) [unfolded snapshot_edges_def, folded registry_edges_def] d] have
    t: "et_edges t = map (\<lambda>e. (eid_of e, edge_key_of e)) (registry_edges r)"
    "et_executable t = map eid_of (filter is_executable (registry_edges r))" by simp_all
  have n: "sort_key node_id_of (by_versions r) = by_versions r"
    by (rule asc_sort_id [OF asc])
  have m: "map snd (et_edges t) = map edge_key_of (registry_edges r)" by (simp add: t comp_def)
  have dm: "distinct (map eid_of (map edge_key_of (registry_edges r)))" using d by (simp add: comp_def)
  have "backend_wf (mg_backend g)"
    unfolding b(3) n m using asc_distinct_keys [OF asc] dm by (intro build_backend_wf) (simp_all add: asc_distinct_keys asc_sort_key)
  moreover have "ms = by_models r"
  proof -
    have ok: "dict_ok (by_models r)" using assms(1) by (simp add: reg_wf_def models_wf_def)
    have "map fst (by_models r) = map fst xs \<Longrightarrow> set xs \<subseteq> set (by_models r) \<Longrightarrow>
        mapR (\<lambda>k. case map_of (by_models r) k of None \<Rightarrow> Inl ModelNotFoundError | Some n \<Rightarrow> Inr (k, n)) (map fst xs) = Inr xs" for xs
      by (subst mapR_map [where h = id]) (use ok in \<open>auto simp: dict_ok_map_of split: option.splits\<close>)
    from this [of "by_models r"] show ?thesis using b(2) by (simp add: snapshot_models_def models_def)
  qed
  ultimately show ?thesis
    using b(3-6) ns t(2) asc_sort_id [OF asc_sort_key [OF dm]] by (simp add: build_backend_def Let_def n m)
qed

lemma registry_edge_at:
  assumes "reg_wf cfg r"
  shows "sorted_find eid_of (edges (eid_kind i) r) i = Some e \<longleftrightarrow> e \<in> set (registry_edges r) \<and> eid_of e = i"
proof -
  have "asc eid_of (edges (eid_kind i) r)" using edges_bucket [OF assms] by (simp add: bucket_wf_def)
  then show ?thesis
    unfolding sorted_find_Some [OF \<open>asc eid_of (edges (eid_kind i) r)\<close>] registry_edges_set [OF assms]
    by (auto simp: edge_kind_def)
qed

lemma snapshot_edge_at:
  assumes "reg_wf cfg r" "build_graph ty cfg r expected = Inr g"
  shows "map_of (edges_by_id (mg_backend g)) i = map_option edge_key_of (sorted_find eid_of (edges (eid_kind i) r) i)"
proof -
  note b = build_graph_backend [OF assms]
  note d = backend_wfD [OF conjunct1 [OF b]]
  note asc = d(2) and m = d(4) [of i]
  have mem: "set (bk_edges (mg_backend g)) = edge_key_of ` set (registry_edges r)" using b by simp
  show ?thesis
  proof (cases "sorted_find eid_of (edges (eid_kind i) r) i")
    case None
    then have "i \<notin> eid_of ` set (bk_edges (mg_backend g))"
      using registry_edge_at [OF assms(1), of i] mem by (auto simp: image_image)
    then show ?thesis using None m sorted_find_None [OF asc] by simp
  next
    case (Some e)
    then have "e \<in> set (registry_edges r)" "eid_of e = i" using registry_edge_at [OF assms(1)] by auto
    then show ?thesis using Some m sorted_find_Some [OF asc] mem by auto
  qed
qed

lemma snapshot_executable:
  assumes "reg_wf cfg r" "build_graph ty cfg r expected = Inr g" "e \<in> set (registry_edges r)"
  shows "bk_is_executable (eid_of e) (mg_backend g) \<longleftrightarrow> is_executable e"
proof -
  have "inj_on eid_of (set (registry_edges r))" using registry_edges_distinct [OF assms(1)] by (simp add: distinct_map)
  then show ?thesis
    using build_graph_backend [OF assms(1,2)] assms(3) by (auto simp: bk_is_executable_def dest: inj_onD)
qed

lemma snapshot_lookups:
  assumes "reg_reachable cfg r" "build_graph ty cfg r expected = Inr g"
  shows "mg_namespace g = reg_namespace r
    \<and> mg_find_entry i g = find_entry i r \<and> mg_find_model i g = find_model i r
    \<and> mg_kind_versions k g = kind_versions k r
    \<and> mg_latest k g = latest k r \<and> mg_earliest k g = earliest k r
    \<and> mg_get_model_by_ref ref g = get_model_by_ref ref r
    \<and> mg_edges k g = map edge_key_of (edges k r)
    \<and> (edge_ok j \<longrightarrow> has_migration j r = Inr (mg_has_migration j g))"
proof -
  have wf: "reg_wf cfg r" using assms(1) by (rule reg_reachable_wf)
  note b = build_graph_backend [OF wf assms(2)]
  note d = backend_wfD [OF conjunct1 [OF b]]
  have entry: "mg_find_entry i g = find_entry i r"
    using b by (simp add: mg_find_entry_def find_entry_def d(3))
  have vs: "mg_kind_versions k g = kind_versions k r"
    using b wf by (simp add: mg_kind_versions_def kind_versions_def d(5) reg_wf_def nodes_wf_def)
  have "mg_edges k g = map edge_key_of (edges k r)"
  proof (rule asc_unique [of eid_of])
    show "asc eid_of (mg_edges k g)" using d(2) by (simp add: mg_edges_def d(6) asc_filter)
    show "asc eid_of (map edge_key_of (edges k r))"
      using edges_bucket [OF wf, of k] by (simp add: bucket_wf_def asc_def comp_def)
    have "set (mg_edges k g) = {e \<in> edge_key_of ` set (registry_edges r). edge_kind e = k}"
      using b by (auto simp: mg_edges_def d(6))
    also have "\<dots> = edge_key_of ` {e \<in> set (registry_edges r). edge_kind e = k}" by (auto simp: edge_kind_def)
    also have "{e \<in> set (registry_edges r). edge_kind e = k} = set (edges k r)"
    proof -
      have "edge_kind e = k" if "e \<in> set (edges k r)" for e using edges_bucket [OF wf, of k] that by (simp add: bucket_wf_def)
      then show ?thesis by (auto simp: registry_edges_set [OF wf])
    qed
    finally show "set (mg_edges k g) = set (map edge_key_of (edges k r))" by simp
  qed
  moreover have "has_migration j r = Inr (mg_has_migration j g)" if "edge_ok j"
  proof -
    have e: "mk_edge_id (eid_source j) (eid_target j) (eid_discriminator j) = Inr j" using that by (simp add: mk_edge_id_ok)
    show ?thesis
    proof (cases "sorted_find eid_of (edges (eid_kind j) r) j")
      case None
      then show ?thesis using e
        by (simp add: has_migration_def find_edge_def eid_key_def mg_has_migration_def snapshot_edge_at [OF wf assms(2)] edges_def)
    next
      case (Some x)
      then have x: "x \<in> set (registry_edges r)" "eid_of x = j" using registry_edge_at [OF wf] by auto
      show ?thesis using Some e x(2) snapshot_executable [OF wf assms(2) x(1)]
        by (simp add: has_migration_def find_edge_def eid_key_def mg_has_migration_def snapshot_edge_at [OF wf assms(2)] edges_def)
    qed
  qed
  ultimately show ?thesis
    using b entry vs
    by (simp add: mg_namespace_def mg_find_model_def find_model_def mg_latest_def latest_def mg_earliest_def earliest_def
        mg_get_model_by_ref_def get_model_by_ref_def)
qed

text \<open>
  C6. A snapshot agrees with the registry it was built from on these lookups: on every
  reachable registry, whenever the build succeeds, the graph has the namespace of the registry and finds
  the same entries and models, the same versions of every kind in the same order and hence the same
  latest and earliest ones, the same model under every reference, the keys of the same edges of every
  kind in the same order, and the same executable migrations. It is not every lookup: on \<open>has_model\<close>,
  \<open>kinds\<close> and \<open>is_adjacent\<close> the two differ (\<open>snapshot_lookups_differ\<close> below).
\<close>

theorem snapshot_agrees:
  assumes "reg_reachable cfg r" "build_graph ty cfg r expected = Inr g"
  shows "mg_namespace g = reg_namespace r
    \<and> mg_find_entry i g = find_entry i r \<and> mg_find_model i g = find_model i r
    \<and> mg_kind_versions k g = kind_versions k r
    \<and> mg_latest k g = latest k r \<and> mg_earliest k g = earliest k r
    \<and> mg_get_model_by_ref ref g = get_model_by_ref ref r
    \<and> mg_edges k g = map edge_key_of (edges k r)
    \<and> (edge_ok j \<longrightarrow> has_migration j r = Inr (mg_has_migration j g))"
  by (rule snapshot_lookups [OF assms])

section \<open>The edge walk\<close>

text \<open>The pairs of neighbouring positions from one position to another, upwards or downwards.\<close>

definition walk_steps :: "nat \<Rightarrow> nat \<Rightarrow> (nat \<times> nat) list" where
  "walk_steps lo hi = (if lo \<le> hi then map (\<lambda>i. (i, Suc i)) [lo..<hi] else map (\<lambda>i. (Suc i, i)) (rev [hi..<lo]))"

lemma walk_steps_simps:
  "walk_steps n n = []"
  "lo < hi \<Longrightarrow> walk_steps lo hi = (lo, Suc lo) # walk_steps (Suc lo) hi"
  "hi < lo \<Longrightarrow> walk_steps lo hi = (lo, lo - 1) # walk_steps (lo - 1) hi"
proof -
  show "lo < hi \<Longrightarrow> walk_steps lo hi = (lo, Suc lo) # walk_steps (Suc lo) hi" by (simp add: walk_steps_def upt_conv_Cons)
  show "hi < lo \<Longrightarrow> walk_steps lo hi = (lo, lo - 1) # walk_steps (lo - 1) hi" by (cases lo) (auto simp: walk_steps_def)
qed (simp add: walk_steps_def)

lemma walk_steps_bounds: "(i, j) \<in> set (walk_steps lo hi) \<Longrightarrow> i \<le> max lo hi \<and> j \<le> max lo hi"
  by (auto simp: walk_steps_def split: if_splits)

text \<open>The executable edge with a discriminator between two positions.\<close>

definition step_key :: "'v node list \<Rightarrow> string \<Rightarrow> nat \<times> nat \<Rightarrow> 'v edge_id" where
  "step_key vs x p = EdgeId (node_id_of (vs ! fst p)) (node_id_of (vs ! snd p)) x"

lemma mg_find_edge_id:
  assumes "backend_wf (mg_backend g)"
  shows "mg_find_edge (s, t) x g = (case map_of (edges_by_id (mg_backend g)) (EdgeId s t x) of
     None \<Rightarrow> Inl MigrationNotFoundError | Some e \<Rightarrow> Inr e)"
proof -
  note d = backend_wfD [OF assms]
  have "List.find (\<lambda>e. edge_discriminator e = x) (edges_between s t (mg_backend g)) = sorted_find eid_of (bk_edges (mg_backend g)) (EdgeId s t x)"
  proof (cases "sorted_find eid_of (bk_edges (mg_backend g)) (EdgeId s t x)")
    case None
    then have "EdgeId s t x \<notin> eid_of ` set (bk_edges (mg_backend g))" using sorted_find_None [OF d(2)] by blast
    then show ?thesis using None by (auto simp: find_None_iff d(8) eid_key_def eid_of_def image_iff)
  next
    case (Some e)
    then have e: "e \<in> set (bk_edges (mg_backend g))" "eid_of e = EdgeId s t x" using sorted_find_Some [OF d(2)] by auto
    then have "List.find (\<lambda>e. edge_discriminator e = x) (edges_between s t (mg_backend g)) \<noteq> None"
      by (auto simp: find_None_iff d(8) eid_key_def eid_of_def)
    then obtain e' where e': "List.find (\<lambda>e. edge_discriminator e = x) (edges_between s t (mg_backend g)) = Some e'" by blast
    then have "e' \<in> set (edges_between s t (mg_backend g))" "edge_discriminator e' = x"
      by (auto simp: find_Some_iff)
    then have "e' \<in> set (bk_edges (mg_backend g)) \<and> eid_of e' = EdgeId s t x"
      by (auto simp: d(8) eid_key_def eid_of_def)
    then have "sorted_find eid_of (bk_edges (mg_backend g)) (EdgeId s t x) = Some e'" using sorted_find_Some [OF d(2)] by blast
    then show ?thesis using e' by simp
  qed
  then show ?thesis by (simp add: mg_find_edge_def d(4))
qed

definition step_edge :: "'v edge_id \<Rightarrow> 'v migration_graph \<Rightarrow> 'v edge res" where
  "step_edge i g = (case mg_get_migration i g of Inl _ \<Rightarrow> Inl MigrationPathError | Inr e \<Rightarrow> Inr e)"

lemma edge_walk_steps:
  assumes "backend_wf (mg_backend g)"
  shows "edge_walk vs x g lo hi = mapR (\<lambda>p. step_edge (step_key vs x p) g) (walk_steps lo hi)"
  using assms
proof (induction vs x g lo hi rule: edge_walk.induct)
  case (1 vs x g lo hi)
  show ?case
  proof (cases "lo = hi")
    case False
    define nxt where "nxt = (if lo < hi then lo + 1 else lo - 1)"
    have w: "walk_steps lo hi = (lo, nxt) # walk_steps nxt hi"
      using False by (cases "lo < hi") (simp_all add: walk_steps_simps nxt_def)
    have e: "edge_walk vs x g lo hi = (case mg_find_edge (node_id_of (vs ! lo), node_id_of (vs ! nxt)) x g of
          Inl _ \<Rightarrow> Inl MigrationPathError
        | Inr e \<Rightarrow> if \<not> bk_is_executable (eid_of e) (mg_backend g) then Inl MigrationPathError
            else bindR (edge_walk vs x g nxt hi) (\<lambda>path. Inr (e # path)))"
      using False unfolding edge_walk.simps [of vs x g lo hi] nxt_def Let_def by simp
    have IH: "edge_walk vs x g nxt hi = mapR (\<lambda>p. step_edge (step_key vs x p) g) (walk_steps nxt hi)"
      if "mg_find_edge (node_id_of (vs ! lo), node_id_of (vs ! nxt)) x g = Inr e" "bk_is_executable (eid_of e) (mg_backend g)" for e
      by (rule "1.IH" [OF False nxt_def that(1)]) (use that "1.prems" in auto)
    show ?thesis
      unfolding e w mg_find_edge_id [OF "1.prems"]
      using IH unfolding mg_find_edge_id [OF "1.prems"]
      by (auto simp: step_edge_def step_key_def mg_get_migration_def split: option.splits)
  qed (simp add: walk_steps_simps edge_walk.simps)
qed

lemma step_edge_Inr:
  assumes "backend_wf (mg_backend g)"
  shows "step_edge i g = Inr e \<longleftrightarrow> e \<in> set (bk_edges (mg_backend g)) \<and> eid_of e = i \<and> bk_is_executable i (mg_backend g)"
proof -
  have "step_edge i g = Inr e \<longleftrightarrow> map_of (edges_by_id (mg_backend g)) i = Some e \<and> bk_is_executable (eid_of e) (mg_backend g)"
    by (auto simp: step_edge_def mg_get_migration_def split: option.splits)
  then show ?thesis
    unfolding backend_wfD(4) [OF assms] sorted_find_Some [OF backend_wfD(2) [OF assms]] by auto
qed

lemma step_edge_ok: "backend_wf (mg_backend g) \<Longrightarrow> okR (step_edge i g) \<longleftrightarrow> mg_has_migration i g"
  by (auto simp: okR_iff step_edge_def mg_get_migration_def mg_has_migration_def split: option.splits)

text \<open>The edges that a walk may use.\<close>

definition walkable :: "string \<Rightarrow> 'v migration_graph \<Rightarrow> 'v edge set" where
  "walkable x g = {e \<in> set (bk_edges (mg_backend g)). bk_is_executable (eid_of e) (mg_backend g) \<and> edge_discriminator e = x}"

lemma walk_chained:
  assumes "backend_wf (mg_backend g)" "edge_walk vs x g lo hi = Inr es"
  shows "chained (walkable x g) (node_id_of (vs ! lo)) es (node_id_of (vs ! hi)) \<and> map eid_of es = map (step_key vs x) (walk_steps lo hi)"
  using assms(2)
proof (induction "walk_steps lo hi" arbitrary: lo es)
  case Nil
  then have "lo = hi" by (auto simp: walk_steps_def split: if_splits)
  then show ?case using Nil.prems by (simp add: edge_walk_steps [OF assms(1)] walk_steps_simps)
next
  case (Cons p ps)
  then have "lo \<noteq> hi" by (auto simp: walk_steps_simps)
  then obtain nxt where p: "p = (lo, nxt)" "ps = walk_steps nxt hi" "walk_steps lo hi = (lo, nxt) # walk_steps nxt hi"
    using Cons.hyps(2) by (cases "lo < hi") (simp_all add: walk_steps_simps)
  from Cons.prems obtain e es' where e: "es = e # es'" "step_edge (step_key vs x (lo, nxt)) g = Inr e" "edge_walk vs x g nxt hi = Inr es'"
    by (auto simp: edge_walk_steps [OF assms(1)] p(3) bindR_eq_Inr)
  have "e \<in> walkable x g" "eid_of e = step_key vs x (lo, nxt)"
    using e(2) unfolding step_edge_Inr [OF assms(1)] by (auto simp: walkable_def step_key_def eid_of_def)
  moreover from this have "eid_source (eid_of e) = node_id_of (vs ! lo)" "eid_target (eid_of e) = node_id_of (vs ! nxt)"
    by (simp_all add: step_key_def del: eid_of_simps)
  ultimately show ?case using e(1) p Cons.hyps(1) [OF p(2) e(3)] by (simp del: eid_of_simps)
qed

lemma edge_path_positions:
  assumes "backend_wf (mg_backend g)" "lo < length (mg_kind_versions k g)" "hi < length (mg_kind_versions k g)"
  shows "edge_path (node_id_of (mg_kind_versions k g ! lo)) (node_id_of (mg_kind_versions k g ! hi)) x g =
    edge_walk (mg_kind_versions k g) x g lo hi"
proof -
  let ?vs = "mg_kind_versions k g"
  note d = backend_wfD [OF assms(1)]
  have "\<forall>n \<in> set ?vs. nid_kind (node_id_of n) = k" by (auto simp: mg_kind_versions_def d(5))
  then have kinds: "nid_kind (node_id_of (?vs ! lo)) = k" "nid_kind (node_id_of (?vs ! hi)) = k" using assms(2,3) by auto
  have "asc node_id_of ?vs" using d(1) by (simp add: mg_kind_versions_def d(5) asc_filter)
  then have "distinct (map node_id_of ?vs)" by (rule asc_distinct_keys)
  from map_of_positions [OF this] have "map_of (dict_of (zip (map node_id_of ?vs) [0..<length ?vs])) (node_id_of (?vs ! i)) = Some i"
    if "i < length ?vs" for i using that by simp
  then show ?thesis using kinds assms(2,3) by (simp add: edge_path_def Let_def)
qed

lemma edge_path_unregistered:
  assumes "backend_wf (mg_backend g)" "mg_find_model a g = None \<or> mg_find_model b g = None" "nid_kind a = nid_kind b"
  shows "edge_path a b x g = Inl MigrationPathError"
proof -
  let ?vs = "mg_kind_versions (nid_kind a) g"
  note d = backend_wfD [OF assms(1)]
  have vs: "asc node_id_of ?vs" using d(1) by (simp add: mg_kind_versions_def d(5) asc_filter)
  have none: "map_of (dict_of (zip (map node_id_of ?vs) [0..<length ?vs])) i = None"
    if "mg_find_model i g = None" for i
  proof (rule ccontr)
    assume "\<not> ?thesis"
    then obtain n where n: "n < length ?vs" "node_id_of (?vs ! n) = i"
      using map_of_positions [OF asc_distinct_keys [OF vs]] by auto
    then have "?vs ! n \<in> set ?vs" by simp
    then have "?vs ! n \<in> set (bk_nodes (mg_backend g))" "is_model (?vs ! n)" by (auto simp: mg_kind_versions_def d(5))
    then have "mg_find_entry i g = Some (?vs ! n)" using n(2) by (simp add: mg_find_entry_def d(3) sorted_find_Some [OF d(1)])
    then show False using that \<open>is_model (?vs ! n)\<close> by (simp add: mg_find_model_def)
  qed
  show ?thesis using assms(2,3) none [of a] none [of b] by (auto simp: edge_path_def Let_def split: option.splits)
qed

text \<open>
  C7. The adjacent edge walk of a snapshot: between two registered versions of a kind \<open>edge_path\<close> succeeds
  exactly when every step between neighbouring versions on the way, upwards or downwards, has an executable
  migration with the discriminator; the result is then the chain of exactly these edges from the first
  version to the second, and otherwise a \<open>MigrationPathError\<close> is raised.
\<close>

theorem edge_path_correct:
  assumes "reg_reachable cfg r" "build_graph ty cfg r expected = Inr g"
    and "lo < length (kind_versions k r)" "hi < length (kind_versions k r)"
  shows "(case edge_path (node_id_of (kind_versions k r ! lo)) (node_id_of (kind_versions k r ! hi)) x g of
      Inr es \<Rightarrow> chained (walkable x g) (node_id_of (kind_versions k r ! lo)) es (node_id_of (kind_versions k r ! hi))
        \<and> map eid_of es = map (step_key (kind_versions k r) x) (walk_steps lo hi)
    | Inl e \<Rightarrow> e = MigrationPathError)
    \<and> (okR (edge_path (node_id_of (kind_versions k r ! lo)) (node_id_of (kind_versions k r ! hi)) x g) \<longleftrightarrow>
        (\<forall>p \<in> set (walk_steps lo hi). mg_has_migration (step_key (kind_versions k r) x p) g))"
proof -
  have vs: "kind_versions k r = mg_kind_versions k g" using snapshot_lookups [OF assms(1,2)] by simp
  have wf: "backend_wf (mg_backend g)" using build_graph_backend [OF reg_reachable_wf [OF assms(1)] assms(2)] by blast
  let ?p = "edge_path (node_id_of (mg_kind_versions k g ! lo)) (node_id_of (mg_kind_versions k g ! hi)) x g"
  have p: "?p = edge_walk (mg_kind_versions k g) x g lo hi" using edge_path_positions [OF wf] assms(3,4) vs by simp
  have "e = MigrationPathError" if "?p = Inl e" for e
  proof -
    from mapR_error [OF that [unfolded p edge_walk_steps [OF wf]]] obtain q where
      "step_edge (step_key (mg_kind_versions k g) x q) g = Inl e" by blast
    then show ?thesis by (auto simp: step_edge_def split: sum.splits)
  qed
  moreover have "okR ?p \<longleftrightarrow> (\<forall>q \<in> set (walk_steps lo hi). mg_has_migration (step_key (mg_kind_versions k g) x q) g)"
    unfolding p edge_walk_steps [OF wf] mapR_okR by (simp add: step_edge_ok [OF wf])
  ultimately show ?thesis
    unfolding vs using walk_chained [OF wf] p by (auto split: sum.splits)
qed

text \<open>
  The errors of \<open>edge_path\<close> on a snapshot: versions of different kinds are a \<open>CatalogError\<close>; a version
  of the kind that is not registered as a model is a \<open>MigrationPathError\<close>, even when both are the same.
\<close>

theorem edge_path_errors:
  assumes "reg_reachable cfg r" "build_graph ty cfg r expected = Inr g"
  shows "(nid_kind a \<noteq> nid_kind b \<longrightarrow> edge_path a b x g = Inl CatalogError)
    \<and> (nid_kind a = nid_kind b \<and> (find_model a r = None \<or> find_model b r = None) \<longrightarrow>
        edge_path a b x g = Inl MigrationPathError)"
  using edge_path_unregistered [of g a b x] snapshot_lookups [OF assms]
    build_graph_backend [OF reg_reachable_wf [OF assms(1)] assms(2)]
  by (auto simp: edge_path_def)

section \<open>The catalog interface\<close>

text \<open>
  What registry and snapshot both promise to planning (\<open>ModelCatalog\<close> of \<open>core/registry/types.py\<close>): the
  versions of a kind in ascending order, models found by identity, and the ends of the list.
\<close>

locale model_catalog =
  fixes invar :: "'c \<Rightarrow> bool"
    and versions_of :: "string \<Rightarrow> 'c \<Rightarrow> 'v::linorder node list"
    and model_at :: "'v node_id \<Rightarrow> 'c \<Rightarrow> 'v node option"
    and latest_of earliest_of :: "string \<Rightarrow> 'c \<Rightarrow> 'v node res"
  assumes versions_asc: "invar c \<Longrightarrow> asc node_id_of (versions_of k c)"
    and model_at_iff: "invar c \<Longrightarrow> model_at i c = Some n \<longleftrightarrow> n \<in> set (versions_of (nid_kind i) c) \<and> node_id_of n = i"
    and versions_kind: "invar c \<Longrightarrow> n \<in> set (versions_of k c) \<Longrightarrow> nid_kind (node_id_of n) = k"
    and latest_eq: "latest_of k c = (if versions_of k c = [] then Inl CatalogError else Inr (last (versions_of k c)))"
    and earliest_eq: "earliest_of k c = (if versions_of k c = [] then Inl CatalogError else Inr (hd (versions_of k c)))"
begin

lemma latest_greatest:
  assumes "invar c" "latest_of k c = Inr n"
  shows "model_at (node_id_of n) c = Some n \<and> nid_kind (node_id_of n) = k
    \<and> (\<forall>i m. model_at i c = Some m \<longrightarrow> nid_kind i = k \<longrightarrow> i \<le> node_id_of n)"
proof -
  let ?vs = "versions_of k c"
  have n: "?vs \<noteq> []" "n = last ?vs" using assms(2) by (auto simp: latest_eq split: if_splits)
  then have mem: "n \<in> set ?vs" by simp
  note k = versions_kind [OF assms(1) mem]
  have asc: "asc node_id_of (butlast ?vs @ [n])" using versions_asc [OF assms(1), of k] n by simp
  have "node_id_of m \<le> node_id_of n" if "m \<in> set ?vs" for m
  proof -
    have "set ?vs = insert n (set (butlast ?vs))" using n append_butlast_last_id [of ?vs] by (metis Un_insert_right empty_set list.simps(15) set_append sup_bot.right_neutral)
    then show ?thesis using that asc unfolding asc_append by force
  qed
  then show ?thesis using k mem by (auto simp: model_at_iff [OF assms(1)])
qed

lemma earliest_least:
  assumes "invar c" "earliest_of k c = Inr n"
  shows "model_at (node_id_of n) c = Some n \<and> nid_kind (node_id_of n) = k
    \<and> (\<forall>i m. model_at i c = Some m \<longrightarrow> nid_kind i = k \<longrightarrow> node_id_of n \<le> i)"
proof -
  let ?vs = "versions_of k c"
  obtain ms where ms: "?vs = n # ms" using assms(2) by (cases ?vs) (auto simp: earliest_eq split: if_splits)
  have "asc node_id_of (n # ms)" using versions_asc [OF assms(1), of k] ms by simp
  then have "\<forall>m \<in> set ?vs. node_id_of n \<le> node_id_of m" unfolding ms asc_Cons by (auto intro: less_imp_le)
  then show ?thesis using versions_kind [OF assms(1), of n k] ms by (auto simp: model_at_iff [OF assms(1)])
qed

lemma catalog_error_iff:
  assumes "invar c"
  shows "latest_of k c = Inl CatalogError \<longleftrightarrow> (\<forall>i. nid_kind i = k \<longrightarrow> model_at i c = None)"
proof -
  have "versions_of k c = [] \<longleftrightarrow> (\<forall>i. nid_kind i = k \<longrightarrow> model_at i c = None)"
  proof
    assume e: "versions_of k c = []"
    show "\<forall>i. nid_kind i = k \<longrightarrow> model_at i c = None"
    proof (intro allI impI)
      fix i :: "'v node_id" assume "nid_kind i = k"
      then show "model_at i c = None" using e model_at_iff [OF assms, of i] by (cases "model_at i c") auto
    qed
  next
    assume a: "\<forall>i. nid_kind i = k \<longrightarrow> model_at i c = None"
    show "versions_of k c = []"
    proof (rule ccontr)
      assume "versions_of k c \<noteq> []"
      then have m: "hd (versions_of k c) \<in> set (versions_of k c)" by simp
      then have "model_at (node_id_of (hd (versions_of k c))) c = Some (hd (versions_of k c))"
        using model_at_iff [OF assms] versions_kind [OF assms m] by auto
      then show False using a versions_kind [OF assms m] by auto
    qed
  qed
  then show ?thesis by (auto simp: latest_eq)
qed

end

interpretation registry_catalog: model_catalog "reg_wf cfg" kind_versions find_model latest earliest
  for cfg :: "('v::linorder, 'b) reg_config"
proof
  fix c :: "'v registry" assume wf: "reg_wf cfg c"
  then have vs: "kind_versions k c = filter is_model (filter (\<lambda>n. nid_kind (node_id_of n) = k) (by_versions c))" for k
    by (simp add: kind_versions_def reg_wf_def nodes_wf_def)
  have asc: "asc node_id_of (by_versions c)" using wf by (simp add: reg_wf_def nodes_wf_def)
  show "asc node_id_of (kind_versions k c)" for k using asc by (simp add: vs asc_filter)
  show "find_model i c = Some n \<longleftrightarrow> n \<in> set (kind_versions (nid_kind i) c) \<and> node_id_of n = i" for i n
  proof -
    have "find_model i c = Some n \<longleftrightarrow> find_entry i c = Some n \<and> is_model n"
      by (auto simp: find_model_def split: option.splits)
    then show ?thesis unfolding find_entry_Some [OF wf] vs by auto
  qed
  show "n \<in> set (kind_versions k c) \<Longrightarrow> nid_kind (node_id_of n) = k" for n k by (auto simp: vs)
qed (simp_all add: latest_def earliest_def)

interpretation graph_catalog: model_catalog "\<lambda>g. backend_wf (mg_backend g)" mg_kind_versions mg_find_model mg_latest mg_earliest
proof
  fix g :: "'v::linorder migration_graph" assume wf: "backend_wf (mg_backend g)"
  note d = backend_wfD [OF wf]
  show "asc node_id_of (mg_kind_versions k g)" for k using d(1) by (simp add: mg_kind_versions_def d(5) asc_filter)
  show "mg_find_model i g = Some n \<longleftrightarrow> n \<in> set (mg_kind_versions (nid_kind i) g) \<and> node_id_of n = i" for i n
  proof -
    have "mg_find_model i g = Some n \<longleftrightarrow> mg_find_entry i g = Some n \<and> is_model n"
      by (auto simp: mg_find_model_def split: option.splits)
    then show ?thesis unfolding mg_find_entry_def d(3) sorted_find_Some [OF d(1)] mg_kind_versions_def d(5) by auto
  qed
  show "n \<in> set (mg_kind_versions k g) \<Longrightarrow> nid_kind (node_id_of n) = k" for n k by (auto simp: mg_kind_versions_def d(5))
qed (simp_all add: mg_latest_def mg_earliest_def)

text \<open>
  The latest version that a snapshot of a reachable registry reports for a kind is a registered model
  of the kind, and no registered model of the kind is above it; \<open>CatalogError\<close> is raised exactly when the
  kind has no registered model. The earliest version is dual.
\<close>

theorem snapshot_latest:
  assumes "reg_reachable cfg r" "build_graph ty cfg r expected = Inr g"
  shows "(case mg_latest k g of
      Inr n \<Rightarrow> find_model (node_id_of n) r = Some n \<and> nid_kind (node_id_of n) = k
        \<and> (\<forall>i m. find_model i r = Some m \<longrightarrow> nid_kind i = k \<longrightarrow> i \<le> node_id_of n)
    | Inl e \<Rightarrow> e = CatalogError \<and> (\<forall>i. nid_kind i = k \<longrightarrow> find_model i r = None))
    \<and> (case mg_earliest k g of
      Inr n \<Rightarrow> find_model (node_id_of n) r = Some n \<and> nid_kind (node_id_of n) = k
        \<and> (\<forall>i m. find_model i r = Some m \<longrightarrow> nid_kind i = k \<longrightarrow> node_id_of n \<le> i)
    | Inl e \<Rightarrow> e = CatalogError \<and> (\<forall>i. nid_kind i = k \<longrightarrow> find_model i r = None))"
proof -
  have wf: "reg_wf cfg r" by (rule reg_reachable_wf [OF assms(1)])
  have l: "mg_latest k g = latest k r" "mg_earliest k g = earliest k r" using snapshot_lookups [OF assms] by auto
  have "e = CatalogError \<and> latest k r = Inl CatalogError" if "latest k r = Inl e \<or> earliest k r = Inl e" for e
    using that by (auto simp: latest_def earliest_def split: if_splits)
  then show ?thesis
    unfolding l
    using registry_catalog.latest_greatest [OF wf, of k] registry_catalog.earliest_least [OF wf, of k]
      registry_catalog.catalog_error_iff [OF wf, of k]
    by (auto split: sum.splits)
qed

text \<open>
  \<open>edge_entries\<close> with an \<open>origin\<close> finds nothing in a graph that the builder made: the metadata of an edge
  that the builder stores holds \<open>strategy\<close> and \<open>migration_id\<close> only.
\<close>

theorem edge_entries_origin_empty:
  assumes "build_graph ty cfg r expected = Inr g"
  shows "edge_entries kind executable (Some x) g = []"
proof -
  have step: "\<forall>i md. map_of (et_metadata t') i = Some md \<longrightarrow> map_of md ''origin'' = None"
    if "foldR (add_snapshot_edge cfg r) es t = Inr t'" "\<forall>i md. map_of (et_metadata t) i = Some md \<longrightarrow> map_of md ''origin'' = None"
    for es t t'
    using that
  proof (induction es arbitrary: t)
    case (Cons e es)
    then obtain t1 where t1: "add_snapshot_edge cfg r e t = Inr t1" "foldR (add_snapshot_edge cfg r) es t1 = Inr t'"
      by (auto simp: bindR_eq_Inr)
    have "\<forall>i md. map_of (et_metadata t1) i = Some md \<longrightarrow> map_of md ''origin'' = None"
      using Cons.prems(2) add_snapshot_edge_Inr [OF t1(1)] by (auto simp: update_conv' split: option.splits if_splits)
    then show ?case by (rule Cons.IH [OF t1(2)])
  qed simp
  from assms obtain t nds edgs args where t: "snapshot_edges cfg r = Inr t" "mg_backend g = build_backend nds edgs args"
    "ba_edge_metadata args = et_metadata t"
    by (force simp: build_graph_def bindR_eq_Inr Let_def split: if_splits)
  have "map_of (dict_get (edge_metadata (mg_backend g)) i []) ''origin'' = None" for i
    using step [OF t(1) [unfolded snapshot_edges_def]] t(2,3)
    by (auto simp: build_backend_def Let_def dict_get_def split: option.splits)
  then show ?thesis by (auto simp: edge_entries_def)
qed

section \<open>A concrete snapshot\<close>

definition sample_types :: value_types where
  "sample_types = \<lparr>is_semver = (\<lambda>_. False), is_date = (\<lambda>_. False)\<rparr>"

definition sample_migration :: "nat edge" where
  "sample_migration = VersionEdge (sample_model 1) (sample_model 2) ''default''
     \<lparr>mgr_provider_id = ''p'', mgr_entity_id = ''f'', mgr_metadata = []\<rparr>
     \<lparr>diff_source = sample_model 1, diff_target = sample_model 2, diff_fields = [], diff_origin = SCHEMA\<rparr>
     \<lparr>md_strategy = ''callable'', md_identity = ''f''\<rparr>"

definition sample_migrated :: "nat registry" where
  "sample_migrated = snd (store_migration_edge sample_cfg sample_migration sample_two)"

lemma sample_migrated_reachable: "reg_reachable sample_cfg sample_migrated"
  unfolding sample_migrated_def
proof (rule rr_step [OF sample_two_reachable st_store_edge])
  show "edge_ok (eid_of sample_migration)"
    by (simp add: sample_migration_def eid_of_def edge_ok_def sample_model_def)
  have "digest_index sample_two = None" by code_simp
  then show "digestable sample_cfg (digest_index sample_two) sample_migration" by (simp add: digestable_def)
qed

lemma sample_snapshot_ok: "okR (build_graph sample_types sample_cfg sample_migrated None)"
  by code_simp

definition sample_snapshot :: "nat migration_graph" where
  "sample_snapshot = (case build_graph sample_types sample_cfg sample_migrated None of Inr g \<Rightarrow> g | Inl _ \<Rightarrow> undefined)"

lemma sample_snapshot: "build_graph sample_types sample_cfg sample_migrated None = Inr sample_snapshot"
  using sample_snapshot_ok by (cases "build_graph sample_types sample_cfg sample_migrated None") (simp_all add: sample_snapshot_def)

lemma sample_migrated_versions: "kind_versions ''K'' sample_migrated = [sample_model 1, sample_model 2]"
  by code_simp

lemma sample_has_migration:
  "has_migration (EdgeId (NodeId ''a'' ''K'' 1) (NodeId ''a'' ''K'' 2) ''default'') sample_migrated = Inr True"
  by code_simp

lemma sample_node_id [simp]: "node_id_of (sample_model v) = NodeId ''a'' ''K'' v"
  by (simp add: sample_model_def)

lemmas sample_lookups = snapshot_lookups [OF sample_migrated_reachable sample_snapshot]

lemma sample_latest: "mg_latest ''K'' sample_snapshot = Inr (sample_model 2)"
  using sample_lookups [of undefined "''K''" undefined undefined] by (simp add: latest_def sample_migrated_versions)

lemma sample_mg_has_migration: "mg_has_migration (EdgeId (NodeId ''a'' ''K'' 1) (NodeId ''a'' ''K'' 2) ''default'') sample_snapshot"
  using sample_lookups [of undefined "''K''" undefined "EdgeId (NodeId ''a'' ''K'' 1) (NodeId ''a'' ''K'' 2) ''default''"]
    sample_has_migration by (simp add: edge_ok_def)

lemma sample_edge_path:
  "\<exists>e. edge_path (NodeId ''a'' ''K'' 1) (NodeId ''a'' ''K'' 2) ''default'' sample_snapshot = Inr [e]
     \<and> eid_of e = EdgeId (NodeId ''a'' ''K'' 1) (NodeId ''a'' ''K'' 2) ''default''"
proof -
  have wf: "backend_wf (mg_backend sample_snapshot)"
    using build_graph_backend [OF reg_reachable_wf [OF sample_migrated_reachable] sample_snapshot] by blast
  have vs: "mg_kind_versions ''K'' sample_snapshot = [sample_model 1, sample_model 2]"
    using sample_lookups [of undefined "''K''"] sample_migrated_versions by simp
  have "edge_path (NodeId ''a'' ''K'' 1) (NodeId ''a'' ''K'' 2) ''default'' sample_snapshot =
      edge_walk [sample_model 1, sample_model 2] ''default'' sample_snapshot 0 1"
    using edge_path_positions [OF wf, of 0 "''K''" 1] by (simp add: vs)
  moreover have "okR (step_edge (step_key [sample_model 1, sample_model 2] ''default'' (0, Suc 0)) sample_snapshot)"
    using sample_mg_has_migration by (simp add: step_edge_ok [OF wf] step_key_def)
  then obtain e where e: "step_edge (step_key [sample_model 1, sample_model 2] ''default'' (0, Suc 0)) sample_snapshot = Inr e"
    by (auto simp: okR_iff)
  moreover have "eid_of e = EdgeId (NodeId ''a'' ''K'' 1) (NodeId ''a'' ''K'' 2) ''default''"
    using e unfolding step_edge_Inr [OF wf] by (simp add: step_key_def)
  ultimately show ?thesis by (intro exI [of _ e]) (simp add: edge_walk_steps [OF wf] walk_steps_def)
qed

theorem snapshot_agrees_witness:
  "mg_kind_versions ''K'' sample_snapshot = [sample_model 1, sample_model 2]
   \<and> mg_has_migration (EdgeId (NodeId ''a'' ''K'' 1) (NodeId ''a'' ''K'' 2) ''default'') sample_snapshot"
  using snapshot_agrees [OF sample_migrated_reachable sample_snapshot, of undefined "''K''" undefined
      "EdgeId (NodeId ''a'' ''K'' 1) (NodeId ''a'' ''K'' 2) ''default''"]
    sample_migrated_versions sample_has_migration by (simp add: edge_ok_def)

text \<open>
  Three lookups that a snapshot answers differently from its registry: \<open>has_model\<close> of the registry is true
  of an entry without a model, that of the snapshot is not; the registry has only the kinds with
  migrations, the snapshot also those with entries; and \<open>is_adjacent\<close> of the registry takes the place
  where an unregistered version would be inserted, that of the snapshot is false for it.
\<close>

definition sample_key_only :: "nat registry" where
  "sample_key_only = snd (store sample_cfg (IdNode (NodeId ''a'' ''K'' 3)) sample_two)"

theorem snapshot_lookups_differ:
  "case build_graph sample_types sample_cfg sample_key_only None of
     Inl _ \<Rightarrow> False
   | Inr g \<Rightarrow> has_model (NodeId ''a'' ''K'' 3) sample_key_only \<and> \<not> mg_has_model (NodeId ''a'' ''K'' 3) g
       \<and> kinds sample_key_only = [] \<and> mg_kinds g = [''K'']
       \<and> fst (is_adjacent (EdgeId (NodeId ''a'' ''K'' 3) (NodeId ''a'' ''K'' 4) ''default'') sample_key_only) = Inr True
       \<and> \<not> mg_is_adjacent (EdgeId (NodeId ''a'' ''K'' 3) (NodeId ''a'' ''K'' 4) ''default'') g"
  by code_simp

text \<open>
  \<open>copy_from\<close> a registry without a digest index keeps the digest index of the target while it replaces
  everything else: a digest then still finds an edge that the registry does not have any more.
\<close>

definition sample_indexed :: "nat registry" where
  "sample_indexed = snd (store_migration_edge sample_cfg sample_migration (sample_two\<lparr>digest_index := Some []\<rparr>))"

theorem copy_keeps_digests:
  "case edge_digest (cfg_hash sample_cfg) (cfg_show sample_cfg) sample_migration of
     Inl _ \<Rightarrow> False
   | Inr d \<Rightarrow> (let r = snd (copy_from sample_two sample_indexed) in
       find_edge_by_digest d r = Some (edge_key_of sample_migration)
         \<and> has_migration (eid_of sample_migration) sample_indexed = Inr True
         \<and> has_migration (eid_of sample_migration) r = Inr False)"
  by code_simp

theorem edge_path_correct_witness:
  "okR (edge_path (NodeId ''a'' ''K'' 1) (NodeId ''a'' ''K'' 2) ''default'' sample_snapshot)"
  using edge_path_correct [OF sample_migrated_reachable sample_snapshot, of 0 "''K''" "Suc 0" "''default''"] sample_mg_has_migration
  by (simp add: sample_migrated_versions walk_steps_def step_key_def)

theorem edge_path_errors_witness:
  "edge_path (NodeId ''a'' ''K'' 1) (NodeId ''a'' ''L'' 2) ''default'' sample_snapshot = Inl CatalogError"
  using edge_path_errors [OF sample_migrated_reachable sample_snapshot, of "NodeId ''a'' ''K'' 1" "NodeId ''a'' ''L'' 2"] by simp

theorem snapshot_latest_witness: "find_model (NodeId ''a'' ''K'' 2) sample_migrated = Some (sample_model 2)"
  using snapshot_latest [OF sample_migrated_reachable sample_snapshot, of "''K''"] by (simp add: sample_latest)

theorem edge_entries_origin_empty_witness: "edge_entries None None (Some ''schema'') sample_snapshot = []"
  by (rule edge_entries_origin_empty [OF sample_snapshot])

end
