(* ===== verification/Engine.thy ===== *)
theory Engine
  imports Graph Health "HOL-Library.Sublist"
begin

text \<open>
  The build-time facade of \<open>core/engine.py\<close>: one registry and one model adapter. Every operation on the
  registry is an operation on its state; the adapter is code of a provider and a record of parameters. Also
  the index operators of the registry, which the facade exposes.
\<close>

section \<open>The engine and its adapter\<close>

record ('v, 'm) engine_adapter =
  ea_namespace :: string
  ea_versionable :: "'m \<Rightarrow> 'v node res"
  ea_version_key :: "string \<Rightarrow> 'v version_arg \<Rightarrow> 'v node res"
  ea_ref :: "'m \<Rightarrow> model_ref res"
  ea_identify :: "'m \<Rightarrow> bool"
  ea_resolve :: "model_ref \<Rightarrow> 'm res"

record ('v, 'm, 'b) engine =
  eg_config :: "('v, 'b) reg_config"
  eg_adapter :: "('v, 'm) engine_adapter"
  eg_types :: value_types

definition engine_namespace :: "('v, 'm, 'b) engine \<Rightarrow> string" where
  "engine_namespace eg = ea_namespace (eg_adapter eg)"

definition model_count :: "'v registry \<Rightarrow> nat" where
  "model_count r = length (versions r)"

definition migration_count :: "'v registry \<Rightarrow> nat" where
  "migration_count r = sum_list (map (\<lambda>k. length (migrations k r)) (kinds r))"

definition list_versions :: "string option \<Rightarrow> 'v registry \<Rightarrow> 'v node list" where
  "list_versions kind r = (case kind of None \<Rightarrow> versions r | Some k \<Rightarrow> kind_versions k r)"

text \<open>A payload is an entry (\<open>VersionKey\<close> or its subclass \<open>VersionNode\<close>) or a class that the adapter knows.\<close>

datatype ('v, 'm) payload = EntryPayload "'v node" | ClassPayload 'm

definition payload_entry :: "('v, 'm, 'b) engine \<Rightarrow> ('v, 'm) payload \<Rightarrow> 'v node res" where
  "payload_entry eg p = (case p of EntryPayload n \<Rightarrow> Inr n | ClassPayload m \<Rightarrow> ea_versionable (eg_adapter eg) m)"

definition store_model :: "('v::linorder, 'm, 'b) engine \<Rightarrow> ('v, 'm) payload \<Rightarrow> ('v registry, 'v node) op" where
  "store_model eg payload = bindS (liftS (payload_entry eg payload)) (\<lambda>entry.
     if is_model entry then hydrate (eg_config eg) entry
     else (\<lambda>r. case find_entry (node_id_of entry) r of
       Some existing \<Rightarrow> (Inr existing, r)
     | None \<Rightarrow> store (eg_config eg) entry r))"

definition reconcile_model :: "('v::linorder, 'm, 'b) engine \<Rightarrow> ('v, 'm) payload \<Rightarrow> ('v registry, 'v node) op" where
  "reconcile_model eg payload = bindS (liftS (payload_entry eg payload)) (reconcile (eg_config eg))"

definition get_model_by_class :: "('v, 'm, 'b) engine \<Rightarrow> 'm \<Rightarrow> 'v registry \<Rightarrow> 'v node res" where
  "get_model_by_class eg m r = bindR (ea_ref (eg_adapter eg) m) (\<lambda>ref. get_model_by_ref ref r)"

definition remove_model_by_class :: "('v::linorder, 'm, 'b) engine \<Rightarrow> 'm \<Rightarrow> ('v registry, unit) op" where
  "remove_model_by_class eg m = bindS (liftS (ea_ref (eg_adapter eg) m)) (remove_model_by_ref (eg_config eg))"

section \<open>Index operators\<close>

datatype 'v index = NodeIndex "'v node_id" | EdgeIndex "'v edge_id" | OtherIndex

definition registry_contains :: "'v::linorder index \<Rightarrow> 'v registry \<Rightarrow> bool res" where
  "registry_contains i r = (case i of NodeIndex n \<Rightarrow> Inr (has_entry n r) | EdgeIndex e \<Rightarrow> Inr (has_edge e r) | OtherIndex \<Rightarrow> Inl CatalogError)"

definition registry_getitem :: "'v::linorder index \<Rightarrow> 'v registry \<Rightarrow> 'v entity res" where
  "registry_getitem i r = (case i of
     NodeIndex n \<Rightarrow> bindR (get_entry n r) (\<lambda>x. Inr (NodeE x))
   | EdgeIndex e \<Rightarrow> bindR (get_edge e r) (\<lambda>x. Inr (EdgeE x))
   | OtherIndex \<Rightarrow> Inl CatalogError)"

definition engine_contains :: "'v::linorder index \<Rightarrow> 'v registry \<Rightarrow> bool res" where
  "engine_contains i r = (case registry_contains i r of
     Inl e \<Rightarrow> if is_catalog_error e \<or> e = TypeError then Inr False else Inl e
   | Inr b \<Rightarrow> Inr b)"

section \<open>Health\<close>

definition missing_reference :: "'v health_issue \<Rightarrow> bool" where
  "missing_reference i \<longleftrightarrow> prefix ''reference.missing.'' (hi_code i)"

datatype 'v validation_key = KeyOf "'v node_id" | NodeOf "'v node"

definition validated_versions :: "'v::linorder validation_key option \<Rightarrow> 'v registry \<Rightarrow> 'v node list res" where
  "validated_versions key r = (case key of
     None \<Rightarrow> Inr (versions r)
   | Some (NodeOf n) \<Rightarrow> if is_model n then Inr [n] else bindR (get_model (node_id_of n) r) (\<lambda>m. Inr [m])
   | Some (KeyOf i) \<Rightarrow> bindR (get_model i r) (\<lambda>m. Inr [m]))"

definition engine_validate :: "('v::linorder, 'm, 'b) engine \<Rightarrow> 'v validation_key option \<Rightarrow> 'v registry \<Rightarrow> unit res" where
  "engine_validate eg key r = bindR (validated_versions key r) (\<lambda>vs.
     bindR (mapR (\<lambda>v. bindR (health (eg_config eg) (Some (NodeE v)) None r) (\<lambda>issues.
       if filter missing_reference issues \<noteq> [] then Inl MissingReferenceError else Inr ())) vs) (\<lambda>_. Inr ()))"

section \<open>Migrations\<close>

text \<open>A specification is given by a pair of entries; \<open>backward_compatible\<close> is carried and not read.\<close>

definition engine_store_migration :: "('v::linorder, 'm, 'b) engine \<Rightarrow> 'v node \<times> 'v node \<Rightarrow> callable \<Rightarrow> string \<Rightarrow> ('v registry, 'v edge) op" where
  "engine_store_migration eg key func discriminator = store_migration_spec (eg_config eg)
     \<lparr>spec_from = fst key, spec_to = snd key, spec_func = func, spec_discriminator = discriminator\<rparr>"

definition engine_reconstruct :: "('v::linorder, 'm, 'b) engine \<Rightarrow> 'v node \<Rightarrow> 'v node \<Rightarrow> callable \<Rightarrow> ('v registry, unit) op" where
  "engine_reconstruct eg anchor target migration =
     bindS (liftS (reflect (eg_config eg) anchor target migration)) (\<lambda>n. bindS (store (eg_config eg) n) (\<lambda>_. returnS ()))"

definition propose_migration :: "('v, 'm, 'b) engine \<Rightarrow> 'v node \<Rightarrow> 'v node \<Rightarrow> 'b res" where
  "propose_migration eg source target = bind_migration (eg_config eg) source target"

definition engine_remove_migration :: "('v::linorder, 'm, 'b) engine \<Rightarrow> 'v edge_id \<Rightarrow> bool \<Rightarrow> ('v registry, unit) op" where
  "engine_remove_migration eg key force =
     bindS (\<lambda>r. (get_migration key r, r)) (\<lambda>edge.
     bindS (if force then returnS ()
            else bindS (is_adjacent key) (\<lambda>adjacent. if \<not> adjacent then raiseS CatalogError
              else bindS (is_critical_edge key) (\<lambda>critical. if critical then raiseS CatalogError else returnS ()))) (\<lambda>_.
     remove_migration (eg_config eg) (edge_key_of edge)))"

definition snapshot :: "('v::linorder, 'm, 'b) engine \<Rightarrow> revision option \<Rightarrow> 'v registry \<Rightarrow> 'v migration_graph res" where
  "snapshot eg revision r = build_graph (eg_types eg) (eg_config eg) r revision"

definition find_migration_path :: "('v::linorder, 'm, 'b) engine \<Rightarrow> 'v node_id \<Rightarrow> 'v node_id \<Rightarrow> 'v registry \<Rightarrow> ('v node \<times> 'v node) list res" where
  "find_migration_path eg a b r = bindR (snapshot eg None r) (migration_path a b)"

definition engine_copy :: "'v registry \<Rightarrow> 'v registry res" where
  "engine_copy r = bindR (new_registry (reg_namespace r) (digest_index r \<noteq> None)) (\<lambda>fresh. Inr (snd (copy_from r fresh)))"

section \<open>Hooks\<close>

definition engine_add_hook :: "('v::linorder, 'm, 'b) engine \<Rightarrow> 'v edge_id \<Rightarrow> hook_ref \<Rightarrow> ('v registry, unit) op" where
  "engine_add_hook eg key hook = bindS (\<lambda>r. (get_migration key r, r)) (\<lambda>edge. add_hook (eg_config eg) edge hook)"

definition engine_remove_hook :: "('v::linorder, 'm, 'b) engine \<Rightarrow> 'v edge_id \<Rightarrow> hook_ref option \<Rightarrow> ('v registry, unit) op" where
  "engine_remove_hook eg key hook = bindS (\<lambda>r. (get_migration key r, r)) (\<lambda>edge. remove_hook (eg_config eg) edge hook)"

definition engine_clear_hooks :: "'v::linorder edge_id option \<Rightarrow> ('v registry, unit) op" where
  "engine_clear_hooks key = (case key of
     None \<Rightarrow> clear_hooks None
   | Some k \<Rightarrow> bindS (\<lambda>r. (get_migration k r, r)) (\<lambda>edge. clear_hooks (Some (eid_of edge))))"

text \<open>
  \<open>attach_hooks\<close> takes any iterable: a collection can be read for every edge, a generator only once. The
  hooks are those still to come.
\<close>

datatype hook_source = Collection "hook_ref list" | Generator "hook_ref list"

fun hooks_once :: "hook_source \<Rightarrow> hook_ref list \<times> hook_source" where
  "hooks_once (Collection hs) = (hs, Collection hs)"
| "hooks_once (Generator hs) = (hs, Generator [])"

fun attach_to :: "('v::linorder, 'm, 'b) engine \<Rightarrow> 'v edge list \<Rightarrow> hook_source \<Rightarrow> ('v registry, hook_source) op" where
  "attach_to eg [] src = returnS src"
| "attach_to eg (e # es) src = (case hooks_once src of (hs, src') \<Rightarrow>
     bindS (forS (add_hook (eg_config eg) e) hs) (\<lambda>_. attach_to eg es src'))"

fun attach_kinds :: "('v::linorder, 'm, 'b) engine \<Rightarrow> string list \<Rightarrow> hook_source \<Rightarrow> ('v registry, hook_source) op" where
  "attach_kinds eg [] src = returnS src"
| "attach_kinds eg (k # ks) src = bindS (\<lambda>r. attach_to eg (migrations k r) src r) (attach_kinds eg ks)"

definition attach_hooks :: "('v::linorder, 'm, 'b) engine \<Rightarrow> hook_source \<Rightarrow> ('v registry, unit) op" where
  "attach_hooks eg src r = bindS (attach_kinds eg (kinds r) src) (\<lambda>_. returnS ()) r"

section \<open>What an engine can reach\<close>

text \<open>
  The calls of an engine that change its registry. The premise of \<open>es_store_migration\<close> is that the content of
  the new edge can be hashed.
\<close>

inductive engine_step :: "('v::linorder, 'm, 'b) engine \<Rightarrow> 'v registry \<Rightarrow> 'v registry \<Rightarrow> bool" for eg where
  es_store_model: "engine_step eg r (snd (store_model eg p r))"
| es_reconcile_model: "engine_step eg r (snd (reconcile_model eg p r))"
| es_remove_model: "engine_step eg r (snd (remove_model (eg_config eg) i r))"
| es_remove_class: "engine_step eg r (snd (remove_model_by_class eg m r))"
| es_store_migration: "(\<And>e r'. resolve_spec_edge (eg_config eg) \<lparr>spec_from = a, spec_to = b, spec_func = f, spec_discriminator = x\<rparr> r = (Inr e, r')
      \<Longrightarrow> digestable (eg_config eg) (digest_index r') e) \<Longrightarrow> engine_step eg r (snd (engine_store_migration eg (a, b) f x r))"
| es_reconstruct: "engine_step eg r (snd (engine_reconstruct eg anchor target f r))"
| es_remove_migration: "engine_step eg r (snd (engine_remove_migration eg k force r))"
| es_remove_range: "engine_step eg r (snd (remove_migration_range (eg_config eg) i j r))"
| es_delete_kind: "engine_step eg r (snd (delete_kind (eg_config eg) kd r))"
| es_add_hook: "engine_step eg r (snd (engine_add_hook eg k h r))"
| es_remove_hook: "engine_step eg r (snd (engine_remove_hook eg k ho r))"
| es_clear_hooks: "engine_step eg r (snd (engine_clear_hooks ko r))"
| es_attach_hooks: "engine_step eg r (snd (attach_hooks eg src r))"
| es_copy: "engine_copy r = Inr r' \<Longrightarrow> engine_step eg r r'"

inductive engine_reachable :: "('v::linorder, 'm, 'b) engine \<Rightarrow> 'v registry \<Rightarrow> bool" for eg where
  er_new: "new_registry ns idx = Inr r \<Longrightarrow> engine_reachable eg r"
| er_step: "engine_reachable eg r \<Longrightarrow> engine_step eg r r' \<Longrightarrow> engine_reachable eg r'"

lemma keeps_reachable [keeps_intros]:
  "keeps (reg_reachable cfg) (store cfg n)" "keeps (reg_reachable cfg) (hydrate cfg n)" "keeps (reg_reachable cfg) (reconcile cfg n)"
  "keeps (reg_reachable cfg) (remove_model_by_ref cfg ref)" "keeps (reg_reachable cfg) (is_adjacent i)"
  "keeps (reg_reachable cfg) (is_critical_edge i)" "keeps (reg_reachable cfg) (remove_migration cfg e)"
  "keeps (reg_reachable cfg) (add_hook cfg e h)" "keeps (reg_reachable cfg) (remove_hook cfg e ho)" "keeps (reg_reachable cfg) (clear_hooks ko)"
  "keeps (reg_reachable cfg) (remove_model cfg j)" "keeps (reg_reachable cfg) (remove_migration_range cfg j l)"
  "keeps (reg_reachable cfg) (delete_kind cfg kd)"
  by (auto intro!: keepsI intro: rr_step reg_step.intros)

lemma keeps_read [keeps_intros]: "keeps P (\<lambda>r. (f r, r))"
  by (simp add: keeps_def)

lemma keeps_attach_to [keeps_intros]: "keeps (reg_reachable (eg_config eg)) (attach_to eg es src)"
  by (induction eg es src rule: attach_to.induct) (auto intro!: keeps_intros split: prod.splits)

lemma keeps_attach_kinds [keeps_intros]: "keeps (reg_reachable (eg_config eg)) (attach_kinds eg ks src)"
proof (induction ks arbitrary: src)
  case (Cons k ks)
  have "keeps (reg_reachable (eg_config eg)) (\<lambda>r. attach_to eg (migrations k r) src r)"
    using keeps_attach_to [of eg] by (simp add: keeps_def)
  then show ?case using Cons.IH by (auto intro!: keeps_intros)
qed (simp add: keeps_intros)

text \<open>A copy is the registry itself: a new registry with every store taken over.\<close>

lemma engine_copy_same: "reg_wf cfg r \<Longrightarrow> engine_copy r = Inr r"
  by (cases r) (auto simp: engine_copy_def new_registry_def copy_from_def reg_wf_def split: option.splits)

text \<open>
  An engine produces only registries that the registry's own operations produce: whatever calls are made on
  an engine, failing ones included, its registry is reachable. So the invariant, the refinement of the
  catalog and every property of snapshots and plans hold for the registry of any engine.
\<close>

theorem engine_reachable_registry:
  assumes "engine_reachable eg r"
  shows "reg_reachable (eg_config eg) r"
  using assms
proof induction
  case (er_step r r')
  from er_step.hyps(2) er_step.IH show ?case
  proof cases
    case (es_store_model p)
    have "keeps (reg_reachable (eg_config eg)) (store_model eg p)"
      unfolding store_model_def by (intro keeps_intros) (auto intro!: keepsI intro: keepsD [OF keeps_reachable(1)] split: option.split)
    then show ?thesis using es_store_model er_step.IH by (auto dest: keepsD)
  next
    case (es_store_migration a b f x)
    then show ?thesis using er_step.IH by (auto simp: engine_store_migration_def intro: rr_step reg_step.intros)
  next
    case (es_clear_hooks ko)
    have "keeps (reg_reachable (eg_config eg)) (engine_clear_hooks ko)"
      unfolding engine_clear_hooks_def by (cases ko) (auto intro!: keeps_intros)
    then show ?thesis using es_clear_hooks er_step.IH by (auto dest: keepsD)
  next
    case (es_attach_hooks src)
    have "keeps (reg_reachable (eg_config eg)) (bindS (attach_kinds eg ks src) (\<lambda>_. returnS ()))" for ks by (intro keeps_intros)
    then show ?thesis using es_attach_hooks er_step.IH by (auto simp: attach_hooks_def keeps_def)
  next
    case es_copy
    then show ?thesis using engine_copy_same [OF reg_reachable_wf [OF er_step.IH]] er_step.IH by simp
  qed (auto simp: reconcile_model_def remove_model_by_class_def engine_reconstruct_def engine_remove_migration_def engine_add_hook_def
      engine_remove_hook_def intro: rr_step reg_step.intros intro!: keepsD [of "reg_reachable (eg_config eg)"] keeps_intros)
qed (auto intro: rr_new)

lemma get_migration_at: "reg_wf cfg r \<Longrightarrow> get_migration key r = Inr e \<Longrightarrow> eid_of e = key \<and> is_executable e"
  by (cases key) (auto simp: get_migration_def find_edge_def eid_key_def bindR_eq_Inr mk_edge_id_ok sorted_find_def Let_def split: option.splits if_splits)

text \<open>
  The guard against removing critical migrations refuses every removal: when more than two edges of the
  kind are stored, \<open>remove_migration\<close> without \<open>force\<close> raises for every migration, wherever it is, and leaves
  the stored entries and edges as they were. With \<open>force\<close> a migration without hooks is removed.
\<close>

theorem unforced_removal_refused:
  assumes "reg_reachable (eg_config eg) r" "get_migration key r = Inr e"
  shows "(length (edges (eid_kind key) r) > 2 \<longrightarrow> fst (engine_remove_migration eg key False r) = Inl CatalogError
        \<and> catalog_of (snd (engine_remove_migration eg key False r)) = catalog_of r)
    \<and> (\<not> has_hooks key r \<longrightarrow> fst (engine_remove_migration eg key True r) = Inr ()
        \<and> cat_edges (catalog_of (snd (engine_remove_migration eg key True r))) = (cat_edges (catalog_of r))(key := None))"
proof -
  have wf: "reg_wf (eg_config eg) r" by (rule reg_reachable_wf [OF assms(1)])
  have e: "eid_of e = key" using get_migration_at [OF wf assms(2)] by blast
  let ?r1 = "r\<lparr>by_kinds := dict_touch [] (eid_kind key) (by_kinds r)\<rparr>"
  have "length (edges (eid_kind key) r) > 2 \<Longrightarrow> fst (is_critical_edge key ?r1) = Inr True"
    by (auto simp: is_critical_edge_def Let_def edges_def)
  moreover have "catalog_of (snd (is_critical_edge key ?r1)) = catalog_of r"
    by (simp add: is_critical_edge_def Let_def catalog_of_def edge_at_def find_entry_def dict_simps)
  ultimately have "length (edges (eid_kind key) r) > 2 \<Longrightarrow> fst (engine_remove_migration eg key False r) = Inl CatalogError
      \<and> catalog_of (snd (engine_remove_migration eg key False r)) = catalog_of r"
    using assms(2) by (cases "is_critical_edge key ?r1") (auto simp: engine_remove_migration_def bindS_def is_adjacent_def)
  moreover have "\<not> has_hooks key r \<Longrightarrow> fst (engine_remove_migration eg key True r) = Inr ()
      \<and> cat_edges (catalog_of (snd (engine_remove_migration eg key True r))) = (cat_edges (catalog_of r))(key := None)"
    using refines_remove_migration [OF wf, of "edge_key_of e"] assms(2) e
    by (cases "remove_migration (eg_config eg) (edge_key_of e) r"; cases "fst (remove_migration (eg_config eg) (edge_key_of e) r)")
      (auto simp: engine_remove_migration_def bindS_def refines_def spec_remove_migration_def has_hooks_def dict_has_def split: sum.splits option.splits)
  ultimately show ?thesis by blast
qed

section \<open>Attaching hooks\<close>

lemma add_hooks_to:
  "\<exists>r'. forS (add_hook cfg e) hs r = (Inr (), r') \<and> migrations_of_kind r' = migrations_of_kind r
     \<and> (\<forall>i. get_hooks i r' = get_hooks i r @ (if i = eid_of e then hs else []))"
proof (induction hs arbitrary: r)
  case (Cons h hs)
  obtain r1 where r1: "add_hook cfg e h r = (Inr (), r1)" "migrations_of_kind r1 = migrations_of_kind r"
    "\<forall>i. get_hooks i r1 = get_hooks i r @ (if i = eid_of e then [h] else [])"
    by (simp add: add_hook_def get_hooks_def dict_simps)
  from Cons.IH [of r1] obtain r' where "forS (add_hook cfg e) hs r1 = (Inr (), r')" "migrations_of_kind r' = migrations_of_kind r1"
    "\<forall>i. get_hooks i r' = get_hooks i r1 @ (if i = eid_of e then hs else [])" by blast
  then show ?case using r1 by (intro exI [of _ r']) (auto simp: bindS_def)
qed simp

text \<open>The hooks that edge \<open>i\<close> gets while the edges are gone through.\<close>

fun attached :: "hook_source \<Rightarrow> 'v edge list \<Rightarrow> 'v edge_id \<Rightarrow> hook_ref list" where
  "attached src [] i = []"
| "attached src (e # es) i = (if i = eid_of e then fst (hooks_once src) else []) @ attached (snd (hooks_once src)) es i"

lemma attach_to_hooks:
  "\<exists>r'. attach_to eg es src r = (Inr (if es = [] then src else snd (hooks_once src)), r') \<and> migrations_of_kind r' = migrations_of_kind r
     \<and> (\<forall>i. get_hooks i r' = get_hooks i r @ attached src es i)"
proof (induction es arbitrary: src r)
  case (Cons e es)
  obtain r1 where r1: "forS (add_hook (eg_config eg) e) (fst (hooks_once src)) r = (Inr (), r1)" "migrations_of_kind r1 = migrations_of_kind r"
    "\<forall>i. get_hooks i r1 = get_hooks i r @ (if i = eid_of e then fst (hooks_once src) else [])"
    using add_hooks_to [of "eg_config eg" e "fst (hooks_once src)" r] by blast
  have twice: "snd (hooks_once (snd (hooks_once src))) = snd (hooks_once src)" by (cases src) simp_all
  from Cons.IH [of "snd (hooks_once src)" r1] obtain r' where
    "attach_to eg es (snd (hooks_once src)) r1 = (Inr (snd (hooks_once src)), r')" "migrations_of_kind r' = migrations_of_kind r1"
    "\<forall>i. get_hooks i r' = get_hooks i r1 @ attached (snd (hooks_once src)) es i" using twice by auto
  then show ?case using r1 by (intro exI [of _ r']) (auto simp: bindS_def split: prod.splits)
qed simp

lemma attached_append: "attached src (es @ fs) i = attached src es i @ attached (if es = [] then src else snd (hooks_once src)) fs i"
proof (induction es arbitrary: src)
  case (Cons e es)
  have "snd (hooks_once (snd (hooks_once src))) = snd (hooks_once src)" by (cases src) simp_all
  then show ?case using Cons.IH by auto
qed simp

lemma attach_kinds_hooks:
  "\<exists>src' r'. attach_kinds eg ks src r = (Inr src', r') \<and> migrations_of_kind r' = migrations_of_kind r
     \<and> (\<forall>i. get_hooks i r' = get_hooks i r @ attached src (concat (map (\<lambda>k. migrations k r) ks)) i)"
proof (induction ks arbitrary: src r)
  case (Cons k ks)
  obtain r1 where r1: "attach_to eg (migrations k r) src r = (Inr (if migrations k r = [] then src else snd (hooks_once src)), r1)"
    "migrations_of_kind r1 = migrations_of_kind r" "\<forall>i. get_hooks i r1 = get_hooks i r @ attached src (migrations k r) i"
    using attach_to_hooks [of eg "migrations k r" src r] by blast
  have same: "migrations j r1 = migrations j r" for j using r1(2) by (simp add: migrations_def)
  obtain src' r' where "attach_kinds eg ks (if migrations k r = [] then src else snd (hooks_once src)) r1 = (Inr src', r')"
    "migrations_of_kind r' = migrations_of_kind r1"
    "\<forall>i. get_hooks i r' = get_hooks i r1 @ attached (if migrations k r = [] then src else snd (hooks_once src)) (concat (map (\<lambda>k. migrations k r1) ks)) i"
    using Cons.IH [of "if migrations k r = [] then src else snd (hooks_once src)" r1] by blast
  then show ?case using r1 by (rule_tac exI [of _ src'], rule_tac exI [of _ r']) (simp add: bindS_def same attached_append)
qed simp

lemma attached_collection: "distinct (map eid_of es) \<Longrightarrow> attached (Collection hs) es i = (if i \<in> eid_of ` set es then hs else [])"
  by (induction es) auto

lemma attached_generator: "attached (Generator hs) es i = (case es of [] \<Rightarrow> [] | e # _ \<Rightarrow> if i = eid_of e then hs else [])"
proof -
  have "attached (Generator []) es i = []" for es :: "'a edge list" by (induction es) auto
  then show ?thesis by (cases es) auto
qed

text \<open>
  Attaching hooks to an engine: hooks that are given as a collection are appended, in order, to the hooks of
  every migration and of nothing else; hooks that are given as a generator reach only the first migration,
  because reading them for its sake exhausts the generator.
\<close>

theorem attach_hooks_spec:
  assumes "reg_reachable (eg_config eg) r"
  shows "(\<exists>r'. attach_hooks eg (Collection hs) r = (Inr (), r')
      \<and> (\<forall>i. get_hooks i r' = get_hooks i r @ (if \<exists>k \<in> set (kinds r). i \<in> eid_of ` set (migrations k r) then hs else [])))
    \<and> (\<exists>r'. attach_hooks eg (Generator hs) r = (Inr (), r')
      \<and> (\<forall>i. get_hooks i r' = get_hooks i r @ (case concat (map (\<lambda>k. migrations k r) (kinds r)) of
          [] \<Rightarrow> [] | e # _ \<Rightarrow> if i = eid_of e then hs else [])))"
proof -
  let ?es = "concat (map (\<lambda>k. migrations k r) (kinds r))"
  note wf = reg_reachable_wf [OF assms]
  have "distinct (map eid_of ?es)"
  proof (rule distinct_buckets [where h = eid_kind])
    show "distinct (kinds r)" using wf by (simp add: kinds_def reg_wf_def edges_wf_def dict_ok_def)
    fix k
    have b: "distinct (map eid_of (edges k r))" "\<And>e. e \<in> set (edges k r) \<Longrightarrow> eid_kind (eid_of e) = k"
      using edges_bucket [OF wf, of k] by (auto simp: bucket_wf_def asc_distinct_keys edge_kind_def)
    show "distinct (map eid_of (migrations k r))" using b(1) by (simp add: migrations_def edges_def distinct_map_filter)
    show "x \<in> set (migrations k r) \<Longrightarrow> eid_kind (eid_of x) = k" for x using b(2) by (simp add: migrations_def edges_def)
  qed
  then have c: "attached (Collection hs) ?es i = (if \<exists>k \<in> set (kinds r). i \<in> eid_of ` set (migrations k r) then hs else [])" for i
    by (auto simp: attached_collection)
  have g: "attached (Generator hs) ?es i = (case ?es of [] \<Rightarrow> [] | e # _ \<Rightarrow> if i = eid_of e then hs else [])" for i
    by (rule attached_generator)
  obtain s1 r1 where r1: "attach_kinds eg (kinds r) (Collection hs) r = (Inr s1, r1)" "\<forall>i. get_hooks i r1 = get_hooks i r @ attached (Collection hs) ?es i"
    using attach_kinds_hooks [of eg "kinds r" "Collection hs" r] by blast
  obtain s2 r2 where r2: "attach_kinds eg (kinds r) (Generator hs) r = (Inr s2, r2)" "\<forall>i. get_hooks i r2 = get_hooks i r @ attached (Generator hs) ?es i"
    using attach_kinds_hooks [of eg "kinds r" "Generator hs" r] by blast
  show ?thesis using r1 [unfolded c] r2 [unfolded g] by (auto simp: attach_hooks_def bindS_def)
qed

section \<open>A concrete engine\<close>

definition sample_engine :: "(nat, unit, unit) engine" where
  "sample_engine = \<lparr>eg_config = sample_cfg, eg_adapter = \<lparr>ea_namespace = ''a'', ea_versionable = (\<lambda>_. Inr (sample_model 1)),
     ea_version_key = (\<lambda>k v. Inl TypeError), ea_ref = (\<lambda>_. Inr sample_ref), ea_identify = (\<lambda>_. True), ea_resolve = (\<lambda>_. Inr ())\<rparr>,
     eg_types = sample_types\<rparr>"

definition sample_link :: "nat \<Rightarrow> nat \<Rightarrow> nat edge" where
  "sample_link a b = VersionEdge (sample_model a) (sample_model b) ''default''
     \<lparr>mgr_provider_id = ''p'', mgr_entity_id = ''f'', mgr_metadata = []\<rparr>
     \<lparr>diff_source = sample_model a, diff_target = sample_model b, diff_fields = [], diff_origin = SCHEMA\<rparr>
     \<lparr>md_strategy = ''callable'', md_identity = ''f''\<rparr>"

definition sample_four :: "nat registry" where
  "sample_four = snd (store sample_cfg (sample_model 4) (snd (store sample_cfg (sample_model 3) sample_two)))"

definition sample_chain :: "nat \<Rightarrow> nat registry" where
  "sample_chain n = fold (\<lambda>i r. snd (store_migration_edge sample_cfg (sample_link i (Suc i)) r)) [1..<n] sample_four"

lemma sample_four_reachable: "reg_reachable sample_cfg sample_four"
  unfolding sample_four_def by (intro keepsD [OF keeps_reachable(1)] sample_two_reachable)

lemma store_edge_no_digests: "digest_index r = None \<Longrightarrow> digest_index (snd (store_migration_edge cfg e r)) = None"
  by (auto simp: store_migration_edge_def store_edge_def insert_edge_def unlink_edge_def Let_def split: option.splits sum.splits)

lemma sample_chain_reachable: "reg_reachable sample_cfg (sample_chain n) \<and> digest_index (sample_chain n) = None"
proof (induction n)
  case 0
  have "digest_index sample_four = None" by code_simp
  then show ?case using sample_four_reachable by (simp add: sample_chain_def)
next
  case (Suc n)
  have ok: "edge_ok (eid_of (sample_link n (Suc n)))" by (simp add: sample_link_def eid_of_def edge_ok_def sample_model_def)
  show ?case
  proof (cases "1 \<le> n")
    case True
    then have "sample_chain (Suc n) = snd (store_migration_edge sample_cfg (sample_link n (Suc n)) (sample_chain n))"
      by (simp add: sample_chain_def)
    moreover have "digestable sample_cfg (digest_index (sample_chain n)) (sample_link n (Suc n))" using Suc by (simp add: digestable_def)
    ultimately show ?thesis using rr_step [OF conjunct1 [OF Suc] st_store_edge [OF ok]] store_edge_no_digests Suc by metis
  qed (use Suc in \<open>simp add: sample_chain_def\<close>)
qed

theorem engine_reachable_registry_witness:
  "reg_reachable sample_cfg (snd (store_model sample_engine (ClassPayload ()) sample_empty))"
proof -
  have "engine_reachable sample_engine sample_empty"
    by (rule er_new [of "''a''" False]) code_simp
  then have "engine_reachable sample_engine (snd (store_model sample_engine (ClassPayload ()) sample_empty))"
    by (rule er_step) (rule es_store_model)
  from engine_reachable_registry [OF this] show ?thesis by (simp add: sample_engine_def)
qed

theorem unforced_removal_refused_witness:
  "fst (engine_remove_migration sample_engine (eid_of (sample_link 1 2)) False (sample_chain 4)) = Inl CatalogError"
proof -
  have g: "get_migration (eid_of (sample_link 1 2)) (sample_chain 4) = Inr (sample_link 1 2)" by code_simp
  have "length (edges (eid_kind (eid_of (sample_link 1 2))) (sample_chain 4)) > 2" by code_simp
  moreover have "reg_reachable (eg_config sample_engine) (sample_chain 4)" using sample_chain_reachable by (simp add: sample_engine_def)
  ultimately show ?thesis using unforced_removal_refused [OF _ g, of sample_engine] by blast
qed

definition sample_hook_ref :: hook_ref where
  "sample_hook_ref = \<lparr>hr_provider_id = ''p'', hr_entity_id = ''h'', hr_config = [], hr_metadata = []\<rparr>"

theorem attach_hooks_spec_witness:
  "\<exists>r'. attach_hooks sample_engine (Generator [sample_hook_ref]) (sample_chain 4) = (Inr (), r')
     \<and> get_hooks (eid_of (sample_link 1 2)) r' = [sample_hook_ref] \<and> get_hooks (eid_of (sample_link 2 3)) r' = []"
proof -
  have "reg_reachable (eg_config sample_engine) (sample_chain 4)" using sample_chain_reachable by (simp add: sample_engine_def)
  from attach_hooks_spec [OF this, of "[sample_hook_ref]"] obtain r' where
    r': "attach_hooks sample_engine (Generator [sample_hook_ref]) (sample_chain 4) = (Inr (), r')"
    "\<forall>i. get_hooks i r' = get_hooks i (sample_chain 4) @ (case concat (map (\<lambda>k. migrations k (sample_chain 4)) (kinds (sample_chain 4))) of
        [] \<Rightarrow> [] | e # _ \<Rightarrow> if i = eid_of e then [sample_hook_ref] else [])" by blast
  have "map eid_of (concat (map (\<lambda>k. migrations k (sample_chain 4)) (kinds (sample_chain 4)))) = map eid_of [sample_link 1 2, sample_link 2 3, sample_link 3 4]"
    "hooks_of (sample_chain 4) = []" "eid_of (sample_link 1 2) \<noteq> eid_of (sample_link 2 3)" by code_simp+
  moreover from this obtain z zs where z: "concat (map (\<lambda>k. migrations k (sample_chain 4)) (kinds (sample_chain 4))) = z # zs"
    "eid_of z = eid_of (sample_link 1 2)" by (auto simp: map_eq_Cons_conv)
  ultimately show ?thesis using r'(1) r'(2) [unfolded z(1)] z(2) by (simp add: get_hooks_def dict_get_def)
qed

end
