(* ===== verification/Graph_Store.thy ===== *)
theory Graph_Store
  imports Graph
begin

text \<open>
  The in-memory graph store of \<open>core/graph/store.py\<close>: publication with a compare-and-swap on the published
  revision or generation. The clock is a service; what it returns is an argument of \<open>save\<close>. The code takes no lock:
  saves of one thread take effect one after the other, and the last section has what several threads can do, where
  reading and checking the published revision is one step and writing the new one another.
\<close>

section \<open>State and operations\<close>

record 't published_revision =
  pub_revision :: revision
  pub_generation :: int
  pub_generated_at :: 't

record ('v, 't) graph_store =
  gs_graph :: "'v migration_graph option"
  gs_published :: "'t published_revision option"

definition new_graph_store :: "('v, 't) graph_store" where
  "new_graph_store = \<lparr>gs_graph = None, gs_published = None\<rparr>"

text \<open>A check passes when nothing is expected or something is published that meets the expectation.\<close>

definition expectation_met :: "('t published_revision \<Rightarrow> 'e \<Rightarrow> bool) \<Rightarrow> 't published_revision option \<Rightarrow> 'e option \<Rightarrow> bool" where
  "expectation_met meets current expected = (case expected of
     None \<Rightarrow> True
   | Some e \<Rightarrow> (case current of None \<Rightarrow> False | Some p \<Rightarrow> meets p e))"

definition save :: "'v migration_graph \<Rightarrow> revision option \<Rightarrow> int option \<Rightarrow> 't \<Rightarrow> (('v, 't) graph_store, 't published_revision) op" where
  "save g expected_revision expected_generation now s =
     (let current = gs_published s in
      if \<not> expectation_met (\<lambda>p rv. revision_eq (pub_revision p) rv) current expected_revision then (Inl RevisionConflictError, s)
      else if \<not> expectation_met (\<lambda>p n. pub_generation p = n) current expected_generation then (Inl RevisionConflictError, s)
      else (let p = \<lparr>pub_revision = mg_revision g,
                     pub_generation = (case current of None \<Rightarrow> 1 | Some c \<Rightarrow> pub_generation c + 1),
                     pub_generated_at = now\<rparr> in
            (Inr p, s\<lparr>gs_graph := Some g, gs_published := Some p\<rparr>)))"

definition load :: "('v, 't) graph_store \<Rightarrow> 'v migration_graph option" where
  "load s = gs_graph s"

section \<open>Sequences of saves\<close>

record ('v, 't) save_request =
  sr_graph :: "'v migration_graph"
  sr_revision :: "revision option"
  sr_generation :: "int option"
  sr_now :: 't

definition do_save :: "('v, 't) save_request \<Rightarrow> (('v, 't) graph_store, 't published_revision) op" where
  "do_save q = save (sr_graph q) (sr_revision q) (sr_generation q) (sr_now q)"

fun run_saves :: "('v, 't) save_request list \<Rightarrow> ('v, 't) graph_store \<Rightarrow> 't published_revision res list \<times> ('v, 't) graph_store" where
  "run_saves [] s = ([], s)"
| "run_saves (q # qs) s =
     (let (x, s1) = do_save q s; (xs, s2) = run_saves qs s1 in (x # xs, s2))"

text \<open>The generation of a store, with 0 for nothing published, and the requests that were accepted.\<close>

definition generation :: "('v, 't) graph_store \<Rightarrow> int" where
  "generation s = (case gs_published s of None \<Rightarrow> 0 | Some p \<Rightarrow> pub_generation p)"

definition accepted :: "('v, 't) save_request list \<Rightarrow> ('v, 't) graph_store \<Rightarrow> ('v, 't) save_request list" where
  "accepted qs s = map fst (filter (\<lambda>(q, x). okR x) (zip qs (fst (run_saves qs s))))"

lemma do_save_cases:
  obtains (rejected) "do_save q s = (Inl RevisionConflictError, s)"
  | (accepted) p s' where "do_save q s = (Inr p, s')" "gs_graph s' = Some (sr_graph q)" "gs_published s' = Some p"
      "pub_revision p = mg_revision (sr_graph q)" "generation s' = generation s + 1"
      "\<And>n. sr_generation q = Some n \<Longrightarrow> gs_published s \<noteq> None \<and> generation s = n"
proof (cases "expectation_met (\<lambda>p rv. revision_eq (pub_revision p) rv) (gs_published s) (sr_revision q)
    \<and> expectation_met (\<lambda>p n. pub_generation p = n) (gs_published s) (sr_generation q)")
  case True
  show ?thesis
    by (rule accepted [of "projr (fst (do_save q s))" "snd (do_save q s)"], unfold do_save_def save_def)
      (use True in \<open>auto simp: generation_def expectation_met_def Let_def split: option.splits\<close>)
next
  case False
  then show ?thesis by (intro rejected) (auto simp: do_save_def save_def Let_def)
qed

lemma accepted_Cons:
  "accepted (q # qs) s = (if okR (fst (do_save q s)) then q # accepted qs (snd (do_save q s)) else accepted qs (snd (do_save q s)))"
  by (simp add: accepted_def case_prod_unfold Let_def)

lemma run_saves_Cons: "snd (run_saves (q # qs) s) = snd (run_saves qs (snd (do_save q s)))"
  by (simp add: case_prod_unfold Let_def)

lemma run_saves_generation: "generation (snd (run_saves qs s)) = generation s + int (length (accepted qs s))"
proof (induction qs arbitrary: s)
  case (Cons q qs)
  show ?case
    unfolding run_saves_Cons accepted_Cons using Cons.IH [of "snd (do_save q s)"]
    by (cases rule: do_save_cases [of q s]) auto
qed (simp add: accepted_def)

lemma run_saves_loaded:
  "load (snd (run_saves qs s)) = (if accepted qs s = [] then load s else Some (sr_graph (last (accepted qs s))))"
proof (induction qs arbitrary: s)
  case (Cons q qs)
  show ?case
    unfolding run_saves_Cons accepted_Cons using Cons.IH [of "snd (do_save q s)"]
    by (cases rule: do_save_cases [of q s]) (auto simp: load_def)
qed (simp add: accepted_def)

lemma run_saves_published:
  "map_option pub_revision (gs_published s) = map_option mg_revision (load s) \<Longrightarrow>
   map_option pub_revision (gs_published (snd (run_saves qs s))) = map_option mg_revision (load (snd (run_saves qs s)))"
proof (induction qs arbitrary: s)
  case (Cons q qs)
  show ?case
    unfolding run_saves_Cons using Cons
    by (cases rule: do_save_cases [of q s]) (auto simp: load_def)
qed simp

text \<open>
  The store is the history of its accepted saves: after any sequence of saves from a new store the
  generation counts the accepted saves, the loaded graph is that of the last accepted one, and the
  published revision is the revision of the loaded graph.
\<close>

theorem store_history:
  "generation (snd (run_saves qs new_graph_store)) = int (length (accepted qs new_graph_store))
   \<and> load (snd (run_saves qs (new_graph_store :: ('v, 't) graph_store))) =
       (if accepted qs new_graph_store = [] then None else Some (sr_graph (last (accepted qs new_graph_store))))
   \<and> map_option pub_revision (gs_published (snd (run_saves qs new_graph_store))) =
       map_option mg_revision (load (snd (run_saves qs (new_graph_store :: ('v, 't) graph_store))))"
  using run_saves_generation [of qs new_graph_store] run_saves_loaded [of qs new_graph_store]
    run_saves_published [of new_graph_store qs]
  by (simp add: generation_def load_def new_graph_store_def)

lemma accepted_generation:
  assumes "n < generation s"
  shows "\<forall>q \<in> set (accepted qs s). sr_generation q \<noteq> Some n"
  using assms
proof (induction qs arbitrary: s)
  case (Cons q qs)
  show ?case
  proof (cases rule: do_save_cases [of q s])
    case rejected
    then show ?thesis using Cons by (simp add: accepted_Cons)
  next
    case (accepted p s')
    then have "sr_generation q \<noteq> Some n" "n < generation s'" using Cons.prems by auto
    then show ?thesis using Cons.IH [of s'] accepted(1) by (simp add: accepted_Cons)
  qed
qed (simp add: accepted_def)

text \<open>
  C38. The compare-and-swap excludes lost updates among saves that take effect one after the other: in any sequence
  of complete saves, from any store, at most one of those that expect the same generation is accepted. For saves of
  several threads, which can overlap, this is false (\<open>overlapping_saves\<close> below).
\<close>

theorem save_exclusive:
  "length (filter (\<lambda>q. sr_generation q = Some n) (accepted qs s)) \<le> 1"
proof (induction qs arbitrary: s)
  case (Cons q qs)
  show ?case
  proof (cases rule: do_save_cases [of q s])
    case rejected
    then show ?thesis using Cons by (simp add: accepted_Cons)
  next
    case (accepted p s')
    have "filter (\<lambda>q. sr_generation q = Some n) (accepted qs s') = []" if "sr_generation q = Some n"
      using accepted_generation [of n s' qs] accepted(5) accepted(6) [OF that] by (simp add: filter_empty_conv)
    then show ?thesis using Cons.IH [of s'] accepted(1) by (simp add: accepted_Cons)
  qed
qed (simp add: accepted_def)

section \<open>Saves of several threads\<close>

text \<open>
  A thread that saves reads the published revision, checks its expectations and computes what to publish, and writes
  it later, after it has asked the clock. In between, other threads may run.
\<close>

definition to_publish :: "('v, 't) save_request \<Rightarrow> 't published_revision option \<Rightarrow> 't published_revision res" where
  "to_publish q current =
     (if \<not> expectation_met (\<lambda>p rv. revision_eq (pub_revision p) rv) current (sr_revision q) then Inl RevisionConflictError
      else if \<not> expectation_met (\<lambda>p n. pub_generation p = n) current (sr_generation q) then Inl RevisionConflictError
      else Inr \<lparr>pub_revision = mg_revision (sr_graph q),
                pub_generation = (case current of Some c \<Rightarrow> pub_generation c + 1 | None \<Rightarrow> 1), pub_generated_at = sr_now q\<rparr>)"

definition write_published :: "('v, 't) save_request \<Rightarrow> 't published_revision \<Rightarrow> ('v, 't) graph_store \<Rightarrow> ('v, 't) graph_store" where
  "write_published q p s = s\<lparr>gs_graph := Some (sr_graph q), gs_published := Some p\<rparr>"

datatype ('v, 't) saver =
    Pending "('v, 't) save_request"
  | Checked "('v, 't) save_request" "'t published_revision"
  | Saved "'t published_revision res"

inductive save_step :: "('v, 't) graph_store \<times> ('v, 't) saver list \<Rightarrow> ('v, 't) graph_store \<times> ('v, 't) saver list \<Rightarrow> bool" where
  sv_check: "i < length ts \<Longrightarrow> ts ! i = Pending q \<Longrightarrow> to_publish q (gs_published s) = Inr p \<Longrightarrow> save_step (s, ts) (s, ts[i := Checked q p])"
| sv_conflict: "i < length ts \<Longrightarrow> ts ! i = Pending q \<Longrightarrow> to_publish q (gs_published s) = Inl e \<Longrightarrow> save_step (s, ts) (s, ts[i := Saved (Inl e)])"
| sv_write: "i < length ts \<Longrightarrow> ts ! i = Checked q p \<Longrightarrow> save_step (s, ts) (write_published q p s, ts[i := Saved (Inr p)])"

text \<open>A save is its steps without those of another thread in between.\<close>

lemma do_save_steps:
  "do_save q s = (case to_publish q (gs_published s) of Inl e \<Rightarrow> (Inl e, s) | Inr p \<Rightarrow> (Inr p, write_published q p s))"
  by (simp add: do_save_def save_def to_publish_def write_published_def Let_def)

lemma save_alone: "i < length ts \<Longrightarrow> ts ! i = Pending q \<Longrightarrow> save_step\<^sup>*\<^sup>* (s, ts) (snd (do_save q s), ts[i := Saved (fst (do_save q s))])"
proof (cases "to_publish q (gs_published s)")
  case (Inl e)
  assume "i < length ts" "ts ! i = Pending q"
  then show ?thesis using sv_conflict [of i ts q s e] Inl by (simp add: do_save_steps r_into_rtranclp)
next
  case (Inr p)
  assume i: "i < length ts" "ts ! i = Pending q"
  then have "save_step (s, ts) (s, ts[i := Checked q p])" using Inr by (rule sv_check)
  moreover have "save_step (s, ts[i := Checked q p]) (write_published q p s, ts[i := Saved (Inr p)])"
    using sv_write [of i "ts[i := Checked q p]" q p s] i by simp
  ultimately show ?thesis using Inr by (simp add: do_save_steps)
qed

text \<open>
  Two threads that overlap lose an update: from any store with a published revision, two saves that expect its
  generation can both be accepted, with the same new generation, and the graph of the first is overwritten.
\<close>

theorem overlapping_saves:
  assumes "gs_published s = Some c" "to_publish a (Some c) = Inr p" "to_publish b (Some c) = Inr q"
  shows "save_step\<^sup>*\<^sup>* (s, [Pending a, Pending b]) (write_published b q (write_published a p s), [Saved (Inr p), Saved (Inr q)])
    \<and> pub_generation p = pub_generation q \<and> load (write_published b q (write_published a p s)) = Some (sr_graph b)"
proof (intro conjI)
  have "save_step (s, [Pending a, Pending b]) (s, [Checked a p, Pending b])" using sv_check [of 0 "[Pending a, Pending b]" a s p] assms by simp
  moreover have "save_step (s, [Checked a p, Pending b]) (s, [Checked a p, Checked b q])" using sv_check [of 1 "[Checked a p, Pending b]" b s q] assms by simp
  moreover have "save_step (s, [Checked a p, Checked b q]) (write_published a p s, [Saved (Inr p), Checked b q])"
    using sv_write [of 0 "[Checked a p, Checked b q]" a p s] by simp
  moreover have "save_step (write_published a p s, [Saved (Inr p), Checked b q]) (write_published b q (write_published a p s), [Saved (Inr p), Saved (Inr q)])"
    using sv_write [of 1 "[Saved (Inr p), Checked b q]" b q "write_published a p s"] by simp
  ultimately show "save_step\<^sup>*\<^sup>* (s, [Pending a, Pending b]) (write_published b q (write_published a p s), [Saved (Inr p), Saved (Inr q)])"
    by (meson converse_rtranclp_into_rtranclp rtranclp.rtrancl_refl)
  show "pub_generation p = pub_generation q" using assms(2,3) by (auto simp: to_publish_def split: if_splits)
  show "load (write_published b q (write_published a p s)) = Some (sr_graph b)" by (simp add: load_def write_published_def)
qed

theorem overlapping_saves_witness:
  "let q = \<lparr>sr_graph = sample_snapshot, sr_revision = None, sr_generation = Some 1, sr_now = ()\<rparr>;
       p = \<lparr>pub_revision = mg_revision sample_snapshot, pub_generation = 2, pub_generated_at = ()\<rparr>;
       s = snd (save sample_snapshot None None () new_graph_store)
   in save_step\<^sup>*\<^sup>* (s, [Pending q, Pending q]) (write_published q p (write_published q p s), [Saved (Inr p), Saved (Inr p)])"
proof -
  let ?q = "\<lparr>sr_graph = sample_snapshot, sr_revision = None, sr_generation = Some 1, sr_now = ()\<rparr>"
  let ?p = "\<lparr>pub_revision = mg_revision sample_snapshot, pub_generation = 2, pub_generated_at = ()\<rparr>"
  let ?s = "snd (save sample_snapshot None None () new_graph_store)"
  have "gs_published ?s = Some (?p\<lparr>pub_generation := 1\<rparr>)" by (simp add: save_def new_graph_store_def expectation_met_def Let_def)
  moreover have "to_publish ?q (Some (?p\<lparr>pub_generation := 1\<rparr>)) = Inr ?p" by (simp add: to_publish_def expectation_met_def)
  ultimately show ?thesis using overlapping_saves [of ?s _ ?q ?p ?q ?p] by (simp add: Let_def)
qed

end
