(* ===== verification/Paths.thy ===== *)
theory Paths
  imports Values
begin

text \<open>
  Containment paths in a payload: \<open>Path\<close> of \<open>core/graph/planning/path.py\<close> and the copying replacement
  \<open>_replace_at\<close> with \<open>apply_results\<close> of \<open>runtime/plan.py\<close>. Payloads are JSON documents; a subscript
  follows Python: a negative list index counts from the end, and a string can be subscripted by an
  integer.
\<close>

datatype step = Key string | Idx int

type_synonym path = "step list"

section \<open>Subscripts\<close>

text \<open>The position of a list index, when it is in range.\<close>

definition py_position :: "nat \<Rightarrow> int \<Rightarrow> nat option" where
  "py_position n i = (if 0 \<le> i \<and> i < int n then Some (nat i)
     else if i < 0 \<and> 0 \<le> int n + i then Some (nat (int n + i)) else None)"

fun subscript :: "json \<Rightarrow> step \<Rightarrow> json res" where
  "subscript (JObj d) (Key k) = (case map_of d k of None \<Rightarrow> Inl KeyError | Some v \<Rightarrow> Inr v)"
| "subscript (JObj d) (Idx i) = Inl KeyError"
| "subscript (JList xs) (Idx i) = (case py_position (length xs) i of None \<Rightarrow> Inl IndexError | Some n \<Rightarrow> Inr (xs ! n))"
| "subscript (JStr s) (Idx i) = (case py_position (length s) i of None \<Rightarrow> Inl IndexError | Some n \<Rightarrow> Inr (JStr [s ! n]))"
| "subscript _ _ = Inl TypeError"

text \<open>\<open>container[step] = value\<close>.\<close>

fun assign :: "json \<Rightarrow> step \<Rightarrow> json \<Rightarrow> json res" where
  "assign (JObj d) (Key k) v = Inr (JObj (AList.update k v d))"
| "assign (JList xs) (Idx i) v = (case py_position (length xs) i of None \<Rightarrow> Inl IndexError | Some n \<Rightarrow> Inr (JList (xs[n := v])))"
| "assign _ _ v = Inl TypeError"

section \<open>Paths\<close>

fun path_get :: "path \<Rightarrow> json \<Rightarrow> json res" where
  "path_get [] v = Inr v"
| "path_get (s # p) v = bindR (subscript v s) (path_get p)"

text \<open>
  \<open>Path.set\<close> mutates the payload in place. At the root the payload, a dictionary, is cleared and updated
  from a mapping. A key that is not a string is outside the documents; a payload has none.
\<close>

fun path_assign :: "path \<Rightarrow> json \<Rightarrow> json \<Rightarrow> json res" where
  "path_assign [] value v = Inr value"
| "path_assign [s] value v = assign v s value"
| "path_assign (s # p) value v =
     bindR (subscript v s) (\<lambda>inner. bindR (path_assign p value inner) (\<lambda>inner'. assign v s inner'))"

definition path_set :: "path \<Rightarrow> (string \<times> json) list \<Rightarrow> (string \<times> json) list \<Rightarrow> json res" where
  "path_set p value data =
     (if p = [] then Inr (JObj (fold (\<lambda>(k, v). AList.update k v) value []))
      else path_assign p (JObj value) (JObj data))"

definition is_descendant_of :: "path \<Rightarrow> path \<Rightarrow> bool" where
  "is_descendant_of p parent \<longleftrightarrow> length p > length parent \<and> take (length parent) p = parent"

section \<open>Copying replacement\<close>

text \<open>\<open>dict(value)\<close> on a value that is no dictionary comes before the subscript.\<close>

fun replace_at :: "path \<Rightarrow> json \<Rightarrow> json \<Rightarrow> json res" where
  "replace_at [] r v = Inr r"
| "replace_at (s # p) r (JList xs) =
     (case s of
        Key k \<Rightarrow> Inl TypeError
      | Idx i \<Rightarrow> (case py_position (length xs) i of
          None \<Rightarrow> Inl IndexError
        | Some n \<Rightarrow> bindR (replace_at p r (xs ! n)) (\<lambda>x. Inr (JList (xs[n := x])))))"
| "replace_at (s # p) r (JObj d) =
     (case s of
        Idx i \<Rightarrow> Inl TypeError
      | Key k \<Rightarrow> (case map_of d k of
          None \<Rightarrow> Inl KeyError
        | Some w \<Rightarrow> bindR (replace_at p r w) (\<lambda>x. Inr (JObj (AList.update k x d)))))"
| "replace_at (s # p) r (JStr t) = (case s of Idx i \<Rightarrow> Inl TypeError | Key k \<Rightarrow> if t = [] then Inl TypeError else Inl ValueError)"
| "replace_at (s # p) r v = Inl TypeError"

fun apply_results :: "(path \<times> json) list \<Rightarrow> json \<Rightarrow> json res" where
  "apply_results [] v = Inr v"
| "apply_results ((p, r) # rs) v = bindR (replace_at p r v) (apply_results rs)"

section \<open>Reading back\<close>

text \<open>Paths as the extractors produce them, and paths of which neither leads through the other.\<close>

definition proper_path :: "path \<Rightarrow> bool" where
  "proper_path p \<longleftrightarrow> (\<forall>i. Idx i \<in> set p \<longrightarrow> 0 \<le> i)"

definition apart :: "path \<Rightarrow> path \<Rightarrow> bool" where
  "apart p q \<longleftrightarrow> take (length p) q \<noteq> p \<and> take (length q) p \<noteq> q"

lemma apart_Cons [simp]: "apart (s # p) (t # q) \<longleftrightarrow> s \<noteq> t \<or> apart p q" "\<not> apart [] q" "\<not> apart p []"
  by (auto simp: apart_def)

lemma apart_sym: "apart p q \<Longrightarrow> apart q p"
  by (auto simp: apart_def)

lemma apart_iff: "apart p q \<longleftrightarrow> p \<noteq> q \<and> \<not> is_descendant_of p q \<and> \<not> is_descendant_of q p"
  unfolding apart_def is_descendant_of_def
  by (metis le_neq_implies_less linorder_not_le order_le_less take_all_iff)

lemma proper_path_Cons [simp]: "proper_path (s # p) \<longleftrightarrow> (\<forall>i. s = Idx i \<longrightarrow> 0 \<le> i) \<and> proper_path p" "proper_path []"
  by (auto simp: proper_path_def)

lemma py_position_bound: "py_position n i = Some k \<Longrightarrow> k < n"
  by (auto simp: py_position_def split: if_splits)

lemma replace_get: "replace_at p r v = Inr v' \<Longrightarrow> path_get p v' = Inr r"
proof (induction p r v arbitrary: v' rule: replace_at.induct)
  case (2 s p r xs)
  then show ?case by (auto simp: bindR_eq_Inr py_position_bound split: step.splits option.splits)
next
  case (3 s p r d)
  then show ?case by (auto simp: bindR_eq_Inr update_conv' split: step.splits option.splits)
qed (auto split: step.splits if_splits)

lemma replace_get_apart:
  "replace_at p r v = Inr v' \<Longrightarrow> apart p q \<Longrightarrow> proper_path p \<Longrightarrow> proper_path q \<Longrightarrow> path_get q v' = path_get q v"
proof (induction p r v arbitrary: v' q rule: replace_at.induct)
  case (2 s p r xs)
  obtain t q' where q: "q = t # q'" using "2.prems" by (cases q) auto
  from "2.prems"(1) obtain i n x where i: "s = Idx i" "py_position (length xs) i = Some n" "replace_at p r (xs ! n) = Inr x"
    "v' = JList (xs[n := x])" by (auto simp: bindR_eq_Inr split: step.splits option.splits)
  show ?case
  proof (cases t)
    case (Idx j)
    show ?thesis
    proof (cases "i = j")
      case True
      then have "path_get q' x = path_get q' (xs ! n)" using 2 i q Idx by auto
      then show ?thesis using i Idx True q py_position_bound [OF i(2)] by simp
    next
      case False
      then have "py_position (length xs) j = Some m \<Longrightarrow> m \<noteq> n" for m
        using "2.prems" i q Idx by (auto simp: py_position_def split: if_splits)
      then show ?thesis using i q Idx by (auto split: option.splits)
    qed
  qed (use i q in simp)
next
  case (3 s p r d)
  obtain t q' where q: "q = t # q'" using "3.prems" by (cases q) auto
  from "3.prems"(1) obtain k w x where k: "s = Key k" "map_of d k = Some w" "replace_at p r w = Inr x"
    "v' = JObj (AList.update k x d)" by (auto simp: bindR_eq_Inr split: step.splits option.splits)
  show ?case
  proof (cases t)
    case (Key j)
    show ?thesis
    proof (cases "k = j")
      case True
      then have "path_get q' x = path_get q' w" using 3 k q Key by auto
      then show ?thesis using k Key True q by (simp add: update_conv')
    qed (use k Key q in \<open>simp add: update_conv'\<close>)
  qed (use k q in simp)
qed (auto split: step.splits if_splits)

lemma replace_total:
  "path_get p v = Inr (JObj d) \<Longrightarrow> okR (replace_at p r v)"
proof (induction p arbitrary: v)
  case (Cons s p)
  have "path_get p (JStr [c]) \<noteq> Inr (JObj d)" for p c
  proof (induction p arbitrary: c)
    case (Cons t p)
    then show ?case by (cases t) (auto simp: bindR_eq_Inr split: option.splits)
  qed simp
  with Cons show ?case
    by (cases v; cases s) (auto simp: bindR_eq_Inr okR_iff split: option.splits)
qed simp

section \<open>Applying the results of a level\<close>

lemma apply_results_ok:
  assumes "pairwise apart (set (map fst rs))" "distinct (map fst rs)" "\<forall>p \<in> set (map fst rs). proper_path p"
    and "\<forall>p \<in> set (map fst rs). \<exists>d. path_get p v = Inr (JObj d)"
  shows "\<exists>v'. apply_results rs v = Inr v' \<and> (\<forall>(p, r) \<in> set rs. path_get p v' = Inr r)
    \<and> (\<forall>q. proper_path q \<and> (\<forall>p \<in> set (map fst rs). apart p q) \<longrightarrow> path_get q v' = path_get q v)"
  using assms
proof (induction rs arbitrary: v)
  case (Cons pr rs)
  obtain p r where pr: "pr = (p, r)" by (cases pr)
  obtain v1 where v1: "replace_at p r v = Inr v1" using Cons.prems(4) replace_total pr by (fastforce simp: okR_iff)
  have ap: "apart p q" if "q \<in> set (map fst rs)" for q
    using Cons.prems(1,2) that pr unfolding pairwise_def by (metis distinct.simps(2) list.set_intros fst_conv list.simps(9))
  have pp: "proper_path p" "\<And>q. q \<in> set (map fst rs) \<Longrightarrow> proper_path q" using Cons.prems(3) pr by auto
  have same: "path_get q v1 = path_get q v" if "q \<in> set (map fst rs)" for q
    by (rule replace_get_apart [OF v1 ap [OF that] pp(1) pp(2) [OF that]])
  have "\<forall>q \<in> set (map fst rs). \<exists>d. path_get q v1 = Inr (JObj d)"
    using same Cons.prems(4) pr by (metis list.set_intros(2) list.simps(9))
  moreover have "pairwise apart (set (map fst rs))" using Cons.prems(1) pr by (rule_tac pairwise_subset) auto
  ultimately obtain v' where v': "apply_results rs v1 = Inr v'" "\<forall>(p, r) \<in> set rs. path_get p v' = Inr r"
    "\<forall>q. proper_path q \<and> (\<forall>p \<in> set (map fst rs). apart p q) \<longrightarrow> path_get q v' = path_get q v1"
    using Cons.IH [of v1] Cons.prems(2,3) by auto
  have "path_get p v' = path_get p v1" using v'(3) pp(1) ap apart_sym by blast
  then have "path_get p v' = Inr r" using replace_get [OF v1] by simp
  moreover have "path_get q v' = path_get q v" if "proper_path q" "\<forall>p \<in> set (map fst (pr # rs)). apart p q" for q
    using v'(3) replace_get_apart [OF v1 _ pp(1) that(1)] that pr by auto
  ultimately show ?case using v1 v' pr by auto
qed simp

text \<open>
  C10. The results of a level are put into the payload independently of each other: for results at paths that
  do not lead through one another and that hold dictionaries of the payload, \<open>apply_results\<close> succeeds,
  every result is read back at its path, and nothing apart from these paths changes.
\<close>

theorem apply_results_correct:
  assumes "pairwise apart (set (map fst rs))" "distinct (map fst rs)" "\<forall>p \<in> set (map fst rs). proper_path p"
    and "\<forall>p \<in> set (map fst rs). \<exists>d. path_get p v = Inr (JObj d)"
  shows "\<exists>v'. apply_results rs v = Inr v' \<and> (\<forall>(p, r) \<in> set rs. path_get p v' = Inr r)
    \<and> (\<forall>q. proper_path q \<and> (\<forall>p \<in> set (map fst rs). apart p q) \<longrightarrow> path_get q v' = path_get q v)"
  by (rule apply_results_ok [OF assms])

theorem apply_results_correct_witness:
  "\<exists>v'. apply_results [([Key ''a''], JInt 1), ([Key ''b'', Idx 0], JInt 2)]
      (JObj [(''a'', JObj []), (''b'', JList [JObj []]), (''c'', JNull)]) = Inr v'
    \<and> path_get [Key ''a''] v' = Inr (JInt 1) \<and> path_get [Key ''c''] v' = Inr JNull"
proof -
  let ?rs = "[([Key ''a''], JInt 1), ([Key ''b'', Idx 0], JInt 2)]"
    and ?v = "JObj [(''a'', JObj []), (''b'', JList [JObj []]), (''c'', JNull)]"
  have "pairwise apart (set (map fst ?rs))" by (auto simp: pairwise_def)
  moreover have "\<forall>p \<in> set (map fst ?rs). \<exists>d. path_get p ?v = Inr (JObj d)" by (simp add: py_position_def)
  ultimately obtain v' where v': "apply_results ?rs ?v = Inr v'" "\<forall>(p, r) \<in> set ?rs. path_get p v' = Inr r"
    "\<forall>q. proper_path q \<and> (\<forall>p \<in> set (map fst ?rs). apart p q) \<longrightarrow> path_get q v' = path_get q ?v"
    using apply_results_correct [of ?rs ?v] by auto
  from spec [OF v'(3), of "[Key ''c'']"] have "path_get [Key ''c''] v' = path_get [Key ''c''] ?v" by (simp del: path_get.simps)
  then show ?thesis using v'(1,2) by auto
qed

lemma path_assign_get:
  "path_assign p w v = Inr v' \<Longrightarrow> path_get p v' = Inr w"
proof (induction p w v arbitrary: v' rule: path_assign.induct)
  case (2 s w v)
  then show ?case
    by (cases v; cases s) (auto simp: update_conv' py_position_bound split: option.splits)
next
  case (3 s t p w v)
  then obtain inner inner' where i: "subscript v s = Inr inner" "path_assign (t # p) w inner = Inr inner'" "assign v s inner' = Inr v'"
    by (auto simp: bindR_eq_Inr)
  have "subscript v' s = Inr inner'"
    using i(1,3) by (cases v; cases s) (auto simp: update_conv' py_position_bound split: option.splits)
  then show ?case using "3.IH" [OF i(2)] by simp
qed simp

lemma dict_of_ok: "dict_ok d \<Longrightarrow> fold (\<lambda>(k, v). AList.update k v) d [] = d"
proof -
  have "dict_ok (e @ d) \<Longrightarrow> fold (\<lambda>(k, v). AList.update k v) d e = e @ d" for e
  proof (induction d arbitrary: e)
    case (Cons x d)
    have "AList.update (fst x) (snd x) e = e @ [x]"
      using Cons.prems by (induction e) (auto simp: dict_ok_def)
    then show ?case using Cons.IH [of "e @ [x]"] Cons.prems by (simp add: case_prod_unfold)
  qed simp
  from this [of "[]"] show "dict_ok d \<Longrightarrow> fold (\<lambda>(k, v). AList.update k v) d [] = d" by simp
qed

text \<open>What \<open>Path.set\<close> stores is what \<open>Path.get\<close> reads at the same path, the root included.\<close>

theorem path_set_get:
  assumes "path_set p d data = Inr v" "dict_ok d"
  shows "path_get p v = Inr (JObj d)"
  using assms dict_of_ok [of d] path_assign_get [of p "JObj d" "JObj data" v]
  by (auto simp: path_set_def split: if_splits)

theorem path_set_get_witness:
  "path_get [Key ''a'', Idx (- 1)] (JObj [(''a'', JList [JNull, JObj [(''x'', JInt 1)]])]) = Inr (JObj [(''x'', JInt 1)])"
  by (rule path_set_get [of _ _ "[(''a'', JList [JNull, JNull])]"]) (simp_all add: path_set_def py_position_def dict_ok_def)

end
