(* ===== verification/Plans.thy ===== *)
theory Plans
  imports Graph_Store Paths
begin

text \<open>
  Graph-level migration plans, from \<open>core/graph/planning/plan.py\<close>: extracted and resolved entries, and the
  levels in which a plan is executed. Entries are compared by object identity there; here an entry carries
  its position in the plan.
\<close>

section \<open>Plans\<close>

record 'v extracted_entry =
  xe_path :: path
  xe_node :: "'v node"

record 'v plan_entry =
  pe_path :: path
  pe_source :: "'v node"
  pe_target :: "'v node"
  pe_target_model :: model_ref
  pe_steps :: "('v node \<times> 'v node) list"
  pe_edges :: "'v edge_id list"

record ('v, 'm) path_plan =
  pp_entries :: "'v plan_entry list"
  pp_source_model :: "'m option"

section \<open>Levels\<close>

definition ready_entries :: "(nat \<times> 'v plan_entry) list \<Rightarrow> (nat \<times> 'v plan_entry) list" where
  "ready_entries remaining =
     filter (\<lambda>(i, e). \<not> list_ex (\<lambda>(j, other). j \<noteq> i \<and> is_descendant_of (pe_path other) (pe_path e)) remaining) remaining"

definition next_level :: "(nat \<times> 'v plan_entry) list \<Rightarrow> (nat \<times> 'v plan_entry) list" where
  "next_level remaining = (if ready_entries remaining = [] then [hd remaining] else ready_entries remaining)"

definition drop_chosen :: "(nat \<times> 'v plan_entry) list \<Rightarrow> (nat \<times> 'v plan_entry) list \<Rightarrow> (nat \<times> 'v plan_entry) list" where
  "drop_chosen level remaining = filter (\<lambda>(i, e). i \<notin> fst ` set level) remaining"

lemma next_level_subset: "remaining \<noteq> [] \<Longrightarrow> next_level remaining \<noteq> [] \<and> set (next_level remaining) \<subseteq> set remaining"
  by (auto simp: next_level_def ready_entries_def)

function level_loop :: "(nat \<times> 'v plan_entry) list \<Rightarrow> (nat \<times> 'v plan_entry) list list" where
  "level_loop remaining =
     (if remaining = [] then []
      else next_level remaining # level_loop (drop_chosen (next_level remaining) remaining))"
  by pat_completeness auto

termination
proof (relation "measure length")
  fix remaining :: "(nat \<times> 'v plan_entry) list" assume ne: "remaining \<noteq> []"
  then have n: "next_level remaining \<noteq> []" "set (next_level remaining) \<subseteq> set remaining" using next_level_subset by blast+
  then have "hd (next_level remaining) \<in> set remaining" "hd (next_level remaining) \<in> set (next_level remaining)" by auto
  then have "drop_chosen (next_level remaining) remaining \<noteq> remaining"
    unfolding drop_chosen_def filter_id_conv by force
  then have "length (drop_chosen (next_level remaining) remaining) < length remaining"
    by (metis drop_chosen_def filter_True le_neq_implies_less length_filter_le length_filter_less)
  then show "(drop_chosen (next_level remaining) remaining, remaining) \<in> measure length" by simp
qed simp

declare level_loop.simps [simp del]

definition plan_levels :: "'v plan_entry list \<Rightarrow> 'v plan_entry list list" where
  "plan_levels entries = map (map snd) (level_loop (enumerate 0 entries))"

section \<open>Children before parents\<close>

lemma descendant_irrefl: "\<not> is_descendant_of p p"
  by (simp add: is_descendant_of_def)

lemma ready_nonempty:
  assumes "remaining \<noteq> []"
  shows "ready_entries remaining \<noteq> []"
proof -
  let ?len = "\<lambda>x. length (pe_path (snd x))"
  obtain x where x: "x \<in> set remaining" "\<forall>y \<in> set remaining. ?len y \<le> ?len x"
  proof -
    have "Max (?len ` set remaining) \<in> ?len ` set remaining" using assms by (intro Max_in) simp_all
    then obtain x where "x \<in> set remaining" "?len x = Max (?len ` set remaining)" by auto
    then show thesis by (intro that [of x]) simp_all
  qed
  have "x \<in> set (ready_entries remaining)"
    using x by (fastforce simp: ready_entries_def list_ex_iff is_descendant_of_def)
  then show ?thesis by auto
qed

lemma next_level_ready: "remaining \<noteq> [] \<Longrightarrow> next_level remaining = ready_entries remaining"
  by (simp add: next_level_def ready_nonempty)

lemma level_loop_partition:
  assumes "distinct (map fst remaining)"
  shows "mset (concat (level_loop remaining)) = mset remaining"
  using assms
proof (induction remaining rule: level_loop.induct)
  case (1 remaining)
  show ?case
  proof (cases "remaining = []")
    case False
    let ?l = "next_level remaining"
    have l: "?l = ready_entries remaining" by (rule next_level_ready [OF False])
    have "drop_chosen ?l remaining = filter (\<lambda>x. x \<notin> set ?l) remaining"
      unfolding drop_chosen_def
    proof (rule filter_cong [OF refl])
      fix x assume x: "x \<in> set remaining"
      have "set ?l \<subseteq> set remaining" using next_level_subset [OF False] by blast
      moreover have "inj_on fst (set remaining)" using "1.prems" by (simp add: distinct_map)
      ultimately show "(case x of (i, e) \<Rightarrow> i \<notin> fst ` set ?l) = (x \<notin> set ?l)"
        using x by (auto simp: image_iff case_prod_unfold dest: inj_onD)
    qed
    moreover have "?l = filter (\<lambda>x. x \<in> set ?l) remaining" unfolding l ready_entries_def by (auto intro: filter_cong)
    ultimately have "mset ?l + mset (drop_chosen ?l remaining) =
        mset (filter (\<lambda>x. x \<in> set ?l) remaining) + mset (filter (\<lambda>x. x \<notin> set ?l) remaining)" by presburger
    then have "mset remaining = mset ?l + mset (drop_chosen ?l remaining)"
      using multiset_partition [of "mset remaining" "\<lambda>x. x \<in> set ?l"] by (simp add: mset_filter)
    moreover have "distinct (map fst (drop_chosen ?l remaining))"
      using "1.prems" by (simp add: drop_chosen_def distinct_map_filter)
    ultimately show ?thesis using "1.IH" [OF False] False by (simp add: level_loop.simps [of remaining])
  qed (simp add: level_loop.simps)
qed

lemma level_loop_order:
  assumes "distinct (map fst remaining)" "a < length (level_loop remaining)" "y \<in> set (level_loop remaining ! a)"
    and "x \<in> set remaining" "is_descendant_of (pe_path (snd x)) (pe_path (snd y))"
  shows "\<exists>b < a. x \<in> set (level_loop remaining ! b)"
  using assms
proof (induction remaining arbitrary: a rule: level_loop.induct)
  case (1 remaining)
  have ne: "remaining \<noteq> []" using "1.prems"(4) by auto
  let ?l = "next_level remaining" and ?r = "drop_chosen (next_level remaining) remaining"
  have e: "level_loop remaining = ?l # level_loop ?r" using ne by (simp add: level_loop.simps [of remaining])
  have l: "?l = ready_entries remaining" by (rule next_level_ready [OF ne])
  show ?case
  proof (cases a)
    case 0
    then have "y \<in> set (ready_entries remaining)" using "1.prems"(3) e l by simp
    then have "fst x = fst y" using "1.prems"(4,5) by (force simp: ready_entries_def list_ex_iff)
    then have "x = y" using "1.prems"(1,4) \<open>y \<in> set (ready_entries remaining)\<close>
      by (auto simp: ready_entries_def distinct_map dest: inj_onD)
    then show ?thesis using "1.prems"(5) descendant_irrefl by blast
  next
    case (Suc a')
    show ?thesis
    proof (cases "x \<in> set ?l")
      case True
      then show ?thesis using Suc e by (intro exI [of _ 0]) simp
    next
      case False
      have "inj_on fst (set remaining)" using "1.prems"(1) by (simp add: distinct_map)
      moreover have "set ?l \<subseteq> set remaining" using next_level_subset [OF ne] by blast
      ultimately have "fst x \<notin> fst ` set ?l" using False "1.prems"(4) by (auto dest: inj_onD)
      then have x: "x \<in> set ?r" using "1.prems"(4) by (simp add: drop_chosen_def case_prod_unfold)
      have "distinct (map fst ?r)" using "1.prems"(1) by (simp add: drop_chosen_def distinct_map_filter)
      from "1.IH" [OF ne this _ _ x "1.prems"(5), of a'] "1.prems"(2,3) Suc e obtain b where
        "b < a'" "x \<in> set (level_loop ?r ! b)" by auto
      then show ?thesis using Suc e by (intro exI [of _ "Suc b"]) simp
    qed
  qed
qed

lemma level_loop_nonempty: "l \<in> set (level_loop remaining) \<Longrightarrow> l \<noteq> []"
proof (induction remaining rule: level_loop.induct)
  case (1 remaining)
  then show ?case
    using next_level_subset [of remaining]
    by (cases "remaining = []") (auto simp: level_loop.simps [of remaining] level_loop.simps [of "[]"])
qed

lemma enumerate_distinct: "distinct (map fst (enumerate n xs))"
  by (simp add: enumerate_eq_zip)

lemma enumerate_snd: "map snd (enumerate n xs) = xs"
  by (simp add: enumerate_eq_zip)

lemma plan_levels_partition: "mset (concat (plan_levels entries)) = mset entries"
proof -
  have "mset (concat (plan_levels entries)) = image_mset snd (mset (concat (level_loop (enumerate 0 entries))))"
    by (simp add: plan_levels_def map_concat flip: mset_map)
  also have "\<dots> = mset entries"
    unfolding level_loop_partition [OF enumerate_distinct] by (metis enumerate_snd mset_map)
  finally show ?thesis .
qed

lemma plan_levels_order:
  assumes "a < length (plan_levels entries)" "y \<in> set (plan_levels entries ! a)" "x \<in> set entries"
    and "is_descendant_of (pe_path x) (pe_path y)"
  shows "\<exists>b < a. x \<in> set (plan_levels entries ! b)"
proof -
  let ?L = "level_loop (enumerate 0 entries)"
  have a: "a < length ?L" using assms(1) by (simp add: plan_levels_def)
  then obtain i where i: "(i, y) \<in> set (?L ! a)" using assms(2) by (auto simp: plan_levels_def)
  obtain j where j: "(j, x) \<in> set (enumerate 0 entries)"
    using assms(3) by (metis enumerate_snd imageE prod.collapse set_map)
  from level_loop_order [OF enumerate_distinct a i j] assms(4) obtain b where "b < a" "(j, x) \<in> set (?L ! b)" by auto
  then show ?thesis using a by (force simp: plan_levels_def)
qed

text \<open>Entries of one level whose paths differ do not lead through one another.\<close>

lemma plan_levels_apart:
  assumes "distinct (map pe_path entries)" "l \<in> set (plan_levels entries)"
  shows "pairwise apart (set (map pe_path l)) \<and> distinct (map pe_path l)"
proof -
  from assms(2) obtain a where a: "a < length (plan_levels entries)" "l = plan_levels entries ! a" by (metis in_set_conv_nth)
  have m: "mset (concat (plan_levels entries)) = mset entries" by (rule plan_levels_partition)
  then have d: "distinct (map pe_path (concat (plan_levels entries)))"
    using assms(1) by (metis mset_eq_imp_distinct_iff mset_map)
  have sub: "set l \<subseteq> set entries" using assms(2) mset_eq_setD [OF m] by auto
  have disj: "x \<notin> set (plan_levels entries ! b)" if "x \<in> set l" "b < a" for x b
  proof -
    have "plan_levels entries = take a (plan_levels entries) @ l # drop (Suc a) (plan_levels entries)"
      using a by (simp add: id_take_nth_drop)
    then have "distinct (map pe_path (concat (take a (plan_levels entries) @ l # drop (Suc a) (plan_levels entries))))" using d by metis
    then have "pe_path ` set (concat (take a (plan_levels entries))) \<inter> pe_path ` set l = {}"
      unfolding concat_append concat.simps map_append distinct_append set_append set_map by blast
    then have "pe_path x \<notin> pe_path ` set (concat (take a (plan_levels entries)))" using that(1) by blast
    moreover have "plan_levels entries ! b \<in> set (take a (plan_levels entries))"
      using that(2) a by (auto simp: in_set_conv_nth intro!: exI [of _ b])
    ultimately show ?thesis by force
  qed
  have "\<not> is_descendant_of (pe_path x) (pe_path y)" if "x \<in> set l" "y \<in> set l" for x y
    using plan_levels_order [OF a(1), of y x] that sub disj [OF that(1)] a(2) by auto
  moreover have "distinct (map pe_path l)"
  proof -
    have "distinct (concat (map (map pe_path) (plan_levels entries)))" using d by (simp add: map_concat)
    then show ?thesis using assms(2) by (auto simp: distinct_concat_iff)
  qed
  ultimately show ?thesis by (auto simp: pairwise_def apart_iff)
qed

text \<open>
  C9. The levels of a plan: they contain every entry exactly once, no level is empty, and an entry nested in
  another one is in an earlier level, so that children are migrated before the values that contain them.
\<close>

theorem plan_levels_correct:
  "mset (concat (plan_levels entries)) = mset entries \<and> [] \<notin> set (plan_levels entries)
   \<and> (\<forall>a < length (plan_levels entries). \<forall>y \<in> set (plan_levels entries ! a). \<forall>x \<in> set entries.
        is_descendant_of (pe_path x) (pe_path y) \<longrightarrow> (\<exists>b < a. x \<in> set (plan_levels entries ! b)))"
proof (intro conjI allI impI ballI)
  show "[] \<notin> set (plan_levels entries)" using level_loop_nonempty by (fastforce simp: plan_levels_def)
qed (use plan_levels_partition plan_levels_order in blast)+

definition sample_entry :: "path \<Rightarrow> nat plan_entry" where
  "sample_entry p = \<lparr>pe_path = p, pe_source = sample_model 1, pe_target = sample_model 2, pe_target_model = sample_ref,
     pe_steps = [], pe_edges = []\<rparr>"

theorem plan_levels_correct_witness:
  "\<exists>b < (1 :: nat). sample_entry [Key ''a''] \<in> set (plan_levels [sample_entry [], sample_entry [Key ''a'']] ! b)"
proof -
  let ?es = "[sample_entry [], sample_entry [Key ''a'']]"
  have l: "plan_levels ?es = [[sample_entry [Key ''a'']], [sample_entry []]]" by code_simp
  have "is_descendant_of (pe_path (sample_entry [Key ''a''])) (pe_path (sample_entry []))"
    by (simp add: sample_entry_def is_descendant_of_def)
  then show ?thesis using plan_levels_correct [of ?es] l by (metis One_nat_def length_Cons lessI list.set_intros(1) list.set_intros(2) list.size(3) nth_Cons_0 nth_Cons_Suc)
qed

end
