(* ===== verification/Planning.thy ===== *)
theory Planning
  imports Plans "HOL-Library.Sublist"
begin

text \<open>
  Planning over a snapshot, from \<open>core/graph/planning\<close>: direction policies (\<open>direction.py\<close>), the policy
  engine (\<open>policy.py\<close>), target policies and their compilation into resolvers (\<open>targets.py\<close>), and the path
  finder with its cache (\<open>finder.py\<close>). The version parser and the identity port of the adapter, which maps
  a model class to its reference, are arguments.
\<close>

section \<open>Direction and policy\<close>

datatype direction_policy = AnyDirection | ForwardDirection | BackwardDirection

fun allows :: "direction_policy \<Rightarrow> 'v::linorder node \<Rightarrow> 'v node \<Rightarrow> bool" where
  "allows AnyDirection s t = True"
| "allows ForwardDirection s t = (node_id_of s < node_id_of t)"
| "allows BackwardDirection s t = (node_id_of s > node_id_of t)"

definition make_direction :: "string \<Rightarrow> direction_policy res" where
  "make_direction strategy =
     (if strategy = ''any'' then Inr AnyDirection
      else if strategy = ''forward'' then Inr ForwardDirection
      else if strategy = ''backward'' then Inr BackwardDirection
      else Inl ValueError)"

record policy_engine =
  po_direction :: direction_policy
  po_on_direction_violation :: string
  po_on_missing_path :: string
  po_depth_limit :: int
  po_on_depth_violation :: string

definition violation :: "string \<Rightarrow> unit res" where
  "violation strategy = (if strategy = ''raise'' then Inl CatalogError
     else if strategy \<noteq> ''skip'' then Inl ValueError else Inr ())"

text \<open>\<open>entry.edges or tuple(EdgeKey.from_pair(...))\<close>.\<close>

definition entry_edges :: "'v plan_entry \<Rightarrow> 'v edge_id list res" where
  "entry_edges e = (if pe_edges e \<noteq> [] then Inr (pe_edges e)
     else mapR (\<lambda>(s, t). bindR (edge_key_from_pair s t default_discriminator None) (\<lambda>k. Inr (eid_of k))) (pe_steps e))"

text \<open>
  One turn of the loop of \<open>apply\<close>: whether the entry is kept. A violation raises or, when the strategy is
  to skip, drops the entry.
\<close>

definition check_entry :: "policy_engine \<Rightarrow> 'v::linorder migration_graph \<Rightarrow> 'v plan_entry \<Rightarrow> bool res" where
  "check_entry po g e =
     (if \<not> allows (po_direction po) (pe_source e) (pe_target e)
      then bindR (violation (po_on_direction_violation po)) (\<lambda>_. Inr False)
      else if po_depth_limit po \<ge> 0 \<and> int (length (pe_steps e)) > po_depth_limit po
      then bindR (violation (po_on_depth_violation po)) (\<lambda>_. Inr False)
      else if node_id_of (pe_source e) \<noteq> node_id_of (pe_target e) \<and> pe_steps e = []
      then bindR (violation (po_on_missing_path po)) (\<lambda>_. Inr False)
      else bindR (entry_edges e) (\<lambda>es.
        if list_ex (\<lambda>i. \<not> mg_has_migration i g) es
        then bindR (violation (po_on_missing_path po)) (\<lambda>_. Inr False)
        else Inr True))"

fun filterR :: "('a \<Rightarrow> bool res) \<Rightarrow> 'a list \<Rightarrow> 'a list res" where
  "filterR f [] = Inr []"
| "filterR f (x # xs) = bindR (f x) (\<lambda>b. bindR (filterR f xs) (\<lambda>ys. Inr (if b then x # ys else ys)))"

definition policy_apply :: "policy_engine \<Rightarrow> 'v::linorder migration_graph \<Rightarrow> ('v, 'm) path_plan \<Rightarrow> ('v, 'm) path_plan res" where
  "policy_apply po g plan = bindR (filterR (check_entry po g) (pp_entries plan)) (\<lambda>kept. Inr (plan\<lparr>pp_entries := kept\<rparr>))"

section \<open>Targets\<close>

record version_range =
  vr_gte :: "string option"
  vr_lt :: "string option"
  vr_eq :: "string option"

text \<open>\<open>parse\<close> is \<open>parse_version\<close> on a string; a parsed version is returned by it unchanged.\<close>

definition range_matches :: "(string \<Rightarrow> 'v::linorder res) \<Rightarrow> version_range \<Rightarrow> 'v \<Rightarrow> bool res" where
  "range_matches parse rng v =
     (case vr_eq rng of
        Some s \<Rightarrow> bindR (parse s) (\<lambda>w. Inr (v = w))
      | None \<Rightarrow>
          bindR (case vr_gte rng of None \<Rightarrow> Inr False | Some s \<Rightarrow> bindR (parse s) (\<lambda>w. Inr (v < w))) (\<lambda>below.
            if below then Inr False
            else bindR (case vr_lt rng of None \<Rightarrow> Inr False | Some s \<Rightarrow> bindR (parse s) (\<lambda>w. Inr (v \<ge> w))) (\<lambda>above.
              Inr (\<not> above))))"

type_synonym 'v resolver = "'v node \<Rightarrow> 'v node option res"

datatype ('v, 'm) target_policy =
    TCallable "'v resolver"
  | TNone
  | TString string
  | TModel 'm
  | TRange version_range
  | TDict "(string \<times> ('v, 'm) target_policy) list"
  | TNode "'v node"

definition skip_target :: "'v resolver" where
  "skip_target current = Inr None"

definition latest_target :: "'v migration_graph \<Rightarrow> 'v resolver" where
  "latest_target g current = bindR (mg_latest (nid_kind (node_id_of current)) g) (\<lambda>n. Inr (Some n))"

definition earliest_target :: "'v migration_graph \<Rightarrow> 'v resolver" where
  "earliest_target g current = bindR (mg_earliest (nid_kind (node_id_of current)) g) (\<lambda>n. Inr (Some n))"

definition range_target :: "(string \<Rightarrow> 'v::linorder res) \<Rightarrow> 'v migration_graph \<Rightarrow> version_range \<Rightarrow> 'v resolver" where
  "range_target parse g rng current =
     bindR (filterR (\<lambda>n. range_matches parse rng (nid_version (node_id_of n))) (mg_kind_versions (nid_kind (node_id_of current)) g))
       (\<lambda>matched. Inr (if matched = [] then None else Some (last matched)))"

definition same_kind_target :: "'v node \<Rightarrow> 'v resolver" where
  "same_kind_target target current =
     (if nid_kind (node_id_of current) \<noteq> nid_kind (node_id_of target) then Inl CatalogError else Inr (Some target))"

definition fixed_target :: "'v migration_graph \<Rightarrow> 'v node \<Rightarrow> 'v resolver res" where
  "fixed_target g target =
     (if \<not> mg_has_model (node_id_of target) g then Inl CatalogError else Inr (same_kind_target target))"

definition multi_target :: "(string \<times> 'v resolver) list \<Rightarrow> 'v resolver" where
  "multi_target resolvers current =
     (let fallback = map_of resolvers ''*'';
          by_kind = filter (\<lambda>(k, _). k \<noteq> ''*'') resolvers in
      case (case map_of by_kind (nid_kind (node_id_of current)) of None \<Rightarrow> fallback | Some f \<Rightarrow> Some f) of
        None \<Rightarrow> Inr None
      | Some f \<Rightarrow> f current)"

definition model_target :: "('m \<Rightarrow> model_ref) \<Rightarrow> 'v migration_graph \<Rightarrow> 'm \<Rightarrow> 'v resolver res" where
  "model_target ref_of g m =
     (case mg_get_model_by_ref (ref_of m) g of
        Inl ModelNotFoundError \<Rightarrow> Inl CatalogError
      | Inl e \<Rightarrow> Inl e
      | Inr target \<Rightarrow> Inr (same_kind_target target))"

definition version_target :: "(string \<Rightarrow> 'v res) \<Rightarrow> 'v migration_graph \<Rightarrow> string \<Rightarrow> 'v resolver res" where
  "version_target parse g s =
     (case parse s of
        Inl ValueError \<Rightarrow> Inl CatalogError
      | Inl e \<Rightarrow> Inl e
      | Inr v \<Rightarrow> Inr (\<lambda>current.
          bindR (mk_node_id (nid_namespace (node_id_of current)) (nid_kind (node_id_of current)) v) (\<lambda>key.
            bindR (mg_get_model key g) (\<lambda>n. Inr (Some n)))))"

fun compile :: "(string \<Rightarrow> 'v::linorder res) \<Rightarrow> ('m \<Rightarrow> model_ref) \<Rightarrow> 'v migration_graph \<Rightarrow> ('v, 'm) target_policy \<Rightarrow> 'v resolver res" where
  "compile parse ref_of g (TCallable f) = Inr f"
| "compile parse ref_of g TNone = Inr skip_target"
| "compile parse ref_of g (TString s) =
     (if s = ''skip'' then Inr skip_target
      else if s = ''latest'' then Inr (latest_target g)
      else if s = ''earliest'' then Inr (earliest_target g)
      else version_target parse g s)"
| "compile parse ref_of g (TModel m) = model_target ref_of g m"
| "compile parse ref_of g (TRange rng) = Inr (range_target parse g rng)"
| "compile parse ref_of g (TDict ts) =
     bindR (mapR (\<lambda>(k, t). bindR (compile parse ref_of g t) (\<lambda>f. Inr (k, f))) ts) (\<lambda>fs. Inr (multi_target fs))"
| "compile parse ref_of g (TNode n) = fixed_target g n"

text \<open>The selectors of a transport: a default, and the first that selects something.\<close>

definition default_target :: "('v, 'm) target_policy option \<Rightarrow> 'c \<Rightarrow> ('v, 'm) target_policy option" where
  "default_target t context = t"

fun first_match :: "('c \<Rightarrow> ('v, 'm) target_policy option) list \<Rightarrow> 'c \<Rightarrow> ('v, 'm) target_policy option" where
  "first_match [] context = None"
| "first_match (s # ss) context = (case s context of Some t \<Rightarrow> Some t | None \<Rightarrow> first_match ss context)"

section \<open>The path finder\<close>

record 'v resolved_path =
  rp_steps :: "('v node \<times> 'v node) list"
  rp_edges :: "'v edge_id list"

type_synonym 'v path_cache = "('v node_id \<times> 'v node_id, 'v resolved_path) dict"

record ('v, 'm) path_finder =
  pf_graph :: "'v migration_graph"
  pf_parse :: "string \<Rightarrow> 'v res"
  pf_ref_of :: "'m \<Rightarrow> model_ref"
  pf_policy :: policy_engine
  pf_discriminator :: string

definition resolve_path :: "('v, 'm) path_finder \<Rightarrow> 'v node_id \<Rightarrow> 'v node_id \<Rightarrow> 'v resolved_path res" where
  "resolve_path pf s t = bindR (edge_path s t (pf_discriminator pf) (pf_graph pf)) (\<lambda>es.
     Inr \<lparr>rp_steps = map (\<lambda>e. (edge_source e, edge_target e)) es, rp_edges = map eid_of es\<rparr>)"

definition entry_of :: "'v extracted_entry \<Rightarrow> 'v node \<Rightarrow> 'v resolved_path \<Rightarrow> 'v plan_entry res" where
  "entry_of x target rp = (case descriptor target of
     None \<Rightarrow> Inl AttributeError
   | Some d \<Rightarrow> Inr \<lparr>pe_path = xe_path x, pe_source = xe_node x, pe_target = target, pe_target_model = desc_ref d,
       pe_steps = rp_steps rp, pe_edges = rp_edges rp\<rparr>)"

definition resolve :: "('v, 'm) path_finder \<Rightarrow> 'v extracted_entry \<Rightarrow> 'v node \<Rightarrow> ('v path_cache, 'v plan_entry) op" where
  "resolve pf x target cache =
     (let key = (node_id_of (xe_node x), node_id_of target) in
      case map_of cache key of
        Some rp \<Rightarrow> (entry_of x target rp, cache)
      | None \<Rightarrow> (case resolve_path pf (fst key) (snd key) of
          Inl e \<Rightarrow> (Inl e, cache)
        | Inr rp \<Rightarrow> (entry_of x target rp, AList.update key rp cache)))"

fun plan_entries :: "('v, 'm) path_finder \<Rightarrow> 'v resolver \<Rightarrow> 'v extracted_entry list \<Rightarrow> ('v path_cache, 'v plan_entry list) op" where
  "plan_entries pf f [] = returnS []"
| "plan_entries pf f (x # xs) = bindS (liftS (f (xe_node x))) (\<lambda>target.
     case target of
       None \<Rightarrow> plan_entries pf f xs
     | Some t \<Rightarrow> bindS (resolve pf x t) (\<lambda>e. bindS (plan_entries pf f xs) (\<lambda>es. returnS (e # es))))"

definition find :: "('v::linorder, 'm) path_finder \<Rightarrow> 'v extracted_entry list \<Rightarrow> ('v, 'm) target_policy \<Rightarrow> 'm option
    \<Rightarrow> ('v path_cache, ('v, 'm) path_plan) op" where
  "find pf xs target source_model =
     bindS (liftS (compile (pf_parse pf) (pf_ref_of pf) (pf_graph pf) target)) (\<lambda>f.
     bindS (plan_entries pf f xs) (\<lambda>es.
     liftS (policy_apply (pf_policy pf) (pf_graph pf) \<lparr>pp_entries = es, pp_source_model = source_model\<rparr>)))"

section \<open>The policy engine\<close>

lemma filterR_Inr: "filterR f xs = Inr ys \<Longrightarrow> (\<forall>x \<in> set xs. okR (f x)) \<and> ys = filter (\<lambda>x. f x = Inr True) xs"
  by (induction xs arbitrary: ys) (auto simp: bindR_eq_Inr okR_iff)

lemma filterR_ok: "\<forall>x \<in> set xs. okR (f x) \<Longrightarrow> filterR f xs = Inr (filter (\<lambda>x. f x = Inr True) xs)"
  by (induction xs) (auto simp: okR_iff)

lemma violation_cases: "violation s = Inr u \<longleftrightarrow> s = ''skip''" "violation s \<noteq> Inr u \<Longrightarrow> \<exists>e. violation s = Inl e"
  by (auto simp: violation_def split: if_splits)

text \<open>What a policy accepts.\<close>

definition acceptable :: "policy_engine \<Rightarrow> 'v::linorder migration_graph \<Rightarrow> 'v plan_entry \<Rightarrow> bool" where
  "acceptable po g e \<longleftrightarrow> allows (po_direction po) (pe_source e) (pe_target e)
     \<and> (po_depth_limit po < 0 \<or> int (length (pe_steps e)) \<le> po_depth_limit po)
     \<and> (node_id_of (pe_source e) = node_id_of (pe_target e) \<or> pe_steps e \<noteq> [])
     \<and> (\<exists>es. entry_edges e = Inr es \<and> (\<forall>i \<in> set es. mg_has_migration i g))"

lemma check_entry_True: "check_entry po g e = Inr True \<longleftrightarrow> acceptable po g e"
  unfolding check_entry_def acceptable_def
  by (cases "entry_edges e") (auto simp: bindR_eq_Inr list_ex_iff)

lemma check_entry_raise:
  assumes "po_on_direction_violation po \<noteq> ''skip''" "po_on_depth_violation po \<noteq> ''skip''" "po_on_missing_path po \<noteq> ''skip''"
  shows "check_entry po g e \<noteq> Inr False"
  using assms unfolding check_entry_def by (auto simp: bindR_eq_Inr violation_cases)

lemma check_entry_skip:
  assumes "po_on_direction_violation po = ''skip''" "po_on_depth_violation po = ''skip''" "po_on_missing_path po = ''skip''"
    and "okR (entry_edges e)"
  shows "okR (check_entry po g e)"
  using assms unfolding check_entry_def by (auto simp: okR_iff violation_def)

text \<open>
  C39. The policy engine: whenever it returns, it keeps exactly the acceptable entries of the plan, in their
  order; when no strategy is to skip it returns only plans of which it kept every entry; and when every
  strategy is to skip it always returns on a plan whose edges can be named, which is not so for an entry without
  edges that has a step between different kinds or namespaces.
\<close>

theorem policy_apply_spec:
  "(\<forall>plan'. policy_apply po g plan = Inr plan' \<longrightarrow>
      plan' = plan\<lparr>pp_entries := filter (acceptable po g) (pp_entries plan)\<rparr>
      \<and> (po_on_direction_violation po \<noteq> ''skip'' \<and> po_on_depth_violation po \<noteq> ''skip'' \<and> po_on_missing_path po \<noteq> ''skip''
           \<longrightarrow> plan' = plan))
   \<and> (po_on_direction_violation po = ''skip'' \<and> po_on_depth_violation po = ''skip'' \<and> po_on_missing_path po = ''skip''
      \<and> (\<forall>e \<in> set (pp_entries plan). okR (entry_edges e)) \<longrightarrow> okR (policy_apply po g plan))"
proof (intro conjI allI impI)
  fix plan' assume a: "policy_apply po g plan = Inr plan'"
  then obtain kept where k: "filterR (check_entry po g) (pp_entries plan) = Inr kept" "plan' = plan\<lparr>pp_entries := kept\<rparr>"
    by (auto simp: policy_apply_def bindR_eq_Inr)
  note f = filterR_Inr [OF k(1)]
  then show "plan' = plan\<lparr>pp_entries := filter (acceptable po g) (pp_entries plan)\<rparr>"
    using k(2) by (simp add: check_entry_True)
  assume n: "po_on_direction_violation po \<noteq> ''skip'' \<and> po_on_depth_violation po \<noteq> ''skip'' \<and> po_on_missing_path po \<noteq> ''skip''"
  have "check_entry po g e = Inr True" if e: "e \<in> set (pp_entries plan)" for e
  proof -
    obtain b where b: "check_entry po g e = Inr b" using f e by (auto simp: okR_iff)
    then show ?thesis using check_entry_raise [of po g e] n by (cases b) auto
  qed
  then have "kept = pp_entries plan" using f by (simp add: filter_id_conv)
  then show "plan' = plan" using k(2) by simp
next
  assume "po_on_direction_violation po = ''skip'' \<and> po_on_depth_violation po = ''skip'' \<and> po_on_missing_path po = ''skip''
      \<and> (\<forall>e \<in> set (pp_entries plan). okR (entry_edges e))"
  then have "\<forall>e \<in> set (pp_entries plan). okR (check_entry po g e)" using check_entry_skip by blast
  from filterR_ok [OF this] show "okR (policy_apply po g plan)" by (simp add: policy_apply_def)
qed

section \<open>The cache of the finder\<close>

definition cache_ok :: "('v, 'm) path_finder \<Rightarrow> 'v path_cache \<Rightarrow> bool" where
  "cache_ok pf cache \<longleftrightarrow> (\<forall>s t rp. map_of cache (s, t) = Some rp \<longrightarrow> resolve_path pf s t = Inr rp)"

lemma resolve_fresh:
  assumes "cache_ok pf cache"
  shows "fst (resolve pf x t cache) = bindR (resolve_path pf (node_id_of (xe_node x)) (node_id_of t)) (entry_of x t)"
    and "cache_ok pf (snd (resolve pf x t cache))"
  using assms unfolding cache_ok_def resolve_def Let_def
  by (auto split: option.splits sum.splits simp: update_conv')

lemma plan_entries_fresh:
  assumes "cache_ok pf cache" "cache_ok pf cache'"
  shows "fst (plan_entries pf f xs cache) = fst (plan_entries pf f xs cache') \<and> cache_ok pf (snd (plan_entries pf f xs cache))"
  using assms
proof (induction xs arbitrary: cache cache')
  case (Cons x xs)
  show ?case
  proof (cases "f (xe_node x)")
    case (Inr target)
    show ?thesis
    proof (cases target)
      case None
      from Cons.IH [OF Cons.prems] show ?thesis using Inr None by (simp add: bindS_def)
    next
      case (Some t)
      let ?r = "resolve pf x t"
      have r: "fst (?r cache) = fst (?r cache')" "cache_ok pf (snd (?r cache))" "cache_ok pf (snd (?r cache'))"
        using resolve_fresh [OF Cons.prems(1), of x t] resolve_fresh [OF Cons.prems(2), of x t] by auto
      from Cons.IH [OF r(2,3)] show ?thesis
        using r Inr Some
        by (cases "?r cache"; cases "?r cache'"; cases "plan_entries pf f xs (snd (?r cache))";
            cases "plan_entries pf f xs (snd (?r cache'))")
          (auto simp: bindS_def split: sum.splits)
    qed
  qed (use Cons.prems in \<open>simp add: bindS_def\<close>)
qed simp

lemma cache_ok_empty [simp]: "cache_ok pf []"
  by (simp add: cache_ok_def)

lemma find_fresh:
  assumes "cache_ok pf cache"
  shows "fst (find pf xs target m cache) = fst (find pf xs target m []) \<and> cache_ok pf (snd (find pf xs target m cache))"
proof (cases "compile (pf_parse pf) (pf_ref_of pf) (pf_graph pf) target")
  case (Inr f)
  with plan_entries_fresh [OF assms cache_ok_empty, of f xs] show ?thesis
    by (cases "plan_entries pf f xs cache"; cases "plan_entries pf f xs []") (auto simp: find_def bindS_def split: sum.splits)
qed (use assms in \<open>simp add: find_def bindS_def\<close>)

text \<open>
  The cache of the path finder is transparent: from a cache that was filled by the finder's own
  resolutions every call has the outcome it would have with an empty cache, errors included, and leaves
  such a cache behind.
\<close>

theorem find_cache_transparent:
  assumes "cache_ok pf cache"
  shows "fst (find pf xs target m cache) = fst (find pf xs target m []) \<and> cache_ok pf (snd (find pf xs target m cache))"
  by (rule find_fresh [OF assms])

section \<open>Soundness of plans\<close>

lemma edge_path_chained:
  assumes "backend_wf (mg_backend g)" "edge_path a b x g = Inr es"
  shows "chained (walkable x g) a es b"
proof -
  let ?vs = "mg_kind_versions (nid_kind a) g"
  have "asc node_id_of ?vs" using graph_catalog.versions_asc [OF assms(1)] .
  note pos = map_of_positions [OF asc_distinct_keys [OF this]]
  from assms(2) obtain lo hi where p: "map_of (dict_of (zip (map node_id_of ?vs) [0..<length (map node_id_of ?vs)])) a = Some lo"
    "map_of (dict_of (zip (map node_id_of ?vs) [0..<length (map node_id_of ?vs)])) b = Some hi" "edge_walk ?vs x g lo hi = Inr es"
    by (auto simp: edge_path_def Let_def split: if_splits option.splits)
  have "node_id_of (?vs ! lo) = a" "node_id_of (?vs ! hi) = b" using p(1,2) unfolding pos by auto
  then show ?thesis using walk_chained [OF assms(1) p(3)] by simp
qed

definition resolved_from :: "('v, 'm) path_finder \<Rightarrow> 'v resolver \<Rightarrow> 'v extracted_entry \<Rightarrow> 'v plan_entry \<Rightarrow> bool" where
  "resolved_from pf f x e \<longleftrightarrow> pe_path e = xe_path x \<and> pe_source e = xe_node x \<and> f (xe_node x) = Inr (Some (pe_target e))
     \<and> map_option desc_ref (descriptor (pe_target e)) = Some (pe_target_model e)
     \<and> (\<exists>es. edge_path (node_id_of (pe_source e)) (node_id_of (pe_target e)) (pf_discriminator pf) (pf_graph pf) = Inr es
         \<and> pe_edges e = map eid_of es \<and> pe_steps e = map (\<lambda>e. (edge_source e, edge_target e)) es)"

lemma plan_entries_sound:
  assumes "cache_ok pf cache" "plan_entries pf f xs cache = (Inr es, cache')"
  shows "\<exists>ys. subseq ys xs \<and> list_all2 (resolved_from pf f) ys es
    \<and> (\<forall>x \<in> set xs - set ys. f (xe_node x) = Inr None)"
  using assms
proof (induction xs arbitrary: cache es)
  case (Cons x xs)
  from Cons.prems(2) obtain target where t: "f (xe_node x) = Inr target"
    by (cases "f (xe_node x)") (auto simp: bindS_def)
  show ?case
  proof (cases target)
    case None
    then have "plan_entries pf f xs cache = (Inr es, cache')" using Cons.prems(2) t by (simp add: bindS_def)
    from Cons.IH [OF Cons.prems(1) this] obtain ys where "subseq ys xs" "list_all2 (resolved_from pf f) ys es"
      "\<forall>x \<in> set xs - set ys. f (xe_node x) = Inr None" by blast
    then show ?thesis using t None by (intro exI [of _ ys]) auto
  next
    case (Some tn)
    obtain e c es' where r: "resolve pf x tn cache = (Inr e, c)" "plan_entries pf f xs c = (Inr es', cache')" "es = e # es'"
      using Cons.prems(2) t Some by (auto simp: bindS_def split: prod.splits sum.splits)
    have c: "cache_ok pf c" "bindR (resolve_path pf (node_id_of (xe_node x)) (node_id_of tn)) (entry_of x tn) = Inr e"
      using resolve_fresh [OF Cons.prems(1), of x tn] r(1) by simp_all
    have "resolved_from pf f x e"
      using c(2) t Some by (auto simp: resolved_from_def bindR_eq_Inr resolve_path_def entry_of_def split: option.splits)
    moreover from Cons.IH [OF c(1) r(2)] obtain ys where "subseq ys xs" "list_all2 (resolved_from pf f) ys es'"
      "\<forall>x \<in> set xs - set ys. f (xe_node x) = Inr None" by blast
    ultimately show ?thesis using r(3) by (intro exI [of _ "x # ys"]) auto
  qed
qed (auto intro: exI [of _ "[]"])

lemma find_Inr:
  assumes "cache_ok pf cache" "find pf xs target m cache = (Inr plan, cache')"
  obtains f ys es where "compile (pf_parse pf) (pf_ref_of pf) (pf_graph pf) target = Inr f"
    "subseq ys xs" "list_all2 (resolved_from pf f) ys es" "\<forall>x \<in> set xs - set ys. f (xe_node x) = Inr None"
    "pp_entries plan = filter (acceptable (pf_policy pf) (pf_graph pf)) es"
proof -
  obtain f where f: "compile (pf_parse pf) (pf_ref_of pf) (pf_graph pf) target = Inr f"
    using assms(2) by (cases "compile (pf_parse pf) (pf_ref_of pf) (pf_graph pf) target") (auto simp: find_def bindS_def)
  obtain es c where p: "plan_entries pf f xs cache = (Inr es, c)"
    "policy_apply (pf_policy pf) (pf_graph pf) \<lparr>pp_entries = es, pp_source_model = m\<rparr> = Inr plan"
    using assms(2) f by (auto simp: find_def bindS_def split: prod.splits sum.splits)
  then obtain kept where "filterR (check_entry (pf_policy pf) (pf_graph pf)) es = Inr kept" "pp_entries plan = kept"
    by (auto simp: policy_apply_def bindR_eq_Inr)
  then have "pp_entries plan = filter (acceptable (pf_policy pf) (pf_graph pf)) es"
    using filterR_Inr by (fastforce simp: check_entry_True)
  with plan_entries_sound [OF assms(1) p(1)] f that show thesis by blast
qed

text \<open>
  C8. Every entry of a plan that the finder returns over a snapshot of a reachable registry can be carried out:
  it belongs to an extracted entry, its target is what the compiled target policy resolves that entry to,
  its edges are a chain of executable migrations with the finder's discriminator from the source to the
  target, and it respects the direction policy and the depth limit.
\<close>

theorem plan_sound:
  assumes "reg_reachable cfg r" "build_graph ty cfg r expected = Inr (pf_graph pf)"
    and "cache_ok pf cache" "find pf xs target m cache = (Inr plan, cache')" "e \<in> set (pp_entries plan)"
  shows "\<exists>f. compile (pf_parse pf) (pf_ref_of pf) (pf_graph pf) target = Inr f
    \<and> (\<exists>x \<in> set xs. pe_path e = xe_path x \<and> pe_source e = xe_node x \<and> f (xe_node x) = Inr (Some (pe_target e)))
    \<and> (\<exists>es. pe_edges e = map eid_of es
        \<and> chained (walkable (pf_discriminator pf) (pf_graph pf)) (node_id_of (pe_source e)) es (node_id_of (pe_target e)))
    \<and> allows (po_direction (pf_policy pf)) (pe_source e) (pe_target e)
    \<and> (po_depth_limit (pf_policy pf) < 0 \<or> int (length (pe_edges e)) \<le> po_depth_limit (pf_policy pf))"
proof -
  have wf: "backend_wf (mg_backend (pf_graph pf))"
    using build_graph_backend [OF reg_reachable_wf [OF assms(1)] assms(2)] by blast
  from find_Inr [OF assms(3,4)] obtain f ys es where f: "compile (pf_parse pf) (pf_ref_of pf) (pf_graph pf) target = Inr f"
    "subseq ys xs" "list_all2 (resolved_from pf f) ys es" "pp_entries plan = filter (acceptable (pf_policy pf) (pf_graph pf)) es"
    by metis
  then have e: "e \<in> set es" "acceptable (pf_policy pf) (pf_graph pf) e" using assms(5) by auto
  from list_all2_inD [OF f(3) e(1)] obtain x where x: "x \<in> set ys" "resolved_from pf f x e" by blast
  have "x \<in> set xs" using x(1) f(2) by (metis notin_set_nthsI subseq_conv_nths)
  moreover obtain p where p: "edge_path (node_id_of (pe_source e)) (node_id_of (pe_target e)) (pf_discriminator pf) (pf_graph pf) = Inr p"
    "pe_edges e = map eid_of p" "pe_steps e = map (\<lambda>e. (edge_source e, edge_target e)) p"
    using x(2) by (auto simp: resolved_from_def)
  moreover note edge_path_chained [OF wf p(1)]
  ultimately show ?thesis
    using f(1) x(2) e(2) by (auto simp: resolved_from_def acceptable_def)
qed

section \<open>Targets\<close>

text \<open>
  A version range resolves to the highest registered version of the kind that it matches, over a snapshot
  of a reachable registry: the target is a registered model of the entry's kind in the range, every model
  of the kind in the range is at most it, and nothing is resolved exactly when no model matches.
\<close>

theorem range_target_highest:
  assumes "reg_reachable cfg r" "build_graph ty cfg r expected = Inr g" "range_target parse g rng current = Inr result"
  shows "case result of
      None \<Rightarrow> \<forall>i n. find_model i r = Some n \<longrightarrow> nid_kind i = nid_kind (node_id_of current) \<longrightarrow>
        range_matches parse rng (nid_version i) = Inr False
    | Some t \<Rightarrow> find_model (node_id_of t) r = Some t \<and> nid_kind (node_id_of t) = nid_kind (node_id_of current)
        \<and> range_matches parse rng (nid_version (node_id_of t)) = Inr True
        \<and> (\<forall>i n. find_model i r = Some n \<longrightarrow> nid_kind i = nid_kind (node_id_of current) \<longrightarrow>
             range_matches parse rng (nid_version i) = Inr True \<longrightarrow> i \<le> node_id_of t)"
proof -
  let ?k = "nid_kind (node_id_of current)" and ?P = "\<lambda>n. range_matches parse rng (nid_version (node_id_of n))"
  let ?vs = "kind_versions ?k r" and ?m = "filter (\<lambda>n. ?P n = Inr True) (kind_versions ?k r)"
  have wf: "reg_wf cfg r" by (rule reg_reachable_wf [OF assms(1)])
  have vs: "mg_kind_versions ?k g = ?vs" using snapshot_lookups [OF assms(1,2)] by blast
  from assms(3) have m: "filterR ?P ?vs = Inr ?m" "result = (if ?m = [] then None else Some (last ?m))"
    using filterR_Inr [of ?P ?vs] by (auto simp: range_target_def bindR_eq_Inr vs)
  have ok: "\<forall>n \<in> set ?vs. okR (?P n)" using filterR_Inr [OF m(1)] by blast
  have at: "n \<in> set ?vs \<longleftrightarrow> find_model (node_id_of n) r = Some n \<and> nid_kind (node_id_of n) = ?k" for n
    using registry_catalog.model_at_iff [OF wf, of "node_id_of n" n] registry_catalog.versions_kind [OF wf, of n ?k] by auto
  have id: "find_model i r = Some n \<Longrightarrow> node_id_of n = i" for i n
    using registry_catalog.model_at_iff [OF wf, of i n] by blast
  show ?thesis
  proof (cases "?m = []")
    case True
    have "range_matches parse rng (nid_version i) = Inr False" if "find_model i r = Some n" "nid_kind i = ?k" for i n
    proof -
      have n: "n \<in> set ?vs" "node_id_of n = i" using that id at by auto
      then have "?P n \<noteq> Inr True" using True by (auto simp: filter_empty_conv)
      then show ?thesis using ok n by (auto simp: okR_iff)
    qed
    then show ?thesis using True m(2) by simp
  next
    case False
    have asc: "asc node_id_of ?m" using registry_catalog.versions_asc [OF wf] by (simp add: asc_filter)
    have l: "last ?m \<in> set ?m" using False by (rule last_in_set)
    have max: "node_id_of n \<le> node_id_of (last ?m)" if "n \<in> set ?m" for n
    proof -
      have "?m = butlast ?m @ [last ?m]" using False by simp
      then have "asc node_id_of (butlast ?m @ [last ?m])" "n \<in> set (butlast ?m @ [last ?m])" using asc that by metis+
      then show ?thesis unfolding asc_append by (auto intro: less_imp_le)
    qed
    have "i \<le> node_id_of (last ?m)"
      if "find_model i r = Some n" "nid_kind i = ?k" "range_matches parse rng (nid_version i) = Inr True" for i n
    proof -
      have n: "n \<in> set ?vs" "node_id_of n = i" using that id at by auto
      then show ?thesis using max [of n] that(3) by simp
    qed
    then show ?thesis using False m(2) l at [of "last ?m"] by auto
  qed
qed

text \<open>
  A plan to the latest versions over a snapshot of a reachable registry: the target of every entry is the
  greatest registered model of the kind of the extracted entry.
\<close>

theorem plan_latest:
  assumes "reg_reachable cfg r" "build_graph ty cfg r expected = Inr (pf_graph pf)"
    and "cache_ok pf cache" "find pf xs (TString ''latest'') m cache = (Inr plan, cache')" "e \<in> set (pp_entries plan)"
  shows "find_model (node_id_of (pe_target e)) r = Some (pe_target e)
    \<and> nid_kind (node_id_of (pe_target e)) = nid_kind (node_id_of (pe_source e))
    \<and> (\<forall>i n. find_model i r = Some n \<longrightarrow> nid_kind i = nid_kind (node_id_of (pe_source e)) \<longrightarrow> i \<le> node_id_of (pe_target e))"
proof -
  have wf: "reg_wf cfg r" by (rule reg_reachable_wf [OF assms(1)])
  from find_Inr [OF assms(3,4)] obtain f ys es where f: "compile (pf_parse pf) (pf_ref_of pf) (pf_graph pf) (TString ''latest'') = Inr f"
    "list_all2 (resolved_from pf f) ys es" "pp_entries plan = filter (acceptable (pf_policy pf) (pf_graph pf)) es"
    by metis
  then have "e \<in> set es" using assms(5) by simp
  from list_all2_inD [OF f(2) this] obtain x where "resolved_from pf f x e" by blast
  then have "latest_target (pf_graph pf) (pe_source e) = Inr (Some (pe_target e))"
    using f(1) by (simp add: resolved_from_def)
  then have "mg_latest (nid_kind (node_id_of (pe_source e))) (pf_graph pf) = Inr (pe_target e)"
    by (auto simp: latest_target_def bindR_eq_Inr)
  then have "latest (nid_kind (node_id_of (pe_source e))) r = Inr (pe_target e)" using snapshot_lookups [OF assms(1,2)] by metis
  from registry_catalog.latest_greatest [OF wf this] show ?thesis .
qed

section \<open>A concrete plan\<close>

definition sample_policy :: policy_engine where
  "sample_policy = \<lparr>po_direction = ForwardDirection, po_on_direction_violation = ''raise'', po_on_missing_path = ''raise'',
     po_depth_limit = 5, po_on_depth_violation = ''raise''\<rparr>"

definition sample_finder :: "(nat, unit) path_finder" where
  "sample_finder = \<lparr>pf_graph = sample_snapshot, pf_parse = (\<lambda>s. Inr (length s)), pf_ref_of = (\<lambda>_. sample_ref),
     pf_policy = sample_policy, pf_discriminator = ''default''\<rparr>"

definition sample_extracted :: "nat extracted_entry" where
  "sample_extracted = \<lparr>xe_path = [], xe_node = sample_model 1\<rparr>"

lemma sample_find:
  "\<exists>e c. find sample_finder [sample_extracted] (TString ''latest'') None [] = (Inr \<lparr>pp_entries = [e], pp_source_model = None\<rparr>, c)
     \<and> pe_source e = sample_model 1 \<and> pe_target e = sample_model 2"
proof -
  obtain x where x: "edge_path (NodeId ''a'' ''K'' 1) (NodeId ''a'' ''K'' 2) ''default'' sample_snapshot = Inr [x]"
    "eid_of x = EdgeId (NodeId ''a'' ''K'' 1) (NodeId ''a'' ''K'' 2) ''default''" using sample_edge_path by blast
  have d: "descriptor (sample_model 2) = Some (sample_desc [sample_field ''x'' True])" by (simp add: sample_model_def)
  have lt: "NodeId ''a'' ''K'' (1 :: nat) < NodeId ''a'' ''K'' 2" by (simp add: less_node_id_def identity_def)
  show ?thesis
    using x sample_latest sample_mg_has_migration d lt
    by (simp add: find_def bindS_def sample_finder_def sample_extracted_def latest_target_def resolve_def resolve_path_def
        entry_of_def policy_apply_def check_entry_def entry_edges_def sample_policy_def)
qed

text \<open>A policy that skips everything keeps the entry with its migration and drops one for a migration that is missing.\<close>

definition sample_skipping :: policy_engine where
  "sample_skipping = sample_policy\<lparr>po_on_direction_violation := ''skip'', po_on_depth_violation := ''skip'', po_on_missing_path := ''skip''\<rparr>"

definition sample_offered :: "string \<Rightarrow> nat plan_entry" where
  "sample_offered d = \<lparr>pe_path = [], pe_source = sample_model 1, pe_target = sample_model 2, pe_target_model = sample_ref,
     pe_steps = [(sample_model 1, sample_model 2)], pe_edges = [EdgeId (NodeId ''a'' ''K'' 1) (NodeId ''a'' ''K'' 2) d]\<rparr>"

theorem policy_apply_spec_witness:
  "policy_apply sample_skipping sample_snapshot
       \<lparr>pp_entries = [sample_offered ''other'', sample_offered ''default''], pp_source_model = (None :: unit option)\<rparr> =
     Inr \<lparr>pp_entries = [sample_offered ''default''], pp_source_model = None\<rparr>"
proof -
  let ?p = "\<lparr>pp_entries = [sample_offered ''other'', sample_offered ''default''], pp_source_model = None\<rparr> :: (nat, unit) path_plan"
  let ?e = "\<lambda>d. EdgeId (NodeId ''a'' ''K'' 1) (NodeId ''a'' ''K'' (2 :: nat)) d"
  have "has_migration (?e ''other'') sample_migrated = Inr False" by code_simp
  then have no: "\<not> mg_has_migration (?e ''other'') sample_snapshot"
    using sample_lookups [of undefined "''K''" undefined "?e ''other''"] by (simp add: edge_ok_def)
  have lt: "NodeId ''a'' ''K'' (1 :: nat) < NodeId ''a'' ''K'' 2" by (simp add: less_node_id_def identity_def)
  have "\<not> acceptable sample_skipping sample_snapshot (sample_offered ''other'')"
    using no by (simp add: acceptable_def entry_edges_def sample_offered_def)
  moreover have "acceptable sample_skipping sample_snapshot (sample_offered ''default'')"
    using sample_mg_has_migration lt by (simp add: acceptable_def entry_edges_def sample_offered_def sample_skipping_def sample_policy_def)
  moreover have "okR (policy_apply sample_skipping sample_snapshot ?p)"
    using policy_apply_spec [of sample_skipping sample_snapshot ?p] by (simp add: sample_skipping_def sample_offered_def entry_edges_def)
  ultimately show ?thesis using policy_apply_spec [of sample_skipping sample_snapshot ?p] by (auto simp: okR_iff)
qed

theorem find_cache_transparent_witness:
  "cache_ok sample_finder (snd (find sample_finder [sample_extracted] (TString ''latest'') None []))"
  using find_cache_transparent [OF cache_ok_empty] by blast

theorem plan_sound_witness:
  "\<exists>es. chained (walkable ''default'' sample_snapshot) (NodeId ''a'' ''K'' 1) es (NodeId ''a'' ''K'' 2)"
proof -
  obtain e c where e: "find sample_finder [sample_extracted] (TString ''latest'') None [] = (Inr \<lparr>pp_entries = [e], pp_source_model = None\<rparr>, c)"
    "pe_source e = sample_model 1" "pe_target e = sample_model 2" using sample_find by blast
  have g: "build_graph sample_types sample_cfg sample_migrated None = Inr (pf_graph sample_finder)"
    using sample_snapshot by (simp add: sample_finder_def)
  from plan_sound [OF sample_migrated_reachable g cache_ok_empty e(1), of e] show ?thesis
    using e(2,3) by (auto simp: sample_finder_def)
qed

theorem range_target_highest_witness:
  "\<exists>t. range_target (\<lambda>s. Inr (length s)) sample_snapshot \<lparr>vr_gte = None, vr_lt = Some ''xx'', vr_eq = None\<rparr> (sample_model 2) = Inr (Some t)
     \<and> find_model (node_id_of t) sample_migrated = Some t"
proof -
  let ?r = "range_target (\<lambda>s. Inr (length s)) sample_snapshot \<lparr>vr_gte = None, vr_lt = Some ''xx'', vr_eq = None\<rparr> (sample_model 2)"
  have "mg_kind_versions ''K'' sample_snapshot = [sample_model 1, sample_model 2]"
    using sample_lookups [of undefined "''K''"] sample_migrated_versions by simp
  then have r: "?r = Inr (Some (sample_model 1))" by (simp add: range_target_def range_matches_def)
  show ?thesis using range_target_highest [OF sample_migrated_reachable sample_snapshot r] r by auto
qed

theorem plan_latest_witness: "find_model (NodeId ''a'' ''K'' 2) sample_migrated = Some (sample_model 2)"
proof -
  obtain e c where e: "find sample_finder [sample_extracted] (TString ''latest'') None [] = (Inr \<lparr>pp_entries = [e], pp_source_model = None\<rparr>, c)"
    "pe_source e = sample_model 1" "pe_target e = sample_model 2" using sample_find by blast
  have g: "build_graph sample_types sample_cfg sample_migrated None = Inr (pf_graph sample_finder)"
    using sample_snapshot by (simp add: sample_finder_def)
  from plan_latest [OF sample_migrated_reachable g cache_ok_empty e(1), of e] show ?thesis using e(2,3) by simp
qed

end
