(* ===== verification/Extractors.thy ===== *)
theory Extractors
  imports Planning
begin

text \<open>
  Discovery of versioned entries in a payload, from \<open>runtime/extractors.py\<close>: the containerless walk, which
  tests every dictionary for a registered kind and version, and the walk guided by a source model. The model
  adapter is the port of \<open>schemas/types.py\<close>; its operations are fields of a record and may raise.
  The generators are consumed whole by \<open>ExecutionCoordinator.extract\<close>, so a walk returns the list of what it
  yields or the exception that ends it.
\<close>

section \<open>The adapter port and the walker\<close>

record 'm model_adapter =
  ma_kind_property :: string
  ma_version_property :: string
  ma_can_handle :: "'m \<Rightarrow> bool"
  ma_validate :: "json \<Rightarrow> 'm \<Rightarrow> bool \<Rightarrow> json res"
  ma_field_model :: "'m \<Rightarrow> string \<Rightarrow> 'm option"
  ma_resolve :: "model_ref \<Rightarrow> 'm res"
  ma_identify :: "'m \<Rightarrow> bool"
  ma_finalize :: "'m \<Rightarrow> (string \<times> json) list \<Rightarrow> (string \<times> json) list res"

record ('v, 'm) payload_walker =
  pw_graph :: "'v migration_graph"
  pw_parse :: "'v version_arg \<Rightarrow> 'v res"
  pw_adapter :: "'m model_adapter"
  pw_validation_mode :: string

record 'm walk_context =
  wc_kp :: string
  wc_vp :: string
  wc_max_depth :: int
  wc_versioned_depth :: nat
  wc_parent_model :: "'m option"

type_synonym 'v entry = "path \<times> nat \<times> 'v node"

definition walk_match :: "('v, 'm) payload_walker \<Rightarrow> json \<Rightarrow> string \<Rightarrow> string \<Rightarrow> 'v node option" where
  "walk_match w v kp vp =
     (case v of
        JObj d \<Rightarrow> (case (map_of d kp, map_of d vp) of
          (Some (JStr kind), Some (JStr version_str)) \<Rightarrow>
            (case node_id_parse (pw_parse w) (mg_namespace (pw_graph w)) kind (StrArg version_str) of
               Inl _ \<Rightarrow> None
             | Inr key \<Rightarrow> if \<not> mg_has_model key (pw_graph w) then None
                 else (case mg_get_model key (pw_graph w) of Inl _ \<Rightarrow> None | Inr n \<Rightarrow> Some n))
        | _ \<Rightarrow> None)
      | _ \<Rightarrow> None)"

section \<open>The containerless walk\<close>

definition concatR :: "'a list list res \<Rightarrow> 'a list res" where
  "concatR m = bindR m (\<lambda>xs. Inr (concat xs))"

lemma json_obj_size: "(k, v) \<in> set d \<Longrightarrow> size v < size (JObj d)"
  using size_list_estimation' [of "(k, v)" d "size v" "size_prod (\<lambda>_. 0) size"] by (simp add: less_Suc_eq_le)

lemma json_list_size: "(i, v) \<in> set (enumerate n xs) \<Longrightarrow> size v < size (JList xs)"
proof -
  assume "(i, v) \<in> set (enumerate n xs)"
  then have "v \<in> set xs" by (metis enumerate_snd image_eqI list.set_map snd_conv)
  then show ?thesis using size_list_estimation' [of v xs "size v" size] by (simp add: less_Suc_eq_le)
qed

function walk_containerless :: "('v, 'm) payload_walker \<Rightarrow> json \<Rightarrow> path \<Rightarrow> nat \<Rightarrow> 'm walk_context \<Rightarrow> 'v entry list res" where
  "walk_containerless w (JObj d) p depth ctx =
     (let source = walk_match w (JObj d) (wc_kp ctx) (wc_vp ctx);
          ctx' = (if source \<noteq> None then ctx\<lparr>wc_versioned_depth := wc_versioned_depth ctx + 1\<rparr> else ctx) in
      if source \<noteq> None \<and> wc_max_depth ctx \<ge> 0 \<and> int (wc_versioned_depth ctx) > wc_max_depth ctx
      then Inl MaxDepthExceededError
      else bindR (concatR (mapR (\<lambda>(key, nested). walk_containerless w nested (p @ [Key key]) (depth + 1) ctx') d))
        (\<lambda>rest. Inr ((case source of None \<Rightarrow> [] | Some n \<Rightarrow> [(p, depth, n)]) @ rest)))"
| "walk_containerless w (JList xs) p depth ctx =
     concatR (mapR (\<lambda>(i, item). walk_containerless w item (p @ [Idx (int i)]) (depth + 1) ctx) (enumerate 0 xs))"
| "walk_containerless w JNull p depth ctx = Inr []"
| "walk_containerless w (JBool b) p depth ctx = Inr []"
| "walk_containerless w (JInt i) p depth ctx = Inr []"
| "walk_containerless w (JFloat x) p depth ctx = Inr []"
| "walk_containerless w (JStr s) p depth ctx = Inr []"
  by pat_completeness auto

termination
  by (relation "measure (\<lambda>(w, v, p, depth, ctx). size v)") (auto dest: json_obj_size json_list_size simp del: json.size)

section \<open>The guided walk\<close>

fun step_str :: "step \<Rightarrow> string" where
  "step_str (Key k) = k"
| "step_str (Idx i) = show_int i"

text \<open>\<open>adapter.field_model(ctx.parent_model, str(path[-1]))\<close>, when there is a parent model and a path.\<close>

definition own_model :: "('v, 'm) payload_walker \<Rightarrow> path \<Rightarrow> 'm walk_context \<Rightarrow> 'm option" where
  "own_model w p ctx = (case wc_parent_model ctx of
     None \<Rightarrow> None
   | Some m \<Rightarrow> if p = [] then None else ma_field_model (pw_adapter w) m (step_str (last p)))"

definition child_model :: "('v, 'm) payload_walker \<Rightarrow> 'm option \<Rightarrow> string \<Rightarrow> 'm option" where
  "child_model w fm key = (case fm of
     None \<Rightarrow> None
   | Some m \<Rightarrow> (case ma_field_model (pw_adapter w) m key of None \<Rightarrow> Some m | Some m' \<Rightarrow> Some m'))"

function walk_guided :: "('v, 'm) payload_walker \<Rightarrow> json \<Rightarrow> path \<Rightarrow> nat \<Rightarrow> 'm walk_context \<Rightarrow> 'v entry list res" where
  "walk_guided w v p depth ctx =
     (if wc_max_depth ctx \<ge> 0 \<and> int depth > wc_max_depth ctx then Inl MaxDepthExceededError
      else case v of
        JObj d \<Rightarrow> (case walk_match w v (wc_kp ctx) (wc_vp ctx) of
            Some n \<Rightarrow> Inr [(p, depth, n)]
          | None \<Rightarrow> concatR (mapR (\<lambda>(key, nested). walk_guided w nested (p @ [Key key]) (depth + 1)
              (ctx\<lparr>wc_parent_model := child_model w (own_model w p ctx) key\<rparr>)) d))
      | JList xs \<Rightarrow> concatR (mapR (\<lambda>(i, item). walk_guided w item (p @ [Idx (int i)]) (depth + 1)
            (ctx\<lparr>wc_parent_model := own_model w p ctx\<rparr>)) (enumerate 0 xs))
      | _ \<Rightarrow> Inr [])"
  by pat_completeness auto

termination
  by (relation "measure (\<lambda>(w, v, p, depth, ctx). size v)") (auto dest: json_obj_size json_list_size simp del: json.size)

declare walk_guided.simps [simp del]

section \<open>Extraction\<close>

definition mk_context :: "('v, 'm) payload_walker \<Rightarrow> int \<Rightarrow> 'm option \<Rightarrow> 'm walk_context" where
  "mk_context w max_depth m = \<lparr>wc_kp = ma_kind_property (pw_adapter w), wc_vp = ma_version_property (pw_adapter w),
     wc_max_depth = max_depth, wc_versioned_depth = 0, wc_parent_model = m\<rparr>"

definition validated_payload :: "('v, 'm) payload_walker \<Rightarrow> json \<Rightarrow> 'm \<Rightarrow> json res" where
  "validated_payload w data m =
     (if \<not> ma_can_handle (pw_adapter w) m then Inl PayloadValidationError
      else if pw_validation_mode w = ''none'' then Inr data
      else (case ma_validate (pw_adapter w) data m (pw_validation_mode w = ''strict'') of
          Inl _ \<Rightarrow> Inl PayloadValidationError
        | Inr v \<Rightarrow> Inr v))"

definition container_walk :: "('v, 'm) payload_walker \<Rightarrow> json \<Rightarrow> 'm \<Rightarrow> int \<Rightarrow> 'v entry list res" where
  "container_walk w data m max_depth =
     bindR (validated_payload w data m) (\<lambda>v. walk_guided w v [] 0 (mk_context w max_depth (Some m)))"

definition walker_extract :: "('v, 'm) payload_walker \<Rightarrow> json \<Rightarrow> 'm option \<Rightarrow> int \<Rightarrow> 'v entry list res" where
  "walker_extract w data source_model max_depth =
     (case source_model of
        None \<Rightarrow> walk_containerless w data [] 0 (mk_context w max_depth None)
      | Some m \<Rightarrow> container_walk w data m max_depth)"

definition schema_fields_extract :: "('v, 'm) payload_walker \<Rightarrow> json \<Rightarrow> 'm option \<Rightarrow> int \<Rightarrow> 'v entry list res" where
  "schema_fields_extract w data source_model max_depth =
     (case source_model of
        Some m \<Rightarrow> Inl ValueError
      | None \<Rightarrow> walk_containerless w data [] 0 (mk_context w max_depth None))"

definition container_extract :: "('v, 'm) payload_walker \<Rightarrow> json \<Rightarrow> 'm option \<Rightarrow> int \<Rightarrow> 'v entry list res" where
  "container_extract w data source_model max_depth =
     (case source_model of
        None \<Rightarrow> Inl ValueError
      | Some m \<Rightarrow> container_walk w data m max_depth)"

section \<open>What the containerless walk finds\<close>

text \<open>
  The specification: an entry at a path is a dictionary of the payload that names a registered model, and
  its nesting is the number of such dictionaries strictly above it.
\<close>

definition entry_at :: "('v, 'm) payload_walker \<Rightarrow> json \<Rightarrow> path \<Rightarrow> 'v node \<Rightarrow> bool" where
  "entry_at w v p n \<longleftrightarrow> proper_path p \<and> (\<exists>u. path_get p v = Inr u
     \<and> walk_match w u (ma_kind_property (pw_adapter w)) (ma_version_property (pw_adapter w)) = Some n)"

fun nesting :: "('v, 'm) payload_walker \<Rightarrow> json \<Rightarrow> path \<Rightarrow> nat" where
  "nesting w v [] = 0"
| "nesting w v (s # p) =
     (if walk_match w v (ma_kind_property (pw_adapter w)) (ma_version_property (pw_adapter w)) \<noteq> None then 1 else 0)
     + (case subscript v s of Inl _ \<Rightarrow> 0 | Inr u \<Rightarrow> nesting w u p)"

text \<open>All entries in document order, with paths relative to the value and with their nesting.\<close>

definition under :: "step \<Rightarrow> nat \<Rightarrow> path \<times> nat \<times> 'v node \<Rightarrow> path \<times> nat \<times> 'v node" where
  "under s k e = (s # fst e, fst (snd e) + k, snd (snd e))"

lemma under_simps [simp]: "fst (under s k e) = s # fst e" "fst (snd (under s k e)) = fst (snd e) + k" "snd (snd (under s k e)) = snd (snd e)"
  by (simp_all add: under_def)

function found :: "('v, 'm) payload_walker \<Rightarrow> json \<Rightarrow> (path \<times> nat \<times> 'v node) list" where
  "found w v =
     (let m = walk_match w v (ma_kind_property (pw_adapter w)) (ma_version_property (pw_adapter w));
          k = (if m \<noteq> None then 1 else 0) in
      (case m of None \<Rightarrow> [] | Some n \<Rightarrow> [([], 0, n)]) @
      (case v of
         JObj d \<Rightarrow> concat (map (\<lambda>(key, u). map (under (Key key) k) (found w u)) d)
       | JList xs \<Rightarrow> concat (map (\<lambda>(i, u). map (under (Idx (int i)) k) (found w u)) (enumerate 0 xs))
       | _ \<Rightarrow> []))"
  by pat_completeness auto

termination
  by (relation "measure (\<lambda>(w, v). size v)") (auto dest: json_obj_size json_list_size simp del: json.size)

declare found.simps [simp del]

lemma walk_match_other [simp]: "(\<And>d. v \<noteq> JObj d) \<Longrightarrow> walk_match w v kp vp = None"
  by (cases v) (auto simp: walk_match_def)

lemma mapR_guarded:
  assumes "\<And>x. x \<in> set xs \<Longrightarrow> f x = (if bad x then Inl e else Inr (g x))"
  shows "mapR f xs = (if \<exists>x \<in> set xs. bad x then Inl e else Inr (map g xs))"
  using assms by (induction xs) auto

definition too_deep :: "int \<Rightarrow> nat \<Rightarrow> (path \<times> nat \<times> 'v node) list \<Rightarrow> bool" where
  "too_deep limit base es \<longleftrightarrow> 0 \<le> limit \<and> (\<exists>e \<in> set es. limit < int (base + fst (snd e)))"

lemma too_deep_simps [simp]:
  "\<not> too_deep l b []"
  "too_deep l b (e # es) \<longleftrightarrow> 0 \<le> l \<and> l < int (b + fst (snd e)) \<or> too_deep l b es"
  "too_deep l b (es @ es') \<longleftrightarrow> too_deep l b es \<or> too_deep l b es'"
  "too_deep l b (concat ess) \<longleftrightarrow> (\<exists>es \<in> set ess. too_deep l b es)"
  "too_deep l b (map (under s k) es) \<longleftrightarrow> too_deep l (b + k) es"
  by (auto simp: too_deep_def ac_simps)

definition placed :: "path \<Rightarrow> nat \<Rightarrow> path \<times> nat \<times> 'v node \<Rightarrow> 'v entry" where
  "placed p depth e = (p @ fst e, depth + length (fst e), snd (snd e))"

lemma placed_simps [simp]:
  "placed p depth (under s k e) = placed (p @ [s]) (depth + 1) e"
  "placed p depth ([], c, n) = (p, depth, n)"
  by (simp_all add: placed_def)

lemma walk_containerless_found:
  assumes "wc_kp ctx = ma_kind_property (pw_adapter w)" "wc_vp ctx = ma_version_property (pw_adapter w)"
  shows "walk_containerless w v p depth ctx =
    (if too_deep (wc_max_depth ctx) (wc_versioned_depth ctx) (found w v) then Inl MaxDepthExceededError
     else Inr (map (placed p depth) (found w v)))"
  using assms
proof (induction w v p depth ctx rule: walk_containerless.induct)
  case (1 w d p depth ctx)
  let ?m = "walk_match w (JObj d) (wc_kp ctx) (wc_vp ctx)"
  let ?k = "if ?m \<noteq> None then 1 else 0 :: nat"
  let ?ctx = "if ?m \<noteq> None then ctx\<lparr>wc_versioned_depth := wc_versioned_depth ctx + 1\<rparr> else ctx"
  have c: "wc_max_depth ?ctx = wc_max_depth ctx" "wc_versioned_depth ?ctx = wc_versioned_depth ctx + ?k"
    "wc_kp ?ctx = wc_kp ctx" "wc_vp ?ctx = wc_vp ctx" by auto
  show ?case
  proof (cases "?m \<noteq> None \<and> 0 \<le> wc_max_depth ctx \<and> wc_max_depth ctx < int (wc_versioned_depth ctx)")
    case True
    then show ?thesis using "1.prems" by (auto simp: found.simps [of w "JObj d"] Let_def)
  next
    case False
    have "mapR (\<lambda>(key, nested). walk_containerless w nested (p @ [Key key]) (depth + 1) ?ctx) d =
      (if \<exists>x \<in> set d. too_deep (wc_max_depth ctx) (wc_versioned_depth ctx + ?k) (found w (snd x)) then Inl MaxDepthExceededError
       else Inr (map (\<lambda>x. map (placed (p @ [Key (fst x)]) (depth + 1)) (found w (snd x))) d))"
    proof (rule mapR_guarded)
      fix x assume x: "x \<in> set d"
      have "(fst x, snd x) = x" by simp
      from "1.IH" [OF refl refl False x this] show "(case x of (key, nested) \<Rightarrow> walk_containerless w nested (p @ [Key key]) (depth + 1) ?ctx) =
        (if too_deep (wc_max_depth ctx) (wc_versioned_depth ctx + ?k) (found w (snd x)) then Inl MaxDepthExceededError
         else Inr (map (placed (p @ [Key (fst x)]) (depth + 1)) (found w (snd x))))"
        using "1.prems" c by (simp add: case_prod_unfold)
    qed
    then show ?thesis using "1.prems" False
      by (auto simp: found.simps [of w "JObj d"] Let_def concatR_def case_prod_unfold map_concat comp_def split: option.splits)
  qed
next
  case (2 w xs p depth ctx)
  have "mapR (\<lambda>(i, item). walk_containerless w item (p @ [Idx (int i)]) (depth + 1) ctx) (enumerate 0 xs) =
    (if \<exists>x \<in> set (enumerate 0 xs). too_deep (wc_max_depth ctx) (wc_versioned_depth ctx) (found w (snd x)) then Inl MaxDepthExceededError
     else Inr (map (\<lambda>x. map (placed (p @ [Idx (int (fst x))]) (depth + 1)) (found w (snd x))) (enumerate 0 xs)))"
  proof (rule mapR_guarded)
    fix x assume x: "x \<in> set (enumerate 0 xs)"
    have "(fst x, snd x) = x" by simp
    from "2.IH" [OF x this] show "(case x of (i, item) \<Rightarrow> walk_containerless w item (p @ [Idx (int i)]) (depth + 1) ctx) =
      (if too_deep (wc_max_depth ctx) (wc_versioned_depth ctx) (found w (snd x)) then Inl MaxDepthExceededError
       else Inr (map (placed (p @ [Idx (int (fst x))]) (depth + 1)) (found w (snd x))))"
      using "2.prems" by (simp add: case_prod_unfold)
  qed
  then show ?case
    by (auto simp: found.simps [of w "JList xs"] Let_def concatR_def case_prod_unfold map_concat comp_def)
qed (simp_all add: found.simps)

abbreviation matched :: "('v, 'm) payload_walker \<Rightarrow> json \<Rightarrow> 'v node option" where
  "matched w v \<equiv> walk_match w v (ma_kind_property (pw_adapter w)) (ma_version_property (pw_adapter w))"

abbreviation level_of :: "('v, 'm) payload_walker \<Rightarrow> json \<Rightarrow> nat" where
  "level_of w v \<equiv> (if matched w v \<noteq> None then 1 else 0)"

lemma found_Nil: "([], c, n) \<in> set (found w v) \<longleftrightarrow> matched w v = Some n \<and> c = 0"
  unfolding found.simps [of w v] by (cases v) (auto simp: Let_def under_def split: option.splits)

lemma in_under: "(s # q, c, n) \<in> set (map (under t k) es) \<longleftrightarrow> s = t \<and> (\<exists>c'. (q, c', n) \<in> set es \<and> c = c' + k)"
  by (force simp: under_def image_iff)

lemma in_concat_under:
  "(s # q, c, n) \<in> set (concat (map (\<lambda>(x, u). map (under (f x) k) (g u)) d)) \<longleftrightarrow>
     (\<exists>(x, u) \<in> set d. s = f x \<and> (\<exists>c'. (q, c', n) \<in> set (g u) \<and> c = c' + k))"
  by (induction d) (auto simp: in_under simp del: set_map)

lemma found_Cons:
  "(s # q, c, n) \<in> set (found w v) \<longleftrightarrow>
     (case v of
        JObj d \<Rightarrow> \<exists>(k, u) \<in> set d. s = Key k \<and> (\<exists>c'. (q, c', n) \<in> set (found w u) \<and> c = c' + level_of w v)
      | JList xs \<Rightarrow> \<exists>(i, u) \<in> set (enumerate 0 xs). s = Idx (int i) \<and> (\<exists>c'. (q, c', n) \<in> set (found w u) \<and> c = c' + level_of w v)
      | _ \<Rightarrow> False)"
  unfolding found.simps [of w v] Let_def set_append Un_iff
  by (cases v) (simp_all only: json.case in_concat_under, auto split: option.splits)

lemma entry_at_Nil [simp]: "entry_at w v [] n \<longleftrightarrow> matched w v = Some n"
  by (simp add: entry_at_def)

lemma entry_at_Cons [simp]:
  "entry_at w v (s # q) n \<longleftrightarrow> (\<forall>i. s = Idx i \<longrightarrow> 0 \<le> i) \<and> (\<exists>u. subscript v s = Inr u \<and> entry_at w u q n)"
  by (auto simp: entry_at_def bindR_eq_Inr)

lemma entry_at_str: "\<not> entry_at w (JStr t) q n"
proof (induction q arbitrary: t)
  case (Cons s q)
  then show ?case by (cases s) (auto split: option.splits)
qed simp

lemma enumerate_position: "(i, u) \<in> set (enumerate 0 xs) \<longleftrightarrow> i < length xs \<and> u = xs ! i"
  by (auto simp: in_set_enumerate_eq)

lemma enumerate_ex:
  "0 \<le> i \<and> nat i < length xs \<Longrightarrow> (\<exists>(j, u) \<in> set (enumerate 0 xs). Idx i = Idx (int j) \<and> P u) \<longleftrightarrow> P (xs ! nat i)"
  by (force simp: enumerate_position)

lemma subscript_list: "0 \<le> i \<Longrightarrow> subscript (JList xs) (Idx i) = Inr u \<longleftrightarrow> nat i < length xs \<and> u = xs ! nat i"
  by (auto simp: py_position_def nat_less_iff split: option.splits if_splits)

lemma found_path:
  "json_ok v \<Longrightarrow> (q, c, n) \<in> set (found w v) \<longleftrightarrow> entry_at w v q n \<and> c = nesting w v q"
proof (induction q arbitrary: v c)
  case (Cons s q)
  show ?case
  proof (cases v)
    case (JObj d)
    then have d: "distinct (map fst d)" "\<And>k u. (k, u) \<in> set d \<Longrightarrow> json_ok u" using Cons.prems by (auto simp: list_all_iff)
    show ?thesis
    proof (cases s)
      case (Key k)
      show ?thesis
      proof (cases "map_of d k")
        case None
        then have "(k, u) \<notin> set d" for u by (metis map_of_eq_None_iff fst_conv image_eqI)
        then show ?thesis using JObj Key None by (auto simp: found_Cons)
      next
        case (Some u)
        then have u: "(k, u') \<in> set d \<longleftrightarrow> u' = u" for u' using d(1) by (metis map_of_SomeD map_of_is_SomeI option.inject)
        then show ?thesis using JObj Key Some Cons.IH [of u] d(2) [of k u] by (auto simp: found_Cons)
      qed
    qed (use JObj in \<open>auto simp: found_Cons\<close>)
  next
    case (JList xs)
    then have d: "\<And>i. i < length xs \<Longrightarrow> json_ok (xs ! i)" using Cons.prems by (simp add: list_all_length)
    show ?thesis
    proof (cases s)
      case (Idx i)
      show ?thesis
      proof (cases "0 \<le> i \<and> nat i < length xs")
        case True
        then have "subscript v s = Inr (xs ! nat i)" using subscript_list JList Idx by blast
        then show ?thesis using JList Idx True Cons.IH [OF d, of "nat i"]
          by (auto simp: found_Cons enumerate_ex [OF True] simp del: subscript.simps step.inject)
      next
        case False
        have "\<not> (0 \<le> i \<and> (\<exists>u. subscript v s = Inr u))" using subscript_list False JList Idx by blast
        then show ?thesis using JList Idx False by (auto simp: found_Cons enumerate_position simp del: subscript.simps)
      qed
    qed (use JList in \<open>auto simp: found_Cons\<close>)
  qed (use entry_at_str [of w _ "s # q" n] in \<open>auto simp: found_Cons\<close>)
qed (simp add: found_Nil)

text \<open>Entries come before the entries nested in them, and no path comes twice.\<close>

definition outside :: "path \<Rightarrow> path \<Rightarrow> bool" where
  "outside p q \<longleftrightarrow> p \<noteq> q \<and> \<not> is_descendant_of p q"

lemma outside_simps [simp]: "outside (s # p) (t # q) \<longleftrightarrow> s \<noteq> t \<or> outside p q" "outside [] (t # q)" "\<not> outside p []"
  by (auto simp: outside_def is_descendant_of_def)

lemma outside_under: "sorted_wrt outside (map fst (map (under s k) es)) \<longleftrightarrow> sorted_wrt outside (map fst es)"
  by (simp add: sorted_wrt_map)

lemma outside_concat:
  assumes "distinct (map (f \<circ> fst) d)" "\<And>x u. (x, u) \<in> set d \<Longrightarrow> sorted_wrt outside (map fst (g u))"
  shows "sorted_wrt outside (map fst (concat (map (\<lambda>(x, u). map (under (f x) k) (g u)) d)))"
  using assms
proof (induction d)
  case (Cons a d)
  obtain x u where a: "a = (x, u)" by (cases a)
  have "sorted_wrt outside (map fst (map (under (f x) k) (g u)))"
    unfolding outside_under using Cons.prems(2) [of x u] a by simp
  moreover have "outside p q"
    if "p \<in> fst ` set (map (under (f x) k) (g u))" "q \<in> fst ` set (concat (map (\<lambda>(x, u). map (under (f x) k) (g u)) d))" for p q
  proof -
    from that obtain p' q' y where "p = f x # p'" "q = f y # q'" "y \<in> fst ` set d" by (force simp: under_def)
    moreover from this have "f y \<noteq> f x" using Cons.prems(1) a by force
    ultimately show ?thesis by simp
  qed
  moreover have "sorted_wrt outside (map fst (concat (map (\<lambda>(x, u). map (under (f x) k) (g u)) d)))"
    by (rule Cons.IH) (use Cons.prems in auto)
  ultimately show ?case unfolding a list.map concat.simps prod.case map_append sorted_wrt_append set_map [of fst] by blast
qed simp

lemma found_ordered: "json_ok v \<Longrightarrow> sorted_wrt outside (map fst (found w v))"
proof (induction w v rule: found.induct)
  case (1 w v)
  have head: "sorted_wrt outside (map fst ((case matched w v of None \<Rightarrow> [] | Some n \<Rightarrow> [([], 0, n)]) @ es))"
    if "sorted_wrt outside (map fst es)" "\<And>e. e \<in> set es \<Longrightarrow> fst e \<noteq> []" for es :: "(path \<times> nat \<times> 'a node) list"
    using that by (fastforce split: option.splits simp: neq_Nil_conv)
  show ?case
  proof (cases v)
    case (JObj d)
    have "sorted_wrt outside (map fst (concat (map (\<lambda>(x, u). map (under (Key x) (level_of w v)) (found w u)) d)))"
      by (rule outside_concat) (use "1.prems" JObj "1.IH"(2) [OF refl refl JObj] in \<open>auto simp: comp_def distinct_map inj_on_def list_all_iff\<close>)
    then show ?thesis unfolding found.simps [of w v] Let_def unfolding JObj json.case by (intro head [unfolded JObj]) auto
  next
    case (JList xs)
    have "sorted_wrt outside (map fst (concat (map (\<lambda>(x, u). map (under (Idx (int x)) (level_of w v)) (found w u)) (enumerate 0 xs))))"
    proof (rule outside_concat)
      show "distinct (map ((\<lambda>i. Idx (int i)) \<circ> fst) (enumerate 0 xs))"
        by (auto simp: distinct_map inj_on_def enumerate_position distinct_enumerate)
    qed (use "1.prems" JList "1.IH"(1) [OF refl refl JList] in \<open>auto simp: enumerate_position list_all_length\<close>)
    then show ?thesis unfolding found.simps [of w v] Let_def unfolding JList json.case by (intro head [unfolded JList]) auto
  qed (simp_all add: found.simps)
qed

lemma walk_root:
  "walk_containerless w data [] 0 (mk_context w max_depth None) =
    (if too_deep max_depth 0 (found w data) then Inl MaxDepthExceededError
     else Inr (map (\<lambda>(q, c, n). (q, length q, n)) (found w data)))"
proof -
  have p: "placed [] 0 = (\<lambda>(q, c, n). (q, length q, n))" by (simp add: placed_def fun_eq_iff)
  show ?thesis by (subst walk_containerless_found) (simp_all add: mk_context_def p)
qed

lemma found_nesting:
  "json_ok data \<Longrightarrow> too_deep max_depth 0 (found w data) \<longleftrightarrow>
     0 \<le> max_depth \<and> (\<exists>p n. entry_at w data p n \<and> max_depth < int (nesting w data p))"
  by (auto simp: too_deep_def Bex_def found_path)

text \<open>What the later stages use of an extraction.\<close>

lemma extract_entries:
  assumes "json_ok data" "walker_extract w data None max_depth = Inr es"
  shows "(p, depth, n) \<in> set es \<longleftrightarrow> depth = length p \<and> entry_at w data p n" "sorted_wrt outside (map fst es)"
proof -
  have es: "es = map (\<lambda>(q, c, n). (q, length q, n)) (found w data)"
    using assms(2) by (simp add: walker_extract_def walk_root split: if_splits)
  then show "(p, depth, n) \<in> set es \<longleftrightarrow> depth = length p \<and> entry_at w data p n"
    using found_path [OF assms(1)] by (auto simp: image_iff) force
  have "map fst es = map fst (found w data)" unfolding es by (simp add: case_prod_unfold)
  then show "sorted_wrt outside (map fst es)" using found_ordered [OF assms(1)] by simp
qed

text \<open>
  C13. Discovery without a source model: extraction raises \<open>MaxDepthExceededError\<close> exactly when an entry is
  nested in more entries than the limit allows; otherwise it yields exactly the dictionaries of the payload
  that name a registered model, each once, with its path, depth and model, and an entry before the entries
  nested in it.
\<close>

theorem extract_complete:
  assumes "json_ok data"
  shows "case walker_extract w data None max_depth of
      Inl e \<Rightarrow> e = MaxDepthExceededError \<and> 0 \<le> max_depth \<and> (\<exists>p n. entry_at w data p n \<and> max_depth < int (nesting w data p))
    | Inr es \<Rightarrow> (\<forall>p depth n. (p, depth, n) \<in> set es \<longleftrightarrow> depth = length p \<and> entry_at w data p n)
        \<and> sorted_wrt outside (map fst es)
        \<and> (0 \<le> max_depth \<longrightarrow> (\<forall>p n. entry_at w data p n \<longrightarrow> int (nesting w data p) \<le> max_depth))"
proof (cases "walker_extract w data None max_depth")
  case (Inl e)
  then show ?thesis using found_nesting [OF assms, of max_depth w] by (auto simp: walker_extract_def walk_root split: if_splits)
next
  case (Inr es)
  then have "\<not> too_deep max_depth 0 (found w data)" by (auto simp: walker_extract_def walk_root split: if_splits)
  then show ?thesis using Inr found_nesting [OF assms, of max_depth w] extract_entries [OF assms Inr] by (auto simp: not_less)
qed

definition sample_adapter :: "unit model_adapter" where
  "sample_adapter = \<lparr>ma_kind_property = ''kind'', ma_version_property = ''version'', ma_can_handle = (\<lambda>_. True),
     ma_validate = (\<lambda>v _ _. Inr v), ma_field_model = (\<lambda>_ _. None), ma_resolve = (\<lambda>_. Inr ()), ma_identify = (\<lambda>_. True),
     ma_finalize = (\<lambda>_ d. Inr d)\<rparr>"

definition sample_walker :: "(nat, unit) payload_walker" where
  "sample_walker = \<lparr>pw_graph = sample_snapshot, pw_parse = (\<lambda>a. case a of StrArg s \<Rightarrow> Inr (length s) | _ \<Rightarrow> Inl TypeError),
     pw_adapter = sample_adapter, pw_validation_mode = ''lax''\<rparr>"

definition sample_payload :: json where
  "sample_payload = JObj [(''item'', JObj [(''kind'', JStr ''K''), (''version'', JStr ''x'')]), (''other'', JList [JNull])]"

lemma sample_match: "walk_match sample_walker (JObj [(''kind'', JStr ''K''), (''version'', JStr ''x'')]) ''kind'' ''version'' = Some (sample_model 1)"
proof -
  have n: "mg_namespace sample_snapshot = ''a''"
  proof -
    have "reg_namespace sample_migrated = ''a''" by code_simp
    then show ?thesis using build_graph_backend [OF reg_reachable_wf [OF sample_migrated_reachable] sample_snapshot]
      by (simp add: mg_namespace_def)
  qed
  have m: "find_model (NodeId ''a'' ''K'' 1) sample_migrated = Some (sample_model 1)" by code_simp
  have "mg_has_model (NodeId ''a'' ''K'' 1) sample_snapshot" "mg_get_model (NodeId ''a'' ''K'' 1) sample_snapshot = Inr (sample_model 1)"
    using sample_lookups [of "NodeId ''a'' ''K'' 1"] m by (simp_all add: mg_has_model_def mg_get_model_def)
  then show ?thesis using n by (simp add: walk_match_def sample_walker_def node_id_parse_def mk_node_id_def)
qed

theorem extract_complete_witness:
  "\<exists>es. walker_extract sample_walker sample_payload None 0 = Inr es \<and> ([Key ''item''], 1, sample_model 1) \<in> set es"
proof -
  have e: "walker_extract sample_walker sample_payload None 0 = Inr [([Key ''item''], 1, sample_model 1)]"
    using sample_match
    by (simp add: walker_extract_def sample_payload_def mk_context_def concatR_def sample_walker_def sample_adapter_def walk_match_def)
  have "entry_at sample_walker sample_payload [Key ''item''] (sample_model 1)"
    using sample_match by (simp add: sample_payload_def sample_walker_def sample_adapter_def)
  then show ?thesis
    using extract_complete [of sample_payload 0 sample_walker] e by (simp add: sample_payload_def)
qed

end
