(* ===== verification/Run_Context.thy ===== *)
theory Run_Context
  imports Extractors
begin

text \<open>
  The contexts of a run, from \<open>runtime/context.py\<close>: the layered read-only bindings (\<open>MigrationContext\<close>),
  the description of a dataset, and the run and step contexts. A layer is a dictionary or another context.
\<close>

section \<open>Layered bindings\<close>

datatype 'x bindings = Layer "(string \<times> 'x) list" | MigrationContext "'x bindings list"

definition context_empty :: "'x bindings" where
  "context_empty = MigrationContext []"

definition context_layered :: "'x bindings list \<Rightarrow> 'x bindings" where
  "context_layered ls = MigrationContext ls"

fun context_create :: "'x bindings option \<Rightarrow> 'x bindings" where
  "context_create None = context_empty"
| "context_create (Some (MigrationContext ls)) = MigrationContext ls"
| "context_create (Some (Layer d)) = MigrationContext [Layer d]"

text \<open>
  \<open>for layer in layers: if key in layer: return layer[key]\<close>. For a nested context \<open>in\<close> is
  \<open>Mapping.__contains__\<close>, which tries the lookup.
\<close>

fun first_ok :: "'x res list \<Rightarrow> 'x res" where
  "first_ok [] = Inl KeyError"
| "first_ok (r # rs) = (if okR r then r else first_ok rs)"

fun context_getitem :: "'x bindings \<Rightarrow> string \<Rightarrow> 'x res" where
  "context_getitem (Layer d) k = (case map_of d k of None \<Rightarrow> Inl KeyError | Some v \<Rightarrow> Inr v)"
| "context_getitem (MigrationContext ls) k = first_ok (map (\<lambda>l. context_getitem l k) ls)"

fun unseen :: "'k list \<Rightarrow> 'k list \<Rightarrow> 'k list" where
  "unseen seen [] = []"
| "unseen seen (k # ks) = (if k \<in> set seen then unseen seen ks else k # unseen (k # seen) ks)"

fun context_iter :: "'x bindings \<Rightarrow> string list" where
  "context_iter (Layer d) = map fst d"
| "context_iter (MigrationContext ls) = unseen [] (concat (map context_iter ls))"

definition context_len :: "'x bindings \<Rightarrow> nat" where
  "context_len c = length (context_iter c)"

text \<open>\<open>dict(context)\<close>, which the process strategy passes to another process.\<close>

definition context_dict :: "'x bindings \<Rightarrow> (string \<times> 'x) list res" where
  "context_dict c = mapR (\<lambda>k. bindR (context_getitem c k) (\<lambda>v. Inr (k, v))) (context_iter c)"

fun bindings_ok :: "'x bindings \<Rightarrow> bool" where
  "bindings_ok (Layer d) = dict_ok d"
| "bindings_ok (MigrationContext ls) = list_all bindings_ok ls"

lemma unseen_set: "set (unseen seen ks) = set ks - set seen"
  by (induction seen ks rule: unseen.induct) auto

lemma unseen_distinct: "distinct (unseen seen ks)"
  by (induction seen ks rule: unseen.induct) (auto simp: unseen_set)

lemma first_ok_iff: "okR (first_ok rs) \<longleftrightarrow> (\<exists>r \<in> set rs. okR r)"
  by (induction rs) auto

lemma first_ok_KeyError: "first_ok rs = Inl e \<Longrightarrow> e = KeyError"
  by (induction rs) (auto split: if_splits)

lemma context_getitem_error: "context_getitem c k = Inl e \<Longrightarrow> e = KeyError"
  by (cases c) (auto split: option.splits intro: first_ok_KeyError)

lemma context_iter_iff: "k \<in> set (context_iter c) \<longleftrightarrow> okR (context_getitem c k)"
proof (induction c)
  case (Layer d)
  then show ?case using map_of_eq_None_iff [of d k] by (auto split: option.splits)
qed (simp add: unseen_set first_ok_iff)

lemma context_iter_distinct: "bindings_ok c \<Longrightarrow> distinct (context_iter c)"
  by (cases c) (auto simp: dict_ok_def unseen_distinct)

text \<open>
  Flattening a layered context is faithful: \<open>dict(context)\<close> always succeeds, has every visible key once,
  and a lookup in it has the outcome of the lookup in the layers, \<open>KeyError\<close> included. What a migration sees
  in another process is what it sees in the calling thread.
\<close>

theorem context_dict_faithful:
  assumes "bindings_ok c"
  shows "\<exists>d. context_dict c = Inr d \<and> dict_ok d \<and> length d = context_len c
    \<and> (\<forall>k. context_getitem (Layer d) k = context_getitem c k)"
proof -
  define f where "f k = (case context_getitem c k of Inr v \<Rightarrow> v | Inl _ \<Rightarrow> undefined)" for k
  have f: "context_getitem c k = Inr (f k)" if "k \<in> set (context_iter c)" for k
    using that by (cases "context_getitem c k") (auto simp: context_iter_iff f_def)
  let ?d = "map (\<lambda>k. (k, f k)) (context_iter c)"
  have d: "context_dict c = Inr ?d" unfolding context_dict_def by (rule mapR_Inr_map) (simp add: f)
  have "context_getitem (Layer ?d) k = context_getitem c k" for k
  proof (cases "k \<in> set (context_iter c)")
    case True
    then have "map_of ?d k = Some (f k)" by (simp add: map_of_map_restrict)
    then show ?thesis using f [OF True] by simp
  next
    case False
    then have "map_of ?d k = None" by (simp add: map_of_eq_None_iff image_iff)
    moreover have "context_getitem c k = Inl KeyError"
      using False context_getitem_error [of c k] by (cases "context_getitem c k") (auto simp: context_iter_iff)
    ultimately show ?thesis by simp
  qed
  then show ?thesis using d context_iter_distinct [OF assms] by (simp add: dict_ok_def context_len_def comp_def)
qed

theorem context_dict_faithful_witness:
  "\<exists>d. context_dict (MigrationContext [Layer [(''a'', 1 :: nat)], MigrationContext [Layer [(''a'', 2), (''b'', 3)]]]) = Inr d
     \<and> context_getitem (Layer d) ''a'' = Inr 1 \<and> length d = 2"
  using context_dict_faithful [of "MigrationContext [Layer [(''a'', 1 :: nat)], MigrationContext [Layer [(''a'', 2), (''b'', 3)]]]"]
  by (auto simp: dict_ok_def context_len_def)

section \<open>Datasets\<close>

definition type_ref_name :: "type_ref \<Rightarrow> string" where
  "type_ref_name t =
     (let kind = type_kind_value (tr_kind t) in
      case tr_name t of
        Some n \<Rightarrow> if n \<noteq> [] then kind @ ''['' @ n @ '']''
          else (case tr_ref t of Some r \<Rightarrow> kind @ ''['' @ mr_entity_id r @ '']'' | None \<Rightarrow> kind)
      | None \<Rightarrow> (case tr_ref t of Some r \<Rightarrow> kind @ ''['' @ mr_entity_id r @ '']'' | None \<Rightarrow> kind))"

record field_context =
  fx_name :: string
  fx_type :: string
  fx_required :: bool

record dataset_context =
  ds_namespace :: string
  ds_kind :: string
  ds_version :: string
  ds_name :: string
  ds_fields :: "field_context list"

text \<open>A bare key has no \<open>descriptor\<close>.\<close>

definition dataset_from_node :: "('v \<Rightarrow> string) \<Rightarrow> 'v node \<Rightarrow> dataset_context res" where
  "dataset_from_node show_v n = (case descriptor n of
     None \<Rightarrow> Inl AttributeError
   | Some d \<Rightarrow> Inr \<lparr>ds_namespace = nid_namespace (node_id_of n), ds_kind = nid_kind (node_id_of n),
       ds_version = show_v (nid_version (node_id_of n)), ds_name = node_str show_v (node_id_of n),
       ds_fields = map (\<lambda>(_, f). \<lparr>fx_name = fd_name f, fx_type = type_ref_name (fd_type_ref f), fx_required = fd_required f\<rparr>)
         (fm_sorted_items (desc_fields d))\<rparr>)"

section \<open>Run and step contexts\<close>

text \<open>
  The execution environment (clock, identifiers, logger, telemetry) is passed beside these records. Building
  a step context computes both datasets (\<open>__post_init__\<close>).
\<close>

record run_context =
  rc_run_id :: string
  rc_namespace :: string
  rc_bindings :: "pyval bindings"

record 'v step_context =
  sx_run :: run_context
  sx_path :: path
  sx_index :: nat
  sx_source :: "'v node"
  sx_target :: "'v node"
  sx_edge :: "'v edge_id"
  sx_bindings :: "pyval bindings"
  sx_name :: string
  sx_migration :: "migration_descriptor option"
  sx_source_dataset :: dataset_context
  sx_target_dataset :: dataset_context

definition step_view :: "'v step_context \<Rightarrow> pyval bindings" where
  "step_view step = context_layered [sx_bindings step, rc_bindings (sx_run step)]"

lemma step_view_lookup:
  "context_getitem (step_view step) k =
     (if okR (context_getitem (sx_bindings step) k) then context_getitem (sx_bindings step) k
      else context_getitem (rc_bindings (sx_run step)) k)"
  using context_getitem_error [of "rc_bindings (sx_run step)" k]
  by (cases "context_getitem (rc_bindings (sx_run step)) k") (auto simp: step_view_def context_layered_def)

end
