(* ===== verification/Effects.thy ===== *)
theory Effects
  imports Run_Context Complex_Main
begin

text \<open>
  Running code that belongs to others: migration callables, hooks, scopes, telemetry adapters, middleware
  collaborators. Each is an operation on a state of its own, \<open>'w\<close>, that may raise; the world keeps that state
  together with the calls made so far, in order. An awaitable is the operation that awaiting it performs.
  The publisher is \<open>TelemetryPublisher\<close> of \<open>runtime/telemetry/__init__.py\<close>.
\<close>

section \<open>The world\<close>

datatype call =
    CallBefore nat | CallEnter nat | CallExit nat | CallMigration | CallOnError nat | CallAfter nat
  | EmitStepStarted | EmitStepCompleted | EmitStepFailed
  | EmitRunStarted | EmitRunCompleted | EmitRunFailed
  | CallBegin | CallCommit | CallRollback
  | CallAudit string | CallKey | CallGet | CallClaim | CallComplete | CallRelease | CallNewId

record 'w world =
  wd_user :: 'w
  wd_trace :: "call list"

datatype ('w, 'r) maybe_async = Now 'r | Later "('w, 'r) op"

definition outside_call :: "call \<Rightarrow> ('w, 'r) op \<Rightarrow> ('w world, 'r) op" where
  "outside_call c m s = (case m (wd_user s) of (r, u) \<Rightarrow> (r, s\<lparr>wd_user := u, wd_trace := wd_trace s @ [c]\<rparr>))"

text \<open>Awaiting runs the operation; it is part of the call that produced the awaitable.\<close>

definition await_user :: "('w, 'r) op \<Rightarrow> ('w world, 'r) op" where
  "await_user m s = (case m (wd_user s) of (r, u) \<Rightarrow> (r, s\<lparr>wd_user := u\<rparr>))"

text \<open>\<open>try: m except: h\<close>, and which exceptions \<open>except Exception\<close> catches.\<close>

definition catchS :: "('s, 'a) op \<Rightarrow> (error \<Rightarrow> ('s, 'a) op) \<Rightarrow> ('s, 'a) op" where
  "catchS m h s = (case m s of (Inl e, s') \<Rightarrow> h e s' | (Inr a, s') \<Rightarrow> (Inr a, s'))"

definition is_exception :: "error \<Rightarrow> bool" where
  "is_exception e \<longleftrightarrow> e \<noteq> CancelledError \<and> e \<noteq> SystemExit"

text \<open>\<open>m\<close> makes only calls of the kind \<open>P\<close>: what it appends to the trace.\<close>

definition appends :: "(call list \<Rightarrow> bool) \<Rightarrow> ('w world, 'a) op \<Rightarrow> bool" where
  "appends P m \<longleftrightarrow> (\<forall>s. \<exists>t. wd_trace (snd (m s)) = wd_trace s @ t \<and> P t)"

section \<open>Telemetry\<close>

datatype 'v telemetry_event =
    RunStarted run_context "'v plan_entry list"
  | RunCompleted run_context "'v plan_entry list"
  | RunFailed run_context "'v plan_entry list" error
  | StepStarted "'v step_context"
  | StepCompleted "'v step_context"
  | StepFailed "'v step_context" error

fun event_run_id :: "'v telemetry_event \<Rightarrow> string" where
  "event_run_id (RunStarted run es) = rc_run_id run"
| "event_run_id (RunCompleted run es) = rc_run_id run"
| "event_run_id (RunFailed run es e) = rc_run_id run"
| "event_run_id (StepStarted step) = rc_run_id (sx_run step)"
| "event_run_id (StepCompleted step) = rc_run_id (sx_run step)"
| "event_run_id (StepFailed step e) = rc_run_id (sx_run step)"

fun is_failure :: "'v telemetry_event \<Rightarrow> bool" where
  "is_failure (RunFailed run es e) = True"
| "is_failure (StepFailed step e) = True"
| "is_failure _ = False"

fun event_call :: "'v telemetry_event \<Rightarrow> call" where
  "event_call (RunStarted run es) = EmitRunStarted"
| "event_call (RunCompleted run es) = EmitRunCompleted"
| "event_call (RunFailed run es e) = EmitRunFailed"
| "event_call (StepStarted step) = EmitStepStarted"
| "event_call (StepCompleted step) = EmitStepCompleted"
| "event_call (StepFailed step e) = EmitStepFailed"

text \<open>
  The sample rate is a rational; \<open>fraction\<close> is the first eight bytes of the BLAKE2 digest of a run id, read
  as a fraction.
\<close>

record ('v, 'w) telemetry_publisher =
  tp_adapters :: "('v telemetry_event \<Rightarrow> ('w, unit) op) list"
  tp_mode :: string
  tp_sample_rate :: rat
  tp_fraction :: "string \<Rightarrow> rat"

definition mk_publisher :: "('v telemetry_event \<Rightarrow> ('w, unit) op) list \<Rightarrow> string \<Rightarrow> rat \<Rightarrow> (string \<Rightarrow> rat) \<Rightarrow> ('v, 'w) telemetry_publisher res" where
  "mk_publisher adapters mode rate fraction =
     (if \<not> (0 \<le> rate \<and> rate \<le> 1) then Inl ValueError
      else Inr \<lparr>tp_adapters = adapters, tp_mode = mode, tp_sample_rate = rate, tp_fraction = fraction\<rparr>)"

definition tp_enabled :: "('v, 'w) telemetry_publisher \<Rightarrow> bool" where
  "tp_enabled t \<longleftrightarrow> tp_adapters t \<noteq> [] \<and> tp_mode t \<noteq> ''off''"

definition emits_success :: "('v, 'w) telemetry_publisher \<Rightarrow> bool" where
  "emits_success t =
     (if tp_mode t = ''all'' then tp_enabled t
      else if tp_mode t = ''sampled'' then tp_enabled t \<and> tp_sample_rate t > 0
      else False)"

definition emits_failure :: "('v, 'w) telemetry_publisher \<Rightarrow> bool" where
  "emits_failure t = tp_enabled t"

definition sampled :: "('v, 'w) telemetry_publisher \<Rightarrow> 'v telemetry_event \<Rightarrow> bool" where
  "sampled t ev =
     (if tp_sample_rate t \<le> 0 then False
      else if tp_sample_rate t \<ge> 1 then True
      else tp_fraction t (event_run_id ev) < tp_sample_rate t)"

definition emit :: "('v, 'w) telemetry_publisher \<Rightarrow> 'v telemetry_event \<Rightarrow> ('w world, unit) op" where
  "emit t ev =
     (if \<not> tp_enabled t then returnS ()
      else if tp_mode t = ''errors'' \<and> \<not> is_failure ev then returnS ()
      else if tp_mode t = ''sampled'' \<and> \<not> sampled t ev then returnS ()
      else forS (\<lambda>adapter. catchS (outside_call (event_call ev) (adapter ev))
        (\<lambda>e. if is_exception e then returnS () else raiseS e)) (tp_adapters t))"

section \<open>Traces\<close>

lemma appendsI: "(\<And>s. \<exists>t. wd_trace (snd (m s)) = wd_trace s @ t \<and> P t) \<Longrightarrow> appends P m"
  by (simp add: appends_def)

lemma appendsE: "appends P m \<Longrightarrow> m s = (r, s') \<Longrightarrow> (\<And>t. wd_trace s' = wd_trace s @ t \<Longrightarrow> P t \<Longrightarrow> thesis) \<Longrightarrow> thesis"
  unfolding appends_def by (metis snd_conv)

lemma outside_call_trace: "outside_call c m s = (r, s') \<Longrightarrow> wd_trace s' = wd_trace s @ [c]"
  by (auto simp: outside_call_def split: prod.splits)

lemma await_user_trace: "await_user m s = (r, s') \<Longrightarrow> wd_trace s' = wd_trace s"
  by (auto simp: await_user_def split: prod.splits)

lemma appends_mono: "appends P m \<Longrightarrow> (\<And>t. P t \<Longrightarrow> Q t) \<Longrightarrow> appends Q m"
  unfolding appends_def by metis

text \<open>Calls out of a set, in any number and order.\<close>

abbreviation calls :: "call set \<Rightarrow> ('w world, 'a) op \<Rightarrow> bool" where
  "calls A m \<equiv> appends (\<lambda>t. set t \<subseteq> A) m"

named_theorems calls_intros \<open>which calls an operation makes\<close>

lemma calls_basic [calls_intros]: "calls A (returnS x)" "calls A (raiseS e)" "calls A (liftS r)"
  by (auto intro!: appendsI exI [of _ "[]"])

lemma calls_outside [calls_intros]: "c \<in> A \<Longrightarrow> calls A (outside_call c m)"
  by (auto intro!: appendsI exI [of _ "[c]"] simp: outside_call_def split: prod.splits)

lemma calls_await [calls_intros]: "calls A (await_user m)"
  by (auto intro!: appendsI exI [of _ "[]"] simp: await_user_def split: prod.splits)

lemma calls_bind [calls_intros]:
  assumes "calls A m" "\<And>a. calls A (f a)"
  shows "calls A (bindS m f)"
proof (rule appendsI)
  fix s
  obtain r s1 where m: "m s = (r, s1)" by (cases "m s")
  from appendsE [OF assms(1) m] obtain t where t: "wd_trace s1 = wd_trace s @ t" "set t \<subseteq> A" by blast
  show "\<exists>t. wd_trace (snd (bindS m f s)) = wd_trace s @ t \<and> set t \<subseteq> A"
  proof (cases r)
    case (Inr a)
    obtain r' s2 where f: "f a s1 = (r', s2)" by (cases "f a s1")
    from appendsE [OF assms(2) this] obtain t' where "wd_trace s2 = wd_trace s1 @ t'" "set t' \<subseteq> A" by blast
    then show ?thesis using m t Inr f by auto
  qed (use m t in auto)
qed

lemma calls_catch [calls_intros]:
  assumes "calls A m" "\<And>e. calls A (h e)"
  shows "calls A (catchS m h)"
proof (rule appendsI)
  fix s
  obtain r s1 where m: "m s = (r, s1)" by (cases "m s")
  from appendsE [OF assms(1) m] obtain t where t: "wd_trace s1 = wd_trace s @ t" "set t \<subseteq> A" by blast
  show "\<exists>t. wd_trace (snd (catchS m h s)) = wd_trace s @ t \<and> set t \<subseteq> A"
  proof (cases r)
    case (Inl e)
    obtain r' s2 where f: "h e s1 = (r', s2)" by (cases "h e s1")
    from appendsE [OF assms(2) this] obtain t' where "wd_trace s2 = wd_trace s1 @ t'" "set t' \<subseteq> A" by blast
    then show ?thesis using m t Inl f by (auto simp: catchS_def)
  qed (use m t in \<open>auto simp: catchS_def\<close>)
qed

lemma calls_for [calls_intros]: "(\<And>x. x \<in> set xs \<Longrightarrow> calls A (f x)) \<Longrightarrow> calls A (forS f xs)"
  by (induction xs) (auto intro!: calls_intros)

lemma calls_map [calls_intros]: "(\<And>x. x \<in> set xs \<Longrightarrow> calls A (f x)) \<Longrightarrow> calls A (mapS f xs)"
  by (induction xs) (auto intro!: calls_intros)

lemma calls_if [calls_intros]: "(b \<Longrightarrow> calls A m) \<Longrightarrow> (\<not> b \<Longrightarrow> calls A m') \<Longrightarrow> calls A (if b then m else m')"
  by simp

lemma calls_emit [calls_intros]: "event_call ev \<in> A \<Longrightarrow> calls A (emit t ev)"
  unfolding emit_def by (intro calls_intros)

end
