(* ===== verification/Bindings.thy ===== *)
theory Bindings
  imports Effects
begin

text \<open>
  What the runtime binds to migration edges, from \<open>runtime/migrations.py\<close>, the hook protocol of
  \<open>runtime/hooks/types.py\<close> and the hook state of \<open>runtime/hooks/state.py\<close>.
\<close>

section \<open>Hooks and scopes\<close>

text \<open>
  A scope is what \<open>before_migrate\<close> may return; \<open>sc_async\<close> says that it has \<open>__aenter__\<close>. Following the
  protocols \<open>HookScope\<close> and \<open>AsyncHookScope\<close> the exit method returns nothing, so it never suppresses an
  exception, but it may raise one. Scopes and hooks carry a number that identifies the object.
\<close>

record 'w scope =
  sc_id :: nat
  sc_async :: bool
  sc_enter :: "('w, unit) op"
  sc_exit :: "error option \<Rightarrow> ('w, unit) op"

datatype 'w hook_value = HookNone | HookScope "'w scope" | HookOther

record ('v, 'w) hook =
  hk_id :: nat
  hk_module :: string
  hk_qualname :: string
  hk_provider_id :: "json option"
  hk_entity_id :: "json option"
  hk_config :: "json option"
  hk_before :: "'v step_context \<Rightarrow> json \<Rightarrow> ('w, ('w, 'w hook_value) maybe_async) op"
  hk_after :: "'v step_context \<Rightarrow> json \<Rightarrow> json \<Rightarrow> ('w, ('w, unit) maybe_async) op"
  hk_on_error :: "'v step_context \<Rightarrow> json \<Rightarrow> error \<Rightarrow> ('w, ('w, unit) maybe_async) op"

type_synonym 'w migration_func = "json \<Rightarrow> pyval bindings \<Rightarrow> ('w, ('w, json) maybe_async) op"

text \<open>Attributes that a hook does not have fall back to its class; a configuration that is no mapping is dropped.\<close>

definition hook_ref_of :: "('v, 'w) hook \<Rightarrow> hook_ref" where
  "hook_ref_of h =
     \<lparr>hr_provider_id = (case hk_provider_id h of None \<Rightarrow> hk_module h | Some x \<Rightarrow> py_str x),
      hr_entity_id = (case hk_entity_id h of None \<Rightarrow> hk_qualname h | Some x \<Rightarrow> py_str x),
      hr_config = (case hk_config h of Some (JObj d) \<Rightarrow> d | _ \<Rightarrow> []),
      hr_metadata = []\<rparr>"

section \<open>Bindings\<close>

record 'w migration_binding =
  mb_func :: "'w migration_func"
  mb_descriptor :: migration_descriptor
  mb_name :: string

record ('v, 'w) hook_binding =
  hb_hook :: "('v, 'w) hook"
  hb_ref :: hook_ref

record ('v, 'w) migration_bindings =
  bn_name :: string
  bn_migrations :: "('v edge_id, 'w migration_binding) dict"
  bn_hooks_by_edge :: "('v edge_id, ('v, 'w) hook_binding list) dict"

text \<open>\<open>func_name\<close> is \<open>func.__name__\<close>, when the callable has one.\<close>

definition bind_func :: "'v edge_id \<Rightarrow> 'w migration_func \<Rightarrow> string option \<Rightarrow> migration_descriptor \<Rightarrow> ('v, 'w) migration_bindings \<Rightarrow> ('v, 'w) migration_bindings" where
  "bind_func edge func func_name d b =
     (let binding = \<lparr>mb_func = func, mb_descriptor = d, mb_name = (case func_name of None \<Rightarrow> md_identity d | Some n \<Rightarrow> n)\<rparr> in
      b\<lparr>bn_migrations := AList.update edge binding (bn_migrations b)\<rparr>)"

definition bind_hook :: "'v edge_id \<Rightarrow> ('v, 'w) hook \<Rightarrow> ('v, 'w) migration_bindings \<Rightarrow> ('v, 'w) migration_bindings" where
  "bind_hook edge h b =
     (let binding = \<lparr>hb_hook = h, hb_ref = hook_ref_of h\<rparr> in
      b\<lparr>bn_hooks_by_edge := AList.update edge (dict_get (bn_hooks_by_edge b) edge [] @ [binding]) (bn_hooks_by_edge b)\<rparr>)"

definition bound_migration :: "'v edge_id \<Rightarrow> ('v, 'w) migration_bindings \<Rightarrow> 'w migration_binding res" where
  "bound_migration edge b = (case map_of (bn_migrations b) edge of None \<Rightarrow> Inl MigrationNotFoundError | Some m \<Rightarrow> Inr m)"

definition bound_hooks :: "'v edge_id \<Rightarrow> ('v, 'w) migration_bindings \<Rightarrow> ('v, 'w) hook_binding list" where
  "bound_hooks edge b = dict_get (bn_hooks_by_edge b) edge []"

definition unbind_migration :: "'v edge_id \<Rightarrow> ('v, 'w) migration_bindings \<Rightarrow> ('v, 'w) migration_bindings" where
  "unbind_migration edge b = b\<lparr>bn_migrations := AList.delete edge (bn_migrations b),
     bn_hooks_by_edge := AList.delete edge (bn_hooks_by_edge b)\<rparr>"

definition unbind_hook :: "'v edge_id \<Rightarrow> hook_ref \<Rightarrow> ('v, 'w) migration_bindings \<Rightarrow> ('v, 'w) migration_bindings" where
  "unbind_hook edge ref b = (case map_of (bn_hooks_by_edge b) edge of
     None \<Rightarrow> b
   | Some hs \<Rightarrow> (let kept = filter (\<lambda>x. \<not> hook_eq (hb_ref x) ref) hs in
       if kept = [] then b\<lparr>bn_hooks_by_edge := AList.delete edge (bn_hooks_by_edge b)\<rparr>
       else b\<lparr>bn_hooks_by_edge := AList.update edge kept (bn_hooks_by_edge b)\<rparr>))"

definition unbind_hooks :: "'v edge_id option \<Rightarrow> ('v, 'w) migration_bindings \<Rightarrow> ('v, 'w) migration_bindings" where
  "unbind_hooks edge b = (case edge of
     None \<Rightarrow> b\<lparr>bn_hooks_by_edge := []\<rparr>
   | Some i \<Rightarrow> b\<lparr>bn_hooks_by_edge := AList.delete i (bn_hooks_by_edge b)\<rparr>)"

text \<open>A copy has dictionaries and hook lists of its own; as values they are the original's.\<close>

definition copy_bindings :: "('v, 'w) migration_bindings \<Rightarrow> ('v, 'w) migration_bindings" where
  "copy_bindings b = \<lparr>bn_name = bn_name b, bn_migrations = bn_migrations b,
     bn_hooks_by_edge = map (\<lambda>(edge, hs). (edge, hs)) (bn_hooks_by_edge b)\<rparr>"

definition frozen_migrations :: "('v, 'w) migration_bindings \<Rightarrow> ('v edge_id, 'w migration_binding) dict" where
  "frozen_migrations b = bn_migrations b"

text \<open>What each operation does to the lookups, on every edge.\<close>

lemma bind_func_lookup:
  "bound_migration i (bind_func edge func fname d b) =
     (if i = edge then Inr \<lparr>mb_func = func, mb_descriptor = d, mb_name = (case fname of None \<Rightarrow> md_identity d | Some n \<Rightarrow> n)\<rparr>
      else bound_migration i b)"
  "bound_hooks i (bind_func edge func fname d b) = bound_hooks i b"
  by (simp_all add: bound_migration_def bound_hooks_def bind_func_def Let_def update_conv')

lemma bind_hook_lookup:
  "bound_migration i (bind_hook edge h b) = bound_migration i b"
  "bound_hooks i (bind_hook edge h b) = bound_hooks i b @ (if i = edge then [\<lparr>hb_hook = h, hb_ref = hook_ref_of h\<rparr>] else [])"
  by (simp_all add: bound_migration_def bound_hooks_def bind_hook_def Let_def dict_simps)

lemma unbind_migration_lookup:
  "bound_migration i (unbind_migration edge b) = (if i = edge then Inl MigrationNotFoundError else bound_migration i b)"
  "bound_hooks i (unbind_migration edge b) = (if i = edge then [] else bound_hooks i b)"
  by (simp_all add: bound_migration_def bound_hooks_def unbind_migration_def dict_simps delete_conv')

lemma unbind_hook_lookup:
  "bound_migration i (unbind_hook edge ref b) = bound_migration i b"
  "bound_hooks i (unbind_hook edge ref b) =
     (if i = edge then filter (\<lambda>x. \<not> hook_eq (hb_ref x) ref) (bound_hooks i b) else bound_hooks i b)"
  by (auto simp: bound_migration_def bound_hooks_def unbind_hook_def Let_def dict_simps dict_get_def delete_conv' update_conv'
      split: option.splits)

lemma unbind_hooks_lookup:
  "bound_migration i (unbind_hooks edge b) = bound_migration i b"
  "bound_hooks i (unbind_hooks edge b) = (if edge = None \<or> edge = Some i then [] else bound_hooks i b)"
  by (auto simp: bound_migration_def bound_hooks_def unbind_hooks_def dict_simps split: option.splits)

lemmas binding_lookups = bind_func_lookup bind_hook_lookup unbind_migration_lookup unbind_hook_lookup unbind_hooks_lookup

section \<open>The state of the hooks of a run\<close>

type_synonym 'x hook_state = "(int, 'x list) dict"

definition new_hook_state :: "'x hook_state" where
  "new_hook_state = []"

definition push_state :: "int \<Rightarrow> 'x \<Rightarrow> 'x hook_state \<Rightarrow> 'x hook_state" where
  "push_state key x st = AList.update key (dict_get st key [] @ [x]) st"

definition pop_state :: "int \<Rightarrow> 'x hook_state \<Rightarrow> 'x option \<times> 'x hook_state" where
  "pop_state key st = (let stack = dict_get st key [] in
     if stack = [] then (None, st) else (Some (last stack), AList.update key (butlast stack) st))"

lemma pop_push_state:
  "fst (pop_state key (push_state key x st)) = Some x"
  "dict_get (snd (pop_state key (push_state key x st))) k [] = dict_get st k []"
  by (simp_all add: pop_state_def push_state_def Let_def dict_simps)

end
