(* ===== verification/Steps.thy ===== *)
theory Steps
  imports Bindings
begin

text \<open>
  Execution of one entry of a plan, from \<open>runtime/plan.py\<close>: \<open>ExecutionEntry\<close> with its steps and the step
  lifecycle \<open>StepInvoker\<close> in its synchronous and its asynchronous form, over the strategies of
  \<open>runtime/strategies.py\<close>. Values are immutable here: a migration that changes its argument in place is
  the migration that returns the changed value.
\<close>

section \<open>Exit stacks\<close>

text \<open>
  \<open>with ExitStack() as stack\<close>: the body works on the world and the stack of entered scopes, innermost
  first. Leaving unwinds the stack: every scope is exited, each with the exception that is pending, and an
  exception raised by an exit replaces it.
\<close>

fun unwind :: "'w scope list \<Rightarrow> error option \<Rightarrow> 'w world \<Rightarrow> error option \<times> 'w world" where
  "unwind [] pending s = (pending, s)"
| "unwind (c # cs) pending s =
     (case outside_call (CallExit (sc_id c)) (sc_exit c pending) s of
        (Inl e, s') \<Rightarrow> unwind cs (Some e) s'
      | (Inr _, s') \<Rightarrow> unwind cs pending s')"

definition with_exit_stack :: "('w world \<times> 'w scope list, 'a) op \<Rightarrow> ('w world, 'a) op" where
  "with_exit_stack body s =
     (case body (s, []) of
        (r, (s', stack)) \<Rightarrow>
          (case unwind stack (case r of Inl e \<Rightarrow> Some e | Inr _ \<Rightarrow> None) s' of
             (Some e, s'') \<Rightarrow> (Inl e, s'')
           | (None, s'') \<Rightarrow> (r, s'')))"

definition enter_context :: "'w scope \<Rightarrow> ('w world \<times> 'w scope list, unit) op" where
  "enter_context c = (\<lambda>(s, stack). case outside_call (CallEnter (sc_id c)) (sc_enter c) s of
     (Inl e, s') \<Rightarrow> (Inl e, (s', stack))
   | (Inr _, s') \<Rightarrow> (Inr (), (s', c # stack)))"

definition in_body :: "('w world, 'a) op \<Rightarrow> ('w world \<times> 'w scope list, 'a) op" where
  "in_body m = (\<lambda>(s, stack). case m s of (r, s') \<Rightarrow> (r, (s', stack)))"

section \<open>Entries\<close>

record ('v, 'w) execution_entry =
  ee_plan :: "'v plan_entry"
  ee_migrations :: "'w migration_binding list"
  ee_hooks :: "('v, 'w) hook_binding list list"

type_synonym entry_result = "path \<times> json"

definition list_at :: "'a list \<Rightarrow> nat \<Rightarrow> 'a res" where
  "list_at xs i = (if i < length xs then Inr (xs ! i) else Inl IndexError)"

definition migration_descriptors :: "('v, 'w) execution_entry \<Rightarrow> migration_descriptor list" where
  "migration_descriptors entry = map mb_descriptor (ee_migrations entry)"

definition step_name :: "('v, 'w) execution_entry \<Rightarrow> nat \<Rightarrow> string res" where
  "step_name entry index = bindR (list_at (ee_migrations entry) index) (\<lambda>b. Inr (mb_name b))"

definition step_migration :: "('v, 'w) execution_entry \<Rightarrow> nat \<Rightarrow> migration_descriptor option" where
  "step_migration entry index = (if index < length (migration_descriptors entry) then Some (migration_descriptors entry ! index) else None)"

definition migration_func :: "('v, 'w) execution_entry \<Rightarrow> nat \<Rightarrow> 'w migration_func res" where
  "migration_func entry index = bindR (list_at (ee_migrations entry) index) (\<lambda>b. Inr (mb_func b))"

definition mk_step_context :: "('v \<Rightarrow> string) \<Rightarrow> ('v, 'w) execution_entry \<Rightarrow> nat \<Rightarrow> run_context \<Rightarrow> pyval bindings option \<Rightarrow> 'v step_context res" where
  "mk_step_context show_v entry index run bindings =
     bindR (list_at (pe_steps (ee_plan entry)) index) (\<lambda>(source, target).
     bindR (list_at (pe_edges (ee_plan entry)) index) (\<lambda>edge.
     bindR (step_name entry index) (\<lambda>name.
     bindR (list_at (ee_migrations entry) index) (\<lambda>b.
     bindR (dataset_from_node show_v source) (\<lambda>ds.
     bindR (dataset_from_node show_v target) (\<lambda>dt.
       Inr \<lparr>sx_run = run, sx_path = pe_path (ee_plan entry), sx_index = index, sx_source = source, sx_target = target,
            sx_edge = edge, sx_bindings = (case bindings of None \<Rightarrow> context_empty | Some c \<Rightarrow> if context_len c = 0 then context_empty else c),
            sx_name = name, sx_migration = Some (mb_descriptor b), sx_source_dataset = ds, sx_target_dataset = dt\<rparr>))))))"

text \<open>An exception of a migration is wrapped; \<open>invoke_migration\<close> is used when no strategy is given.\<close>

definition migration_error :: "error \<Rightarrow> error" where
  "migration_error e = MigrationApplicationError"

definition invoke_migration :: "('v, 'w) execution_entry \<Rightarrow> nat \<Rightarrow> json \<Rightarrow> pyval bindings \<Rightarrow> ('w world, ('w, json) maybe_async) op" where
  "invoke_migration entry index data context =
     bindS (liftS (list_at (ee_migrations entry) index)) (\<lambda>b.
       catchS (outside_call CallMigration (mb_func b data context))
         (\<lambda>e. if is_exception e then raiseS (migration_error e) else raiseS e))"

definition invoke_migration_async :: "('v, 'w) execution_entry \<Rightarrow> nat \<Rightarrow> json \<Rightarrow> pyval bindings \<Rightarrow> ('w world, json) op" where
  "invoke_migration_async entry index data context =
     bindS (liftS (list_at (ee_migrations entry) index)) (\<lambda>b.
       catchS (bindS (outside_call CallMigration (mb_func b data context))
           (\<lambda>r. case r of Now v \<Rightarrow> returnS v | Later m \<Rightarrow> await_user m))
         (\<lambda>e. if is_exception e then raiseS (migration_error e) else raiseS e))"

section \<open>Strategies\<close>

definition threaded_invoke :: "'w migration_func \<Rightarrow> json \<Rightarrow> pyval bindings \<Rightarrow> ('w world, ('w, json) maybe_async) op" where
  "threaded_invoke func data context = outside_call CallMigration (func data context)"

text \<open>\<open>submit\<close> is the process pool: it runs a callable on copies of its arguments and waits for the result.\<close>

definition process_invoke :: "('w migration_func \<Rightarrow> 'w migration_func) \<Rightarrow> 'w migration_func \<Rightarrow> json \<Rightarrow> pyval bindings \<Rightarrow> ('w world, ('w, json) maybe_async) op" where
  "process_invoke submit func data context =
     bindS (liftS (context_dict context)) (\<lambda>d. outside_call CallMigration (submit func data (Layer d)))"

definition async_invoke :: "'w migration_func \<Rightarrow> json \<Rightarrow> pyval bindings \<Rightarrow> ('w world, json) op" where
  "async_invoke func data context =
     bindS (outside_call CallMigration (func data context)) (\<lambda>r. case r of Now v \<Rightarrow> returnS v | Later m \<Rightarrow> await_user m)"

section \<open>The synchronous step\<close>

text \<open>\<open>_raise_on_awaitable\<close>: the value of a result that is no awaitable.\<close>

fun raise_on_awaitable :: "('w, 'r) maybe_async \<Rightarrow> 'r res" where
  "raise_on_awaitable (Now r) = Inr r"
| "raise_on_awaitable (Later m) = Inl AsyncExecutionRequired"

text \<open>\<open>invoke_hook\<close> calls the phase of every hook before any of the results is looked at.\<close>

definition call_before :: "('v, 'w) hook_binding list \<Rightarrow> 'v step_context \<Rightarrow> json \<Rightarrow> ('w world, ('w, 'w hook_value) maybe_async list) op" where
  "call_before hs step data = mapS (\<lambda>b. outside_call (CallBefore (hk_id (hb_hook b))) (hk_before (hb_hook b) step data)) hs"

definition call_after :: "('v, 'w) hook_binding list \<Rightarrow> 'v step_context \<Rightarrow> json \<Rightarrow> json \<Rightarrow> ('w world, ('w, unit) maybe_async list) op" where
  "call_after hs step data migrated =
     mapS (\<lambda>b. outside_call (CallAfter (hk_id (hb_hook b))) (hk_after (hb_hook b) step data migrated)) hs"

definition call_on_error :: "('v, 'w) hook_binding list \<Rightarrow> 'v step_context \<Rightarrow> json \<Rightarrow> error \<Rightarrow> ('w world, ('w, unit) maybe_async list) op" where
  "call_on_error hs step data e =
     mapS (\<lambda>b. outside_call (CallOnError (hk_id (hb_hook b))) (hk_on_error (hb_hook b) step data e)) hs"

definition enter_result :: "('w, 'w hook_value) maybe_async \<Rightarrow> ('w world \<times> 'w scope list, unit) op" where
  "enter_result r = bindS (liftS (raise_on_awaitable r)) (\<lambda>v. case v of
     HookNone \<Rightarrow> returnS ()
   | HookOther \<Rightarrow> raiseS TypeError
   | HookScope c \<Rightarrow> if sc_async c then raiseS AsyncExecutionRequired else enter_context c)"

definition step_before :: "('v, 'w) hook_binding list \<Rightarrow> 'v step_context \<Rightarrow> json \<Rightarrow> ('w world \<times> 'w scope list, unit) op" where
  "step_before hs step data = bindS (in_body (call_before hs step data)) (forS enter_result)"

definition check_results :: "('w, unit) maybe_async list \<Rightarrow> ('w world, unit) op" where
  "check_results = forS (\<lambda>r. liftS (raise_on_awaitable r))"

definition step_after :: "('v, 'w) hook_binding list \<Rightarrow> 'v step_context \<Rightarrow> json \<Rightarrow> json \<Rightarrow> ('w world, unit) op" where
  "step_after hs step data migrated = bindS (call_after hs step data migrated) check_results"

definition step_on_error :: "('v, 'w) hook_binding list \<Rightarrow> 'v step_context \<Rightarrow> json \<Rightarrow> error \<Rightarrow> ('w world, unit) op" where
  "step_on_error hs step data e = bindS (call_on_error hs step data e) check_results"

text \<open>The \<open>except Exception\<close> clause around the invocation, for both forms of \<open>on_error\<close>.\<close>

definition handle_failure :: "(error \<Rightarrow> ('w world, unit) op) \<Rightarrow> error \<Rightarrow> ('w world, 'a) op" where
  "handle_failure on_error e =
     (if \<not> is_exception e then raiseS e
      else bindS (on_error e) (\<lambda>_.
        if e = AsyncExecutionRequired \<or> e = MigrationApplicationError then raiseS e else raiseS (migration_error e)))"

definition step_body :: "('v, 'w) hook_binding list \<Rightarrow> 'v step_context \<Rightarrow> json \<Rightarrow> ('w world, ('w, json) maybe_async) op
    \<Rightarrow> ('w world \<times> 'w scope list, json) op" where
  "step_body hs step data invoke =
     bindS (step_before hs step data) (\<lambda>_.
     bindS (in_body (catchS (bindS invoke (\<lambda>r. liftS (raise_on_awaitable r))) (handle_failure (step_on_error hs step data)))) (\<lambda>migrated.
     bindS (in_body (step_after hs step data migrated)) (\<lambda>_. returnS migrated)))"

text \<open>The telemetry around a step: \<open>except BaseException\<close> reports and raises again.\<close>

definition with_telemetry :: "('v, 'w) telemetry_publisher \<Rightarrow> 'v step_context \<Rightarrow> ('w world, 'a) op \<Rightarrow> ('w world, 'a) op" where
  "with_telemetry tel step m =
     bindS (if emits_success tel then emit tel (StepStarted step) else returnS ()) (\<lambda>_.
     bindS (catchS m (\<lambda>e. bindS (if emits_failure tel then emit tel (StepFailed step e) else returnS ()) (\<lambda>_. raiseS e))) (\<lambda>a.
     bindS (if emits_success tel then emit tel (StepCompleted step) else returnS ()) (\<lambda>_. returnS a)))"

definition run_sync :: "('v, 'w) telemetry_publisher \<Rightarrow> ('v, 'w) execution_entry \<Rightarrow> nat \<Rightarrow> json \<Rightarrow> 'v step_context
    \<Rightarrow> ('w world, ('w, json) maybe_async) op option \<Rightarrow> ('w world, json) op" where
  "run_sync tel entry index data step invoke =
     with_telemetry tel step (bindS (liftS (list_at (ee_hooks entry) index)) (\<lambda>hs.
       with_exit_stack (step_body hs step data
         (case invoke of Some m \<Rightarrow> m | None \<Rightarrow> invoke_migration entry index data (step_view step)))))"

section \<open>The asynchronous step\<close>

definition resolved :: "('w, 'r) maybe_async \<Rightarrow> ('w world, 'r) op" where
  "resolved r = (case r of Now v \<Rightarrow> returnS v | Later m \<Rightarrow> await_user m)"

text \<open>\<open>enter_async_context\<close> and \<open>enter_context\<close> of an \<open>AsyncExitStack\<close> push onto one stack.\<close>

definition enter_result_async :: "('w, 'w hook_value) maybe_async \<Rightarrow> ('w world \<times> 'w scope list, unit) op" where
  "enter_result_async r = bindS (in_body (resolved r)) (\<lambda>v. case v of
     HookNone \<Rightarrow> returnS ()
   | HookOther \<Rightarrow> raiseS TypeError
   | HookScope c \<Rightarrow> enter_context c)"

definition before_async :: "('v, 'w) hook_binding list \<Rightarrow> 'v step_context \<Rightarrow> json \<Rightarrow> ('w world \<times> 'w scope list, unit) op" where
  "before_async hs step data = bindS (in_body (call_before hs step data)) (forS enter_result_async)"

definition after_async :: "('v, 'w) hook_binding list \<Rightarrow> 'v step_context \<Rightarrow> json \<Rightarrow> json \<Rightarrow> ('w world, unit) op" where
  "after_async hs step data migrated = bindS (call_after hs step data migrated) (forS resolved)"

definition on_error_async :: "('v, 'w) hook_binding list \<Rightarrow> 'v step_context \<Rightarrow> json \<Rightarrow> error \<Rightarrow> ('w world, unit) op" where
  "on_error_async hs step data e = bindS (call_on_error hs step data e) (forS resolved)"

definition step_body_async :: "('v, 'w) hook_binding list \<Rightarrow> 'v step_context \<Rightarrow> json \<Rightarrow> ('w world, json) op
    \<Rightarrow> ('w world \<times> 'w scope list, json) op" where
  "step_body_async hs step data invoke =
     bindS (before_async hs step data) (\<lambda>_.
     bindS (in_body (catchS invoke (handle_failure (on_error_async hs step data)))) (\<lambda>migrated.
     bindS (in_body (after_async hs step data migrated)) (\<lambda>_. returnS migrated)))"

definition run_async :: "('v, 'w) telemetry_publisher \<Rightarrow> ('v, 'w) execution_entry \<Rightarrow> nat \<Rightarrow> json \<Rightarrow> 'v step_context
    \<Rightarrow> ('w world, json) op option \<Rightarrow> ('w world, json) op" where
  "run_async tel entry index data step invoke =
     with_telemetry tel step (bindS (liftS (list_at (ee_hooks entry) index)) (\<lambda>hs.
       with_exit_stack (step_body_async hs step data
         (case invoke of Some m \<Rightarrow> m | None \<Rightarrow> invoke_migration_async entry index data (step_view step)))))"

section \<open>Executing an entry\<close>

text \<open>\<open>if isinstance(current, dict): current[adapter.version_property] = str(step.target.version)\<close>.\<close>

fun stamp_version :: "string \<Rightarrow> string \<Rightarrow> json \<Rightarrow> json" where
  "stamp_version vp version (JObj d) = JObj (AList.update vp (JStr version) d)"
| "stamp_version vp version v = v"

text \<open>
  One turn of the loop over the steps, and the loop. The step context is built, the step runs with the
  strategy's invocation of the migration, and the result carries the version of the step's target.
\<close>

definition execute_step :: "('v \<Rightarrow> string) \<Rightarrow> ('v, 'w) telemetry_publisher \<Rightarrow> ('v, 'w) execution_entry \<Rightarrow> run_context \<Rightarrow> string
    \<Rightarrow> ('w migration_func \<Rightarrow> json \<Rightarrow> pyval bindings \<Rightarrow> ('w world, ('w, json) maybe_async) op) \<Rightarrow> nat \<Rightarrow> json \<Rightarrow> ('w world, json) op" where
  "execute_step show_v tel entry run vp invoke index current =
     bindS (liftS (mk_step_context show_v entry index run None)) (\<lambda>step.
     bindS (run_sync tel entry index current step
         (Some (bindS (liftS (migration_func entry index)) (\<lambda>func. invoke func current (step_view step))))) (\<lambda>migrated.
     returnS (stamp_version vp (show_v (nid_version (node_id_of (sx_target step)))) migrated)))"

fun execute_steps :: "(nat \<Rightarrow> json \<Rightarrow> ('s, json) op) \<Rightarrow> nat list \<Rightarrow> json \<Rightarrow> ('s, json) op" where
  "execute_steps f [] current = returnS current"
| "execute_steps f (i # is) current = bindS (f i current) (execute_steps f is)"

definition execute_sync :: "('v \<Rightarrow> string) \<Rightarrow> ('v, 'w) telemetry_publisher \<Rightarrow> run_context \<Rightarrow> string
    \<Rightarrow> ('w migration_func \<Rightarrow> json \<Rightarrow> pyval bindings \<Rightarrow> ('w world, ('w, json) maybe_async) op)
    \<Rightarrow> ('v, 'w) execution_entry \<Rightarrow> json \<Rightarrow> ('w world, entry_result) op" where
  "execute_sync show_v tel run vp invoke entry v =
     bindS (execute_steps (execute_step show_v tel entry run vp invoke) [0..<length (pe_steps (ee_plan entry))] v)
       (\<lambda>current. returnS (pe_path (ee_plan entry), current))"

definition execute_step_async :: "('v \<Rightarrow> string) \<Rightarrow> ('v, 'w) telemetry_publisher \<Rightarrow> ('v, 'w) execution_entry \<Rightarrow> run_context \<Rightarrow> string
    \<Rightarrow> ('w migration_func \<Rightarrow> json \<Rightarrow> pyval bindings \<Rightarrow> ('w world, json) op) \<Rightarrow> nat \<Rightarrow> json \<Rightarrow> ('w world, json) op" where
  "execute_step_async show_v tel entry run vp invoke index current =
     bindS (liftS (mk_step_context show_v entry index run None)) (\<lambda>step.
     bindS (run_async tel entry index current step
         (Some (bindS (liftS (migration_func entry index)) (\<lambda>func. invoke func current (step_view step))))) (\<lambda>migrated.
     returnS (stamp_version vp (show_v (nid_version (node_id_of (sx_target step)))) migrated)))"

definition execute_async :: "('v \<Rightarrow> string) \<Rightarrow> ('v, 'w) telemetry_publisher \<Rightarrow> run_context \<Rightarrow> string
    \<Rightarrow> ('w migration_func \<Rightarrow> json \<Rightarrow> pyval bindings \<Rightarrow> ('w world, json) op)
    \<Rightarrow> ('v, 'w) execution_entry \<Rightarrow> json \<Rightarrow> ('w world, entry_result) op" where
  "execute_async show_v tel run vp invoke entry v =
     bindS (execute_steps (execute_step_async show_v tel entry run vp invoke) [0..<length (pe_steps (ee_plan entry))] v)
       (\<lambda>current. returnS (pe_path (ee_plan entry), current))"

section \<open>The calls of a step\<close>

lemma mapS_calls:
  assumes "mapS (\<lambda>x. outside_call (f x) (m x)) xs s = (r, s')"
  shows "\<exists>cs. wd_trace s' = wd_trace s @ cs \<and> prefix cs (map f xs) \<and> (okR r \<longrightarrow> cs = map f xs)"
  using assms
proof (induction xs arbitrary: s r s')
  case (Cons x xs)
  obtain a s1 where a: "outside_call (f x) (m x) s = (a, s1)" by (cases "outside_call (f x) (m x) s")
  note t = outside_call_trace [OF a]
  show ?case
  proof (cases a)
    case (Inl e)
    then show ?thesis using Cons.prems a t by (auto intro!: exI [of _ "[f x]"])
  next
    case (Inr y)
    obtain b s2 where b: "mapS (\<lambda>x. outside_call (f x) (m x)) xs s1 = (b, s2)" by (cases "mapS (\<lambda>x. outside_call (f x) (m x)) xs s1")
    then have "s' = s2 \<and> (okR r \<longrightarrow> okR b)" using Cons.prems a Inr by (cases b) (auto simp: bindS_def)
    moreover from Cons.IH [OF b] obtain cs where "wd_trace s2 = wd_trace s1 @ cs" "prefix cs (map f xs)" "okR b \<longrightarrow> cs = map f xs" by blast
    ultimately show ?thesis using t by (intro exI [of _ "f x # cs"]) auto
  qed
qed simp

lemma unwind_trace: "unwind cs pending s = (e, s') \<Longrightarrow> wd_trace s' = wd_trace s @ map CallExit (map sc_id cs)"
proof (induction cs arbitrary: pending s)
  case (Cons c cs)
  obtain a s1 where a: "outside_call (CallExit (sc_id c)) (sc_exit c pending) s = (a, s1)"
    by (cases "outside_call (CallExit (sc_id c)) (sc_exit c pending) s")
  then have "\<exists>p. unwind cs p s1 = (e, s')" using Cons.prems by (cases a) auto
  then show ?case using Cons.IH outside_call_trace [OF a] by auto
qed simp

lemma unwind_pending: "unwind cs (Some e) s = (p, s') \<Longrightarrow> p \<noteq> None"
proof (induction cs arbitrary: e s)
  case (Cons c cs)
  then show ?case by (cases "outside_call (CallExit (sc_id c)) (sc_exit c (Some e)) s") (auto split: sum.splits)
qed auto

lemma enter_context_trace:
  assumes "enter_context c (s, st) = (r, (s', st'))"
  shows "wd_trace s' = wd_trace s @ [CallEnter (sc_id c)] \<and> st' = (if okR r then c # st else st)"
  using assms outside_call_trace [of "CallEnter (sc_id c)" "sc_enter c" s] unfolding enter_context_def
  by (cases "outside_call (CallEnter (sc_id c)) (sc_enter c) s") (auto split: sum.splits)

text \<open>Entering the scopes that the hooks returned: at most the last entered one failed to enter.\<close>

definition pushes :: "('x \<Rightarrow> ('w world \<times> 'w scope list, unit) op) \<Rightarrow> bool" where
  "pushes f \<longleftrightarrow> (\<forall>x s st r s' st'. f x (s, st) = (r, (s', st')) \<longrightarrow>
      (\<exists>c. wd_trace s' = wd_trace s @ [CallEnter (sc_id c)] \<and> st' = (if okR r then c # st else st))
      \<or> (wd_trace s' = wd_trace s \<and> st' = st))"

lemma enter_results_trace:
  assumes "pushes f"
    and "forS f xs (s, st) = (r, (s', st'))"
  shows "\<exists>cs fs. wd_trace s' = wd_trace s @ map CallEnter (map sc_id cs @ fs) \<and> st' = rev cs @ st
    \<and> length fs \<le> 1 \<and> (okR r \<longrightarrow> fs = [])"
  using assms(2)
proof (induction xs arbitrary: s st)
  case (Cons x xs)
  obtain a s1 st1 where a: "f x (s, st) = (a, (s1, st1))" by (metis prod.exhaust)
  consider c where "wd_trace s1 = wd_trace s @ [CallEnter (sc_id c)]" "st1 = (if okR a then c # st else st)"
    | "wd_trace s1 = wd_trace s" "st1 = st" using assms(1) a unfolding pushes_def by blast
  then show ?case
  proof cases
    case 1
    show ?thesis
    proof (cases a)
      case (Inl e)
      then show ?thesis using Cons.prems a 1 by (rule_tac exI [of _ "[]"], rule_tac exI [of _ "[sc_id c]"]) (auto simp: bindS_def)
    next
      case (Inr u)
      then have "forS f xs (s1, c # st) = (r, (s', st'))" using Cons.prems a 1 by (simp add: bindS_def)
      from Cons.IH [OF this] obtain cs fs where "wd_trace s' = wd_trace s1 @ map CallEnter (map sc_id cs @ fs)"
        "st' = rev cs @ c # st" "length fs \<le> 1" "okR r \<longrightarrow> fs = []" by blast
      then show ?thesis using 1 by (intro exI [of _ "c # cs"] exI [of _ fs]) simp
    qed
  next
    case 2
    show ?thesis
    proof (cases a)
      case (Inl e)
      then show ?thesis using Cons.prems a 2 by (intro exI [of _ "[]"]) (auto simp: bindS_def)
    next
      case (Inr u)
      then have "forS f xs (s1, st) = (r, (s', st'))" using Cons.prems a 2 by (simp add: bindS_def)
      from Cons.IH [OF this] show ?thesis using 2 by auto
    qed
  qed
qed (auto intro!: exI [of _ "[]"])

lemma enter_result_trace:
  assumes "enter_result x (s, st) = (r, (s', st'))"
  shows "(\<exists>c. wd_trace s' = wd_trace s @ [CallEnter (sc_id c)] \<and> st' = (if okR r then c # st else st))
      \<or> (wd_trace s' = wd_trace s \<and> st' = st)"
proof (cases "raise_on_awaitable x")
  case (Inr v)
  then show ?thesis
    using assms enter_context_trace [of _ s st r s' st']
    by (cases v) (auto simp: enter_result_def bindS_def split: if_splits)
qed (use assms in \<open>auto simp: enter_result_def bindS_def\<close>)

lemma enter_result_async_trace:
  assumes "enter_result_async x (s, st) = (r, (s', st'))"
  shows "(\<exists>c. wd_trace s' = wd_trace s @ [CallEnter (sc_id c)] \<and> st' = (if okR r then c # st else st))
      \<or> (wd_trace s' = wd_trace s \<and> st' = st)"
proof -
  obtain a s1 where a: "resolved x s = (a, s1)" by (cases "resolved x s")
  then have t: "wd_trace s1 = wd_trace s" by (auto simp: resolved_def await_user_trace split: maybe_async.splits)
  show ?thesis
  proof (cases a)
    case (Inr v)
    then show ?thesis
      using assms a t enter_context_trace [of _ s1 st r s' st']
      by (cases v) (auto simp: enter_result_async_def bindS_def in_body_def)
  qed (use assms a t in \<open>auto simp: enter_result_async_def bindS_def in_body_def\<close>)
qed

lemma pushes_enter: "pushes enter_result" "pushes enter_result_async"
  unfolding pushes_def using enter_result_trace enter_result_async_trace by blast+

text \<open>
  The part before the invocation: hooks in order, then the scopes they returned.
\<close>

abbreviation hook_ids :: "('v, 'w) hook_binding list \<Rightarrow> nat list" where
  "hook_ids hs \<equiv> map (\<lambda>b. hk_id (hb_hook b)) hs"

definition opened :: "('v, 'w) hook_binding list \<Rightarrow> bool \<Rightarrow> call list \<Rightarrow> nat list \<Rightarrow> bool" where
  "opened hs ok t entered \<longleftrightarrow> (\<exists>bs fs. t = map CallBefore bs @ map CallEnter (entered @ fs) \<and> prefix bs (hook_ids hs)
     \<and> length fs \<le> 1 \<and> (ok \<longrightarrow> bs = hook_ids hs \<and> fs = []))"

lemma opened_mono: "opened hs k t es \<Longrightarrow> (k' \<Longrightarrow> k) \<Longrightarrow> opened hs k' t es"
  unfolding opened_def by blast

lemma prefix_map_CallBefore: "prefix cs (map (\<lambda>b. CallBefore (hk_id (hb_hook b))) hs) \<Longrightarrow> \<exists>bs. cs = map CallBefore bs \<and> prefix bs (hook_ids hs)"
proof -
  assume p: "prefix cs (map (\<lambda>b. CallBefore (hk_id (hb_hook b))) hs)"
  have "map (\<lambda>b. CallBefore (hk_id (hb_hook b))) hs = map CallBefore (hook_ids hs)" by simp
  with p have "cs = map CallBefore (take (length cs) (hook_ids hs))" by (metis prefix_def append_eq_conv_conj take_map)
  then show ?thesis using take_is_prefix by blast
qed

lemma before_trace:
  assumes f: "pushes f"
    and b: "bindS (in_body (call_before hs step data)) (forS f) (s, []) = (r, (s', st))"
  shows "\<exists>t. wd_trace s' = wd_trace s @ t \<and> opened hs (okR r) t (map sc_id (rev st))"
proof -
  obtain a s1 where a: "call_before hs step data s = (a, s1)" by (cases "call_before hs step data s")
  from mapS_calls [OF a [unfolded call_before_def]] obtain cs where cs: "wd_trace s1 = wd_trace s @ cs"
    "prefix cs (map (\<lambda>b. CallBefore (hk_id (hb_hook b))) hs)" "okR a \<longrightarrow> cs = map (\<lambda>b. CallBefore (hk_id (hb_hook b))) hs" by blast
  from prefix_map_CallBefore [OF cs(2)] obtain bs where bs: "cs = map CallBefore bs" "prefix bs (hook_ids hs)" by blast
  show ?thesis
  proof (cases a)
    case (Inl e)
    then have "s' = s1" "st = []" "r = Inl e" using b a by (auto simp: bindS_def in_body_def)
    then show ?thesis using cs(1) bs unfolding opened_def by (rule_tac exI [of _ cs], simp, rule_tac exI [of _ bs], rule_tac exI [of _ "[]"]) simp
  next
    case (Inr rs)
    have "map CallBefore bs = map CallBefore (hook_ids hs)" using cs(3) bs(1) Inr by (simp add: comp_def)
    moreover have "inj CallBefore" by (simp add: inj_def)
    ultimately have all: "bs = hook_ids hs" by (metis inj_map_eq_map)
    from b have "forS f rs (s1, []) = (r, (s', st))" using a Inr by (simp add: bindS_def in_body_def)
    from enter_results_trace [OF f this] obtain es fs where "wd_trace s' = wd_trace s1 @ map CallEnter (map sc_id es @ fs)"
      "st = rev es @ []" "length fs \<le> 1" "okR r \<longrightarrow> fs = []" by blast
    then have "wd_trace s' = wd_trace s @ (cs @ map CallEnter (map sc_id (rev st) @ fs))" "length fs \<le> 1" "okR r \<longrightarrow> fs = []"
      using cs(1) by auto
    then show ?thesis using bs all unfolding opened_def by blast
  qed
qed

text \<open>The calls of the invocation with its error handling, and of the hooks after it.\<close>

definition served :: "('v, 'w) hook_binding list \<Rightarrow> bool \<Rightarrow> call list \<Rightarrow> bool" where
  "served hs ok t \<longleftrightarrow> (\<exists>ms es. t = ms @ es \<and> set ms \<subseteq> {CallMigration}
     \<and> (prefix es (map CallOnError (hook_ids hs)) \<and> \<not> ok \<or> prefix es (map CallAfter (hook_ids hs)))
     \<and> (ok \<longrightarrow> es = map CallAfter (hook_ids hs)))"

lemma bind_results_trace:
  assumes "bindS (mapS (\<lambda>x. outside_call (f x) (m x)) xs) (forS g) s = (r, s')"
    and "\<And>x s r s'. g x s = (r, s') \<Longrightarrow> wd_trace s' = wd_trace s"
  shows "\<exists>cs. wd_trace s' = wd_trace s @ cs \<and> prefix cs (map f xs) \<and> (okR r \<longrightarrow> cs = map f xs)"
proof -
  obtain a s1 where a: "mapS (\<lambda>x. outside_call (f x) (m x)) xs s = (a, s1)" by (cases "mapS (\<lambda>x. outside_call (f x) (m x)) xs s")
  have g: "wd_trace s' = wd_trace s" if "forS g ys s = (r, s')" for ys s r s'
    using that
  proof (induction ys arbitrary: s)
    case (Cons y ys)
    then show ?case using assms(2) [of y s] by (cases "g y s") (auto simp: bindS_def split: sum.splits)
  qed simp
  show ?thesis
  proof (cases a)
    case (Inl e)
    then show ?thesis using assms(1) a mapS_calls [OF a] by auto
  next
    case (Inr ys)
    then have "wd_trace s' = wd_trace s1" using assms(1) a g [of ys s1 r s'] by simp
    then show ?thesis using mapS_calls [OF a] Inr by auto
  qed
qed

lemma check_results_quiet: "liftS (raise_on_awaitable x) s = (r, s') \<Longrightarrow> wd_trace s' = wd_trace s"
  by simp

lemma resolved_quiet: "resolved x s = (r, s') \<Longrightarrow> wd_trace s' = wd_trace s"
  by (auto simp: resolved_def await_user_trace split: maybe_async.splits)

lemma after_trace:
  assumes "aft = step_after \<or> aft = after_async" "aft hs step data migrated s = (r, s')"
  shows "\<exists>cs. wd_trace s' = wd_trace s @ cs \<and> prefix cs (map CallAfter (hook_ids hs)) \<and> (okR r \<longrightarrow> cs = map CallAfter (hook_ids hs))"
proof -
  have m: "map CallAfter (hook_ids hs) = map (\<lambda>b. CallAfter (hk_id (hb_hook b))) hs" by simp
  show ?thesis unfolding m
    by (rule bind_results_trace [where g = "if aft = step_after then \<lambda>r. liftS (raise_on_awaitable r) else resolved"
        and m = "\<lambda>b. hk_after (hb_hook b) step data migrated"])
      (use assms in \<open>auto simp: step_after_def after_async_def call_after_def check_results_def resolved_quiet split: if_splits\<close>)
qed

lemma on_error_trace:
  assumes "oe = step_on_error \<or> oe = on_error_async" "oe hs step data e s = (r, s')"
  shows "\<exists>cs. wd_trace s' = wd_trace s @ cs \<and> prefix cs (map CallOnError (hook_ids hs))"
proof -
  have m: "map CallOnError (hook_ids hs) = map (\<lambda>b. CallOnError (hk_id (hb_hook b))) hs" by simp
  have "\<exists>cs. wd_trace s' = wd_trace s @ cs \<and> prefix cs (map (\<lambda>b. CallOnError (hk_id (hb_hook b))) hs)
    \<and> (okR r \<longrightarrow> cs = map (\<lambda>b. CallOnError (hk_id (hb_hook b))) hs)"
    by (rule bind_results_trace [where g = "if oe = step_on_error then \<lambda>r. liftS (raise_on_awaitable r) else resolved"
        and m = "\<lambda>b. hk_on_error (hb_hook b) step data e"])
      (use assms in \<open>auto simp: step_on_error_def on_error_async_def call_on_error_def check_results_def resolved_quiet split: if_splits\<close>)
  then show ?thesis unfolding m by blast
qed

lemma invoke_trace:
  assumes "calls {CallMigration} ivk" "oe = step_on_error \<or> oe = on_error_async"
    and "catchS ivk (handle_failure (oe hs step data)) s = (r, s')"
  shows "\<exists>ms es. wd_trace s' = wd_trace s @ ms @ es \<and> set ms \<subseteq> {CallMigration}
    \<and> prefix es (map CallOnError (hook_ids hs)) \<and> (okR r \<longrightarrow> es = [])"
proof -
  obtain a s1 where a: "ivk s = (a, s1)" by (cases "ivk s")
  from appendsE [OF assms(1) a] obtain ms where ms: "wd_trace s1 = wd_trace s @ ms" "set ms \<subseteq> {CallMigration}" by blast
  show ?thesis
  proof (cases a)
    case (Inl e)
    then have h: "handle_failure (oe hs step data) e s1 = (r, s')" using assms(3) a by (simp add: catchS_def)
    show ?thesis
    proof (cases "is_exception e")
      case True
      obtain b s2 where b: "oe hs step data e s1 = (b, s2)" by (cases "oe hs step data e s1")
      then have "s' = s2" "\<not> okR r" using h True by (auto simp: handle_failure_def bindS_def split: sum.splits if_splits)
      then show ?thesis using ms on_error_trace [OF assms(2) b] by auto
    next
      case False
      then show ?thesis using h ms by (rule_tac exI [of _ ms], rule_tac exI [of _ "[]"]) (auto simp: handle_failure_def)
    qed
  next
    case (Inr v)
    then show ?thesis using assms(3) a ms by (rule_tac exI [of _ ms], rule_tac exI [of _ "[]"]) (auto simp: catchS_def)
  qed
qed

lemma body_trace:
  assumes before: "\<And>r s' st. before (s, []) = (r, (s', st)) \<Longrightarrow>
      \<exists>t. wd_trace s' = wd_trace s @ t \<and> opened hs (okR r) t (map sc_id (rev st))"
    and ivk: "calls {CallMigration} ivk" and oe: "oe = step_on_error \<or> oe = on_error_async" and aft: "aft = step_after \<or> aft = after_async"
    and body: "bindS before (\<lambda>_. bindS (in_body (catchS ivk (handle_failure (oe hs step data))))
      (\<lambda>m. bindS (in_body (aft hs step data m)) (\<lambda>_. returnS m))) (s, []) = (r, (s', st))"
  shows "\<exists>t u. wd_trace s' = wd_trace s @ t @ u \<and> opened hs (okR r \<or> u \<noteq> []) t (map sc_id (rev st)) \<and> served hs (okR r) u"
proof -
  obtain a s1 st1 where a: "before (s, []) = (a, (s1, st1))" by (metis prod.exhaust)
  from before [OF this] obtain t where t: "wd_trace s1 = wd_trace s @ t" "opened hs (okR a) t (map sc_id (rev st1))" by blast
  show ?thesis
  proof (cases a)
    case (Inl e)
    then show ?thesis using body a t by (rule_tac exI [of _ t], rule_tac exI [of _ "[]"]) (auto simp: served_def)
  next
    case (Inr x)
    let ?ivk = "catchS ivk (handle_failure (oe hs step data))"
    obtain b s2 where b: "?ivk s1 = (b, s2)" by (cases "?ivk s1")
    from invoke_trace [OF ivk oe b] obtain ms es where m: "wd_trace s2 = wd_trace s1 @ ms @ es" "set ms \<subseteq> {CallMigration}"
      "prefix es (map CallOnError (hook_ids hs))" "okR b \<longrightarrow> es = []" by blast
    have o: "opened hs True t (map sc_id (rev st1))" using t(2) Inr by simp
    show ?thesis
    proof (cases b)
      case (Inl e)
      then have "s' = s2" "st = st1" "r = Inl e" using body a Inr b by (auto simp: bindS_def in_body_def)
      moreover have "opened hs k t (map sc_id (rev st1))" for k by (rule opened_mono [OF o]) simp
      ultimately show ?thesis using t(1) m by (rule_tac exI [of _ t], rule_tac exI [of _ "ms @ es"]) (auto simp: served_def)
    next
      case i: (Inr v)
      obtain c s3 where c: "aft hs step data v s2 = (c, s3)" by (cases "aft hs step data v s2")
      from after_trace [OF aft c] obtain cs where cs: "wd_trace s3 = wd_trace s2 @ cs"
        "prefix cs (map CallAfter (hook_ids hs))" "okR c \<longrightarrow> cs = map CallAfter (hook_ids hs)" by blast
      have r: "s' = s3" "st = st1" "okR r \<longleftrightarrow> okR c" using body a Inr b i c by (auto simp: bindS_def in_body_def split: sum.splits)
      have "opened hs (okR r \<or> ms @ cs \<noteq> []) t (map sc_id (rev st))" unfolding r(2) by (rule opened_mono [OF o]) simp
      then show ?thesis using t(1) m cs r i by (rule_tac exI [of _ t], rule_tac exI [of _ "ms @ cs"]) (auto simp: served_def)
    qed
  qed
qed

text \<open>The whole step: what it appends to the trace, between the telemetry around it.\<close>

definition lifecycle :: "('v, 'w) hook_binding list \<Rightarrow> bool \<Rightarrow> call list \<Rightarrow> bool" where
  "lifecycle hs ok t \<longleftrightarrow> (\<exists>b inner entered. t = b @ inner @ map CallExit (rev entered)
     \<and> opened hs (ok \<or> inner \<noteq> []) b entered \<and> (\<exists>k. (ok \<longrightarrow> k) \<and> served hs k inner))"

lemma with_exit_stack_trace:
  assumes "\<And>r s' st. body (s, []) = (r, (s', st)) \<Longrightarrow>
      \<exists>t u. wd_trace s' = wd_trace s @ t @ u \<and> opened hs (okR r \<or> u \<noteq> []) t (map sc_id (rev st)) \<and> served hs (okR r) u"
    and "with_exit_stack body s = (r, s')"
  shows "\<exists>t. wd_trace s' = wd_trace s @ t \<and> lifecycle hs (okR r) t"
proof -
  obtain a s1 st where a: "body (s, []) = (a, (s1, st))" by (metis prod.exhaust)
  from assms(1) [OF this] obtain t u where t: "wd_trace s1 = wd_trace s @ t @ u" "opened hs (okR a \<or> u \<noteq> []) t (map sc_id (rev st))"
    "served hs (okR a) u" by blast
  let ?p = "case a of Inl e \<Rightarrow> Some e | Inr _ \<Rightarrow> None"
  obtain p s2 where w: "unwind st ?p s1 = (p, s2)" by (cases "unwind st ?p s1")
  have s2: "s' = s2" "okR r \<longrightarrow> okR a"
    using assms(2) a w unwind_pending [of st _ s1 p s2] by (auto simp: with_exit_stack_def split: option.splits sum.splits)
  have "wd_trace s2 = wd_trace s @ t @ u @ map CallExit (rev (map sc_id (rev st)))"
    using unwind_trace [OF w] t(1) by (simp add: rev_map)
  moreover have "opened hs (okR r \<or> u \<noteq> []) t (map sc_id (rev st))" by (rule opened_mono [OF t(2)]) (use s2(2) in blast)
  ultimately show ?thesis using s2 t(3) unfolding lifecycle_def by blast
qed

lemma with_telemetry_trace:
  assumes m: "\<And>s1 r s'. m s1 = (r, s') \<Longrightarrow> \<exists>t. wd_trace s' = wd_trace s1 @ t \<and> P (okR r) t"
    and P: "P False []" "\<And>t. P True t \<Longrightarrow> P False t" and w: "with_telemetry tel step m s = (r, s')"
  shows "\<exists>started t finished. wd_trace s' = wd_trace s @ started @ t @ finished \<and> P (okR r) t
    \<and> set started \<subseteq> {EmitStepStarted} \<and> set finished \<subseteq> {EmitStepFailed, EmitStepCompleted}
    \<and> (okR r \<longrightarrow> EmitStepFailed \<notin> set finished)"
proof -
  let ?st = "if emits_success tel then emit tel (StepStarted step) else returnS ()"
  let ?f = "\<lambda>e. if emits_failure tel then emit tel (StepFailed step e) else returnS ()"
  let ?c = "if emits_success tel then emit tel (StepCompleted step) else returnS ()"
  have e: "calls {EmitStepStarted} ?st" "\<And>e. calls {EmitStepFailed} (?f e)" "calls {EmitStepCompleted} ?c"
    by (intro calls_intros; simp)+
  obtain a s1 where a: "?st s = (a, s1)" by (cases "?st s")
  from appendsE [OF e(1) a] obtain t0 where t0: "wd_trace s1 = wd_trace s @ t0" "set t0 \<subseteq> {EmitStepStarted}" by blast
  show ?thesis
  proof (cases a)
    case (Inl x)
    then show ?thesis using w a t0 P(1) by (rule_tac exI [of _ t0], rule_tac exI [of _ "[]"]) (auto simp: with_telemetry_def)
  next
    case (Inr x)
    obtain b s2 where b: "m s1 = (b, s2)" by (cases "m s1")
    from m [OF this] obtain t where t: "wd_trace s2 = wd_trace s1 @ t" "P (okR b) t" by blast
    show ?thesis
    proof (cases b)
      case (Inl y)
      obtain c s3 where c: "?f y s2 = (c, s3)" by (cases "?f y s2")
      from appendsE [OF e(2) c] obtain t1 where t1: "wd_trace s3 = wd_trace s2 @ t1" "set t1 \<subseteq> {EmitStepFailed}" by blast
      have "s' = s3" "\<not> okR r" using w a Inr b Inl c by (auto simp: with_telemetry_def bindS_def catchS_def split: sum.splits)
      then show ?thesis using t0 t t1 Inl by (intro exI [of _ t0] exI [of _ t] exI [of _ t1]) auto
    next
      case i: (Inr v)
      obtain c s3 where c: "?c s2 = (c, s3)" by (cases "?c s2")
      from appendsE [OF e(3) c] obtain t1 where t1: "wd_trace s3 = wd_trace s2 @ t1" "set t1 \<subseteq> {EmitStepCompleted}" by blast
      have "s' = s3" using w a Inr b i c by (auto simp: with_telemetry_def bindS_def catchS_def split: sum.splits)
      moreover have "P (okR r) t" using t(2) i P(2) by (cases "okR r") auto
      ultimately show ?thesis using t0 t t1 by (intro exI [of _ t0] exI [of _ t] exI [of _ t1]) auto
    qed
  qed
qed

lemma lifecycle_weaken: "lifecycle hs False []" "lifecycle hs True t \<Longrightarrow> lifecycle hs False t"
proof -
  have "opened hs False [] []" "served hs False []" by (auto simp: opened_def served_def)
  then show "lifecycle hs False []" unfolding lifecycle_def
    by (rule_tac exI [of _ "[]"], rule_tac exI [of _ "[]"], rule_tac exI [of _ "[]"]) auto
  assume "lifecycle hs True t"
  then obtain b inner entered k where "t = b @ inner @ map CallExit (rev entered)" "opened hs True b entered" "served hs k inner"
    by (auto simp: lifecycle_def)
  moreover from this have "opened hs (False \<or> inner \<noteq> []) b entered" using opened_mono by blast
  ultimately show "lifecycle hs False t" unfolding lifecycle_def by blast
qed

text \<open>The strategies make one call, that of the migration.\<close>

lemma calls_case_async [calls_intros]:
  "(\<And>v. r = Now v \<Longrightarrow> calls A (f v)) \<Longrightarrow> (\<And>m. r = Later m \<Longrightarrow> calls A (g m)) \<Longrightarrow> calls A (case r of Now v \<Rightarrow> f v | Later m \<Rightarrow> g m)"
  by (cases r) simp_all

lemma invoke_calls [calls_intros]:
  "calls {CallMigration} (threaded_invoke func data c)"
  "calls {CallMigration} (process_invoke submit func data c)"
  "calls {CallMigration} (async_invoke func data c)"
  "calls {CallMigration} (invoke_migration entry index data c)"
  "calls {CallMigration} (invoke_migration_async entry index data c)"
  unfolding threaded_invoke_def process_invoke_def async_invoke_def invoke_migration_def invoke_migration_async_def
  by (intro calls_intros; simp)+

lemma run_sync_trace:
  assumes "case invoke of None \<Rightarrow> True | Some m \<Rightarrow> calls {CallMigration} m" "index < length (ee_hooks entry)"
    and "run_sync tel entry index data step invoke s = (r, s')"
  shows "\<exists>started t finished. wd_trace s' = wd_trace s @ started @ t @ finished \<and> lifecycle (ee_hooks entry ! index) (okR r) t
    \<and> set started \<subseteq> {EmitStepStarted} \<and> set finished \<subseteq> {EmitStepFailed, EmitStepCompleted}
    \<and> (okR r \<longrightarrow> EmitStepFailed \<notin> set finished)"
proof (rule with_telemetry_trace [of _ "lifecycle (ee_hooks entry ! index)", OF _ lifecycle_weaken assms(3) [unfolded run_sync_def]])
  let ?i = "case invoke of Some m \<Rightarrow> m | None \<Rightarrow> invoke_migration entry index data (step_view step)"
  let ?i' = "bindS ?i (\<lambda>r. liftS (raise_on_awaitable r))"
  have i: "calls {CallMigration} ?i'" using assms(1) by (cases invoke) (auto intro!: calls_intros)
  fix s1 r s'
  assume a: "bindS (liftS (list_at (ee_hooks entry) index)) (\<lambda>hs. with_exit_stack (step_body hs step data ?i)) s1 = (r, s')"
  let ?hs = "ee_hooks entry ! index"
  have w: "with_exit_stack (step_body ?hs step data ?i) s1 = (r, s')" using a assms(2) by (simp add: list_at_def bindS_def)
  show "\<exists>t. wd_trace s' = wd_trace s1 @ t \<and> lifecycle ?hs (okR r) t"
  proof (rule with_exit_stack_trace [OF _ w])
    fix r s' st assume b: "step_body ?hs step data ?i (s1, []) = (r, (s', st))"
    show "\<exists>t u. wd_trace s' = wd_trace s1 @ t @ u \<and> opened ?hs (okR r \<or> u \<noteq> []) t (map sc_id (rev st)) \<and> served ?hs (okR r) u"
      by (rule body_trace [where oe = step_on_error and aft = step_after and hs = ?hs and step = step and data = data, OF _ i _ _ b [unfolded step_body_def step_before_def]])
        (use before_trace [OF pushes_enter(1)] in auto)
  qed
qed

lemma run_async_trace:
  assumes "case invoke of None \<Rightarrow> True | Some m \<Rightarrow> calls {CallMigration} m" "index < length (ee_hooks entry)"
    and "run_async tel entry index data step invoke s = (r, s')"
  shows "\<exists>started t finished. wd_trace s' = wd_trace s @ started @ t @ finished \<and> lifecycle (ee_hooks entry ! index) (okR r) t
    \<and> set started \<subseteq> {EmitStepStarted} \<and> set finished \<subseteq> {EmitStepFailed, EmitStepCompleted}
    \<and> (okR r \<longrightarrow> EmitStepFailed \<notin> set finished)"
proof (rule with_telemetry_trace [of _ "lifecycle (ee_hooks entry ! index)", OF _ lifecycle_weaken assms(3) [unfolded run_async_def]])
  let ?i = "case invoke of Some m \<Rightarrow> m | None \<Rightarrow> invoke_migration_async entry index data (step_view step)"
  have i: "calls {CallMigration} ?i" using assms(1) by (cases invoke) (auto intro!: calls_intros)
  fix s1 r s'
  assume a: "bindS (liftS (list_at (ee_hooks entry) index)) (\<lambda>hs. with_exit_stack (step_body_async hs step data ?i)) s1 = (r, s')"
  let ?hs = "ee_hooks entry ! index"
  have w: "with_exit_stack (step_body_async ?hs step data ?i) s1 = (r, s')" using a assms(2) by (simp add: list_at_def bindS_def)
  show "\<exists>t. wd_trace s' = wd_trace s1 @ t \<and> lifecycle ?hs (okR r) t"
  proof (rule with_exit_stack_trace [OF _ w])
    fix r s' st assume b: "step_body_async ?hs step data ?i (s1, []) = (r, (s', st))"
    show "\<exists>t u. wd_trace s' = wd_trace s1 @ t @ u \<and> opened ?hs (okR r \<or> u \<noteq> []) t (map sc_id (rev st)) \<and> served ?hs (okR r) u"
      by (rule body_trace [where oe = on_error_async and aft = after_async and hs = ?hs and step = step and data = data, OF _ i _ _ b [unfolded step_body_async_def before_async_def]])
        (use before_trace [OF pushes_enter(2)] in auto)
  qed
qed

lemma served_calls:
  "served hs k t \<Longrightarrow> set t \<subseteq> {CallMigration} \<union> CallOnError ` set (hook_ids hs) \<union> CallAfter ` set (hook_ids hs)"
proof -
  assume "served hs k t"
  then obtain ms es where t: "t = ms @ es" "set ms \<subseteq> {CallMigration}"
    "prefix es (map CallOnError (hook_ids hs)) \<or> prefix es (map CallAfter (hook_ids hs))" unfolding served_def by blast
  have "set es \<subseteq> CallOnError ` set (hook_ids hs) \<or> set es \<subseteq> CallAfter ` set (hook_ids hs)"
    using t(3) set_mono_prefix [of es "map CallOnError (hook_ids hs)"] set_mono_prefix [of es "map CallAfter (hook_ids hs)"]
    unfolding set_map by blast
  then show ?thesis unfolding t(1) set_append using t(2) by blast
qed

text \<open>
  C14. The lifecycle of a step, synchronous or not: the hooks are called in order, then the scopes they
  returned are entered, of which at most the last can have failed to enter; whatever happens afterwards,
  every scope that was entered is exited exactly once and in reverse order. When the step succeeds all hooks
  were called before and after the migration, and no failure was reported.
\<close>

theorem step_lifecycle:
  assumes "index < length (ee_hooks entry)"
    and "(case invoke of None \<Rightarrow> True | Some m \<Rightarrow> calls {CallMigration} m) \<and> run_sync tel entry index data step invoke s = (r, s')
      \<or> (case ainvoke of None \<Rightarrow> True | Some m \<Rightarrow> calls {CallMigration} m) \<and> run_async tel entry index data step ainvoke s = (r, s')"
  shows "\<exists>started befores entered failing inner finished.
    wd_trace s' = wd_trace s @ started @ map CallBefore befores @ map CallEnter (entered @ failing) @ inner
      @ map CallExit (rev entered) @ finished
    \<and> set started \<subseteq> {EmitStepStarted} \<and> set finished \<subseteq> {EmitStepFailed, EmitStepCompleted}
    \<and> prefix befores (hook_ids (ee_hooks entry ! index)) \<and> length failing \<le> 1
    \<and> set inner \<subseteq> {CallMigration} \<union> CallOnError ` set (hook_ids (ee_hooks entry ! index)) \<union> CallAfter ` set (hook_ids (ee_hooks entry ! index))
    \<and> (\<forall>v. r = Inr v \<longrightarrow> befores = hook_ids (ee_hooks entry ! index) \<and> failing = [] \<and> EmitStepFailed \<notin> set finished
        \<and> (\<exists>ms. set ms \<subseteq> {CallMigration} \<and> inner = ms @ map CallAfter (hook_ids (ee_hooks entry ! index))))"
proof -
  let ?hs = "ee_hooks entry ! index"
  obtain started t finished where t: "wd_trace s' = wd_trace s @ started @ t @ finished" "lifecycle ?hs (okR r) t"
    "set started \<subseteq> {EmitStepStarted}" "set finished \<subseteq> {EmitStepFailed, EmitStepCompleted}" "okR r \<longrightarrow> EmitStepFailed \<notin> set finished"
    using assms(2) run_sync_trace [OF _ assms(1), of invoke] run_async_trace [OF _ assms(1), of ainvoke] by metis
  from t(2) obtain b inner entered k where l: "t = b @ inner @ map CallExit (rev entered)" "opened ?hs (okR r \<or> inner \<noteq> []) b entered"
    "okR r \<longrightarrow> k" "served ?hs k inner" unfolding lifecycle_def by blast
  from l(2) obtain bs fs where b: "b = map CallBefore bs @ map CallEnter (entered @ fs)" "prefix bs (hook_ids ?hs)" "length fs \<le> 1"
    "okR r \<or> inner \<noteq> [] \<longrightarrow> bs = hook_ids ?hs \<and> fs = []" unfolding opened_def by blast
  have "\<exists>ms. set ms \<subseteq> {CallMigration} \<and> inner = ms @ map CallAfter (hook_ids ?hs)" if "okR r"
    using l(3,4) that unfolding served_def by blast
  then show ?thesis
    using t(1,3,4,5) l(1) b served_calls [OF l(4)]
    by (rule_tac exI [of _ started], rule_tac exI [of _ bs], rule_tac exI [of _ entered], rule_tac exI [of _ fs],
        rule_tac exI [of _ inner], rule_tac exI [of _ finished]) auto
qed

section \<open>The two forms of execution agree\<close>

definition sync_hook :: "('v, 'w) hook \<Rightarrow> bool" where
  "sync_hook h \<longleftrightarrow>
     (\<forall>step data u r u'. hk_before h step data u = (Inr r, u') \<longrightarrow> (\<exists>v. r = Now v \<and> (\<forall>c. v = HookScope c \<longrightarrow> \<not> sc_async c)))
     \<and> (\<forall>step data m u r u'. hk_after h step data m u = (Inr r, u') \<longrightarrow> r = Now ())
     \<and> (\<forall>step data e u r u'. hk_on_error h step data e u = (Inr r, u') \<longrightarrow> r = Now ())"

definition sync_func :: "'w migration_func \<Rightarrow> bool" where
  "sync_func f \<longleftrightarrow> (\<forall>data c u r u'. f data c u = (Inr r, u') \<longrightarrow> (\<exists>v. r = Now v))"

lemma bindS_cong: "(\<And>a t t'. m t = (Inr a, t') \<Longrightarrow> f a t' = g a t') \<Longrightarrow> bindS m f = bindS m g"
  by (auto simp: bindS_def fun_eq_iff split: prod.splits sum.splits)

lemma mapS_results:
  assumes "mapS f xs s = (Inr ys, s')" "\<And>x s y s'. x \<in> set xs \<Longrightarrow> f x s = (Inr y, s') \<Longrightarrow> P y"
  shows "\<forall>y \<in> set ys. P y"
  using assms
proof (induction xs arbitrary: s ys)
  case (Cons x xs)
  from Cons.prems(1) obtain y s1 ys' where y: "f x s = (Inr y, s1)" "mapS f xs s1 = (Inr ys', s')" "ys = y # ys'"
    by (auto simp: bindS_Inr)
  have "P y" by (rule Cons.prems(2) [OF _ y(1)]) simp
  moreover have "\<forall>y \<in> set ys'. P y" by (rule Cons.IH [OF y(2)]) (use Cons.prems(2) in auto)
  ultimately show ?case using y(3) by simp
qed simp

lemma forS_cong: "(\<And>x. x \<in> set xs \<Longrightarrow> f x = g x) \<Longrightarrow> forS f xs = forS g xs"
  by (induction xs) auto

lemma outside_call_Inr: "outside_call c m s = (Inr r, s') \<Longrightarrow> \<exists>u. m (wd_user s) = (Inr r, u)"
  by (auto simp: outside_call_def split: prod.splits)

lemma sync_hookD:
  "sync_hook h \<Longrightarrow> outside_call c (hk_before h step data) s = (Inr r, s') \<Longrightarrow> \<exists>v. r = Now v \<and> (\<forall>c. v = HookScope c \<longrightarrow> \<not> sc_async c)"
  "sync_hook h \<Longrightarrow> outside_call c (hk_after h step data m) s = (Inr q, s') \<Longrightarrow> q = Now ()"
  "sync_hook h \<Longrightarrow> outside_call c (hk_on_error h step data e) s = (Inr q, s') \<Longrightarrow> q = Now ()"
  unfolding sync_hook_def by (drule outside_call_Inr, metis)+

lemma in_body_Inr: "in_body m t = (Inr a, t') \<Longrightarrow> \<exists>s s'. m s = (Inr a, s')"
  by (cases t) (auto simp: in_body_def split: prod.splits)

lemma before_agrees: "\<forall>b \<in> set hs. sync_hook (hb_hook b) \<Longrightarrow> before_async hs step data = step_before hs step data"
  unfolding before_async_def step_before_def
proof (rule bindS_cong)
  fix rs t t' assume h: "\<forall>b \<in> set hs. sync_hook (hb_hook b)" and b: "in_body (call_before hs step data) t = (Inr rs, t')"
  from in_body_Inr [OF b] obtain s s' where m: "call_before hs step data s = (Inr rs, s')" by metis
  have "\<forall>r \<in> set rs. \<exists>v. r = Now v \<and> (\<forall>c. v = HookScope c \<longrightarrow> \<not> sc_async c)"
    by (rule mapS_results [OF m [unfolded call_before_def]]) (use h in \<open>auto dest: sync_hookD\<close>)
  then have "forS enter_result_async rs = forS enter_result rs"
    by (intro forS_cong) (auto simp: enter_result_async_def enter_result_def resolved_def fun_eq_iff bindS_def in_body_def split: hook_value.splits)
  then show "forS enter_result_async rs t' = forS enter_result rs t'" by simp
qed

lemma results_agree: "\<forall>r \<in> set rs. r = Now () \<Longrightarrow> forS resolved rs = check_results rs"
  unfolding check_results_def by (rule forS_cong) (auto simp: resolved_def fun_eq_iff)

lemma after_agrees: "\<forall>b \<in> set hs. sync_hook (hb_hook b) \<Longrightarrow> after_async hs step data m = step_after hs step data m"
  unfolding after_async_def step_after_def
proof (rule bindS_cong)
  fix rs s s' assume h: "\<forall>b \<in> set hs. sync_hook (hb_hook b)" and m: "call_after hs step data m s = (Inr rs, s')"
  have "\<forall>r \<in> set rs. r = Now ()"
    by (rule mapS_results [OF m [unfolded call_after_def]]) (use h in \<open>auto dest: sync_hookD\<close>)
  then show "forS resolved rs s' = check_results rs s'" by (simp add: results_agree)
qed

lemma on_error_agrees: "\<forall>b \<in> set hs. sync_hook (hb_hook b) \<Longrightarrow> on_error_async hs step data e = step_on_error hs step data e"
  unfolding on_error_async_def step_on_error_def
proof (rule bindS_cong)
  fix rs s s' assume h: "\<forall>b \<in> set hs. sync_hook (hb_hook b)" and m: "call_on_error hs step data e s = (Inr rs, s')"
  have "\<forall>r \<in> set rs. r = Now ()"
    by (rule mapS_results [OF m [unfolded call_on_error_def]]) (use h in \<open>auto dest: sync_hookD\<close>)
  then show "forS resolved rs s' = check_results rs s'" by (simp add: results_agree)
qed

lemma invoke_agrees:
  "sync_func func \<Longrightarrow> async_invoke func data c = bindS (threaded_invoke func data c) (\<lambda>r. liftS (raise_on_awaitable r))"
  unfolding async_invoke_def threaded_invoke_def
proof (rule bindS_cong)
  fix r s s' assume "sync_func func" "outside_call CallMigration (func data c) s = (Inr r, s')"
  then obtain v where "r = Now v" unfolding sync_func_def by (drule_tac outside_call_Inr) metis
  then show "(case r of Now v \<Rightarrow> returnS v | Later m \<Rightarrow> await_user m) s' = liftS (raise_on_awaitable r) s'" by simp
qed

lemma bindS_lift [simp]: "bindS (liftS (Inr a)) f = f a" "bindS (liftS (Inl e)) f = raiseS e"
  by (simp_all add: fun_eq_iff bindS_def)

lemma list_at_cases:
  obtains "index < length xs" "list_at xs index = Inr (xs ! index)" | "\<not> index < length xs" "list_at xs index = Inl IndexError"
  by (cases "index < length xs") (auto simp: list_at_def)

lemma step_agrees:
  assumes "\<forall>b \<in> set (concat (ee_hooks entry)). sync_hook (hb_hook b)" "sync_func func"
  shows "run_async tel entry index data step (Some (async_invoke func data' c)) = run_sync tel entry index data step (Some (threaded_invoke func data' c))"
proof (cases rule: list_at_cases [of index "ee_hooks entry"])
  case 1
  let ?hs = "ee_hooks entry ! index"
  have h: "\<forall>b \<in> set ?hs. sync_hook (hb_hook b)" using assms(1) 1(1) by (metis concat_map_singleton in_set_conv_nth nth_mem set_concat UN_I)
  have "step_body_async ?hs step data (async_invoke func data' c) = step_body ?hs step data (threaded_invoke func data' c)"
    unfolding step_body_async_def step_body_def invoke_agrees [OF assms(2)]
    by (simp add: before_agrees [OF h] after_agrees [OF h] on_error_agrees [OF h, abs_def])
  then show ?thesis using 1 by (simp add: run_async_def run_sync_def)
qed (simp add: run_async_def run_sync_def)

text \<open>
  C15. Asynchronous execution agrees with synchronous execution: when no hook and no migration of an entry is
  asynchronous, executing the entry on the event loop has the same outcome, result or exception, and leaves
  the same world with the same trace of calls as executing it in the calling thread.
\<close>

theorem execute_async_agrees:
  assumes "\<forall>b \<in> set (concat (ee_hooks entry)). sync_hook (hb_hook b)" "\<forall>m \<in> set (ee_migrations entry). sync_func (mb_func m)"
  shows "execute_async show_v tel run vp async_invoke entry v = execute_sync show_v tel run vp threaded_invoke entry v"
proof -
  have "execute_step_async show_v tel entry run vp async_invoke = execute_step show_v tel entry run vp threaded_invoke"
  proof (intro ext)
    fix index current s
    show "execute_step_async show_v tel entry run vp async_invoke index current s = execute_step show_v tel entry run vp threaded_invoke index current s"
    proof (cases rule: list_at_cases [of index "ee_migrations entry"])
      case 1
      then have "sync_func (mb_func (ee_migrations entry ! index))" using assms(2) by simp
      from step_agrees [OF assms(1) this] show ?thesis
        using 1 by (simp add: execute_step_async_def execute_step_def migration_func_def)
    next
      case 2
      then obtain e where "mk_step_context show_v entry index run None = Inl e"
        by (cases "mk_step_context show_v entry index run None") (auto simp: mk_step_context_def step_name_def bindR_eq_Inr)
      then show ?thesis by (simp add: execute_step_async_def execute_step_def)
    qed
  qed
  then show ?thesis by (simp add: execute_async_def execute_sync_def)
qed

section \<open>A concrete step\<close>

definition sample_scope :: "nat scope" where
  "sample_scope = \<lparr>sc_id = 7, sc_async = False, sc_enter = returnS (), sc_exit = (\<lambda>_. returnS ())\<rparr>"

definition sample_hook :: "(nat, nat) hook" where
  "sample_hook = \<lparr>hk_id = 1, hk_module = ''m'', hk_qualname = ''H'', hk_provider_id = None, hk_entity_id = None, hk_config = None,
     hk_before = (\<lambda>_ _. returnS (Now (HookScope sample_scope))), hk_after = (\<lambda>_ _ _. returnS (Now ())),
     hk_on_error = (\<lambda>_ _ _. returnS (Now ()))\<rparr>"

definition sample_entry_run :: "nat migration_func \<Rightarrow> (nat, nat) execution_entry" where
  "sample_entry_run f = \<lparr>ee_plan = sample_entry [],
     ee_migrations = [\<lparr>mb_func = f, mb_descriptor = \<lparr>md_strategy = ''python'', md_identity = ''f''\<rparr>, mb_name = ''f''\<rparr>],
     ee_hooks = [[\<lparr>hb_hook = sample_hook, hb_ref = hook_ref_of sample_hook\<rparr>]]\<rparr>"

definition quiet :: "(nat, nat) telemetry_publisher" where
  "quiet = \<lparr>tp_adapters = [], tp_mode = ''all'', tp_sample_rate = 1, tp_fraction = (\<lambda>_. 0)\<rparr>"

definition sample_run :: run_context where
  "sample_run = \<lparr>rc_run_id = ''r'', rc_namespace = ''a'', rc_bindings = context_empty\<rparr>"

definition sample_dataset :: dataset_context where
  "sample_dataset = \<lparr>ds_namespace = ''a'', ds_kind = ''K'', ds_version = ''1'', ds_name = ''K'', ds_fields = []\<rparr>"

definition sample_step :: "nat step_context" where
  "sample_step = \<lparr>sx_run = sample_run, sx_path = [], sx_index = 0, sx_source = sample_model 1, sx_target = sample_model 2,
     sx_edge = EdgeId (NodeId ''a'' ''K'' 1) (NodeId ''a'' ''K'' 2) ''default'', sx_bindings = context_empty, sx_name = ''f'',
     sx_migration = None, sx_source_dataset = sample_dataset, sx_target_dataset = sample_dataset\<rparr>"

lemmas sample_step_simps = sample_entry_run_def sample_hook_def sample_scope_def quiet_def run_sync_def with_telemetry_def
  with_exit_stack_def step_body_def step_before_def step_on_error_def step_after_def call_before_def call_on_error_def call_after_def
  check_results_def enter_result_def enter_context_def in_body_def handle_failure_def migration_error_def is_exception_def
  outside_call_def bindS_def catchS_def emits_success_def emits_failure_def tp_enabled_def list_at_def

text \<open>A step whose migration raises: the hook sees the error and its scope is exited.\<close>

theorem step_lifecycle_witness:
  "\<exists>befores entered failing inner. [CallBefore 1, CallEnter 7, CallMigration, CallOnError 1, CallExit 7] =
     map CallBefore befores @ map CallEnter (entered @ failing) @ inner @ map CallExit (rev entered) \<and> length failing \<le> 1"
proof -
  let ?e = "sample_entry_run (\<lambda>_ _. raiseS UserError)"
  let ?i = "threaded_invoke (\<lambda>_ _. raiseS UserError) JNull context_empty"
  let ?s = "\<lparr>wd_user = 0, wd_trace = []\<rparr> :: nat world"
  have run: "run_sync quiet ?e 0 JNull sample_step (Some ?i) ?s =
      (Inl MigrationApplicationError, \<lparr>wd_user = 0, wd_trace = [CallBefore 1, CallEnter 7, CallMigration, CallOnError 1, CallExit 7]\<rparr>)"
    by (simp add: sample_step_simps threaded_invoke_def)
  have len: "0 < length (ee_hooks ?e)" by (simp add: sample_entry_run_def)
  let ?t = "[CallBefore 1, CallEnter 7, CallMigration, CallOnError 1, CallExit 7]"
  have c: "case Some ?i of None \<Rightarrow> True | Some m \<Rightarrow> calls {CallMigration} m" using invoke_calls(1) by simp
  obtain started befores entered failing inner finished where
    "wd_trace \<lparr>wd_user = 0 :: nat, wd_trace = ?t\<rparr> = wd_trace ?s @ started @ map CallBefore befores
      @ map CallEnter (entered @ failing) @ inner @ map CallExit (rev entered) @ finished"
    and f: "set started \<subseteq> {EmitStepStarted}" "set finished \<subseteq> {EmitStepFailed, EmitStepCompleted}" "length failing \<le> 1"
    using step_lifecycle [where ainvoke = None, OF len disjI1 [OF conjI [OF c run]]]
    by - (elim exE conjE, rule that; assumption)
  then have d: "?t = started @ map CallBefore befores @ map CallEnter (entered @ failing) @ inner @ map CallExit (rev entered) @ finished"
    by simp
  have "started = []" using d f(1) by (cases started) auto
  moreover have "finished = []"
  proof (rule ccontr)
    assume n: "finished \<noteq> []"
    then have "last ?t = last finished" unfolding d by simp
    then have "CallExit 7 \<in> set finished" using last_in_set [OF n] by simp
    then show False using f(2) by auto
  qed
  ultimately have "?t = map CallBefore befores @ map CallEnter (entered @ failing) @ inner @ map CallExit (rev entered)" using d by simp
  then show ?thesis using f(3) by blast
qed

theorem execute_async_agrees_witness:
  "execute_async (\<lambda>_. []) quiet sample_run ''version'' async_invoke (sample_entry_run (\<lambda>d _. returnS (Now d))) JNull =
   execute_sync (\<lambda>_. []) quiet sample_run ''version'' threaded_invoke (sample_entry_run (\<lambda>d _. returnS (Now d))) JNull"
  by (rule execute_async_agrees) (auto simp: sample_entry_run_def sample_hook_def sample_scope_def sync_hook_def sync_func_def)

end
