(* ===== verification/Plan_Cache.thy ===== *)
theory Plan_Cache
  imports Planning
begin

text \<open>
  The cache of path plans, from \<open>runtime/plan_cache.py\<close>: keys, and the bounded cache with least recently used
  eviction. An \<open>OrderedDict\<close> is an association list whose end is its most recent entry. The lock makes every
  operation atomic.
\<close>

section \<open>Keys\<close>

fun repr_tuple :: "string list \<Rightarrow> string" where
  "repr_tuple [] = ''()''"
| "repr_tuple [x] = ''('' @ x @ '',)''"
| "repr_tuple xs = ''('' @ join '', '' xs @ '')''"

text \<open>
  \<open>model_name\<close> is \<open>__module__ + "." + __qualname__\<close> of a model class and \<open>repr_of\<close> is \<open>repr\<close> of a target.
  A node is recognized by its attributes before callables are.
\<close>

record ('v, 'm) key_names =
  kn_model_name :: "'m \<Rightarrow> string"
  kn_repr :: "('v, 'm) target_policy \<Rightarrow> string"
  kn_show :: "'v \<Rightarrow> string"

fun target_key :: "('v, 'm) key_names \<Rightarrow> ('v, 'm) target_policy \<Rightarrow> string option" where
  "target_key kn (TModel m) = Some (''model:'' @ kn_model_name kn m)"
| "target_key kn (TDict ts) = Some (''dict:'' @ repr_tuple (map (\<lambda>(k, x). repr_tuple [repr_str k, repr_str x])
     (sort (map (\<lambda>(k, t). (k, case target_key kn t of None \<Rightarrow> kn_repr kn t | Some x \<Rightarrow> x)) ts))))"
| "target_key kn (TNode n) = Some (''node:'' @ nid_namespace (node_id_of n) @ '':'' @ nid_kind (node_id_of n) @ ''@'' @
     kn_show kn (nid_version (node_id_of n)))"
| "target_key kn (TCallable f) = None"
| "target_key kn TNone = Some (''repr:'' @ kn_repr kn TNone)"
| "target_key kn (TString s) = Some (''repr:'' @ kn_repr kn (TString s))"
| "target_key kn (TRange r) = Some (''repr:'' @ kn_repr kn (TRange r))"

record plan_key =
  pk_target :: string
  pk_source_model :: "string option"
  pk_entries :: "(path \<times> string) list"

definition key_from_entries :: "('v, 'm) key_names \<Rightarrow> ('v, 'm) target_policy \<Rightarrow> 'm option \<Rightarrow> 'v extracted_entry list \<Rightarrow> plan_key option" where
  "key_from_entries kn target source_model entries =
     (case target_key kn target of
        None \<Rightarrow> None
      | Some t \<Rightarrow> Some \<lparr>pk_target = t, pk_source_model = map_option (kn_model_name kn) source_model,
          pk_entries = map (\<lambda>x. (xe_path x, node_str (kn_show kn) (node_id_of (xe_node x)))) entries\<rparr>)"

section \<open>The cache\<close>

record ('k, 'p) lru_cache =
  lc_size :: int
  lc_entries :: "('k, 'p) dict"

definition mk_plan_cache :: "int \<Rightarrow> ('k, 'p) lru_cache res" where
  "mk_plan_cache n = (if n < -1 then Inl ValueError else Inr \<lparr>lc_size = n, lc_entries = []\<rparr>)"

definition cache_len :: "('k, 'p) lru_cache \<Rightarrow> nat" where
  "cache_len c = length (lc_entries c)"

definition move_to_end :: "'k \<Rightarrow> 'p \<Rightarrow> ('k, 'p) dict \<Rightarrow> ('k, 'p) dict" where
  "move_to_end k p d = AList.delete k d @ [(k, p)]"

definition cache_get :: "'k \<Rightarrow> ('k, 'p) lru_cache \<Rightarrow> 'p option \<times> ('k, 'p) lru_cache" where
  "cache_get k c =
     (if lc_size c = 0 then (None, c)
      else (case map_of (lc_entries c) k of
          None \<Rightarrow> (None, c)
        | Some p \<Rightarrow> (Some p, c\<lparr>lc_entries := move_to_end k p (lc_entries c)\<rparr>)))"

text \<open>\<open>while len(entries) > size: entries.popitem(last=False)\<close>.\<close>

fun evict :: "nat \<Rightarrow> 'a list \<Rightarrow> 'a list" where
  "evict n [] = []"
| "evict n (x # xs) = (if length (x # xs) > n then evict n xs else x # xs)"

definition cache_put :: "'k \<Rightarrow> 'p \<Rightarrow> ('k, 'p) lru_cache \<Rightarrow> ('k, 'p) lru_cache" where
  "cache_put k p c =
     (if lc_size c = 0 then c
      else (let es = move_to_end k p (AList.update k p (lc_entries c)) in
        c\<lparr>lc_entries := if lc_size c > 0 then evict (nat (lc_size c)) es else es\<rparr>))"

definition cache_clear :: "('k, 'p) lru_cache \<Rightarrow> ('k, 'p) lru_cache" where
  "cache_clear c = c\<lparr>lc_entries := []\<rparr>"

section \<open>Least recently used\<close>

text \<open>
  The specification remembers every key in order of its last use and the value last put for it; the cache
  holds the window of the keys used last.
\<close>

datatype ('k, 'p) cache_op = Get 'k | Put 'k 'p | Clear

record ('k, 'p) lru_spec =
  ls_recency :: "'k list"
  ls_values :: "'k \<rightharpoonup> 'p"

definition window :: "int \<Rightarrow> 'a list \<Rightarrow> 'a list" where
  "window n xs = (if n < 0 then xs else drop (length xs - nat n) xs)"

definition touch :: "'k \<Rightarrow> 'k list \<Rightarrow> 'k list" where
  "touch k ks = filter (\<lambda>x. x \<noteq> k) ks @ [k]"

fun spec_step :: "int \<Rightarrow> ('k, 'p) cache_op \<Rightarrow> ('k, 'p) lru_spec \<Rightarrow> 'p option \<times> ('k, 'p) lru_spec" where
  "spec_step n (Get k) s = (if k \<in> set (window n (ls_recency s)) then (ls_values s k, s\<lparr>ls_recency := touch k (ls_recency s)\<rparr>) else (None, s))"
| "spec_step n (Put k p) s = (None, \<lparr>ls_recency = touch k (ls_recency s), ls_values = (ls_values s)(k \<mapsto> p)\<rparr>)"
| "spec_step n Clear s = (None, \<lparr>ls_recency = [], ls_values = Map.empty\<rparr>)"

fun cache_step :: "('k, 'p) cache_op \<Rightarrow> ('k, 'p) lru_cache \<Rightarrow> 'p option \<times> ('k, 'p) lru_cache" where
  "cache_step (Get k) c = cache_get k c"
| "cache_step (Put k p) c = (None, cache_put k p c)"
| "cache_step Clear c = (None, cache_clear c)"

fun run_ops :: "('o \<Rightarrow> 's \<Rightarrow> 'r \<times> 's) \<Rightarrow> 'o list \<Rightarrow> 's \<Rightarrow> 'r list \<times> 's" where
  "run_ops f [] s = ([], s)"
| "run_ops f (x # xs) s = (case f x s of (r, s') \<Rightarrow> case run_ops f xs s' of (rs, s'') \<Rightarrow> (r # rs, s''))"

definition lru_abs :: "('k, 'p) lru_cache \<Rightarrow> ('k, 'p) lru_spec \<Rightarrow> bool" where
  "lru_abs c s \<longleftrightarrow> distinct (ls_recency s) \<and> set (ls_recency s) = dom (ls_values s)
     \<and> lc_entries c = map (\<lambda>k. (k, the (ls_values s k))) (window (lc_size c) (ls_recency s))"

lemma evict_drop: "evict n xs = drop (length xs - n) xs"
  by (induction xs) (auto simp: Suc_diff_le)

lemma window_append: "0 \<le> n \<Longrightarrow> nat n \<le> length ys \<Longrightarrow> window n (xs @ ys) = window n ys"
  by (simp add: window_def)

lemma window_split: "\<exists>xs. ks = xs @ window n ks"
  by (auto simp: window_def intro: append_take_drop_id [symmetric])

lemma window_length: "0 \<le> n \<Longrightarrow> length (window n ks) = min (nat n) (length ks)"
  by (auto simp: window_def)

lemma filter_other: "k \<notin> set xs \<Longrightarrow> filter (\<lambda>x. x \<noteq> k) xs = xs"
  by (auto simp: filter_id_conv)

lemma length_filter_one: "distinct xs \<Longrightarrow> k \<in> set xs \<Longrightarrow> Suc (length (filter (\<lambda>x. x \<noteq> k) xs)) = length xs"
  by (induction xs) (auto simp: filter_other)

text \<open>Using a key: in the window it moves to the end, otherwise it pushes the oldest key out.\<close>

lemma window_touch:
  assumes "distinct ks" "n \<noteq> 0"
  shows "window n (touch k ks) = (if n < 0 then touch k (window n ks) else evict (nat n) (touch k (window n ks)))"
proof (cases "n < 0")
  case False
  obtain xs where ks: "ks = xs @ window n ks" using window_split by blast
  let ?w = "window n ks"
  have d: "distinct (xs @ ?w)" using assms(1) ks by simp
  have t: "touch k ks = filter (\<lambda>x. x \<noteq> k) xs @ touch k ?w" by (subst ks) (simp add: touch_def)
  have len: "length ?w = nat n \<or> xs = []"
  proof -
    have "length ?w = min (nat n) (length ks)" using False by (simp add: window_length)
    moreover have "length ks = length xs + length ?w" by (metis ks length_append)
    ultimately show ?thesis by (cases "xs = []") (auto simp: min_def split: if_splits)
  qed
  have "length (touch k ?w) \<ge> length ?w"
    using d length_filter_one [of ?w k] by (cases "k \<in> set ?w") (simp_all add: touch_def filter_other)
  then have "window n (touch k ks) = window n (touch k ?w)"
    using len False t by (auto simp: window_append)
  then show ?thesis using False by (simp add: window_def evict_drop)
qed (simp add: window_def)

lemma lru_delete: "AList.delete k (map (\<lambda>k. (k, f k)) ks) = map (\<lambda>k. (k, f k)) (filter (\<lambda>x. x \<noteq> k) ks)"
  by (induction ks) (auto simp: AList.delete_eq)

lemma evict_map: "evict n (map f xs) = map f (evict n xs)"
  by (simp add: evict_drop drop_map)

lemma lru_lookup: "map_of (map (\<lambda>k. (k, f k)) ks) k = (if k \<in> set ks then Some (f k) else None)"
  by (induction ks) auto

lemma window_subset: "set (window n ks) \<subseteq> set ks"
  by (auto simp: window_def dest: in_set_dropD)

lemma touch_facts:
  "set (touch k ks) = insert k (set ks)" "distinct ks \<Longrightarrow> distinct (touch k ks)"
  by (auto simp: touch_def)

lemma lru_touch:
  assumes "distinct ks" "n \<noteq> 0" "\<And>x. x \<noteq> k \<Longrightarrow> g x = f x"
  shows "map (\<lambda>x. (x, g x)) (window n (touch k ks)) =
    (let es = map (\<lambda>x. (x, f x)) (filter (\<lambda>x. x \<noteq> k) (window n ks)) @ [(k, g k)] in if n > 0 then evict (nat n) es else es)"
proof -
  have e: "map (\<lambda>x. (x, f x)) (filter (\<lambda>x. x \<noteq> k) (window n ks)) @ [(k, g k)] = map (\<lambda>x. (x, g x)) (touch k (window n ks))"
    using assms(3) by (auto simp: touch_def)
  show ?thesis unfolding window_touch [OF assms(1,2)] e Let_def using assms(2) by (auto simp: evict_map)
qed

lemma lru_abs_step:
  assumes "lru_abs c s"
  shows "fst (cache_step x c) = fst (spec_step (lc_size c) x s) \<and> lru_abs (snd (cache_step x c)) (snd (spec_step (lc_size c) x s))
    \<and> lc_size (snd (cache_step x c)) = lc_size c"
proof -
  let ?n = "lc_size c" and ?v = "\<lambda>k. the (ls_values s k)"
  have a: "distinct (ls_recency s)" "set (ls_recency s) = dom (ls_values s)"
    "lc_entries c = map (\<lambda>k. (k, ?v k)) (window ?n (ls_recency s))" using assms by (auto simp: lru_abs_def)
  have zero: "window 0 ks = []" for ks :: "'a list" by (simp add: window_def)
  show ?thesis
  proof (cases x)
    case (Get k)
    show ?thesis
    proof (cases "k \<in> set (window ?n (ls_recency s))")
      case True
      then have n: "?n \<noteq> 0" using zero by auto
      obtain p where p: "ls_values s k = Some p" using True window_subset a(2) by fastforce
      have "move_to_end k p (lc_entries c) = map (\<lambda>x. (x, ?v x)) (window ?n (touch k (ls_recency s)))"
      proof -
        let ?w = "window ?n (ls_recency s)"
        have "length (touch k ?w) = length ?w" using a(1) True length_filter_one [of ?w k] by (simp add: touch_def window_def)
        moreover have "?n > 0 \<Longrightarrow> length ?w \<le> nat ?n" by (simp add: window_length)
        ultimately have "?n > 0 \<Longrightarrow> evict (nat ?n) (touch k ?w) = touch k ?w" by (simp add: evict_drop)
        then have "window ?n (touch k (ls_recency s)) = touch k ?w" using window_touch [OF a(1) n] n by (cases "?n < 0") auto
        then show ?thesis using p by (simp add: move_to_end_def a(3) lru_delete touch_def)
      qed
      moreover have "map_of (lc_entries c) k = Some p" using p True by (simp add: a(3) lru_lookup)
      moreover have "distinct (touch k (ls_recency s))" "set (touch k (ls_recency s)) = dom (ls_values s)"
        using p a(1,2) by (auto simp: touch_facts)
      ultimately show ?thesis using Get True n p by (simp add: cache_get_def lru_abs_def)
    next
      case False
      then show ?thesis using Get assms a(3) by (simp add: cache_get_def lru_lookup)
    qed
  next
    case (Put k p)
    show ?thesis
    proof (cases "?n = 0")
      case True
      then show ?thesis using Put a by (auto simp: cache_put_def lru_abs_def zero touch_facts)
    next
      case False
      have "move_to_end k p (AList.update k p (lc_entries c)) = map (\<lambda>x. (x, ?v x)) (filter (\<lambda>x. x \<noteq> k) (window ?n (ls_recency s))) @ [(k, p)]"
        by (simp add: move_to_end_def a(3) lru_delete delete_update_same)
      then show ?thesis
        using Put False a lru_touch [OF a(1) False, of k "\<lambda>x. the (((ls_values s)(k \<mapsto> p)) x)" ?v]
        by (auto simp: cache_put_def lru_abs_def Let_def touch_facts)
    qed
  next
    case Clear
    then show ?thesis by (auto simp: cache_clear_def lru_abs_def window_def)
  qed
qed

lemma lru_run:
  assumes "lru_abs c s"
  shows "fst (run_ops cache_step xs c) = fst (run_ops (spec_step (lc_size c)) xs s)
    \<and> lru_abs (snd (run_ops cache_step xs c)) (snd (run_ops (spec_step (lc_size c)) xs s))
    \<and> lc_size (snd (run_ops cache_step xs c)) = lc_size c"
  using assms
proof (induction xs arbitrary: c s)
  case (Cons x xs)
  note st = lru_abs_step [OF Cons.prems, of x]
  from Cons.IH [of "snd (cache_step x c)" "snd (spec_step (lc_size c) x s)"] st show ?case by (auto split: prod.splits)
qed simp

text \<open>
  The plan cache is a least recently used cache: for every sequence of gets, puts and clears it answers as
  the specification that remembers all values and the order of last use, seen through a window of the
  configured size; it never holds more than that many plans, none when the size is zero and all when it is
  \<open>-1\<close>.
\<close>

theorem plan_cache_lru:
  assumes "mk_plan_cache n = Inr c"
  shows "fst (run_ops cache_step xs c) = fst (run_ops (spec_step n) xs \<lparr>ls_recency = [], ls_values = Map.empty\<rparr>)
    \<and> map fst (lc_entries (snd (run_ops cache_step xs c)))
        = window n (ls_recency (snd (run_ops (spec_step n) xs \<lparr>ls_recency = [], ls_values = Map.empty\<rparr>)))
    \<and> (0 \<le> n \<longrightarrow> int (cache_len (snd (run_ops cache_step xs c))) \<le> n)"
proof -
  have c: "c = \<lparr>lc_size = n, lc_entries = []\<rparr>" using assms by (auto simp: mk_plan_cache_def split: if_splits)
  have "lru_abs c \<lparr>ls_recency = [], ls_values = Map.empty\<rparr>" by (simp add: lru_abs_def c window_def)
  from lru_run [OF this, of xs] show ?thesis
    by (auto simp: c lru_abs_def cache_len_def comp_def window_length)
qed

theorem plan_cache_lru_witness:
  "\<exists>c. mk_plan_cache 2 = Inr c
     \<and> map fst (lc_entries (snd (run_ops cache_step [Put ''a'' (1 :: nat), Put ''b'' 2, Get ''a'', Put ''c'' 3] c))) = [''a'', ''c'']"
proof -
  have c: "mk_plan_cache 2 = Inr \<lparr>lc_size = 2, lc_entries = []\<rparr>" by (simp add: mk_plan_cache_def)
  from plan_cache_lru [OF c, of "[Put ''a'' (1 :: nat), Put ''b'' 2, Get ''a'', Put ''c'' 3]"] c show ?thesis
    by (auto simp: window_def touch_def)
qed

end
