(* ===== verification/Execution.thy ===== *)
theory Execution
  imports Steps Plan_Cache
begin

text \<open>
  From a payload to its migrated form: the planner that binds a path plan (\<open>runtime/planner.py\<close>), the
  coordinator with its plan cache (\<open>runtime/coordinator.py\<close>), the execution backends
  (\<open>runtime/backends\<close>) and the plan record of \<open>runtime/plan.py\<close>.
\<close>

section \<open>Binding a plan\<close>

record ('v, 'm, 'w) execution_plan =
  ep_path :: "('v, 'm) path_plan"
  ep_payload :: json
  ep_levels :: "('v, 'w) execution_entry list list"

definition bind_entry :: "('v, 'w) migration_bindings \<Rightarrow> 'v plan_entry \<Rightarrow> ('v, 'w) execution_entry res" where
  "bind_entry b e = bindR (mapR (\<lambda>i. bound_migration i b) (pe_edges e)) (\<lambda>ms.
     Inr \<lparr>ee_plan = e, ee_migrations = ms, ee_hooks = map (\<lambda>i. bound_hooks i b) (pe_edges e)\<rparr>)"

text \<open>The bound entries are found again by object identity, which is the position in the plan.\<close>

definition build_plan :: "('v, 'w) migration_bindings \<Rightarrow> ('v, 'm) path_plan \<Rightarrow> json \<Rightarrow> ('v, 'm, 'w) execution_plan res" where
  "build_plan b plan payload = bindR (mapR (bind_entry b) (pp_entries plan)) (\<lambda>bound.
     Inr \<lparr>ep_path = plan, ep_payload = payload,
          ep_levels = map (map (\<lambda>(i, _). bound ! i)) (level_loop (enumerate 0 (pp_entries plan)))\<rparr>)"

definition entry_value :: "json \<Rightarrow> ('v, 'w) execution_entry \<Rightarrow> json res" where
  "entry_value payload entry = path_get (pe_path (ee_plan entry)) payload"

section \<open>The coordinator\<close>

record ('v, 'm, 'w) coordinator =
  co_extractor :: "json \<Rightarrow> 'm option \<Rightarrow> int \<Rightarrow> 'v entry list res"
  co_finder :: "('v, 'm) path_finder"
  co_bindings :: "('v, 'w) migration_bindings"
  co_names :: "('v, 'm) key_names"

record ('v, 'm) coordinator_state =
  cs_paths :: "'v path_cache"
  cs_plans :: "(plan_key, ('v, 'm) path_plan) lru_cache"

definition coordinator_extract :: "('v, 'm, 'w) coordinator \<Rightarrow> json \<Rightarrow> 'm option \<Rightarrow> int \<Rightarrow> 'v extracted_entry list res" where
  "coordinator_extract co payload source_model max_depth =
     bindR (co_extractor co payload source_model max_depth) (\<lambda>es. Inr (map (\<lambda>(p, _, n). \<lparr>xe_path = p, xe_node = n\<rparr>) es))"

definition find_plan :: "('v::linorder, 'm, 'w) coordinator \<Rightarrow> 'v extracted_entry list \<Rightarrow> ('v, 'm) target_policy \<Rightarrow> 'm option
    \<Rightarrow> (('v, 'm) coordinator_state, ('v, 'm) path_plan) op" where
  "find_plan co xs target source_model s = (case find (co_finder co) xs target source_model (cs_paths s) of
     (r, paths) \<Rightarrow> (r, s\<lparr>cs_paths := paths\<rparr>))"

definition cached_find :: "('v::linorder, 'm, 'w) coordinator \<Rightarrow> 'v extracted_entry list \<Rightarrow> ('v, 'm) target_policy \<Rightarrow> 'm option
    \<Rightarrow> (('v, 'm) coordinator_state, ('v, 'm) path_plan) op" where
  "cached_find co xs target source_model s =
     (case key_from_entries (co_names co) target source_model xs of
        None \<Rightarrow> find_plan co xs target source_model s
      | Some key \<Rightarrow> (case cache_get key (cs_plans s) of
          (Some plan, c) \<Rightarrow> (Inr plan, s\<lparr>cs_plans := c\<rparr>)
        | (None, c) \<Rightarrow> bindS (find_plan co xs target source_model)
            (\<lambda>plan s. (Inr plan, s\<lparr>cs_plans := cache_put key plan (cs_plans s)\<rparr>)) (s\<lparr>cs_plans := c\<rparr>)))"

definition coordinator_plan :: "('v::linorder, 'm, 'w) coordinator \<Rightarrow> json \<Rightarrow> ('v, 'm) target_policy \<Rightarrow> 'm option \<Rightarrow> int
    \<Rightarrow> (('v, 'm) coordinator_state, ('v, 'm, 'w) execution_plan) op" where
  "coordinator_plan co payload target source_model max_depth =
     bindS (liftS (coordinator_extract co payload source_model max_depth)) (\<lambda>xs.
     bindS (cached_find co xs target source_model) (\<lambda>plan. liftS (build_plan (co_bindings co) plan payload)))"

section \<open>Backends\<close>

text \<open>What one run needs beside the plan: the text of versions, telemetry, the run and the version property.\<close>

record ('v, 'w) execution_setup =
  xs_show :: "'v \<Rightarrow> string"
  xs_telemetry :: "('v, 'w) telemetry_publisher"
  xs_run :: run_context
  xs_version_property :: string
  xs_fresh_hook_state :: "'w \<Rightarrow> 'w"

fun run_levels :: "('e \<Rightarrow> json \<Rightarrow> ('s, entry_result) op) \<Rightarrow> 'e list list \<Rightarrow> json \<Rightarrow> ('s, json) op" where
  "run_levels f [] data = returnS data"
| "run_levels f (l # ls) data = bindS (mapS (\<lambda>e. f e data) l) (\<lambda>results.
     bindS (liftS (apply_results results data)) (run_levels f ls))"

text \<open>\<open>new_hook_state()\<close> gives the hooks of this execution a state of their own.\<close>

definition start_hooks :: "('v, 'w) execution_setup \<Rightarrow> ('w world, unit) op" where
  "start_hooks xs s = (Inr (), s\<lparr>wd_user := xs_fresh_hook_state xs (wd_user s)\<rparr>)"

definition run_entry :: "('v, 'w) execution_setup \<Rightarrow> ('w migration_func \<Rightarrow> json \<Rightarrow> pyval bindings \<Rightarrow> ('w world, ('w, json) maybe_async) op)
    \<Rightarrow> ('v, 'w) execution_entry \<Rightarrow> json \<Rightarrow> ('w world, entry_result) op" where
  "run_entry xs invoke entry data = bindS (liftS (entry_value data entry))
     (execute_sync (xs_show xs) (xs_telemetry xs) (xs_run xs) (xs_version_property xs) invoke entry)"

text \<open>The threaded backend with at most one worker, and the process backend, which is always sequential.\<close>

definition threaded_execute :: "('v, 'w) execution_setup \<Rightarrow> ('v, 'm, 'w) execution_plan \<Rightarrow> json \<Rightarrow> ('w world, json) op" where
  "threaded_execute xs plan payload = bindS (start_hooks xs) (\<lambda>_. run_levels (run_entry xs threaded_invoke) (ep_levels plan) payload)"

definition process_execute :: "('w migration_func \<Rightarrow> 'w migration_func) \<Rightarrow> ('v, 'w) execution_setup \<Rightarrow> ('v, 'm, 'w) execution_plan \<Rightarrow> json
    \<Rightarrow> ('w world, json) op" where
  "process_execute submit xs plan payload =
     bindS (start_hooks xs) (\<lambda>_. run_levels (run_entry xs (process_invoke submit)) (ep_levels plan) payload)"

definition run_entry_async :: "('v, 'w) execution_setup \<Rightarrow> ('v, 'w) execution_entry \<Rightarrow> json \<Rightarrow> ('w world, entry_result) op" where
  "run_entry_async xs entry data = bindS (liftS (entry_value data entry))
     (execute_async (xs_show xs) (xs_telemetry xs) (xs_run xs) (xs_version_property xs) async_invoke entry)"

text \<open>The asynchronous backend with at most one worker.\<close>

definition async_execute :: "('v, 'w) execution_setup \<Rightarrow> ('v, 'm, 'w) execution_plan \<Rightarrow> json \<Rightarrow> ('w world, json) op" where
  "async_execute xs plan payload = bindS (start_hooks xs) (\<lambda>_. run_levels (run_entry_async xs) (ep_levels plan) payload)"

section \<open>The cache of the coordinator\<close>

text \<open>
  The interface of a cache as its users see it: it answers with what it holds, a get adds nothing, and a put
  adds at most its own entry. Both caches of planning have it.
\<close>

locale memo =
  fixes invar :: "'c \<Rightarrow> bool"
    and holds :: "'c \<Rightarrow> 'k \<Rightarrow> 'p option"
    and get :: "'k \<Rightarrow> 'c \<Rightarrow> 'p option \<times> 'c"
    and put :: "'k \<Rightarrow> 'p \<Rightarrow> 'c \<Rightarrow> 'c"
  assumes get_held: "invar c \<Longrightarrow> fst (get k c) = Some p \<Longrightarrow> holds c k = Some p"
    and get_adds_nothing: "invar c \<Longrightarrow> holds (snd (get k c)) k' = Some p \<Longrightarrow> holds c k' = Some p"
    and put_adds_own: "invar c \<Longrightarrow> holds (put k p c) k' = Some q \<Longrightarrow> k' = k \<and> q = p \<or> holds c k' = Some q"
    and get_invar: "invar c \<Longrightarrow> invar (snd (get k c))"
    and put_invar: "invar c \<Longrightarrow> invar (put k p c)"
begin

lemma get_sound:
  assumes "invar c" "\<forall>k p. holds c k = Some p \<longrightarrow> P k p" "get k c = (r, c')"
  shows "\<forall>p. r = Some p \<longrightarrow> P k p" and "\<forall>k p. holds c' k = Some p \<longrightarrow> P k p" and "invar c'"
  using assms get_held [of c k] get_adds_nothing [of c k] get_invar [of c k] by auto

lemma put_sound:
  assumes "invar c" "\<forall>k p. holds c k = Some p \<longrightarrow> P k p" "P k p"
  shows "\<forall>k' q. holds (put k p c) k' = Some q \<longrightarrow> P k' q" and "invar (put k p c)"
  using assms put_adds_own put_invar by blast+

end

lemma map_of_move_to_end: "map_of (move_to_end k p d) k' = (if k' = k then Some p else map_of d k')"
  by (auto simp: move_to_end_def delete_conv' map_add_def split: option.splits)

lemma map_of_evict: "map_of (evict n d) k = Some p \<Longrightarrow> dict_ok d \<Longrightarrow> map_of d k = Some p"
  unfolding evict_drop by (metis dict_ok_map_of in_set_dropD map_of_SomeD)

lemma move_to_end_ok: "dict_ok d \<Longrightarrow> dict_ok (move_to_end k p d)"
  by (auto simp: move_to_end_def dict_ok_def delete_keys distinct_removeAll)

definition cache_invar :: "('k, 'p) lru_cache \<Rightarrow> bool" where
  "cache_invar c \<longleftrightarrow> dict_ok (lc_entries c)"

lemma evict_ok: "dict_ok d \<Longrightarrow> dict_ok (evict n d)"
  unfolding evict_drop dict_ok_def by (simp add: drop_map [symmetric])

interpretation plan_memo: memo cache_invar "\<lambda>c k. map_of (lc_entries c) k" cache_get cache_put
proof unfold_locales
  fix c :: "('k, 'p) lru_cache" and k k' p q assume c: "cache_invar c"
  then have d: "dict_ok (lc_entries c)" by (simp add: cache_invar_def)
  show "fst (cache_get k c) = Some p \<Longrightarrow> map_of (lc_entries c) k = Some p"
    and "map_of (lc_entries (snd (cache_get k c))) k' = Some p \<Longrightarrow> map_of (lc_entries c) k' = Some p"
    by (auto simp: cache_get_def map_of_move_to_end split: option.splits if_splits)
  have m: "dict_ok (move_to_end k p (AList.update k p (lc_entries c)))" by (simp add: move_to_end_ok dict_ok_update d)
  show "map_of (lc_entries (cache_put k p c)) k' = Some q \<Longrightarrow> k' = k \<and> q = p \<or> map_of (lc_entries c) k' = Some q"
    by (auto simp: cache_put_def Let_def map_of_move_to_end update_conv' dest!: map_of_evict [OF _ m] split: if_splits)
  show "cache_invar (snd (cache_get k c))" using d by (auto simp: cache_get_def cache_invar_def move_to_end_ok split: option.splits)
  show "cache_invar (cache_put k p c)" using d m by (auto simp: cache_put_def cache_invar_def Let_def evict_ok)
qed

text \<open>
  What the cache relies on: over the targets \<open>T\<close> the keys tell targets apart, names tell models apart, and the
  text of a node tells the models of the graph apart.
\<close>

definition graph_models :: "'v migration_graph \<Rightarrow> 'v node set" where
  "graph_models g = {n. \<exists>i. mg_find_model i g = Some n}"

definition keys_separate :: "('v, 'm, 'w) coordinator \<Rightarrow> ('v, 'm) target_policy set \<Rightarrow> bool" where
  "keys_separate co T \<longleftrightarrow> inj_on (target_key (co_names co)) (T - {t. target_key (co_names co) t = None})
     \<and> inj (kn_model_name (co_names co))
     \<and> inj_on (\<lambda>n. node_str (kn_show (co_names co)) (node_id_of n)) (graph_models (pf_graph (co_finder co)))"

definition graph_entries :: "('v, 'm, 'w) coordinator \<Rightarrow> 'v extracted_entry list \<Rightarrow> bool" where
  "graph_entries co xs \<longleftrightarrow> (\<forall>x \<in> set xs. xe_node x \<in> graph_models (pf_graph (co_finder co)))"

definition plan_cached :: "('v::linorder, 'm, 'w) coordinator \<Rightarrow> ('v, 'm) target_policy set \<Rightarrow> plan_key \<Rightarrow> ('v, 'm) path_plan \<Rightarrow> bool" where
  "plan_cached co T k plan \<longleftrightarrow> (\<forall>t \<in> T. \<forall>m xs. graph_entries co xs \<longrightarrow> key_from_entries (co_names co) t m xs = Some k
     \<longrightarrow> fst (find (co_finder co) xs t m []) = Inr plan)"

definition coordinator_ok :: "('v::linorder, 'm, 'w) coordinator \<Rightarrow> ('v, 'm) target_policy set \<Rightarrow> ('v, 'm) coordinator_state \<Rightarrow> bool" where
  "coordinator_ok co T s \<longleftrightarrow> cache_ok (co_finder co) (cs_paths s) \<and> cache_invar (cs_plans s)
     \<and> (\<forall>k p. map_of (lc_entries (cs_plans s)) k = Some p \<longrightarrow> plan_cached co T k p)"

lemma key_inj:
  assumes "keys_separate co T" "t \<in> T" "t' \<in> T" "graph_entries co xs" "graph_entries co xs'"
    and "key_from_entries (co_names co) t m xs = Some k" "key_from_entries (co_names co) t' m' xs' = Some k"
  shows "t = t' \<and> m = m' \<and> xs = xs'"
proof -
  let ?kn = "co_names co" and ?f = "\<lambda>x. (xe_path x, node_str (kn_show (co_names co)) (node_id_of (xe_node x)))"
  obtain a where a: "target_key ?kn t = Some a" "target_key ?kn t' = Some a"
    "map_option (kn_model_name ?kn) m = map_option (kn_model_name ?kn) m'" "map ?f xs = map ?f xs'"
    using assms(6,7) by (auto simp: key_from_entries_def split: option.splits)
  have "inj_on (target_key ?kn) (T - {t. target_key ?kn t = None})" using assms(1) by (simp add: keys_separate_def)
  then have "t = t'" by (rule inj_onD) (use assms(2,3) a(1,2) in auto)
  moreover have "m = m'" using a(3) assms(1) by (cases m; cases m') (auto simp: keys_separate_def dest: injD)
  moreover have "xs = xs'"
  proof (rule map_inj_on [OF a(4)])
    show "inj_on ?f (set xs \<union> set xs')"
    proof (rule inj_onI)
      fix x y :: "'a extracted_entry" assume "x \<in> set xs \<union> set xs'" "y \<in> set xs \<union> set xs'" "?f x = ?f y"
      then show "x = y" using assms(1,4,5) by (auto simp: keys_separate_def graph_entries_def inj_on_def intro: extracted_entry.equality)
    qed
  qed
  ultimately show ?thesis by blast
qed

lemma find_plan_ok:
  assumes "coordinator_ok co T s" "find_plan co xs t m s = (r, s')"
  shows "r = fst (find (co_finder co) xs t m []) \<and> coordinator_ok co T s' \<and> cs_plans s' = cs_plans s"
proof -
  obtain r0 c where f: "find (co_finder co) xs t m (cs_paths s) = (r0, c)" by (cases "find (co_finder co) xs t m (cs_paths s)")
  then have s': "r = r0" "s' = s\<lparr>cs_paths := c\<rparr>" using assms(2) by (auto simp: find_plan_def)
  have "cache_ok (co_finder co) (cs_paths s)" using assms(1) by (simp add: coordinator_ok_def)
  from find_fresh [OF this, of xs t m] f show ?thesis using assms(1) s' by (auto simp: coordinator_ok_def)
qed

lemma cached_find_ok:
  assumes "keys_separate co T" "coordinator_ok co T s" "t \<in> T" "graph_entries co xs" "cached_find co xs t m s = (r, s')"
  shows "r = fst (find (co_finder co) xs t m []) \<and> coordinator_ok co T s'"
proof (cases "key_from_entries (co_names co) t m xs")
  case None
  then show ?thesis using find_plan_ok [OF assms(2), of xs t m r s'] assms(5) by (simp add: cached_find_def)
next
  case key: (Some key)
  obtain hit c where g: "cache_get key (cs_plans s) = (hit, c)" by (cases "cache_get key (cs_plans s)")
  have ok: "cache_invar (cs_plans s)" "\<forall>k p. map_of (lc_entries (cs_plans s)) k = Some p \<longrightarrow> plan_cached co T k p"
    using assms(2) by (auto simp: coordinator_ok_def)
  note got = plan_memo.get_sound [OF ok g]
  have s1: "coordinator_ok co T (s\<lparr>cs_plans := c\<rparr>)" using got(2,3) assms(2) by (simp add: coordinator_ok_def)
  show ?thesis
  proof (cases hit)
    case (Some plan)
    then have "plan_cached co T key plan" using got(1) by simp
    then show ?thesis using assms(3-5) key g Some s1 by (auto simp: plan_cached_def cached_find_def)
  next
    case None
    obtain r0 s2 where f: "find_plan co xs t m (s\<lparr>cs_plans := c\<rparr>) = (r0, s2)" by (cases "find_plan co xs t m (s\<lparr>cs_plans := c\<rparr>)")
    note fp = find_plan_ok [OF s1 f]
    show ?thesis
    proof (cases r0)
      case (Inl e)
      then show ?thesis using assms(5) key g None f fp by (simp add: cached_find_def)
    next
      case (Inr plan)
      have "plan_cached co T key plan"
        unfolding plan_cached_def using key_inj [OF assms(1,3) _ assms(4) _ key] fp Inr by metis
      moreover have "cache_invar (cs_plans s2)" "\<forall>k p. map_of (lc_entries (cs_plans s2)) k = Some p \<longrightarrow> plan_cached co T k p"
        using fp by (auto simp: coordinator_ok_def)
      ultimately have "coordinator_ok co T (s2\<lparr>cs_plans := cache_put key plan (cs_plans s2)\<rparr>)"
        using plan_memo.put_sound [of "cs_plans s2" "plan_cached co T" key plan] fp by (simp add: coordinator_ok_def)
      moreover have "cached_find co xs t m s = (Inr plan, s2\<lparr>cs_plans := cache_put key plan (cs_plans s2)\<rparr>)"
        using key g None f Inr by (simp add: cached_find_def)
      ultimately show ?thesis using assms(5) fp Inr by simp
    qed
  qed
qed

text \<open>Planning with the caches, against planning from scratch.\<close>

definition fresh_state :: "('v, 'm) coordinator_state" where
  "fresh_state = \<lparr>cs_paths = [], cs_plans = \<lparr>lc_size = 0, lc_entries = []\<rparr>\<rparr>"

lemma fresh_state_ok: "coordinator_ok co T fresh_state"
  by (simp add: coordinator_ok_def fresh_state_def cache_invar_def)

lemma bindS_liftS_outcome:
  "m s = (r, s') \<Longrightarrow> fst (bindS m (\<lambda>a. liftS (f a)) s) = bindR r f \<and> snd (bindS m (\<lambda>a. liftS (f a)) s) = s'"
  by (cases r) simp_all

lemma coordinator_plan_from_scratch:
  assumes "keys_separate co T" "coordinator_ok co T s" "t \<in> T"
    and "\<And>xs. coordinator_extract co payload m depth = Inr xs \<Longrightarrow> graph_entries co xs"
  shows "fst (coordinator_plan co payload t m depth s) =
      bindR (coordinator_extract co payload m depth) (\<lambda>xs.
        bindR (fst (find (co_finder co) xs t m [])) (\<lambda>plan. build_plan (co_bindings co) plan payload))
    \<and> coordinator_ok co T (snd (coordinator_plan co payload t m depth s))"
proof (cases "coordinator_extract co payload m depth")
  case (Inl e)
  then show ?thesis using assms(2) by (simp add: coordinator_plan_def)
next
  case (Inr xs)
  note g = assms(4) [OF Inr]
  obtain r s' where r: "cached_find co xs t m s = (r, s')" by (cases "cached_find co xs t m s")
  from cached_find_ok [OF assms(1-3) g r] bindS_liftS_outcome [where m = "cached_find co xs t m" and s = s and f = "\<lambda>plan. build_plan (co_bindings co) plan payload", OF r] show ?thesis
    using Inr by (simp add: coordinator_plan_def)
qed

lemma walk_match_model: "walk_match w v kp vp = Some n \<Longrightarrow> n \<in> graph_models (pw_graph w) \<and> (\<exists>d. v = JObj d)"
  by (auto simp: walk_match_def graph_models_def mg_get_model_def split: json.splits option.splits sum.splits if_splits)

lemma found_models: "(q, c, n) \<in> set (found w v) \<Longrightarrow> n \<in> graph_models (pw_graph w)"
proof (induction q arbitrary: v c)
  case Nil
  then show ?case by (auto simp: found_Nil dest: walk_match_model)
next
  case (Cons s q)
  then show ?case by (cases v) (auto simp: found_Cons)
qed

lemma guided_models: "walk_guided w v p depth ctx = Inr es \<Longrightarrow> (q, k, n) \<in> set es \<Longrightarrow> n \<in> graph_models (pw_graph w)"
proof (induction w v p depth ctx arbitrary: es rule: walk_guided.induct)
  case (1 w v p depth ctx)
  have nest: "n \<in> graph_models (pw_graph w)"
    if "concatR (mapR f xs) = Inr es" "\<And>x ys. x \<in> set xs \<Longrightarrow> f x = Inr ys \<Longrightarrow> (q, k, n) \<in> set ys \<Longrightarrow> n \<in> graph_models (pw_graph w)" for f xs
  proof -
    from that(1) obtain yss where y: "list_all2 (\<lambda>x ys. f x = Inr ys) xs yss" "es = concat yss"
      by (auto simp: concatR_def bindR_eq_Inr mapR_eq_Inr)
    then obtain ys where "ys \<in> set yss" "(q, k, n) \<in> set ys" using "1.prems"(2) by auto
    then show ?thesis using list_all2_inD [OF y(1)] that(2) by blast
  qed
  have nd: "\<not> (0 \<le> wc_max_depth ctx \<and> wc_max_depth ctx < int depth)" using "1.prems"(1) [unfolded walk_guided.simps [of w v]] by auto
  show ?case
  proof (cases v)
    case (JObj d)
    show ?thesis
    proof (cases "walk_match w v (wc_kp ctx) (wc_vp ctx)")
      case None
      then have "concatR (mapR (\<lambda>(key, nested). walk_guided w nested (p @ [Key key]) (depth + 1)
              (ctx\<lparr>wc_parent_model := child_model w (own_model w p ctx) key\<rparr>)) d) = Inr es"
        using "1.prems"(1) [unfolded walk_guided.simps [of w v]] nd JObj by simp
      from nest [OF this] show ?thesis using "1.IH"(2) [OF nd JObj None] by (auto split: prod.splits)
    next
      case (Some m)
      then show ?thesis using "1.prems"(1) [unfolded walk_guided.simps [of w v]] "1.prems"(2) nd JObj walk_match_model [OF Some] by auto
    qed
  next
    case (JList xs)
    then have "concatR (mapR (\<lambda>(i, item). walk_guided w item (p @ [Idx (int i)]) (depth + 1)
            (ctx\<lparr>wc_parent_model := own_model w p ctx\<rparr>)) (enumerate 0 xs)) = Inr es"
      using "1.prems"(1) [unfolded walk_guided.simps [of w v]] nd by simp
    from nest [OF this] show ?thesis using "1.IH"(1) [OF nd JList] by (auto split: prod.splits)
  qed (use "1.prems"(1) [unfolded walk_guided.simps [of w v]] "1.prems"(2) nd in auto)
qed

lemma extracted_models:
  assumes "co_extractor co = walker_extract w" "pw_graph w = pf_graph (co_finder co)" "coordinator_extract co payload m depth = Inr xs"
  shows "graph_entries co xs"
proof -
  obtain es where e: "walker_extract w payload m depth = Inr es" "xs = map (\<lambda>(p, _, n). \<lparr>xe_path = p, xe_node = n\<rparr>) es"
    using assms(1,3) by (auto simp: coordinator_extract_def bindR_eq_Inr)
  have "n \<in> graph_models (pw_graph w)" if "(p, d, n) \<in> set es" for p d n
  proof (cases m)
    case None
    then show ?thesis using e(1) that found_models by (force simp: walker_extract_def walk_root split: if_splits)
  next
    case (Some a)
    then show ?thesis using e(1) that guided_models by (auto simp: walker_extract_def container_walk_def bindR_eq_Inr)
  qed
  then show ?thesis using assms(2) e(2) by (auto simp: graph_entries_def)
qed

text \<open>
  C12. The plan cache of the coordinator is transparent, as long as its keys tell apart what they stand for
  (\<open>keys_separate\<close>: no two targets in use have the same key unless both have none, no two models the same
  name, and no two versions of the graph the same text): planning in any state that earlier plannings left
  behind has the outcome, plan or exception, of planning with caching disabled, and leaves such a state
  behind, whatever the size of the cache and with or without source model. Keys do not always tell targets
  apart: a dictionary target with a callable is keyed by its \<open>repr\<close>.
\<close>

theorem coordinator_cache_transparent:
  assumes "co_extractor co = walker_extract w" "pw_graph w = pf_graph (co_finder co)"
    and "keys_separate co T" "coordinator_ok co T s" "t \<in> T"
  shows "fst (coordinator_plan co payload t m depth s) = fst (coordinator_plan co payload t m depth fresh_state)
    \<and> coordinator_ok co T (snd (coordinator_plan co payload t m depth s))"
proof -
  note x = extracted_models [OF assms(1,2), of payload m depth]
  from coordinator_plan_from_scratch [OF assms(3,4,5) x] coordinator_plan_from_scratch [OF assms(3) fresh_state_ok assms(5) x]
  show ?thesis by simp
qed

section \<open>Levels\<close>

lemma replace_get_above:
  "replace_at q r v = Inr v' \<Longrightarrow> is_descendant_of q p \<Longrightarrow> path_get p v = Inr (JObj d) \<Longrightarrow> \<exists>d'. path_get p v' = Inr (JObj d')"
proof (induction q r v arbitrary: v' p rule: replace_at.induct)
  case (2 s q r xs)
  then obtain t p' where p: "p = t # p'" "t = s" "is_descendant_of q p'" by (cases p) (auto simp: is_descendant_of_def)
  from "2.prems"(1) obtain i n x where i: "s = Idx i" "py_position (length xs) i = Some n" "replace_at q r (xs ! n) = Inr x"
    "v' = JList (xs[n := x])" by (auto simp: bindR_eq_Inr split: step.splits option.splits)
  have "path_get p' (xs ! n) = Inr (JObj d)" using "2.prems"(3) p i by simp
  from "2.IH" [OF i(1,2) i(3) p(3) this] show ?case using p i py_position_bound [OF i(2)] by simp
next
  case (3 s q r e)
  show ?case
  proof (cases p)
    case Nil
    then show ?thesis using "3.prems"(1) by (auto simp: bindR_eq_Inr split: step.splits option.splits)
  next
    case (Cons t p')
    then have p: "t = s" "is_descendant_of q p'" using "3.prems"(2) by (auto simp: is_descendant_of_def)
    from "3.prems"(1) obtain k w x where k: "s = Key k" "map_of e k = Some w" "replace_at q r w = Inr x"
      "v' = JObj (AList.update k x e)" by (auto simp: bindR_eq_Inr split: step.splits option.splits)
    have "path_get p' w = Inr (JObj d)" using "3.prems"(3) p k Cons by simp
    from "3.IH" [OF k(1,2) k(3) p(2) this] show ?thesis using p k Cons by (simp add: update_conv')
  qed
qed (auto simp: is_descendant_of_def split: step.splits if_splits)

text \<open>A path that keeps its dictionary while a level is applied, when no result goes above it.\<close>

lemma apply_results_dict:
  assumes "apply_results rs v = Inr v'" "path_get p v = Inr (JObj d)" "proper_path p"
    and "\<forall>q \<in> set (map fst rs). proper_path q \<and> (apart q p \<or> is_descendant_of q p)"
  shows "\<exists>d'. path_get p v' = Inr (JObj d')"
  using assms
proof (induction rs arbitrary: v d)
  case (Cons x rs)
  obtain q r where x: "x = (q, r)" by (cases x)
  obtain v1 where v1: "replace_at q r v = Inr v1" "apply_results rs v1 = Inr v'" using Cons.prems(1) x by (auto simp: bindR_eq_Inr)
  have "\<exists>d1. path_get p v1 = Inr (JObj d1)"
    using Cons.prems(2-4) x replace_get_apart [OF v1(1), of p] replace_get_above [OF v1(1), of p] by auto
  then show ?case using Cons.IH [OF v1(2)] Cons.prems(3,4) by auto
qed simp

text \<open>
  Levels of paths as the planner makes them: a level has no path twice and none through another, and no path
  of a level is above a path of a later one.
\<close>

fun levels_ok :: "path list list \<Rightarrow> bool" where
  "levels_ok [] = True"
| "levels_ok (l # ls) \<longleftrightarrow> pairwise apart (set l) \<and> distinct l \<and> (\<forall>p \<in> set l. proper_path p)
     \<and> (\<forall>p \<in> set l. \<forall>q \<in> set (concat ls). apart p q \<or> is_descendant_of p q) \<and> levels_ok ls"

lemma list_all2_inD1: "list_all2 P xs ys \<Longrightarrow> x \<in> set xs \<Longrightarrow> \<exists>y \<in> set ys. P x y"
  by (induction rule: list_all2_induct) auto

lemma mapS_outcome:
  assumes "\<And>x s. x \<in> set xs \<Longrightarrow> (\<exists>err s'. f x s = (Inl err, s') \<and> R err) \<or> (\<exists>y s'. f x s = (Inr y, s') \<and> P x y)"
  shows "(\<exists>err s'. mapS f xs s = (Inl err, s') \<and> R err) \<or> (\<exists>ys s'. mapS f xs s = (Inr ys, s') \<and> list_all2 P xs ys)"
  using assms
proof (induction xs arbitrary: s)
  case (Cons x xs)
  note IH = Cons.IH [OF Cons.prems [OF list.set_intros(2)]]
  show ?case
  proof (cases "f x s")
    case (Pair r s1)
    then show ?thesis using Cons.prems [of x s] IH [of s1] by (cases r) (auto simp: bindS_def)
  qed
qed simp

text \<open>
  Running the levels, when an entry that finds its dictionary either raises or gives a result for its own
  path: every entry does find its dictionary, so that the run raises only what an entry raises; otherwise an
  outermost entry's result stays in the payload, and what is apart from all entries is not touched.
\<close>

lemma run_levels_correct:
  fixes f :: "'e \<Rightarrow> json \<Rightarrow> ('s, entry_result) op" and pos :: "'e \<Rightarrow> path"
  assumes "levels_ok (map (map pos) ls)"
    and "\<forall>e \<in> set (concat ls). proper_path (pos e) \<and> (\<exists>d. path_get (pos e) v = Inr (JObj d))"
    and "\<forall>e \<in> set (concat ls). \<forall>v d s. path_get (pos e) v = Inr (JObj d) \<longrightarrow>
      (\<exists>err s'. f e v s = (Inl err, s') \<and> R err) \<or> (\<exists>w s'. f e v s = (Inr (pos e, w), s') \<and> Q e w)"
  shows "(\<exists>err s'. run_levels f ls v s = (Inl err, s') \<and> R err) \<or> (\<exists>v' s'. run_levels f ls v s = (Inr v', s')
    \<and> (\<forall>q. proper_path q \<longrightarrow> (\<forall>e \<in> set (concat ls). apart (pos e) q) \<longrightarrow> path_get q v' = path_get q v)
    \<and> (\<forall>e \<in> set (concat ls). (\<forall>e' \<in> set (concat ls). \<not> is_descendant_of (pos e) (pos e')) \<longrightarrow>
        (\<exists>w. path_get (pos e) v' = Inr w \<and> Q e w)))"
  using assms
proof (induction ls arbitrary: v s)
  case (Cons l ls)
  let ?P = "\<lambda>e y. \<exists>w. y = (pos e, w) \<and> Q e w"
  have level: "(\<exists>err s'. f e v t = (Inl err, s') \<and> R err) \<or> (\<exists>y s'. f e v t = (Inr y, s') \<and> ?P e y)" if e: "e \<in> set l" for e t
  proof -
    have c: "e \<in> set (concat (l # ls))" using e by simp
    obtain d where d: "path_get (pos e) v = Inr (JObj d)" using bspec [OF Cons.prems(2) c] by blast
    from bspec [OF Cons.prems(3) c, rule_format, OF d, of t] show ?thesis by auto
  qed
  have "(\<exists>err s'. mapS (\<lambda>e. f e v) l s = (Inl err, s') \<and> R err) \<or> (\<exists>ys s'. mapS (\<lambda>e. f e v) l s = (Inr ys, s') \<and> list_all2 ?P l ys)"
    by (rule mapS_outcome) (rule level)
  then show ?case
  proof (elim disjE exE conjE)
    fix err s1 assume err: "mapS (\<lambda>e. f e v) l s = (Inl err, s1)" "R err"
    then have "run_levels f (l # ls) v s = (Inl err, s1)" by simp
    with err(2) show ?thesis by (intro disjI1 exI conjI)
  next
    fix rs s1 assume rs: "mapS (\<lambda>e. f e v) l s = (Inr rs, s1)" "list_all2 ?P l rs"
    have fst_rs: "map fst rs = map pos l" using rs(2) by (induction rule: list_all2_induct) auto
    have lok: "pairwise apart (set (map pos l))" "distinct (map pos l)" "\<forall>p \<in> set (map pos l). proper_path p" "levels_ok (map (map pos) ls)"
      "\<forall>e \<in> set l. \<forall>e' \<in> set (concat ls). apart (pos e) (pos e') \<or> is_descendant_of (pos e) (pos e')"
      using Cons.prems(1) by auto
    obtain v1 where v1: "apply_results rs v = Inr v1" "\<forall>(p, r) \<in> set rs. path_get p v1 = Inr r"
      "\<forall>q. proper_path q \<and> (\<forall>p \<in> set (map pos l). apart p q) \<longrightarrow> path_get q v1 = path_get q v"
      using apply_results_ok [of rs v] lok fst_rs Cons.prems(2) by auto
    have run: "run_levels f (l # ls) v s = run_levels f ls v1 s1" using rs(1) v1(1) by simp
    have later: "\<forall>e \<in> set (concat ls). proper_path (pos e) \<and> (\<exists>d. path_get (pos e) v1 = Inr (JObj d))"
    proof
      fix e assume e: "e \<in> set (concat ls)"
      then have p: "proper_path (pos e)" "\<exists>d. path_get (pos e) v = Inr (JObj d)" using Cons.prems(2) by auto
      moreover have "\<forall>q \<in> set (map fst rs). proper_path q \<and> (apart q (pos e) \<or> is_descendant_of q (pos e))"
        using lok(3,5) e unfolding fst_rs by auto
      ultimately show "proper_path (pos e) \<and> (\<exists>d. path_get (pos e) v1 = Inr (JObj d))"
        using apply_results_dict [OF v1(1)] by blast
    qed
    have step: "\<forall>e \<in> set (concat ls). \<forall>v d s. path_get (pos e) v = Inr (JObj d) \<longrightarrow>
        (\<exists>err s'. f e v s = (Inl err, s') \<and> R err) \<or> (\<exists>w s'. f e v s = (Inr (pos e, w), s') \<and> Q e w)"
      using Cons.prems(3) by simp
    from Cons.IH [where s = s1, OF lok(4) later step] show ?thesis
    proof (elim disjE exE conjE)
      fix v' s' assume v': "run_levels f ls v1 s1 = (Inr v', s')"
        "\<forall>q. proper_path q \<longrightarrow> (\<forall>e \<in> set (concat ls). apart (pos e) q) \<longrightarrow> path_get q v' = path_get q v1"
        "\<forall>e \<in> set (concat ls). (\<forall>e' \<in> set (concat ls). \<not> is_descendant_of (pos e) (pos e')) \<longrightarrow>
            (\<exists>w. path_get (pos e) v' = Inr w \<and> Q e w)"
      have keep: "path_get q v' = path_get q v" if "proper_path q" "\<forall>e \<in> set (concat (l # ls)). apart (pos e) q" for q
        using spec [OF v1(3), of q] spec [OF v'(2), of q] that by auto
      have "\<exists>w. path_get (pos e) v' = Inr w \<and> Q e w"
        if e: "e \<in> set (concat (l # ls))" "\<forall>e' \<in> set (concat (l # ls)). \<not> is_descendant_of (pos e) (pos e')" for e
      proof (cases "e \<in> set (concat ls)")
        case True
        moreover have "\<forall>e' \<in> set (concat ls). \<not> is_descendant_of (pos e) (pos e')" using e(2) by simp
        ultimately show ?thesis using v'(3) by blast
      next
        case False
        then have l: "e \<in> set l" using e(1) by simp
        then obtain w where w: "(pos e, w) \<in> set rs" "Q e w" using list_all2_inD1 [OF rs(2)] by blast
        have "\<forall>e' \<in> set (concat ls). apart (pos e') (pos e)" using lok(5) l e(2) apart_sym by fastforce
        then have "path_get (pos e) v' = path_get (pos e) v1" using v'(2) lok(3) l by simp
        then show ?thesis using v1(2) w by auto
      qed
      moreover have "run_levels f (l # ls) v s = (Inr v', s')" using run v'(1) by simp
      ultimately show ?thesis using keep by blast
    next
      fix err s' assume err: "run_levels f ls v1 s1 = (Inl err, s')" "R err"
      then have "run_levels f (l # ls) v s = (Inl err, s')" using run by simp
      with err(2) show ?thesis by (intro disjI1 exI conjI)
    qed
  qed
qed simp

lemma levels_ok_iff:
  "levels_ok ls \<longleftrightarrow> (\<forall>l \<in> set ls. pairwise apart (set l) \<and> distinct l \<and> (\<forall>p \<in> set l. proper_path p))
     \<and> sorted_wrt (\<lambda>l l'. \<forall>p \<in> set l. \<forall>q \<in> set l'. apart p q \<or> is_descendant_of p q) ls"
proof (induction ls)
  case (Cons l ls)
  have "(\<forall>p \<in> set l. \<forall>q \<in> set (concat ls). apart p q \<or> is_descendant_of p q) \<longleftrightarrow>
    (\<forall>l' \<in> set ls. \<forall>p \<in> set l. \<forall>q \<in> set l'. apart p q \<or> is_descendant_of p q)" by auto
  then show ?case using Cons.IH by (simp only: levels_ok.simps sorted_wrt.simps list.set ball_simps) blast
qed simp

lemma plan_levels_ok:
  assumes "distinct (map pe_path es)" "\<forall>e \<in> set es. proper_path (pe_path e)"
  shows "levels_ok (map (map pe_path) (plan_levels es))"
  unfolding levels_ok_iff
proof
  let ?L = "plan_levels es"
  have m: "mset (concat ?L) = mset es" by (rule plan_levels_partition)
  have sub: "\<And>l e. l \<in> set ?L \<Longrightarrow> e \<in> set l \<Longrightarrow> e \<in> set es" using mset_eq_setD [OF m] by auto
  show "\<forall>l \<in> set (map (map pe_path) ?L). pairwise apart (set l) \<and> distinct l \<and> (\<forall>p \<in> set l. proper_path p)"
    using plan_levels_apart [OF assms(1)] assms(2) sub by auto
  have d: "distinct (concat (map (map pe_path) ?L))"
    using assms(1) m by (metis map_concat mset_eq_imp_distinct_iff mset_map)
  have disj: "pe_path x \<noteq> pe_path y" if "a < length ?L" "b < length ?L" "a \<noteq> b" "x \<in> set (?L ! a)" "y \<in> set (?L ! b)" for a b x y
  proof -
    let ?M = "map (map pe_path) ?L"
    have n: "distinct (removeAll [] ?M)" "\<forall>xs ys. {xs, ys} \<subseteq> set ?M \<and> xs \<noteq> ys \<longrightarrow> set xs \<inter> set ys = {}"
      using d unfolding distinct_concat_iff by auto
    have "?M ! a \<noteq> ?M ! b"
    proof
      assume e: "?M ! a = ?M ! b"
      have "[] \<notin> set ?M" using level_loop_nonempty by (fastforce simp: plan_levels_def)
      then have "distinct ?M" using n(1) by (simp add: removeAll_id)
      then show False using e that(1-3) by (metis length_map nth_eq_iff_index_eq)
    qed
    then have "set (?M ! a) \<inter> set (?M ! b) = {}" using n(2) that(1,2) by (metis insert_subset empty_subsetI length_map nth_mem)
    then show ?thesis using that by auto
  qed
  have "apart (pe_path x) (pe_path y) \<or> is_descendant_of (pe_path x) (pe_path y)"
    if ab: "a < b" "b < length ?L" and x: "x \<in> set (?L ! a)" and y: "y \<in> set (?L ! b)" for a b x y
  proof -
    have "\<not> is_descendant_of (pe_path y) (pe_path x)"
    proof
      assume "is_descendant_of (pe_path y) (pe_path x)"
      moreover have "y \<in> set es" using sub ab y by (meson nth_mem)
      ultimately obtain c where "c < a" "y \<in> set (?L ! c)" using plan_levels_order [of a es x y] ab x by auto
      then show False using disj [of c b y y] ab y by auto
    qed
    moreover have "pe_path x \<noteq> pe_path y" using disj [of a b x y] ab x y by auto
    ultimately show ?thesis by (auto simp: apart_iff)
  qed
  then show "sorted_wrt (\<lambda>l l'. \<forall>p \<in> set l. \<forall>q \<in> set l'. apart p q \<or> is_descendant_of p q) (map (map pe_path) ?L)"
    by (auto simp: sorted_wrt_iff_nth_less)
qed

lemma build_plan_levels:
  assumes "build_plan b plan payload = Inr xp"
  shows "map (map ee_plan) (ep_levels xp) = plan_levels (pp_entries plan)"
proof -
  from assms obtain bound where b: "list_all2 (\<lambda>e x. bind_entry b e = Inr x) (pp_entries plan) bound"
    "ep_levels xp = map (map (\<lambda>(i, _). bound ! i)) (level_loop (enumerate 0 (pp_entries plan)))"
    by (auto simp: build_plan_def bindR_eq_Inr mapR_eq_Inr)
  have e: "ee_plan (bound ! i) = pp_entries plan ! i" if "i < length (pp_entries plan)" for i
  proof -
    have "bind_entry b (pp_entries plan ! i) = Inr (bound ! i)" using b(1) that by (simp add: list_all2_conv_all_nth)
    then show ?thesis unfolding bind_entry_def bindR_eq_Inr by (metis Inr_inject execution_entry.select_convs(1))
  qed
  have "ee_plan (bound ! i) = x" if "l \<in> set (level_loop (enumerate 0 (pp_entries plan)))" "(i, x) \<in> set l" for l i x
  proof -
    have "(i, x) \<in> set (enumerate 0 (pp_entries plan))"
      using that mset_eq_setD [OF level_loop_partition [OF enumerate_distinct [of 0 "pp_entries plan"]]] by auto
    then show ?thesis using e by (auto simp: enumerate_position)
  qed
  then show ?thesis unfolding b(2) plan_levels_def by (auto intro!: map_cong [OF refl])
qed

lemma stamp_version_get: "stamp_version vp ver v = JObj d \<Longrightarrow> map_of d vp = Some (JStr ver)"
  by (cases v) (auto simp: update_conv')

text \<open>An entry with steps ends with the version of the target of its last step.\<close>

lemma execute_steps_last:
  assumes "\<And>i v s v' s'. i \<in> set is \<Longrightarrow> f i v s = (Inr v', s') \<Longrightarrow> P i v'" "is \<noteq> []" "execute_steps f is v s = (Inr v', s')"
  shows "P (last is) v'"
  using assms
proof (induction "is" arbitrary: v s)
  case (Cons i "is")
  from Cons.prems(3) obtain w t where w: "f i v s = (Inr w, t)" "execute_steps f is w t = (Inr v', s')" by (auto simp: bindS_Inr)
  show ?case
  proof (cases "is = []")
    case True
    then show ?thesis using w Cons.prems(1) [of i v s w t] by simp
  next
    case False
    then show ?thesis using Cons.IH [OF Cons.prems(1) False w(2)] by simp
  qed
qed simp

lemma execute_sync_version:
  assumes "execute_sync show_v tel run vp invoke entry v s = (Inr (p, JObj d), s')" "pe_steps (ee_plan entry) \<noteq> []"
  shows "map_of d vp = Some (JStr (show_v (nid_version (node_id_of (snd (last (pe_steps (ee_plan entry))))))))"
proof -
  let ?n = "length (pe_steps (ee_plan entry))"
  from assms(1) obtain c where c: "execute_steps (execute_step show_v tel entry run vp invoke) [0..<?n] v s = (Inr c, s')" "c = JObj d"
    by (auto simp: execute_sync_def bindS_Inr)
  have "\<forall>d. c = JObj d \<longrightarrow> map_of d vp = Some (JStr (show_v (nid_version (node_id_of (snd (pe_steps (ee_plan entry) ! (last [0..<?n])))))))"
  proof (rule execute_steps_last [OF _ _ c(1)])
    fix i v s v' s' assume "execute_step show_v tel entry run vp invoke i v s = (Inr v', s')"
    then obtain step m where m: "mk_step_context show_v entry i run None = Inr step"
      "v' = stamp_version vp (show_v (nid_version (node_id_of (sx_target step)))) m"
      by (auto simp: execute_step_def bindS_Inr)
    from m(1) have "sx_target step = snd (pe_steps (ee_plan entry) ! i)"
      by (auto simp: mk_step_context_def bindR_eq_Inr list_at_def split: prod.splits if_splits)
    then show "\<forall>d. v' = JObj d \<longrightarrow> map_of d vp = Some (JStr (show_v (nid_version (node_id_of (snd (pe_steps (ee_plan entry) ! i))))))"
      using m(2) stamp_version_get by metis
  qed (use assms(2) in simp)
  then show ?thesis using c(2) assms(2) by (simp add: last_conv_nth)
qed

section \<open>From a payload to the migrated payload\<close>

lemma chained_last: "chained E a es b \<Longrightarrow> es \<noteq> [] \<Longrightarrow> node_id_of (edge_target (last es)) = b"
  by (induction es arbitrary: a) (auto split: if_splits)

lemma subseq_keeps_distinct: "subseq xs ys \<Longrightarrow> distinct ys \<Longrightarrow> distinct xs"
  by (induction rule: list_emb.induct) (auto dest: list_emb_set)

text \<open>What a plan that was found for extracted entries has: distinct proper paths of dictionaries, and steps to the target.\<close>

lemma planned_entries:
  assumes "json_ok payload" "walker_extract w payload None depth = Inr ents"
    and "find pf (map (\<lambda>(p, _, n). \<lparr>xe_path = p, xe_node = n\<rparr>) ents) t m [] = (Inr plan, c')" "backend_wf (mg_backend (pf_graph pf))"
  shows "distinct (map pe_path (pp_entries plan))"
    and "\<forall>e \<in> set (pp_entries plan). proper_path (pe_path e) \<and> (\<exists>d. path_get (pe_path e) payload = Inr (JObj d))"
    and "\<forall>e \<in> set (pp_entries plan). pe_steps e \<noteq> [] \<longrightarrow> node_id_of (snd (last (pe_steps e))) = node_id_of (pe_target e)"
proof -
  let ?xs = "map (\<lambda>(p, _, n). \<lparr>xe_path = p, xe_node = n\<rparr>) ents"
  from find_Inr [OF cache_ok_empty assms(3)] obtain f ys es where f: "subseq ys ?xs" "list_all2 (resolved_from pf f) ys es"
    "pp_entries plan = filter (acceptable (pf_policy pf) (pf_graph pf)) es" by metis
  have out: "sorted_wrt outside (map fst ents)" by (rule extract_entries(2) [OF assms(1,2)])
  have paths: "map pe_path es = map xe_path ys" using f(2) by (induction rule: list_all2_induct) (auto simp: resolved_from_def)
  have xp: "map xe_path ?xs = map fst ents" by (simp add: case_prod_unfold)
  have "distinct (map fst ents)" using out by (induction ents) (auto simp: outside_def)
  then have "distinct (map xe_path ys)" using subseq_map [OF f(1), of xe_path] unfolding xp by (rule subseq_keeps_distinct [rotated])
  then show "distinct (map pe_path (pp_entries plan))" unfolding f(3) paths [symmetric] by (simp add: distinct_map_filter)
  show "\<forall>e \<in> set (pp_entries plan). proper_path (pe_path e) \<and> (\<exists>d. path_get (pe_path e) payload = Inr (JObj d))"
  proof
    fix e assume "e \<in> set (pp_entries plan)"
    then have "pe_path e \<in> set (map xe_path ys)" unfolding paths [symmetric] f(3) by simp
    moreover have "set ys \<subseteq> set ?xs" using f(1) by (auto dest: list_emb_set)
    ultimately obtain k n where "(pe_path e, k, n) \<in> set ents" by force
    then have "entry_at w payload (pe_path e) n" using extract_entries(1) [OF assms(1,2)] by blast
    then show "proper_path (pe_path e) \<and> (\<exists>d. path_get (pe_path e) payload = Inr (JObj d))"
      unfolding entry_at_def by (auto dest: walk_match_model)
  qed
  show "\<forall>e \<in> set (pp_entries plan). pe_steps e \<noteq> [] \<longrightarrow> node_id_of (snd (last (pe_steps e))) = node_id_of (pe_target e)"
  proof (intro ballI impI)
    fix e assume e: "e \<in> set (pp_entries plan)" "pe_steps e \<noteq> []"
    then obtain x where "resolved_from pf f x e" using list_all2_inD [OF f(2)] f(3) by auto
    then obtain ps where ps: "edge_path (node_id_of (pe_source e)) (node_id_of (pe_target e)) (pf_discriminator pf) (pf_graph pf) = Inr ps"
      "pe_steps e = map (\<lambda>e. (edge_source e, edge_target e)) ps" by (auto simp: resolved_from_def)
    from chained_last [OF edge_path_chained [OF assms(4) ps(1)]] e(2) ps(2)
    show "node_id_of (snd (last (pe_steps e))) = node_id_of (pe_target e)" by (simp add: last_map)
  qed
qed

definition outermost :: "'v plan_entry list \<Rightarrow> 'v plan_entry \<Rightarrow> bool" where
  "outermost es e \<longleftrightarrow> e \<in> set es \<and> (\<forall>e' \<in> set es. \<not> is_descendant_of (pe_path e) (pe_path e'))"

text \<open>The execution of one entry on its value, as the threaded backend runs it.\<close>

definition entry_run :: "('v, 'w) execution_setup \<Rightarrow> ('v, 'w) execution_entry \<Rightarrow> json \<Rightarrow> ('w world, entry_result) op" where
  "entry_run xs = execute_sync (xs_show xs) (xs_telemetry xs) (xs_run xs) (xs_version_property xs) threaded_invoke"

lemma entry_run_path: "entry_run xs entry v s = (Inr y, s') \<Longrightarrow> fst y = pe_path (ee_plan entry)"
  by (auto simp: entry_run_def execute_sync_def bindS_Inr)

text \<open>Executing a plan whose entries are dictionaries at distinct proper paths.\<close>

lemma executed_plan:
  assumes b: "build_plan bs plan payload = Inr xp"
    and pl: "distinct (map pe_path (pp_entries plan))"
      "\<forall>e \<in> set (pp_entries plan). proper_path (pe_path e) \<and> (\<exists>d. path_get (pe_path e) payload = Inr (JObj d))"
      "\<forall>e \<in> set (pp_entries plan). pe_steps e \<noteq> [] \<longrightarrow> node_id_of (snd (last (pe_steps e))) = node_id_of (pe_target e)"
  shows "case threaded_execute xs xp payload s of
      (Inl err, _) \<Rightarrow> (\<exists>entry \<in> set (concat (ep_levels xp)). \<exists>d s2 s3. entry_run xs entry (JObj d) s2 = (Inl err, s3))
    | (Inr final, _) \<Rightarrow>
        (\<forall>e. outermost (pp_entries plan) e \<longrightarrow> (\<exists>v. path_get (pe_path e) final = Inr v
          \<and> (\<exists>entry \<in> set (concat (ep_levels xp)). \<exists>d s2 s3. ee_plan entry = e \<and> entry_run xs entry (JObj d) s2 = (Inr (pe_path e, v), s3))
          \<and> (\<forall>d. pe_steps e \<noteq> [] \<longrightarrow> v = JObj d \<longrightarrow>
               map_of d (xs_version_property xs) = Some (JStr (xs_show xs (nid_version (node_id_of (pe_target e))))))))
        \<and> (\<forall>q. proper_path q \<longrightarrow> (\<forall>e \<in> set (pp_entries plan). apart (pe_path e) q) \<longrightarrow> path_get q final = path_get q payload)"
proof -
  note lv = build_plan_levels [OF b]
  let ?pos = "\<lambda>x. pe_path (ee_plan x)" and ?E = "set (concat (ep_levels xp))"
  let ?R = "\<lambda>err. \<exists>x \<in> ?E. \<exists>d s2 s3. entry_run xs x (JObj d) s2 = (Inl err, s3)"
  let ?Q = "\<lambda>x v. \<exists>d s2 s3. entry_run xs x (JObj d) s2 = (Inr (?pos x, v), s3)"
  have all: "ee_plan ` ?E = set (pp_entries plan)"
    using plan_levels_partition [of "pp_entries plan"] unfolding lv [symmetric] by (metis map_concat mset_eq_setD set_map)
  have "map (map ?pos) (ep_levels xp) = map (map pe_path) (plan_levels (pp_entries plan))" unfolding lv [symmetric] by simp
  then have lok: "levels_ok (map (map ?pos) (ep_levels xp))" using plan_levels_ok [OF pl(1)] pl(2) by auto
  have dicts: "\<forall>x \<in> ?E. proper_path (?pos x) \<and> (\<exists>d. path_get (?pos x) payload = Inr (JObj d))" using pl(2) all by blast
  have step: "\<forall>x \<in> ?E. \<forall>v d s. path_get (?pos x) v = Inr (JObj d) \<longrightarrow>
      (\<exists>err s'. run_entry xs threaded_invoke x v s = (Inl err, s') \<and> ?R err)
      \<or> (\<exists>w s'. run_entry xs threaded_invoke x v s = (Inr (?pos x, w), s') \<and> ?Q x w)"
  proof (intro ballI allI impI)
    fix x v d s assume x: "x \<in> ?E" and v: "path_get (?pos x) v = Inr (JObj d)"
    obtain r s' where r: "entry_run xs x (JObj d) s = (r, s')" by fastforce
    then have run: "run_entry xs threaded_invoke x v s = (r, s')" using v by (simp add: run_entry_def entry_value_def entry_run_def)
    show "(\<exists>err s'. run_entry xs threaded_invoke x v s = (Inl err, s') \<and> ?R err)
        \<or> (\<exists>w s'. run_entry xs threaded_invoke x v s = (Inr (?pos x, w), s') \<and> ?Q x w)"
    proof (cases r)
      case (Inl err)
      then show ?thesis using run r x by (intro disjI1 exI conjI bexI) simp_all
    next
      case (Inr y)
      obtain w where "y = (?pos x, w)" using entry_run_path [of xs x "JObj d" s y s'] r Inr by (metis prod.collapse)
      then have "run_entry xs threaded_invoke x v s = (Inr (?pos x, w), s')" "entry_run xs x (JObj d) s = (Inr (?pos x, w), s')"
        using run r Inr by simp_all
      then show ?thesis by blast
    qed
  qed
  have ex: "threaded_execute xs xp payload s = run_levels (run_entry xs threaded_invoke) (ep_levels xp) payload (snd (start_hooks xs s))"
    by (simp add: threaded_execute_def start_hooks_def bindS_def)
  have version: "map_of d (xs_version_property xs) = Some (JStr (xs_show xs (nid_version (node_id_of (pe_target (ee_plan x))))))"
    if "x \<in> ?E" "?Q x (JObj d)" "pe_steps (ee_plan x) \<noteq> []" for x d
    using that pl(3) all execute_sync_version by (fastforce simp: entry_run_def)
  from run_levels_correct [OF lok dicts step, of "snd (start_hooks xs s)"] show ?thesis
  proof (elim disjE exE conjE)
    fix final s' assume fin: "run_levels (run_entry xs threaded_invoke) (ep_levels xp) payload (snd (start_hooks xs s)) = (Inr final, s')"
      "\<forall>q. proper_path q \<longrightarrow> (\<forall>x \<in> ?E. apart (?pos x) q) \<longrightarrow> path_get q final = path_get q payload"
      "\<forall>x \<in> ?E. (\<forall>x' \<in> ?E. \<not> is_descendant_of (?pos x) (?pos x')) \<longrightarrow> (\<exists>w. path_get (?pos x) final = Inr w \<and> ?Q x w)"
    have "\<exists>v. path_get (pe_path e) final = Inr v
        \<and> (\<exists>entry \<in> ?E. \<exists>d s2 s3. ee_plan entry = e \<and> entry_run xs entry (JObj d) s2 = (Inr (pe_path e, v), s3))
        \<and> (\<forall>d. pe_steps e \<noteq> [] \<longrightarrow> v = JObj d \<longrightarrow> map_of d (xs_version_property xs) = Some (JStr (xs_show xs (nid_version (node_id_of (pe_target e))))))"
      if o: "outermost (pp_entries plan) e" for e
    proof -
      have "e \<in> ee_plan ` ?E" using o unfolding all outermost_def by blast
      then obtain x where x: "x \<in> ?E" "e = ee_plan x" by blast
      have "\<forall>x' \<in> ?E. \<not> is_descendant_of (?pos x) (?pos x')" using o all x(2) by (auto simp: outermost_def)
      with bspec [OF fin(3) x(1)] obtain w where w: "path_get (?pos x) final = Inr w" "?Q x w" by blast
      then show ?thesis using x version [OF x(1)] by blast
    qed
    moreover have "path_get q final = path_get q payload" if "proper_path q" "\<forall>e \<in> set (pp_entries plan). apart (pe_path e) q" for q
      using fin(2) that all by blast
    ultimately show ?thesis using fin(1) ex by simp
  next
    fix err s' assume err: "run_levels (run_entry xs threaded_invoke) (ep_levels xp) payload (snd (start_hooks xs s)) = (Inl err, s')"
      "?R err"
    then show ?thesis using ex by simp
  qed
qed


section \<open>A concrete run\<close>

definition sample_edge_id :: "nat edge_id" where
  "sample_edge_id = EdgeId (NodeId ''a'' ''K'' 1) (NodeId ''a'' ''K'' 2) ''default''"

definition sample_binding :: "nat migration_binding" where
  "sample_binding = \<lparr>mb_func = (\<lambda>d _. returnS (Now d)), mb_descriptor = \<lparr>md_strategy = ''python'', md_identity = ''f''\<rparr>, mb_name = ''f''\<rparr>"

definition sample_coordinator :: "(nat, unit, nat) coordinator" where
  "sample_coordinator = \<lparr>co_extractor = walker_extract sample_walker, co_finder = sample_finder,
     co_bindings = \<lparr>bn_name = ''a'', bn_migrations = [(sample_edge_id, sample_binding)], bn_hooks_by_edge = []\<rparr>,
     co_names = \<lparr>kn_model_name = (\<lambda>_. ''M''), kn_repr = (\<lambda>_. ''r''), kn_show = (\<lambda>v. replicate v (CHR ''x''))\<rparr>\<rparr>"

definition sample_setup :: "(nat, nat) execution_setup" where
  "sample_setup = \<lparr>xs_show = (\<lambda>v. replicate v (CHR ''x'')), xs_telemetry = quiet, xs_run = sample_run,
     xs_version_property = ''version'', xs_fresh_hook_state = id\<rparr>"

lemma sample_models: "graph_models sample_snapshot \<subseteq> {sample_model 1, sample_model 2}"
proof
  fix n assume "n \<in> graph_models sample_snapshot"
  then obtain i where i: "find_model i sample_migrated = Some n"
    using sample_lookups by (auto simp: graph_models_def)
  have "by_versions sample_migrated = [sample_model 1, sample_model 2]" by code_simp
  moreover have "n \<in> set (by_versions sample_migrated)" using i
    by (auto simp: find_model_def find_entry_def sorted_find_def Let_def split: option.splits if_splits simp del: nth_mem) (metis nth_mem)
  ultimately show "n \<in> {sample_model 1, sample_model 2}" by simp
qed

lemma sample_keys_separate: "keys_separate sample_coordinator {TString ''latest''}"
proof -
  have "inj_on (\<lambda>n. node_str (\<lambda>v. replicate v (CHR ''x'')) (node_id_of n)) {sample_model 1, sample_model 2}"
    by (auto simp: inj_on_def node_str_def numeral_2_eq_2)
  then have "inj_on (\<lambda>n. node_str (\<lambda>v. replicate v (CHR ''x'')) (node_id_of n)) (graph_models sample_snapshot)"
    by (rule inj_on_subset [OF _ sample_models])
  moreover have "inj (\<lambda>_ :: unit. ''M'')" by (rule injI) simp
  ultimately show ?thesis by (simp add: keys_separate_def sample_coordinator_def sample_finder_def inj_on_def)
qed

lemma sample_step_edge:
  "\<exists>x. edge_path (NodeId ''a'' ''K'' 1) (NodeId ''a'' ''K'' 2) ''default'' sample_snapshot = Inr [x]
     \<and> eid_of x = sample_edge_id \<and> edge_source x = sample_model 1 \<and> edge_target x = sample_model 2"
proof -
  obtain x where x: "edge_path (NodeId ''a'' ''K'' 1) (NodeId ''a'' ''K'' 2) ''default'' sample_snapshot = Inr [x]"
    "eid_of x = sample_edge_id" using sample_edge_path by (auto simp: sample_edge_id_def)
  note b = build_graph_backend [OF reg_reachable_wf [OF sample_migrated_reachable] sample_snapshot]
  have "\<forall>e \<in> set (map edge_key_of (registry_edges sample_migrated)). edge_source e = sample_model 1 \<and> edge_target e = sample_model 2"
    by code_simp
  moreover have "x \<in> set (map edge_key_of (registry_edges sample_migrated))"
    using edge_path_chained [OF conjunct1 [OF b] x(1)] b by (simp add: walkable_def)
  ultimately show ?thesis using x by blast
qed

definition sample_planned :: "nat plan_entry" where
  "sample_planned = \<lparr>pe_path = [Key ''item''], pe_source = sample_model 1, pe_target = sample_model 2, pe_target_model = sample_ref,
     pe_steps = [(sample_model 1, sample_model 2)], pe_edges = [sample_edge_id]\<rparr>"

definition sample_bound :: "(nat, nat) execution_entry" where
  "sample_bound = \<lparr>ee_plan = sample_planned, ee_migrations = [sample_binding], ee_hooks = [[]]\<rparr>"

definition sample_plan :: "(nat, unit, nat) execution_plan" where
  "sample_plan = \<lparr>ep_path = \<lparr>pp_entries = [sample_planned], pp_source_model = None\<rparr>, ep_payload = sample_payload, ep_levels = [[sample_bound]]\<rparr>"

lemma sample_extracted: "walker_extract sample_walker sample_payload None 0 = Inr [([Key ''item''], 1, sample_model 1)]"
  using sample_match
  by (simp add: walker_extract_def sample_payload_def mk_context_def concatR_def sample_walker_def sample_adapter_def walk_match_def)

lemma sample_found_at:
  "fst (find sample_finder [\<lparr>xe_path = p, xe_node = sample_model 1\<rparr>] (TString ''latest'') None []) =
     Inr \<lparr>pp_entries = [sample_planned\<lparr>pe_path := p\<rparr>], pp_source_model = None\<rparr>"
proof -
  obtain x where x: "edge_path (NodeId ''a'' ''K'' 1) (NodeId ''a'' ''K'' 2) ''default'' sample_snapshot = Inr [x]"
    "eid_of x = sample_edge_id" "edge_source x = sample_model 1" "edge_target x = sample_model 2" using sample_step_edge by blast
  have d: "descriptor (sample_model 2) = Some (sample_desc [sample_field ''x'' True])" by (simp add: sample_model_def)
  have lt: "NodeId ''a'' ''K'' (1 :: nat) < NodeId ''a'' ''K'' 2" by (simp add: less_node_id_def identity_def)
  show ?thesis using x sample_latest sample_mg_has_migration d lt
    by (simp add: find_def bindS_def sample_finder_def sample_planned_def latest_target_def resolve_def resolve_path_def sample_desc_def
        entry_of_def policy_apply_def check_entry_def entry_edges_def sample_policy_def sample_edge_id_def)
qed

lemma sample_found:
  "fst (find sample_finder [\<lparr>xe_path = [Key ''item''], xe_node = sample_model 1\<rparr>] (TString ''latest'') None []) =
     Inr \<lparr>pp_entries = [sample_planned], pp_source_model = None\<rparr>"
  using sample_found_at [of "[Key ''item'']"] by (simp add: sample_planned_def)

lemma sample_single_level: "level_loop [(0, e)] = [[(0, e)]]" for e :: "nat plan_entry"
  by (subst level_loop.simps, subst level_loop.simps) (simp add: next_level_def ready_entries_def drop_chosen_def is_descendant_of_def)

lemma sample_planning: "\<exists>s. coordinator_plan sample_coordinator sample_payload (TString ''latest'') None 0 fresh_state = (Inr sample_plan, s)"
proof -
  have "build_plan (co_bindings sample_coordinator) \<lparr>pp_entries = [sample_planned], pp_source_model = None\<rparr> sample_payload = Inr sample_plan"
    by (simp add: sample_single_level build_plan_def bind_entry_def bound_migration_def bound_hooks_def dict_get_def sample_planned_def sample_coordinator_def
        sample_plan_def sample_bound_def)
  moreover have "coordinator_extract sample_coordinator sample_payload None 0 = Inr xs \<Longrightarrow> graph_entries sample_coordinator xs" for xs
    by (rule extracted_models [of _ sample_walker]) (simp_all add: sample_coordinator_def sample_walker_def sample_finder_def)
  note from_scratch = coordinator_plan_from_scratch [OF sample_keys_separate fresh_state_ok _ this]
  ultimately have "fst (coordinator_plan sample_coordinator sample_payload (TString ''latest'') None 0 fresh_state) = Inr sample_plan"
    using sample_extracted sample_found by (simp add: from_scratch coordinator_extract_def) (simp add: sample_coordinator_def)
  then show ?thesis by (metis prod.collapse)
qed

text \<open>A second planning of the same payload with a cache of eight plans finds the plan of the first one in the cache.\<close>

definition sample_caching :: "(nat, unit) coordinator_state" where
  "sample_caching = \<lparr>cs_paths = [], cs_plans = \<lparr>lc_size = 8, lc_entries = []\<rparr>\<rparr>"

definition sample_key :: plan_key where
  "sample_key = the (key_from_entries (co_names sample_coordinator) (TString ''latest'') None
     [\<lparr>xe_path = [Key ''item''], xe_node = sample_model 1\<rparr>])"

lemma sample_plan_cached:
  "fst (cache_get sample_key (cs_plans (snd (coordinator_plan sample_coordinator sample_payload (TString ''latest'') None 0 sample_caching))))
     = Some (ep_path sample_plan)"
proof -
  let ?x = "\<lparr>xe_path = [Key ''item''], xe_node = sample_model 1\<rparr>"
  have x: "coordinator_extract sample_coordinator sample_payload None 0 = Inr [?x]"
    using sample_extracted by (simp add: coordinator_extract_def) (simp add: sample_coordinator_def)
  have k: "key_from_entries (co_names sample_coordinator) (TString ''latest'') None [?x] = Some sample_key"
    by (simp add: sample_key_def key_from_entries_def sample_coordinator_def)
  obtain c where "find sample_finder [?x] (TString ''latest'') None [] = (Inr (ep_path sample_plan), c)"
    using sample_found by (cases "find sample_finder [?x] (TString ''latest'') None []") (simp add: sample_plan_def)
  then have "find_plan sample_coordinator [?x] (TString ''latest'') None sample_caching = (Inr (ep_path sample_plan), sample_caching\<lparr>cs_paths := c\<rparr>)"
    by (simp add: find_plan_def sample_coordinator_def sample_caching_def)
  then have "cached_find sample_coordinator [?x] (TString ''latest'') None sample_caching =
      (Inr (ep_path sample_plan), sample_caching\<lparr>cs_paths := c, cs_plans := cache_put sample_key (ep_path sample_plan) (cs_plans sample_caching)\<rparr>)"
    by (simp add: cached_find_def k [simplified] bindS_def cache_get_def sample_caching_def)
  then show ?thesis
    by (simp add: coordinator_plan_def x [simplified] bindS_def sample_caching_def cache_put_def cache_get_def move_to_end_def split: sum.split)
qed

theorem coordinator_cache_transparent_witness:
  "let s = snd (coordinator_plan sample_coordinator sample_payload (TString ''latest'') None 0 sample_caching)
   in fst (cache_get sample_key (cs_plans s)) = Some (ep_path sample_plan)
     \<and> fst (coordinator_plan sample_coordinator sample_payload (TString ''latest'') None 0 s) = Inr sample_plan"
proof -
  let ?plan = "coordinator_plan sample_coordinator sample_payload (TString ''latest'') None 0"
  let ?s = "snd (?plan sample_caching)"
  have ok: "coordinator_ok sample_coordinator {TString ''latest''} sample_caching"
    by (simp add: coordinator_ok_def sample_caching_def cache_invar_def)
  have w: "co_extractor sample_coordinator = walker_extract sample_walker" "pw_graph sample_walker = pf_graph (co_finder sample_coordinator)"
    by (simp_all add: sample_coordinator_def sample_walker_def sample_finder_def)
  note transparent = coordinator_cache_transparent [OF w sample_keys_separate _ singletonI, of _ sample_payload None 0]
  have first: "fst (?plan sample_caching) = Inr sample_plan" "coordinator_ok sample_coordinator {TString ''latest''} ?s"
    using transparent [OF ok] sample_planning by auto
  moreover have "fst (?plan ?s) = Inr sample_plan" using transparent [OF first(2)] sample_planning by auto
  moreover have "fst (cache_get sample_key (cs_plans ?s)) = Some (ep_path sample_plan)"
    by (rule sample_plan_cached)
  ultimately show ?thesis by simp
qed

lemma sample_bound_runs:
  "\<exists>d' s'. entry_run sample_setup sample_bound (JObj d) s = (Inr (pe_path (ee_plan sample_bound), JObj d'), s')"
  by (simp add: entry_run_def execute_sync_def execute_step_def mk_step_context_def sample_bound_def sample_planned_def sample_binding_def
      sample_setup_def step_name_def migration_func_def dataset_from_node_def sample_model_def sample_step_simps threaded_invoke_def returnS_def)


end
