(* ===== verification/Middleware.thy ===== *)
theory Middleware
  imports Execution
begin

text \<open>
  The middleware around a backend, from \<open>runtime/middleware\<close>: audit, idempotency, retry and transaction. A
  backend answers a plan with a value or with an awaitable; each middleware does its work in both cases. The
  sinks, stores and transaction managers belong to the caller. Retrying is that of the package \<open>tenacity\<close>
  and is a parameter; \<open>retry_laws\<close> states what it documents.
\<close>

section \<open>Backends as middleware sees them\<close>

record ('v, 'm, 'w) backend_port =
  be_name :: string
  be_execute :: "('v, 'm, 'w) execution_plan \<Rightarrow> json \<Rightarrow> run_context \<Rightarrow> ('w world, ('w world, json) maybe_async) op"

text \<open>The three backends: two answer with a value, the asynchronous one with a coroutine that has not started.\<close>

definition threaded_backend :: "('v, 'w) execution_setup \<Rightarrow> ('v, 'm, 'w) backend_port" where
  "threaded_backend xs = \<lparr>be_name = ''ThreadedBackend'',
     be_execute = (\<lambda>plan payload run. bindS (threaded_execute (xs\<lparr>xs_run := run\<rparr>) plan payload) (\<lambda>v. returnS (Now v)))\<rparr>"

definition process_backend :: "('w migration_func \<Rightarrow> 'w migration_func) \<Rightarrow> ('v, 'w) execution_setup \<Rightarrow> ('v, 'm, 'w) backend_port" where
  "process_backend submit xs = \<lparr>be_name = ''ProcessBackend'',
     be_execute = (\<lambda>plan payload run. bindS (process_execute submit (xs\<lparr>xs_run := run\<rparr>) plan payload) (\<lambda>v. returnS (Now v)))\<rparr>"

definition async_backend :: "('v, 'w) execution_setup \<Rightarrow> ('v, 'm, 'w) backend_port" where
  "async_backend xs = \<lparr>be_name = ''AsyncBackend'',
     be_execute = (\<lambda>plan payload run. returnS (Later (async_execute (xs\<lparr>xs_run := run\<rparr>) plan payload)))\<rparr>"

text \<open>What a caller gets who awaits the answer when it is an awaitable.\<close>

definition awaiting :: "('s, ('s, 'r) maybe_async) op \<Rightarrow> ('s, 'r) op" where
  "awaiting m = bindS m (\<lambda>r. case r of Now v \<Rightarrow> returnS v | Later k \<Rightarrow> k)"

text \<open>
  \<open>try: ... except Exception as error: fail(error); raise\<close>, the shape of \<open>_async_result\<close> in three of the
  middlewares, and the same around \<open>inner.execute\<close>, where an awaitable postpones the rest.
\<close>

definition failing :: "('s, 'r) op \<Rightarrow> (error \<Rightarrow> ('s, unit) op) \<Rightarrow> ('s, 'r) op" where
  "failing m fail = catchS m (\<lambda>e. if is_exception e then bindS (fail e) (\<lambda>_. raiseS e) else raiseS e)"

definition guarded :: "('s, 'r) op \<Rightarrow> ('r \<Rightarrow> ('s, unit) op) \<Rightarrow> (error \<Rightarrow> ('s, unit) op) \<Rightarrow> ('s, 'r) op" where
  "guarded m ok fail = bindS (failing m fail) (\<lambda>v. bindS (ok v) (\<lambda>_. returnS v))"

definition settle :: "('s, ('s, 'r) maybe_async) op \<Rightarrow> ('r \<Rightarrow> ('s, unit) op) \<Rightarrow> (error \<Rightarrow> ('s, unit) op) \<Rightarrow> ('s, ('s, 'r) maybe_async) op" where
  "settle m ok fail = bindS (failing m fail) (\<lambda>result. case result of
     Later k \<Rightarrow> returnS (Later (guarded k ok fail))
   | Now v \<Rightarrow> bindS (ok v) (\<lambda>_. returnS (Now v)))"

section \<open>Audit\<close>

text \<open>Durations are reduced to whether one is recorded; \<open>str(error)\<close> to the error.\<close>

record audit_event =
  au_name :: string
  au_run_id :: string
  au_status :: string
  au_timed :: bool
  au_entries :: nat
  au_backend :: string
  au_error :: "error option"

type_synonym 'w audit_sink = "audit_event \<Rightarrow> ('w, unit) op"

definition audit_record :: "'w audit_sink \<Rightarrow> audit_event \<Rightarrow> ('w world, unit) op" where
  "audit_record sink ev = outside_call (CallAudit (au_status ev)) (sink ev)"

definition audit_execute :: "'w audit_sink \<Rightarrow> ('v, 'm, 'w) backend_port \<Rightarrow> ('v, 'm, 'w) execution_plan \<Rightarrow> json \<Rightarrow> run_context
    \<Rightarrow> ('w world, ('w world, json) maybe_async) op" where
  "audit_execute sink inner plan payload run =
     (let event = (\<lambda>status timed error. \<lparr>au_name = ''run'', au_run_id = rc_run_id run, au_status = status, au_timed = timed,
        au_entries = length (pp_entries (ep_path plan)), au_backend = be_name inner, au_error = error\<rparr>)
      in bindS (audit_record sink (event ''started'' False None)) (\<lambda>_.
         settle (be_execute inner plan payload run) (\<lambda>_. audit_record sink (event ''completed'' True None))
           (\<lambda>e. audit_record sink (event ''failed'' True (Some e)))))"

definition audit_wrap :: "'w audit_sink \<Rightarrow> ('v, 'm, 'w) backend_port \<Rightarrow> ('v, 'm, 'w) backend_port" where
  "audit_wrap sink inner = \<lparr>be_name = ''_Audit'', be_execute = audit_execute sink inner\<rparr>"

section \<open>Transaction\<close>

record 'w transaction =
  tx_commit :: "('w, unit) op"
  tx_rollback :: "error \<Rightarrow> ('w, unit) op"

type_synonym ('v, 'm, 'w) transaction_manager = "('v, 'm, 'w) execution_plan \<Rightarrow> json \<Rightarrow> run_context \<Rightarrow> ('w, 'w transaction) op"

definition transaction_execute :: "('v, 'm, 'w) transaction_manager \<Rightarrow> ('v, 'm, 'w) backend_port \<Rightarrow> ('v, 'm, 'w) execution_plan \<Rightarrow> json
    \<Rightarrow> run_context \<Rightarrow> ('w world, ('w world, json) maybe_async) op" where
  "transaction_execute begin_tx inner plan payload run =
     bindS (outside_call CallBegin (begin_tx plan payload run)) (\<lambda>tx.
     settle (be_execute inner plan payload run) (\<lambda>_. outside_call CallCommit (tx_commit tx))
       (\<lambda>e. outside_call CallRollback (tx_rollback tx e)))"

definition transaction_wrap :: "('v, 'm, 'w) transaction_manager \<Rightarrow> ('v, 'm, 'w) backend_port \<Rightarrow> ('v, 'm, 'w) backend_port" where
  "transaction_wrap begin_tx inner = \<lparr>be_name = ''_Transaction'', be_execute = transaction_execute begin_tx inner\<rparr>"

section \<open>Idempotency\<close>

text \<open>A store answers \<open>get\<close> with \<open>None\<close>, here \<open>JNull\<close>, when it has no result for a key.\<close>

record 'w idempotency_store =
  is_get :: "string \<Rightarrow> ('w, json) op"
  is_claim :: "string \<Rightarrow> ('w, bool) op"
  is_complete :: "string \<Rightarrow> json \<Rightarrow> ('w, unit) op"
  is_release :: "string \<Rightarrow> ('w, unit) op"

type_synonym ('v, 'm, 'w) key_factory = "('v, 'm, 'w) execution_plan \<Rightarrow> json \<Rightarrow> run_context \<Rightarrow> ('w, string) op"

definition idempotency_execute :: "('v, 'm, 'w) key_factory \<Rightarrow> 'w idempotency_store \<Rightarrow> ('v, 'm, 'w) backend_port
    \<Rightarrow> ('v, 'm, 'w) execution_plan \<Rightarrow> json \<Rightarrow> run_context \<Rightarrow> ('w world, ('w world, json) maybe_async) op" where
  "idempotency_execute key_factory st inner plan payload run =
     bindS (outside_call CallKey (key_factory plan payload run)) (\<lambda>key.
     bindS (outside_call CallGet (is_get st key)) (\<lambda>cached.
     if cached \<noteq> JNull then returnS (Now cached)
     else bindS (outside_call CallClaim (is_claim st key)) (\<lambda>claimed.
         if \<not> claimed then bindS (outside_call CallGet (is_get st key)) (\<lambda>cached.
           if cached = JNull then raiseS RuntimeError else returnS (Now cached))
         else settle (be_execute inner plan payload run) (\<lambda>v. outside_call CallComplete (is_complete st key v))
           (\<lambda>e. outside_call CallRelease (is_release st key)))))"

definition idempotency_wrap :: "('v, 'm, 'w) key_factory \<Rightarrow> 'w idempotency_store \<Rightarrow> ('v, 'm, 'w) backend_port \<Rightarrow> ('v, 'm, 'w) backend_port" where
  "idempotency_wrap key_factory st inner = \<lparr>be_name = ''_Idempotency'', be_execute = idempotency_execute key_factory st inner\<rparr>"

section \<open>Retry\<close>

definition mk_retry :: "int \<Rightarrow> nat res" where
  "mk_retry attempts = (if attempts < 1 then Inl ValueError else Inr (nat attempts))"

text \<open>
  The loop \<open>for attempt in Retrying(...): with attempt: ...\<close> whose body returns. When the inner backend answers
  with an awaitable, that awaitable is dropped and a coroutine that retries from the start is returned; in it
  awaiting something that is not awaitable raises \<open>TypeError\<close>.
\<close>

definition retry_execute :: "(nat \<Rightarrow> ('w world, ('w world, json) maybe_async) op \<Rightarrow> ('w world, ('w world, json) maybe_async) op)
    \<Rightarrow> (nat \<Rightarrow> ('w world, json) op \<Rightarrow> ('w world, json) op) \<Rightarrow> nat \<Rightarrow> ('v, 'm, 'w) backend_port
    \<Rightarrow> ('v, 'm, 'w) execution_plan \<Rightarrow> json \<Rightarrow> run_context \<Rightarrow> ('w world, ('w world, json) maybe_async) op" where
  "retry_execute retrying async_retrying attempts inner plan payload run =
     retrying attempts (bindS (be_execute inner plan payload run) (\<lambda>result. case result of
       Later _ \<Rightarrow> returnS (Later (async_retrying attempts (bindS (be_execute inner plan payload run) (\<lambda>result.
         case result of Later k \<Rightarrow> k | Now _ \<Rightarrow> raiseS TypeError))))
     | Now v \<Rightarrow> returnS (Now v)))"

definition retry_wrap :: "(nat \<Rightarrow> ('w world, ('w world, json) maybe_async) op \<Rightarrow> ('w world, ('w world, json) maybe_async) op)
    \<Rightarrow> (nat \<Rightarrow> ('w world, json) op \<Rightarrow> ('w world, json) op) \<Rightarrow> nat \<Rightarrow> ('v, 'm, 'w) backend_port \<Rightarrow> ('v, 'm, 'w) backend_port" where
  "retry_wrap retrying async_retrying attempts inner =
     \<lparr>be_name = ''_Retry'', be_execute = retry_execute retrying async_retrying attempts inner\<rparr>"

text \<open>
  What \<open>Retrying(stop=stop_after_attempt(n), reraise=True)\<close> documents: a success ends the loop, an exception of
  an attempt that is not the last starts the next one, the last exception is raised again, and what is not an
  \<open>Exception\<close> is not retried.
\<close>

definition retry_laws :: "(nat \<Rightarrow> ('s, 'a) op \<Rightarrow> ('s, 'a) op) \<Rightarrow> bool" where
  "retry_laws retrying \<longleftrightarrow> (\<forall>n m s. case m s of
     (Inr a, s') \<Rightarrow> retrying (Suc n) m s = (Inr a, s')
   | (Inl e, s') \<Rightarrow> retrying (Suc n) m s = (if is_exception e \<and> 0 < n then retrying n m s' else (Inl e, s')))"

section \<open>The calls of a backend\<close>

text \<open>A backend makes only the calls of steps: hooks, scopes, migrations and step telemetry.\<close>

fun step_call :: "call \<Rightarrow> bool" where
  "step_call (CallBefore _) = True"
| "step_call (CallEnter _) = True"
| "step_call (CallExit _) = True"
| "step_call CallMigration = True"
| "step_call (CallOnError _) = True"
| "step_call (CallAfter _) = True"
| "step_call EmitStepStarted = True"
| "step_call EmitStepCompleted = True"
| "step_call EmitStepFailed = True"
| "step_call _ = False"

lemma calls_mono: "calls A m \<Longrightarrow> A \<subseteq> B \<Longrightarrow> calls B m"
  by (erule appends_mono) blast

lemma lifecycle_calls: "lifecycle hs k t \<Longrightarrow> set t \<subseteq> Collect step_call"
proof -
  assume "lifecycle hs k t"
  then obtain b inner entered l where t: "t = b @ inner @ map CallExit (rev entered)" "opened hs (k \<or> inner \<noteq> []) b entered" "served hs l inner"
    unfolding lifecycle_def by blast
  then show ?thesis using served_calls [OF t(3)] by (force simp: opened_def)
qed

lemma calls_index:
  assumes "\<And>s r s'. index < length xs \<Longrightarrow> m s = (r, s') \<Longrightarrow> \<exists>t. wd_trace s' = wd_trace s @ t \<and> set t \<subseteq> A"
    and "\<not> index < length xs \<Longrightarrow> calls A m"
  shows "calls A m"
proof (cases "index < length xs")
  case True
  then show ?thesis using assms(1) by (auto intro!: appendsI) (metis prod.collapse)
qed (rule assms(2))

lemma missing_at: "\<not> index < length xs \<Longrightarrow> bindS (liftS (list_at xs index)) f = raiseS IndexError"
  by (rule ext) (simp add: list_at_def bindS_def)

lemma run_calls [calls_intros]:
  assumes "calls {CallMigration} m"
  shows "calls (Collect step_call) (run_sync tel entry index data step (Some m))"
proof (rule calls_index [where xs = "ee_hooks entry" and index = index])
  fix s r s' assume "index < length (ee_hooks entry)" "run_sync tel entry index data step (Some m) s = (r, s')"
  with run_sync_trace [of "Some m" index entry tel data step s r s'] assms obtain started t finished where
    "wd_trace s' = wd_trace s @ started @ t @ finished" "lifecycle (ee_hooks entry ! index) (okR r) t"
    "set started \<subseteq> {EmitStepStarted}" "set finished \<subseteq> {EmitStepFailed, EmitStepCompleted}" by auto
  then show "\<exists>t. wd_trace s' = wd_trace s @ t \<and> set t \<subseteq> Collect step_call" using lifecycle_calls by fastforce
next
  assume "\<not> index < length (ee_hooks entry)"
  then show "calls (Collect step_call) (run_sync tel entry index data step (Some m))"
    unfolding run_sync_def with_telemetry_def by (simp only: missing_at not_False_eq_True) (intro calls_intros; simp)
qed

lemma run_async_calls [calls_intros]:
  assumes "calls {CallMigration} m"
  shows "calls (Collect step_call) (run_async tel entry index data step (Some m))"
proof (rule calls_index [where xs = "ee_hooks entry" and index = index])
  fix s r s' assume "index < length (ee_hooks entry)" "run_async tel entry index data step (Some m) s = (r, s')"
  with run_async_trace [of "Some m" index entry tel data step s r s'] assms obtain started t finished where
    "wd_trace s' = wd_trace s @ started @ t @ finished" "lifecycle (ee_hooks entry ! index) (okR r) t"
    "set started \<subseteq> {EmitStepStarted}" "set finished \<subseteq> {EmitStepFailed, EmitStepCompleted}" by auto
  then show "\<exists>t. wd_trace s' = wd_trace s @ t \<and> set t \<subseteq> Collect step_call" using lifecycle_calls by fastforce
next
  assume "\<not> index < length (ee_hooks entry)"
  then show "calls (Collect step_call) (run_async tel entry index data step (Some m))"
    unfolding run_async_def with_telemetry_def by (simp only: missing_at not_False_eq_True) (intro calls_intros; simp)
qed

lemma execute_steps_calls [calls_intros]: "(\<And>i v. calls A (f i v)) \<Longrightarrow> calls A (execute_steps f is v)"
  by (induction "is" arbitrary: v) (auto intro!: calls_intros)

lemma run_levels_calls [calls_intros]: "(\<And>e v. calls A (f e v)) \<Longrightarrow> calls A (run_levels f ls v)"
  by (induction ls arbitrary: v) (auto intro!: calls_intros)

lemma start_hooks_calls [calls_intros]: "calls A (start_hooks xs)"
  by (rule appendsI) (simp add: start_hooks_def)

lemma backend_calls [calls_intros]:
  "calls (Collect step_call) (threaded_execute xs plan payload)"
  "calls (Collect step_call) (process_execute submit xs plan payload)"
  "calls (Collect step_call) (async_execute xs plan payload)"
  unfolding threaded_execute_def process_execute_def async_execute_def run_entry_def run_entry_async_def
    execute_sync_def execute_async_def execute_step_def execute_step_async_def
  by (intro calls_intros)+

section \<open>The outcome of a guarded run\<close>

lemma failing_cases:
  "failing m fail s = (case m s of
     (Inr v, s') \<Rightarrow> (Inr v, s')
   | (Inl e, s') \<Rightarrow> if is_exception e then (case fail e s' of (Inr _, t) \<Rightarrow> (Inl e, t) | (Inl e', t) \<Rightarrow> (Inl e', t)) else (Inl e, s'))"
  by (auto simp: failing_def catchS_def bindS_def split: prod.splits sum.splits)

lemma guarded_cases:
  "guarded m ok fail s = (case m s of
     (Inr v, s') \<Rightarrow> (case ok v s' of (Inr _, t) \<Rightarrow> (Inr v, t) | (Inl e, t) \<Rightarrow> (Inl e, t))
   | (Inl e, s') \<Rightarrow> if is_exception e then (case fail e s' of (Inr _, t) \<Rightarrow> (Inl e, t) | (Inl e', t) \<Rightarrow> (Inl e', t)) else (Inl e, s'))"
  by (auto simp: guarded_def failing_cases bindS_def split: prod.splits sum.splits)

text \<open>Whether the answer is a value or an awaitable, awaiting a settled run is the guarded run of the awaited answer.\<close>

lemma awaiting_settle: "awaiting (settle m ok fail) = guarded (awaiting m) ok fail"
proof
  fix s
  show "awaiting (settle m ok fail) s = guarded (awaiting m) ok fail s"
    by (auto simp: awaiting_def settle_def guarded_def failing_cases bindS_def split: prod.splits sum.splits maybe_async.splits)
qed

lemma awaiting_bind: "awaiting (bindS m f) = bindS m (\<lambda>a. awaiting (f a))"
  by (rule ext) (auto simp: awaiting_def bindS_def split: prod.splits sum.splits)

lemma settle_later: "settle (returnS (Later k)) ok fail = returnS (Later (guarded k ok fail))"
  by (rule ext) (simp add: settle_def failing_cases bindS_def)

lemma bindS_returnS: "bindS (returnS a) f = f a"
  by (rule ext) (simp add: bindS_def)

lemma awaiting_return [simp]: "awaiting (returnS (Now v)) = returnS v" "awaiting (returnS (Later k)) = k" "awaiting (raiseS e) = raiseS e"
  by (rule ext, simp add: awaiting_def bindS_def)+

section \<open>Transactions\<close>

abbreviation tx_calls :: "call set" where
  "tx_calls \<equiv> {CallBegin, CallCommit, CallRollback}"

lemma outside_call_ok: "okR (fst (m (wd_user s))) \<Longrightarrow> \<exists>a s'. outside_call c m s = (Inr a, s') \<and> wd_trace s' = wd_trace s @ [c]"
  by (cases "m (wd_user s)") (auto simp: outside_call_def okR_iff)

text \<open>
  C30. A transaction around a backend that makes no transaction calls of its own, called directly or awaited:
  when beginning raises, nothing else happens. Otherwise, when the backend succeeds, there is exactly one commit,
  after the run, and its value is returned unless the commit raises; when it raises an exception there is
  exactly one rollback, after the run, and the exception is raised again unless the rollback raises; only a
  run that is cancelled ends with neither.
\<close>

theorem transaction_once:
  assumes "calls A (awaiting (be_execute inner plan payload run))" "A \<inter> tx_calls = {}"
    and "awaiting (be_execute (transaction_wrap begin_tx inner) plan payload run) s = (r, s')"
  shows "\<exists>t. wd_trace s' = wd_trace s @ t \<and> (case begin_tx plan payload run (wd_user s) of
      (Inl e, _) \<Rightarrow> r = Inl e \<and> t = [CallBegin]
    | (Inr tx, u) \<Rightarrow> (case awaiting (be_execute inner plan payload run) (s\<lparr>wd_user := u, wd_trace := wd_trace s @ [CallBegin]\<rparr>) of
        (Inr v, s2) \<Rightarrow> filter (\<lambda>c. c \<in> tx_calls) t = [CallBegin, CallCommit] \<and> last t = CallCommit
          \<and> r = (case fst (tx_commit tx (wd_user s2)) of Inr _ \<Rightarrow> Inr v | Inl e \<Rightarrow> Inl e)
      | (Inl e, s2) \<Rightarrow> if is_exception e
          then filter (\<lambda>c. c \<in> tx_calls) t = [CallBegin, CallRollback] \<and> last t = CallRollback
            \<and> r = (case fst (tx_rollback tx e (wd_user s2)) of Inr _ \<Rightarrow> Inl e | Inl e' \<Rightarrow> Inl e')
          else filter (\<lambda>c. c \<in> tx_calls) t = [CallBegin] \<and> r = Inl e))"
proof -
  obtain b u where b: "begin_tx plan payload run (wd_user s) = (b, u)" by (cases "begin_tx plan payload run (wd_user s)")
  let ?s1 = "s\<lparr>wd_user := u, wd_trace := wd_trace s @ [CallBegin]\<rparr>" and ?m = "awaiting (be_execute inner plan payload run)"
  have o: "outside_call CallBegin (begin_tx plan payload run) s = (b, ?s1)" using b by (simp add: outside_call_def)
  show ?thesis
  proof (cases b)
    case (Inl e)
    then show ?thesis using b o assms(3) by (auto simp: transaction_wrap_def transaction_execute_def awaiting_bind bindS_def)
  next
    case (Inr tx)
    have g: "guarded ?m (\<lambda>_. outside_call CallCommit (tx_commit tx)) (\<lambda>e. outside_call CallRollback (tx_rollback tx e)) ?s1 = (r, s')"
      using assms(3) o Inr by (simp add: transaction_wrap_def transaction_execute_def awaiting_bind awaiting_settle bindS_def)
    obtain q s2 where q: "?m ?s1 = (q, s2)" by (cases "?m ?s1")
    from appendsE [OF assms(1) q] obtain v where v: "wd_trace s2 = wd_trace s @ CallBegin # v" "set v \<subseteq> A" by auto
    have no: "filter (\<lambda>c. c \<in> tx_calls) v = []" using v(2) assms(2) by (auto simp: filter_empty_conv)
    show ?thesis
      using g q no b Inr v(1)
      by (auto simp: guarded_cases outside_call_def split: sum.splits if_splits prod.splits)
  qed
qed

section \<open>Retries\<close>

text \<open>\<open>k\<close> attempts in a row that raised exceptions, each from the state the one before left.\<close>

inductive failed_attempts :: "('s, 'a) op \<Rightarrow> nat \<Rightarrow> 's \<Rightarrow> 's \<Rightarrow> bool" for m where
  none: "failed_attempts m 0 s s"
| more: "m s = (Inl e, s1) \<Longrightarrow> is_exception e \<Longrightarrow> failed_attempts m k s1 s2 \<Longrightarrow> failed_attempts m (Suc k) s s2"

inductive_cases failed_attemptsE: "failed_attempts m k s s'"

lemma retrying_outcome:
  assumes "retry_laws retrying" "0 < n" "retrying n m s = (r, s')"
  shows "\<exists>k s1. k < n \<and> failed_attempts m k s s1 \<and> m s1 = (r, s') \<and> (\<forall>e. r = Inl e \<and> is_exception e \<longrightarrow> Suc k = n)"
  using assms(2,3)
proof (induction n arbitrary: s)
  case (Suc n)
  have l: "case m s of (Inr a, s') \<Rightarrow> retrying (Suc n) m s = (Inr a, s')
      | (Inl e, s') \<Rightarrow> retrying (Suc n) m s = (if is_exception e \<and> 0 < n then retrying n m s' else (Inl e, s'))"
    using assms(1) [unfolded retry_laws_def, rule_format, of n m s] .
  obtain q s1 where q: "m s = (q, s1)" by (cases "m s")
  show ?case
  proof (cases "\<exists>e. q = Inl e \<and> is_exception e \<and> 0 < n")
    case True
    then obtain e where e: "q = Inl e" "is_exception e" "0 < n" by blast
    then have "retrying n m s1 = (r, s')" using l q Suc.prems(2) by simp
    from Suc.IH [OF e(3) this] obtain k s2 where "k < n" "failed_attempts m k s1 s2" "m s2 = (r, s')"
      "\<forall>e. r = Inl e \<and> is_exception e \<longrightarrow> Suc k = n" by blast
    then show ?thesis using q e by (intro exI [of _ "Suc k"] exI [of _ s2]) (auto intro: failed_attempts.more)
  next
    case False
    then have "(q, s1) = (r, s')" using l q Suc.prems(2) by (cases q) auto
    then show ?thesis using q False by (intro exI [of _ 0] exI [of _ s]) (auto intro: failed_attempts.none)
  qed
qed simp

text \<open>A backend that answers with a value, and one that answers with a coroutine and does nothing before it is awaited.\<close>

definition answers_now :: "('s, ('s, 'r) maybe_async) op \<Rightarrow> bool" where
  "answers_now m \<longleftrightarrow> (\<forall>s k s'. m s \<noteq> (Inr (Later k), s'))"

definition answers_later :: "('s, ('s, 'r) maybe_async) op \<Rightarrow> bool" where
  "answers_later m \<longleftrightarrow> (\<exists>k. m = returnS (Later k))"

lemma answers_now_bind: "answers_now m \<Longrightarrow> bindS m (\<lambda>r. case r of Later k \<Rightarrow> f k | Now v \<Rightarrow> returnS (Now v)) = m"
proof
  fix s assume "answers_now m"
  then show "bindS m (\<lambda>r. case r of Later k \<Rightarrow> f k | Now v \<Rightarrow> returnS (Now v)) s = m s"
    by (cases "m s") (auto simp: answers_now_def bindS_def split: sum.splits maybe_async.splits)
qed

lemma failed_attempts_awaiting:
  assumes "failed_attempts m k s s'"
  shows "failed_attempts (awaiting m) k s s'"
  using assms
proof induction
  case (more s e s1 k s2)
  then have "awaiting m s = (Inl e, s1)" by (simp add: awaiting_def bindS_def)
  then show ?case using more by (blast intro: failed_attempts.more)
qed (rule failed_attempts.none)

text \<open>
  C31. Retrying makes at most the configured number of attempts, at least one: the outcome is that of one attempt,
  run in the state that the failed attempts before it left, and each of those raised an exception; an
  exception is the outcome only of the last attempt that is allowed. This holds for backends that answer with
  a value and for those that answer with a coroutine, provided that retrying behaves as documented.
\<close>

theorem retry_attempts:
  assumes "retry_laws retrying" "retry_laws async_retrying" "mk_retry attempts = Inr n"
    and "answers_now (be_execute inner plan payload run) \<or> answers_later (be_execute inner plan payload run)"
    and "awaiting (be_execute (retry_wrap retrying async_retrying n inner) plan payload run) s = (r, s')"
  shows "\<exists>k s1. int k < attempts \<and> failed_attempts (awaiting (be_execute inner plan payload run)) k s s1
    \<and> awaiting (be_execute inner plan payload run) s1 = (r, s') \<and> (\<forall>e. r = Inl e \<and> is_exception e \<longrightarrow> int k + 1 = attempts)"
proof -
  let ?m = "be_execute inner plan payload run"
  have n: "0 < n" "attempts = int n" using assms(3) by (auto simp: mk_retry_def split: if_splits)
  show ?thesis
  proof (cases "answers_now ?m")
    case True
    let ?R = "be_execute (retry_wrap retrying async_retrying n inner) plan payload run"
    obtain q s2 where q: "?R s = (q, s2)" by (cases "?R s")
    then have "retrying n ?m s = (q, s2)" by (simp add: retry_wrap_def retry_execute_def answers_now_bind [OF True])
    from retrying_outcome [OF assms(1) n(1) this] obtain k s1 where k: "k < n" "failed_attempts ?m k s s1" "?m s1 = (q, s2)"
      "\<forall>e. q = Inl e \<and> is_exception e \<longrightarrow> Suc k = n" by blast
    have a: "awaiting ?m s1 = (r, s')" "r = Inl e \<longrightarrow> q = Inl e" for e
      using assms(5) q k(3) True by (auto simp: awaiting_def bindS_def answers_now_def split: sum.splits maybe_async.splits)
    then show ?thesis using k failed_attempts_awaiting n(2) by (intro exI [of _ k] exI [of _ s1]) auto
  next
    case False
    then obtain k where m: "?m = returnS (Later k)" using assms(4) by (auto simp: answers_later_def)
    let ?body = "returnS (Later (async_retrying n k))"
    have "retrying n ?body s = (Inr (Later (async_retrying n k)), s)"
      using retrying_outcome [OF assms(1) n(1), of ?body s] by (cases "retrying n ?body s") (auto elim: failed_attemptsE)
    then have "async_retrying n k s = (r, s')"
      using assms(5) unfolding retry_wrap_def retry_execute_def backend_port.simps m bindS_returnS by (simp add: awaiting_def bindS_def)
    from retrying_outcome [OF assms(2) n(1) this] obtain i s1 where "i < n" "failed_attempts k i s s1" "k s1 = (r, s')"
      "\<forall>e. r = Inl e \<and> is_exception e \<longrightarrow> Suc i = n" by blast
    then show ?thesis using n(2) by (intro exI [of _ i] exI [of _ s1]) (auto simp: m)
  qed
qed

text \<open>Calls of begin against calls of commit and rollback.\<close>

definition begun :: "call list \<Rightarrow> int" where
  "begun t = int (length (filter (\<lambda>c. c = CallBegin) t)) - int (length (filter (\<lambda>c. c = CallCommit \<or> c = CallRollback) t))"

lemma begun_append [simp]: "begun (t @ u) = begun t + begun u" "begun [] = 0"
  "begun (CallBegin # t) = begun t + 1" "begun (CallCommit # t) = begun t - 1" "begun (CallRollback # t) = begun t - 1"
  by (simp_all add: begun_def)

lemma begun_none: "set t \<subseteq> A \<Longrightarrow> A \<inter> tx_calls = {} \<Longrightarrow> begun t = 0"
  unfolding begun_def by (induction t) auto

lemma transaction_balanced:
  assumes "calls A (awaiting (be_execute inner plan payload run))" "A \<inter> tx_calls = {}" "\<forall>u. okR (fst (begin_tx plan payload run u))"
    and "awaiting (be_execute (transaction_wrap begin_tx inner) plan payload run) s = (r, s')" "\<forall>e. r = Inl e \<longrightarrow> is_exception e"
  shows "begun (wd_trace s') = begun (wd_trace s)"
proof -
  let ?m = "awaiting (be_execute inner plan payload run)"
  obtain tx s1 where b: "outside_call CallBegin (begin_tx plan payload run) s = (Inr tx, s1)" "wd_trace s1 = wd_trace s @ [CallBegin]"
    using outside_call_ok [of "begin_tx plan payload run" s CallBegin] assms(3) by blast
  then have g: "guarded ?m (\<lambda>_. outside_call CallCommit (tx_commit tx)) (\<lambda>e. outside_call CallRollback (tx_rollback tx e)) s1 = (r, s')"
    using assms(4) by (simp add: transaction_wrap_def transaction_execute_def awaiting_bind awaiting_settle bindS_def)
  obtain q s2 where q: "?m s1 = (q, s2)" by (cases "?m s1")
  from appendsE [OF assms(1) q] obtain v where v: "wd_trace s2 = wd_trace s1 @ v" "set v \<subseteq> A" by blast
  show ?thesis
    using g q assms(5) b(2) v(1) begun_none [OF v(2) assms(2)]
    by (auto simp: guarded_cases outside_call_def split: sum.splits if_splits prod.splits)
qed

lemma failed_attempts_balanced:
  assumes "failed_attempts m k s s'" "\<And>s e s'. m s = (Inl e, s') \<Longrightarrow> is_exception e \<Longrightarrow> begun (wd_trace s') = begun (wd_trace s)"
  shows "begun (wd_trace s') = begun (wd_trace s)"
  using assms by (induction rule: failed_attempts.induct) auto

text \<open>
  C33. Retrying around a transaction leaves a transaction open when the backend is asynchronous: the first answer
  of the transaction is an awaitable for a transaction that has begun, and retrying drops it and starts
  again. On every run that is not cancelled there is one call of begin more than of commit and rollback.
\<close>

theorem retry_leaves_transaction_open:
  assumes "retry_laws retrying" "retry_laws async_retrying" "0 < n"
    and "calls A (async_execute (xs\<lparr>xs_run := run\<rparr>) plan payload)" "A \<inter> tx_calls = {}" "\<forall>u. okR (fst (begin_tx plan payload run u))"
    and "awaiting (be_execute (retry_wrap retrying async_retrying n (transaction_wrap begin_tx (async_backend xs))) plan payload run) s = (r, s')"
    and "\<forall>e. r = Inl e \<longrightarrow> is_exception e"
  shows "begun (wd_trace s') = begun (wd_trace s) + 1"
proof -
  let ?T = "transaction_wrap begin_tx (async_backend xs)"
  let ?m = "be_execute ?T plan payload run" and ?k = "async_execute (xs\<lparr>xs_run := run\<rparr>) plan payload"
  have T: "?m = bindS (outside_call CallBegin (begin_tx plan payload run)) (\<lambda>tx.
      returnS (Later (guarded ?k (\<lambda>_. outside_call CallCommit (tx_commit tx)) (\<lambda>e. outside_call CallRollback (tx_rollback tx e)))))"
    by (simp add: transaction_wrap_def transaction_execute_def async_backend_def settle_later)
  obtain tx s1 where b: "outside_call CallBegin (begin_tx plan payload run) s = (Inr tx, s1)" "wd_trace s1 = wd_trace s @ [CallBegin]"
    using outside_call_ok [of "begin_tx plan payload run" s CallBegin] assms(6) by blast
  let ?body = "bindS ?m (\<lambda>result. case result of Later k \<Rightarrow> k | Now _ \<Rightarrow> raiseS TypeError)"
  have body: "?body = awaiting ?m" by (rule ext) (auto simp: T awaiting_def bindS_def split: prod.splits sum.splits)
  let ?outer = "bindS ?m (\<lambda>result. case result of Later _ \<Rightarrow> returnS (Later (async_retrying n (awaiting ?m))) | Now v \<Rightarrow> returnS (Now v))"
  have "?outer s = (Inr (Later (async_retrying n (awaiting ?m))), s1)" using b by (simp add: T bindS_def)
  then have "retrying n ?outer s = (Inr (Later (async_retrying n (awaiting ?m))), s1)"
    using assms(1) [unfolded retry_laws_def, rule_format, of "n - 1" ?outer s] assms(3) by simp
  moreover have exec: "be_execute (retry_wrap retrying async_retrying n ?T) plan payload run = retrying n ?outer"
    by (simp only: retry_wrap_def retry_execute_def backend_port.simps body)
  ultimately have run: "async_retrying n (awaiting ?m) s1 = (r, s')"
    using assms(7) unfolding exec awaiting_def [of "retrying n ?outer"] by (simp add: bindS_def)
  have inner: "calls A (awaiting (be_execute (async_backend xs) plan payload run))" using assms(4) by (simp add: async_backend_def)
  note bal = transaction_balanced [of A _ plan payload run begin_tx, OF inner assms(5,6)]
  obtain k s2 where k: "failed_attempts (awaiting ?m) k s1 s2" "awaiting ?m s2 = (r, s')"
    using retrying_outcome [OF assms(2,3) run] by blast
  have "begun (wd_trace s2) = begun (wd_trace s1)"
    by (rule failed_attempts_balanced [OF k(1)]) (auto intro!: bal)
  then show ?thesis using bal [OF k(2) assms(8)] b(2) by simp
qed

section \<open>Idempotent runs\<close>

text \<open>
  What a store promises, in terms of the state of its keys: a key is free, claimed without a result yet, or has
  a result, which \<open>get\<close> gives (and \<open>None\<close> without one). No operation of it raises.
\<close>

definition known_result :: "json option option \<Rightarrow> json" where
  "known_result x = (case x of Some (Some v) \<Rightarrow> v | _ \<Rightarrow> JNull)"

definition store_laws :: "'w idempotency_store \<Rightarrow> ('w \<Rightarrow> string \<rightharpoonup> json option) \<Rightarrow> bool" where
  "store_laws st held \<longleftrightarrow> (\<forall>k u.
     (\<exists>u'. is_get st k u = (Inr (known_result (held u k)), u') \<and> held u' = held u)
   \<and> (\<exists>u'. is_claim st k u = (Inr (held u k = None), u') \<and> held u' = (if held u k = None then (held u)(k \<mapsto> None) else held u))
   \<and> (\<forall>v. \<exists>u'. is_complete st k v u = (Inr (), u') \<and> held u' = (held u)(k \<mapsto> Some v))
   \<and> (\<exists>u'. is_release st k u = (Inr (), u') \<and> held u' = (held u)(k := None)))"

lemma outside_call_returns:
  "m (wd_user s) = (Inr a, u) \<Longrightarrow> outside_call c m s = (Inr a, s\<lparr>wd_user := u, wd_trace := wd_trace s @ [c]\<rparr>)"
  by (simp add: outside_call_def)

lemma store_calls:
  assumes "store_laws st held"
  shows "\<exists>s'. outside_call c (is_get st k) s = (Inr (known_result (held (wd_user s) k)), s')
      \<and> held (wd_user s') = held (wd_user s) \<and> wd_trace s' = wd_trace s @ [c]"
    and "\<exists>s'. outside_call c (is_claim st k) s = (Inr (held (wd_user s) k = None), s') \<and> wd_trace s' = wd_trace s @ [c]
      \<and> held (wd_user s') = (if held (wd_user s) k = None then (held (wd_user s))(k \<mapsto> None) else held (wd_user s))"
    and "\<exists>s'. outside_call c (is_complete st k v) s = (Inr (), s')
      \<and> held (wd_user s') = (held (wd_user s))(k \<mapsto> Some v) \<and> wd_trace s' = wd_trace s @ [c]"
    and "\<exists>s'. outside_call c (is_release st k) s = (Inr (), s')
      \<and> held (wd_user s') = (held (wd_user s))(k := None) \<and> wd_trace s' = wd_trace s @ [c]"
proof -
  note l = assms [unfolded store_laws_def, rule_format, of k "wd_user s"]
  show "\<exists>s'. outside_call c (is_get st k) s = (Inr (known_result (held (wd_user s) k)), s')
      \<and> held (wd_user s') = held (wd_user s) \<and> wd_trace s' = wd_trace s @ [c]"
    using conjunct1 [OF l] outside_call_returns [of "is_get st k" s _ _ c] by fastforce
  show "\<exists>s'. outside_call c (is_claim st k) s = (Inr (held (wd_user s) k = None), s') \<and> wd_trace s' = wd_trace s @ [c]
      \<and> held (wd_user s') = (if held (wd_user s) k = None then (held (wd_user s))(k \<mapsto> None) else held (wd_user s))"
    using l outside_call_returns [of "is_claim st k" s _ _ c] by fastforce
  obtain u where "is_complete st k v (wd_user s) = (Inr (), u)" "held u = (held (wd_user s))(k \<mapsto> Some v)" using l by blast
  then show "\<exists>s'. outside_call c (is_complete st k v) s = (Inr (), s')
      \<and> held (wd_user s') = (held (wd_user s))(k \<mapsto> Some v) \<and> wd_trace s' = wd_trace s @ [c]"
    using outside_call_returns [of "is_complete st k v" s _ _ c] by fastforce
  show "\<exists>s'. outside_call c (is_release st k) s = (Inr (), s')
      \<and> held (wd_user s') = (held (wd_user s))(k := None) \<and> wd_trace s' = wd_trace s @ [c]"
    using l outside_call_returns [of "is_release st k" s _ _ c] by fastforce
qed

lemma idempotency_held:
  assumes "store_laws st held" "\<forall>u. key_factory plan payload run u = (Inr k, u)" "held (wd_user s) k = Some x"
  shows "\<exists>s'. awaiting (be_execute (idempotency_wrap key_factory st inner) plan payload run) s
      = ((if known_result (Some x) \<noteq> JNull then Inr (known_result (Some x)) else Inl RuntimeError), s')
    \<and> held (wd_user s') = held (wd_user s)
    \<and> wd_trace s' = wd_trace s @ (if known_result (Some x) \<noteq> JNull then [CallKey, CallGet] else [CallKey, CallGet, CallClaim, CallGet])"
proof -
  let ?s1 = "s\<lparr>wd_trace := wd_trace s @ [CallKey]\<rparr>" and ?v = "known_result (Some x)"
  have key: "outside_call CallKey (key_factory plan payload run) s = (Inr k, ?s1)" using assms(2) by (simp add: outside_call_def)
  obtain s2 where s2: "outside_call CallGet (is_get st k) ?s1 = (Inr ?v, s2)" "held (wd_user s2) = held (wd_user s)"
    "wd_trace s2 = wd_trace s @ [CallKey, CallGet]"
    using store_calls(1) [OF assms(1), of CallGet k ?s1] assms(3) by auto
  show ?thesis
  proof (cases "?v = JNull")
    case False
    then show ?thesis using key s2 by (simp add: idempotency_wrap_def idempotency_execute_def awaiting_bind bindS_def)
  next
    case True
    obtain s3 where s3: "outside_call CallClaim (is_claim st k) s2 = (Inr False, s3)" "held (wd_user s3) = held (wd_user s)"
      "wd_trace s3 = wd_trace s2 @ [CallClaim]"
      using store_calls(2) [OF assms(1), of CallClaim k s2] assms(3) s2(2) by auto
    obtain s4 where s4: "outside_call CallGet (is_get st k) s3 = (Inr ?v, s4)" "held (wd_user s4) = held (wd_user s)"
      "wd_trace s4 = wd_trace s3 @ [CallGet]"
      using store_calls(1) [OF assms(1), of CallGet k s3] assms(3) s3(2) by auto
    show ?thesis using True key s2 s3 s4 by (simp add: idempotency_wrap_def idempotency_execute_def awaiting_bind bindS_def)
  qed
qed

lemma idempotency_free:
  assumes "store_laws st held" "\<forall>u. key_factory plan payload run u = (Inr k, u)" "held (wd_user s) k = None"
    and "\<forall>s. held (wd_user (snd (awaiting (be_execute inner plan payload run) s))) = held (wd_user s)"
  shows "\<exists>s1 r s2 s'. wd_trace s1 = wd_trace s @ [CallKey, CallGet, CallClaim]
    \<and> awaiting (be_execute inner plan payload run) s1 = (r, s2)
    \<and> awaiting (be_execute (idempotency_wrap key_factory st inner) plan payload run) s = (r, s')
    \<and> held (wd_user s') = (held (wd_user s))(k := (case r of Inr v \<Rightarrow> Some (Some v) | Inl e \<Rightarrow> if is_exception e then None else Some None))"
proof -
  let ?s1 = "s\<lparr>wd_trace := wd_trace s @ [CallKey]\<rparr>" and ?m = "awaiting (be_execute inner plan payload run)"
  have key: "outside_call CallKey (key_factory plan payload run) s = (Inr k, ?s1)" using assms(2) by (simp add: outside_call_def)
  obtain s2 where s2: "outside_call CallGet (is_get st k) ?s1 = (Inr JNull, s2)" "held (wd_user s2) = held (wd_user s)"
    "wd_trace s2 = wd_trace s @ [CallKey, CallGet]"
    using store_calls(1) [OF assms(1), of CallGet k ?s1] assms(3) by (auto simp: known_result_def)
  obtain s3 where s3: "outside_call CallClaim (is_claim st k) s2 = (Inr True, s3)" "held (wd_user s3) = (held (wd_user s))(k \<mapsto> None)"
    "wd_trace s3 = wd_trace s2 @ [CallClaim]"
    using store_calls(2) [OF assms(1), of CallClaim k s2] assms(3) s2(2) by auto
  have run: "awaiting (be_execute (idempotency_wrap key_factory st inner) plan payload run) s =
      guarded ?m (\<lambda>v. outside_call CallComplete (is_complete st k v)) (\<lambda>e. outside_call CallRelease (is_release st k)) s3"
    using key s2 s3 by (simp add: idempotency_wrap_def idempotency_execute_def awaiting_bind bindS_def) (simp add: awaiting_settle)
  obtain r s4 where m: "?m s3 = (r, s4)" by (cases "?m s3")
  then have h: "held (wd_user s4) = (held (wd_user s))(k \<mapsto> None)" using assms(4) s3(2) by (metis snd_conv)
  show ?thesis
  proof (cases r)
    case (Inr v)
    then show ?thesis using run m h s2(3) s3(3) store_calls(3) [OF assms(1), of CallComplete k v s4]
      by (rule_tac exI [of _ s3], rule_tac exI [of _ r], rule_tac exI [of _ s4]) (auto simp: guarded_cases)
  next
    case (Inl e)
    then show ?thesis using run m h s2(3) s3(3) store_calls(4) [OF assms(1), of CallRelease k s4]
      by (rule_tac exI [of _ s3], rule_tac exI [of _ r], rule_tac exI [of _ s4]) (auto simp: guarded_cases)
  qed
qed

text \<open>
  C32. Idempotent runs over a store that keeps its promises, with the same key, which at first is free or has
  a result other than \<open>None\<close>: once a run has returned a value other than \<open>None\<close>, every later run returns
  that value and calls nothing but the key factory and the store's \<open>get\<close>, and in particular not the backend. A
  run that returned \<open>None\<close> makes the next one raise \<open>RuntimeError\<close>, since \<open>None\<close> is also what the store answers
  without a result. A run that raised an exception leaves the key free, so that the next run calls the backend
  again; a run that was cancelled leaves it claimed, and the next run raises \<open>RuntimeError\<close>.
\<close>

theorem idempotent_run:
  assumes "store_laws st held" "\<forall>u. key_factory plan payload run u = (Inr k, u)"
    and "\<forall>s. held (wd_user (snd (awaiting (be_execute inner plan payload run) s))) = held (wd_user s)"
    and "held (wd_user s) k \<notin> {Some None, Some (Some JNull)}"
    and "awaiting (be_execute (idempotency_wrap key_factory st inner) plan payload run) s = (r, s1)"
  shows "(case r of
      Inr v \<Rightarrow> if v = JNull then \<exists>s2. awaiting (be_execute (idempotency_wrap key_factory st inner) plan payload run) s1 = (Inl RuntimeError, s2)
        else \<exists>s2. awaiting (be_execute (idempotency_wrap key_factory st inner) plan payload run) s1 = (Inr v, s2)
          \<and> wd_trace s2 = wd_trace s1 @ [CallKey, CallGet] \<and> held (wd_user s2) = held (wd_user s1)
    | Inl e \<Rightarrow> if is_exception e then held (wd_user s1) k = None
        else \<exists>s2. awaiting (be_execute (idempotency_wrap key_factory st inner) plan payload run) s1 = (Inl RuntimeError, s2))"
proof -
  note again = idempotency_held [of st held key_factory plan payload run k _ _ inner, OF assms(1,2)]
  have after: "held (wd_user s1) k = (case r of Inr v \<Rightarrow> Some (Some v) | Inl e \<Rightarrow> if is_exception e then None else Some None)"
  proof (cases "held (wd_user s) k")
    case None
    from idempotency_free [of st held key_factory plan payload run k s inner, OF assms(1,2) None assms(3)] show ?thesis using assms(5) by auto
  next
    case (Some x)
    then obtain v where "x = Some v" "v \<noteq> JNull" using assms(4) by (cases x) auto
    with again [OF Some] show ?thesis using assms(5) Some by (auto simp: known_result_def)
  qed
  then show ?thesis using again [of s1] by (auto simp: known_result_def split: sum.splits if_splits)
qed

section \<open>Concrete collaborators\<close>

fun sample_retrying :: "nat \<Rightarrow> ('s, 'a) op \<Rightarrow> ('s, 'a) op" where
  "sample_retrying 0 m = raiseS AssertionError"
| "sample_retrying (Suc n) m = catchS m (\<lambda>e. if is_exception e \<and> 0 < n then sample_retrying n m else raiseS e)"

lemma sample_retrying_laws: "retry_laws sample_retrying"
  unfolding retry_laws_def by (auto simp: catchS_def split: prod.splits sum.splits)

text \<open>A backend that fails until the counter reaches a number, and a transaction manager whose transactions do nothing.\<close>

definition sample_flaky :: "nat \<Rightarrow> ('v, 'm, nat) backend_port" where
  "sample_flaky n = \<lparr>be_name = ''Flaky'', be_execute = (\<lambda>plan payload run.
     outside_call CallMigration (\<lambda>u. (if u < n then Inl UserError else Inr (Now payload), Suc u)))\<rparr>"

definition sample_begin :: "('v, 'm, nat) transaction_manager" where
  "sample_begin plan payload run = returnS \<lparr>tx_commit = returnS (), tx_rollback = (\<lambda>_. returnS ())\<rparr>"

text \<open>Keys are texts and the store is an association list of claimed keys with their results.\<close>

definition sample_store :: "(string \<times> json option) list idempotency_store" where
  "sample_store = \<lparr>is_get = (\<lambda>k u. (Inr (known_result (map_of u k)), u)),
     is_claim = (\<lambda>k u. if map_of u k = None then (Inr True, (k, None) # u) else (Inr False, u)),
     is_complete = (\<lambda>k v u. (Inr (), (k, Some v) # u)), is_release = (\<lambda>k u. (Inr (), AList.delete k u))\<rparr>"

lemma sample_store_laws: "store_laws sample_store map_of"
  unfolding store_laws_def by (auto simp: sample_store_def delete_conv' fun_eq_iff)

lemma sample_no_tx: "Collect step_call \<inter> tx_calls = {}"
  by auto

lemmas sample_async_simps = async_execute_def start_hooks_def run_entry_async_def entry_value_def execute_async_def execute_step_async_def
  mk_step_context_def step_name_def migration_func_def dataset_from_node_def run_async_def step_body_async_def before_async_def after_async_def
  async_invoke_def sample_plan_def sample_bound_def sample_planned_def sample_binding_def sample_setup_def sample_payload_def sample_model_def

lemma sample_async_runs: "\<exists>v s'. async_execute (sample_setup\<lparr>xs_run := sample_run\<rparr>) sample_plan sample_payload s = (Inr v, s')"
  by (simp add: sample_async_simps sample_step_simps)

lemma sample_async_calls: "calls (Collect step_call) (awaiting (be_execute (async_backend sample_setup) sample_plan sample_payload sample_run))"
  by (simp add: async_backend_def) (rule backend_calls)

theorem transaction_once_witness:
  "filter (\<lambda>c. c \<in> tx_calls) (wd_trace (snd (awaiting (be_execute (transaction_wrap sample_begin (async_backend sample_setup)) sample_plan
      sample_payload sample_run) \<lparr>wd_user = 0, wd_trace = []\<rparr>))) = [CallBegin, CallCommit]"
proof -
  let ?m = "awaiting (be_execute (transaction_wrap sample_begin (async_backend sample_setup)) sample_plan sample_payload sample_run)"
  obtain r s' where m: "?m \<lparr>wd_user = 0, wd_trace = []\<rparr> = (r, s')" by (cases "?m \<lparr>wd_user = 0, wd_trace = []\<rparr>")
  from transaction_once [OF sample_async_calls sample_no_tx m] show ?thesis
    using sample_async_runs [of "\<lparr>wd_user = 0, wd_trace = [CallBegin]\<rparr>"] m
    by (auto simp: sample_begin_def async_backend_def split: prod.splits sum.splits)
qed

theorem retry_attempts_witness:
  "\<exists>k s1. k < (3 :: nat) \<and> failed_attempts (awaiting (be_execute (sample_flaky 2) sample_plan JNull sample_run)) k \<lparr>wd_user = 0, wd_trace = []\<rparr> s1
     \<and> fst (awaiting (be_execute (sample_flaky 2) sample_plan JNull sample_run) s1) = Inr JNull"
proof -
  let ?s = "\<lparr>wd_user = 0, wd_trace = []\<rparr> :: nat world"
  have now: "answers_now (be_execute (sample_flaky 2) sample_plan JNull sample_run)"
    by (simp add: answers_now_def sample_flaky_def outside_call_def)
  have "fst (awaiting (be_execute (retry_wrap sample_retrying sample_retrying 3 (sample_flaky 2)) sample_plan JNull sample_run) ?s) = Inr JNull"
    by (simp add: retry_wrap_def retry_execute_def sample_flaky_def awaiting_def bindS_def catchS_def outside_call_def is_exception_def numeral_3_eq_3)
  then obtain s' where run: "awaiting (be_execute (retry_wrap sample_retrying sample_retrying 3 (sample_flaky 2)) sample_plan JNull sample_run) ?s
      = (Inr JNull, s')" by (metis prod.collapse)
  have "mk_retry 3 = Inr 3" by (simp add: mk_retry_def)
  from retry_attempts [OF sample_retrying_laws sample_retrying_laws this disjI1 [OF now] run]
  obtain k s1 where "int k < 3" "failed_attempts (awaiting (be_execute (sample_flaky 2) sample_plan JNull sample_run)) k ?s s1"
    "awaiting (be_execute (sample_flaky 2) sample_plan JNull sample_run) s1 = (Inr JNull, s')" by blast
  then show ?thesis by (intro exI [of _ k] exI [of _ s1]) auto
qed

theorem retry_leaves_transaction_open_witness:
  "begun (wd_trace (snd (awaiting (be_execute (retry_wrap sample_retrying sample_retrying 2 (transaction_wrap sample_begin (async_backend sample_setup)))
     sample_plan sample_payload sample_run) \<lparr>wd_user = 0, wd_trace = []\<rparr>))) = 1"
proof -
  let ?m = "be_execute (transaction_wrap sample_begin (async_backend sample_setup)) sample_plan sample_payload sample_run"
  let ?r = "awaiting (be_execute (retry_wrap sample_retrying sample_retrying 2 (transaction_wrap sample_begin (async_backend sample_setup)))
     sample_plan sample_payload sample_run)"
  have b: "\<forall>u. okR (fst (sample_begin sample_plan sample_payload sample_run u))" by (simp add: sample_begin_def)
  have "\<exists>v. fst (?r \<lparr>wd_user = 0, wd_trace = []\<rparr>) = Inr v"
    using sample_async_runs [of "\<lparr>wd_user = 0, wd_trace = [CallBegin, CallBegin]\<rparr>"]
    by (auto simp: retry_wrap_def retry_execute_def transaction_wrap_def transaction_execute_def async_backend_def settle_later awaiting_def bindS_def
        catchS_def numeral_2_eq_2 outside_call_def sample_begin_def guarded_cases split: prod.splits sum.splits)
  then obtain v s' where run: "?r \<lparr>wd_user = 0, wd_trace = []\<rparr> = (Inr v, s')" by (metis prod.collapse)
  from retry_leaves_transaction_open [OF sample_retrying_laws sample_retrying_laws _ backend_calls(3) sample_no_tx b run] run show ?thesis by simp
qed

definition sample_echo :: "('v, 'm, (string \<times> json option) list) backend_port" where
  "sample_echo = \<lparr>be_name = ''Echo'', be_execute = (\<lambda>plan payload run. outside_call CallMigration (returnS (Now payload)))\<rparr>"

definition sample_idle :: "(nat, unit, (string \<times> json option) list) execution_plan" where
  "sample_idle = \<lparr>ep_path = \<lparr>pp_entries = [], pp_source_model = None\<rparr>, ep_payload = JNull, ep_levels = []\<rparr>"

theorem idempotent_run_witness:
  "let run = awaiting (be_execute (idempotency_wrap (\<lambda>_ _ _. returnS ''k'') sample_store sample_echo) sample_idle (JObj []) sample_run)
   in \<exists>s1 s2. run \<lparr>wd_user = [], wd_trace = []\<rparr> = (Inr (JObj []), s1) \<and> CallMigration \<in> set (wd_trace s1)
     \<and> run s1 = (Inr (JObj []), s2) \<and> wd_trace s2 = wd_trace s1 @ [CallKey, CallGet]"
proof -
  let ?I = "awaiting (be_execute (idempotency_wrap (\<lambda>_ _ _. returnS ''k'') sample_store sample_echo) sample_idle (JObj []) sample_run)"
  have k: "\<forall>u. (\<lambda>_ _ _. returnS ''k'') sample_idle (JObj []) sample_run u = (Inr ''k'', u)" by simp
  have inner: "\<forall>s. map_of (wd_user (snd (awaiting (be_execute sample_echo sample_idle (JObj []) sample_run) s))) = map_of (wd_user s)"
    by (simp add: sample_echo_def awaiting_def bindS_def outside_call_def)
  obtain s1 where run: "?I \<lparr>wd_user = [], wd_trace = []\<rparr> = (Inr (JObj []), s1)" "CallMigration \<in> set (wd_trace s1)"
    by (simp add: idempotency_wrap_def idempotency_execute_def sample_echo_def sample_store_def awaiting_bind awaiting_settle bindS_def outside_call_def
        settle_def failing_cases awaiting_def known_result_def)
  have free: "map_of (wd_user \<lparr>wd_user = [], wd_trace = []\<rparr>) ''k'' \<notin> {Some None, Some (Some JNull)}" by simp
  from idempotent_run [of sample_store map_of "\<lambda>_ _ _. returnS ''k''" sample_idle "JObj []" sample_run "''k''" sample_echo, OF sample_store_laws k inner free run(1)]
  show ?thesis using run by (auto simp: Let_def)
qed

end
