(* ===== verification/Runner.thy ===== *)
theory Runner
  imports Middleware
begin

text \<open>
  The runner of \<open>runtime/runner.py\<close>: planning with a check that every target model is known, execution through
  the middleware with run telemetry, and validation of the migrated entries against their target models.
  Payloads are values, so the copy policy, which decides whether the caller's objects may be changed in
  place, has no effect on results here.
\<close>

section \<open>The runner\<close>

record ('v, 'm, 'w) runner =
  rn_coordinator :: "('v, 'm, 'w) coordinator"
  rn_adapter :: "'m model_adapter"
  rn_backend :: "('v, 'm, 'w) backend_port"
  rn_middleware :: "(('v, 'm, 'w) backend_port \<Rightarrow> ('v, 'm, 'w) backend_port) list"
  rn_telemetry :: "('v, 'w) telemetry_publisher"
  rn_new_id :: "string \<Rightarrow> ('w, string) op"
  rn_copy :: string

definition known_target :: "'m model_adapter \<Rightarrow> 'v plan_entry \<Rightarrow> unit res" where
  "known_target adapter e = bindR (ma_resolve adapter (pe_target_model e)) (\<lambda>m.
     if \<not> ma_identify adapter m then Inl UnknownModelError else Inr ())"

definition runner_plan :: "('v::linorder, 'm, 'w) runner \<Rightarrow> json \<Rightarrow> ('v, 'm) target_policy \<Rightarrow> 'm option \<Rightarrow> int
    \<Rightarrow> (('v, 'm) coordinator_state, ('v, 'm, 'w) execution_plan) op" where
  "runner_plan rn payload target source_model max_depth =
     bindS (coordinator_plan (rn_coordinator rn) payload target source_model max_depth) (\<lambda>plan.
     bindS (liftS (mapR (known_target (rn_adapter rn)) (pp_entries (ep_path plan)))) (\<lambda>_. returnS plan))"

definition copy_payload :: "string \<Rightarrow> json \<Rightarrow> json" where
  "copy_payload policy payload = (if policy = ''none'' then payload else if policy = ''shallow'' then payload else payload)"

text \<open>\<open>for layer in reversed(self.middleware): backend = layer.wrap(backend)\<close>.\<close>

definition wrapped :: "('v, 'm, 'w) runner \<Rightarrow> ('v, 'm, 'w) backend_port" where
  "wrapped rn = fold (\<lambda>layer backend. layer backend) (rev (rn_middleware rn)) (rn_backend rn)"

definition report_success :: "('v, 'm, 'w) runner \<Rightarrow> 'v telemetry_event \<Rightarrow> ('w world, unit) op" where
  "report_success rn ev = (if emits_success (rn_telemetry rn) then emit (rn_telemetry rn) ev else returnS ())"

definition report_failure :: "('v, 'm, 'w) runner \<Rightarrow> 'v telemetry_event \<Rightarrow> ('w world, unit) op" where
  "report_failure rn ev = (if emits_failure (rn_telemetry rn) then emit (rn_telemetry rn) ev else returnS ())"

definition await_result :: "('v, 'm, 'w) runner \<Rightarrow> ('w world, json) op \<Rightarrow> run_context \<Rightarrow> ('v, 'm, 'w) execution_plan \<Rightarrow> ('w world, json) op" where
  "await_result rn result run plan =
     bindS (catchS result (\<lambda>e. bindS (report_failure rn (RunFailed run (pp_entries (ep_path plan)) e)) (\<lambda>_. raiseS e))) (\<lambda>value.
     bindS (report_success rn (RunCompleted run (pp_entries (ep_path plan)))) (\<lambda>_. returnS value))"

definition run_context_for :: "('v, 'm, 'w) runner \<Rightarrow> string \<Rightarrow> pyval bindings option \<Rightarrow> run_context" where
  "run_context_for rn run_id context = \<lparr>rc_run_id = run_id,
     rc_namespace = mg_namespace (pf_graph (co_finder (rn_coordinator rn))), rc_bindings = context_create context\<rparr>"

definition runner_execute :: "('v, 'm, 'w) runner \<Rightarrow> ('v, 'm, 'w) execution_plan \<Rightarrow> pyval bindings option \<Rightarrow> string option
    \<Rightarrow> ('w world, ('w world, json) maybe_async) op" where
  "runner_execute rn plan context run_id =
     (let data = copy_payload (rn_copy rn) (ep_payload plan); es = pp_entries (ep_path plan)
      in bindS (case run_id of Some i \<Rightarrow> if i \<noteq> [] then returnS i else outside_call CallNewId (rn_new_id rn ''run_'')
             | None \<Rightarrow> outside_call CallNewId (rn_new_id rn ''run_'')) (\<lambda>active.
         let run = run_context_for rn active context
         in bindS (report_success rn (RunStarted run es)) (\<lambda>_.
            bindS (catchS (be_execute (wrapped rn) plan data run)
              (\<lambda>e. bindS (report_failure rn (RunFailed run es e)) (\<lambda>_. raiseS e))) (\<lambda>result.
            case result of
              Later k \<Rightarrow> returnS (Later (await_result rn k run plan))
            | Now v \<Rightarrow> bindS (report_success rn (RunCompleted run es)) (\<lambda>_. returnS (Now v))))))"

section \<open>Validation of the target\<close>

definition set_value :: "path \<Rightarrow> (string \<times> json) list \<Rightarrow> json \<Rightarrow> json res" where
  "set_value p fin data = (case data of JObj d \<Rightarrow> path_set p fin d | _ \<Rightarrow> path_assign p (JObj fin) data)"

definition validate_entry :: "'m model_adapter \<Rightarrow> 'v plan_entry \<Rightarrow> json \<Rightarrow> json res" where
  "validate_entry adapter e data = bindR (path_get (pe_path e) data) (\<lambda>v. case v of
     JObj d \<Rightarrow> bindR (ma_resolve adapter (pe_target_model e)) (\<lambda>m.
       case bindR (ma_finalize adapter m d) (\<lambda>fin. set_value (pe_path e) fin data) of
         Inr data' \<Rightarrow> Inr data'
       | Inl err \<Rightarrow> if is_exception err then Inl TargetValidationError else Inl err)
   | _ \<Rightarrow> Inl TargetValidationError)"

fun validate_target :: "'m model_adapter \<Rightarrow> 'v plan_entry list \<Rightarrow> json \<Rightarrow> json res" where
  "validate_target adapter [] data = Inr data"
| "validate_target adapter (e # es) data = bindR (validate_entry adapter e data) (validate_target adapter es)"

text \<open>A coroutine is no dictionary and has no subscript: validating it raises as soon as there is an entry.\<close>

definition validate_answer :: "'m model_adapter \<Rightarrow> 'v plan_entry list \<Rightarrow> ('s, json) maybe_async \<Rightarrow> ('s, json) maybe_async res" where
  "validate_answer adapter es answer = (case answer of
     Now v \<Rightarrow> bindR (validate_target adapter es v) (\<lambda>v'. Inr (Now v'))
   | Later k \<Rightarrow> (case es of [] \<Rightarrow> Inr (Later k)
       | e # _ \<Rightarrow> if pe_path e = [] then Inl TargetValidationError else Inl TypeError))"

section \<open>Running\<close>

text \<open>A run changes the caches of the coordinator while it plans and the world while it executes.\<close>

definition planning :: "('c, 'a) op \<Rightarrow> ('c \<times> 's, 'a) op" where
  "planning m = (\<lambda>(c, s). case m c of (r, c') \<Rightarrow> (r, (c', s)))"

definition executing :: "('s, 'a) op \<Rightarrow> ('c \<times> 's, 'a) op" where
  "executing m = (\<lambda>(c, s). case m s of (r, s') \<Rightarrow> (r, (c, s')))"

definition runner_run :: "('v::linorder, 'm, 'w) runner \<Rightarrow> json \<Rightarrow> ('v, 'm) target_policy \<Rightarrow> 'm option \<Rightarrow> int \<Rightarrow> pyval bindings option
    \<Rightarrow> string option \<Rightarrow> bool \<Rightarrow> (('v, 'm) coordinator_state \<times> 'w world, ('w world, json) maybe_async) op" where
  "runner_run rn payload target source_model max_depth context run_id validate =
     bindS (planning (runner_plan rn payload target source_model max_depth)) (\<lambda>plan.
     bindS (executing (runner_execute rn plan context run_id)) (\<lambda>data.
     if validate then liftS (validate_answer (rn_adapter rn) (pp_entries (ep_path plan)) data) else returnS data))"

definition runner_run_many :: "('v::linorder, 'm, 'w) runner \<Rightarrow> json list \<Rightarrow> ('v, 'm) target_policy \<Rightarrow> 'm option \<Rightarrow> int \<Rightarrow> pyval bindings option
    \<Rightarrow> string option \<Rightarrow> bool \<Rightarrow> (('v, 'm) coordinator_state \<times> 'w world, ('w world, json) maybe_async list) op" where
  "runner_run_many rn payloads target source_model max_depth context run_id validate =
     mapS (\<lambda>payload. runner_run rn payload target source_model max_depth context run_id validate) payloads"

section \<open>The reports of a run\<close>

text \<open>How often an event reaches the adapters, when none of them raises more than an exception.\<close>

definition emitted :: "('v, 'w) telemetry_publisher \<Rightarrow> 'v telemetry_event \<Rightarrow> nat" where
  "emitted t ev = (if \<not> tp_enabled t \<or> tp_mode t = ''errors'' \<and> \<not> is_failure ev \<or> tp_mode t = ''sampled'' \<and> \<not> sampled t ev then 0
     else length (tp_adapters t))"

definition polite :: "('v, 'w) telemetry_publisher \<Rightarrow> bool" where
  "polite t \<longleftrightarrow> (\<forall>a \<in> set (tp_adapters t). \<forall>ev u e. fst (a ev u) = Inl e \<longrightarrow> is_exception e)"

lemma emit_polite:
  assumes "polite t"
  shows "\<exists>s'. emit t ev s = (Inr (), s') \<and> wd_trace s' = wd_trace s @ replicate (emitted t ev) (event_call ev)"
proof -
  have "\<exists>s'. forS (\<lambda>adapter. catchS (outside_call (event_call ev) (adapter ev)) (\<lambda>e. if is_exception e then returnS () else raiseS e)) as s
      = (Inr (), s') \<and> wd_trace s' = wd_trace s @ replicate (length as) (event_call ev)" if "set as \<subseteq> set (tp_adapters t)" for as
    using that
  proof (induction as arbitrary: s)
    case (Cons a as)
    let ?c = "catchS (outside_call (event_call ev) (a ev)) (\<lambda>e. if is_exception e then returnS () else raiseS e)"
    obtain s1 where s1: "?c s = (Inr (), s1)" "wd_trace s1 = wd_trace s @ [event_call ev]"
    proof -
      obtain r u where a: "a ev (wd_user s) = (r, u)" by (cases "a ev (wd_user s)")
      have "is_exception e" if "r = Inl e" for e using assms Cons.prems a that unfolding polite_def by (metis fst_conv list.set_intros(1) subsetD)
      then show ?thesis using a by (intro that [of "s\<lparr>wd_user := u, wd_trace := wd_trace s @ [event_call ev]\<rparr>"])
        (auto simp: catchS_def outside_call_def split: sum.splits)
    qed
    from Cons.IH [of s1] Cons.prems s1 show ?case by (auto simp: bindS_def)
  qed simp
  then show ?thesis unfolding emit_def emitted_def by auto
qed

text \<open>Reports as operations that always return.\<close>

lemma reports_polite:
  assumes "polite (rn_telemetry rn)"
  shows "\<exists>s'. report_success rn ev s = (Inr (), s')
      \<and> wd_trace s' = wd_trace s @ replicate (if emits_success (rn_telemetry rn) then emitted (rn_telemetry rn) ev else 0) (event_call ev)"
    and "\<exists>s'. report_failure rn ev s = (Inr (), s') \<and> wd_trace s' = wd_trace s @ replicate (emitted (rn_telemetry rn) ev) (event_call ev)"
  using emit_polite [OF assms, of ev s] by (auto simp: report_success_def report_failure_def emits_failure_def emitted_def)

text \<open>
  Awaited or not, a run is the start report, the backend's awaited answer, and one final report.
\<close>

lemma await_runner_execute:
  "awaiting (runner_execute rn plan context run_id) =
     bindS (case run_id of Some i \<Rightarrow> if i \<noteq> [] then returnS i else outside_call CallNewId (rn_new_id rn ''run_'')
       | None \<Rightarrow> outside_call CallNewId (rn_new_id rn ''run_'')) (\<lambda>active.
     bindS (report_success rn (RunStarted (run_context_for rn active context) (pp_entries (ep_path plan)))) (\<lambda>_.
       await_result rn (awaiting (be_execute (wrapped rn) plan (ep_payload plan) (run_context_for rn active context)))
         (run_context_for rn active context) plan))"
proof -
  have key: "awaiting (bindS (catchS m (\<lambda>e. bindS (f e) (\<lambda>_. raiseS e))) (\<lambda>result. case result of
        Later k \<Rightarrow> returnS (Later (bindS (catchS k (\<lambda>e. bindS (f e) (\<lambda>_. raiseS e))) (\<lambda>v. bindS g (\<lambda>_. returnS v))))
      | Now v \<Rightarrow> bindS g (\<lambda>_. returnS (Now v)))) = bindS (catchS (awaiting m) (\<lambda>e. bindS (f e) (\<lambda>_. raiseS e))) (\<lambda>v. bindS g (\<lambda>_. returnS v))"
    for m :: "('s, ('s, 'r) maybe_async) op" and f g
    by (rule ext) (auto simp: awaiting_def bindS_def catchS_def split: prod.splits sum.splits maybe_async.splits)
  show ?thesis
    unfolding runner_execute_def await_result_def Let_def copy_payload_def if_cancel
    by (subst awaiting_bind, rule arg_cong2 [where f = bindS, OF refl], rule ext, subst awaiting_bind, rule arg_cong2 [where f = bindS, OF refl],
        rule ext, rule key)
qed

fun run_call :: "call \<Rightarrow> bool" where
  "run_call EmitRunStarted = True"
| "run_call EmitRunCompleted = True"
| "run_call EmitRunFailed = True"
| "run_call _ = False"

text \<open>The id of a run: the given one if it is not empty, otherwise a generated one.\<close>

definition active_run_id :: "('v, 'm, 'w) runner \<Rightarrow> string option \<Rightarrow> ('w world, string) op" where
  "active_run_id rn run_id = (case run_id of
     Some i \<Rightarrow> if i \<noteq> [] then returnS i else outside_call CallNewId (rn_new_id rn ''run_'')
   | None \<Rightarrow> outside_call CallNewId (rn_new_id rn ''run_''))"

text \<open>
  How many reports the telemetry mode asks for: one per adapter for every event of a run with \<open>all\<close> and for
  the sampled runs with \<open>sampled\<close>, only for failures with \<open>errors\<close>, and none with \<open>off\<close>.
\<close>

definition mode_reports :: "('v, 'w) telemetry_publisher \<Rightarrow> string \<Rightarrow> bool \<Rightarrow> nat" where
  "mode_reports t run_id failed =
     (let n = length (tp_adapters t) in
      if tp_mode t = ''off'' then 0
      else if tp_mode t = ''all'' then n
      else if tp_mode t = ''sampled''
        then if tp_sample_rate t > 0 \<and> (tp_sample_rate t \<ge> 1 \<or> tp_fraction t run_id < tp_sample_rate t) then n else 0
      else if failed then n else 0)"

lemma emitted_reports:
  "\<not> is_failure ev \<Longrightarrow> (if emits_success t then emitted t ev else 0) = mode_reports t (event_run_id ev) False"
  "is_failure ev \<Longrightarrow> emitted t ev = mode_reports t (event_run_id ev) True"
  by (auto simp: emits_success_def emitted_def mode_reports_def tp_enabled_def sampled_def Let_def)

text \<open>
  C16. The reports of a run, awaited when the backend is asynchronous, with a given or a generated run id and
  in every telemetry mode. When generating the id raises, the run raises that and nothing else happens.
  Otherwise, when the telemetry adapters raise nothing but exceptions and the wrapped backend reports no runs
  itself, the run is reported as started, then the backend runs, and then it is reported once more: as
  completed when the backend succeeded, as failed when it raised, cancellation included. The outcome is the
  backend's. Each report reaches the adapters as the mode asks (\<open>mode_reports\<close>): every adapter with \<open>all\<close> and for
  a sampled run, only the failure with \<open>errors\<close>, none with \<open>off\<close>.
\<close>

theorem run_reported:
  assumes "polite (rn_telemetry rn)"
    and "\<forall>run. calls A (awaiting (be_execute (wrapped rn) plan (ep_payload plan) run))" "A \<inter> Collect run_call = {}"
    and "awaiting (runner_execute rn plan context run_id) s = (r, s')"
  shows "case active_run_id rn run_id s of
      (Inl e, s0) \<Rightarrow> r = Inl e \<and> s' = s0
    | (Inr active, s0) \<Rightarrow> (\<exists>t s1 s2. wd_trace s' = wd_trace s0 @ t
        \<and> filter run_call t = replicate (mode_reports (rn_telemetry rn) active False) EmitRunStarted
            @ (if okR r then replicate (mode_reports (rn_telemetry rn) active False) EmitRunCompleted
               else replicate (mode_reports (rn_telemetry rn) active True) EmitRunFailed)
        \<and> awaiting (be_execute (wrapped rn) plan (ep_payload plan) (run_context_for rn active context)) s1 = (r, s2)
        \<and> wd_trace s1 = wd_trace s0 @ replicate (mode_reports (rn_telemetry rn) active False) EmitRunStarted)"
proof (cases "active_run_id rn run_id s")
  case (Pair i s0)
  note ex = assms(4) [unfolded await_runner_execute, folded active_run_id_def]
  show ?thesis
  proof (cases i)
    case (Inl e)
    then show ?thesis using ex Pair by simp
  next
    case (Inr active)
    let ?run = "run_context_for rn active context" and ?es = "pp_entries (ep_path plan)"
    let ?m = "awaiting (be_execute (wrapped rn) plan (ep_payload plan) ?run)"
    let ?n = "mode_reports (rn_telemetry rn) active"
    let ?last = "if okR r then replicate (?n False) EmitRunCompleted else replicate (?n True) EmitRunFailed"
    have id: "rc_run_id ?run = active" by (simp add: run_context_for_def)
    obtain s1 where s1: "report_success rn (RunStarted ?run ?es) s0 = (Inr (), s1)" "wd_trace s1 = wd_trace s0 @ replicate (?n False) EmitRunStarted"
      using reports_polite(1) [OF assms(1), of "RunStarted ?run ?es" s0] by (auto simp: emitted_reports id)
    have res: "await_result rn ?m ?run plan s1 = (r, s')" using ex Pair Inr s1 by (simp add: bindS_def)
    obtain q s2 where q: "?m s1 = (q, s2)" by (cases "?m s1")
    from appendsE [OF spec [OF assms(2)] q] obtain t where t: "wd_trace s2 = wd_trace s1 @ t" "set t \<subseteq> A" by blast
    then have no: "filter run_call t = []" using assms(3) by (auto simp: filter_empty_conv)
    have fin: "r = q \<and> wd_trace s' = wd_trace s2 @ ?last"
    proof (cases q)
      case (Inr v)
      obtain s3 where "report_success rn (RunCompleted ?run ?es) s2 = (Inr (), s3)" "wd_trace s3 = wd_trace s2 @ replicate (?n False) EmitRunCompleted"
        using reports_polite(1) [OF assms(1), of "RunCompleted ?run ?es" s2] by (auto simp: emitted_reports id)
      then show ?thesis using res q Inr by (auto simp: await_result_def bindS_def catchS_def)
    next
      case (Inl e)
      obtain s3 where "report_failure rn (RunFailed ?run ?es e) s2 = (Inr (), s3)" "wd_trace s3 = wd_trace s2 @ replicate (?n True) EmitRunFailed"
        using reports_polite(2) [OF assms(1), of "RunFailed ?run ?es e" s2] by (auto simp: emitted_reports id)
      then show ?thesis using res q Inl by (auto simp: await_result_def bindS_def catchS_def)
    qed
    let ?t = "replicate (?n False) EmitRunStarted @ t @ ?last"
    have "wd_trace s' = wd_trace s0 @ ?t" "filter run_call ?t = replicate (?n False) EmitRunStarted @ ?last"
      using fin s1(2) t(1) no by auto
    then show ?thesis using Pair Inr s1(2) q fin by auto
  qed
qed

section \<open>What validation leaves\<close>

text \<open>Assignment in place at the path of a dictionary has the result of the copying replacement.\<close>

lemma path_get_string: "path_get p (JStr c) \<noteq> Inr (JObj d)"
proof (induction p arbitrary: c)
  case (Cons s p)
  then show ?case by (cases s) (auto simp: bindR_eq_Inr split: option.splits)
qed simp

lemma path_assign_replace: "path_get p v = Inr (JObj d) \<Longrightarrow> path_assign p w v = replace_at p w v"
proof (induction p w v rule: path_assign.induct)
  case (2 s w v)
  then show ?case by (cases v; cases s) (auto split: option.splits if_splits)
next
  case (3 s t p w v)
  from "3.prems" obtain x where x: "subscript v s = Inr x" "path_get (t # p) x = Inr (JObj d)" by (auto simp: bindR_eq_Inr)
  have e: "path_assign (t # p) w x = replace_at (t # p) w x" using "3.IH" [OF x(2)] .
  have str: "\<not> (\<exists>c. x = JStr c)" using x(2) path_get_string by blast
  have "path_assign (s # t # p) w v = bindR (replace_at (t # p) w x) (\<lambda>y. assign v s y)" using x e by simp
  then show ?case using x(1) str by (cases v; cases s) (auto split: option.splits if_splits simp del: path_assign.simps)
qed simp

lemma validate_entry_Inr:
  assumes "validate_entry adapter e data = Inr data'" "proper_path (pe_path e)" "\<forall>m d fin. ma_finalize adapter m d = Inr fin \<longrightarrow> dict_ok fin"
  shows "\<exists>d m fin. path_get (pe_path e) data = Inr (JObj d) \<and> ma_resolve adapter (pe_target_model e) = Inr m \<and> ma_finalize adapter m d = Inr fin
    \<and> path_get (pe_path e) data' = Inr (JObj fin) \<and> (\<forall>q. proper_path q \<longrightarrow> apart (pe_path e) q \<longrightarrow> path_get q data' = path_get q data)"
proof -
  from assms(1) obtain v where v: "path_get (pe_path e) data = Inr v" by (auto simp: validate_entry_def bindR_eq_Inr)
  then obtain d where d0: "v = JObj d" using assms(1) by (cases v) (auto simp: validate_entry_def)
  then obtain m where m: "ma_resolve adapter (pe_target_model e) = Inr m" using assms(1) v by (auto simp: validate_entry_def bindR_eq_Inr)
  from assms(1) v d0 m obtain fin where "ma_finalize adapter m d = Inr fin" "set_value (pe_path e) fin data = Inr data'"
    by (cases "ma_finalize adapter m d") (auto simp: validate_entry_def split: sum.splits if_splits)
  note d = v [unfolded d0] m this
  have "replace_at (pe_path e) (JObj fin) data = Inr data'"
  proof (cases "pe_path e = []")
    case True
    then show ?thesis using d dict_of_ok [of fin] assms(3) by (auto simp: set_value_def path_set_def)
  next
    case False
    then have "path_assign (pe_path e) (JObj fin) data = Inr data'" using d(4) by (cases data) (auto simp: set_value_def path_set_def)
    then show ?thesis using path_assign_replace [OF d(1)] by metis
  qed
  from replace_get [OF this] replace_get_apart [OF this _ assms(2)] d(1-3) show ?thesis by blast
qed

text \<open>
  Validation of the target: when it succeeds on entries none of which contains another, the value at every
  entry is what finalizing the migrated value against the resolved target model gave, and everything apart
  from the entries is unchanged.
\<close>

theorem validate_target_spec:
  assumes "validate_target adapter es data = Inr data'" "distinct (map pe_path es)" "pairwise apart (set (map pe_path es))"
    and "\<forall>e \<in> set es. proper_path (pe_path e)" "\<forall>m d fin. ma_finalize adapter m d = Inr fin \<longrightarrow> dict_ok fin"
  shows "(\<forall>e \<in> set es. \<exists>d m fin. path_get (pe_path e) data = Inr (JObj d) \<and> ma_resolve adapter (pe_target_model e) = Inr m
      \<and> ma_finalize adapter m d = Inr fin \<and> path_get (pe_path e) data' = Inr (JObj fin))
    \<and> (\<forall>q. proper_path q \<longrightarrow> (\<forall>e \<in> set es. apart (pe_path e) q) \<longrightarrow> path_get q data' = path_get q data)"
  using assms(1-4)
proof (induction es arbitrary: data)
  case (Cons e es)
  from Cons.prems(1) obtain v where v: "validate_entry adapter e data = Inr v" "validate_target adapter es v = Inr data'"
    by (auto simp: bindR_eq_Inr)
  from validate_entry_Inr [OF v(1) _ assms(5)] Cons.prems(4) obtain d m fin where
    e: "path_get (pe_path e) data = Inr (JObj d)" "ma_resolve adapter (pe_target_model e) = Inr m" "ma_finalize adapter m d = Inr fin"
    "path_get (pe_path e) v = Inr (JObj fin)" "\<forall>q. proper_path q \<longrightarrow> apart (pe_path e) q \<longrightarrow> path_get q v = path_get q data"
    by auto
  have ap: "apart (pe_path e) (pe_path e')" if "e' \<in> set es" for e'
  proof -
    have "pe_path e \<noteq> pe_path e'" using Cons.prems(2) that by auto
    then show ?thesis using Cons.prems(3) that by (auto simp: pairwise_def)
  qed
  have "pairwise apart (set (map pe_path es))" using Cons.prems(3) by (simp add: pairwise_insert)
  from Cons.IH [OF v(2) _ this] Cons.prems(2,4) have IH:
    "\<forall>e \<in> set es. \<exists>d m fin. path_get (pe_path e) v = Inr (JObj d) \<and> ma_resolve adapter (pe_target_model e) = Inr m
      \<and> ma_finalize adapter m d = Inr fin \<and> path_get (pe_path e) data' = Inr (JObj fin)"
    "\<forall>q. proper_path q \<longrightarrow> (\<forall>e \<in> set es. apart (pe_path e) q) \<longrightarrow> path_get q data' = path_get q v" by auto
  have "path_get (pe_path e) data' = Inr (JObj fin)" using spec [OF IH(2), of "pe_path e"] e(4) ap apart_sym Cons.prems(4) by auto
  moreover have "path_get (pe_path e') v = path_get (pe_path e') data" if "e' \<in> set es" for e'
    using e(5) ap [OF that] Cons.prems(4) that by auto
  ultimately show ?case using IH e by auto
qed simp

section \<open>A concrete run\<close>

definition sample_runner :: "(nat, unit, nat) runner" where
  "sample_runner = \<lparr>rn_coordinator = sample_coordinator, rn_adapter = sample_adapter, rn_backend = async_backend sample_setup,
     rn_middleware = [transaction_wrap sample_begin],
     rn_telemetry = \<lparr>tp_adapters = [\<lambda>_. returnS ()], tp_mode = ''all'', tp_sample_rate = 1, tp_fraction = (\<lambda>_. 0)\<rparr>,
     rn_new_id = (\<lambda>_. returnS ''r''), rn_copy = ''deep''\<rparr>"

text \<open>The run of an asynchronous backend in a transaction, with a generated id.\<close>

theorem run_reported_witness:
  "\<exists>c. filter run_call (wd_trace (snd (awaiting (runner_execute sample_runner sample_plan None None) \<lparr>wd_user = 0, wd_trace = []\<rparr>))) =
     [EmitRunStarted, c]"
proof -
  have p: "polite (rn_telemetry sample_runner)" by (simp add: sample_runner_def polite_def)
  let ?A = "Collect step_call \<union> tx_calls"
  have "calls ?A (async_execute xs plan payload)" for xs :: "(nat, nat) execution_setup" and plan :: "(nat, unit, nat) execution_plan" and payload
    by (rule calls_mono [OF backend_calls(3)]) blast
  then have c: "\<forall>run. calls ?A (awaiting (be_execute (wrapped sample_runner) sample_plan (ep_payload sample_plan) run))"
    by (auto simp: wrapped_def sample_runner_def transaction_wrap_def transaction_execute_def async_backend_def settle_later awaiting_bind
        guarded_def failing_def intro!: calls_intros)
  have "\<not> (step_call x \<and> run_call x)" for x by (cases x) auto
  then have d: "?A \<inter> Collect run_call = {}" by auto
  let ?s = "\<lparr>wd_user = 0, wd_trace = []\<rparr> :: nat world" and ?m = "awaiting (runner_execute sample_runner sample_plan None None)"
  obtain r s' where m: "?m ?s = (r, s')" by (cases "?m ?s")
  have "mode_reports (rn_telemetry sample_runner) i f = 1" for i f by (simp add: sample_runner_def mode_reports_def)
  moreover have "active_run_id sample_runner None ?s = (Inr ''r'', ?s\<lparr>wd_trace := [CallNewId]\<rparr>)"
    by (simp add: active_run_id_def outside_call_def returnS_def sample_runner_def)
  ultimately obtain t where "wd_trace s' = [CallNewId] @ t" "filter run_call t = [EmitRunStarted] @ [if okR r then EmitRunCompleted else EmitRunFailed]"
    using run_reported [OF p c d m] by (auto split: if_splits)
  then show ?thesis using m by simp
qed

theorem validate_target_spec_witness:
  "\<exists>v. validate_target (sample_adapter\<lparr>ma_finalize := (\<lambda>_ _. Inr [(''x'', JNull)])\<rparr>) [sample_planned] (JObj [(''item'', JObj [])]) = Inr v
     \<and> path_get [Key ''item''] v = Inr (JObj [(''x'', JNull)])"
proof -
  let ?a = "sample_adapter\<lparr>ma_finalize := (\<lambda>_ _. Inr [(''x'', JNull)])\<rparr>"
  have v: "validate_target ?a [sample_planned] (JObj [(''item'', JObj [])]) = Inr (JObj [(''item'', JObj [(''x'', JNull)])])"
    by (simp add: validate_entry_def sample_planned_def sample_adapter_def set_value_def path_set_def)
  have f: "\<forall>m d fin. ma_finalize ?a m d = Inr fin \<longrightarrow> dict_ok fin" by (auto simp: dict_ok_def)
  show ?thesis using v validate_target_spec [OF v _ _ _ f] by (auto simp: sample_planned_def pairwise_def)
qed

end
