(* ===== verification/Manager.thy ===== *)
theory Manager
  imports Engine Runner
begin

text \<open>
  The manager of \<open>runtime/manager\<close> (configuration, the engine of an instance, and the mixins that store models,
  migrations and hooks, look up and build runtimes), the runner factory of \<open>runtime/factory.py\<close> and the
  facade of \<open>runtime/facade.py\<close>. The state of a manager class is the registry of its default engine, the
  registries of its instances, and the one store of bindings that they all share.
\<close>

section \<open>State\<close>

record ('v, 'w) manager_state =
  ms_registries :: "'v registry list"
  ms_bindings :: "('v, 'w) migration_bindings"

text \<open>A call on the engine at a position; 0 is the default engine.\<close>

definition on_engine :: "nat \<Rightarrow> ('v registry, 'a) op \<Rightarrow> (('v, 'w) manager_state, 'a) op" where
  "on_engine j m st = (case m (ms_registries st ! j) of (x, r) \<Rightarrow> (x, st\<lparr>ms_registries := (ms_registries st)[j := r]\<rparr>))"

definition on_bindings :: "(('v, 'w) migration_bindings \<Rightarrow> ('v, 'w) migration_bindings) \<Rightarrow> (('v, 'w) manager_state, unit) op" where
  "on_bindings f st = (Inr (), st\<lparr>ms_bindings := f (ms_bindings st)\<rparr>)"

text \<open>
  \<open>configure\<close>: the adapter has to have a codec, and linters cannot be given together with an engine. Without an
  engine a new registry is made; the bindings are always new, since a registry has none.
\<close>

definition manager_configure :: "string option \<Rightarrow> 'v registry option \<Rightarrow> bool \<Rightarrow> ('v, 'w) manager_state res" where
  "manager_configure codec given linters = (case codec of
     None \<Rightarrow> Inl ValueError
   | Some ns \<Rightarrow> if given \<noteq> None \<and> linters then Inl ValueError
       else bindR (case given of Some r \<Rightarrow> Inr r | None \<Rightarrow> new_registry ns False) (\<lambda>r.
         Inr \<lparr>ms_registries = [r], ms_bindings = \<lparr>bn_name = ns, bn_migrations = [], bn_hooks_by_edge = []\<rparr>\<rparr>))"

text \<open>
  \<open>Manager()\<close> copies the default engine; \<open>Manager(engine)\<close> uses the given one, which \<open>__init__\<close> puts in the place of
  the copy that \<open>__new__\<close> made. The result is the position of the instance's engine.
\<close>

definition manager_new :: "'v registry option \<Rightarrow> (('v, 'w) manager_state, nat) op" where
  "manager_new given st = (case (case given of Some r \<Rightarrow> engine_copy r | None \<Rightarrow> engine_copy (ms_registries st ! 0)) of
     Inl e \<Rightarrow> (Inl e, st)
   | Inr copied \<Rightarrow> (Inr (length (ms_registries st)),
       st\<lparr>ms_registries := ms_registries st @ [case given of Some r \<Rightarrow> r | None \<Rightarrow> copied]\<rparr>))"

section \<open>Migration keys\<close>

datatype ('v, 'm) migration_key =
    ModelPair 'm 'm
  | ManagerMigrationKey string "'v version_arg" "'v version_arg" string
  | KeyOfEdge "'v edge"
  | UnsupportedKey

definition pair_entries :: "('v, 'm, 'b) engine \<Rightarrow> ('v, 'm) migration_key \<Rightarrow> ('v node \<times> 'v node) res" where
  "pair_entries eg key = (case key of
     ModelPair s t \<Rightarrow> bindR (ea_versionable (eg_adapter eg) s) (\<lambda>a. bindR (ea_versionable (eg_adapter eg) t) (\<lambda>b. Inr (a, b)))
   | ManagerMigrationKey k s t _ \<Rightarrow>
       bindR (ea_version_key (eg_adapter eg) k s) (\<lambda>a. bindR (ea_version_key (eg_adapter eg) k t) (\<lambda>b. Inr (a, b)))
   | KeyOfEdge e \<Rightarrow> Inr (edge_source e, edge_target e)
   | UnsupportedKey \<Rightarrow> Inl TypeError)"

text \<open>The discriminator a migration is stored under: a pair takes the argument, a key of versions prefers it, an edge has its own.\<close>

definition stored_discriminator :: "('v, 'm) migration_key \<Rightarrow> string option \<Rightarrow> string" where
  "stored_discriminator key given = (case key of
     ManagerMigrationKey _ _ _ x \<Rightarrow> (case given of Some (c # s) \<Rightarrow> c # s | _ \<Rightarrow> x)
   | KeyOfEdge e \<Rightarrow> edge_discriminator e
   | _ \<Rightarrow> (case given of Some d \<Rightarrow> d | None \<Rightarrow> default_discriminator))"

text \<open>The edge key that removal, lookup and hooks use.\<close>

definition key_edge :: "('v, 'm, 'b) engine \<Rightarrow> ('v, 'm) migration_key \<Rightarrow> 'v edge res" where
  "key_edge eg key = (case key of
     KeyOfEdge e \<Rightarrow> Inr e
   | ManagerMigrationKey _ _ _ x \<Rightarrow> bindR (pair_entries eg key) (\<lambda>(a, b). edge_key_from_pair a b x None)
   | _ \<Rightarrow> bindR (pair_entries eg key) (\<lambda>(a, b). edge_key_from_pair a b default_discriminator None))"

section \<open>Migrations\<close>

text \<open>A callable: what the registry reads of it, what runs, and its \<open>__name__\<close>.\<close>

record 'w manager_func =
  mf_callable :: callable
  mf_run :: "'w migration_func"
  mf_name :: "string option"

definition named_callable :: "'w manager_func \<Rightarrow> string option \<Rightarrow> callable" where
  "named_callable f migration_id = (case migration_id of None \<Rightarrow> mf_callable f | Some i \<Rightarrow> (mf_callable f)\<lparr>cl_migration_id := Some i\<rparr>)"

definition manager_store_migration :: "('v::linorder, 'm, 'b) engine \<Rightarrow> nat \<Rightarrow> ('v, 'm) migration_key \<Rightarrow> 'w manager_func \<Rightarrow> string option
    \<Rightarrow> string option \<Rightarrow> (('v, 'w) manager_state, unit) op" where
  "manager_store_migration eg j key f migration_id given =
     bindS (liftS (pair_entries eg key)) (\<lambda>pair.
     bindS (on_engine j (engine_store_migration eg pair (named_callable f migration_id) (stored_discriminator key given))) (\<lambda>edge.
     case edge of
       VersionEdge _ _ _ _ _ d \<Rightarrow> on_bindings (bind_func (eid_of edge) (mf_run f) (mf_name f) d)
     | _ \<Rightarrow> returnS ()))"

definition manager_remove_migration :: "('v::linorder, 'm, 'b) engine \<Rightarrow> nat \<Rightarrow> ('v, 'm) migration_key \<Rightarrow> (('v, 'w) manager_state, unit) op" where
  "manager_remove_migration eg j key =
     bindS (liftS (key_edge eg key)) (\<lambda>edge.
     bindS (on_bindings (unbind_migration (eid_of edge))) (\<lambda>_.
     on_engine j (engine_remove_migration eg (eid_of edge) False)))"

definition manager_get_migration :: "('v::linorder, 'm, 'b) engine \<Rightarrow> nat \<Rightarrow> ('v, 'm) migration_key \<Rightarrow> ('v, 'w) manager_state \<Rightarrow> 'v edge res" where
  "manager_get_migration eg j key st = bindR (key_edge eg key) (\<lambda>edge. get_migration (eid_of edge) (ms_registries st ! j))"

definition attach_hook :: "('v::linorder, 'm, 'b) engine \<Rightarrow> nat \<Rightarrow> 'v edge_id \<Rightarrow> ('v, 'w) hook \<Rightarrow> (('v, 'w) manager_state, unit) op" where
  "attach_hook eg j i h = bindS (on_bindings (bind_hook i h)) (\<lambda>_. on_engine j (engine_add_hook eg i (hook_ref_of h)))"

definition manager_add_hook :: "('v::linorder, 'm, 'b) engine \<Rightarrow> nat \<Rightarrow> ('v, 'm) migration_key \<Rightarrow> ('v, 'w) hook \<Rightarrow> (('v, 'w) manager_state, unit) op" where
  "manager_add_hook eg j key h = bindS (liftS (key_edge eg key)) (\<lambda>edge. attach_hook eg j (eid_of edge) h)"

definition manager_attach_hooks :: "('v::linorder, 'm, 'b) engine \<Rightarrow> nat \<Rightarrow> ('v, 'w) hook list \<Rightarrow> (('v, 'w) manager_state, unit) op" where
  "manager_attach_hooks eg j hs = forS (\<lambda>h st. forS (\<lambda>k st.
     forS (\<lambda>e. attach_hook eg j (eid_of (edge_key_of e)) h) (migrations k (ms_registries st ! j)) st) (kinds (ms_registries st ! j)) st) hs"

section \<open>Models and lookups\<close>

definition manager_store_model :: "('v::linorder, 'm, 'b) engine \<Rightarrow> nat \<Rightarrow> ('v, 'm) payload \<Rightarrow> (('v, 'w) manager_state, 'v node) op" where
  "manager_store_model eg j p = on_engine j (store_model eg p)"

definition manager_reconcile_model :: "('v::linorder, 'm, 'b) engine \<Rightarrow> nat \<Rightarrow> ('v, 'm) payload \<Rightarrow> (('v, 'w) manager_state, 'v node) op" where
  "manager_reconcile_model eg j p = on_engine j (reconcile_model eg p)"

datatype ('v, 'm) model_key = ModelClass 'm | ModelKey string "'v version_arg"

definition manager_get_model :: "('v::linorder, 'm, 'b) engine \<Rightarrow> ('v, 'm) model_key \<Rightarrow> 'v registry \<Rightarrow> 'v node res" where
  "manager_get_model eg key r = (case key of
     ModelKey k v \<Rightarrow> bindR (ea_version_key (eg_adapter eg) k v) (\<lambda>n. get_model (node_id_of n) r)
   | ModelClass m \<Rightarrow> get_model_by_class eg m r)"

text \<open>\<open>_resolve_model_key\<close>: a pair of kind and version, a class, or something with an identity.\<close>

datatype ('v, 'm) lookup_key = LookupTuple string "'v version_arg" | LookupNode "'v node" | LookupClass 'm | LookupPair "'v node" "'v node"
  | LookupEdge "'v edge" | LookupOther

definition resolve_model_key :: "('v \<Rightarrow> 'v version_arg) \<Rightarrow> ('v version_arg \<Rightarrow> 'v res) \<Rightarrow> ('v, 'm, 'b) engine \<Rightarrow> ('v, 'm) lookup_key
    \<Rightarrow> 'v registry \<Rightarrow> 'v node_id res" where
  "resolve_model_key arg parse eg key r = (case key of
     LookupTuple k v \<Rightarrow> node_id_parse parse (engine_namespace eg) k v
   | LookupNode n \<Rightarrow> if is_model n then Inr (node_id_of n)
       else node_id_parse parse (nid_namespace (node_id_of n)) (nid_kind (node_id_of n)) (arg (nid_version (node_id_of n)))
   | LookupClass m \<Rightarrow> if \<not> ea_identify (eg_adapter eg) m then Inl ModelNotFoundError
       else bindR (ea_ref (eg_adapter eg) m) (\<lambda>ref. bindR (get_model_by_ref ref r) (\<lambda>n. Inr (node_id_of n)))
   | LookupPair _ _ \<Rightarrow> Inl TypeError
   | _ \<Rightarrow> Inl AttributeError)"

definition normalize_index :: "('v \<Rightarrow> 'v version_arg) \<Rightarrow> ('v version_arg \<Rightarrow> 'v res) \<Rightarrow> ('v, 'm, 'b) engine \<Rightarrow> ('v, 'm) lookup_key
    \<Rightarrow> 'v registry \<Rightarrow> 'v index res" where
  "normalize_index arg parse eg key r = (case key of
     LookupNode n \<Rightarrow> Inr (NodeIndex (node_id_of n))
   | LookupEdge e \<Rightarrow> Inr (EdgeIndex (eid_of e))
   | LookupPair a b \<Rightarrow> bindR (edge_key_from_pair a b default_discriminator None) (\<lambda>e. Inr (EdgeIndex (eid_of e)))
   | LookupOther \<Rightarrow> Inl CatalogError
   | _ \<Rightarrow> bindR (resolve_model_key arg parse eg key r) (\<lambda>i. Inr (NodeIndex i)))"

text \<open>The exceptions that make a membership test false; catalog errors include those of paths and missing models.\<close>

definition lookup_failure :: "error \<Rightarrow> bool" where
  "lookup_failure e \<longleftrightarrow> is_catalog_error e \<or> e = MigrationPathError \<or> e = MigrationApplicationError \<or> e = TypeError"

definition manager_contains :: "('v \<Rightarrow> 'v version_arg) \<Rightarrow> ('v version_arg \<Rightarrow> 'v res) \<Rightarrow> ('v::linorder, 'm, 'b) engine \<Rightarrow> ('v, 'm) lookup_key
    \<Rightarrow> 'v registry \<Rightarrow> bool res" where
  "manager_contains arg parse eg key r = (case bindR (normalize_index arg parse eg key r) (\<lambda>i. engine_contains i r) of
     Inl e \<Rightarrow> if lookup_failure e then Inr False else Inl e | Inr b \<Rightarrow> Inr b)"

definition manager_migration_path :: "('v \<Rightarrow> 'v version_arg) \<Rightarrow> ('v version_arg \<Rightarrow> 'v res) \<Rightarrow> ('v::linorder, 'm, 'b) engine
    \<Rightarrow> ('v, 'm) lookup_key \<Rightarrow> ('v, 'm) lookup_key \<Rightarrow> 'v registry \<Rightarrow> ('v node \<times> 'v node) list res" where
  "manager_migration_path arg parse eg from_version to_version r =
     bindR (resolve_model_key arg parse eg from_version r) (\<lambda>i. bindR (get_model i r) (\<lambda>a.
     bindR (resolve_model_key arg parse eg to_version r) (\<lambda>j. bindR (get_model j r) (\<lambda>b.
     find_migration_path eg (node_id_of a) (node_id_of b) r))))"

definition manager_contains_slice :: "('v \<Rightarrow> 'v version_arg) \<Rightarrow> ('v version_arg \<Rightarrow> 'v res) \<Rightarrow> ('v::linorder, 'm, 'b) engine
    \<Rightarrow> ('v, 'm) lookup_key \<Rightarrow> ('v, 'm) lookup_key \<Rightarrow> 'v registry \<Rightarrow> bool res" where
  "manager_contains_slice arg parse eg from_version to_version r =
     (case manager_migration_path arg parse eg from_version to_version r of
        Inl e \<Rightarrow> if lookup_failure e then Inr False else Inl e | Inr _ \<Rightarrow> Inr True)"

definition manager_getitem :: "('v \<Rightarrow> 'v version_arg) \<Rightarrow> ('v version_arg \<Rightarrow> 'v res) \<Rightarrow> ('v::linorder, 'm, 'b) engine \<Rightarrow> ('v, 'm) lookup_key
    \<Rightarrow> 'v registry \<Rightarrow> 'v entity res" where
  "manager_getitem arg parse eg key r = bindR (normalize_index arg parse eg key r) (\<lambda>i. registry_getitem i r)"

definition manager_getitem_slice :: "('v \<Rightarrow> 'v version_arg) \<Rightarrow> ('v version_arg \<Rightarrow> 'v res) \<Rightarrow> ('v::linorder, 'm, 'b) engine
    \<Rightarrow> ('v, 'm) lookup_key \<Rightarrow> ('v, 'm) lookup_key \<Rightarrow> 'v registry \<Rightarrow> 'v edge list res" where
  "manager_getitem_slice arg parse eg from_version to_version r =
     bindR (manager_migration_path arg parse eg from_version to_version r) (\<lambda>path.
     mapR (\<lambda>(s, t). bindR (edge_key_from_pair s t default_discriminator None) (\<lambda>e. get_migration (eid_of e) r)) path)"

section \<open>Assembling a runner\<close>

record ('v, 'm, 'w) runner_options =
  ro_backend :: "('v, 'm, 'w) backend_port"
  ro_telemetry_of_environment :: "('v, 'w) telemetry_publisher"
  ro_new_id :: "string \<Rightarrow> ('w, string) op"
  ro_direction :: direction_policy
  ro_on_direction_violation :: string
  ro_on_missing_path :: string
  ro_depth_limit :: int
  ro_on_depth_violation :: string
  ro_validation_mode :: string
  ro_discriminator :: string
  ro_middleware :: "(('v, 'm, 'w) backend_port \<Rightarrow> ('v, 'm, 'w) backend_port) list"
  ro_telemetry :: "('v telemetry_event \<Rightarrow> ('w, unit) op) list"
  ro_telemetry_mode :: string
  ro_telemetry_sample_rate :: rat
  ro_plan_cache_size :: int
  ro_copy :: string

text \<open>What the runner needs of the adapter and of Python: parsing, references, names of keys and the digest of a run id.\<close>

record ('v, 'm) runner_ports =
  pt_adapter :: "'m model_adapter"
  pt_parse_arg :: "'v version_arg \<Rightarrow> 'v res"
  pt_parse :: "string \<Rightarrow> 'v res"
  pt_ref_of :: "'m \<Rightarrow> model_ref"
  pt_names :: "('v, 'm) key_names"
  pt_fraction :: "string \<Rightarrow> rat"

definition runner_telemetry :: "('v, 'm) runner_ports \<Rightarrow> ('v, 'm, 'w) runner_options \<Rightarrow> ('v, 'w) telemetry_publisher res" where
  "runner_telemetry pt opts = (if ro_telemetry opts \<noteq> []
     then mk_publisher (ro_telemetry opts) (ro_telemetry_mode opts) (ro_telemetry_sample_rate opts) (pt_fraction pt)
     else Inr (ro_telemetry_of_environment opts))"

definition runner_policy :: "('v, 'm, 'w) runner_options \<Rightarrow> policy_engine" where
  "runner_policy opts = \<lparr>po_direction = ro_direction opts, po_on_direction_violation = ro_on_direction_violation opts,
     po_on_missing_path = ro_on_missing_path opts, po_depth_limit = ro_depth_limit opts, po_on_depth_violation = ro_on_depth_violation opts\<rparr>"

definition runner_walker :: "('v, 'm) runner_ports \<Rightarrow> ('v, 'm, 'w) runner_options \<Rightarrow> 'v migration_graph \<Rightarrow> ('v, 'm) payload_walker" where
  "runner_walker pt opts g = \<lparr>pw_graph = g, pw_parse = pt_parse_arg pt, pw_adapter = pt_adapter pt, pw_validation_mode = ro_validation_mode opts\<rparr>"

definition runner_coordinator :: "('v::linorder, 'm) runner_ports \<Rightarrow> ('v, 'm, 'w) runner_options \<Rightarrow> 'v migration_graph \<Rightarrow> ('v, 'w) migration_bindings
    \<Rightarrow> ('v, 'm, 'w) coordinator" where
  "runner_coordinator pt opts g b = \<lparr>co_extractor = walker_extract (runner_walker pt opts g),
     co_finder = \<lparr>pf_graph = g, pf_parse = pt_parse pt, pf_ref_of = pt_ref_of pt, pf_policy = runner_policy opts,
       pf_discriminator = ro_discriminator opts\<rparr>,
     co_bindings = b, co_names = pt_names pt\<rparr>"

definition create_runner :: "('v::linorder, 'm) runner_ports \<Rightarrow> 'v migration_graph \<Rightarrow> ('v, 'w) migration_bindings \<Rightarrow> ('v, 'm, 'w) runner_options
    \<Rightarrow> (('v, 'm, 'w) runner \<times> ('v, 'm) coordinator_state) res" where
  "create_runner pt g b opts =
     bindR (runner_telemetry pt opts) (\<lambda>tel.
     bindR (mk_plan_cache (ro_plan_cache_size opts)) (\<lambda>cache.
       Inr (\<lparr>rn_coordinator = runner_coordinator pt opts g b, rn_adapter = pt_adapter pt, rn_backend = ro_backend opts,
              rn_middleware = ro_middleware opts, rn_telemetry = tel, rn_new_id = ro_new_id opts, rn_copy = ro_copy opts\<rparr>,
            \<lparr>cs_paths = [], cs_plans = cache\<rparr>)))"

text \<open>\<open>Runtime.with_runner\<close>: a snapshot of the engine unless the runtime already has a graph.\<close>

definition with_runner :: "('v::linorder, 'm, 'b) engine \<Rightarrow> ('v, 'm) runner_ports \<Rightarrow> 'v migration_graph option \<Rightarrow> 'v registry
    \<Rightarrow> ('v, 'w) migration_bindings \<Rightarrow> ('v, 'm, 'w) runner_options \<Rightarrow> (('v, 'm, 'w) runner \<times> ('v, 'm) coordinator_state) res" where
  "with_runner eg pt given r b opts =
     bindR (case given of Some g \<Rightarrow> Inr g | None \<Rightarrow> snapshot eg None r) (\<lambda>g. create_runner pt g b opts)"

definition manager_runtime :: "('v::linorder, 'm, 'b) engine \<Rightarrow> ('v, 'm) runner_ports \<Rightarrow> nat \<Rightarrow> ('v, 'm, 'w) runner_options
    \<Rightarrow> ('v, 'w) manager_state \<Rightarrow> (('v, 'm, 'w) runner \<times> ('v, 'm) coordinator_state) res" where
  "manager_runtime eg pt j opts st = with_runner eg pt None (ms_registries st ! j) (ms_bindings st) opts"

section \<open>Bound migrations\<close>

text \<open>
  The calls that build up a manager class and its instances, and what they reach. Two kinds of calls are left
  out. Removals unbind a migration that may still be registered, which \<open>removal_unbinds\<close> below shows. A
  ready-made engine, \<open>Manager(engine)\<close> or \<open>configure(engine=...)\<close>, may have migrations that are not bound.
\<close>

inductive manager_step :: "('v::linorder, 'm, 'b) engine \<Rightarrow> ('v, 'w) manager_state \<Rightarrow> ('v, 'w) manager_state \<Rightarrow> bool" for eg where
  mt_new: "manager_new None st = (Inr n, st') \<Longrightarrow> manager_step eg st st'"
| mt_store_model: "j < length (ms_registries st) \<Longrightarrow> manager_step eg st (snd (manager_store_model eg j p st))"
| mt_reconcile_model: "j < length (ms_registries st) \<Longrightarrow> manager_step eg st (snd (manager_reconcile_model eg j p st))"
| mt_store_migration: "j < length (ms_registries st) \<Longrightarrow> manager_step eg st (snd (manager_store_migration eg j key f mid x st))"
| mt_add_hook: "j < length (ms_registries st) \<Longrightarrow> manager_step eg st (snd (manager_add_hook eg j key h st))"
| mt_attach_hooks: "j < length (ms_registries st) \<Longrightarrow> manager_step eg st (snd (manager_attach_hooks eg j hs st))"

inductive managed :: "('v::linorder, 'm, 'b) engine \<Rightarrow> ('v, 'w) manager_state \<Rightarrow> bool" for eg where
  md_configure: "manager_configure codec None linters = Inr st \<Longrightarrow> managed eg st"
| md_step: "managed eg st \<Longrightarrow> manager_step eg st st' \<Longrightarrow> managed eg st'"

text \<open>Every registry is reachable and every executable migration of every registry is bound.\<close>

definition bound_in :: "('v, 'w) migration_bindings \<Rightarrow> 'v::linorder registry \<Rightarrow> bool" where
  "bound_in b r \<longleftrightarrow> (\<forall>i e. edge_at i r = Some e \<longrightarrow> is_executable e \<longrightarrow> okR (bound_migration i b))"

definition all_bound :: "('v::linorder, 'm, 'b) engine \<Rightarrow> ('v, 'w) manager_state \<Rightarrow> bool" where
  "all_bound eg st \<longleftrightarrow> ms_registries st \<noteq> [] \<and> (\<forall>r \<in> set (ms_registries st).
     reg_reachable (eg_config eg) r \<and> digest_index r = None \<and> bound_in (ms_bindings st) r)"

text \<open>Operations that leave edges and digests alone.\<close>

definition edge_state :: "(string, 'v edge list) dict \<Rightarrow> (string, 'v edge) dict option \<Rightarrow> 'v registry \<Rightarrow> bool" where
  "edge_state mg d r \<longleftrightarrow> migrations_of_kind r = mg \<and> digest_index r = d"

lemma keeps_edge_state [keeps_intros]:
  "keeps (edge_state mg d) (store cfg n)" "keeps (edge_state mg d) (remove_entry cfg n)"
  "keeps (edge_state mg d) (add_hook cfg e h)" "keeps (edge_state mg d) (is_adjacent i)"
  by (auto intro!: keepsI simp: edge_state_def store_def remove_entry_def add_hook_def is_adjacent_def Let_def)

lemma keeps_edge_state_models [keeps_intros]:
  "keeps (edge_state mg d) (reconcile cfg n)" "keeps (edge_state mg d) (hydrate cfg n)"
proof -
  have replace: "keeps (edge_state mg d) (bindS (remove_entry cfg x) (\<lambda>_. store cfg y))" for x y by (intro keeps_intros)
  show r: "keeps (edge_state mg d) (reconcile cfg n)"
    by (rule keepsI) (auto simp: reconcile_def keepsD [OF keeps_edge_state(1)] keepsD [OF replace] split: option.split sum.split error.split)
  show "keeps (edge_state mg d) (hydrate cfg n)"
    by (rule keepsI) (auto simp: hydrate_def keepsD [OF keeps_edge_state(1)] keepsD [OF replace] keepsD [OF r] split: option.split)
qed

lemma keeps_edge_state_engine [keeps_intros]:
  "keeps (edge_state mg d) (store_model eg p)" "keeps (edge_state mg d) (reconcile_model eg p)" "keeps (edge_state mg d) (engine_add_hook eg i h)"
proof -
  have "keeps (edge_state mg d) (\<lambda>r. case find_entry i r of Some x \<Rightarrow> (Inr x, r) | None \<Rightarrow> store cfg n r)" for i cfg n
    by (rule keepsI) (auto simp: keepsD [OF keeps_edge_state(1)] split: option.split)
  then show "keeps (edge_state mg d) (store_model eg p)" unfolding store_model_def by (intro keeps_intros)
  show "keeps (edge_state mg d) (reconcile_model eg p)" "keeps (edge_state mg d) (engine_add_hook eg i h)"
    unfolding reconcile_model_def engine_add_hook_def by (intro keeps_intros)+
qed

lemma keeps_edge_state_spec [keeps_intros]: "keeps (edge_state mg d) (resolve_spec_edge cfg spec)"
proof -
  have rec: "keeps (edge_state mg d) (reconstruct cfg port a m f)" for port a m f
    unfolding reconstruct_def by (intro keeps_intros)
  have "keeps (edge_state mg d) (bindS (reconstruct cfg port a m f) (\<lambda>x. returnS (g x)))" for port a m f and g :: "'a node \<Rightarrow> 'a node \<times> 'a node"
    by (intro keeps_intros rec)
  then have ends: "keeps (edge_state mg d) (resolve_endpoints cfg port spec)" for port
    by (intro keepsI) (auto simp: resolve_endpoints_def keepsD split: option.split)
  have "keeps (edge_state mg d) (build_spec_edge port spec a b)" for port a b
    unfolding build_spec_edge_def by (intro keeps_intros)
  then show ?thesis unfolding resolve_spec_edge_def by (intro keeps_intros ends)
qed

lemma edge_state_at: "edge_state mg d r \<Longrightarrow> edge_state mg d r' \<Longrightarrow> edge_at i r' = edge_at i r"
  by (simp add: edge_state_def edge_at_def)

text \<open>Storing a migration adds at most its own edge, which is executable and is what the call returns.\<close>

lemma resolve_spec_executable: "resolve_spec_edge cfg spec r = (Inr e, r') \<Longrightarrow> is_executable e"
  by (auto simp: resolve_spec_edge_def build_spec_edge_def bindS_Inr dest!: mk_version_edge_Inr split: prod.splits if_splits)

lemma store_spec_edges:
  assumes "reg_wf cfg r" "digest_index r = None" "store_migration_spec cfg spec r = (x, r')"
  shows "digest_index r' = None \<and> ((\<forall>i. edge_at i r' = edge_at i r)
    \<or> (\<exists>e. x = Inr e \<and> is_executable e \<and> (\<forall>i. edge_at i r' = (if i = eid_of e then Some e else edge_at i r))))"
proof -
  obtain y r1 where y: "resolve_spec_edge cfg spec r = (y, r1)" by (cases "resolve_spec_edge cfg spec r")
  have "edge_state (migrations_of_kind r) None r" using assms(2) by (simp add: edge_state_def)
  from keepsD [OF keeps_edge_state_spec this, of cfg spec] y have r1: "edge_state (migrations_of_kind r) None r1" by simp
  have at: "edge_at i r1 = edge_at i r" for i using edge_state_at [OF _ r1, of r] assms(2) by (simp add: edge_state_def)
  have wf: "reg_wf cfg r1" using keepsD [OF keeps_resolve_spec_edge assms(1), of spec] y by simp
  show ?thesis
  proof (cases y)
    case (Inl err)
    then show ?thesis using y assms(3) r1 at by (auto simp: store_migration_spec_def bindS_def edge_state_def)
  next
    case (Inr e)
    have s: "store_edge cfg e r1 = (x, r')" using y Inr assms(3) by (simp add: store_migration_spec_def bindS_def)
    have ex: "is_executable e" using resolve_spec_executable y Inr by blast
    have d1: "digest_index r1 = None" using r1 by (simp add: edge_state_def)
    then have "digest_index r' = None"
      using s by (auto simp: store_edge_def insert_edge_def unlink_edge_def Let_def split: option.splits sum.splits if_splits)
    moreover have dig: "digestable cfg (digest_index r1) e" using d1 by (simp add: digestable_def)
    note ref = store_edge_refines [OF wf dig]
    have "(\<forall>i. edge_at i r' = edge_at i r)
      \<or> (\<exists>e. x = Inr e \<and> is_executable e \<and> (\<forall>i. edge_at i r' = (if i = eid_of e then Some e else edge_at i r)))"
    proof (cases "edge_at (eid_of e) r1 = None \<or> \<not> is_executable (the (edge_at (eid_of e) r1))")
      case True
      then have "catalog_of r' = (catalog_of r1)\<lparr>cat_edges := (cat_edges (catalog_of r1))(eid_of e \<mapsto> e)\<rparr>" using ref(2) s ex by auto
      then have "edge_at i r' = (if i = eid_of e then Some e else edge_at i r)" for i
        using at by (metis cat_nodes_of(2) catalog.select_convs(2) catalog.surjective catalog.update_convs(2) fun_upd_apply)
      moreover have "x = Inr e" using ref(1) s True ex by (cases x) (auto split: option.splits)
      ultimately show ?thesis using ex by blast
    next
      case False
      then have "catalog_of r' = catalog_of r1" using ref(2) s by auto
      then show ?thesis using at by (metis cat_nodes_of(2))
    qed
    ultimately show ?thesis by blast
  qed
qed

lemma all_bound_update:
  assumes "all_bound eg st" "reg_reachable (eg_config eg) r" "digest_index r = None" "bound_in (ms_bindings st) r"
  shows "all_bound eg (st\<lparr>ms_registries := (ms_registries st)[j := r]\<rparr>)"
  using assms set_update_subset_insert [of "ms_registries st" j r] by (auto simp: all_bound_def)

lemma on_engine_bound:
  assumes "all_bound eg st" "j < length (ms_registries st)" "keeps (reg_reachable (eg_config eg)) m" "\<And>mg d. keeps (edge_state mg d) m"
  shows "all_bound eg (snd (on_engine j m st)) \<and> length (ms_registries (snd (on_engine j m st))) = length (ms_registries st)"
proof -
  let ?r = "ms_registries st ! j"
  have r: "reg_reachable (eg_config eg) ?r" "digest_index ?r = None" "bound_in (ms_bindings st) ?r" using assms(1,2) by (auto simp: all_bound_def)
  obtain x r' where m: "m ?r = (x, r')" by (cases "m ?r")
  have e: "edge_state (migrations_of_kind ?r) None ?r" using r(2) by (simp add: edge_state_def)
  then have e': "edge_state (migrations_of_kind ?r) None r'" using keepsD [OF assms(4) e] m by simp
  have "reg_reachable (eg_config eg) r'" using keepsD [OF assms(3) r(1)] m by simp
  moreover have "bound_in (ms_bindings st) r'" using r(3) edge_state_at [OF e e'] by (simp add: bound_in_def)
  moreover have "digest_index r' = None" using e' by (simp add: edge_state_def)
  ultimately show ?thesis using all_bound_update [OF assms(1)] m by (simp add: on_engine_def)
qed

lemma keeps_reachable_engine [keeps_intros]:
  "keeps (reg_reachable (eg_config eg)) (store_model eg p)" "keeps (reg_reachable (eg_config eg)) (reconcile_model eg p)"
  "keeps (reg_reachable (eg_config eg)) (engine_add_hook eg i h)"
proof -
  have "keeps (reg_reachable cfg) (\<lambda>r. case find_entry i r of Some x \<Rightarrow> (Inr x, r) | None \<Rightarrow> store cfg n r)" for i cfg n
    by (rule keepsI) (auto intro: keepsD [OF keeps_reachable(1)] split: option.split)
  then show "keeps (reg_reachable (eg_config eg)) (store_model eg p)" unfolding store_model_def by (intro keeps_intros)
  show "keeps (reg_reachable (eg_config eg)) (reconcile_model eg p)" "keeps (reg_reachable (eg_config eg)) (engine_add_hook eg i h)"
    unfolding reconcile_model_def engine_add_hook_def by (intro keeps_intros)+
qed

definition bound_from :: "('v::linorder, 'm, 'b) engine \<Rightarrow> nat \<Rightarrow> ('v, 'w) manager_state \<Rightarrow> bool" where
  "bound_from eg n st \<longleftrightarrow> all_bound eg st \<and> length (ms_registries st) = n"

lemma bound_hook_steps [keeps_intros]:
  "keeps (bound_from eg n) (on_bindings (bind_hook i h))"
  "j < n \<Longrightarrow> keeps (bound_from eg n) (on_engine j (engine_add_hook eg i h'))"
  "j < n \<Longrightarrow> keeps (bound_from eg n) (attach_hook eg j i h)"
proof -
  show a: "keeps (bound_from eg n) (on_bindings (bind_hook i h))" for h
    by (rule keepsI) (auto simp: bound_from_def all_bound_def bound_in_def on_bindings_def binding_lookups)
  show b: "j < n \<Longrightarrow> keeps (bound_from eg n) (on_engine j (engine_add_hook eg i h'))" for h'
  proof (rule keepsI)
    fix st assume "j < n" "bound_from eg n st"
    then show "bound_from eg n (snd (on_engine j (engine_add_hook eg i h') st))"
      using on_engine_bound [of eg st j "engine_add_hook eg i h'", OF _ _ keeps_reachable_engine(3) keeps_edge_state_engine(3)]
      by (simp add: bound_from_def)
  qed
  show "j < n \<Longrightarrow> keeps (bound_from eg n) (attach_hook eg j i h)" unfolding attach_hook_def by (intro keeps_intros a b)
qed

lemma okR_bind_func: "okR (bound_migration i (bind_func e func fname d b)) \<longleftrightarrow> i = e \<or> okR (bound_migration i b)"
  by (simp add: binding_lookups okR_def)

lemma store_migration_bound:
  assumes "all_bound eg st" "j < length (ms_registries st)"
  shows "all_bound eg (snd (manager_store_migration eg j key f mid x st))"
proof (cases "pair_entries eg key")
  case (Inl e)
  then show ?thesis using assms(1) by (simp add: manager_store_migration_def bindS_def liftS_def)
next
  case (Inr pair)
  let ?r = "ms_registries st ! j" and ?spec = "\<lparr>spec_from = fst pair, spec_to = snd pair, spec_func = named_callable f mid,
    spec_discriminator = stored_discriminator key x\<rparr>"
  have r: "reg_reachable (eg_config eg) ?r" "digest_index ?r = None" "bound_in (ms_bindings st) ?r" using assms by (auto simp: all_bound_def)
  obtain y r' where y: "store_migration_spec (eg_config eg) ?spec ?r = (y, r')" by (cases "store_migration_spec (eg_config eg) ?spec ?r")
  note s = store_spec_edges [OF reg_reachable_wf [OF r(1)] r(2) y]
  have "edge_state (migrations_of_kind ?r) None ?r" using r(2) by (simp add: edge_state_def)
  from keepsD [OF keeps_edge_state_spec this, of "eg_config eg" ?spec] have "digest_index (snd (resolve_spec_edge (eg_config eg) ?spec ?r)) = None"
    by (simp add: edge_state_def)
  then have "reg_step (eg_config eg) ?r (snd (store_migration_spec (eg_config eg) ?spec ?r))"
    by (intro st_store_spec) (simp add: digestable_def)
  then have r': "reg_reachable (eg_config eg) r'" using y r(1) by (auto intro: rr_step)
  have upd: "all_bound eg (st\<lparr>ms_registries := (ms_registries st)[j := r'], ms_bindings := b\<rparr>)"
    if b: "bound_in b r'" "\<And>i. okR (bound_migration i (ms_bindings st)) \<Longrightarrow> okR (bound_migration i b)" for b
  proof -
    have "all_bound eg (st\<lparr>ms_bindings := b\<rparr>)" using assms(1) b(2) by (simp add: all_bound_def bound_in_def)
    from all_bound_update [OF this r' conjunct1 [OF s], of j] b(1) show ?thesis by (cases st) simp
  qed
  show ?thesis
  proof (cases y)
    case (Inl err)
    then have "bound_in (ms_bindings st) r'" using s r(3) by (simp add: bound_in_def)
    from all_bound_update [OF assms(1) r' conjunct1 [OF s] this, of j] Inl y Inr show ?thesis
      by (simp add: manager_store_migration_def bindS_def on_engine_def engine_store_migration_def)
  next
    case (Inr e)
    let ?bind = "\<lambda>d. bind_func (eid_of e) (mf_run f) (mf_name f) d (ms_bindings st)"
    have "bound_in (?bind d) r'" for d using s r(3) Inr by (auto simp: bound_in_def okR_bind_func split: if_splits)
    then have bound: "all_bound eg (st\<lparr>ms_registries := (ms_registries st)[j := r'], ms_bindings := ?bind d\<rparr>)" for d
      by (rule upd) (simp add: okR_bind_func)
    show ?thesis
    proof (cases "is_executable e")
      case True
      then show ?thesis using bound Inr y \<open>pair_entries eg key = Inr pair\<close>
        by (cases e) (simp_all add: manager_store_migration_def bindS_def on_engine_def engine_store_migration_def on_bindings_def)
    next
      case False
      then have "bound_in (ms_bindings st) r'" using s r(3) Inr by (auto simp: bound_in_def)
      from all_bound_update [OF assms(1) r' conjunct1 [OF s] this, of j] False Inr y \<open>pair_entries eg key = Inr pair\<close> show ?thesis
        by (cases e) (simp_all add: manager_store_migration_def bindS_def on_engine_def engine_store_migration_def returnS_def)
    qed
  qed
qed

lemma keeps_for_states: "(\<And>x. keeps P (f x)) \<Longrightarrow> keeps P (\<lambda>st. forS f (g st) st)"
  using keeps_for [of P f] by (simp add: keeps_def)

lemma managed_all_bound:
  assumes "managed eg st"
  shows "all_bound eg st"
  using assms
proof induction
  case (md_configure codec linters st)
  then show ?case
    by (auto simp: manager_configure_def new_registry_def all_bound_def bound_in_def edge_at_def bindR_eq_Inr sorted_find_Nil
        intro: rr_new split: option.splits if_splits)
next
  case (md_step st st')
  from md_step.hyps(2) show ?case
  proof cases
    case (mt_new n)
    have "all_bound eg st" by (rule md_step.IH)
    then have "engine_copy (ms_registries st ! 0) = Inr (ms_registries st ! 0)" "ms_registries st ! 0 \<in> set (ms_registries st)"
      by (auto simp: all_bound_def intro!: engine_copy_same reg_reachable_wf)
    then show ?thesis using mt_new md_step.IH by (auto simp: manager_new_def all_bound_def)
  next
    case (mt_store_model j p)
    then show ?thesis using on_engine_bound [OF md_step.IH _ keeps_reachable_engine(1) keeps_edge_state_engine(1)] by (simp add: manager_store_model_def)
  next
    case (mt_reconcile_model j p)
    then show ?thesis using on_engine_bound [OF md_step.IH _ keeps_reachable_engine(2) keeps_edge_state_engine(2)] by (simp add: manager_reconcile_model_def)
  next
    case (mt_store_migration j key f mid x)
    then show ?thesis using store_migration_bound [OF md_step.IH] by simp
  next
    case (mt_add_hook j key h)
    then have "keeps (bound_from eg (length (ms_registries st))) (manager_add_hook eg j key h)"
      unfolding manager_add_hook_def by (intro keeps_intros)
    from keepsD [OF this] md_step.IH mt_add_hook(1) show ?thesis by (simp add: bound_from_def)
  next
    case (mt_attach_hooks j hs)
    then have "keeps (bound_from eg (length (ms_registries st))) (manager_attach_hooks eg j hs)"
      unfolding manager_attach_hooks_def by (intro keeps_for_states keeps_intros)
    from keepsD [OF this] md_step.IH mt_attach_hooks(1) show ?thesis by (simp add: bound_from_def)
  qed
qed

lemma chained_subset: "chained E a es b \<Longrightarrow> set es \<subseteq> E"
  by (induction es arbitrary: a) auto

lemma snapshot_bound:
  assumes "reg_wf cfg r" "bound_in b r" "build_graph ty cfg r expected = Inr g" "e \<in> walkable x g"
  shows "okR (bound_migration (eid_of e) b)"
proof -
  from assms(4) build_graph_backend [OF assms(1,3)] obtain e' where e': "e' \<in> set (registry_edges r)" "e = edge_key_of e'"
    by (auto simp: walkable_def)
  have "is_executable e'" using assms(4) e' snapshot_executable [OF assms(1,3) e'(1)] by (simp add: walkable_def)
  moreover have "edge_at (eid_of e') r = Some e'" using registry_edge_at [OF assms(1), of "eid_of e'" e'] e'(1)
    by (simp add: edge_at_def edges_def)
  ultimately show ?thesis using assms(2) e'(2) by (auto simp: bound_in_def)
qed

text \<open>
  C17. The plans of a manager bind, as long as no migration is removed and no ready-made engine is given to
  \<open>configure\<close> or \<open>Manager\<close>. After any sequence of calls that make instances, store and reconcile models, store
  migrations and add or attach hooks, on the class and its instances and also when calls raise, every plan that
  a runner finds over a snapshot of an instance's registry has a bound callable for each of its edges: binding
  never raises, although registries are per instance and bindings are shared. With removals it is false, as
  \<open>removal_unbinds\<close> below shows, and a given engine brings migrations that the manager has not bound.
\<close>

theorem managed_plan_binds:
  assumes "managed eg st" "j < length (ms_registries st)" "manager_runtime eg pt j opts st = Inr (rn, cs)"
    and "find_plan (rn_coordinator rn) xs target m cs = (Inr plan, cs')"
  shows "okR (build_plan (co_bindings (rn_coordinator rn)) plan payload)"
proof -
  let ?r = "ms_registries st ! j"
  have r: "reg_wf (eg_config eg) ?r" "bound_in (ms_bindings st) ?r"
    using managed_all_bound [OF assms(1)] assms(2) by (auto simp: all_bound_def intro: reg_reachable_wf)
  from assms(3) obtain g where g: "build_graph (eg_types eg) (eg_config eg) ?r None = Inr g" and co: "rn_coordinator rn = runner_coordinator pt opts g (ms_bindings st)"
    "cs_paths cs = []" by (auto simp: manager_runtime_def with_runner_def create_runner_def snapshot_def bindR_eq_Inr)
  let ?pf = "co_finder (rn_coordinator rn)"
  obtain c where "find ?pf xs target m [] = (Inr plan, c)" using assms(4) co(2) by (auto simp: find_plan_def split: prod.splits)
  from find_Inr [OF cache_ok_empty this] obtain f ys es where f: "list_all2 (resolved_from ?pf f) ys es" "set (pp_entries plan) \<subseteq> set es" by (metis filter_is_subset)
  have "okR (bind_entry (ms_bindings st) e)" if "e \<in> set (pp_entries plan)" for e
  proof -
    from that f obtain x where "resolved_from ?pf f x e" using list_all2_inD [OF f(1)] by blast
    then obtain ps where ps: "edge_path (node_id_of (pe_source e)) (node_id_of (pe_target e)) (ro_discriminator opts) g = Inr ps"
      "pe_edges e = map eid_of ps" by (auto simp: resolved_from_def co runner_coordinator_def)
    have "okR (bound_migration i (ms_bindings st))" if "i \<in> set (pe_edges e)" for i
      using snapshot_bound [OF r g] chained_subset [OF edge_path_chained [OF conjunct1 [OF build_graph_backend [OF r(1) g]] ps(1)]] that ps(2) by auto
    then have "okR (mapR (\<lambda>i. bound_migration i (ms_bindings st)) (pe_edges e))" by (simp add: mapR_okR)
    then show ?thesis by (auto simp: bind_entry_def okR_def bindR_def split: sum.splits)
  qed
  then have "okR (mapR (bind_entry (ms_bindings st)) (pp_entries plan))" by (simp add: mapR_okR)
  then show ?thesis by (auto simp: build_plan_def okR_def bindR_def co runner_coordinator_def split: sum.splits)
qed

text \<open>A removal that raises leaves the stored entries and edges as they were.\<close>

lemma removal_error_keeps:
  assumes "reg_wf (eg_config eg) r" "engine_remove_migration eg i force r = (Inl err, r')"
  shows "catalog_of r' = catalog_of r"
proof -
  let ?guard = "if force then returnS () else bindS (is_adjacent i) (\<lambda>adjacent. if \<not> adjacent then raiseS CatalogError
    else bindS (is_critical_edge i) (\<lambda>critical. if critical then raiseS CatalogError else returnS ()))"
  have k: "keeps (\<lambda>s. catalog_of s = catalog_of r) (is_adjacent i)" "keeps (\<lambda>s. catalog_of s = catalog_of r) (is_critical_edge i)"
    "keeps (reg_wf (eg_config eg)) (is_adjacent i)" "keeps (reg_wf (eg_config eg)) (is_critical_edge i)"
    by (auto intro!: keepsI wf_intros simp: is_adjacent_def is_critical_edge_def Let_def catalog_of_def edge_at_def find_entry_def dict_simps)
  have "keeps (\<lambda>s. catalog_of s = catalog_of r) ?guard" "keeps (reg_wf (eg_config eg)) ?guard" by (intro keeps_intros k)+
  from keepsD [OF this(1), of r] keepsD [OF this(2) assms(1)]
  have g: "catalog_of (snd (?guard r)) = catalog_of r" "reg_wf (eg_config eg) (snd (?guard r))" by simp_all
  show ?thesis
  proof (cases "get_migration i r")
    case (Inl e)
    then show ?thesis using assms(2) by (simp add: engine_remove_migration_def bindS_def)
  next
    case (Inr e)
    then show ?thesis
      using assms(2) g refines_remove_migration [OF g(2), of "edge_key_of e"] unfolding engine_remove_migration_def
      by (cases "?guard r"; cases "fst (?guard r)")
        (auto simp: bindS_def refines_def spec_remove_migration_def split: if_splits option.splits simp del: eid_of_simps)
  qed
qed

text \<open>
  C29. Removing a migration unbinds it whatever comes of the removal: a removal that raises, such as that of
  a critical migration, leaves the migration in the registry without a callable, and one that succeeds leaves
  it in the registries of the other instances, all of which share the bindings.
\<close>

theorem removal_unbinds:
  assumes "managed eg st" "j < length (ms_registries st)" "key_edge eg key = Inr edge" "manager_remove_migration eg j key st = (x, st')"
  shows "bound_migration (eid_of edge) (ms_bindings st') = Inl MigrationNotFoundError
    \<and> (\<forall>i. i \<noteq> j \<longrightarrow> ms_registries st' ! i = ms_registries st ! i)
    \<and> (x \<noteq> Inr () \<longrightarrow> catalog_of (ms_registries st' ! j) = catalog_of (ms_registries st ! j))"
proof -
  let ?r = "ms_registries st ! j"
  have wf: "reg_wf (eg_config eg) ?r"
    using managed_all_bound [OF assms(1)] assms(2) by (auto simp: all_bound_def intro: reg_reachable_wf)
  obtain y r' where y: "engine_remove_migration eg (eid_of edge) False ?r = (y, r')"
    by (cases "engine_remove_migration eg (eid_of edge) False ?r")
  then have st: "x = y" "st' = st\<lparr>ms_bindings := unbind_migration (eid_of edge) (ms_bindings st), ms_registries := (ms_registries st)[j := r']\<rparr>"
    using assms(3,4) by (auto simp: manager_remove_migration_def bindS_def on_bindings_def on_engine_def)
  have "catalog_of r' = catalog_of ?r" if "x \<noteq> Inr ()"
    using removal_error_keeps [OF wf, of "eid_of edge" False _ r'] y st(1) that by (cases y) auto
  then show ?thesis using st(2) assms(2) by (simp add: binding_lookups)
qed

section \<open>A concrete manager\<close>

definition managed_engine :: "(nat, nat, unit) engine" where
  "managed_engine = \<lparr>eg_config = sample_cfg\<lparr>cfg_reflection := Some \<lparr>
       rp_diff = (\<lambda>a b _. Inr \<lparr>diff_source = a, diff_target = b, diff_fields = [], diff_origin = SCHEMA\<rparr>),
       rp_reflect = (\<lambda>_. Inl TypeError), rp_bind = (\<lambda>_. Inr ())\<rparr>\<rparr>,
     eg_adapter = \<lparr>ea_namespace = ''a'', ea_versionable = (\<lambda>m. Inr (sample_model m)),
       ea_version_key = (\<lambda>k v. Inl TypeError), ea_ref = (\<lambda>_. Inr sample_ref), ea_identify = (\<lambda>_. True), ea_resolve = (\<lambda>_. Inr 0)\<rparr>,
     eg_types = sample_types\<rparr>"

definition managed_func :: "nat manager_func" where
  "managed_func = \<lparr>mf_callable = \<lparr>cl_migration_identity = None, cl_migration_id = Some ''f'', cl_module = ''m'', cl_qualname = ''f'', cl_firstlineno = None\<rparr>,
     mf_run = (\<lambda>d _. returnS (Now d)), mf_name = Some ''f''\<rparr>"

definition managed_start :: "(nat, nat) manager_state" where
  "managed_start = \<lparr>ms_registries = [sample_empty], ms_bindings = \<lparr>bn_name = ''a'', bn_migrations = [], bn_hooks_by_edge = []\<rparr>\<rparr>"

definition managed_sample :: "(nat, nat) manager_state" where
  "managed_sample = snd (manager_store_migration managed_engine 0 (ModelPair 1 2) managed_func None None
     (snd (manager_store_model managed_engine 0 (ClassPayload 2) (snd (manager_store_model managed_engine 0 (ClassPayload 1) managed_start)))))"

lemma on_engine_length: "length (ms_registries (snd (on_engine j m st))) = length (ms_registries st)"
  by (simp add: on_engine_def split: prod.split)

lemma managed_sample: "managed managed_engine managed_sample"
proof -
  have "manager_configure (Some ''a'') None False = Inr managed_start"
    by (simp add: manager_configure_def managed_start_def new_registry_def sample_empty_def)
  then have "managed managed_engine managed_start" by (rule md_configure)
  then show ?thesis unfolding managed_sample_def
    by (intro md_step [OF _ mt_store_migration] md_step [OF _ mt_store_model])
      (simp_all add: manager_store_model_def on_engine_length, simp_all add: managed_start_def)
qed

definition managed_ports :: "(nat, nat) runner_ports" where
  "managed_ports = \<lparr>pt_adapter = \<lparr>ma_kind_property = ''kind'', ma_version_property = ''version'', ma_can_handle = (\<lambda>_. True),
       ma_validate = (\<lambda>j _ _. Inr j), ma_field_model = (\<lambda>_ _. None), ma_resolve = (\<lambda>_. Inr 0), ma_identify = (\<lambda>_. True),
       ma_finalize = (\<lambda>_ d. Inr d)\<rparr>,
     pt_parse_arg = (\<lambda>_. Inl TypeError), pt_parse = (\<lambda>s. Inr (length s)), pt_ref_of = (\<lambda>_. sample_ref),
     pt_names = \<lparr>kn_model_name = (\<lambda>_. ''M''), kn_repr = (\<lambda>_. ''r''), kn_show = (\<lambda>v. replicate v (CHR ''x''))\<rparr>, pt_fraction = (\<lambda>_. 0)\<rparr>"

definition managed_options :: "(nat, nat, nat) runner_options" where
  "managed_options = \<lparr>ro_backend = async_backend sample_setup,
     ro_telemetry_of_environment = \<lparr>tp_adapters = [], tp_mode = ''all'', tp_sample_rate = 1, tp_fraction = (\<lambda>_. 0)\<rparr>,
     ro_new_id = (\<lambda>_. returnS ''r''), ro_direction = ForwardDirection, ro_on_direction_violation = ''raise'', ro_on_missing_path = ''raise'',
     ro_depth_limit = 5, ro_on_depth_violation = ''raise'', ro_validation_mode = ''strict'', ro_discriminator = ''default'',
     ro_middleware = [], ro_telemetry = [], ro_telemetry_mode = ''all'', ro_telemetry_sample_rate = 1, ro_plan_cache_size = 4, ro_copy = ''deep''\<rparr>"

lemma managed_sample_plan:
  "case manager_runtime managed_engine managed_ports 0 managed_options managed_sample of Inl _ \<Rightarrow> False
   | Inr (rn, cs) \<Rightarrow> (case find_plan (rn_coordinator rn) [sample_extracted] (TString ''latest'') None cs of
       (Inl _, _) \<Rightarrow> False | (Inr plan, _) \<Rightarrow> map pe_edges (pp_entries plan) = [[sample_edge_id]])"
  by code_simp

theorem managed_plan_binds_witness:
  "\<exists>rn cs plan cs'. manager_runtime managed_engine managed_ports 0 managed_options managed_sample = Inr (rn, cs)
     \<and> find_plan (rn_coordinator rn) [sample_extracted] (TString ''latest'') None cs = (Inr plan, cs')
     \<and> map pe_edges (pp_entries plan) = [[sample_edge_id]]
     \<and> okR (build_plan (co_bindings (rn_coordinator rn)) plan JNull)"
proof -
  obtain rn cs where rn: "manager_runtime managed_engine managed_ports 0 managed_options managed_sample = Inr (rn, cs)"
    using managed_sample_plan by (cases "manager_runtime managed_engine managed_ports 0 managed_options managed_sample") auto
  then obtain plan cs' where p: "find_plan (rn_coordinator rn) [sample_extracted] (TString ''latest'') None cs = (Inr plan, cs')"
    "map pe_edges (pp_entries plan) = [[sample_edge_id]]"
    using managed_sample_plan by (cases "find_plan (rn_coordinator rn) [sample_extracted] (TString ''latest'') None cs") (auto split: sum.splits)
  have "0 < length (ms_registries managed_sample)" by code_simp
  from managed_plan_binds [OF managed_sample this rn p(1), of JNull]
  show ?thesis by (intro exI conjI) (rule rn, rule p, rule p)
qed

theorem removal_unbinds_witness:
  "let st' = snd (manager_remove_migration managed_engine 0 (ModelPair 1 2) (snd (manager_new None managed_sample)))
   in bound_migration sample_edge_id (ms_bindings st') = Inl MigrationNotFoundError \<and> edge_at sample_edge_id (ms_registries st' ! 1) \<noteq> None"
proof -
  let ?st = "snd (manager_new None managed_sample)"
  obtain x st' where st': "manager_remove_migration managed_engine 0 (ModelPair 1 2) ?st = (x, st')"
    by (cases "manager_remove_migration managed_engine 0 (ModelPair 1 2) ?st")
  have "okR (fst (manager_new None managed_sample))" by code_simp
  then obtain n where "manager_new None managed_sample = (Inr n, ?st)"
    by (cases "manager_new None managed_sample"; cases "fst (manager_new None managed_sample)") (auto simp: okR_def)
  then have m: "managed managed_engine ?st" by (rule md_step [OF managed_sample mt_new])
  have e: "key_edge managed_engine (ModelPair 1 2) = Inr (KeyEdge (sample_model 1) (sample_model 2) ''default'' (EdgeRef []))"
    "eid_of (KeyEdge (sample_model 1) (sample_model 2) ''default'' (EdgeRef [])) = sample_edge_id" by code_simp+
  have "0 < length (ms_registries ?st)" "edge_at sample_edge_id (ms_registries ?st ! 1) \<noteq> None" by code_simp+
  then show ?thesis using removal_unbinds [OF m _ e(1) st'] st' e(2) by simp
qed

end
