(* ===== verification/Patch_Operations.thy ===== *)
theory Patch_Operations
  imports Paths
begin

text \<open>
  The operations with which \<open>migrations/json_patch/patch.py\<close> extends JSON patches (\<open>set_default\<close>, \<open>coerce\<close>, \<open>map\<close>
  and \<open>split\<close>), the pointers of \<open>migrations/json_patch/pointer.py\<close>, and the declarative JSONata migrations of
  \<open>migrations/jsonata/migration.py\<close>. The packages \<open>jsonpatch\<close>, \<open>jsonpointer\<close> and \<open>jsonata\<close> are parameters: how
  a pointer is taken apart, resolved and assigned, how a core operation is applied, and how an expression is
  evaluated. So is \<open>float\<close> of a text. Python refuses to convert between integers and texts of more than 4300 digits
  unless it is configured otherwise; conversions here have no such limit.
\<close>

section \<open>Texts and numbers\<close>

definition is_space :: "char \<Rightarrow> bool" where
  "is_space c \<longleftrightarrow> (of_char c :: nat) \<in> {9, 10, 11, 12, 13, 28, 29, 30, 31, 32, 133, 160}"

definition strip :: "string \<Rightarrow> string" where
  "strip s = rev (dropWhile is_space (rev (dropWhile is_space s)))"

definition lower_char :: "char \<Rightarrow> char" where
  "lower_char c = (if 65 \<le> (of_char c :: nat) \<and> (of_char c :: nat) \<le> 90 then char_of ((of_char c :: nat) + 32) else c)"

definition digit_of :: "char \<Rightarrow> nat option" where
  "digit_of c = (let n = of_char c :: nat in if 48 \<le> n \<and> n \<le> 57 then Some (n - 48) else None)"

text \<open>The digits of a decimal literal, between which single underscores may stand.\<close>

fun int_digits :: "nat \<Rightarrow> bool \<Rightarrow> string \<Rightarrow> nat option" where
  "int_digits acc after_digit [] = (if after_digit then Some acc else None)"
| "int_digits acc after_digit (c # s) = (case digit_of c of
     Some k \<Rightarrow> int_digits (10 * acc + k) True s
   | None \<Rightarrow> if c = CHR ''_'' \<and> after_digit then int_digits acc False s else None)"

definition py_int :: "string \<Rightarrow> int option" where
  "py_int s = (case strip s of
     c # t \<Rightarrow> if c = CHR ''-'' then map_option (\<lambda>n. - int n) (int_digits 0 False t)
             else if c = CHR ''+'' then map_option int (int_digits 0 False t) else map_option int (int_digits 0 False (c # t))
   | [] \<Rightarrow> None)"

text \<open>\<open>text.split(sep)\<close>.\<close>

function split_text :: "string \<Rightarrow> string \<Rightarrow> string \<Rightarrow> string list" where
  "split_text sep acc [] = [rev acc]"
| "split_text sep acc (c # s) = (if sep \<noteq> [] \<and> take (length sep) (c # s) = sep
     then rev acc # split_text sep [] (drop (length sep) (c # s)) else split_text sep (c # acc) s)"
  by pat_completeness auto
termination by (relation "measure (\<lambda>(sep, acc, s). length s)") (auto simp: neq_Nil_conv)

definition py_split :: "string \<Rightarrow> string \<Rightarrow> string list res" where
  "py_split sep s = (if sep = [] then Inl ValueError else Inr (split_text sep [] s))"

section \<open>Operations\<close>

text \<open>
  An operation has the entries of its dictionary; those that may be missing are optional. The last part of a
  pointer is a name in an object and an index in a list, except for the name \<open>-\<close>, which stays a name. The parent
  of a pointer is an object inside the document, given by its position.
\<close>

datatype extended_op =
    SetDefault string "json option"
  | Coerce string "string option"
  | MapValue string "(string \<times> json) list option" "json option"
  | Split string "string option" "string list option"

datatype last_part = LastName string | LastIndex int

record pointer_library =
  pl_parts :: "string \<Rightarrow> string list"
  pl_resolve :: "string \<Rightarrow> json \<Rightarrow> json res"
  pl_set :: "string \<Rightarrow> json \<Rightarrow> json \<Rightarrow> json res"
  pl_to_last :: "string \<Rightarrow> json \<Rightarrow> (path \<times> last_part) res"

definition require_entry :: "'a option \<Rightarrow> 'a res" where
  "require_entry x = (case x of None \<Rightarrow> Inl KeyError | Some v \<Rightarrow> Inr v)"

definition default_in_list :: "json \<Rightarrow> json list \<Rightarrow> last_part \<Rightarrow> json res" where
  "default_in_list doc xs key = (case key of
     LastName _ \<Rightarrow> Inl TypeError
   | LastIndex i \<Rightarrow> if i < 0 \<or> i \<ge> int (length xs) then Inl JsonPatchException else Inr doc)"

definition apply_set_default :: "pointer_library \<Rightarrow> string \<Rightarrow> json option \<Rightarrow> json \<Rightarrow> json res" where
  "apply_set_default pl ptr given doc = (if pl_parts pl ptr = [] then Inl JsonPatchException
     else bindR (pl_to_last pl ptr doc) (\<lambda>(parent, key). bindR (path_get parent doc) (\<lambda>container. case container of
       JList xs \<Rightarrow> default_in_list doc xs key
     | JObj d \<Rightarrow> (case key of
         LastIndex _ \<Rightarrow> Inl TypeError
       | LastName k \<Rightarrow> if dict_has d k then Inr doc
           else bindR (require_entry given) (\<lambda>v. path_assign (parent @ [Key k]) v doc))
     | _ \<Rightarrow> Inl TypeError)))"

definition coerce_boolean :: "json \<Rightarrow> json res" where
  "coerce_boolean v = (case v of
     JBool b \<Rightarrow> Inr (JBool b)
   | JInt i \<Rightarrow> if i = 0 \<or> i = 1 then Inr (JBool (i = 1)) else Inl JsonPatchException
   | JFloat x \<Rightarrow> if flt_int x = Some 0 \<or> flt_int x = Some 1 then Inr (JBool (flt_int x = Some 1)) else Inl JsonPatchException
   | JStr s \<Rightarrow> if map lower_char s = ''true'' then Inr (JBool True)
       else if map lower_char s = ''false'' then Inr (JBool False) else Inl JsonPatchException
   | _ \<Rightarrow> Inl JsonPatchException)"

definition coerce_integer :: "json \<Rightarrow> json res" where
  "coerce_integer v = (case v of
     JInt i \<Rightarrow> Inr (JInt i)
   | JFloat x \<Rightarrow> (case flt_int x of Some i \<Rightarrow> Inr (JInt i) | None \<Rightarrow> Inl JsonPatchException)
   | JStr s \<Rightarrow> (case py_int s of Some i \<Rightarrow> Inr (JInt i) | None \<Rightarrow> Inl JsonPatchException)
   | _ \<Rightarrow> Inl JsonPatchException)"

definition coerce_number :: "(string \<Rightarrow> pyfloat option) \<Rightarrow> json \<Rightarrow> json res" where
  "coerce_number float_of v = (case v of
     JInt i \<Rightarrow> Inr (JInt i)
   | JFloat x \<Rightarrow> Inr (JFloat x)
   | JStr s \<Rightarrow> (case float_of s of Some x \<Rightarrow> Inr (JFloat x) | None \<Rightarrow> Inl JsonPatchException)
   | _ \<Rightarrow> Inl JsonPatchException)"

definition coerce_value :: "(string \<Rightarrow> pyfloat option) \<Rightarrow> string \<Rightarrow> json \<Rightarrow> json res" where
  "coerce_value float_of target v =
     (if target = ''string'' then Inr (JStr (py_str v))
      else if target = ''boolean'' then coerce_boolean v
      else if target = ''integer'' then coerce_integer v
      else if target = ''number'' then coerce_number float_of v
      else Inl JsonPatchException)"

definition apply_coerce :: "(string \<Rightarrow> pyfloat option) \<Rightarrow> pointer_library \<Rightarrow> string \<Rightarrow> string option \<Rightarrow> json \<Rightarrow> json res" where
  "apply_coerce float_of pl ptr target doc = bindR (pl_resolve pl ptr doc) (\<lambda>v. bindR (require_entry target) (\<lambda>t.
     bindR (coerce_value float_of t v) (\<lambda>w. pl_set pl ptr doc w)))"

text \<open>Membership in the mapping hashes the value, which a list or an object does not allow; its keys are texts.\<close>

definition apply_map :: "pointer_library \<Rightarrow> string \<Rightarrow> (string \<times> json) list option \<Rightarrow> json option \<Rightarrow> json \<Rightarrow> json res" where
  "apply_map pl ptr mapping dflt doc = bindR (pl_resolve pl ptr doc) (\<lambda>v. bindR (require_entry mapping) (\<lambda>m.
     bindR (case v of JStr s \<Rightarrow> Inr (map_of m s) | JList _ \<Rightarrow> Inl TypeError | JObj _ \<Rightarrow> Inl TypeError | _ \<Rightarrow> Inr None) (\<lambda>hit. case hit of
       Some w \<Rightarrow> pl_set pl ptr doc w
     | None \<Rightarrow> (case dflt of Some w \<Rightarrow> pl_set pl ptr doc w | None \<Rightarrow> Inl JsonPatchException))))"

fun set_fields :: "pointer_library \<Rightarrow> string list \<Rightarrow> string list \<Rightarrow> json \<Rightarrow> json res" where
  "set_fields pl [] parts doc = Inr doc"
| "set_fields pl (field # fs) parts doc =
     bindR (pl_set pl field doc (case parts of [] \<Rightarrow> JNull | p # _ \<Rightarrow> JStr p)) (set_fields pl fs (drop 1 parts))"

definition apply_split :: "pointer_library \<Rightarrow> string \<Rightarrow> string option \<Rightarrow> string list option \<Rightarrow> json \<Rightarrow> json res" where
  "apply_split pl ptr sep names doc = bindR (pl_resolve pl ptr doc) (\<lambda>v. case v of
     JStr s \<Rightarrow> bindR (require_entry sep) (\<lambda>x. bindR (py_split x s) (\<lambda>parts.
       bindR (require_entry names) (\<lambda>fs. set_fields pl fs parts doc)))
   | _ \<Rightarrow> Inl JsonPatchException)"

definition apply_extended :: "(string \<Rightarrow> pyfloat option) \<Rightarrow> pointer_library \<Rightarrow> extended_op \<Rightarrow> json \<Rightarrow> json res" where
  "apply_extended float_of pl op doc = (case op of
     SetDefault ptr v \<Rightarrow> apply_set_default pl ptr v doc
   | Coerce ptr t \<Rightarrow> apply_coerce float_of pl ptr t doc
   | MapValue ptr m d \<Rightarrow> apply_map pl ptr m d doc
   | Split ptr sep fs \<Rightarrow> apply_split pl ptr sep fs doc)"

text \<open>
  The table of operations has the core ones of the package and the extended ones; calling a patch applies it.
  \<open>apply\<close> is the package's: it runs the operations in order on a copy.
\<close>

datatype 'c patch_step = CoreOp 'c | ExtendedOp extended_op

definition operation :: "(string \<Rightarrow> pyfloat option) \<Rightarrow> pointer_library \<Rightarrow> ('c \<Rightarrow> json \<Rightarrow> json res) \<Rightarrow> 'c patch_step \<Rightarrow> json \<Rightarrow> json res" where
  "operation float_of pl core op doc = (case op of CoreOp c \<Rightarrow> core c doc | ExtendedOp e \<Rightarrow> apply_extended float_of pl e doc)"

fun apply_in_order :: "('o \<Rightarrow> json \<Rightarrow> json res) \<Rightarrow> 'o list \<Rightarrow> json \<Rightarrow> json res" where
  "apply_in_order f [] doc = Inr doc"
| "apply_in_order f (op # ops) doc = bindR (f op doc) (apply_in_order f ops)"

definition patch_call :: "(('c patch_step \<Rightarrow> json \<Rightarrow> json res) \<Rightarrow> 'c patch_step list \<Rightarrow> json \<Rightarrow> json res)
    \<Rightarrow> (string \<Rightarrow> pyfloat option) \<Rightarrow> pointer_library \<Rightarrow> ('c \<Rightarrow> json \<Rightarrow> json res) \<Rightarrow> 'c patch_step list \<Rightarrow> json \<Rightarrow> json res" where
  "patch_call apply_patch float_of pl core ops data = apply_patch (operation float_of pl core) ops data"

section \<open>Pointers\<close>

definition is_digits :: "string \<Rightarrow> bool" where
  "is_digits s \<longleftrightarrow> s \<noteq> [] \<and> list_all (\<lambda>c. digit_of c \<noteq> None) s"

definition pointer_step :: "string \<Rightarrow> step" where
  "pointer_step tok = (if is_digits tok then (case int_digits 0 False tok of Some n \<Rightarrow> Idx (int n) | None \<Rightarrow> Key tok) else Key tok)"

text \<open>\<open>parts\<close> is the unescaped parts of a pointer of the \<open>jsonpointer\<close> package.\<close>

definition from_pointer :: "(string \<Rightarrow> string list res) \<Rightarrow> string \<Rightarrow> path res" where
  "from_pointer parts ptr = (if ptr = [] then Inr [] else bindR (parts ptr) (\<lambda>ps. Inr (map pointer_step ps)))"

definition pointer_get :: "path \<Rightarrow> json \<Rightarrow> json res" where
  "pointer_get p data = path_get p data"

definition pointer_set :: "path \<Rightarrow> json \<Rightarrow> json \<Rightarrow> json res" where
  "pointer_set p data v = (if p = [] then (case v of JObj d \<Rightarrow> Inr (JObj (dict_of d)) | _ \<Rightarrow> Inl TypeError) else path_assign p v data)"

section \<open>JSONata\<close>

record 'e jsonata_package =
  jl_compile :: "string \<Rightarrow> 'e res"
  jl_evaluate :: "'e \<Rightarrow> json \<Rightarrow> (string \<times> json) list option \<Rightarrow> json res"

record 'e jsonata_transform =
  jt_expression :: string
  jt_compiled :: 'e

definition mk_transform :: "'e jsonata_package \<Rightarrow> string \<Rightarrow> 'e jsonata_transform res" where
  "mk_transform jl expression = (if strip expression = [] then Inl ValueError
     else (case jl_compile jl expression of Inl _ \<Rightarrow> Inl ValueError | Inr e \<Rightarrow> Inr \<lparr>jt_expression = expression, jt_compiled = e\<rparr>))"

definition transform_call :: "'e jsonata_package \<Rightarrow> 'e jsonata_transform \<Rightarrow> json \<Rightarrow> (string \<times> json) list option \<Rightarrow> json res" where
  "transform_call jl t data context =
     (let active = (case context of None \<Rightarrow> [] | Some c \<Rightarrow> c) in
      bindR (jl_evaluate jl (jt_compiled t) data (if active = [] then None else Some active)) (\<lambda>result. case result of
        JObj d \<Rightarrow> Inr (JObj d) | _ \<Rightarrow> Inl TypeError))"

record 'e jsonata_migration =
  jm_expression :: string
  jm_spec :: "(string \<times> json) list"
  jm_migration :: "'e jsonata_transform"

definition mk_jsonata :: "'e jsonata_package \<Rightarrow> string \<Rightarrow> (string \<times> json) list option \<Rightarrow> 'e jsonata_migration res" where
  "mk_jsonata jl expression spec = bindR (mk_transform jl expression) (\<lambda>t.
     Inr \<lparr>jm_expression = expression, jm_spec = (case spec of None \<Rightarrow> [(''expression'', JStr expression)] | Some s \<Rightarrow> s), jm_migration = t\<rparr>)"

definition from_expression :: "'e jsonata_package \<Rightarrow> json \<Rightarrow> 'e jsonata_migration res" where
  "from_expression jl v = (case v of JStr s \<Rightarrow> mk_jsonata jl s None | _ \<Rightarrow> Inl TypeError)"

definition spec_version :: "(string \<times> json) list \<Rightarrow> string \<Rightarrow> unit res" where
  "spec_version spec key = (case map_of spec key of Some (JStr (c # s)) \<Rightarrow> Inr () | _ \<Rightarrow> Inl ValueError)"

definition from_spec :: "'e jsonata_package \<Rightarrow> (string \<times> json) list \<Rightarrow> 'e jsonata_migration res" where
  "from_spec jl spec = bindR (spec_version spec ''from'') (\<lambda>_. bindR (spec_version spec ''to'') (\<lambda>_.
     case map_of spec ''expression'' of
       Some (JStr s) \<Rightarrow> if strip s = [] then Inl ValueError else mk_jsonata jl s (Some spec)
     | _ \<Rightarrow> Inl ValueError))"

definition create_jsonata :: "'e jsonata_package \<Rightarrow> json \<Rightarrow> 'e jsonata_migration res" where
  "create_jsonata jl v = (case v of JStr s \<Rightarrow> from_expression jl (JStr s) | JObj d \<Rightarrow> from_spec jl d | _ \<Rightarrow> Inl TypeError)"

definition jsonata_call :: "'e jsonata_package \<Rightarrow> 'e jsonata_migration \<Rightarrow> json \<Rightarrow> (string \<times> json) list option \<Rightarrow> json res" where
  "jsonata_call jl m data context = transform_call jl (jm_migration m) data context"

section \<open>Coercion\<close>

definition has_target_type :: "string \<Rightarrow> json \<Rightarrow> bool" where
  "has_target_type t v = (case v of
     JStr _ \<Rightarrow> t = ''string'' | JBool _ \<Rightarrow> t = ''boolean'' | JInt _ \<Rightarrow> t = ''integer'' \<or> t = ''number'' | JFloat _ \<Rightarrow> t = ''number'' | _ \<Rightarrow> False)"

lemma coerce_result:
  assumes "coerce_value float_of t v = Inr w"
  shows "has_target_type t w \<and> coerce_value float_of t w = Inr w"
  using assms
  by (auto simp: coerce_value_def coerce_boolean_def coerce_integer_def coerce_number_def has_target_type_def
      split: json.splits if_splits option.splits)

lemma digit_of_char: "n < 10 \<Longrightarrow> digit_of (digit_char n) = Some n"
  by (simp add: digit_of_def digit_char_def Let_def)

lemma int_digits_append: "int_digits acc b s = Some n \<Longrightarrow> s \<noteq> [] \<Longrightarrow> int_digits acc b (s @ t) = int_digits n True t"
proof (induction s arbitrary: acc b)
  case (Cons c s)
  show ?case
  proof (cases "s = []")
    case True
    then show ?thesis using Cons.prems by (auto split: option.splits if_splits)
  next
    case False
    then show ?thesis using Cons by (auto split: option.splits if_splits)
  qed
qed simp

lemma show_nat_not_empty [simp]: "show_nat n \<noteq> []"
  by (subst show_nat.simps) simp

lemma int_digits_show: "int_digits acc b (show_nat n) = Some (acc * 10 ^ length (show_nat n) + n)"
proof (induction n arbitrary: acc b rule: show_nat.induct)
  case (1 n)
  show ?case
  proof (cases "n < 10")
    case True
    then show ?thesis by (subst (1 2) show_nat.simps) (simp add: digit_of_char)
  next
    case False
    have "int_digits acc b (show_nat (n div 10) @ [digit_char (n mod 10)]) = Some (10 * (acc * 10 ^ length (show_nat (n div 10)) + n div 10) + n mod 10)"
      using int_digits_append [OF 1 [OF False]] by (simp add: digit_of_char)
    then show ?thesis using False by (subst (1 2) show_nat.simps) (simp add: algebra_simps)
  qed
qed

lemma show_nat_chars: "c \<in> set (show_nat n) \<Longrightarrow> 48 \<le> (of_char c :: nat) \<and> (of_char c :: nat) \<le> 57"
proof (induction n rule: show_nat.induct)
  case (1 n)
  then show ?case by (cases "n < 10") (auto simp: show_nat.simps [of n] digit_char_def)
qed

lemma strip_id: "(\<And>c. c \<in> set s \<Longrightarrow> \<not> is_space c) \<Longrightarrow> strip s = s"
proof -
  assume a: "\<And>c. c \<in> set s \<Longrightarrow> \<not> is_space c"
  then have "dropWhile is_space s = s" "dropWhile is_space (rev s) = rev s" by (auto simp: dropWhile_eq_self_iff hd_rev)
  then show ?thesis by (simp add: strip_def)
qed

lemma py_int_show: "py_int (show_int i) = Some i"
proof -
  have "\<not> is_space c" if "c \<in> set (show_int i)" for c
    using that show_nat_chars [of c] by (fastforce simp: show_int_def is_space_def split: if_splits)
  then have "strip (show_int i) = show_int i" by (rule strip_id)
  moreover obtain c s where c: "show_nat (nat i) = c # s" by (cases "show_nat (nat i)") simp_all
  moreover from c have "c \<noteq> CHR ''-''" "c \<noteq> CHR ''+''" using show_nat_chars [of c "nat i"] by auto
  ultimately show ?thesis using int_digits_show [of 0 False "nat i"] int_digits_show [of 0 False "nat (- i)"]
    by (cases "i < 0") (simp_all add: py_int_def show_int_def)
qed

text \<open>
  C37. Coercion gives a value of the target type or raises, does nothing to a value that it gave before, and
  takes an integer through its text and back.
\<close>

theorem coerce_correct:
  "(coerce_value float_of t v = Inr w \<longrightarrow> has_target_type t w \<and> coerce_value float_of t w = Inr w)
   \<and> bindR (coerce_value float_of ''string'' (JInt i)) (coerce_value float_of ''integer'') = Inr (JInt i)"
  using coerce_result [of float_of t v w] py_int_show [of i] by (auto simp: coerce_value_def coerce_integer_def)

theorem coerce_correct_witness:
  "coerce_value (\<lambda>_. None) ''boolean'' (JStr ''True'') = Inr (JBool True) \<and> has_target_type ''boolean'' (JBool True)"
proof -
  have "coerce_value (\<lambda>_. None) ''boolean'' (JStr ''True'') = Inr (JBool True)" by code_simp
  then show ?thesis using coerce_correct [of "\<lambda>_. None" "''boolean''" "JStr ''True''" "JBool True" 0] by blast
qed

section \<open>Splitting\<close>

lemma split_text_nonempty: "split_text sep acc s \<noteq> []"
  by (induction sep acc s rule: split_text.induct) auto

lemma join_Cons: "xs \<noteq> [] \<Longrightarrow> join sep (x # xs) = x @ sep @ join sep xs"
  by (cases xs) auto

lemma split_join: "join sep (split_text sep acc s) = rev acc @ s"
proof (induction sep acc s rule: split_text.induct)
  case (2 sep acc c s)
  show ?case
  proof (cases "sep \<noteq> [] \<and> take (length sep) (c # s) = sep")
    case True
    then show ?thesis using 2(1) [OF True] append_take_drop_id [of "length sep" "c # s"]
      by (simp add: join_Cons split_text_nonempty del: append_take_drop_id)
  qed (use 2(2) in auto)
qed simp

section \<open>Defaults\<close>

lemma assign_subscript:
  assumes "assign v s w = Inr v'"
  shows "subscript v' s = Inr w" "t \<noteq> s \<Longrightarrow> proper_path [s, t] \<Longrightarrow> subscript v' t = subscript v t"
proof -
  show "subscript v' s = Inr w" using assms by (cases v; cases s) (auto simp: update_conv' py_position_bound split: option.splits)
  assume t: "t \<noteq> s" "proper_path [s, t]"
  show "subscript v' t = subscript v t"
  proof (cases v; cases s)
    fix xs i assume v: "v = JList xs" "s = Idx i"
    then obtain n where n: "py_position (length xs) i = Some n" "v' = JList (xs[n := w])" using assms by (auto split: option.splits)
    have "py_position (length xs) j \<noteq> Some n" if "t = Idx j" for j
      using t n(1) v that by (auto simp: py_position_def split: if_splits)
    then show ?thesis using n v by (cases t) (auto split: option.splits)
  next
    fix d k assume "v = JObj d" "s = Key k"
    then show ?thesis using assms t by (cases t) (auto simp: update_conv')
  qed (use assms in auto)
qed

lemma path_assign_apart:
  "path_assign p w v = Inr v' \<Longrightarrow> apart p q \<Longrightarrow> proper_path p \<Longrightarrow> proper_path q \<Longrightarrow> path_get q v' = path_get q v"
proof (induction p w v arbitrary: v' q rule: path_assign.induct)
  case (2 s w v)
  then obtain t q' where "q = t # q'" "t \<noteq> s" by (cases q) auto
  then show ?case using 2 assign_subscript(2) [of v s w v' t] by (simp add: proper_path_def)
next
  case (3 s x p w v)
  then obtain t q' where q: "q = t # q'" by (cases q) auto
  from 3 obtain inner inner' where i: "subscript v s = Inr inner" "path_assign (x # p) w inner = Inr inner'" "assign v s inner' = Inr v'"
    by (auto simp: bindR_eq_Inr)
  show ?case
  proof (cases "t = s")
    case True
    then show ?thesis using "3.IH" [OF i(2), of q'] "3.prems" q i assign_subscript(1) [OF i(3)] by simp
  next
    case False
    then show ?thesis using "3.prems" q assign_subscript(2) [OF i(3), of t] by (simp add: proper_path_def)
  qed
qed simp

lemma path_get_text: "path_get p (JStr s) = Inr v \<Longrightarrow> \<exists>t. v = JStr t"
proof (induction p arbitrary: s)
  case (Cons x p)
  then show ?case by (cases x) (auto split: option.splits)
qed auto

lemma path_assign_in_object: "path_get p v = Inr (JObj d) \<Longrightarrow> \<exists>v'. path_assign (p @ [Key k]) w v = Inr v'"
proof (induction p arbitrary: v)
  case (Cons s p)
  then obtain inner where i: "subscript v s = Inr inner" "path_get p inner = Inr (JObj d)" by (auto simp: bindR_eq_Inr)
  from Cons.IH [OF i(2)] obtain inner' where inner': "path_assign (p @ [Key k]) w inner = Inr inner'" by blast
  have "\<nexists>t. v = JStr t" using Cons.prems path_get_text [of "s # p"] by fastforce
  then have "\<exists>v'. assign v s inner' = Inr v'" using i(1) by (cases v; cases s) (auto split: option.splits)
  then show ?case using i(1) inner' by (cases "p @ [Key k]") auto
qed simp

text \<open>
  \<open>set_default\<close> on a pointer into an object: a name that is there stays as it is; one that is not is set to the
  value of the operation, and nothing else in the document changes; without a value the operation raises.
\<close>

theorem set_default_spec:
  assumes "pl_parts pl ptr \<noteq> []" "pl_to_last pl ptr doc = Inr (parent, LastName k)" "path_get parent doc = Inr (JObj d)" "proper_path parent"
  shows "(dict_has d k \<longrightarrow> apply_extended float_of pl (SetDefault ptr given) doc = Inr doc)
    \<and> (\<not> dict_has d k \<longrightarrow> given = None \<longrightarrow> apply_extended float_of pl (SetDefault ptr given) doc = Inl KeyError)
    \<and> (\<forall>v. \<not> dict_has d k \<longrightarrow> given = Some v \<longrightarrow> (\<exists>doc'. apply_extended float_of pl (SetDefault ptr given) doc = Inr doc'
        \<and> path_get (parent @ [Key k]) doc' = Inr v
        \<and> (\<forall>q. proper_path q \<and> apart (parent @ [Key k]) q \<longrightarrow> path_get q doc' = path_get q doc)))"
proof -
  have "proper_path (parent @ [Key k])" using assms(4) by (auto simp: proper_path_def)
  moreover have "\<exists>doc'. path_assign (parent @ [Key k]) v doc = Inr doc'" for v by (rule path_assign_in_object [OF assms(3)])
  ultimately have "\<exists>doc'. path_assign (parent @ [Key k]) v doc = Inr doc' \<and> path_get (parent @ [Key k]) doc' = Inr v
      \<and> (\<forall>q. proper_path q \<and> apart (parent @ [Key k]) q \<longrightarrow> path_get q doc' = path_get q doc)" for v
    using path_assign_get path_assign_apart by metis
  then show ?thesis using assms(1-3) by (simp add: apply_extended_def apply_set_default_def require_entry_def)
qed

theorem set_default_spec_witness:
  "\<exists>doc'. apply_extended (\<lambda>_. None) \<lparr>pl_parts = (\<lambda>_. [''a'', ''b'']), pl_resolve = (\<lambda>_ _. Inl KeyError), pl_set = (\<lambda>_ d _. Inr d),
       pl_to_last = (\<lambda>_ _. Inr ([Key ''a''], LastName ''b''))\<rparr> (SetDefault ''/a/b'' (Some (JInt 1))) (JObj [(''a'', JObj []), (''c'', JNull)]) = Inr doc'
     \<and> path_get [Key ''a'', Key ''b''] doc' = Inr (JInt 1) \<and> path_get [Key ''c''] doc' = Inr JNull"
proof -
  let ?pl = "\<lparr>pl_parts = (\<lambda>_. [''a'', ''b'']), pl_resolve = (\<lambda>_ _. Inl KeyError), pl_set = (\<lambda>_ d _. Inr d), pl_to_last = (\<lambda>_ _. Inr ([Key ''a''], LastName ''b''))\<rparr>"
  let ?doc = "JObj [(''a'', JObj []), (''c'', JNull)]"
  have "pl_parts ?pl ''/a/b'' \<noteq> []" "pl_to_last ?pl ''/a/b'' ?doc = Inr ([Key ''a''], LastName ''b'')" "path_get [Key ''a''] ?doc = Inr (JObj [])"
    "proper_path [Key ''a'']" "\<not> dict_has [] ''b''" "proper_path [Key ''c'']" "apart [Key ''a'', Key ''b''] [Key ''c'']" "path_get [Key ''c''] ?doc = Inr JNull"
    by (simp_all add: dict_has_def)
  from set_default_spec [OF this(1-4), of "\<lambda>_. None" "Some (JInt 1)"] this(5-) show ?thesis by (metis append_Cons append_Nil)
qed

end
