(* ===== verification/Decorators.thy ===== *)
theory Decorators
  imports Manager Patch_Operations
begin

text \<open>
  The declarative side of a manager: the decorators of \<open>runtime/manager/descriptors.py\<close> that register models,
  migrations and hooks on a manager class, the resolution of targets of \<open>runtime/manager/mixins/targets.py\<close>, and the
  queries of the mixins \<open>models.py\<close> and \<open>runtime.py\<close>.
\<close>

section \<open>Access through a class or an instance\<close>

text \<open>The engine that a hybrid method works on: one that is passed, that of the instance, or the default one.\<close>

definition hybrid_engine :: "nat option \<Rightarrow> nat option \<Rightarrow> nat" where
  "hybrid_engine instance_engine given = (case given of Some j \<Rightarrow> j | None \<Rightarrow> (case instance_engine of Some j \<Rightarrow> j | None \<Rightarrow> 0))"

section \<open>Keys\<close>

text \<open>Positional arguments by their number: a key, two models, a kind with two versions, or another number of arguments.\<close>

datatype ('v, 'm) key_args = OneArg "('v, 'm) migration_key" | TwoArgs 'm 'm | ThreeArgs string "'v version_arg" "'v version_arg" | OtherArgs

definition declared_key :: "('v, 'm) key_args \<Rightarrow> ('v, 'm) migration_key res" where
  "declared_key args = (case args of
     OneArg (ModelPair s t) \<Rightarrow> Inr (ModelPair s t)
   | OneArg (ManagerMigrationKey k s t x) \<Rightarrow> Inr (ManagerMigrationKey k s t x)
   | OneArg _ \<Rightarrow> Inl TypeError
   | TwoArgs s t \<Rightarrow> Inr (ModelPair s t)
   | ThreeArgs k s t \<Rightarrow> Inr (ManagerMigrationKey k s t default_discriminator)
   | OtherArgs \<Rightarrow> Inl TypeError)"

text \<open>For a hook the last argument is the hook, so no arguments at all are an error.\<close>

definition declared_hook :: "(('v, 'm) key_args \<times> 'h) option \<Rightarrow> (('v, 'm) migration_key \<times> 'h) res" where
  "declared_hook args = (case args of None \<Rightarrow> Inl TypeError
     | Some (key_args, h) \<Rightarrow> bindR (declared_key key_args) (\<lambda>key. Inr (key, h)))"

section \<open>Bodies\<close>

text \<open>
  What is decorated: a declarative migration, given by the callable that it is resolved to when it is stored, or a function or class with the value of its
  attribute \<open>expression\<close>, if it has one.
\<close>

datatype 'w migration_decl = Declarative "'w manager_func" | PlainFunction "'w manager_func" "json option" | BareClass "json option"

text \<open>\<open>jsonata\<close> is \<open>JsonataMigration.from_expression\<close>.\<close>

definition coerce_decl :: "(string \<Rightarrow> 'w manager_func res) \<Rightarrow> string option \<Rightarrow> 'w migration_decl \<Rightarrow> 'w manager_func res" where
  "coerce_decl jsonata strategy d = (case strategy of
     None \<Rightarrow> (case d of BareClass _ \<Rightarrow> Inl TypeError | Declarative f \<Rightarrow> Inr f | PlainFunction f _ \<Rightarrow> Inr f)
   | Some s \<Rightarrow> if s \<noteq> ''jsonata'' then Inl ValueError
       else (case d of
         Declarative f \<Rightarrow> Inr f
       | PlainFunction _ x \<Rightarrow> (case x of Some (JStr e) \<Rightarrow> jsonata e | _ \<Rightarrow> Inl TypeError)
       | BareClass x \<Rightarrow> (case x of Some (JStr e) \<Rightarrow> jsonata e | _ \<Rightarrow> Inl TypeError)))"

section \<open>Decorators\<close>

definition migration_decorator :: "('v::linorder, 'm, 'b) engine \<Rightarrow> (string \<Rightarrow> 'w manager_func res) \<Rightarrow> ('v, 'm) key_args \<Rightarrow> string option \<Rightarrow> string option
    \<Rightarrow> 'w migration_decl \<Rightarrow> (('v, 'w) manager_state, unit) op" where
  "migration_decorator eg jsonata args strategy migration_id d =
     bindS (liftS (declared_key args)) (\<lambda>key.
     bindS (liftS (coerce_decl jsonata strategy d)) (\<lambda>body.
     manager_store_migration eg 0 key body migration_id None))"

text \<open>A model decorator without arguments is the decorator itself; something that is no class is an error.\<close>

datatype 'm model_arg = NoModel | NoClass | ModelArg 'm

definition model_decorator :: "('v::linorder, 'm, 'b) engine \<Rightarrow> 'm model_arg \<Rightarrow> (('v, 'w) manager_state, unit) op" where
  "model_decorator eg arg = (case arg of
     NoModel \<Rightarrow> returnS ()
   | NoClass \<Rightarrow> raiseS TypeError
   | ModelArg m \<Rightarrow> bindS (manager_store_model eg 0 (ClassPayload m)) (\<lambda>_. returnS ()))"

definition hook_decorator :: "('v::linorder, 'm, 'b) engine \<Rightarrow> (('v, 'm) key_args \<times> ('v, 'w) hook) option \<Rightarrow> (('v, 'w) manager_state, unit) op" where
  "hook_decorator eg args = bindS (liftS (declared_hook args)) (\<lambda>(key, h). manager_add_hook eg 0 key h)"

section \<open>Targets\<close>

text \<open>
  \<open>_resolve_target_policy\<close>: a class that the adapter does not identify is called as a resolver, \<open>mk_resolver\<close>; every
  other policy that is not callable is compiled over a new snapshot of the engine.
\<close>

definition compile_spec :: "('v::linorder, 'm, 'b) engine \<Rightarrow> (string \<Rightarrow> 'v res) \<Rightarrow> ('m \<Rightarrow> model_ref) \<Rightarrow> 'v registry \<Rightarrow> ('v, 'm) target_policy \<Rightarrow> 'v resolver res" where
  "compile_spec eg parse ref_of r spec = bindR (snapshot eg None r) (\<lambda>g. compile parse ref_of g spec)"

definition resolve_target_policy :: "('v::linorder, 'm, 'b) engine \<Rightarrow> (string \<Rightarrow> 'v res) \<Rightarrow> ('m \<Rightarrow> model_ref) \<Rightarrow> ('m \<Rightarrow> 'v resolver)
    \<Rightarrow> 'v registry \<Rightarrow> ('v, 'm) target_policy \<Rightarrow> 'v resolver res" where
  "resolve_target_policy eg parse ref_of mk_resolver r target = (case target of
     TModel m \<Rightarrow> if ea_identify (eg_adapter eg) m then compile_spec eg parse ref_of r (TModel m) else Inr (mk_resolver m)
   | TCallable f \<Rightarrow> Inr f
   | _ \<Rightarrow> compile_spec eg parse ref_of r target)"

definition resolve_target_model :: "('v::linorder, 'm, 'b) engine \<Rightarrow> (string \<Rightarrow> 'v res) \<Rightarrow> ('m \<Rightarrow> model_ref) \<Rightarrow> ('m \<Rightarrow> 'v resolver)
    \<Rightarrow> 'v registry \<Rightarrow> 'm \<Rightarrow> ('v, 'm) target_policy \<Rightarrow> 'm option res" where
  "resolve_target_model eg parse ref_of mk_resolver r declared target =
     bindR (get_model_by_class eg declared r) (\<lambda>anchor.
     bindR (resolve_target_policy eg parse ref_of mk_resolver r target) (\<lambda>resolver.
     bindR (resolver anchor) (\<lambda>resolved. case resolved of
       None \<Rightarrow> Inr None
     | Some n \<Rightarrow> (case descriptor n of None \<Rightarrow> Inl AttributeError
         | Some d \<Rightarrow> bindR (ea_resolve (eg_adapter eg) (desc_ref d)) (\<lambda>m. Inr (Some m))))))"

section \<open>Queries\<close>

text \<open>The references that the health issues of a version name in their details, as a set.\<close>

definition missing_references :: "('v::linorder, 'm, 'b) engine \<Rightarrow> 'v node \<Rightarrow> 'v registry \<Rightarrow> 'v detail set res" where
  "missing_references eg n r = bindR (health (eg_config eg) (Some (NodeE n)) None r) (\<lambda>issues.
     bindR (mapR (\<lambda>i. case map_of (hi_details i) ''reference'' of None \<Rightarrow> Inl KeyError | Some d \<Rightarrow> Inr d) (filter missing_reference issues))
       (\<lambda>ds. Inr (set ds)))"

definition validate_graph :: "('v::linorder, 'm, 'b) engine \<Rightarrow> 'v validation_key option \<Rightarrow> 'v registry \<Rightarrow> unit res" where
  "validate_graph eg key r = engine_validate eg key r"

datatype 'v kind_or_node = OfKind string | OfNode "'v node_id"

definition get_latest_model :: "'v::linorder kind_or_node \<Rightarrow> 'v registry \<Rightarrow> 'v node res" where
  "get_latest_model key r = (case key of OfKind k \<Rightarrow> latest k r | OfNode i \<Rightarrow> get_model i r)"

definition get_earliest_model :: "'v::linorder kind_or_node \<Rightarrow> 'v registry \<Rightarrow> 'v node res" where
  "get_earliest_model key r = (case key of OfKind k \<Rightarrow> earliest k r | OfNode i \<Rightarrow> get_model i r)"

text \<open>\<open>parse\<close> is \<open>parse_version\<close> of a text; the parsed version goes to the adapter as it is.\<close>

definition manager_get :: "('v::linorder, 'm, 'b) engine \<Rightarrow> (string \<Rightarrow> 'v res) \<Rightarrow> ('v \<Rightarrow> 'v version_arg) \<Rightarrow> string \<Rightarrow> string \<Rightarrow> 'v registry \<Rightarrow> 'v node res" where
  "manager_get eg parse arg k version r = bindR (parse version) (\<lambda>v. manager_get_model eg (ModelKey k (arg v)) r)"

definition manager_validate :: "('v::linorder, 'm, 'b) engine \<Rightarrow> (string \<Rightarrow> 'v res) \<Rightarrow> ('v \<Rightarrow> 'v version_arg) \<Rightarrow> (json \<Rightarrow> 'm \<Rightarrow> unit res)
    \<Rightarrow> json \<Rightarrow> string \<Rightarrow> string \<Rightarrow> 'v registry \<Rightarrow> unit res" where
  "manager_validate eg parse arg validate data k version r = bindR (manager_get eg parse arg k version r) (\<lambda>n.
     case descriptor n of None \<Rightarrow> Inl AttributeError
     | Some d \<Rightarrow> bindR (ea_resolve (eg_adapter eg) (desc_ref d)) (validate data))"

definition manager_diff :: "('v::linorder, 'm, 'b) engine \<Rightarrow> ('v node \<Rightarrow> 'v node \<Rightarrow> 'v diff res) \<Rightarrow> ('v, 'm) migration_key \<Rightarrow> 'v registry \<Rightarrow> 'v diff res" where
  "manager_diff eg adapter_diff key r = (case key of
     ModelPair s t \<Rightarrow> bindR (manager_get_model eg (ModelClass s) r) (\<lambda>a. bindR (manager_get_model eg (ModelClass t) r) (adapter_diff a))
   | ManagerMigrationKey k s t _ \<Rightarrow>
       bindR (manager_get_model eg (ModelKey k s) r) (\<lambda>a. bindR (manager_get_model eg (ModelKey k t) r) (adapter_diff a))
   | _ \<Rightarrow> Inl TypeError)"

definition manager_direction :: "string \<Rightarrow> direction_policy res" where
  "manager_direction strategy = (if strategy = ''any'' then Inr AnyDirection else if strategy = ''forward'' then Inr ForwardDirection
     else if strategy = ''backward'' then Inr BackwardDirection else Inl KeyError)"

section \<open>Declaring a manager\<close>

text \<open>A module with declarations runs them in order and stops at the first that raises.\<close>

datatype ('v, 'm, 'w) manager_decl =
    DeclareModel "'m model_arg"
  | DeclareMigration "('v, 'm) key_args" "string option" "string option" "'w migration_decl"
  | DeclareHook "(('v, 'm) key_args \<times> ('v, 'w) hook) option"

fun declare_one :: "('v::linorder, 'm, 'b) engine \<Rightarrow> (string \<Rightarrow> 'w manager_func res) \<Rightarrow> ('v, 'm, 'w) manager_decl \<Rightarrow> (('v, 'w) manager_state, unit) op" where
  "declare_one eg jsonata (DeclareModel arg) = model_decorator eg arg"
| "declare_one eg jsonata (DeclareMigration args strategy migration_id d) = migration_decorator eg jsonata args strategy migration_id d"
| "declare_one eg jsonata (DeclareHook args) = hook_decorator eg args"

lemma managed_nonempty: "managed eg st \<Longrightarrow> 0 < length (ms_registries st)"
  using managed_all_bound [of eg st] by (simp add: all_bound_def)

lemma declare_one_managed:
  assumes "managed eg st"
  shows "managed eg (snd (declare_one eg jsonata d st))"
proof -
  note step = md_step [OF assms]
  have j: "0 < length (ms_registries st)" by (rule managed_nonempty [OF assms])
  show ?thesis
  proof (cases d)
    case (DeclareModel arg)
    have "snd (bindS m (\<lambda>_. returnS ()) st) = snd (m st)" for m :: "(('a, 'd) manager_state, 'a node) op"
      by (auto simp: bindS_def split: prod.split sum.split)
    then show ?thesis using DeclareModel assms step [OF mt_store_model [OF j]] by (cases arg) (simp_all add: model_decorator_def)
  next
    case (DeclareMigration args strategy migration_id body)
    then show ?thesis using assms step [OF mt_store_migration [OF j]]
      by (cases "declared_key args"; cases "coerce_decl jsonata strategy body") (simp_all add: migration_decorator_def)
  next
    case (DeclareHook args)
    then show ?thesis using assms step [OF mt_add_hook [OF j]]
      by (cases "declared_hook args") (auto simp: hook_decorator_def split: prod.split)
  qed
qed

text \<open>
  C18. A manager that is declared with decorators is consistent, also when one of them raises: whatever models,
  migrations and hooks are declared, in whatever order, the state that is left behind is one that calls of the manager
  reach, so that all its registries satisfy their invariant and every executable migration in them has a callable.
\<close>

theorem declarations_bound:
  assumes "managed eg st"
  shows "managed eg (snd (forS (declare_one eg jsonata) ds st)) \<and> all_bound eg (snd (forS (declare_one eg jsonata) ds st))"
proof -
  have "managed eg (snd (forS (declare_one eg jsonata) ds st))"
    by (rule forS_invariant [of ds "managed eg"]) (simp_all add: declare_one_managed assms)
  then show ?thesis by (simp add: managed_all_bound)
qed

definition sample_decls :: "(nat, nat, nat) manager_decl list" where
  "sample_decls = [DeclareModel (ModelArg 3), DeclareMigration (TwoArgs 2 3) None None (PlainFunction managed_func None),
     DeclareModel NoClass, DeclareModel (ModelArg 4)]"

theorem declarations_bound_witness:
  "fst (forS (declare_one managed_engine (\<lambda>_. Inl ValueError)) sample_decls managed_sample) = Inl TypeError
   \<and> all_bound managed_engine (snd (forS (declare_one managed_engine (\<lambda>_. Inl ValueError)) sample_decls managed_sample))
   \<and> length (bn_migrations (ms_bindings (snd (forS (declare_one managed_engine (\<lambda>_. Inl ValueError)) sample_decls managed_sample)))) = 2"
proof -
  let ?r = "forS (declare_one managed_engine (\<lambda>_. Inl ValueError)) sample_decls managed_sample"
  have "fst ?r = Inl TypeError" by code_simp
  moreover have "length (bn_migrations (ms_bindings (snd ?r))) = 2" by code_simp
  ultimately show ?thesis
    using declarations_bound [OF managed_sample, of "\<lambda>_. Inl ValueError" sample_decls] by simp
qed

text \<open>
  The manager resolves a target as the planner does: wherever a snapshot can be built, its policy resolution
  agrees with the compiler that the path finder uses, errors included, for every policy but a class that the
  adapter does not identify, which the planner rejects and the manager calls.
\<close>

lemma target_policies_agree:
  assumes "snapshot eg None r = Inr g" and "\<forall>m. target = TModel m \<longrightarrow> ea_identify (eg_adapter eg) m"
  shows "resolve_target_policy eg parse ref_of mk_resolver r target = compile parse ref_of g target"
  using assms by (cases target; simp add: resolve_target_policy_def compile_spec_def)

end
