(* ===== verification/Manifests.thy ===== *)
theory Manifests
  imports Manager
begin

text \<open>
  The exchange format of \<open>cli/jgf\<close> and the manifests of \<open>cli/export\<close>: graph documents with their readers and
  writers, the exporter over a registry or a snapshot, the importer, and the comparison of two manifests as the command
  \<open>cli/commands/manifest.py\<close> uses it.
\<close>

section \<open>Documents\<close>

text \<open>
  Python on a document whose shape is not known: \<open>v.get(k, default)\<close>, \<open>v.items()\<close>, iteration and \<open>dict(v)\<close>. A document
  has texts as keys, so pairs with other keys are refused.
\<close>

definition get_or :: "json \<Rightarrow> string \<Rightarrow> json \<Rightarrow> json res" where
  "get_or v k other = (case v of
     JObj d \<Rightarrow> Inr (case map_of d k of None \<Rightarrow> other | Some x \<Rightarrow> x) | _ \<Rightarrow> Inl AttributeError)"

definition items_of :: "json \<Rightarrow> (string \<times> json) list res" where
  "items_of v = (case v of JObj d \<Rightarrow> Inr d | _ \<Rightarrow> Inl AttributeError)"

definition iter_of :: "json \<Rightarrow> json list res" where
  "iter_of v = (case v of
     JList xs \<Rightarrow> Inr xs | JStr s \<Rightarrow> Inr (map (\<lambda>c. JStr [c]) s) | JObj d \<Rightarrow> Inr (map (\<lambda>(k, _). JStr k) d) | _ \<Rightarrow> Inl TypeError)"

definition pair_of :: "json \<Rightarrow> (string \<times> json) res" where
  "pair_of v = bindR (iter_of v) (\<lambda>xs. case xs of
     [k, x] \<Rightarrow> (case k of JStr s \<Rightarrow> Inr (s, x) | _ \<Rightarrow> Inl TypeError) | _ \<Rightarrow> Inl ValueError)"

definition as_dict :: "json \<Rightarrow> (string \<times> json) list res" where
  "as_dict v = (case v of
     JObj d \<Rightarrow> Inr d
   | _ \<Rightarrow> bindR (iter_of v) (\<lambda>xs. bindR (mapR pair_of xs) (\<lambda>ps. Inr (dict_of ps))))"

section \<open>Nodes, edges and graphs\<close>

record jgf_node =
  jn_id :: string
  jn_label :: json
  jn_metadata :: "(string \<times> json) list"

record jgf_edge =
  je_id :: json
  je_source :: json
  je_target :: json
  je_directed :: bool
  je_metadata :: "(string \<times> json) list"

record jgf_graph =
  jg_id :: json
  jg_directed :: bool
  jg_nodes :: "jgf_node list"
  jg_edges :: "jgf_edge list"
  jg_metadata :: "(string \<times> json) list"

definition jgf_node_from_dict :: "string \<Rightarrow> json \<Rightarrow> jgf_node res" where
  "jgf_node_from_dict node_id v =
     bindR (get_or v ''label'' (JStr node_id)) (\<lambda>label.
     bindR (get_or v ''metadata'' (JObj [])) (\<lambda>m. bindR (as_dict m) (\<lambda>metadata.
     Inr \<lparr>jn_id = node_id, jn_label = label, jn_metadata = metadata\<rparr>)))"

definition jgf_node_to_dict :: "jgf_node \<Rightarrow> json" where
  "jgf_node_to_dict n = JObj [(''label'', jn_label n), (''metadata'', JObj (jn_metadata n))]"

definition jgf_edge_from_dict :: "json \<Rightarrow> jgf_edge res" where
  "jgf_edge_from_dict v =
     bindR (jitem v ''id'') (\<lambda>i. bindR (jitem v ''source'') (\<lambda>s. bindR (jitem v ''target'') (\<lambda>t.
     bindR (get_or v ''directed'' (JBool True)) (\<lambda>d.
     bindR (get_or v ''metadata'' (JObj [])) (\<lambda>m. bindR (as_dict m) (\<lambda>metadata.
     Inr \<lparr>je_id = i, je_source = s, je_target = t, je_directed = truthy d, je_metadata = metadata\<rparr>))))))"

definition jgf_edge_to_dict :: "jgf_edge \<Rightarrow> json" where
  "jgf_edge_to_dict e = JObj [(''id'', je_id e), (''source'', je_source e), (''target'', je_target e),
     (''directed'', JBool (je_directed e)), (''metadata'', JObj (je_metadata e))]"

definition jgf_from_dict :: "json \<Rightarrow> jgf_graph res" where
  "jgf_from_dict document =
     bindR (jitem document ''graph'') (\<lambda>g.
     bindR (get_or g ''nodes'' (JObj [])) (\<lambda>ns. bindR (items_of ns) (\<lambda>rows.
     bindR (mapR (\<lambda>(i, v). jgf_node_from_dict i v) rows) (\<lambda>nodes.
     bindR (get_or g ''edges'' (JList [])) (\<lambda>es. bindR (iter_of es) (\<lambda>elems.
     bindR (mapR jgf_edge_from_dict elems) (\<lambda>edges.
     bindR (jitem g ''id'') (\<lambda>i. bindR (jitem g ''directed'') (\<lambda>d.
     bindR (get_or g ''metadata'' (JObj [])) (\<lambda>m. bindR (as_dict m) (\<lambda>metadata.
     Inr \<lparr>jg_id = i, jg_directed = truthy d, jg_nodes = nodes, jg_edges = edges, jg_metadata = metadata\<rparr>)))))))))))"

text \<open>The nodes become a dictionary by their identifiers, in which a later node replaces an earlier one.\<close>

definition node_table :: "jgf_node list \<Rightarrow> (string \<times> json) list" where
  "node_table ns = dict_of (map (\<lambda>n. (jn_id n, jgf_node_to_dict n)) ns)"

definition jgf_graph_dict :: "jgf_graph \<Rightarrow> (string \<times> json) list" where
  "jgf_graph_dict g = [(''id'', jg_id g), (''directed'', JBool (jg_directed g)), (''nodes'', JObj (node_table (jg_nodes g))),
      (''edges'', JList (map jgf_edge_to_dict (jg_edges g)))]
     @ (if jg_metadata g \<noteq> [] then [(''metadata'', JObj (jg_metadata g))] else [])"

definition jgf_to_dict :: "jgf_graph \<Rightarrow> json" where
  "jgf_to_dict g = JObj [(''graph'', JObj (jgf_graph_dict g))]"

section \<open>Projection of versions and migrations\<close>

definition texts :: "string list \<Rightarrow> json" where
  "texts ss = JList (map JStr ss)"

definition reference_texts :: "('v \<Rightarrow> string) \<Rightarrow> 'v model_descriptor \<Rightarrow> string list" where
  "reference_texts show_v d = sort (map (node_str show_v) (desc_references d))"

definition jgf_content :: "('v \<Rightarrow> string) \<Rightarrow> 'v node_id \<Rightarrow> 'v model_descriptor \<Rightarrow> json" where
  "jgf_content show_v i d = JObj [(''id'', JStr (node_str show_v i)), (''model'', JStr (mr_entity_id (desc_ref d))),
     (''fields'', texts (sort (map fst (desc_fields d)))), (''references'', texts (reference_texts show_v d))]"

definition from_descriptor :: "(string \<Rightarrow> string) \<Rightarrow> ('v \<Rightarrow> string) \<Rightarrow> 'v node_id \<Rightarrow> 'v model_descriptor \<Rightarrow> jgf_node res" where
  "from_descriptor hash_alg show_v i d =
     bindR (content_digest_of hash_alg (py_of_json (jgf_content show_v i d))) (\<lambda>digest.
     Inr \<lparr>jn_id = node_str show_v i, jn_label = JStr (node_str show_v i),
       jn_metadata = (if nid_namespace i \<noteq> [] then [(''namespace'', JStr (nid_namespace i))] else [])
         @ [(''kind'', JStr (nid_kind i)), (''version'', JStr (show_v (nid_version i))), (''model'', JStr (mr_entity_id (desc_ref d))),
            (''fields'', texts (sort (map fst (desc_fields d)))), (''references'', texts (reference_texts show_v d)),
            (''schema_hash'', JStr digest)]\<rparr>)"

definition from_version :: "(string \<Rightarrow> string) \<Rightarrow> ('v \<Rightarrow> string) \<Rightarrow> 'v node \<Rightarrow> jgf_node res" where
  "from_version hash_alg show_v n = (case descriptor n of None \<Rightarrow> Inl AttributeError
     | Some d \<Rightarrow> from_descriptor hash_alg show_v (node_id_of n) d)"

text \<open>\<open>from_addressable\<close> of a value with its text, its canonical form and its digest.\<close>

definition from_addressable :: "string \<Rightarrow> json \<Rightarrow> string res \<Rightarrow> jgf_node res" where
  "from_addressable rendered payload digest =
     bindR digest (\<lambda>h.
     Inr \<lparr>jn_id = rendered, jn_label = JStr rendered,
       jn_metadata = AList.update ''digest'' (JStr h) (case payload of JObj d \<Rightarrow> d | _ \<Rightarrow> [(''canonical'', payload)])\<rparr>)"

text \<open>Metadata that is given is merged into that of the edge; an empty mapping is as good as none.\<close>

definition from_edge_key :: "('v \<Rightarrow> string) \<Rightarrow> 'v edge \<Rightarrow> (string \<times> json) list option \<Rightarrow> jgf_edge" where
  "from_edge_key show_v e given =
     (let i = eid_of e; s = node_str show_v (eid_source i); t = node_str show_v (eid_target i);
          own = (if eid_namespace i \<noteq> [] then [(''namespace'', JStr (eid_namespace i))] else [])
            @ [(''kind'', JStr (eid_kind i)), (''source_version'', JStr (show_v (nid_version (eid_source i)))),
               (''target_version'', JStr (show_v (nid_version (eid_target i))))]
            @ (case edge_migration e of None \<Rightarrow> []
               | Some m \<Rightarrow> [(''strategy'', JStr (md_strategy m)), (''migration_id'', JStr (md_identity m))])
      in \<lparr>je_id = JStr (s @ ''->'' @ t), je_source = JStr s, je_target = JStr t, je_directed = True,
          je_metadata = (case given of None \<Rightarrow> own | Some md \<Rightarrow> fold (\<lambda>(k, v). AList.update k v) md own)\<rparr>)"

definition from_versions :: "(string \<Rightarrow> string) \<Rightarrow> ('v \<Rightarrow> string) \<Rightarrow> 'v node list \<Rightarrow> 'v edge list \<Rightarrow> string \<Rightarrow> bool
    \<Rightarrow> ('v edge_id \<times> (string \<times> json) list) list \<Rightarrow> jgf_graph res" where
  "from_versions hash_alg show_v ns es i directed edge_md =
     bindR (mapR (from_version hash_alg show_v) ns) (\<lambda>nodes.
     Inr \<lparr>jg_id = JStr i, jg_directed = directed, jg_nodes = nodes,
       jg_edges = map (\<lambda>e. from_edge_key show_v e (map_of edge_md (eid_of e))) es, jg_metadata = []\<rparr>)"

section \<open>Export\<close>

text \<open>The protocol \<open>GraphExportSource\<close>, with the attribute \<open>edge_metadata\<close> that only a snapshot has.\<close>

record 'v export_source =
  xp_namespace :: string
  xp_versions :: "'v node list"
  xp_kinds :: "string list"
  xp_edges :: "string \<Rightarrow> 'v edge list"
  xp_edge_metadata :: "('v edge_id \<times> (string \<times> json) list) list"

definition registry_source :: "'v registry \<Rightarrow> 'v export_source" where
  "registry_source r = \<lparr>xp_namespace = reg_namespace r, xp_versions = versions r, xp_kinds = kinds r, xp_edges = (\<lambda>k. edges k r),
     xp_edge_metadata = []\<rparr>"

definition snapshot_source :: "'v migration_graph \<Rightarrow> 'v export_source" where
  "snapshot_source g = \<lparr>xp_namespace = mg_namespace g, xp_versions = mg_versions g, xp_kinds = mg_kinds g, xp_edges = (\<lambda>k. mg_edges k g),
     xp_edge_metadata = map (\<lambda>(i, md). (i, map (\<lambda>(k, v). (k, JStr v)) md)) (edge_metadata (mg_backend g))\<rparr>"

definition source_edges :: "'v export_source \<Rightarrow> 'v edge list" where
  "source_edges src = concat (map (xp_edges src) (xp_kinds src))"

definition export_nodes :: "(string \<Rightarrow> string) \<Rightarrow> ('v \<Rightarrow> string) \<Rightarrow> 'v export_source \<Rightarrow> jgf_node list res" where
  "export_nodes hash_alg show_v src = mapR (from_version hash_alg show_v) (xp_versions src)"

definition export_graph :: "(string \<Rightarrow> string) \<Rightarrow> ('v \<Rightarrow> string) \<Rightarrow> 'v export_source \<Rightarrow> string \<Rightarrow> jgf_graph res" where
  "export_graph hash_alg show_v src i =
     from_versions hash_alg show_v (xp_versions src) (source_edges src) (if i = [] then xp_namespace src else i) True (xp_edge_metadata src)"

definition export_digest :: "(string \<Rightarrow> string) \<Rightarrow> ('v \<Rightarrow> string) \<Rightarrow> 'v export_source \<Rightarrow> string \<Rightarrow> string res" where
  "export_digest hash_alg show_v src i =
     bindR (export_graph hash_alg show_v src i) (\<lambda>g. content_digest_of hash_alg (py_of_json (jgf_to_dict g)))"

section \<open>Import\<close>

definition import_nodes :: "('v::linorder, 'b) reg_config \<Rightarrow> (jgf_node \<Rightarrow> 'v node res) \<Rightarrow> jgf_node list \<Rightarrow> ('v registry, unit) op" where
  "import_nodes cfg node_of = forS (\<lambda>n. bindS (liftS (node_of n)) (\<lambda>v. bindS (store cfg v) (\<lambda>_. returnS ())))"

definition import_edges :: "('v::linorder, 'b) reg_config \<Rightarrow> (jgf_edge \<Rightarrow> 'v edge res) \<Rightarrow> jgf_edge list \<Rightarrow> ('v registry, unit) op" where
  "import_edges cfg edge_of = forS (\<lambda>e. bindS (liftS (edge_of e)) (\<lambda>v. bindS (store_migration_edge cfg v) (\<lambda>_. returnS ())))"

text \<open>Models and migrations go to the same registry; the resolvers are parameters.\<close>

definition import_graph :: "('v::linorder, 'b) reg_config \<Rightarrow> (jgf_node \<Rightarrow> 'v node res) \<Rightarrow> (jgf_edge \<Rightarrow> 'v edge res) option \<Rightarrow> json
    \<Rightarrow> ('v registry, jgf_graph) op" where
  "import_graph cfg node_of edge_of document =
     bindS (liftS (jgf_from_dict document)) (\<lambda>g.
     bindS (import_nodes cfg node_of (jg_nodes g)) (\<lambda>_.
     if jg_edges g = [] then returnS g
     else (case edge_of of None \<Rightarrow> raiseS ValueError
       | Some f \<Rightarrow> bindS (import_edges cfg f (jg_edges g)) (\<lambda>_. returnS g))))"

section \<open>Manifests\<close>

record manifest_spec =
  sp_graph_id :: string
  sp_label :: string
  sp_manifest_version :: string
  sp_tool_version :: string

definition manifest_metadata :: "manifest_spec \<Rightarrow> string \<Rightarrow> (string \<times> json) list" where
  "manifest_metadata sp manager = [(''manifest_version'', JStr (sp_manifest_version sp)), (''pyverge_version'', JStr (sp_tool_version sp)),
     (''manager'', JStr manager)]"

definition manifest_graph :: "manifest_spec \<Rightarrow> (string \<times> json) list \<Rightarrow> (string \<times> json) list \<Rightarrow> (string \<times> json) list" where
  "manifest_graph sp d metadata =
     AList.update ''metadata'' (JObj metadata) (AList.update ''type'' (JStr ''directed'') (AList.update ''label'' (JStr (sp_label sp)) d))"

text \<open>The digest is taken before the time, as text, and the digest itself are added.\<close>

definition manifest_export :: "(string \<Rightarrow> string) \<Rightarrow> ('v \<Rightarrow> string) \<Rightarrow> manifest_spec \<Rightarrow> 'v export_source \<Rightarrow> string \<Rightarrow> string option \<Rightarrow> json res" where
  "manifest_export hash_alg show_v sp src manager generated_at =
     bindR (export_graph hash_alg show_v src (sp_graph_id sp)) (\<lambda>g.
     let metadata = manifest_metadata sp manager; d = jgf_graph_dict g in
     bindR (content_digest_of hash_alg (py_of_json (JObj (manifest_graph sp d metadata)))) (\<lambda>digest.
     Inr (JObj [(''graph'', JObj (manifest_graph sp d (metadata
       @ (case generated_at of None \<Rightarrow> [] | Some t \<Rightarrow> [(''generated_at'', JStr t)]) @ [(''digest'', JStr digest)])))])))"

section \<open>Comparison\<close>

record manifest_diff =
  mdf_nodes :: "string change_set"
  mdf_edges :: "string change_set"
  mdf_version_changed :: bool

definition mdf_changed :: "manifest_diff \<Rightarrow> bool" where
  "mdf_changed d \<longleftrightarrow> cs_changed (mdf_nodes d) \<or> cs_changed (mdf_edges d) \<or> mdf_version_changed d"

definition mdf_summary :: "manifest_diff \<Rightarrow> string list" where
  "mdf_summary d = cs_summary (\<lambda>s. s) (mdf_nodes d) ''node'' @ cs_summary (\<lambda>s. s) (mdf_edges d) ''edge''
     @ (if mdf_version_changed d then [''manifest version changed''] else [])"

text \<open>Edges by their identifiers, which are texts in the format; others are refused.\<close>

definition text_key :: "json \<Rightarrow> string res" where
  "text_key v = (case v of JStr s \<Rightarrow> Inr s | _ \<Rightarrow> Inl TypeError)"

definition edge_table :: "json \<Rightarrow> (string \<times> json) list res" where
  "edge_table g =
     bindR (get_or g ''edges'' (JList [])) (\<lambda>es. bindR (iter_of es) (\<lambda>elems.
     bindR (mapR (\<lambda>e. bindR (jitem e ''id'') (\<lambda>i. bindR (text_key i) (\<lambda>k. Inr (k, e)))) elems) (\<lambda>rows. Inr (dict_of rows))))"

text \<open>Whether \<open>frozenset(v)\<close> can be built: its elements have to be hashable.\<close>

fun hashable :: "json \<Rightarrow> bool" where
  "hashable (JList _) = False"
| "hashable (JObj _) = False"
| "hashable _ = True"

definition frozen_of :: "json \<Rightarrow> unit res" where
  "frozen_of v = bindR (iter_of v) (\<lambda>xs. if list_all hashable xs then Inr () else Inl TypeError)"

definition changes_between :: "(string \<times> json) list \<Rightarrow> (string \<times> json) list \<Rightarrow> string change_set" where
  "changes_between l r = \<lparr>
     cs_added = filter (\<lambda>k. k \<notin> fst ` set l) (map fst r),
     cs_removed = filter (\<lambda>k. k \<notin> fst ` set r) (map fst l),
     cs_modified = filter (\<lambda>k. case (map_of l k, map_of r k) of (Some a, Some b) \<Rightarrow> \<not> py_eq a b | _ \<Rightarrow> False) (map fst l)\<rparr>"

definition compare_manifests :: "json \<Rightarrow> json \<Rightarrow> manifest_diff res" where
  "compare_manifests left right =
     bindR (jitem left ''graph'') (\<lambda>lg. bindR (jitem right ''graph'') (\<lambda>rg.
     bindR (get_or lg ''nodes'' (JObj [])) (\<lambda>ln. bindR (get_or rg ''nodes'' (JObj [])) (\<lambda>rn.
     bindR (edge_table lg) (\<lambda>le. bindR (edge_table rg) (\<lambda>re.
     bindR (get_or lg ''metadata'' (JObj [])) (\<lambda>lm. bindR (get_or rg ''metadata'' (JObj [])) (\<lambda>rm.
     bindR (frozen_of rn) (\<lambda>_. bindR (frozen_of ln) (\<lambda>_.
     bindR (items_of ln) (\<lambda>ls. bindR (items_of rn) (\<lambda>rs.
     bindR (get_or lm ''manifest_version'' JNull) (\<lambda>lv. bindR (get_or rm ''manifest_version'' JNull) (\<lambda>rv.
     Inr \<lparr>mdf_nodes = changes_between ls rs, mdf_edges = changes_between le re, mdf_version_changed = \<not> py_eq lv rv\<rparr>))))))))))))))"

text \<open>
  The command \<open>manifest\<close> once the manager is found and the baseline is read: the document that it writes, the exit
  code and the lines after the document. The current manifest is the left side of the comparison.
\<close>

definition manifest_command :: "(string \<Rightarrow> string) \<Rightarrow> ('v \<Rightarrow> string) \<Rightarrow> manifest_spec \<Rightarrow> 'v registry \<Rightarrow> string \<Rightarrow> json option
    \<Rightarrow> (json \<times> nat \<times> string list) res" where
  "manifest_command hash_alg show_v sp r manager baseline =
     bindR (manifest_export hash_alg show_v sp (registry_source r) manager None) (\<lambda>envelope.
     case baseline of None \<Rightarrow> Inr (envelope, 0, [])
     | Some base \<Rightarrow> bindR (compare_manifests envelope base) (\<lambda>d.
         if mdf_changed d then Inr (envelope, 1, ''Manifest divergence detected'' # map (\<lambda>issue. ''  - '' @ issue) (mdf_summary d))
         else Inr (envelope, 0, [''Manifest snapshot matches''])))"

section \<open>Round trip\<close>

lemma get_or_JObj [simp]: "get_or (JObj d) k x = Inr (case map_of d k of None \<Rightarrow> x | Some y \<Rightarrow> y)"
  by (simp add: get_or_def)

lemma doc_simps [simp]: "items_of (JObj d) = Inr d" "as_dict (JObj d) = Inr d" "iter_of (JList xs) = Inr xs"
  by (simp_all add: items_of_def as_dict_def iter_of_def)

lemma jgf_node_roundtrip: "jgf_node_from_dict (jn_id n) (jgf_node_to_dict n) = Inr n"
  by (simp add: jgf_node_from_dict_def jgf_node_to_dict_def)

lemma jgf_edge_roundtrip: "jgf_edge_from_dict (jgf_edge_to_dict e) = Inr e"
  by (simp add: jgf_edge_from_dict_def jgf_edge_to_dict_def)

lemma dict_of_dict: "dict_ok d \<Longrightarrow> dict_of d = d"
  by (simp add: dict_of_def dict_of_ok)

lemma node_table_distinct: "distinct (map jn_id ns) \<Longrightarrow> node_table ns = map (\<lambda>n. (jn_id n, jgf_node_to_dict n)) ns"
  by (simp add: node_table_def dict_of_dict dict_ok_def comp_def)

lemma graph_dict_lookups:
  "map_of (jgf_graph_dict g) ''id'' = Some (jg_id g)" "map_of (jgf_graph_dict g) ''directed'' = Some (JBool (jg_directed g))"
  "map_of (jgf_graph_dict g) ''nodes'' = Some (JObj (node_table (jg_nodes g)))"
  "map_of (jgf_graph_dict g) ''edges'' = Some (JList (map jgf_edge_to_dict (jg_edges g)))"
  "map_of (jgf_graph_dict g) ''metadata'' = (if jg_metadata g = [] then None else Some (JObj (jg_metadata g)))"
  by (simp_all add: jgf_graph_dict_def)

theorem jgf_roundtrip:
  assumes "distinct (map jn_id (jg_nodes g))"
  shows "jgf_from_dict (jgf_to_dict g) = Inr g"
  by (simp add: jgf_from_dict_def jgf_to_dict_def graph_dict_lookups node_table_distinct [OF assms] mapR_map [where h = id]
      jgf_node_roundtrip jgf_edge_roundtrip)

section \<open>Equality of dictionaries\<close>

lemma py_eq_texts [simp]: "py_eq (JStr s) (JStr t) \<longleftrightarrow> s = t" "py_eq (texts ss) (texts ts) \<longleftrightarrow> ss = ts" "py_eq v v"
proof -
  have "json_key \<circ> JStr = JStr" by (simp add: fun_eq_iff)
  then show "py_eq (texts ss) (texts ts) \<longleftrightarrow> ss = ts" by (simp add: py_eq_def texts_def inj_map_eq_map inj_def)
qed (simp_all add: py_eq_def)

text \<open>Two dictionaries are equal when they have the same keys with equal values, in whatever order.\<close>

lemma py_eq_dict:
  assumes "dict_ok d" "dict_ok e"
  shows "py_eq (JObj d) (JObj e) \<longleftrightarrow> (\<forall>k. rel_option py_eq (map_of d k) (map_of e k))"
proof -
  let ?m = "map (\<lambda>(k, v). (k, json_key v))"
  have ok: "dict_ok (?m d)" "dict_ok (?m e)" using assms dict_ok_map_snd [of _ "\<lambda>_. json_key"] by blast+
  have "sort_key fst (?m d) = sort_key fst (?m e) \<longleftrightarrow> map_of (?m d) = map_of (?m e)"
  proof
    assume "sort_key fst (?m d) = sort_key fst (?m e)"
    then have "set (?m d) = set (?m e)" by (metis set_sort)
    then show "map_of (?m d) = map_of (?m e)" using ok by (metis map_of_inject_set dict_ok_def)
  next
    assume "map_of (?m d) = map_of (?m e)"
    then have "set (?m d) = set (?m e)" using ok by (metis map_of_inject_set dict_ok_def)
    then have "mset (?m d) = mset (?m e)" using ok by (metis dict_ok_def distinct_map set_eq_iff_mset_eq_distinct)
    then show "sort_key fst (?m d) = sort_key fst (?m e)" using ok by (metis sort_key_fst_perm dict_ok_def)
  qed
  also have "\<dots> \<longleftrightarrow> (\<forall>k. rel_option py_eq (map_of d k) (map_of e k))"
  proof -
    have "map_option json_key x = map_option json_key y \<longleftrightarrow> rel_option py_eq x y" for x y
      by (cases x; cases y) (simp_all add: py_eq_def)
    then show ?thesis by (simp add: fun_eq_iff map_of_map_snd [of "\<lambda>_. json_key"])
  qed
  finally show ?thesis by (simp add: py_eq_def)
qed

section \<open>Exports always succeed\<close>

lemma okR_bind_map: "okR (bindR m (\<lambda>x. Inr (f x))) \<longleftrightarrow> okR m"
  by (cases m) simp_all

lemma encode_float_free: "floats j = {} \<Longrightarrow> okR (encode (py_of_json j))"
proof (induction j)
  case (JObj d)
  then have "okR (encode (py_of_json v))" if "(k, v) \<in> set d" for k v using that by fastforce
  then have "okR (mapR (\<lambda>(k, r). case k of PStr s \<Rightarrow> bindR r (\<lambda>j. Inr (s, j)) | _ \<Rightarrow> Inl TypeError)
      (map ((\<lambda>(k, v). (k, encode v)) \<circ> (\<lambda>(k, v). (PStr k, py_of_json v))) d))"
    by (auto simp: mapR_okR okR_bind_map)
  then show ?case by (simp add: encode_mapping_def okR_bind_map)
next
  case (JList xs)
  then have "okR (mapR id (map (encode \<circ> py_of_json) xs))" by (auto simp: mapR_okR)
  then show ?case by (simp add: encode_sequence_def okR_bind_map)
qed auto

lemma digest_float_free: "floats j = {} \<Longrightarrow> okR (content_digest_of hash_alg (py_of_json j))"
  using encode_float_free [of j] by (auto simp: content_digest_of_def canonical_dumps_def okR_iff)

lemma floats_texts [simp]: "floats (texts ss) = {}"
  by (simp add: texts_def)

definition digest_or_empty :: "string res \<Rightarrow> string" where
  "digest_or_empty r = (case r of Inr s \<Rightarrow> s | Inl _ \<Rightarrow> [])"

text \<open>The row of a version in an export, and what it says of the version beside its identity.\<close>

definition version_row :: "(string \<Rightarrow> string) \<Rightarrow> ('v \<Rightarrow> string) \<Rightarrow> 'v node_id \<Rightarrow> 'v model_descriptor \<Rightarrow> jgf_node" where
  "version_row hash_alg show_v i d = \<lparr>jn_id = node_str show_v i, jn_label = JStr (node_str show_v i),
     jn_metadata = (if nid_namespace i \<noteq> [] then [(''namespace'', JStr (nid_namespace i))] else [])
       @ [(''kind'', JStr (nid_kind i)), (''version'', JStr (show_v (nid_version i))), (''model'', JStr (mr_entity_id (desc_ref d))),
          (''fields'', texts (sort (map fst (desc_fields d)))), (''references'', texts (reference_texts show_v d)),
          (''schema_hash'', JStr (digest_or_empty (content_digest_of hash_alg (py_of_json (jgf_content show_v i d)))))]\<rparr>"

definition model_facts :: "('v \<Rightarrow> string) \<Rightarrow> 'v model_descriptor \<Rightarrow> string \<times> string list \<times> string list" where
  "model_facts show_v d = (mr_entity_id (desc_ref d), sort (map fst (desc_fields d)), reference_texts show_v d)"

lemma from_version_model: "from_version hash_alg show_v (ModelNode i ref d) = Inr (version_row hash_alg show_v i d)"
proof -
  have "floats (jgf_content show_v i d) = {}" by (simp add: jgf_content_def)
  from digest_float_free [OF this, of hash_alg] show ?thesis
    by (auto simp: from_version_def from_descriptor_def version_row_def digest_or_empty_def okR_iff)
qed

lemma dict_ok_row: "dict_ok (jn_metadata (version_row hash_alg show_v i d))"
  by (simp add: dict_ok_def version_row_def)

lemma version_row_eq:
  "py_eq (jgf_node_to_dict (version_row hash_alg show_v i d)) (jgf_node_to_dict (version_row hash_alg show_v i d'))
    \<longleftrightarrow> model_facts show_v d = model_facts show_v d'" (is "?L \<longleftrightarrow> ?R")
proof
  let ?m = "\<lambda>d. jn_metadata (version_row hash_alg show_v i d)"
  assume ?L
  then have "rel_option py_eq (Some (JObj (?m d))) (Some (JObj (?m d')))"
    by (simp add: jgf_node_to_dict_def py_eq_dict dict_ok_def) (erule allE [of _ "''metadata''"], simp)
  then have eq: "rel_option py_eq (map_of (?m d) k) (map_of (?m d') k)" for k
    by (simp add: py_eq_dict dict_ok_row)
  show ?R using eq [of "''model''"] eq [of "''fields''"] eq [of "''references''"]
    by (cases "nid_namespace i = []") (simp_all add: version_row_def model_facts_def)
next
  assume ?R
  then have "version_row hash_alg show_v i d = version_row hash_alg show_v i d'"
    by (simp add: version_row_def model_facts_def jgf_content_def)
  then show ?L by simp
qed

definition edge_facts :: "'v edge \<Rightarrow> (string \<times> string) option" where
  "edge_facts e = map_option (\<lambda>m. (md_strategy m, md_identity m)) (edge_migration e)"

definition edge_pair :: "'v edge \<Rightarrow> 'v node_id \<times> 'v node_id" where
  "edge_pair e = eid_key (eid_of e)"

definition pair_text :: "('v \<Rightarrow> string) \<Rightarrow> 'v node_id \<times> 'v node_id \<Rightarrow> string" where
  "pair_text show_v p = node_str show_v (fst p) @ ''->'' @ node_str show_v (snd p)"

definition edge_row :: "('v \<Rightarrow> string) \<Rightarrow> 'v node_id \<times> 'v node_id \<Rightarrow> (string \<times> string) option \<Rightarrow> jgf_edge" where
  "edge_row show_v p f = \<lparr>je_id = JStr (pair_text show_v p), je_source = JStr (node_str show_v (fst p)), je_target = JStr (node_str show_v (snd p)),
     je_directed = True,
     je_metadata = (if nid_namespace (fst p) \<noteq> [] then [(''namespace'', JStr (nid_namespace (fst p)))] else [])
       @ [(''kind'', JStr (nid_kind (fst p))), (''source_version'', JStr (show_v (nid_version (fst p)))),
          (''target_version'', JStr (show_v (nid_version (snd p))))]
       @ (case f of None \<Rightarrow> [] | Some (s, i) \<Rightarrow> [(''strategy'', JStr s), (''migration_id'', JStr i)])\<rparr>"

lemma from_edge_key_row: "from_edge_key show_v e None = edge_row show_v (edge_pair e) (edge_facts e)"
  by (simp add: from_edge_key_def edge_row_def edge_pair_def edge_facts_def pair_text_def eid_key_def eid_kind_def eid_namespace_def Let_def
      split: option.split)

lemma edge_row_eq: "py_eq (jgf_edge_to_dict (edge_row show_v p f)) (jgf_edge_to_dict (edge_row show_v p f')) \<longleftrightarrow> f = f'" (is "?L \<longleftrightarrow> _")
proof
  let ?m = "\<lambda>f. je_metadata (edge_row show_v p f)"
  have ok: "dict_ok (?m f)" for f by (auto simp: dict_ok_def edge_row_def split: option.split)
  have keys: "map_of (?m f) ''strategy'' = map_option (\<lambda>x. JStr (fst x)) f" "map_of (?m f) ''migration_id'' = map_option (\<lambda>x. JStr (snd x)) f" for f
    by (cases "nid_namespace (fst p) = []"; cases f; auto simp: edge_row_def)+
  assume ?L
  then have "rel_option py_eq (Some (JObj (?m f))) (Some (JObj (?m f')))"
    by (simp add: jgf_edge_to_dict_def py_eq_dict dict_ok_def) (erule allE [of _ "''metadata''"], simp)
  then have "rel_option py_eq (map_of (?m f) k) (map_of (?m f') k)" for k by (simp add: py_eq_dict ok)
  from this [of "''strategy''"] this [of "''migration_id''"] show "f = f'" unfolding keys by (cases f; cases f') (auto intro: prod_eqI)
qed simp

section \<open>Comparing tables\<close>

lemma map_of_rev_rows: "map_of (rev (map (\<lambda>x. (g x, h x)) xs)) k = (if k \<in> g ` set xs then Some (h (last (filter (\<lambda>x. g x = k) xs))) else None)"
  by (induction xs rule: rev_induct) auto

lemma fst_dict_of: "fst ` set (dict_of kvs) = fst ` set kvs"
proof -
  have "x \<in> fst ` set (dict_of kvs) \<longleftrightarrow> x \<in> fst ` set kvs" for x
    using map_of_dict_of [of kvs] map_of_eq_None_iff [of "dict_of kvs" x] map_of_eq_None_iff [of "rev kvs" x] by auto
  then show ?thesis by blast
qed

text \<open>
  A table is made of rows: the text of a key and a document for it. When texts tell keys apart, and documents of one
  key are equal exactly when certain facts are, then the changes between two tables are those between the facts.
\<close>

lemma table_changes:
  fixes xs :: "'x list" and key :: "'x \<Rightarrow> 'k" and fact :: "'x \<Rightarrow> 'f"
  assumes inj: "inj_on f (key ` (set xs \<union> set ys))"
    and doc: "\<And>x y. x \<in> set xs \<Longrightarrow> y \<in> set ys \<Longrightarrow> key x = key y \<Longrightarrow> py_eq (doc x) (doc y) \<longleftrightarrow> fact x = fact y"
  defines "T \<equiv> \<lambda>zs. dict_of (map (\<lambda>x. (f (key x), doc x)) zs)" and "F \<equiv> \<lambda>zs. map_of (dict_of (map (\<lambda>x. (key x, fact x)) zs))"
  shows "set (cs_added (changes_between (T xs) (T ys))) = f ` (dom (F ys) - dom (F xs))"
    and "set (cs_removed (changes_between (T xs) (T ys))) = f ` (dom (F xs) - dom (F ys))"
    and "set (cs_modified (changes_between (T xs) (T ys))) = f ` {k. k \<in> dom (F xs) \<inter> dom (F ys) \<and> F xs k \<noteq> F ys k}"
proof -
  have keys: "fst ` set (T zs) = f ` key ` set zs" "dom (F zs) = key ` set zs" for zs
    by (auto simp: T_def F_def fst_dict_of dom_map_of_conv_image_fst image_comp comp_def)
  have inj': "f ` A - f ` B = f ` (A - B)" if "A \<subseteq> key ` (set xs \<union> set ys)" "B \<subseteq> key ` (set xs \<union> set ys)" for A B
    using inj_on_image_set_diff [OF inj, of A B] that by blast
  have sub: "key ` set xs \<subseteq> key ` (set xs \<union> set ys)" "key ` set ys \<subseteq> key ` (set xs \<union> set ys)" by auto
  show "set (cs_added (changes_between (T xs) (T ys))) = f ` (dom (F ys) - dom (F xs))"
    unfolding keys(2) inj' [OF sub(2,1), symmetric] by (auto simp: changes_between_def keys(1) simp flip: keys(1))
  show "set (cs_removed (changes_between (T xs) (T ys))) = f ` (dom (F xs) - dom (F ys))"
    unfolding keys(2) inj' [OF sub, symmetric] by (auto simp: changes_between_def keys(1) simp flip: keys(1))
  let ?l = "\<lambda>zs k. last (filter (\<lambda>x. key x = k) zs)"
  have last: "?l zs k \<in> set zs" "key (?l zs k) = k" if "k \<in> key ` set zs" for zs k
  proof -
    have "filter (\<lambda>x. key x = k) zs \<noteq> []" using that by (auto simp: filter_empty_conv)
    from last_in_set [OF this] show "?l zs k \<in> set zs" "key (?l zs k) = k" by auto
  qed
  have T: "map_of (T zs) (f k) = Some (doc (?l zs k))" if "k \<in> key ` set zs" "set zs \<subseteq> set xs \<union> set ys" for zs k
  proof -
    have "filter (\<lambda>x. f (key x) = f k) zs = filter (\<lambda>x. key x = k) zs"
      using that by (intro filter_cong refl) (meson image_eqI image_mono inj inj_on_eq_iff subsetD)
    moreover have "f k \<in> (\<lambda>x. f (key x)) ` set zs" using that(1) by auto
    ultimately show ?thesis by (simp add: T_def map_of_dict_of map_of_rev_rows)
  qed
  have F: "F zs k = Some (fact (?l zs k))" if "k \<in> key ` set zs" for zs k
    using that by (simp add: F_def map_of_dict_of map_of_rev_rows)
  have m: "f k \<in> set (cs_modified (changes_between (T xs) (T ys))) \<longleftrightarrow> F xs k \<noteq> F ys k" if "k \<in> key ` set xs" "k \<in> key ` set ys" for k
    using that keys(1) [of xs] doc [OF last(1) last(1)] last(2) by (auto simp: changes_between_def T F)
  have "x \<in> f ` (key ` set xs \<inter> key ` set ys)" if "x \<in> set (cs_modified (changes_between (T xs) (T ys)))" for x
  proof -
    have "x \<in> f ` key ` set xs \<inter> f ` key ` set ys"
      using that by (auto simp: changes_between_def simp flip: keys(1) split: option.splits) (force dest: map_of_SomeD)+
    then show ?thesis using inj_on_image_Int [OF inj sub] by simp
  qed
  then show "set (cs_modified (changes_between (T xs) (T ys))) = f ` {k. k \<in> dom (F xs) \<inter> dom (F ys) \<and> F xs k \<noteq> F ys k}"
    using m unfolding keys(2) by blast
qed

section \<open>What a comparison shows\<close>

text \<open>A manifest with the given nodes and edges, whose identifiers are texts, and the given version.\<close>

definition graph_doc :: "json \<Rightarrow> jgf_node list \<Rightarrow> (string \<times> jgf_edge) list \<Rightarrow> string \<Rightarrow> bool" where
  "graph_doc a ns es v \<longleftrightarrow> (\<exists>d m. a = JObj [(''graph'', JObj d)] \<and> map_of d ''nodes'' = Some (JObj (node_table ns))
     \<and> map_of d ''edges'' = Some (JList (map (\<lambda>(_, e). jgf_edge_to_dict e) es)) \<and> (\<forall>(i, e) \<in> set es. je_id e = JStr i)
     \<and> map_of d ''metadata'' = Some (JObj m) \<and> map_of m ''manifest_version'' = Some (JStr v))"

lemma frozen_dict [simp]: "frozen_of (JObj d) = Inr ()"
  by (auto simp: frozen_of_def iter_of_def list_all_iff)

lemma edge_table_doc:
  assumes "map_of d ''edges'' = Some (JList (map (\<lambda>(_, e). jgf_edge_to_dict e) es))" "\<forall>(i, e) \<in> set es. je_id e = JStr i"
  shows "edge_table (JObj d) = Inr (dict_of (map (\<lambda>(i, e). (i, jgf_edge_to_dict e)) es))"
proof -
  have "mapR (\<lambda>e. bindR (jitem e ''id'') (\<lambda>i. bindR (text_key i) (\<lambda>k. Inr (k, e)))) (map (\<lambda>(_, e). jgf_edge_to_dict e) es)
      = Inr (map (\<lambda>(i, e). (i, jgf_edge_to_dict e)) es)"
    using assms(2) by (intro mapR_map) (auto simp: jgf_edge_to_dict_def text_key_def)
  then show ?thesis using assms(1) by (simp add: edge_table_def)
qed

lemma compare_graph_docs:
  assumes "graph_doc a ns es v" "graph_doc b ns' es' v'"
  shows "compare_manifests a b = Inr \<lparr>mdf_nodes = changes_between (node_table ns) (node_table ns'),
     mdf_edges = changes_between (dict_of (map (\<lambda>(i, e). (i, jgf_edge_to_dict e)) es)) (dict_of (map (\<lambda>(i, e). (i, jgf_edge_to_dict e)) es')),
     mdf_version_changed = (v \<noteq> v')\<rparr>"
  using assms edge_table_doc by (auto simp: graph_doc_def compare_manifests_def)

lemma manifest_export_doc:
  assumes "manifest_export hash_alg show_v sp src manager t = Inr a" "export_graph hash_alg show_v src (sp_graph_id sp) = Inr g"
    "jg_edges g = map snd es" "\<forall>(i, e) \<in> set es. je_id e = JStr i"
  shows "graph_doc a (jg_nodes g) es (sp_manifest_version sp)"
  using assms unfolding graph_doc_def
  by (auto simp: manifest_export_def bindR_eq_Inr manifest_graph_def manifest_metadata_def update_conv' graph_dict_lookups Let_def case_prod_unfold)

text \<open>The graph of an export by rows; an identifier that is not given is the namespace.\<close>

definition rows_graph :: "(string \<Rightarrow> string) \<Rightarrow> ('v \<Rightarrow> string) \<Rightarrow> string \<Rightarrow> 'v node list \<Rightarrow> 'v edge list \<Rightarrow> jgf_graph" where
  "rows_graph hash_alg show_v i ns es = \<lparr>jg_id = JStr i, jg_directed = True,
     jg_nodes = map (\<lambda>n. version_row hash_alg show_v (node_id_of n) (the (descriptor n))) ns,
     jg_edges = map (\<lambda>e. edge_row show_v (edge_pair e) (edge_facts e)) es, jg_metadata = []\<rparr>"

lemma version_rows:
  "mapR (from_version hash_alg show_v) (versions r)
    = Inr (map (\<lambda>n. version_row hash_alg show_v (node_id_of n) (the (descriptor n))) (versions r))"
proof (rule mapR_Inr_map)
  fix n
  assume "n \<in> set (versions r)"
  then have "is_model n" by (simp add: versions_def)
  then show "from_version hash_alg show_v n = Inr (version_row hash_alg show_v (node_id_of n) (the (descriptor n)))"
    by (cases n rule: node.exhaust) (simp_all add: from_version_model)
qed

lemma registry_export:
  "export_graph hash_alg show_v (registry_source r) i
    = Inr (rows_graph hash_alg show_v (if i = [] then reg_namespace r else i) (versions r) (source_edges (registry_source r)))"
  by (simp add: export_graph_def from_versions_def registry_source_def from_edge_key_row rows_graph_def version_rows)

text \<open>
  What a manifest says of a registry: for every version the model, the names of its fields and its references, and
  for every two versions with an edge the strategy and the identity of the migration, of the last edge if there are
  several.
\<close>

definition version_facts :: "('v \<Rightarrow> string) \<Rightarrow> 'v registry \<Rightarrow> 'v node_id \<Rightarrow> (string \<times> string list \<times> string list) option" where
  "version_facts show_v r = map_of (dict_of (map (\<lambda>n. (node_id_of n, model_facts show_v (the (descriptor n)))) (versions r)))"

definition migration_facts :: "'v registry \<Rightarrow> 'v node_id \<times> 'v node_id \<Rightarrow> (string \<times> string) option option" where
  "migration_facts r = map_of (dict_of (map (\<lambda>e. (edge_pair e, edge_facts e)) (source_edges (registry_source r))))"

definition texts_unique :: "('v \<Rightarrow> string) \<Rightarrow> 'v registry \<Rightarrow> 'v registry \<Rightarrow> bool" where
  "texts_unique show_v r r' \<longleftrightarrow>
     inj_on (node_str show_v) (node_id_of ` (set (versions r) \<union> set (versions r')))
   \<and> inj_on (pair_text show_v) (edge_pair ` (set (source_edges (registry_source r)) \<union> set (source_edges (registry_source r'))))"

lemma row_tables:
  "node_table (map (\<lambda>n. version_row hash_alg show_v (node_id_of n) (the (descriptor n))) ns)
    = dict_of (map (\<lambda>n. (node_str show_v (node_id_of n), jgf_node_to_dict (version_row hash_alg show_v (node_id_of n) (the (descriptor n))))) ns)"
  by (simp add: node_table_def comp_def version_row_def)

lemma manifest_of_rows:
  assumes "manifest_export hash_alg show_v sp src manager t = Inr a"
    "export_graph hash_alg show_v src (sp_graph_id sp) = Inr (rows_graph hash_alg show_v i ns es)"
  shows "graph_doc a (map (\<lambda>n. version_row hash_alg show_v (node_id_of n) (the (descriptor n))) ns)
     (map (\<lambda>e. (pair_text show_v (edge_pair e), edge_row show_v (edge_pair e) (edge_facts e))) es) (sp_manifest_version sp)"
  using manifest_export_doc [OF assms, of "map (\<lambda>e. (pair_text show_v (edge_pair e), edge_row show_v (edge_pair e) (edge_facts e))) es"]
  by (simp add: comp_def edge_row_def rows_graph_def)

lemmas manifest_of_registry = manifest_of_rows [OF _ registry_export]

lemma manifest_compared:
  assumes "texts_unique show_v r r'"
    and "manifest_export hash_alg show_v sp (registry_source r) manager t = Inr a"
    and "manifest_export hash_alg show_v sp' (registry_source r') manager' t' = Inr b"
  shows "\<exists>d. compare_manifests a b = Inr d
    \<and> set (cs_added (mdf_nodes d)) = node_str show_v ` (dom (version_facts show_v r') - dom (version_facts show_v r))
    \<and> set (cs_removed (mdf_nodes d)) = node_str show_v ` (dom (version_facts show_v r) - dom (version_facts show_v r'))
    \<and> set (cs_modified (mdf_nodes d)) = node_str show_v ` {i. i \<in> dom (version_facts show_v r) \<inter> dom (version_facts show_v r')
        \<and> version_facts show_v r i \<noteq> version_facts show_v r' i}
    \<and> set (cs_added (mdf_edges d)) = pair_text show_v ` (dom (migration_facts r') - dom (migration_facts r))
    \<and> set (cs_removed (mdf_edges d)) = pair_text show_v ` (dom (migration_facts r) - dom (migration_facts r'))
    \<and> set (cs_modified (mdf_edges d)) = pair_text show_v ` {p. p \<in> dom (migration_facts r) \<inter> dom (migration_facts r')
        \<and> migration_facts r p \<noteq> migration_facts r' p}
    \<and> (mdf_version_changed d \<longleftrightarrow> sp_manifest_version sp \<noteq> sp_manifest_version sp')"
proof -
  have inj: "inj_on (node_str show_v) (node_id_of ` (set (versions r) \<union> set (versions r')))"
    "inj_on (pair_text show_v) (edge_pair ` (set (source_edges (registry_source r)) \<union> set (source_edges (registry_source r'))))"
    using assms(1) by (simp_all add: texts_unique_def)
  note nodes = table_changes [OF inj(1), of "\<lambda>n. jgf_node_to_dict (version_row hash_alg show_v (node_id_of n) (the (descriptor n)))"
      "\<lambda>n. model_facts show_v (the (descriptor n))", folded version_facts_def]
  note pairs = table_changes [OF inj(2), of "\<lambda>e. jgf_edge_to_dict (edge_row show_v (edge_pair e) (edge_facts e))" edge_facts,
      folded migration_facts_def]
  show ?thesis
    using compare_graph_docs [OF assms(2,3) [THEN manifest_of_registry]]
    by (simp add: row_tables comp_def nodes pairs version_row_eq edge_row_eq)
qed

text \<open>
  C26. Comparing the manifests of two registries reports exactly the versions and the pairs of versions with a migration
  that were added or removed, the versions whose model, field names or references differ, and the pairs whose
  migration has another strategy or identity. So a field that changes its type or default is not reported, and of
  several migrations between two versions only the last one is compared. Identifiers are supposed to tell versions
  apart.
\<close>

theorem manifest_comparison:
  assumes "texts_unique show_v r r'"
    and "manifest_export hash_alg show_v sp (registry_source r) manager t = Inr a"
    and "manifest_export hash_alg show_v sp' (registry_source r') manager' t' = Inr b"
  shows "\<exists>d. compare_manifests a b = Inr d
    \<and> set (cs_added (mdf_nodes d)) = node_str show_v ` (dom (version_facts show_v r') - dom (version_facts show_v r))
    \<and> set (cs_removed (mdf_nodes d)) = node_str show_v ` (dom (version_facts show_v r) - dom (version_facts show_v r'))
    \<and> set (cs_modified (mdf_nodes d)) = node_str show_v ` {i. i \<in> dom (version_facts show_v r) \<inter> dom (version_facts show_v r')
        \<and> version_facts show_v r i \<noteq> version_facts show_v r' i}
    \<and> set (cs_added (mdf_edges d)) = pair_text show_v ` (dom (migration_facts r') - dom (migration_facts r))
    \<and> set (cs_removed (mdf_edges d)) = pair_text show_v ` (dom (migration_facts r) - dom (migration_facts r'))
    \<and> set (cs_modified (mdf_edges d)) = pair_text show_v ` {p. p \<in> dom (migration_facts r) \<inter> dom (migration_facts r')
        \<and> migration_facts r p \<noteq> migration_facts r' p}
    \<and> (mdf_version_changed d \<longleftrightarrow> sp_manifest_version sp \<noteq> sp_manifest_version sp')"
  using assms by (rule manifest_compared)

section \<open>The check against a baseline\<close>

lemma update_rows: "set (AList.update k v d) \<subseteq> insert (k, v) (set d)"
  by (induction d) auto

lemma dict_of_rows: "set (dict_of kvs) \<subseteq> set kvs"
proof -
  have "set (fold (\<lambda>(k, v). AList.update k v) kvs d) \<subseteq> set kvs \<union> set d" for d
  proof (induction kvs arbitrary: d)
    case (Cons x kvs)
    then show ?case using update_rows [of "fst x" "snd x" d] by (cases x) fastforce
  qed simp
  from this [of "[]"] show ?thesis by (simp add: dict_of_def)
qed

lemma floats_update: "floats v = {} \<Longrightarrow> floats (JObj d) = {} \<Longrightarrow> floats (JObj (AList.update k v d)) = {}"
  using update_rows [of k v d] by fastforce

lemma floats_rows: "floats (jgf_node_to_dict (version_row hash_alg show_v i d)) = {}" "floats (jgf_edge_to_dict (edge_row show_v p f)) = {}"
  by (auto simp: jgf_node_to_dict_def version_row_def jgf_edge_to_dict_def edge_row_def split: option.splits)

lemma manifest_export_ok:
  assumes "export_graph hash_alg show_v src (sp_graph_id sp) = Inr (rows_graph hash_alg show_v i ns es)"
  shows "okR (manifest_export hash_alg show_v sp src manager t)"
proof -
  let ?g = "rows_graph hash_alg show_v i ns es"
  have "floats (JObj (node_table (jg_nodes ?g))) = {}"
    using dict_of_rows unfolding rows_graph_def node_table_def by (fastforce simp: floats_rows)
  then have d: "floats (JObj (jgf_graph_dict ?g)) = {}" by (auto simp: jgf_graph_dict_def floats_rows rows_graph_def)
  have "floats (JObj (manifest_graph sp (jgf_graph_dict ?g) (manifest_metadata sp manager))) = {}"
    unfolding manifest_graph_def by (intro floats_update d) (simp_all add: manifest_metadata_def)
  from digest_float_free [OF this, of hash_alg] show ?thesis by (auto simp: manifest_export_def assms okR_iff Let_def)
qed

lemma facts_eq: "f = g \<longleftrightarrow> dom f - dom g = {} \<and> dom g - dom f = {} \<and> {k. k \<in> dom f \<inter> dom g \<and> f k \<noteq> g k} = {}"
proof (intro iffI ext)
  fix k
  assume a: "dom f - dom g = {} \<and> dom g - dom f = {} \<and> {k. k \<in> dom f \<inter> dom g \<and> f k \<noteq> g k} = {}"
  show "f k = g k"
  proof (cases "k \<in> dom f")
    case True
    with a show ?thesis by blast
  next
    case False
    with a have "k \<notin> dom g" by blast
    with False show ?thesis by (simp add: domIff)
  qed
qed auto

text \<open>
  C28. The check of a registry against a baseline ends with 0 exactly when registry and baseline agree on what
  manifests compare, and with 1 otherwise: the versions with their model, field names and references
  (\<open>version_facts\<close>), and the pairs of versions with a migration together with strategy and identity of the last one
  of the pair (\<open>migration_facts\<close>). Other differences, such as the type of a field or a migration of a pair that is not
  the last one, are not seen. The lines that it prints call a version added that the baseline has and the registry
  has not, and removed one that the registry has and the baseline has not, because the command gives the sides of
  the comparison the other way round.
\<close>

theorem manifest_baseline:
  assumes "texts_unique show_v r r0" "manifest_export hash_alg show_v sp (registry_source r0) manager0 t0 = Inr base"
  shows "\<exists>doc d. manifest_command hash_alg show_v sp r manager (Some base) = Inr (doc,
       if version_facts show_v r = version_facts show_v r0 \<and> migration_facts r = migration_facts r0 then (0, [''Manifest snapshot matches''])
       else (1, ''Manifest divergence detected'' # map (\<lambda>issue. ''  - '' @ issue) (mdf_summary d)))
    \<and> set (cs_added (mdf_nodes d)) = node_str show_v ` (dom (version_facts show_v r0) - dom (version_facts show_v r))
    \<and> set (cs_removed (mdf_nodes d)) = node_str show_v ` (dom (version_facts show_v r) - dom (version_facts show_v r0))"
proof -
  obtain doc where doc: "manifest_export hash_alg show_v sp (registry_source r) manager None = Inr doc"
    using manifest_export_ok [OF registry_export, of hash_alg show_v sp r manager None] unfolding okR_iff by blast
  obtain d where d: "compare_manifests doc base = Inr d"
      "set (cs_added (mdf_nodes d)) = node_str show_v ` (dom (version_facts show_v r0) - dom (version_facts show_v r))"
      "set (cs_removed (mdf_nodes d)) = node_str show_v ` (dom (version_facts show_v r) - dom (version_facts show_v r0))"
      "set (cs_modified (mdf_nodes d)) = node_str show_v ` {i. i \<in> dom (version_facts show_v r) \<inter> dom (version_facts show_v r0)
        \<and> version_facts show_v r i \<noteq> version_facts show_v r0 i}"
      "set (cs_added (mdf_edges d)) = pair_text show_v ` (dom (migration_facts r0) - dom (migration_facts r))"
      "set (cs_removed (mdf_edges d)) = pair_text show_v ` (dom (migration_facts r) - dom (migration_facts r0))"
      "set (cs_modified (mdf_edges d)) = pair_text show_v ` {p. p \<in> dom (migration_facts r) \<inter> dom (migration_facts r0)
        \<and> migration_facts r p \<noteq> migration_facts r0 p}"
      "mdf_version_changed d \<longleftrightarrow> sp_manifest_version sp \<noteq> sp_manifest_version sp"
    using manifest_compared [OF assms(1) doc assms(2)] by (elim exE conjE) (rule that)
  have "cs_changed (mdf_nodes d) \<longleftrightarrow> version_facts show_v r \<noteq> version_facts show_v r0"
    unfolding cs_changed_def set_empty [symmetric] d(2-4) image_is_empty facts_eq [of "version_facts show_v r"] by argo
  moreover have "cs_changed (mdf_edges d) \<longleftrightarrow> migration_facts r \<noteq> migration_facts r0"
    unfolding cs_changed_def set_empty [symmetric] d(5-7) image_is_empty facts_eq [of "migration_facts r"] by argo
  ultimately have "mdf_changed d \<longleftrightarrow> \<not> (version_facts show_v r = version_facts show_v r0 \<and> migration_facts r = migration_facts r0)"
    using d(8) by (simp add: mdf_changed_def)
  then show ?thesis using doc d by (intro exI [of _ doc] exI [of _ d]) (simp add: manifest_command_def)
qed

section \<open>Importing an export\<close>

text \<open>The states of an import: a consistent registry without a digest index.\<close>

definition importing :: "('v::linorder, 'b) reg_config \<Rightarrow> 'v registry \<Rightarrow> bool" where
  "importing cfg r \<longleftrightarrow> reg_wf cfg r \<and> digest_index r = None"

lemma importing_store:
  assumes "importing cfg r" "find_entry (node_id_of n) r = None"
  obtains r' where "store cfg n r = (Inr n, r')" "importing cfg r'"
    "cat_nodes (catalog_of r') = (cat_nodes (catalog_of r))(node_id_of n \<mapsto> n)" "cat_edges (catalog_of r') = cat_edges (catalog_of r)"
proof -
  obtain x r' where s: "store cfg n r = (x, r')" by (rule prod.exhaust)
  have wf: "reg_wf cfg r" "digest_index r = None" using assms(1) by (simp_all add: importing_def)
  have c: "run_command cfg (Store n) r = (map_sum id (\<lambda>n. Some (NodeE n)) x, r')" using s by simp
  have "map_sum id (\<lambda>n. Some (NodeE n)) x = Inr (Some (NodeE n))"
    "catalog_of r' = (catalog_of r)\<lparr>cat_nodes := (cat_nodes (catalog_of r))(node_id_of n \<mapsto> n)\<rparr>"
    using refines_store [OF wf(1), of n] assms(2) by (simp_all add: refines_def c spec_store_def s)
  moreover have "reg_wf cfg r'" "digest_index r' = None"
    using command_wf [OF wf(1), of "Store n"] digest_index_None [OF wf(2), of cfg "Store n"] by (simp_all add: c command_ok_def s)
  ultimately show ?thesis using that [of r'] s by (cases x) (auto simp: importing_def)
qed

lemma importing_migration:
  assumes "importing cfg r" "edge_ok (eid_of e)" "edge_at (eid_of e) r = None"
    "is_executable e \<Longrightarrow> find_entry (eid_source (eid_of e)) r \<noteq> None \<and> find_entry (eid_target (eid_of e)) r \<noteq> None"
  obtains r' where "store_migration_edge cfg e r = (Inr e, r')" "importing cfg r'"
    "cat_edges (catalog_of r') = (cat_edges (catalog_of r))(eid_of e \<mapsto> e)" "cat_nodes (catalog_of r') = cat_nodes (catalog_of r)"
proof -
  obtain x r' where s: "store_migration_edge cfg e r = (x, r')" by (rule prod.exhaust)
  have wf: "reg_wf cfg r" "digest_index r = None" using assms(1) by (simp_all add: importing_def)
  have c: "run_command cfg (StoreMigration e) r = (map_sum id (\<lambda>n. Some (EdgeE n)) x, r')" using s by simp
  have dig: "digestable cfg (digest_index r) e" using wf by (simp add: digestable_def)
  have "map_sum id (\<lambda>n. Some (EdgeE n)) x = Inr (Some (EdgeE e))"
    "catalog_of r' = (catalog_of r)\<lparr>cat_edges := (cat_edges (catalog_of r))(eid_of e \<mapsto> e)\<rparr>"
    using refines_store_migration [OF wf(1) dig] assms(3,4) by (auto simp: refines_def c spec_store_migration_def s)
  moreover have "reg_wf cfg r'" "digest_index r' = None"
    using command_wf [OF wf(1), of "StoreMigration e"] digest_index_None [OF wf(2), of cfg "StoreMigration e"] assms(2) dig
    by (simp_all add: c command_ok_def s)
  ultimately show ?thesis using that [of r'] s by (cases x) (auto simp: importing_def)
qed

lemma import_nodes_run:
  assumes "importing cfg r" "\<forall>n \<in> set ns. node_of (row n) = Inr n" "distinct (map node_id_of ns)"
    "\<forall>n \<in> set ns. find_entry (node_id_of n) r = None"
  shows "\<exists>r'. import_nodes cfg node_of (map row ns) r = (Inr (), r') \<and> importing cfg r'
    \<and> cat_nodes (catalog_of r') = cat_nodes (catalog_of r) ++ map_of (map (\<lambda>n. (node_id_of n, n)) ns)
    \<and> cat_edges (catalog_of r') = cat_edges (catalog_of r)"
  using assms
proof (induction ns arbitrary: r)
  case (Cons n ns)
  obtain r1 where r1: "store cfg n r = (Inr n, r1)" "importing cfg r1"
      "cat_nodes (catalog_of r1) = (cat_nodes (catalog_of r))(node_id_of n \<mapsto> n)" "cat_edges (catalog_of r1) = cat_edges (catalog_of r)"
    using importing_store [OF Cons.prems(1), of n] Cons.prems(4) by auto
  have f: "find_entry k r1 = (if k = node_id_of n then Some n else find_entry k r)" for k
    using fun_cong [OF r1(3), of k] by simp
  have "\<forall>m \<in> set ns. find_entry (node_id_of m) r1 = None" using Cons.prems(3,4) by (auto simp: f image_iff)
  moreover have "\<forall>m \<in> set ns. node_of (row m) = Inr m" "distinct (map node_id_of ns)" using Cons.prems(2,3) by simp_all
  ultimately obtain r' where r': "import_nodes cfg node_of (map row ns) r1 = (Inr (), r')" "importing cfg r'"
      "cat_nodes (catalog_of r') = cat_nodes (catalog_of r1) ++ map_of (map (\<lambda>n. (node_id_of n, n)) ns)"
      "cat_edges (catalog_of r') = cat_edges (catalog_of r1)"
    using Cons.IH [OF r1(2)] by blast
  have "cat_nodes (catalog_of r') = cat_nodes (catalog_of r) ++ map_of (map (\<lambda>n. (node_id_of n, n)) (n # ns))"
    unfolding r'(3) r1(3) using Cons.prems(3) by (subst map_add_upd_left) (auto simp: dom_map_of_conv_image_fst image_comp)
  moreover have "import_nodes cfg node_of (map row (n # ns)) r = (Inr (), r')"
    using r1(1) r'(1) Cons.prems(2) by (simp add: import_nodes_def)
  ultimately show ?case using r'(2) r'(4) [unfolded r1(4)] by blast
qed (simp add: import_nodes_def)

lemma import_edges_run:
  assumes "importing cfg r" "\<forall>e \<in> set es. edge_of (row e) = Inr e \<and> edge_ok (eid_of e)" "distinct (map eid_of es)"
    "\<forall>e \<in> set es. edge_at (eid_of e) r = None
       \<and> (is_executable e \<longrightarrow> find_entry (eid_source (eid_of e)) r \<noteq> None \<and> find_entry (eid_target (eid_of e)) r \<noteq> None)"
  shows "\<exists>r'. import_edges cfg edge_of (map row es) r = (Inr (), r') \<and> importing cfg r'
    \<and> cat_edges (catalog_of r') = cat_edges (catalog_of r) ++ map_of (map (\<lambda>e. (eid_of e, e)) es)
    \<and> cat_nodes (catalog_of r') = cat_nodes (catalog_of r)"
  using assms
proof (induction es arbitrary: r)
  case (Cons e es)
  obtain r1 where r1: "store_migration_edge cfg e r = (Inr e, r1)" "importing cfg r1"
      "cat_edges (catalog_of r1) = (cat_edges (catalog_of r))(eid_of e \<mapsto> e)" "cat_nodes (catalog_of r1) = cat_nodes (catalog_of r)"
    using importing_migration [OF Cons.prems(1), of e] Cons.prems(2,4) by auto
  have f: "edge_at k r1 = (if k = eid_of e then Some e else edge_at k r)" "find_entry i r1 = find_entry i r" for k i
    using fun_cong [OF r1(3), of k] fun_cong [OF r1(4), of i] by simp_all
  have "\<forall>x \<in> set es. edge_at (eid_of x) r1 = None
     \<and> (is_executable x \<longrightarrow> find_entry (eid_source (eid_of x)) r1 \<noteq> None \<and> find_entry (eid_target (eid_of x)) r1 \<noteq> None)"
    using Cons.prems(3,4) by (auto simp: f image_iff)
  moreover have "\<forall>x \<in> set es. edge_of (row x) = Inr x \<and> edge_ok (eid_of x)" "distinct (map eid_of es)" using Cons.prems(2,3) by simp_all
  ultimately obtain r' where r': "import_edges cfg edge_of (map row es) r1 = (Inr (), r')" "importing cfg r'"
      "cat_edges (catalog_of r') = cat_edges (catalog_of r1) ++ map_of (map (\<lambda>e. (eid_of e, e)) es)"
      "cat_nodes (catalog_of r') = cat_nodes (catalog_of r1)"
    using Cons.IH [OF r1(2)] by blast
  have "cat_edges (catalog_of r') = cat_edges (catalog_of r) ++ map_of (map (\<lambda>e. (eid_of e, e)) (e # es))"
    unfolding r'(3) r1(3) using Cons.prems(3) by (subst map_add_upd_left) (auto simp: dom_map_of_conv_image_fst image_comp)
  moreover have "import_edges cfg edge_of (map row (e # es)) r = (Inr (), r')"
    using r1(1) r'(1) Cons.prems(2) by (simp add: import_edges_def)
  ultimately show ?case using r'(2) r'(4) [unfolded r1(4)] by blast
qed (simp add: import_edges_def)

lemma registry_rows:
  assumes "reg_wf cfg r"
  shows "distinct (map node_id_of (versions r))" "distinct (map eid_of (source_edges (registry_source r)))"
    "e \<in> set (source_edges (registry_source r)) \<longleftrightarrow> edge_at (eid_of e) r = Some e"
    "e \<in> set (source_edges (registry_source r)) \<Longrightarrow> edge_ok (eid_of e)"
proof -
  have bucket: "distinct (map eid_of (edges k r))" "e \<in> set (edges k r) \<Longrightarrow> edge_kind e = k \<and> edge_ok (eid_of e)" for k e
    using edges_bucket [OF assms, of k] by (auto simp: bucket_wf_def asc_distinct_keys)
  have src: "source_edges (registry_source r) = concat (map (\<lambda>k. edges k r) (kinds r))" by (simp add: source_edges_def registry_source_def)
  show "distinct (map node_id_of (versions r))"
    using assms by (simp add: reg_wf_def nodes_wf_def versions_def asc_distinct_keys distinct_map_filter)
  have "dict_ok (migrations_of_kind r)" using assms by (simp add: reg_wf_def edges_wf_def)
  then show "distinct (map eid_of (source_edges (registry_source r)))"
    unfolding src using bucket by (intro distinct_buckets [where h = eid_kind]) (auto simp: kinds_def dict_ok_def edge_kind_def)
  have "k \<in> set (kinds r)" if "e \<in> set (edges k r)" for k
    using that dict_has_iff [of "migrations_of_kind r" k] by (auto simp: kinds_def edges_def dict_get_def dict_has_def split: option.splits)
  then show "e \<in> set (source_edges (registry_source r)) \<longleftrightarrow> edge_at (eid_of e) r = Some e"
    unfolding src edge_at_member [OF assms] using bucket(2) by (auto simp: edges_def)
  show "e \<in> set (source_edges (registry_source r)) \<Longrightarrow> edge_ok (eid_of e)" unfolding src using bucket(2) by auto
qed

lemma map_of_rows: "distinct (map f xs) \<Longrightarrow> map_of (map (\<lambda>x. (f x, x)) xs) k = Some x \<longleftrightarrow> x \<in> set xs \<and> f x = k"
  by (auto simp: map_of_eq_Some_iff comp_def)

text \<open>
  C25. A registry survives export and import: when all its entries are models and its executable migrations lead from
  one of them to another, reading the exported document back into an empty registry, with resolvers that find each
  version and each edge from its row, raises nothing and gives a registry with the same entries and edges, under the
  same identities.
\<close>

theorem import_export:
  assumes "reg_reachable cfg r" "reg_reachable cfg r0" "digest_index r0 = None" "by_versions r0 = []" "migrations_of_kind r0 = []"
    and "inj_on (node_str show_v) (node_id_of ` set (versions r))"
    and "by_versions r = versions r" "\<forall>e \<in> set (source_edges (registry_source r)). is_executable e \<longrightarrow>
        {eid_source (eid_of e), eid_target (eid_of e)} \<subseteq> node_id_of ` set (versions r)"
    and "export_graph hash_alg show_v (registry_source r) i = Inr g"
    and "\<forall>n \<in> set (versions r). node_of (version_row hash_alg show_v (node_id_of n) (the (descriptor n))) = Inr n"
    and "\<forall>e \<in> set (source_edges (registry_source r)). edge_of (edge_row show_v (edge_pair e) (edge_facts e)) = Inr e"
  shows "\<exists>r'. import_graph cfg node_of (Some edge_of) (jgf_to_dict g) r0 = (Inr g, r')
    \<and> (\<forall>k. find_entry k r' = find_entry k r) \<and> (\<forall>k. edge_at k r' = edge_at k r)"
proof -
  have wf: "reg_wf cfg r" "reg_wf cfg r0" using assms(1,2) by (simp_all add: reg_reachable_wf)
  note rows = registry_rows [OF wf(1)]
  have g: "jg_nodes g = map (\<lambda>n. version_row hash_alg show_v (node_id_of n) (the (descriptor n))) (versions r)"
    "jg_edges g = map (\<lambda>e. edge_row show_v (edge_pair e) (edge_facts e)) (source_edges (registry_source r))"
    using assms(9) by (auto simp: registry_export rows_graph_def)
  have "distinct (map jn_id (jg_nodes g))"
    using rows(1) assms(6) by (simp add: g comp_def version_row_def distinct_map inj_on_def)
  note read = jgf_roundtrip [OF this]
  have empty: "find_entry k r0 = None" "edge_at j r0 = None" for k j
    using find_entry_None [OF wf(2), of k] assms(4,5) edge_at_member [OF wf(2), of j] by (simp, cases "edge_at j r0") auto
  obtain r1 where r1: "import_nodes cfg node_of (jg_nodes g) r0 = (Inr (), r1)" "importing cfg r1"
      "cat_nodes (catalog_of r1) = cat_nodes (catalog_of r0) ++ map_of (map (\<lambda>n. (node_id_of n, n)) (versions r))"
      "cat_edges (catalog_of r1) = cat_edges (catalog_of r0)"
    using import_nodes_run [OF _ assms(10) rows(1), of cfg r0] assms(3) wf empty unfolding g importing_def by blast
  have nodes: "find_entry k r1 = find_entry k r" for k
  proof -
    have "find_entry k r1 = map_of (map (\<lambda>n. (node_id_of n, n)) (versions r)) k"
      using fun_cong [OF r1(3), of k] empty by (auto simp: map_add_def split: option.splits)
    then have "find_entry k r1 = Some n \<longleftrightarrow> find_entry k r = Some n" for n
      using map_of_rows [OF rows(1), of k n] find_entry_Some [OF wf(1), of k n] assms(7) by simp
    then show ?thesis by (metis not_None_eq)
  qed
  have pre: "\<forall>e \<in> set (source_edges (registry_source r)). edge_at (eid_of e) r1 = None
     \<and> (is_executable e \<longrightarrow> find_entry (eid_source (eid_of e)) r1 \<noteq> None \<and> find_entry (eid_target (eid_of e)) r1 \<noteq> None)"
    using assms(8) fun_cong [OF r1(4)] empty find_entry_None [OF wf(1)] assms(7) by (simp add: nodes)
  obtain r2 where r2: "import_edges cfg edge_of (jg_edges g) r1 = (Inr (), r2)"
      "cat_edges (catalog_of r2) = cat_edges (catalog_of r1) ++ map_of (map (\<lambda>e. (eid_of e, e)) (source_edges (registry_source r)))"
      "cat_nodes (catalog_of r2) = cat_nodes (catalog_of r1)"
    using import_edges_run [OF r1(2) _ rows(2) pre, of edge_of "\<lambda>e. edge_row show_v (edge_pair e) (edge_facts e)"] assms(11) rows(4)
    unfolding g by blast
  have edges: "edge_at k r2 = edge_at k r" for k
  proof -
    have "edge_at k r2 = map_of (map (\<lambda>e. (eid_of e, e)) (source_edges (registry_source r))) k"
      using fun_cong [OF r2(2), of k] fun_cong [OF r1(4), of k] empty by (auto simp: map_add_def split: option.splits)
    then have "edge_at k r2 = Some e \<longleftrightarrow> edge_at k r = Some e" for e
      using map_of_rows [OF rows(2), of k e] rows(3) [of e] edge_at_member [OF wf(1), of k e] by auto
    then show ?thesis by (metis not_None_eq)
  qed
  have "find_entry k r2 = find_entry k r" for k using fun_cong [OF r2(3), of k] nodes by simp
  moreover have "import_graph cfg node_of (Some edge_of) (jgf_to_dict g) r0 = (Inr g, r2)"
    using r1(1) r2(1) read by (auto simp: import_graph_def bindS_def import_edges_def)
  ultimately show ?thesis using edges by blast
qed

section \<open>Exporting a snapshot\<close>

lemma snapshot_metadata:
  assumes "foldR (add_snapshot_edge cfg r) es t = Inr t'" "distinct (map eid_of es)"
  shows "map_of (et_metadata t') i = (case map_of (map (\<lambda>e. (eid_of e, edge_migration e)) es) i of
     Some (Some m) \<Rightarrow> Some [(''strategy'', md_strategy m), (''migration_id'', md_identity m)] | _ \<Rightarrow> map_of (et_metadata t) i)"
  using assms
proof (induction es arbitrary: t)
  case (Cons e es)
  then obtain t1 where t1: "add_snapshot_edge cfg r e t = Inr t1" "foldR (add_snapshot_edge cfg r) es t1 = Inr t'"
    by (auto simp: bindR_eq_Inr)
  have fresh: "map_of (map (\<lambda>e. (eid_of e, edge_migration e)) es) (eid_of e) = None"
    using Cons.prems(2) by (force simp: map_of_eq_None_iff)
  show ?case using Cons.IH [OF t1(2)] Cons.prems(2) add_snapshot_edge_Inr [OF t1(1)] fresh
    by (auto simp: update_conv' split: option.splits)
qed simp

lemma snapshot_edge_metadata:
  assumes "reg_wf cfg r" "build_graph ty cfg r expected = Inr g" "e \<in> set (registry_edges r)"
  shows "map_of (edge_metadata (mg_backend g)) (eid_of e)
    = map_option (\<lambda>(s, i). [(''strategy'', s), (''migration_id'', i)]) (edge_facts e)"
proof -
  from assms(2) obtain t nds edgs args where t: "snapshot_edges cfg r = Inr t" "mg_backend g = build_backend nds edgs args"
    "ba_edge_metadata args = et_metadata t"
    by (force simp: build_graph_def bindR_eq_Inr Let_def split: if_splits)
  note d = registry_edges_distinct [OF assms(1)]
  have "map_of (map (\<lambda>e. (eid_of e, edge_migration e)) (registry_edges r)) (eid_of e) = Some (edge_migration e)"
    using d assms(3) by (auto simp: map_of_eq_Some_iff comp_def)
  then show ?thesis
    using snapshot_metadata [OF t(1) [unfolded snapshot_edges_def, folded registry_edges_def] d, of "eid_of e"] t(2,3)
    by (auto simp: build_backend_def Let_def edge_facts_def split: option.splits)
qed

lemma snapshot_edge_row:
  "from_edge_key show_v (edge_key_of e) (map_option (\<lambda>(s, i). [(''strategy'', JStr s), (''migration_id'', JStr i)]) (edge_facts e))
    = edge_row show_v (edge_pair e) (edge_facts e)"
proof -
  have "edge_migration (edge_key_of e) = None" by (cases e) simp_all
  then show ?thesis
    by (cases "nid_namespace (eid_source (eid_of e)) = []"; cases "edge_facts e")
      (auto simp: from_edge_key_def edge_row_def edge_pair_def pair_text_def eid_key_def eid_kind_def eid_namespace_def Let_def)
qed

lemma snapshot_export:
  assumes "reg_reachable cfg r" "build_graph ty cfg r expected = Inr g"
  shows "export_graph hash_alg show_v (snapshot_source g) i
    = Inr (rows_graph hash_alg show_v (if i = [] then reg_namespace r else i) (versions r) (concat (map (\<lambda>k. edges k r) (mg_kinds g))))"
proof -
  have wf: "reg_wf cfg r" using assms(1) by (rule reg_reachable_wf)
  have look: "mg_namespace g = reg_namespace r" "mg_edges k g = map edge_key_of (edges k r)" for k
    using snapshot_lookups [OF assms, of undefined k undefined undefined] by blast+
  have vs: "mg_versions g = versions r" using build_graph_backend [OF wf assms(2)] by (simp add: mg_versions_def versions_def)
  let ?md = "map (\<lambda>(i, md). (i, map (\<lambda>(k, v). (k, JStr v)) md)) (edge_metadata (mg_backend g))"
  have "from_edge_key show_v (edge_key_of e) (map_of ?md (eid_of e)) = edge_row show_v (edge_pair e) (edge_facts e)"
    if "e \<in> set (edges k r)" for e k
  proof -
    have "edge_kind e = k" using edges_bucket [OF wf, of k] that by (simp add: bucket_wf_def)
    then have "e \<in> set (registry_edges r)" using that by (simp add: registry_edges_set [OF wf])
    from snapshot_edge_metadata [OF wf assms(2) this] have "map_of ?md (eid_of e)
        = map_option (\<lambda>(s, i). [(''strategy'', JStr s), (''migration_id'', JStr i)]) (edge_facts e)"
      by (cases "edge_facts e") (auto simp: map_of_map_snd [of "\<lambda>_ md. map (\<lambda>(k, v). (k, JStr v)) md"])
    then show ?thesis by (simp add: snapshot_edge_row)
  qed
  then have "map (\<lambda>e. from_edge_key show_v e (map_of ?md (eid_of e))) (source_edges (snapshot_source g))
      = map (\<lambda>e. edge_row show_v (edge_pair e) (edge_facts e)) (concat (map (\<lambda>k. edges k r) (mg_kinds g)))"
    by (simp add: source_edges_def snapshot_source_def look map_concat comp_def cong: map_cong)
  then show ?thesis
    by (simp add: export_graph_def from_versions_def rows_graph_def version_rows vs look snapshot_source_def)
qed

lemma kind_rows:
  assumes "reg_wf cfg r" "distinct ks" "\<And>k. edges k r \<noteq> [] \<Longrightarrow> k \<in> set ks"
  shows "filter (\<lambda>e. edge_pair e = p) (concat (map (\<lambda>k. edges k r) ks)) = filter (\<lambda>e. edge_pair e = p) (edges (nid_kind (fst p)) r)"
proof -
  let ?k = "nid_kind (fst p)"
  have kind: "e \<in> set (edges j r) \<Longrightarrow> edge_pair e = p \<Longrightarrow> j = ?k" for e j
    using edges_bucket [OF assms(1), of j] by (auto simp: bucket_wf_def edge_kind_def edge_pair_def eid_key_def eid_kind_def)
  have "filter (\<lambda>e. edge_pair e = p) (concat (map (\<lambda>k. edges k r) ks))
      = (if ?k \<in> set ks then filter (\<lambda>e. edge_pair e = p) (edges ?k r) else [])"
    using assms(2)
  proof (induction ks)
    case (Cons j ks)
    have "filter (\<lambda>e. edge_pair e = p) (edges j r) = []" if "j \<noteq> ?k" using kind that by (auto simp: filter_empty_conv)
    then show ?case using Cons by auto
  qed simp
  moreover have "edges ?k r = []" if "?k \<notin> set ks" using assms(3) that by blast
  ultimately show ?thesis by simp
qed

lemma kinds_complete:
  assumes "reg_reachable cfg r" "build_graph ty cfg r expected = Inr g"
  shows "distinct (kinds r)" "edges k r \<noteq> [] \<Longrightarrow> k \<in> set (kinds r)" "distinct (mg_kinds g)" "edges k r \<noteq> [] \<Longrightarrow> k \<in> set (mg_kinds g)"
proof -
  have wf: "reg_wf cfg r" using assms(1) by (rule reg_reachable_wf)
  have "dict_ok (migrations_of_kind r)" using wf by (simp add: reg_wf_def edges_wf_def)
  then show "distinct (kinds r)" by (simp add: kinds_def dict_ok_def)
  show "edges k r \<noteq> [] \<Longrightarrow> k \<in> set (kinds r)"
    using dict_has_iff [of "migrations_of_kind r" k] by (auto simp: kinds_def edges_def dict_get_def dict_has_def split: option.splits)
  show "distinct (mg_kinds g)" by (simp add: mg_kinds_def)
  assume "edges k r \<noteq> []"
  then have "mg_edges k g \<noteq> []" using snapshot_lookups [OF assms, of undefined k undefined undefined] by auto
  then show "k \<in> set (mg_kinds g)"
    using dict_has_iff [of "edges_by_kind (mg_backend g)" k]
    by (auto simp: mg_kinds_def mg_edges_def edges_for_kind_def dict_get_def dict_has_def split: option.splits)
qed

text \<open>
  C27. A snapshot has the manifest of its registry: on every reachable registry of which a snapshot can be built, the
  manifests of both can be made, and comparing them reports no change, although they list the kinds in another order
  and take the strategies of migrations from different places.
\<close>

theorem snapshot_manifest:
  assumes "reg_reachable cfg r" "build_graph ty cfg r expected = Inr g" "texts_unique show_v r r"
  shows "\<exists>a b d. manifest_export hash_alg show_v sp (registry_source r) manager t = Inr a
    \<and> manifest_export hash_alg show_v sp (snapshot_source g) manager' t' = Inr b
    \<and> compare_manifests a b = Inr d \<and> \<not> mdf_changed d"
proof -
  have wf: "reg_wf cfg r" using assms(1) by (rule reg_reachable_wf)
  note kinds = kinds_complete [OF assms(1,2)]
  let ?es = "source_edges (registry_source r)" and ?es' = "concat (map (\<lambda>k. edges k r) (mg_kinds g))"
  have src: "?es = concat (map (\<lambda>k. edges k r) (kinds r))" by (simp add: source_edges_def registry_source_def)
  have same: "filter (\<lambda>e. edge_pair e = p) ?es = filter (\<lambda>e. edge_pair e = p) ?es'" for p
    unfolding src using kind_rows [OF wf kinds(1,2)] kind_rows [OF wf kinds(3,4)] by simp
  have mem: "p \<in> edge_pair ` set es \<longleftrightarrow> filter (\<lambda>e. edge_pair e = p) es \<noteq> []" for p and es :: "'a edge list" by (auto simp: filter_empty_conv)
  have sets: "edge_pair ` set ?es' = edge_pair ` set ?es" by (rule set_eqI) (simp only: mem same)
  obtain a where a: "manifest_export hash_alg show_v sp (registry_source r) manager t = Inr a"
    using manifest_export_ok [OF registry_export, of hash_alg show_v sp r manager t] unfolding okR_iff by blast
  obtain b where b: "manifest_export hash_alg show_v sp (snapshot_source g) manager' t' = Inr b"
    using manifest_export_ok [OF snapshot_export [OF assms(1,2)], of hash_alg show_v sp manager' t'] unfolding okR_iff by blast
  let ?F = "\<lambda>es. map_of (dict_of (map (\<lambda>e. (edge_pair e, edge_facts e)) es))"
  have F: "?F ?es = ?F ?es'" using sets by (simp add: fun_eq_iff map_of_dict_of map_of_rev_rows same)
  have inj: "inj_on (pair_text show_v) (edge_pair ` (set ?es \<union> set ?es'))"
    using assms(3) sets by (simp add: texts_unique_def image_Un)
  note pairs = table_changes [OF inj, of "\<lambda>e. jgf_edge_to_dict (edge_row show_v (edge_pair e) (edge_facts e))" edge_facts]
  let ?T = "\<lambda>es. dict_of (map (\<lambda>e. (pair_text show_v (edge_pair e), jgf_edge_to_dict (edge_row show_v (edge_pair e) (edge_facts e)))) es)"
  have "\<not> cs_changed (changes_between (?T ?es) (?T ?es'))"
    unfolding cs_changed_def set_empty [symmetric] using pairs F by (simp add: edge_row_eq)
  moreover have "\<not> cs_changed (changes_between l l)" for l by (auto simp: cs_changed_def changes_between_def filter_empty_conv split: option.splits)
  ultimately show ?thesis
    using a b compare_graph_docs [OF manifest_of_registry [OF a] manifest_of_rows [OF b snapshot_export [OF assms(1,2)]]]
    by (simp add: mdf_changed_def comp_def)
qed

section \<open>A concrete manifest\<close>

definition sample_spec :: manifest_spec where
  "sample_spec = \<lparr>sp_graph_id = ''g'', sp_label = ''l'', sp_manifest_version = ''1.0'', sp_tool_version = ''0''\<rparr>"

definition sample_graph :: jgf_graph where
  "sample_graph = rows_graph id show_nat ''g'' [sample_model 1, sample_model 2] [sample_migration]"

lemma sample_nodes: "by_versions sample_migrated = [sample_model 1, sample_model 2]"
  by code_simp

lemma sample_edges: "edges ''K'' sample_migrated = [sample_migration]"
  by code_simp

lemma sample_kinds: "kinds sample_migrated = [''K'']"
  by code_simp

lemma sample_lists:
  "versions sample_migrated = [sample_model 1, sample_model 2]" "source_edges (registry_source sample_migrated) = [sample_migration]"
  "versions sample_empty = []" "source_edges (registry_source sample_empty) = []"
proof -
  show "versions sample_migrated = [sample_model 1, sample_model 2]" by (simp add: versions_def sample_nodes) (simp add: sample_model_def)
  show "source_edges (registry_source sample_migrated) = [sample_migration]"
    by (simp add: source_edges_def registry_source_def sample_edges sample_kinds)
qed (simp_all add: versions_def source_edges_def registry_source_def kinds_def sample_empty_def)

lemma sample_node_str: "node_str show_nat (NodeId ''a'' ''K'' 1) = ''a:K@1''" "node_str show_nat (NodeId ''a'' ''K'' 2) = ''a:K@2''"
  by code_simp+

lemma sample_node_texts: "inj_on (node_str show_nat) (node_id_of ` {sample_model 1, sample_model 2})"
proof -
  have "node_str show_nat (NodeId ''a'' ''K'' 1) \<noteq> node_str show_nat (NodeId ''a'' ''K'' 2)" unfolding sample_node_str by simp
  then show ?thesis unfolding sample_model_def by (simp add: inj_on_def)
qed

lemma sample_texts: "texts_unique show_nat sample_migrated sample_migrated" "texts_unique show_nat sample_migrated sample_empty"
  unfolding texts_unique_def sample_lists list.set Un_absorb Un_empty_right image_insert image_empty
  using sample_node_texts [unfolded image_insert image_empty] by (simp_all only: inj_on_insert inj_on_empty) simp_all

theorem jgf_roundtrip_witness: "jgf_from_dict (jgf_to_dict sample_graph) = Inr sample_graph"
proof -
  have "distinct (map jn_id (jg_nodes sample_graph))" by code_simp
  then show ?thesis by (rule jgf_roundtrip)
qed

lemma sample_manifest: "\<exists>a. manifest_export id show_nat sample_spec (registry_source r) ''m'' None = Inr a"
  using manifest_export_ok [OF registry_export, of id show_nat sample_spec r "''m''" None] unfolding okR_iff by blast

lemma sample_facts: "dom (version_facts show_nat sample_migrated) = {NodeId ''a'' ''K'' 1, NodeId ''a'' ''K'' 2}"
  "dom (version_facts show_nat sample_empty) = {}"
  by (simp_all add: version_facts_def sample_lists dom_map_of_conv_image_fst fst_dict_of sample_model_def)

theorem manifest_comparison_witness:
  "\<exists>a b d. manifest_export id show_nat sample_spec (registry_source sample_migrated) ''m'' None = Inr a
    \<and> manifest_export id show_nat sample_spec (registry_source sample_empty) ''m'' None = Inr b
    \<and> compare_manifests a b = Inr d \<and> set (cs_removed (mdf_nodes d)) = {''a:K@1'', ''a:K@2''} \<and> cs_added (mdf_nodes d) = []"
proof -
  obtain a b where ab: "manifest_export id show_nat sample_spec (registry_source sample_migrated) ''m'' None = Inr a"
    "manifest_export id show_nat sample_spec (registry_source sample_empty) ''m'' None = Inr b"
    using sample_manifest by metis
  obtain d where d: "compare_manifests a b = Inr d"
      "set (cs_added (mdf_nodes d)) = node_str show_nat ` (dom (version_facts show_nat sample_empty) - dom (version_facts show_nat sample_migrated))"
      "set (cs_removed (mdf_nodes d)) = node_str show_nat ` (dom (version_facts show_nat sample_migrated) - dom (version_facts show_nat sample_empty))"
    using manifest_comparison [OF sample_texts(2) ab] by (elim exE conjE) (rule that)
  have "set (cs_removed (mdf_nodes d)) = {''a:K@1'', ''a:K@2''}" "cs_added (mdf_nodes d) = []"
    using d(2,3) unfolding sample_facts by (simp_all only: Diff_empty image_insert image_empty sample_node_str empty_Diff set_empty)
  then show ?thesis using ab d(1) by blast
qed

text \<open>Two versions that were added since the baseline are reported as removed.\<close>

theorem manifest_baseline_witness:
  "\<exists>base doc d. manifest_export id show_nat sample_spec (registry_source sample_empty) ''m'' None = Inr base
    \<and> manifest_command id show_nat sample_spec sample_migrated ''m'' (Some base) =
        Inr (doc, 1, ''Manifest divergence detected'' # map (\<lambda>issue. ''  - '' @ issue) (mdf_summary d))
    \<and> set (cs_removed (mdf_nodes d)) = {''a:K@1'', ''a:K@2''} \<and> cs_added (mdf_nodes d) = []"
proof -
  obtain base where base: "manifest_export id show_nat sample_spec (registry_source sample_empty) ''m'' None = Inr base"
    using sample_manifest by metis
  have "version_facts show_nat sample_migrated \<noteq> version_facts show_nat sample_empty"
  proof
    assume "version_facts show_nat sample_migrated = version_facts show_nat sample_empty"
    then have "dom (version_facts show_nat sample_migrated) = dom (version_facts show_nat sample_empty)" by simp
    then show False unfolding sample_facts by simp
  qed
  then have ne: "\<not> (version_facts show_nat sample_migrated = version_facts show_nat sample_empty \<and> migration_facts sample_migrated = migration_facts sample_empty)"
    by blast
  obtain doc d where d: "manifest_command id show_nat sample_spec sample_migrated ''m'' (Some base) =
        Inr (doc, 1, ''Manifest divergence detected'' # map (\<lambda>issue. ''  - '' @ issue) (mdf_summary d))"
      "set (cs_added (mdf_nodes d)) = node_str show_nat ` (dom (version_facts show_nat sample_empty) - dom (version_facts show_nat sample_migrated))"
      "set (cs_removed (mdf_nodes d)) = node_str show_nat ` (dom (version_facts show_nat sample_migrated) - dom (version_facts show_nat sample_empty))"
    using manifest_baseline [OF sample_texts(2) base, of "''m''"] unfolding if_not_P [OF ne] by (elim exE conjE) (rule that)
  have "set (cs_removed (mdf_nodes d)) = {''a:K@1'', ''a:K@2''}" "cs_added (mdf_nodes d) = []"
    using d(2,3) unfolding sample_facts by (simp_all only: Diff_empty image_insert image_empty sample_node_str empty_Diff set_empty)
  then show ?thesis using base d(1) by blast
qed

theorem snapshot_manifest_witness:
  "\<exists>a b d. manifest_export id show_nat sample_spec (registry_source sample_migrated) ''m'' None = Inr a
    \<and> manifest_export id show_nat sample_spec (snapshot_source sample_snapshot) ''m'' None = Inr b
    \<and> compare_manifests a b = Inr d \<and> \<not> mdf_changed d"
  by (rule snapshot_manifest [OF sample_migrated_reachable sample_snapshot sample_texts(1)])

definition sample_node_of :: "jgf_node \<Rightarrow> nat node res" where
  "sample_node_of n = (if map_of (jn_metadata n) ''version'' = Some (JStr ''1'') then Inr (sample_model 1) else Inr (sample_model 2))"

theorem import_export_witness:
  "\<exists>g r'. export_graph id show_nat (registry_source sample_migrated) ''g'' = Inr g
    \<and> import_graph sample_cfg sample_node_of (Some (\<lambda>_. Inr sample_migration)) (jgf_to_dict g) sample_empty = (Inr g, r')
    \<and> (\<forall>k. find_entry k r' = find_entry k sample_migrated) \<and> (\<forall>k. edge_at k r' = edge_at k sample_migrated)"
proof -
  let ?g = "rows_graph id show_nat ''g'' (versions sample_migrated) (source_edges (registry_source sample_migrated))"
  have g: "export_graph id show_nat (registry_source sample_migrated) ''g'' = Inr ?g" by (simp add: registry_export)
  have n: "\<forall>n \<in> set (versions sample_migrated). sample_node_of (version_row id show_nat (node_id_of n) (the (descriptor n))) = Inr n"
    unfolding sample_lists by code_simp
  have x: "\<forall>e \<in> set (source_edges (registry_source sample_migrated)). is_executable e \<longrightarrow>
      {eid_source (eid_of e), eid_target (eid_of e)} \<subseteq> node_id_of ` set (versions sample_migrated)"
    by (simp add: sample_lists) (simp add: sample_migration_def)
  have "\<exists>r'. import_graph sample_cfg sample_node_of (Some (\<lambda>_. Inr sample_migration)) (jgf_to_dict ?g) sample_empty = (Inr ?g, r')
    \<and> (\<forall>k. find_entry k r' = find_entry k sample_migrated) \<and> (\<forall>k. edge_at k r' = edge_at k sample_migrated)"
    by (rule import_export [OF sample_migrated_reachable sample_empty_reachable _ _ _ _ _ x g n])
      (simp_all add: sample_empty_def sample_lists sample_nodes sample_node_texts [simplified])
  then show ?thesis using g by blast
qed

end
