(* ===== verification/Commands.thy ===== *)
theory Commands
  imports Decorators Manifests
begin

text \<open>
  What the commands of \<open>cli/commands\<close> decide once a manager is resolved: \<open>check\<close>, \<open>validate\<close>, \<open>doctor\<close> and \<open>compat\<close> with
  their reports and exit codes. Reading arguments and files and printing are left out; a file is its name with what
  reading it gives.
\<close>

section \<open>Validation\<close>

text \<open>\<open>check\<close> exits with 1 for every exception, also of reading the file.\<close>

definition check_command :: "(json \<Rightarrow> unit res) \<Rightarrow> json res \<Rightarrow> nat" where
  "check_command validate loaded = (case bindR loaded validate of Inr _ \<Rightarrow> 0 | Inl _ \<Rightarrow> 1)"

record file_result =
  fr_path :: string
  fr_error :: "error option"

definition validate_file :: "(json \<Rightarrow> unit res) \<Rightarrow> string \<times> json res \<Rightarrow> file_result" where
  "validate_file validate file = \<lparr>fr_path = fst file,
     fr_error = (case bindR (snd file) validate of Inr _ \<Rightarrow> None | Inl e \<Rightarrow> Some e)\<rparr>"

fun validate_files :: "bool \<Rightarrow> (json \<Rightarrow> unit res) \<Rightarrow> (string \<times> json res) list \<Rightarrow> file_result list" where
  "validate_files fail_fast validate [] = []"
| "validate_files fail_fast validate (f # fs) =
     (let res = validate_file validate f in
      if fr_error res \<noteq> None \<and> fail_fast then [res] else res # validate_files fail_fast validate fs)"

text \<open>Standard input is validated after the files, also when a file has failed.\<close>

definition validate_command :: "bool \<Rightarrow> (json \<Rightarrow> unit res) \<Rightarrow> (string \<times> json res) list \<Rightarrow> json res option \<Rightarrow> file_result list \<times> nat" where
  "validate_command fail_fast validate files stdin =
     (if files = [] \<and> stdin = None then ([], 2)
      else let results = validate_files fail_fast validate files
             @ (case stdin of None \<Rightarrow> [] | Some loaded \<Rightarrow> [validate_file validate (''<stdin>'', loaded)])
        in (results, if list_all (\<lambda>x. fr_error x = None) results then 0 else 1))"

section \<open>Health\<close>

record doctor_report =
  dr_status :: string
  dr_kinds :: nat
  dr_versions :: nat
  dr_issues :: "string list"

definition doctor_command :: "('v, 'b) reg_config \<Rightarrow> ('v health_issue \<Rightarrow> string) \<Rightarrow> 'v registry \<Rightarrow> doctor_report \<times> nat" where
  "doctor_command cfg message r =
     (let issues = health_issues cfg r; status = (if issues = [] then ''ok'' else ''error'') in
      (\<lparr>dr_status = status, dr_kinds = length (entities r), dr_versions = length (versions r), dr_issues = map message issues\<rparr>,
       if status = ''ok'' then 0 else 1))"

section \<open>Compatibility\<close>

definition diff_of_edge :: "'v edge \<Rightarrow> 'v diff res" where
  "diff_of_edge e = (case edge_diff e of Some d \<Rightarrow> Inr d | None \<Rightarrow> Inl AttributeError)"

text \<open>A key is built from the texts of the versions, with the default discriminator.\<close>

definition compat_key :: "('v \<Rightarrow> string) \<Rightarrow> string \<Rightarrow> 'v edge \<Rightarrow> ('v, 'm) migration_key" where
  "compat_key show_v k e = ManagerMigrationKey k (StrArg (show_v (nid_version (eid_source (eid_of e)))))
     (StrArg (show_v (nid_version (eid_target (eid_of e))))) default_discriminator"

definition compat_keys :: "('v \<Rightarrow> string) \<Rightarrow> 'v registry \<Rightarrow> ('v, 'm) migration_key list" where
  "compat_keys show_v r = concat (map (\<lambda>k. map (compat_key show_v k) (migrations k r)) (kinds r))"

text \<open>The reports and the exit code; \<open>--schema\<close> needs both versions.\<close>

definition compat_command :: "('v::linorder, 'm, 'b) engine \<Rightarrow> ('v \<Rightarrow> string) \<Rightarrow> string list \<Rightarrow> string option \<Rightarrow> string option \<Rightarrow> string option
    \<Rightarrow> bool \<Rightarrow> nat \<Rightarrow> ('v, 'w) manager_state \<Rightarrow> (compatibility_report list \<times> nat) res" where
  "compat_command eg show_v identity_fields schema v_from v_to fail_on_breaking j st =
     (if schema \<noteq> None \<and> (v_from = None \<or> v_to = None) then Inr ([], 2)
      else let keys = (case schema of
          Some k \<Rightarrow> [ManagerMigrationKey k (StrArg (the v_from)) (StrArg (the v_to)) default_discriminator]
        | None \<Rightarrow> compat_keys show_v (ms_registries st ! j)) in
      bindR (mapR (\<lambda>key. bindR (manager_get_migration eg j key st) (\<lambda>e. bindR (diff_of_edge e) (\<lambda>d.
        Inr (report_from_diff show_v identity_fields d)))) keys) (\<lambda>reports.
      Inr (reports, if list_ex cr_breaking reports \<and> fail_on_breaking then 3 else 0)))"

section \<open>Exit codes\<close>

lemma validate_files_valid: "list_all (\<lambda>x. fr_error x = None) (validate_files fail_fast validate fs)
    \<longleftrightarrow> (\<forall>f \<in> set fs. \<exists>x. snd f = Inr x \<and> okR (validate x))"
proof (induction fs)
  case (Cons f fs)
  have "fr_error (validate_file validate f) = None \<longleftrightarrow> (\<exists>x. snd f = Inr x \<and> okR (validate x))"
    by (cases "snd f") (auto simp: validate_file_def okR_iff split: sum.splits)
  then show ?case using Cons by (auto simp: Let_def)
qed simp

text \<open>
  Validation ends with 0 exactly when there is an input and every input is read and valid, with 2 when there is
  none and with 1 otherwise; stopping at the first failure changes the report but not the exit code.
\<close>

theorem validate_exit:
  "snd (validate_command fail_fast validate files stdin) =
     (if files = [] \<and> stdin = None then 2
      else if (\<forall>f \<in> set files. \<exists>x. snd f = Inr x \<and> okR (validate x)) \<and> (\<forall>v. stdin = Some v \<longrightarrow> (\<exists>x. v = Inr x \<and> okR (validate x)))
      then 0 else 1)"
proof -
  have "fr_error (validate_file validate (p, v)) = None \<longleftrightarrow> (\<exists>x. v = Inr x \<and> okR (validate x))" for p v
    by (cases v) (auto simp: validate_file_def okR_iff split: sum.splits)
  then show ?thesis by (cases stdin) (simp_all add: validate_command_def Let_def validate_files_valid)
qed

text \<open>
  The doctor finds a registry healthy of which a migration between adjacent versions is missing, because it reads the
  incremental health index, which does not see it; after a rebuild of the index it reports the issue.
\<close>

theorem doctor_misses_migration:
  "snd (doctor_command sample_cfg hi_code sample_two) = 0
   \<and> dr_issues (fst (doctor_command sample_cfg hi_code (rebuild_health sample_cfg sample_two))) = [''migration.missing'']"
proof -
  have "health_issues sample_cfg sample_two = []" by code_simp
  moreover have "map hi_code (health_issues sample_cfg (rebuild_health sample_cfg sample_two)) = [''migration.missing'']" by code_simp
  ultimately show ?thesis by (simp add: doctor_command_def Let_def)
qed

section \<open>Compatibility of all migrations\<close>

text \<open>The identity of the default migration between the versions of an edge.\<close>

definition default_id :: "'v edge \<Rightarrow> 'v edge_id" where
  "default_id e = EdgeId (eid_source (eid_of e)) (eid_target (eid_of e)) default_discriminator"

text \<open>The adapter reads the text of a version back: it gives an entry with the identity of the version.\<close>

definition reads_versions :: "('v, 'm, 'b) engine \<Rightarrow> ('v \<Rightarrow> string) \<Rightarrow> 'v registry \<Rightarrow> bool" where
  "reads_versions eg show_v r \<longleftrightarrow> (\<forall>k \<in> set (kinds r). \<forall>e \<in> set (migrations k r). \<forall>i \<in> {eid_source (eid_of e), eid_target (eid_of e)}.
     \<exists>n. ea_version_key (eg_adapter eg) k (StrArg (show_v (nid_version i))) = Inr n \<and> node_id_of n = i)"

lemma get_migration_lookup:
  "edge_ok i \<Longrightarrow> get_migration i r = (case edge_at i r of Some e \<Rightarrow> if is_executable e then Inr e else Inl MigrationNotFoundError
     | None \<Rightarrow> Inl MigrationNotFoundError)"
  using mk_edge_id_ok [of "eid_source i" "eid_target i" "eid_discriminator i" i]
  by (simp add: get_migration_def find_edge_def eid_key_def edge_at_def split: option.split)

lemma compat_lookup:
  assumes "reg_wf cfg (ms_registries st ! j)" "reads_versions eg show_v (ms_registries st ! j)"
    "k \<in> set (kinds (ms_registries st ! j))" "e \<in> set (migrations k (ms_registries st ! j))"
  shows "manager_get_migration eg j (compat_key show_v k e) st = get_migration (default_id e) (ms_registries st ! j)" "edge_ok (default_id e)"
proof -
  have "e \<in> set (edges k (ms_registries st ! j))" using assms(4) by (simp add: migrations_def edges_def)
  then have ok: "edge_ok (eid_of e)" using edges_bucket [OF assms(1), of k] by (simp add: bucket_wf_def)
  then show d: "edge_ok (default_id e)" by (simp add: edge_ok_def default_id_def default_discriminator_def)
  obtain a b where "ea_version_key (eg_adapter eg) k (StrArg (show_v (nid_version (eid_source (eid_of e))))) = Inr a" "node_id_of a = eid_source (eid_of e)"
    "ea_version_key (eg_adapter eg) k (StrArg (show_v (nid_version (eid_target (eid_of e))))) = Inr b" "node_id_of b = eid_target (eid_of e)"
    using assms(2-4) unfolding reads_versions_def by blast
  then show "manager_get_migration eg j (compat_key show_v k e) st = get_migration (default_id e) (ms_registries st ! j)"
    using mk_edge_id_ok [of "eid_source (eid_of e)" "eid_target (eid_of e)" default_discriminator "default_id e"] d
    by (simp add: manager_get_migration_def compat_key_def key_edge_def pair_entries_def edge_key_from_pair_def eid_of_def default_id_def)
qed

definition all_migrations :: "'v registry \<Rightarrow> 'v edge list" where
  "all_migrations r = concat (map (\<lambda>k. migrations k r) (kinds r))"

lemma compat_reports:
  assumes "reg_wf cfg (ms_registries st ! j)" "reads_versions eg show_v (ms_registries st ! j)"
  shows "mapR (\<lambda>key. bindR (manager_get_migration eg j key st) h) (compat_keys show_v (ms_registries st ! j))
    = mapR (\<lambda>e. bindR (get_migration (default_id e) (ms_registries st ! j)) h) (all_migrations (ms_registries st ! j))"
proof -
  let ?r = "ms_registries st ! j"
  have app: "mapR f (xs @ ys) = bindR (mapR f xs) (\<lambda>us. bindR (mapR f ys) (\<lambda>vs. Inr (us @ vs)))" for f :: "'x \<Rightarrow> 'y res" and xs ys
    by (induction xs) (auto simp: bindR_def split: sum.splits)
  have comp: "mapR f (map g xs) = mapR (\<lambda>x. f (g x)) xs" for f :: "'x \<Rightarrow> 'y res" and g :: "'z \<Rightarrow> 'x" and xs by (induction xs) simp_all
  have "mapR (\<lambda>key. bindR (manager_get_migration eg j key st) h) (concat (map (\<lambda>k. map (compat_key show_v k) (migrations k ?r)) ks))
    = mapR (\<lambda>e. bindR (get_migration (default_id e) ?r) h) (concat (map (\<lambda>k. migrations k ?r) ks))" if "set ks \<subseteq> set (kinds ?r)" for ks
    using that
  proof (induction ks)
    case (Cons k ks)
    have "mapR (\<lambda>e. bindR (manager_get_migration eg j (compat_key show_v k e) st) h) (migrations k ?r)
        = mapR (\<lambda>e. bindR (get_migration (default_id e) ?r) h) (migrations k ?r)"
      using compat_lookup(1) [OF assms, of k] Cons.prems by (intro mapR_cong) simp_all
    then show ?case using Cons by (simp add: app comp)
  qed simp
  from this [of "kinds ?r"] show ?thesis by (simp add: compat_keys_def all_migrations_def)
qed

lemma migration_member:
  fixes st :: "('v::linorder, 'w) manager_state"
  assumes wf: "reg_wf cfg (ms_registries st ! j)" and reads: "reads_versions eg show_v (ms_registries st ! j)"
  shows "e \<in> set (all_migrations (ms_registries st ! j)) \<Longrightarrow> edge_at (eid_of e) (ms_registries st ! j) = Some e \<and> is_executable e
      \<and> edge_ok (default_id e) \<and> (\<exists>d. diff_of_edge e = Inr d)"
    and "edge_at i (ms_registries st ! j) = Some e \<Longrightarrow> is_executable e \<Longrightarrow> e \<in> set (all_migrations (ms_registries st ! j))"
proof -
  let ?r = "ms_registries st ! j"
  assume a: "e \<in> set (all_migrations ?r)"
  obtain k where k: "k \<in> set (kinds ?r)" "e \<in> set (migrations k ?r)" using a by (auto simp: all_migrations_def)
  have e: "e \<in> set (edges k ?r)" "is_executable e" using k(2) by (simp_all add: migrations_def edges_def)
  have "edge_kind e = k" using edges_bucket [OF wf, of k] e(1) by (simp add: bucket_wf_def)
  then have "edge_at (eid_of e) ?r = Some e" using e(1) edge_at_member [OF wf, of "eid_of e" e] by (simp add: edges_def)
  moreover have "\<exists>d. diff_of_edge e = Inr d" using e(2) by (cases e) (simp_all add: diff_of_edge_def)
  ultimately show "edge_at (eid_of e) ?r = Some e \<and> is_executable e \<and> edge_ok (default_id e) \<and> (\<exists>d. diff_of_edge e = Inr d)"
    using e(2) compat_lookup(2) [OF wf reads k] by blast
next
  let ?r = "ms_registries st ! j"
  assume "edge_at i ?r = Some e" "is_executable e"
  then have e: "e \<in> set (migrations (edge_kind e) ?r)" using edge_at_member [OF wf, of i e] by (simp add: migrations_def)
  then have "edge_kind e \<in> set (kinds ?r)"
    using dict_has_iff [of "migrations_of_kind ?r" "edge_kind e"]
    by (auto simp: kinds_def migrations_def dict_get_def dict_has_def split: option.splits)
  then show "e \<in> set (all_migrations ?r)" using e by (auto simp: all_migrations_def)
qed

text \<open>
  Without a schema the command looks at the default migration between every two versions with a migration. When
  all migrations are default ones it reports on each of them and ends with 3 exactly when it is asked to fail and one of
  them is breaking. A migration under another discriminator without a default one beside it makes the command fail.
\<close>

theorem compat_exit:
  assumes "reg_reachable cfg (ms_registries st ! j)" "reads_versions eg show_v (ms_registries st ! j)"
  shows "((\<forall>e \<in> set (all_migrations (ms_registries st ! j)). eid_discriminator (eid_of e) = default_discriminator) \<longrightarrow>
      (\<exists>ds. list_all2 (\<lambda>e d. diff_of_edge e = Inr d) (all_migrations (ms_registries st ! j)) ds
        \<and> compat_command eg show_v ids None v_from v_to fail_on_breaking j st = Inr (map (report_from_diff show_v ids) ds,
            if fail_on_breaking \<and> (\<exists>d \<in> set ds. cr_breaking (report_from_diff show_v ids d)) then 3 else 0)))
    \<and> ((\<exists>e \<in> set (all_migrations (ms_registries st ! j)). default_id e \<notin> eid_of ` set (all_migrations (ms_registries st ! j))) \<longrightarrow>
      compat_command eg show_v ids None v_from v_to fail_on_breaking j st = Inl MigrationNotFoundError)"
proof -
  let ?r = "ms_registries st ! j" and ?h = "\<lambda>e. bindR (diff_of_edge e) (\<lambda>d. Inr (report_from_diff show_v ids d))"
  have wf: "reg_wf cfg ?r" using assms(1) by (rule reg_reachable_wf)
  have cmd: "compat_command eg show_v ids None v_from v_to fail_on_breaking j st =
      bindR (mapR (\<lambda>e. bindR (get_migration (default_id e) ?r) ?h) (all_migrations ?r)) (\<lambda>reports.
        Inr (reports, if list_ex cr_breaking reports \<and> fail_on_breaking then 3 else 0))"
    by (simp add: compat_command_def Let_def compat_reports [OF wf assms(2)])
  note mem = migration_member(1) [OF wf assms(2)] and all = migration_member(2) [OF wf assms(2)]
  show ?thesis
  proof (intro conjI impI)
    assume "\<forall>e \<in> set (all_migrations ?r). eid_discriminator (eid_of e) = default_discriminator"
    then have "default_id e = eid_of e" if "e \<in> set (all_migrations ?r)" for e
      using that by (simp add: default_id_def edge_id.expand)
    then have "get_migration (default_id e) ?r = Inr e" if "e \<in> set (all_migrations ?r)" for e
      using mem [OF that] that by (simp add: get_migration_lookup)
    then have "mapR (\<lambda>e. bindR (get_migration (default_id e) ?r) ?h) (all_migrations ?r)
        = Inr (map (\<lambda>e. report_from_diff show_v ids (projr (diff_of_edge e))) (all_migrations ?r))"
      by (intro mapR_Inr_map) (use mem in force)
    moreover have "list_all2 (\<lambda>e d. diff_of_edge e = Inr d) (all_migrations ?r) (map (\<lambda>e. projr (diff_of_edge e)) (all_migrations ?r))"
      unfolding list_all2_map2 by (rule list.rel_refl_strong) (use mem in force)
    ultimately show "\<exists>ds. list_all2 (\<lambda>e d. diff_of_edge e = Inr d) (all_migrations ?r) ds
        \<and> compat_command eg show_v ids None v_from v_to fail_on_breaking j st = Inr (map (report_from_diff show_v ids) ds,
            if fail_on_breaking \<and> (\<exists>d \<in> set ds. cr_breaking (report_from_diff show_v ids d)) then 3 else 0)"
      by (intro exI [of _ "map (\<lambda>e. projr (diff_of_edge e)) (all_migrations ?r)"]) (auto simp: cmd comp_def list_ex_iff)
  next
    assume "\<exists>e \<in> set (all_migrations ?r). default_id e \<notin> eid_of ` set (all_migrations ?r)"
    then obtain e where e: "e \<in> set (all_migrations ?r)" "default_id e \<notin> eid_of ` set (all_migrations ?r)" by blast
    have "\<not> is_executable y" if "edge_at (default_id e) ?r = Some y" for y
      using all [OF that] edge_at_member [OF wf, of "default_id e" y] that e(2) by (metis image_eqI)
    then have "get_migration (default_id e) ?r = Inl MigrationNotFoundError"
      using mem [OF e(1)] by (auto simp: get_migration_lookup split: option.split)
    then have "\<not> okR (mapR (\<lambda>e. bindR (get_migration (default_id e) ?r) ?h) (all_migrations ?r))" using e(1) by (force simp: mapR_okR)
    then obtain err where err: "mapR (\<lambda>e. bindR (get_migration (default_id e) ?r) ?h) (all_migrations ?r) = Inl err"
      by (cases "mapR (\<lambda>e. bindR (get_migration (default_id e) ?r) ?h) (all_migrations ?r)") auto
    from mapR_error [OF this] obtain x where x: "x \<in> set (all_migrations ?r)" "bindR (get_migration (default_id x) ?r) ?h = Inl err" by blast
    have "err = MigrationNotFoundError"
    proof (cases "get_migration (default_id x) ?r")
      case (Inl e')
      then show ?thesis using x mem [OF x(1)] by (auto simp: get_migration_lookup split: option.splits if_splits)
    next
      case (Inr y)
      then have "y \<in> set (all_migrations ?r)" using mem [OF x(1)] all by (auto simp: get_migration_lookup split: option.splits if_splits)
      then show ?thesis using Inr x(2) mem [of y] by auto
    qed
    then show "compat_command eg show_v ids None v_from v_to fail_on_breaking j st = Inl MigrationNotFoundError" by (simp add: cmd err)
  qed
qed

end
