(* ===== verification/Convergence.thy ===== *)
theory Convergence
  imports Runner Patch_Operations
begin

text \<open>
  The runtime that framework adapters share (\<open>adapters/runtime.py\<close>) and the transports that let an HTTP client
  converge what it sends and receives (\<open>adapters/httpx\<close>). Runners are compared by identity, so a runtime holds the
  name of its runner, and a table gives the runners. A request or response body is represented by the JSON document
  that it holds, if it holds one, so encoding a payload gives the body of that document. The headers that \<open>httpx\<close>
  itself derives from a body are left out; how it looks up a header is a parameter.
\<close>

section \<open>The convergence runtime\<close>

record ('r, 'q) convergence =
  cv_runner :: "'r option"
  cv_context :: "pyval bindings option"
  cv_run_id :: "string option"
  cv_context_factory :: "('q \<Rightarrow> pyval bindings option res) option"
  cv_validate_target :: bool
  cv_health_fail_level :: fail_level

definition cv_bound :: "('r, 'q) convergence \<Rightarrow> 'r res" where
  "cv_bound cv = (case cv_runner cv of None \<Rightarrow> Inl RuntimeError | Some r \<Rightarrow> Inr r)"

definition cv_bind :: "'r \<Rightarrow> (('r, 'q) convergence, unit) op" where
  "cv_bind r cv = (if cv_runner cv \<noteq> None \<and> cv_runner cv \<noteq> Some r then (Inl RuntimeError, cv)
     else (Inr (), cv\<lparr>cv_runner := Some r\<rparr>))"

definition validate_health :: "('v, 'b) reg_config \<Rightarrow> 'v registry \<Rightarrow> ('r, 'q) convergence \<Rightarrow> unit res" where
  "validate_health cfg reg cv = bindR (health cfg None (Some (cv_health_fail_level cv)) reg) (\<lambda>_. Inr ())"

definition context_for :: "('r, 'q) convergence \<Rightarrow> 'q option \<Rightarrow> pyval bindings option res" where
  "context_for cv source = (case (cv_context_factory cv, source) of
     (Some factory, Some q) \<Rightarrow> factory q | _ \<Rightarrow> Inr (cv_context cv))"

text \<open>A run uses the settings of the runtime for what the caller leaves open.\<close>

definition converge_run :: "('r \<Rightarrow> ('v::linorder, 'm, 'w) runner) \<Rightarrow> ('r, 'q) convergence \<Rightarrow> json \<Rightarrow> ('v, 'm) target_policy \<Rightarrow> 'm option \<Rightarrow> int
    \<Rightarrow> pyval bindings option \<Rightarrow> string option \<Rightarrow> bool option \<Rightarrow> (('v, 'm) coordinator_state \<times> 'w world, ('w world, json) maybe_async) op" where
  "converge_run runners cv payload target source_model max_depth context run_id validate =
     bindS (liftS (cv_bound cv)) (\<lambda>r. runner_run (runners r) payload target source_model max_depth
       (case context of None \<Rightarrow> cv_context cv | Some c \<Rightarrow> Some c)
       (case run_id of None \<Rightarrow> cv_run_id cv | Some i \<Rightarrow> Some i)
       (case validate of None \<Rightarrow> cv_validate_target cv | Some b \<Rightarrow> b))"

definition converge_sync :: "('r \<Rightarrow> ('v::linorder, 'm, 'w) runner) \<Rightarrow> ('r, 'q) convergence \<Rightarrow> json \<Rightarrow> ('v, 'm) target_policy \<Rightarrow> 'm option \<Rightarrow> int
    \<Rightarrow> pyval bindings option \<Rightarrow> string option \<Rightarrow> bool option \<Rightarrow> (('v, 'm) coordinator_state \<times> 'w world, json) op" where
  "converge_sync runners cv payload target source_model max_depth context run_id validate =
     bindS (converge_run runners cv payload target source_model max_depth context run_id validate) (\<lambda>migrated.
       case migrated of Later _ \<Rightarrow> raiseS RuntimeError | Now v \<Rightarrow> returnS v)"

definition converge :: "('r \<Rightarrow> ('v::linorder, 'm, 'w) runner) \<Rightarrow> ('r, 'q) convergence \<Rightarrow> json \<Rightarrow> ('v, 'm) target_policy \<Rightarrow> 'm option \<Rightarrow> int
    \<Rightarrow> pyval bindings option \<Rightarrow> string option \<Rightarrow> bool option \<Rightarrow> (('v, 'm) coordinator_state \<times> 'w world, json) op" where
  "converge runners cv payload target source_model max_depth context run_id validate =
     bindS (converge_run runners cv payload target source_model max_depth context run_id validate) (\<lambda>migrated.
       case migrated of Later k \<Rightarrow> executing k | Now v \<Rightarrow> returnS v)"

text \<open>What converging a payload takes: \<open>converge\<close> or \<open>converge_sync\<close> of a runtime.\<close>

type_synonym ('v, 'm, 'w) converger = "json \<Rightarrow> ('v, 'm) target_policy \<Rightarrow> 'm option \<Rightarrow> int \<Rightarrow> pyval bindings option \<Rightarrow> string option
  \<Rightarrow> bool option \<Rightarrow> (('v, 'm) coordinator_state \<times> 'w world, json) op"

section \<open>Requests and responses\<close>

text \<open>A body: a document, some text that is no JSON, nothing, or a stream that was not read.\<close>

datatype http_body = JsonBody json | OtherBody string | EmptyBody | UnreadBody

type_synonym headers = "(string \<times> string) list"

record 'x http_request =
  rq_method :: string
  rq_url :: string
  rq_headers :: headers
  rq_body :: http_body
  rq_extensions :: 'x

record 'x http_response =
  rs_status :: int
  rs_is_success :: bool
  rs_headers :: headers
  rs_body :: http_body
  rs_extensions :: 'x
  rs_request :: "'x http_request option"

record ('v, 'm) http_policy =
  hp_target :: "('v, 'm) target_policy"
  hp_response_target :: "('v, 'm) target_policy option"

definition body_headers :: "string list" where
  "body_headers = [''content-length'', ''content-encoding'', ''transfer-encoding'']"

definition lower :: "string \<Rightarrow> string" where
  "lower s = map lower_char s"

text \<open>\<open>get\<close> is \<open>Headers.get\<close>.\<close>

definition is_json :: "(headers \<Rightarrow> string \<Rightarrow> string option) \<Rightarrow> headers \<Rightarrow> bool" where
  "is_json get hs =
     (let content_type = (case get hs ''content-type'' of None \<Rightarrow> [] | Some s \<Rightarrow> s);
          media_type = lower (strip (takeWhile (\<lambda>c. c \<noteq> CHR '';'') content_type)) in
      media_type = ''application/json'' \<or> suffix ''+json'' media_type)"

definition json_body :: "(headers \<Rightarrow> string \<Rightarrow> string option) \<Rightarrow> 'x http_request \<Rightarrow> (string \<times> json) list option" where
  "json_body get rq = (if \<not> is_json get (rq_headers rq) then None
     else (case rq_body rq of JsonBody (JObj d) \<Rightarrow> Some d | _ \<Rightarrow> None))"

definition dropped_header :: "string \<Rightarrow> bool" where
  "dropped_header k \<longleftrightarrow> lower k \<in> set body_headers \<or> lower k = ''content-version'' \<or> lower k = ''accept-version''"

definition version_header :: "(string \<times> json) list \<Rightarrow> headers" where
  "version_header payload = (case map_of payload ''version'' of
     None \<Rightarrow> [] | Some JNull \<Rightarrow> [] | Some v \<Rightarrow> [(''content-version'', py_str v)])"

definition accept_header :: "('v, 'm) target_policy option \<Rightarrow> headers" where
  "accept_header response_target = (case response_target of Some (TString s) \<Rightarrow> [(''accept-version'', s)] | _ \<Rightarrow> [])"

definition request_headers :: "headers \<Rightarrow> (string \<times> json) list \<Rightarrow> ('v, 'm) target_policy option \<Rightarrow> headers" where
  "request_headers hs payload response_target =
     filter (\<lambda>(k, _). \<not> dropped_header k) hs @ version_header payload @ accept_header response_target"

definition should_converge_response :: "(headers \<Rightarrow> string \<Rightarrow> string option) \<Rightarrow> 'x http_response \<Rightarrow> ('v, 'm) target_policy option \<Rightarrow> bool" where
  "should_converge_response get rs response_target \<longleftrightarrow> response_target \<noteq> None \<and> rs_is_success rs \<and> is_json get (rs_headers rs)"

definition replaced_body :: "'x http_response \<Rightarrow> json \<Rightarrow> 'x http_request \<Rightarrow> 'x http_response" where
  "replaced_body rs payload rq = rs\<lparr>rs_headers := filter (\<lambda>(k, _). lower k \<notin> set body_headers) (rs_headers rs),
     rs_body := JsonBody payload, rs_request := Some rq\<rparr>"

section \<open>Transports\<close>

text \<open>
  The inner transport acts on the world of the runner. It gives a response whose body may not have been read
  yet, and reading it (\<open>Response.read\<close>, or \<open>aread\<close> of an asynchronous one) is an operation of \<open>httpx\<close> on the
  same world, which can raise. A body that was read before is not read again.
\<close>

record ('v, 'm, 'x, 'w) transport =
  ht_policy :: "('v, 'm) http_policy"
  ht_get :: "headers \<Rightarrow> string \<Rightarrow> string option"
  ht_inner :: "'x http_request \<Rightarrow> ('w, 'x http_response) op"
  ht_read :: "'x http_response \<Rightarrow> ('w, http_body) op"

definition read_response :: "('v, 'm, 'x, 'w) transport \<Rightarrow> 'x http_response \<Rightarrow> ('c \<times> 'w world, 'x http_response) op" where
  "read_response ht rs = (case rs_body rs of
     UnreadBody \<Rightarrow> bindS (executing (await_user (ht_read ht rs))) (\<lambda>body. returnS (rs\<lparr>rs_body := body\<rparr>))
   | _ \<Rightarrow> returnS rs)"

subsection \<open>The synchronous transport\<close>

text \<open>The request for a converged payload. A payload that is no dictionary has no \<open>get\<close>.\<close>

definition converged_request :: "('v, 'm) http_policy \<Rightarrow> 'x http_request \<Rightarrow> json \<Rightarrow> 'x http_request res" where
  "converged_request policy rq payload = (case payload of
     JObj d \<Rightarrow> Inr (rq\<lparr>rq_headers := request_headers (rq_headers rq) d (hp_response_target policy), rq_body := JsonBody (JObj d)\<rparr>)
   | _ \<Rightarrow> Inl AttributeError)"

definition transport_response :: "('r \<Rightarrow> ('v::linorder, 'm, 'w) runner) \<Rightarrow> ('r, 'x http_request) convergence \<Rightarrow> ('v, 'm, 'x, 'w) transport
    \<Rightarrow> 'x http_response \<Rightarrow> 'x http_request \<Rightarrow> pyval bindings option \<Rightarrow> (('v, 'm) coordinator_state \<times> 'w world, 'x http_response) op" where
  "transport_response runners cv ht rs rq context = (case hp_response_target (ht_policy ht) of
     None \<Rightarrow> returnS rs
   | Some target \<Rightarrow> if \<not> should_converge_response (ht_get ht) rs (Some target) then returnS rs
       else bindS (read_response ht rs) (\<lambda>rs. case rs_body rs of
         JsonBody (JObj parsed) \<Rightarrow> bindS (converge_sync runners cv (JObj parsed) target None (-1) context None None) (\<lambda>converged.
           case converged of JObj d \<Rightarrow> returnS (replaced_body rs (JObj d) rq) | _ \<Rightarrow> returnS rs)
       | _ \<Rightarrow> returnS rs))"

definition handle_request :: "('r \<Rightarrow> ('v::linorder, 'm, 'w) runner) \<Rightarrow> ('r, 'x http_request) convergence \<Rightarrow> ('v, 'm, 'x, 'w) transport \<Rightarrow> 'x http_request
    \<Rightarrow> (('v, 'm) coordinator_state \<times> 'w world, 'x http_response) op" where
  "handle_request runners cv ht rq = bindS (liftS (context_for cv (Some rq))) (\<lambda>context.
     bindS (case json_body (ht_get ht) rq of
         None \<Rightarrow> returnS rq
       | Some body \<Rightarrow> bindS (converge_sync runners cv (JObj body) (hp_target (ht_policy ht)) None (-1) context None None) (\<lambda>converged.
           liftS (converged_request (ht_policy ht) rq converged))) (\<lambda>sent.
     bindS (executing (await_user (ht_inner ht sent))) (\<lambda>rs. transport_response runners cv ht rs sent context)))"

subsection \<open>The asynchronous transport\<close>

text \<open>
  The asynchronous class repeats the code of the synchronous one with \<open>await\<close>, so its methods are definitions
  of their own.
\<close>

definition async_converged_request :: "('v, 'm) http_policy \<Rightarrow> 'x http_request \<Rightarrow> json \<Rightarrow> 'x http_request res" where
  "async_converged_request policy rq payload = (case payload of
     JObj d \<Rightarrow> Inr \<lparr>rq_method = rq_method rq, rq_url = rq_url rq,
       rq_headers = request_headers (rq_headers rq) d (hp_response_target policy), rq_body = JsonBody (JObj d),
       rq_extensions = rq_extensions rq\<rparr>
   | _ \<Rightarrow> Inl AttributeError)"

definition async_transport_response :: "('r \<Rightarrow> ('v::linorder, 'm, 'w) runner) \<Rightarrow> ('r, 'x http_request) convergence \<Rightarrow> ('v, 'm, 'x, 'w) transport
    \<Rightarrow> 'x http_response \<Rightarrow> 'x http_request \<Rightarrow> pyval bindings option \<Rightarrow> (('v, 'm) coordinator_state \<times> 'w world, 'x http_response) op" where
  "async_transport_response runners cv ht rs rq context = (case hp_response_target (ht_policy ht) of
     None \<Rightarrow> returnS rs
   | Some target \<Rightarrow> if \<not> should_converge_response (ht_get ht) rs (Some target) then returnS rs
       else bindS (read_response ht rs) (\<lambda>rs. case rs_body rs of
         JsonBody (JObj parsed) \<Rightarrow> bindS (converge runners cv (JObj parsed) target None (-1) context None None) (\<lambda>converged.
           case converged of JObj d \<Rightarrow> returnS (replaced_body rs (JObj d) rq) | _ \<Rightarrow> returnS rs)
       | _ \<Rightarrow> returnS rs))"

definition handle_async_request :: "('r \<Rightarrow> ('v::linorder, 'm, 'w) runner) \<Rightarrow> ('r, 'x http_request) convergence \<Rightarrow> ('v, 'm, 'x, 'w) transport \<Rightarrow> 'x http_request
    \<Rightarrow> (('v, 'm) coordinator_state \<times> 'w world, 'x http_response) op" where
  "handle_async_request runners cv ht rq = bindS (liftS (context_for cv (Some rq))) (\<lambda>context.
     bindS (case json_body (ht_get ht) rq of
         None \<Rightarrow> returnS rq
       | Some body \<Rightarrow> bindS (converge runners cv (JObj body) (hp_target (ht_policy ht)) None (-1) context None None) (\<lambda>converged.
           liftS (async_converged_request (ht_policy ht) rq converged))) (\<lambda>sent.
     bindS (executing (await_user (ht_inner ht sent))) (\<lambda>rs. async_transport_response runners cv ht rs sent context)))"

text \<open>\<open>bind\<close> of a transport.\<close>

definition transport_bind :: "('v, 'b) reg_config \<Rightarrow> 'v registry \<Rightarrow> 'r \<Rightarrow> bool \<Rightarrow> (('r, 'q) convergence, unit) op" where
  "transport_bind cfg reg r check = bindS (cv_bind r) (\<lambda>_ cv. if check then (validate_health cfg reg cv, cv) else (Inr (), cv))"

definition async_transport_bind :: "('v, 'b) reg_config \<Rightarrow> 'v registry \<Rightarrow> 'r \<Rightarrow> bool \<Rightarrow> (('r, 'q) convergence, unit) op" where
  "async_transport_bind cfg reg r check = bindS (cv_bind r) (\<lambda>_ cv. if check then (validate_health cfg reg cv, cv) else (Inr (), cv))"

section \<open>Synchronous and asynchronous transports\<close>

text \<open>A runner whose runs, when they return, return a value, and one whose runs return an awaitable.\<close>

definition answers_now :: "('v::linorder, 'm, 'w) runner \<Rightarrow> bool" where
  "answers_now rn \<longleftrightarrow> (\<forall>payload target sm depth context run_id b s k. fst (runner_run rn payload target sm depth context run_id b s) \<noteq> Inr (Later k))"

definition answers_later :: "('v::linorder, 'm, 'w) runner \<Rightarrow> bool" where
  "answers_later rn \<longleftrightarrow> (\<forall>payload target sm depth context run_id b s v. fst (runner_run rn payload target sm depth context run_id b s) \<noteq> Inr (Now v))"

lemma bindS_cong_result: "(\<And>a s'. m s = (Inr a, s') \<Longrightarrow> f a s' = g a s') \<Longrightarrow> bindS m f s = bindS m g s"
  by (auto simp: bindS_def split: prod.split sum.split)

lemma converge_run_answer:
  assumes "fst (converge_run runners cv payload target sm depth cx run_id b s) = Inr a"
  shows "\<exists>r cx' run_id' b'. cv_runner cv = Some r \<and> fst (runner_run (runners r) payload target sm depth cx' run_id' b' s) = Inr a"
  using assms by (cases "cv_runner cv") (auto simp: converge_run_def cv_bound_def)

lemma converge_now:
  assumes "\<forall>r. cv_runner cv = Some r \<longrightarrow> answers_now (runners r)"
  shows "converge runners cv = converge_sync runners cv"
proof (intro ext)
  fix payload target sm depth cx run_id b s
  show "converge runners cv payload target sm depth cx run_id b s = converge_sync runners cv payload target sm depth cx run_id b s"
    unfolding converge_def converge_sync_def
  proof (rule bindS_cong_result)
    fix a s'
    assume "converge_run runners cv payload target sm depth cx run_id b s = (Inr a, s')"
    then have "fst (converge_run runners cv payload target sm depth cx run_id b s) = Inr a" by simp
    from converge_run_answer [OF this] have "\<exists>v. a = Now v" using assms unfolding answers_now_def by (cases a) metis+
    then show "(case a of Now x \<Rightarrow> returnS x | Later k \<Rightarrow> executing k) s' = (case a of Now x \<Rightarrow> returnS x | Later y \<Rightarrow> raiseS RuntimeError) s'" by auto
  qed
qed

lemma converge_sync_later:
  assumes "\<forall>r. cv_runner cv = Some r \<longrightarrow> answers_later (runners r)"
  shows "\<not> okR (fst (converge_sync runners cv payload target sm depth context run_id b s))"
proof -
  let ?m = "converge_run runners cv payload target sm depth context run_id b"
  have "fst (?m s) \<noteq> Inr (Now v)" for v
    using converge_run_answer [of runners cv payload target sm depth "context" run_id b s "Now v"] assms unfolding answers_later_def by metis
  then show ?thesis by (cases "?m s"; cases "fst (?m s)") (auto simp: converge_sync_def bindS_def split: maybe_async.split)
qed

text \<open>
  C23. The two transport classes, which repeat each other's code, do the same with a synchronous runner and the
  same inner transport: for every request they give the same response or exception with the same effects. With an
  asynchronous runner the synchronous transport raises for every request that it would converge.
\<close>

theorem transports_agree:
  "((\<forall>r. cv_runner cv = Some r \<longrightarrow> answers_now (runners r)) \<longrightarrow> handle_async_request runners cv ht rq = handle_request runners cv ht rq)
   \<and> ((\<forall>r. cv_runner cv = Some r \<longrightarrow> answers_later (runners r)) \<longrightarrow> json_body (ht_get ht) rq \<noteq> None
      \<longrightarrow> \<not> okR (fst (handle_request runners cv ht rq s)))"
proof (intro conjI impI)
  assume "\<forall>r. cv_runner cv = Some r \<longrightarrow> answers_now (runners r)"
  from converge_now [OF this] have c: "converge runners cv = converge_sync runners cv" .
  have "async_converged_request (ht_policy ht) rq payload = converged_request (ht_policy ht) rq payload" for payload
    by (auto simp: async_converged_request_def converged_request_def split: json.split)
  moreover have "async_transport_response runners cv ht rs sent context = transport_response runners cv ht rs sent context" for rs sent "context"
    unfolding async_transport_response_def transport_response_def c ..
  ultimately show "handle_async_request runners cv ht rq = handle_request runners cv ht rq"
    unfolding handle_async_request_def handle_request_def c by (simp cong: option.case_cong)
next
  assume a: "\<forall>r. cv_runner cv = Some r \<longrightarrow> answers_later (runners r)" "json_body (ht_get ht) rq \<noteq> None"
  then obtain body where body: "json_body (ht_get ht) rq = Some body" by blast
  have "\<not> okR (fst (converge_sync runners cv (JObj body) (hp_target (ht_policy ht)) None (-1) cx None None s))" for cx
    by (rule converge_sync_later [OF a(1)])
  then have c: "\<exists>e s'. converge_sync runners cv (JObj body) (hp_target (ht_policy ht)) None (-1) cx None None s = (Inl e, s')" for cx
    by (metis okR_iff prod.collapse sum.exhaust)
  show "\<not> okR (fst (handle_request runners cv ht rq s))"
  proof (cases "context_for cv (Some rq)")
    case (Inr cx)
    then show ?thesis using c [of cx] body by (auto simp: handle_request_def)
  qed (simp add: handle_request_def)
qed

section \<open>What is sent\<close>

definition header_values :: "string \<Rightarrow> headers \<Rightarrow> string list" where
  "header_values k hs = map snd (filter (\<lambda>(k', _). lower k' = k) hs)"

lemma header_values_append [simp]: "header_values k (xs @ ys) = header_values k xs @ header_values k ys"
  by (simp add: header_values_def)

lemma kept_values: "header_values k (filter (\<lambda>(k', _). \<not> dropped_header k') hs)
    = (if k \<in> set body_headers \<or> k = ''content-version'' \<or> k = ''accept-version'' then [] else header_values k hs)"
  by (induction hs) (auto simp: header_values_def dropped_header_def)

lemma added_values:
  "header_values k (version_header d) = (if k = ''content-version'' then (case map_of d ''version'' of
     None \<Rightarrow> [] | Some v \<Rightarrow> if v = JNull then [] else [py_str v]) else [])"
  "header_values k (accept_header t) = (if k = ''accept-version'' then (case t of Some (TString x) \<Rightarrow> [x] | _ \<Rightarrow> []) else [])"
proof -
  have l: "lower ''content-version'' = ''content-version''" "lower ''accept-version'' = ''accept-version''" by code_simp+
  show "header_values k (version_header d) = (if k = ''content-version'' then (case map_of d ''version'' of
     None \<Rightarrow> [] | Some v \<Rightarrow> if v = JNull then [] else [py_str v]) else [])"
    by (auto simp: l header_values_def version_header_def split: option.splits json.splits)
  show "header_values k (accept_header t) = (if k = ''accept-version'' then (case t of Some (TString x) \<Rightarrow> [x] | _ \<Rightarrow> []) else [])"
    by (auto simp: l header_values_def accept_header_def split: option.splits target_policy.splits)
qed

lemma request_values:
  "header_values k (request_headers hs d t) =
     (if k \<in> set body_headers then []
      else if k = ''content-version'' then (case map_of d ''version'' of None \<Rightarrow> [] | Some v \<Rightarrow> if v = JNull then [] else [py_str v])
      else if k = ''accept-version'' then (case t of Some (TString x) \<Rightarrow> [x] | _ \<Rightarrow> [])
      else header_values k hs)"
proof -
  have "''content-version'' \<notin> set body_headers" "''accept-version'' \<notin> set body_headers" by (simp_all add: body_headers_def)
  then show ?thesis unfolding request_headers_def header_values_append kept_values added_values by auto
qed

text \<open>
  C24. A request with a JSON object is sent with the converged object: same method and address, exactly one version
  header with the version of the converged object, or none when it has no or a null version, exactly one accept header when
  the response target is a text, no header about the old body, and every other header with its values in order. Any
  other request is sent as it is, also when no runner is bound.
\<close>

theorem request_sent:
  assumes "context_for cv (Some rq) = Inr context"
  shows "(json_body (ht_get ht) rq = None \<longrightarrow> handle_request runners cv ht rq s =
      bindS (executing (await_user (ht_inner ht rq))) (\<lambda>rs. transport_response runners cv ht rs rq context) s)
    \<and> (\<forall>body d s1. json_body (ht_get ht) rq = Some body
        \<and> converge_sync runners cv (JObj body) (hp_target (ht_policy ht)) None (-1) context None None s = (Inr (JObj d), s1) \<longrightarrow>
      (\<exists>sent. handle_request runners cv ht rq s =
          bindS (executing (await_user (ht_inner ht sent))) (\<lambda>rs. transport_response runners cv ht rs sent context) s1
        \<and> rq_body sent = JsonBody (JObj d) \<and> rq_method sent = rq_method rq \<and> rq_url sent = rq_url rq
        \<and> header_values ''content-version'' (rq_headers sent) =
            (case map_of d ''version'' of None \<Rightarrow> [] | Some v \<Rightarrow> if v = JNull then [] else [py_str v])
        \<and> header_values ''accept-version'' (rq_headers sent) =
            (case hp_response_target (ht_policy ht) of Some (TString t) \<Rightarrow> [t] | _ \<Rightarrow> [])
        \<and> (\<forall>k \<in> set body_headers. header_values k (rq_headers sent) = [])
        \<and> (\<forall>k. k \<notin> set body_headers \<and> k \<noteq> ''content-version'' \<and> k \<noteq> ''accept-version'' \<longrightarrow>
            header_values k (rq_headers sent) = header_values k (rq_headers rq))))"
proof (intro conjI allI impI)
  assume "json_body (ht_get ht) rq = None"
  then show "handle_request runners cv ht rq s =
      bindS (executing (await_user (ht_inner ht rq))) (\<lambda>rs. transport_response runners cv ht rs rq context) s"
    using assms by (simp add: handle_request_def)
next
  fix body d s1
  assume a: "json_body (ht_get ht) rq = Some body
        \<and> converge_sync runners cv (JObj body) (hp_target (ht_policy ht)) None (-1) context None None s = (Inr (JObj d), s1)"
  let ?sent = "rq\<lparr>rq_headers := request_headers (rq_headers rq) d (hp_response_target (ht_policy ht)), rq_body := JsonBody (JObj d)\<rparr>"
  have "handle_request runners cv ht rq s =
      bindS (executing (await_user (ht_inner ht ?sent))) (\<lambda>rs. transport_response runners cv ht rs ?sent context) s1"
    using assms a by (simp add: handle_request_def converged_request_def)
  moreover have "''content-version'' \<notin> set body_headers" "''accept-version'' \<notin> set body_headers" by (simp_all add: body_headers_def)
  ultimately show "\<exists>sent. handle_request runners cv ht rq s =
          bindS (executing (await_user (ht_inner ht sent))) (\<lambda>rs. transport_response runners cv ht rs sent context) s1
        \<and> rq_body sent = JsonBody (JObj d) \<and> rq_method sent = rq_method rq \<and> rq_url sent = rq_url rq
        \<and> header_values ''content-version'' (rq_headers sent) =
            (case map_of d ''version'' of None \<Rightarrow> [] | Some v \<Rightarrow> if v = JNull then [] else [py_str v])
        \<and> header_values ''accept-version'' (rq_headers sent) =
            (case hp_response_target (ht_policy ht) of Some (TString t) \<Rightarrow> [t] | _ \<Rightarrow> [])
        \<and> (\<forall>k \<in> set body_headers. header_values k (rq_headers sent) = [])
        \<and> (\<forall>k. k \<notin> set body_headers \<and> k \<noteq> ''content-version'' \<and> k \<noteq> ''accept-version'' \<longrightarrow>
            header_values k (rq_headers sent) = header_values k (rq_headers rq))"
    by (intro exI [of _ ?sent] conjI) (simp_all add: request_values)
qed

section \<open>Binding\<close>

text \<open>
  A runtime keeps the first runner that is bound to it. Binding the same runner again changes nothing, binding
  another one raises and changes nothing, and once a runner is bound every convergence uses it. When the health
  check of a transport fails, the runner stays bound.
\<close>

theorem first_runner_stays:
  assumes "cv_runner cv = None"
  shows "\<exists>cv1. cv_bind r cv = (Inr (), cv1) \<and> cv_bound cv1 = Inr r
    \<and> (\<forall>r' check. snd (transport_bind cfg reg r' check cv1) = cv1 \<and> (r' \<noteq> r \<longrightarrow> fst (transport_bind cfg reg r' check cv1) = Inl RuntimeError))
    \<and> snd (transport_bind cfg reg r True cv) = cv1
    \<and> (fst (transport_bind cfg reg r True cv) = Inr () \<longleftrightarrow> okR (health cfg None (Some (cv_health_fail_level cv)) reg))"
  using assms
  by (cases "health cfg None (Some (cv_health_fail_level cv)) reg")
    (auto simp: cv_bind_def cv_bound_def transport_bind_def validate_health_def bindS_def)

section \<open>A concrete transport\<close>

lemma bindS_fst_Inr: "fst (bindS m f s) = Inr a \<Longrightarrow> \<exists>x s'. m s = (Inr x, s') \<and> fst (f x s') = Inr a"
  by (auto simp: bindS_def split: prod.splits sum.splits)

lemma threaded_answers_now: "rn_middleware rn = [] \<Longrightarrow> rn_backend rn = threaded_backend xs \<Longrightarrow> answers_now rn"
proof -
  assume a: "rn_middleware rn = []" "rn_backend rn = threaded_backend xs"
  have e: "fst (runner_execute rn plan cx run_id s) \<noteq> Inr (Later k)" for plan cx run_id s k
    using a by (auto simp: runner_execute_def wrapped_def threaded_backend_def bindS_def catchS_def Let_def split: prod.splits sum.splits maybe_async.splits)
  have x: "fst (executing (runner_execute rn plan cx run_id) s) \<noteq> Inr (Later k)" for plan cx run_id s k
    using e [of plan cx run_id "snd s" k] by (cases s) (auto simp: executing_def split: prod.splits)
  have "fst (runner_run rn payload target sm depth cx run_id b s) \<noteq> Inr (Later k)" for payload target sm depth cx run_id b s k
  proof
    assume "fst (runner_run rn payload target sm depth cx run_id b s) = Inr (Later k)"
    from bindS_fst_Inr [OF this [unfolded runner_run_def]] obtain plan s1 where
      "planning (runner_plan rn payload target sm depth) s = (Inr plan, s1)" "fst (bindS (executing (runner_execute rn plan cx run_id)) (\<lambda>data. if b then liftS (validate_answer (rn_adapter rn) (pp_entries (ep_path plan)) data)
         else returnS data) s1) = Inr (Later k)" by blast
    from bindS_fst_Inr [OF this(2)] obtain data s2 where "executing (runner_execute rn plan cx run_id) s1 = (Inr data, s2)"
      "fst ((if b then liftS (validate_answer (rn_adapter rn) (pp_entries (ep_path plan)) data) else returnS data) s2) = Inr (Later k)" by blast
    then show False using x [of plan cx run_id s1] by (cases data) (auto simp: validate_answer_def bindR_eq_Inr split: if_splits)
  qed
  then show ?thesis by (simp add: answers_now_def)
qed

text \<open>
  A request with a versioned document, a transport that answers with a document of the first version in a body that
  is still to be read, and a policy that converges both.
\<close>

definition sample_document :: "(string \<times> json) list" where
  "sample_document = [(''kind'', JStr ''K''), (''version'', JStr ''x'')]"

definition sample_current :: "(string \<times> json) list" where
  "sample_current = [(''kind'', JStr ''K''), (''version'', JStr ''xx'')]"

definition sample_request :: "unit http_request" where
  "sample_request = \<lparr>rq_method = ''POST'', rq_url = ''http://h'', rq_headers = [(''Content-Type'', ''application/json''), (''Content-Length'', ''28'')],
     rq_body = JsonBody (JObj sample_document), rq_extensions = ()\<rparr>"

definition sample_convergence :: "(nat, unit http_request) convergence" where
  "sample_convergence = \<lparr>cv_runner = Some 0, cv_context = None, cv_run_id = None, cv_context_factory = None, cv_validate_target = False,
     cv_health_fail_level = LevelNever\<rparr>"

definition sample_transport :: "(nat, unit, unit, nat) transport" where
  "sample_transport = \<lparr>ht_policy = \<lparr>hp_target = TString ''latest'', hp_response_target = Some (TString ''latest'')\<rparr>,
     ht_get = (\<lambda>hs k. map_of (map (\<lambda>(k, v). (lower k, v)) hs) k),
     ht_inner = (\<lambda>rq. returnS \<lparr>rs_status = 200, rs_is_success = True, rs_headers = [(''Content-Type'', ''application/json'')], rs_body = UnreadBody,
       rs_extensions = (), rs_request = Some rq\<rparr>),
     ht_read = (\<lambda>_. returnS (JsonBody (JObj sample_document)))\<rparr>"

definition sample_threaded :: "(nat, unit, nat) runner" where
  "sample_threaded = sample_runner\<lparr>rn_backend := threaded_backend sample_setup, rn_middleware := []\<rparr>"

definition sample_top :: "nat plan_entry" where
  "sample_top = sample_planned\<lparr>pe_path := []\<rparr>"

definition sample_top_bound :: "(nat, nat) execution_entry" where
  "sample_top_bound = sample_bound\<lparr>ee_plan := sample_top\<rparr>"

definition sample_top_plan :: "(nat, unit, nat) execution_plan" where
  "sample_top_plan = \<lparr>ep_path = \<lparr>pp_entries = [sample_top], pp_source_model = None\<rparr>, ep_payload = JObj sample_document, ep_levels = [[sample_top_bound]]\<rparr>"

lemma sample_document_planned:
  assumes "coordinator_ok sample_coordinator {TString ''latest''} c"
  shows "\<exists>c'. coordinator_plan sample_coordinator (JObj sample_document) (TString ''latest'') None (-1) c = (Inr sample_top_plan, c')
    \<and> coordinator_ok sample_coordinator {TString ''latest''} c'"
proof -
  have x: "walker_extract sample_walker (JObj sample_document) None (-1) = Inr [([], 0, sample_model 1)]"
    using sample_match by (simp add: walker_extract_def sample_document_def mk_context_def concatR_def sample_walker_def sample_adapter_def walk_match_def)
  have b: "build_plan (co_bindings sample_coordinator) \<lparr>pp_entries = [sample_top], pp_source_model = None\<rparr> (JObj sample_document) = Inr sample_top_plan"
    by (simp add: sample_single_level build_plan_def bind_entry_def bound_migration_def bound_hooks_def dict_get_def sample_top_def sample_planned_def
        sample_coordinator_def sample_top_plan_def sample_top_bound_def sample_bound_def)
  let ?T = "{TString ''latest''}" and ?x = "coordinator_extract sample_coordinator (JObj sample_document) None (-1)"
  have w: "co_extractor sample_coordinator = walker_extract sample_walker" "pw_graph sample_walker = pf_graph (co_finder sample_coordinator)"
    by (simp_all add: sample_coordinator_def sample_walker_def sample_finder_def)
  have from_scratch: "fst (coordinator_plan sample_coordinator (JObj sample_document) (TString ''latest'') None (-1) c) =
      bindR ?x (\<lambda>xs. bindR (fst (find (co_finder sample_coordinator) xs (TString ''latest'') None []))
        (\<lambda>plan. build_plan (co_bindings sample_coordinator) plan (JObj sample_document)))
    \<and> coordinator_ok sample_coordinator ?T (snd (coordinator_plan sample_coordinator (JObj sample_document) (TString ''latest'') None (-1) c))"
    by (rule coordinator_plan_from_scratch [OF sample_keys_separate assms singletonI]) (rule extracted_models [OF w])
  have "?x = Inr [\<lparr>xe_path = [], xe_node = sample_model 1\<rparr>]" using x by (simp add: coordinator_extract_def) (simp add: sample_coordinator_def)
  then have "fst (coordinator_plan sample_coordinator (JObj sample_document) (TString ''latest'') None (-1) c) = Inr sample_top_plan"
    using sample_found_at [of "[]", folded sample_top_def] b unfolding conjunct1 [OF from_scratch] by simp (simp add: sample_coordinator_def)
  then show ?thesis using conjunct2 [OF from_scratch] by (metis prod.collapse)
qed

lemma sample_document_runs:
  "\<exists>s'. threaded_execute (sample_setup\<lparr>xs_run := run\<rparr>) sample_top_plan (JObj sample_document) s = (Inr (JObj sample_current), s')"
proof -
  let ?xs = "sample_setup\<lparr>xs_run := run\<rparr>"
  have "\<exists>s'. entry_run ?xs sample_top_bound (JObj sample_document) s = (Inr ([], JObj sample_current), s')" for s
    by (simp add: entry_run_def execute_sync_def execute_step_def mk_step_context_def sample_top_bound_def sample_top_def sample_bound_def
        sample_planned_def sample_binding_def sample_setup_def step_name_def migration_func_def dataset_from_node_def sample_model_def
        sample_step_simps threaded_invoke_def returnS_def sample_document_def sample_current_def numeral_2_eq_2)
  then obtain s' where "entry_run ?xs sample_top_bound (JObj sample_document) (snd (start_hooks ?xs s)) = (Inr ([], JObj sample_current), s')" by blast
  then show ?thesis
    by (simp add: threaded_execute_def start_hooks_def sample_top_plan_def run_entry_def entry_value_def sample_top_bound_def sample_top_def
        entry_run_def bindS_def)
qed

lemma sample_converges:
  assumes "coordinator_ok sample_coordinator {TString ''latest''} c"
  shows "\<exists>c' s'. converge_sync (\<lambda>_. sample_threaded) sample_convergence (JObj sample_document) (TString ''latest'') None (-1) None None None (c, s)
     = (Inr (JObj sample_current), (c', s')) \<and> coordinator_ok sample_coordinator {TString ''latest''} c'"
proof -
  obtain c' where c': "coordinator_plan sample_coordinator (JObj sample_document) (TString ''latest'') None (-1) c = (Inr sample_top_plan, c')"
    "coordinator_ok sample_coordinator {TString ''latest''} c'" using sample_document_planned [OF assms] by blast
  have "runner_plan sample_threaded (JObj sample_document) (TString ''latest'') None (-1) c = (Inr sample_top_plan, c')"
    using c'(1) by (simp add: runner_plan_def sample_threaded_def sample_runner_def bindS_def known_target_def sample_top_plan_def sample_adapter_def)
  moreover obtain s' where "runner_execute sample_threaded sample_top_plan None None s = (Inr (Now (JObj sample_current)), s')"
  proof -
    let ?run = "run_context_for sample_threaded ''r'' None"
    have p: "polite (rn_telemetry sample_threaded)" by (simp add: sample_threaded_def sample_runner_def polite_def)
    let ?s0 = "s\<lparr>wd_trace := wd_trace s @ [CallNewId]\<rparr>"
    obtain s1 where s1: "report_success sample_threaded (RunStarted ?run [sample_top]) ?s0 = (Inr (), s1)" using reports_polite(1) [OF p] by blast
    obtain s2 where s2: "threaded_execute (sample_setup\<lparr>xs_run := ?run\<rparr>) sample_top_plan (JObj sample_document) s1 = (Inr (JObj sample_current), s2)"
      using sample_document_runs by blast
    obtain s3 where s3: "report_success sample_threaded (RunCompleted ?run [sample_top]) s2 = (Inr (), s3)" using reports_polite(1) [OF p] by blast
    have b: "be_execute (wrapped sample_threaded) plan payload run = bindS (threaded_execute (sample_setup\<lparr>xs_run := run\<rparr>) plan payload) (\<lambda>v. returnS (Now v))"
      for plan payload run by (simp add: wrapped_def sample_threaded_def threaded_backend_def)
    have i: "outside_call CallNewId (rn_new_id sample_threaded ''run_'') s = (Inr ''r'', ?s0)"
      by (simp add: outside_call_def sample_threaded_def sample_runner_def)
    have e: "pp_entries (ep_path sample_top_plan) = [sample_top]" "ep_payload sample_top_plan = JObj sample_document" by (simp_all add: sample_top_plan_def)
    show ?thesis using that [of s3] i s1 s2 s3 by (simp add: runner_execute_def Let_def e b copy_payload_def if_cancel catchS_def bindS_def)
  qed
  ultimately show ?thesis using c'(2)
    by (simp add: converge_sync_def converge_run_def runner_run_def planning_def executing_def bindS_def sample_convergence_def cv_bound_def)
qed

theorem transports_agree_witness:
  "handle_async_request (\<lambda>_. sample_threaded) sample_convergence sample_transport sample_request
     = handle_request (\<lambda>_. sample_threaded) sample_convergence sample_transport sample_request
   \<and> json_body (ht_get sample_transport) sample_request = Some sample_document"
proof
  show "handle_async_request (\<lambda>_. sample_threaded) sample_convergence sample_transport sample_request
     = handle_request (\<lambda>_. sample_threaded) sample_convergence sample_transport sample_request"
    using transports_agree [of sample_convergence "\<lambda>_. sample_threaded" sample_transport sample_request]
      threaded_answers_now [of sample_threaded sample_setup] by (simp add: sample_threaded_def)
  show "json_body (ht_get sample_transport) sample_request = Some sample_document" by code_simp
qed

text \<open>The converged request is sent with its new version, and the response comes back converged.\<close>

theorem request_sent_witness:
  "\<exists>sent rs s'. handle_request (\<lambda>_. sample_threaded) sample_convergence sample_transport sample_request (fresh_state, \<lparr>wd_user = 0, wd_trace = []\<rparr>) = (Inr rs, s')
     \<and> rs_request rs = Some sent \<and> rs_body rs = JsonBody (JObj sample_current)
     \<and> rq_body sent = JsonBody (JObj sample_current) \<and> header_values ''content-version'' (rq_headers sent) = [''xx'']
     \<and> header_values ''content-length'' (rq_headers sent) = [] \<and> header_values ''content-type'' (rq_headers sent) = [''application/json'']"
proof -
  let ?s = "(fresh_state, \<lparr>wd_user = 0, wd_trace = []\<rparr>)" and ?R = "\<lambda>_ :: nat. sample_threaded"
  have c: "context_for sample_convergence (Some sample_request) = Inr None" by (simp add: context_for_def sample_convergence_def)
  have b: "json_body (ht_get sample_transport) sample_request = Some sample_document" by code_simp
  obtain c1 w where w: "converge_sync ?R sample_convergence (JObj sample_document) (TString ''latest'') None (-1) None None None ?s
      = (Inr (JObj sample_current), (c1, w))" "coordinator_ok sample_coordinator {TString ''latest''} c1" using sample_converges [OF fresh_state_ok] by blast
  have t: "hp_target (ht_policy sample_transport) = TString ''latest''" by (simp add: sample_transport_def)
  have h: "header_values ''content-type'' (rq_headers sample_request) = [''application/json'']" "''content-length'' \<in> set body_headers"
    "''content-type'' \<notin> set body_headers" "py_str (JStr ''xx'') = ''xx''" by code_simp+
  from request_sent [OF c, of sample_transport ?R ?s] b w obtain sent where sent:
    "handle_request ?R sample_convergence sample_transport sample_request ?s =
      bindS (executing (await_user (ht_inner sample_transport sent))) (\<lambda>rs. transport_response ?R sample_convergence sample_transport rs sent None) (c1, w)"
    "rq_body sent = JsonBody (JObj sample_current)" "header_values ''content-version'' (rq_headers sent) = [''xx'']"
    "header_values ''content-length'' (rq_headers sent) = []" "header_values ''content-type'' (rq_headers sent) = [''application/json'']"
    unfolding t by (auto simp: sample_current_def h)
  have j: "is_json (ht_get sample_transport) [(''Content-Type'', ''application/json'')]" by code_simp
  obtain c2 w' where "converge_sync ?R sample_convergence (JObj sample_document) (TString ''latest'') None (-1) None None None (c1, w)
      = (Inr (JObj sample_current), (c2, w'))" using sample_converges [OF w(2)] by blast
  then have "\<exists>rs s'. handle_request ?R sample_convergence sample_transport sample_request ?s = (Inr rs, s') \<and> rs_request rs = Some sent \<and> rs_body rs = JsonBody (JObj sample_current)"
    using j unfolding sent(1)
    by (simp add: transport_response_def should_converge_response_def read_response_def executing_def await_user_def bindS_def replaced_body_def sample_transport_def)
  then show ?thesis using sent(2-5) by blast
qed

theorem first_runner_stays_witness:
  "cv_bound (snd (cv_bind (3 :: nat) (sample_convergence\<lparr>cv_runner := None\<rparr>))) = Inr 3"
proof -
  obtain cv1 where "cv_bind 3 (sample_convergence\<lparr>cv_runner := None\<rparr>) = (Inr (), cv1)" "cv_bound cv1 = Inr 3"
    using first_runner_stays [of "sample_convergence\<lparr>cv_runner := None\<rparr>" 3 "undefined :: (nat, nat) reg_config" "undefined :: nat registry"] by auto
  then show ?thesis by simp
qed

end
