(* ===== verification/Messaging.thy ===== *)
theory Messaging
  imports Convergence
begin

text \<open>
  Task queues and message brokers: how a Celery task (\<open>adapters/celery\<close>) and a FastStream subscriber or publisher
  (\<open>adapters/faststream\<close>) choose a target and converge what they receive and send. Task bodies, decoders, brokers and
  the reflection on signatures belong to these frameworks or to Python and are parameters. Header names that are
  bytes count as the text they decode to.
\<close>

section \<open>Header values and selectors\<close>

datatype header_value = HeaderBytes string | HeaderValue json

text \<open>A policy \<open>None\<close> cannot be told from no selection.\<close>

definition selected :: "('v, 'm) target_policy \<Rightarrow> ('v, 'm) target_policy option" where
  "selected t = (case t of TNone \<Rightarrow> None | _ \<Rightarrow> Some t)"

fun first_selected :: "('c \<Rightarrow> ('v, 'm) target_policy option res) list \<Rightarrow> 'c \<Rightarrow> ('v, 'm) target_policy option res" where
  "first_selected [] c = Inr None"
| "first_selected (s # ss) c = bindR (s c) (\<lambda>t. case t of Some p \<Rightarrow> Inr (Some p) | None \<Rightarrow> first_selected ss c)"

section \<open>Celery: the target of a task\<close>

record task_context =
  tc_name :: string
  tc_queue :: "string option"
  tc_headers :: "(string \<times> header_value) list"

definition task_header :: "task_context \<Rightarrow> string \<Rightarrow> header_value option" where
  "task_header c name = map_option snd (List.find (\<lambda>(k, _). lower k = lower name) (tc_headers c))"

definition header_target :: "string \<Rightarrow> task_context \<Rightarrow> ('v, 'm) target_policy option" where
  "header_target name c = (case task_header c name of
     None \<Rightarrow> None
   | Some (HeaderBytes b) \<Rightarrow> Some (TString b)
   | Some (HeaderValue v) \<Rightarrow> if v = JNull then None else Some (TString (py_str v)))"

definition task_target :: "(string \<times> ('v, 'm) target_policy) list \<Rightarrow> task_context \<Rightarrow> ('v, 'm) target_policy option" where
  "task_target targets c = Option.bind (map_of targets (tc_name c)) selected"

definition queue_target :: "(string \<times> ('v, 'm) target_policy) list \<Rightarrow> task_context \<Rightarrow> ('v, 'm) target_policy option" where
  "queue_target targets c = Option.bind (tc_queue c) (\<lambda>q. Option.bind (map_of targets q) selected)"

record ('v, 'm) task_targets =
  tt_default :: "('v, 'm) target_policy"
  tt_header :: "string option"
  tt_by_task :: "(string \<times> ('v, 'm) target_policy) list"
  tt_by_queue :: "(string \<times> ('v, 'm) target_policy) list"

definition task_selectors :: "('v, 'm) task_targets \<Rightarrow> (task_context \<Rightarrow> ('v, 'm) target_policy option) list" where
  "task_selectors tt = (case tt_header tt of None \<Rightarrow> [] | Some h \<Rightarrow> [header_target h])
     @ (if tt_by_task tt = [] then [] else [task_target (tt_by_task tt)])
     @ (if tt_by_queue tt = [] then [] else [queue_target (tt_by_queue tt)])
     @ [default_target (selected (tt_default tt))]"

definition task_select :: "('v, 'm) task_targets \<Rightarrow> task_context \<Rightarrow> ('v, 'm) target_policy" where
  "task_select tt c = (case first_match (task_selectors tt) c of None \<Rightarrow> tt_default tt | Some t \<Rightarrow> t)"

section \<open>Celery: startup\<close>

text \<open>A framework reports a failed health check with an exception of its own.\<close>

definition framework_bind :: "error \<Rightarrow> ('v, 'b) reg_config \<Rightarrow> 'v registry \<Rightarrow> 'r \<Rightarrow> bool \<Rightarrow> (('r, 'q) convergence, unit) op" where
  "framework_bind err cfg reg r check = bindS (cv_bind r) (\<lambda>_ cv. if check then
       ((case validate_health cfg reg cv of Inl e \<Rightarrow> Inl (if e = HealthValidationError then err else e) | Inr u \<Rightarrow> Inr u), cv)
     else (Inr (), cv))"

definition celery_bind :: "('v, 'b) reg_config \<Rightarrow> 'v registry \<Rightarrow> 'r \<Rightarrow> bool \<Rightarrow> (('r, 'q) convergence, unit) op" where
  "celery_bind = framework_bind CeleryError"

definition faststream_bind :: "('v, 'b) reg_config \<Rightarrow> 'v registry \<Rightarrow> 'r \<Rightarrow> bool \<Rightarrow> (('r, 'q) convergence, unit) op" where
  "faststream_bind = framework_bind StartupValidationError"

definition celery_startup :: "'r res \<Rightarrow> ('v, 'b) reg_config \<Rightarrow> 'v registry \<Rightarrow> bool \<Rightarrow> (('r, 'q) convergence, unit) op" where
  "celery_startup made cfg reg check = bindS (liftS made) (\<lambda>r. celery_bind cfg reg r check)"

definition on_startup :: "'r res \<Rightarrow> ('v, 'b) reg_config \<Rightarrow> 'v registry \<Rightarrow> bool \<Rightarrow> (('r, 'q) convergence, unit) op" where
  "on_startup made cfg reg check = catchS (celery_startup made cfg reg check) (\<lambda>e. raiseS (if is_exception e then SystemExit else e))"

definition celery_shutdown :: "('w, unit) op option \<Rightarrow> ('w, unit) op" where
  "celery_shutdown callback = (case callback of None \<Rightarrow> returnS () | Some m \<Rightarrow> m)"

definition on_shutdown :: "('w, unit) op option \<Rightarrow> ('w, unit) op" where
  "on_shutdown callback = catchS (celery_shutdown callback) (\<lambda>e. if is_exception e then returnS () else raiseS e)"

section \<open>Celery: tasks\<close>

datatype 'o task_value = DataValue json | ObjectValue 'o

text \<open>
  \<open>dump\<close> is \<open>adapter.dump\<close>; \<open>model_of\<close> is the class of a value when the adapter can handle it.
\<close>

record ('v, 'm, 'o, 'w) pyverge_task =
  pt_targets :: "('v, 'm) task_targets"
  pt_payload_name :: "string option"
  pt_payload_index :: "nat option"
  pt_return_target :: "('v, 'm) target_policy option"
  pt_body :: "'o task_value list \<Rightarrow> (string \<times> 'o task_value) list \<Rightarrow> ('w, 'o task_value) op"
  pt_dump :: "'o task_value \<Rightarrow> json res"
  pt_model_of :: "'o task_value \<Rightarrow> 'm option"

definition dump_value :: "('o task_value \<Rightarrow> json res) \<Rightarrow> 'o task_value \<Rightarrow> json res" where
  "dump_value dump v = (case v of DataValue (JObj d) \<Rightarrow> Inr (JObj d) | _ \<Rightarrow> dump v)"

definition converge_argument :: "('v, 'm, 'w) converger \<Rightarrow> ('v, 'm, 'o, 'w) pyverge_task \<Rightarrow> ('v, 'm) target_policy \<Rightarrow> pyval bindings option \<Rightarrow> 'o task_value
    \<Rightarrow> (('v, 'm) coordinator_state \<times> 'w world, 'o task_value) op" where
  "converge_argument conv pt target cx v = bindS (liftS (dump_value (pt_dump pt) v)) (\<lambda>payload.
     bindS (conv payload target None (-1) cx None None) (\<lambda>w. returnS (DataValue w)))"

definition converge_input :: "('v, 'm, 'w) converger \<Rightarrow> ('v, 'm, 'o, 'w) pyverge_task \<Rightarrow> ('v, 'm) target_policy \<Rightarrow> pyval bindings option
    \<Rightarrow> 'o task_value list \<Rightarrow> (string \<times> 'o task_value) list \<Rightarrow> (('v, 'm) coordinator_state \<times> 'w world, 'o task_value list \<times> (string \<times> 'o task_value) list) op" where
  "converge_input conv pt target cx args kwargs =
     (let by_name = (case pt_payload_name pt of
         None \<Rightarrow> returnS (args, kwargs)
       | Some name \<Rightarrow> (case map_of kwargs name of
           None \<Rightarrow> returnS (args, kwargs)
         | Some v \<Rightarrow> bindS (converge_argument conv pt target cx v) (\<lambda>w. returnS (args, AList.update name w kwargs)))) in
      case pt_payload_index pt of
        None \<Rightarrow> by_name
      | Some i \<Rightarrow> if i < length args then bindS (converge_argument conv pt target cx (args ! i)) (\<lambda>w. returnS (args[i := w], kwargs)) else by_name)"

text \<open>\<open>return_target or target\<close>: a policy without content counts as not given.\<close>

definition or_target :: "('v, 'm) target_policy option \<Rightarrow> ('v, 'm) target_policy \<Rightarrow> ('v, 'm) target_policy" where
  "or_target given target = (case given of None \<Rightarrow> target | Some t \<Rightarrow>
     (case t of TNone \<Rightarrow> target | TString [] \<Rightarrow> target | TDict [] \<Rightarrow> target | _ \<Rightarrow> t))"

definition task_call :: "('r \<Rightarrow> ('v::linorder, 'm, 'w) runner) \<Rightarrow> ('r, 'q) convergence \<Rightarrow> ('v, 'm, 'o, 'w) pyverge_task \<Rightarrow> task_context \<Rightarrow> 'q
    \<Rightarrow> 'o task_value list \<Rightarrow> (string \<times> 'o task_value) list \<Rightarrow> (('v, 'm) coordinator_state \<times> 'w world, 'o task_value) op" where
  "task_call runners cv pt c request args kwargs =
     (let target = task_select (pt_targets pt) c in
      bindS (liftS (context_for cv (Some request))) (\<lambda>cx.
      bindS (converge_input (converge_sync runners cv) pt target cx args kwargs) (\<lambda>(args', kwargs').
      bindS (executing (await_user (pt_body pt args' kwargs'))) (\<lambda>result.
        if result = DataValue JNull then returnS result
        else bindS (liftS (dump_value (pt_dump pt) result)) (\<lambda>payload.
          bindS (liftS (context_for cv (Some request))) (\<lambda>cx'.
          bindS (converge_sync runners cv payload (or_target (pt_return_target pt) target) (pt_model_of pt result) (-1) cx' None None) (\<lambda>w.
          returnS (DataValue w))))))))"

text \<open>The payload parameter of a function, whose parameters are listed with whether they can be positional.\<close>

definition payload_name :: "string option \<Rightarrow> (string \<times> bool) list \<Rightarrow> string option" where
  "payload_name payload params = (case payload of Some p \<Rightarrow> Some p | None \<Rightarrow> map_option fst (List.find snd params))"

definition payload_index :: "string option \<Rightarrow> (string \<times> bool) list \<Rightarrow> nat option" where
  "payload_index name params = (case name of None \<Rightarrow> None
     | Some n \<Rightarrow> if n \<in> fst ` set params then Some (length (takeWhile (\<lambda>(p, _). p \<noteq> n) params)) else None)"

section \<open>FastStream: negotiated headers\<close>

definition message_headers :: "(string \<times> header_value) list \<Rightarrow> (string, header_value) dict" where
  "message_headers hs = dict_of (map (\<lambda>(k, v). (lower k, v)) hs)"

definition message_header :: "(string \<times> header_value) list \<Rightarrow> string \<Rightarrow> header_value option" where
  "message_header hs name = map_of (message_headers hs) (lower name)"

definition json_text :: "json \<Rightarrow> string option" where
  "json_text v = (case v of JStr s \<Rightarrow> Some s | _ \<Rightarrow> None)"

definition all_texts :: "(string \<times> json) list \<Rightarrow> bool" where
  "all_texts d \<longleftrightarrow> list_all (\<lambda>(_, v). json_text v \<noteq> None) d"

definition parse_mapping :: "json \<Rightarrow> ('v, 'm) target_policy res" where
  "parse_mapping v = (case v of
     JObj d \<Rightarrow> if d \<noteq> [] \<and> fst ` set d \<subseteq> {''gte'', ''lt'', ''eq''} then
         (if \<not> all_texts d then Inl NegotiationError
          else Inr (TRange \<lparr>vr_gte = Option.bind (map_of d ''gte'') json_text, vr_lt = Option.bind (map_of d ''lt'') json_text,
            vr_eq = Option.bind (map_of d ''eq'') json_text\<rparr>))
       else if \<not> all_texts d then Inl NegotiationError
       else Inr (TDict (map (\<lambda>(k, x). (k, TString (py_str x))) d))
   | _ \<Rightarrow> Inl NegotiationError)"

text \<open>\<open>loads\<close> is \<open>json.loads\<close>; \<open>None\<close> stands for \<open>JSONDecodeError\<close>.\<close>

definition parse_text :: "(string \<Rightarrow> json option) \<Rightarrow> string \<Rightarrow> ('v, 'm) target_policy res" where
  "parse_text loads s = (case strip s of
     [] \<Rightarrow> Inl NegotiationError
   | c # raw \<Rightarrow> if c = CHR 0x7B then (case loads (c # raw) of None \<Rightarrow> Inl NegotiationError | Some v \<Rightarrow> parse_mapping v)
       else Inr (TString (c # raw)))"

fun parse_header :: "(string \<Rightarrow> json option) \<Rightarrow> header_value \<Rightarrow> ('v, 'm) target_policy res" where
  "parse_header loads (HeaderBytes b) = parse_text loads b"
| "parse_header loads (HeaderValue (JStr s)) = parse_text loads s"
| "parse_header loads (HeaderValue _) = Inl NegotiationError"

section \<open>FastStream: selection\<close>

record target_context =
  xc_topic :: string
  xc_headers :: "(string \<times> header_value) list"

definition negotiated_target :: "(string \<Rightarrow> json option) \<Rightarrow> string \<Rightarrow> target_context \<Rightarrow> ('v, 'm) target_policy option res" where
  "negotiated_target loads header c = (case message_header (xc_headers c) header of
     None \<Rightarrow> Inr None
   | Some v \<Rightarrow> if v = HeaderValue JNull then Inr None else bindR (parse_header loads v) (\<lambda>t. Inr (Some t)))"

definition topic_target :: "(string \<times> ('v, 'm) target_policy) list \<Rightarrow> target_context \<Rightarrow> ('v, 'm) target_policy option res" where
  "topic_target targets c = Inr (Option.bind (map_of targets (xc_topic c)) selected)"

text \<open>Targets are one policy for all topics or a policy for each.\<close>

datatype ('v, 'm) topic_targets = OneTarget "('v, 'm) target_policy" | PerTopic "(string \<times> ('v, 'm) target_policy) list"

definition coerce_targets :: "('v, 'm) topic_targets \<Rightarrow> string list \<Rightarrow> (string \<times> ('v, 'm) target_policy) list" where
  "coerce_targets targets topics = (case targets of PerTopic d \<Rightarrow> d | OneTarget t \<Rightarrow> dict_of (map (\<lambda>topic. (topic, t)) topics))"

definition for_topics :: "(string \<Rightarrow> json option) \<Rightarrow> string list \<Rightarrow> ('v, 'm) topic_targets \<Rightarrow> ('v, 'm) target_policy \<Rightarrow> string option
    \<Rightarrow> (target_context \<Rightarrow> ('v, 'm) target_policy option res) list" where
  "for_topics loads topics targets dflt header = (case header of None \<Rightarrow> [] | Some h \<Rightarrow> [negotiated_target loads h])
     @ [topic_target (coerce_targets targets topics), \<lambda>c. Inr (default_target (selected dflt) c)]"

section \<open>FastStream: subscribers and publishers\<close>

text \<open>The decoder of a topic: decode, select a target, find the context, converge.\<close>

definition converge_message :: "('r \<Rightarrow> ('v::linorder, 'm, 'w) runner) \<Rightarrow> ('r, 'q) convergence \<Rightarrow> (target_context \<Rightarrow> ('v, 'm) target_policy option res) list
    \<Rightarrow> ('q \<Rightarrow> ('w, json) op) \<Rightarrow> ('q \<Rightarrow> (string \<times> header_value) list) \<Rightarrow> string \<Rightarrow> 'q \<Rightarrow> (('v, 'm) coordinator_state \<times> 'w world, json) op" where
  "converge_message runners cv selectors decode headers_of topic msg =
     bindS (executing (await_user (decode msg))) (\<lambda>payload.
     bindS (liftS (first_selected selectors \<lparr>xc_topic = topic, xc_headers = headers_of msg\<rparr>)) (\<lambda>target.
     bindS (liftS (context_for cv (Some msg))) (\<lambda>cx.
     converge runners cv payload (case target of None \<Rightarrow> TNone | Some t \<Rightarrow> t) None (-1) cx None None)))"

definition converge_return :: "('r \<Rightarrow> ('v::linorder, 'm, 'w) runner) \<Rightarrow> ('r, 'q) convergence \<Rightarrow> ('o task_value \<Rightarrow> json res) \<Rightarrow> ('o task_value \<Rightarrow> 'm option)
    \<Rightarrow> ('v, 'm) target_policy \<Rightarrow> ('w, 'o task_value) op \<Rightarrow> (('v, 'm) coordinator_state \<times> 'w world, 'o task_value) op" where
  "converge_return runners cv dump model_of target handler = bindS (executing (await_user handler)) (\<lambda>result.
     if result = DataValue JNull then returnS result
     else bindS (liftS (dump_value dump result)) (\<lambda>payload.
       bindS (converge runners cv payload target (model_of result) (-1) None None None) (\<lambda>w. returnS (DataValue w))))"

record route_message =
  rm_topic :: string
  rm_data :: "(string \<times> json) list"
  rm_headers :: headers

definition route_headers :: "string \<Rightarrow> (string \<times> json) list \<Rightarrow> headers" where
  "route_headers header d = (case map_of d ''version'' of
     None \<Rightarrow> [] | Some v \<Rightarrow> if v = JNull then [] else [(header, py_str v)])"

definition publish_route :: "('v, 'm, 'w) converger \<Rightarrow> string \<Rightarrow> (route_message \<Rightarrow> ('w, unit) op) \<Rightarrow> json \<Rightarrow> 'm option
    \<Rightarrow> string \<times> ('v, 'm) target_policy \<Rightarrow> (('v, 'm) coordinator_state \<times> 'w world, unit) op" where
  "publish_route conv header publish payload model = (\<lambda>(topic, target).
     bindS (conv payload target model (-1) None None None) (\<lambda>converged. case converged of
       JObj d \<Rightarrow> executing (await_user (publish \<lparr>rm_topic = topic, rm_data = d, rm_headers = route_headers header d\<rparr>))
     | _ \<Rightarrow> raiseS AttributeError))"

definition route_call :: "('r \<Rightarrow> ('v::linorder, 'm, 'w) runner) \<Rightarrow> ('r, 'q) convergence \<Rightarrow> ('o task_value \<Rightarrow> json res) \<Rightarrow> ('o task_value \<Rightarrow> 'm option)
    \<Rightarrow> string \<Rightarrow> (route_message \<Rightarrow> ('w, unit) op) \<Rightarrow> (string \<times> ('v, 'm) target_policy) list \<Rightarrow> ('w, 'o task_value) op
    \<Rightarrow> (('v, 'm) coordinator_state \<times> 'w world, unit) op" where
  "route_call runners cv dump model_of header publish routes handler = bindS (executing (await_user handler)) (\<lambda>result.
     if result = DataValue JNull then returnS ()
     else bindS (liftS (dump_value dump result)) (\<lambda>payload.
       forS (publish_route (converge runners cv) header publish payload (model_of result)) routes))"

section \<open>The target of a task\<close>

text \<open>
  The target of a task is the one of its header, else the one configured for its name, else the one
  configured for its queue, else the default. A task or queue that is configured with \<open>None\<close>, which as a target
  means to skip, is treated as if it were not configured.
\<close>

theorem task_target_order:
  fixes tt :: "('v, 'm) task_targets"
  shows "task_select tt c = (case Option.bind (tt_header tt) (\<lambda>h. header_target h c) of Some t \<Rightarrow> t
     | None \<Rightarrow> (case task_target (tt_by_task tt) c of Some t \<Rightarrow> t
       | None \<Rightarrow> (case queue_target (tt_by_queue tt) c of Some t \<Rightarrow> t | None \<Rightarrow> tt_default tt)))
   \<and> (map_of (tt_by_task tt) (tc_name c) = Some TNone \<longrightarrow> task_select tt c = task_select (tt\<lparr>tt_by_task := []\<rparr>) c)"
proof -
  have s: "task_select tt c = (case Option.bind (tt_header tt) (\<lambda>h. header_target h c) of Some t \<Rightarrow> t
     | None \<Rightarrow> (case task_target (tt_by_task tt) c of Some t \<Rightarrow> t
       | None \<Rightarrow> (case queue_target (tt_by_queue tt) c of Some t \<Rightarrow> t | None \<Rightarrow> tt_default tt)))" for tt :: "('v, 'm) task_targets"
    by (cases "tc_queue c") (auto simp: task_select_def task_selectors_def default_target_def task_target_def queue_target_def selected_def
        split: option.splits target_policy.splits)
  have "task_target (tt_by_task tt) c = task_target [] c" if "map_of (tt_by_task tt) (tc_name c) = Some TNone"
    using that by (simp add: task_target_def selected_def)
  then show ?thesis using s [of tt] s [of "tt\<lparr>tt_by_task := []\<rparr>"] by (simp cong: option.case_cong)
qed

section \<open>Startup of a worker\<close>

text \<open>
  A worker starts with a bound runner and a healthy registry or not at all: when the receiver of the startup
  signal returns, the runner that was made is bound, and the registry passes the health check if it is asked for;
  otherwise the process is left with an exception that the dispatch of signals does not catch.
\<close>

theorem worker_startup:
  "case on_startup made cfg reg check cv of
     (Inr _, cv') \<Rightarrow> (\<exists>r. made = Inr r \<and> cv_runner cv' = Some r) \<and> (check \<longrightarrow> okR (health cfg None (Some (cv_health_fail_level cv)) reg))
   | (Inl e, _) \<Rightarrow> \<not> is_exception e"
proof (cases made)
  case (Inr r)
  have h: "okR (validate_health cfg reg (cv\<lparr>cv_runner := x\<rparr>)) \<longleftrightarrow> okR (health cfg None (Some (cv_health_fail_level cv)) reg)" for x
    by (cases "health cfg None (Some (cv_health_fail_level cv)) reg") (simp_all add: validate_health_def)
  show ?thesis using Inr h [of "Some r"]
    by (cases "validate_health cfg reg (cv\<lparr>cv_runner := Some r\<rparr>)")
      (auto simp: on_startup_def celery_startup_def celery_bind_def framework_bind_def cv_bind_def catchS_def bindS_def is_exception_def split: sum.splits)
qed (auto simp: on_startup_def celery_startup_def catchS_def is_exception_def)

section \<open>Routes\<close>

definition converged_for :: "('v, 'm, 'w) converger \<Rightarrow> json \<Rightarrow> 'm option \<Rightarrow> ('v, 'm) target_policy \<Rightarrow> (string \<times> json) list \<Rightarrow> bool" where
  "converged_for conv payload model target d \<longleftrightarrow> (\<exists>s. fst (conv payload target model (-1) None None None s) = Inr (JObj d))"

lemma forS_Cons_Inr: "f x s = (Inr (), s1) \<Longrightarrow> forS f (x # xs) s = forS f xs s1"
  by simp

text \<open>
  A handler with several routes publishes one message for each, in the order of the routes, each with the
  result of the handler converged for that route (\<open>conv\<close> is \<open>converge\<close> of the runtime) and its version as a header. When converging or publishing for a
  route raises, the messages of the routes before it have been published and no others. Here \<open>sent\<close> reads the
  published messages off the state, converging leaves them alone, and a publication that returns adds its message.
\<close>

theorem routes_published:
  assumes "\<And>payload target model depth cx i b s. sent (wd_user (snd (snd (conv payload target model depth cx i b s)))) = sent (wd_user (snd s))"
    and "\<And>m u. sent (snd (publish m u)) = (if okR (fst (publish m u)) then sent u @ [m] else sent u)"
    and "forS (publish_route conv header publish payload model) routes s = (r, s')"
  shows "\<exists>ms. sent (wd_user (snd s')) = sent (wd_user (snd s)) @ ms
    \<and> list_all2 (\<lambda>(topic, target) m. rm_topic m = topic \<and> rm_headers m = route_headers header (rm_data m)
        \<and> converged_for conv payload model target (rm_data m)) (take (length ms) routes) ms
    \<and> (r = Inr () \<longrightarrow> length ms = length routes) \<and> (r \<noteq> Inr () \<longrightarrow> length ms < length routes)"
  using assms(3)
proof (induction routes arbitrary: s)
  case (Cons route routes)
  obtain topic target where rt: "route = (topic, target)" by fastforce
  let ?f = "publish_route conv header publish payload model"
  let ?c = "conv payload target model (-1) None None None"
  obtain q s1 where q: "?c s = (q, s1)" by (rule prod.exhaust)
  have keep: "sent (wd_user (snd s1)) = sent (wd_user (snd s))" using assms(1) [of payload target model "-1" None None None s] q by simp
  have raise: ?case if "?f route s = (Inl e, s2)" "sent (wd_user (snd s2)) = sent (wd_user (snd s))" for e s2
    using that Cons.prems by (intro exI [of _ "[]"]) auto
  show ?case
  proof (cases "\<exists>d. q = Inr (JObj d)")
    case False
    then have "\<exists>e. ?f route s = (Inl e, s1)" using q rt by (cases q) (auto simp: publish_route_def bindS_def split: json.split)
    then show ?thesis using raise keep by blast
  next
    case True
    then obtain d where d: "q = Inr (JObj d)" by blast
    let ?m = "\<lparr>rm_topic = topic, rm_data = d, rm_headers = route_headers header d\<rparr>"
    obtain c1 w1 where s1: "s1 = (c1, w1)" by fastforce
    obtain p u where p: "publish ?m (wd_user w1) = (p, u)" by fastforce
    have f: "?f route s = (p, (c1, w1\<lparr>wd_user := u\<rparr>))"
      using q d rt s1 p by (simp add: publish_route_def executing_def await_user_def)
    show ?thesis
    proof (cases p)
      case (Inl e)
      then show ?thesis using raise [of e "(c1, w1\<lparr>wd_user := u\<rparr>)"] f assms(2) [of ?m "wd_user w1"] p keep s1 by simp
    next
      case (Inr _)
      then have ok: "?f route s = (Inr (), (c1, w1\<lparr>wd_user := u\<rparr>))" using f by simp
      have add: "sent u = sent (wd_user (snd s)) @ [?m]" using assms(2) [of ?m "wd_user w1"] p keep s1 Inr by simp
      from Cons.IH [of "(c1, w1\<lparr>wd_user := u\<rparr>)"] Cons.prems forS_Cons_Inr [of ?f, OF ok] obtain ms where
        ms: "sent (wd_user (snd s')) = sent u @ ms"
        "list_all2 (\<lambda>(topic, target) m. rm_topic m = topic \<and> rm_headers m = route_headers header (rm_data m)
          \<and> converged_for conv payload model target (rm_data m)) (take (length ms) routes) ms"
        "r = Inr () \<longrightarrow> length ms = length routes" "r \<noteq> Inr () \<longrightarrow> length ms < length routes" by auto
      moreover have "converged_for conv payload model target d" unfolding converged_for_def using q d by (metis fst_conv)
      ultimately show ?thesis using add rt by (intro exI [of _ "?m # ms"]) auto
    qed
  qed
qed simp

section \<open>Examples\<close>

definition sample_targets :: "(nat, unit) task_targets" where
  "sample_targets = \<lparr>tt_default = TString ''latest'', tt_header = Some ''Content-Version'', tt_by_task = [(''t'', TNone)], tt_by_queue = [(''q'', TString ''1'')]\<rparr>"

theorem task_target_order_witness:
  "task_select sample_targets \<lparr>tc_name = ''t'', tc_queue = Some ''q'', tc_headers = []\<rparr>
     = task_select (sample_targets\<lparr>tt_by_task := []\<rparr>) \<lparr>tc_name = ''t'', tc_queue = Some ''q'', tc_headers = []\<rparr>"
proof -
  have "map_of (tt_by_task sample_targets) (tc_name \<lparr>tc_name = ''t'', tc_queue = Some ''q'', tc_headers = []\<rparr>) = Some TNone" by (simp add: sample_targets_def)
  then show ?thesis by (rule conjunct2 [OF task_target_order, rule_format])
qed

theorem worker_startup_witness:
  "cv_runner (snd (on_startup (Inr (7 :: nat)) (undefined :: (nat, nat) reg_config) (undefined :: nat registry) True (sample_convergence\<lparr>cv_runner := None\<rparr>))) = Some 7"
proof -
  let ?m = "on_startup (Inr (7 :: nat)) (undefined :: (nat, nat) reg_config) (undefined :: nat registry) True (sample_convergence\<lparr>cv_runner := None\<rparr>)"
  have "health (undefined :: (nat, nat) reg_config) None (Some LevelNever) undefined
      = Inr (health_issues (undefined :: (nat, nat) reg_config) (undefined :: nat registry))"
    by (simp add: health_def Let_def list_ex_iff)
  then have "fst ?m = Inr ()"
    by (simp add: on_startup_def celery_startup_def celery_bind_def framework_bind_def cv_bind_def validate_health_def sample_convergence_def catchS_def bindS_def)
  moreover have "case ?m of (Inr _, cv') \<Rightarrow> (\<exists>r. Inr 7 = (Inr r :: nat res) \<and> cv_runner cv' = Some r) | (Inl e, _) \<Rightarrow> \<not> is_exception e"
    using worker_startup [where made = "Inr 7 :: nat res" and cfg = "undefined :: (nat, nat) reg_config" and reg = "undefined :: nat registry"
        and check = True and cv = "sample_convergence\<lparr>cv_runner := None\<rparr>"]
    by (auto split: prod.splits sum.splits)
  ultimately show ?thesis by (cases ?m) auto
qed

theorem routes_published_witness:
  "map rm_topic (wd_user (snd (snd (forS (publish_route (\<lambda>payload target model depth cx i b s. (Inr payload, s) :: json res \<times> (nat, unit) coordinator_state \<times> route_message list world)
     ''v'' (\<lambda>m u. (Inr (), u @ [m])) (JObj []) None) [(''a'', TString ''latest''), (''b'', TString ''1'')] (fresh_state, \<lparr>wd_user = [], wd_trace = []\<rparr>))))) = [''a'', ''b'']"
proof -
  let ?conv = "\<lambda>payload target model depth cx i b s. (Inr payload, s) :: json res \<times> (nat, unit) coordinator_state \<times> route_message list world"
  let ?routes = "[(''a'', TString ''latest''), (''b'', TString ''1'')]"
  let ?s = "(fresh_state, \<lparr>wd_user = [], wd_trace = []\<rparr>) :: (nat, unit) coordinator_state \<times> route_message list world"
  obtain r s' where r: "forS (publish_route ?conv ''v'' (\<lambda>m u. (Inr (), u @ [m])) (JObj []) None) ?routes ?s = (r, s')" by (rule prod.exhaust)
  then have ok: "r = Inr ()" by (auto simp: publish_route_def bindS_def executing_def await_user_def)
  obtain ms where ms: "wd_user (snd s') = [] @ ms" "r = Inr () \<longrightarrow> length ms = length ?routes"
    "list_all2 (\<lambda>(topic, target) m. rm_topic m = topic \<and> rm_headers m = route_headers ''v'' (rm_data m)
        \<and> converged_for ?conv (JObj []) None target (rm_data m)) (take (length ms) ?routes) ms"
    using routes_published [of "\<lambda>u. u" ?conv "\<lambda>m u. (Inr (), u @ [m])" "''v''" "JObj []" None ?routes ?s r s', OF _ _ r] by auto
  then show ?thesis using r ok by (auto simp: list_all2_Cons1)
qed

end
