(* ===== verification/Lineage.thy ===== *)
theory Lineage
  imports Effects "HOL-Library.Multiset"
begin

text \<open>
  The two adapters that turn lifecycle events of the runtime into the events of a telemetry system:
  \<open>OpenLineageAdapter\<close> of \<open>runtime/telemetry/openlineage.py\<close> and \<open>OtelAdapter\<close> of \<open>runtime/telemetry/otel.py\<close>.
  The clients of both systems are parameters that act on a state of their own and may raise; what was handed to a
  client is kept in order. Time stamps and durations are left out.
\<close>

section \<open>Events of OpenLineage\<close>

datatype run_state = START | COMPLETE | FAIL

record lineage_dataset =
  ld_namespace :: string
  ld_name :: string
  ld_version :: string
  ld_schema :: "(string \<times> string \<times> nat) list option"

text \<open>The facets of a run: the error, and for a step the run that it belongs to, with the namespace and name of its job.\<close>

record lineage_facets =
  lf_error :: "error option"
  lf_parent :: "(string \<times> string \<times> string) option"

record lineage_job =
  lj_namespace :: string
  lj_name :: string
  lj_type :: string
  lj_tags :: "(string \<times> string) list option"

record lineage_event =
  le_producer :: string
  le_type :: run_state
  le_run_id :: string
  le_facets :: lineage_facets
  le_job :: lineage_job
  le_inputs :: "lineage_dataset list"
  le_outputs :: "lineage_dataset list"

record lineage_step =
  lr_run_id :: string
  lr_job_name :: string

text \<open>\<open>uuid5\<close> is \<open>str(uuid5(NAMESPACE_URL, \<cdot>))\<close> and \<open>uuid4\<close> gives a new identifier.\<close>

record ('v, 'w) lineage_adapter =
  la_client :: "lineage_event \<Rightarrow> ('w, unit) op"
  la_producer :: string
  la_uuid5 :: "string \<Rightarrow> string"
  la_uuid4 :: "('w, string) op"
  la_show :: "'v \<Rightarrow> string"

definition run_job_name :: string where
  "run_job_name = ''migration.run''"

definition dataset_schema :: "dataset_context \<Rightarrow> (string \<times> string \<times> nat) list option" where
  "dataset_schema ds = (if ds_fields ds = [] then None
     else Some (map (\<lambda>(i, f). (fx_name f, fx_type f, i)) (enumerate 0 (ds_fields ds))))"

definition lineage_dataset_of :: "dataset_context \<Rightarrow> lineage_dataset" where
  "lineage_dataset_of ds = \<lparr>ld_namespace = ds_namespace ds, ld_name = ds_name ds, ld_version = ds_version ds, ld_schema = dataset_schema ds\<rparr>"

definition run_facets :: "error option \<Rightarrow> lineage_facets" where
  "run_facets err = \<lparr>lf_error = err, lf_parent = None\<rparr>"

definition step_run_facets :: "('v, 'w) lineage_adapter \<Rightarrow> 'v step_context \<Rightarrow> error option \<Rightarrow> lineage_facets" where
  "step_run_facets la step err = (run_facets err)\<lparr>lf_parent :=
     Some (la_uuid5 la (rc_run_id (sx_run step)), rc_namespace (sx_run step), run_job_name)\<rparr>"

definition run_job :: "string \<Rightarrow> lineage_job" where
  "run_job ns = \<lparr>lj_namespace = ns, lj_name = run_job_name, lj_type = ''MIGRATION_RUN'', lj_tags = None\<rparr>"

definition job_tags :: "'v step_context \<Rightarrow> (string \<times> string) list" where
  "job_tags step = [(''pyverge.migration.name'', sx_name step), (''pyverge.migration.discriminator'', eid_discriminator (sx_edge step))]
     @ (case sx_migration step of None \<Rightarrow> []
        | Some d \<Rightarrow> [(''pyverge.migration.strategy'', md_strategy d), (''pyverge.migration.identity'', md_identity d)])"

definition lineage_run_started :: "('v, 'w) lineage_adapter \<Rightarrow> run_context \<Rightarrow> 'v plan_entry list \<Rightarrow> lineage_event res" where
  "lineage_run_started la run es =
     bindR (mapR (\<lambda>e. dataset_from_node (la_show la) (pe_source e)) es) (\<lambda>ins.
     bindR (mapR (\<lambda>e. dataset_from_node (la_show la) (pe_target e)) es) (\<lambda>outs.
       Inr \<lparr>le_producer = la_producer la, le_type = START, le_run_id = la_uuid5 la (rc_run_id run), le_facets = run_facets None,
         le_job = run_job (rc_namespace run), le_inputs = map lineage_dataset_of ins, le_outputs = map lineage_dataset_of outs\<rparr>))"

definition lineage_run_finished :: "('v, 'w) lineage_adapter \<Rightarrow> run_context \<Rightarrow> run_state \<Rightarrow> error option \<Rightarrow> lineage_event" where
  "lineage_run_finished la run ty err = \<lparr>le_producer = la_producer la, le_type = ty, le_run_id = la_uuid5 la (rc_run_id run),
     le_facets = run_facets err, le_job = run_job (rc_namespace run), le_inputs = [], le_outputs = []\<rparr>"

definition lineage_step_event :: "('v, 'w) lineage_adapter \<Rightarrow> 'v step_context \<Rightarrow> lineage_step \<Rightarrow> run_state \<Rightarrow> error option \<Rightarrow> lineage_event" where
  "lineage_step_event la step sr ty err = \<lparr>le_producer = la_producer la, le_type = ty, le_run_id = la_uuid5 la (lr_run_id sr),
     le_facets = step_run_facets la step err,
     le_job = \<lparr>lj_namespace = rc_namespace (sx_run step), lj_name = lr_job_name sr, lj_type = ''MIGRATION'', lj_tags = Some (job_tags step)\<rparr>,
     le_inputs = [lineage_dataset_of (sx_source_dataset step)], le_outputs = [lineage_dataset_of (sx_target_dataset step)]\<rparr>"

section \<open>The OpenLineage adapter\<close>

type_synonym lineage_key = "string \<times> path \<times> nat"

record 'w lineage_state =
  ls_user :: 'w
  ls_runs :: "string list"
  ls_steps :: "(lineage_key, lineage_step) dict"
  ls_sent :: "lineage_event list"

definition lineage_init :: "'w \<Rightarrow> 'w lineage_state" where
  "lineage_init u = \<lparr>ls_user = u, ls_runs = [], ls_steps = [], ls_sent = []\<rparr>"

definition lineage_send :: "('v, 'w) lineage_adapter \<Rightarrow> lineage_event \<Rightarrow> ('w lineage_state, unit) op" where
  "lineage_send la e st = (case la_client la e (ls_user st) of (r, u) \<Rightarrow> (r, st\<lparr>ls_user := u, ls_sent := ls_sent st @ [e]\<rparr>))"

definition lineage_step_key :: "'v step_context \<Rightarrow> lineage_key" where
  "lineage_step_key step = (rc_run_id (sx_run step), sx_path step, sx_index step)"

definition lineage_job_name :: "('v \<Rightarrow> string) \<Rightarrow> 'v step_context \<Rightarrow> string" where
  "lineage_job_name show step =
     (let base = ''migration.'' @ nid_kind (node_id_of (sx_source step)) @ ''.'' @ show (nid_version (node_id_of (sx_source step)))
            @ ''->'' @ show (nid_version (node_id_of (sx_target step))) in
      if is_default_discriminator (sx_edge step) then base else base @ ''.'' @ eid_discriminator (sx_edge step))"

definition lineage_start_run :: "('v, 'w) lineage_adapter \<Rightarrow> run_context \<Rightarrow> 'v plan_entry list \<Rightarrow> ('w lineage_state, unit) op" where
  "lineage_start_run la run es = bindS (liftS (lineage_run_started la run es)) (\<lambda>e. bindS (lineage_send la e) (\<lambda>_ st.
     (Inr (), st\<lparr>ls_runs := List.insert (rc_run_id run) (ls_runs st)\<rparr>)))"

definition lineage_finish_run :: "('v, 'w) lineage_adapter \<Rightarrow> run_context \<Rightarrow> run_state \<Rightarrow> error option \<Rightarrow> ('w lineage_state, unit) op" where
  "lineage_finish_run la run ty err st = (if rc_run_id run \<notin> set (ls_runs st) then (Inr (), st)
     else lineage_send la (lineage_run_finished la run ty err) (st\<lparr>ls_runs := removeAll (rc_run_id run) (ls_runs st)\<rparr>))"

definition lineage_new_id :: "('v, 'w) lineage_adapter \<Rightarrow> ('w lineage_state, string) op" where
  "lineage_new_id la st = (case la_uuid4 la (ls_user st) of (r, u) \<Rightarrow> (r, st\<lparr>ls_user := u\<rparr>))"

definition lineage_start_step :: "('v, 'w) lineage_adapter \<Rightarrow> 'v step_context \<Rightarrow> ('w lineage_state, unit) op" where
  "lineage_start_step la step st = (if rc_run_id (sx_run step) \<notin> set (ls_runs st) then (Inr (), st)
     else bindS (lineage_new_id la) (\<lambda>i. let sr = \<lparr>lr_run_id = i, lr_job_name = lineage_job_name (la_show la) step\<rparr> in
       bindS (lineage_send la (lineage_step_event la step sr START None)) (\<lambda>_ st.
         (Inr (), st\<lparr>ls_steps := AList.update (lineage_step_key step) sr (ls_steps st)\<rparr>))) st)"

definition lineage_finish_step :: "('v, 'w) lineage_adapter \<Rightarrow> 'v step_context \<Rightarrow> run_state \<Rightarrow> error option \<Rightarrow> ('w lineage_state, unit) op" where
  "lineage_finish_step la step ty err st = (case map_of (ls_steps st) (lineage_step_key step) of
     None \<Rightarrow> (Inr (), st)
   | Some sr \<Rightarrow> lineage_send la (lineage_step_event la step sr ty err) (st\<lparr>ls_steps := AList.delete (lineage_step_key step) (ls_steps st)\<rparr>))"

fun lineage_emit :: "('v, 'w) lineage_adapter \<Rightarrow> 'v telemetry_event \<Rightarrow> ('w lineage_state, unit) op" where
  "lineage_emit la (RunStarted run es) = lineage_start_run la run es"
| "lineage_emit la (RunCompleted run es) = lineage_finish_run la run COMPLETE None"
| "lineage_emit la (RunFailed run es e) = lineage_finish_run la run FAIL (Some e)"
| "lineage_emit la (StepStarted step) = lineage_start_step la step"
| "lineage_emit la (StepCompleted step) = lineage_finish_step la step COMPLETE None"
| "lineage_emit la (StepFailed step e) = lineage_finish_step la step FAIL (Some e)"

text \<open>A sequence of events as the publisher delivers it: what an adapter raises for one event does not stop the others.\<close>

definition deliver :: "('e \<Rightarrow> ('s, unit) op) \<Rightarrow> 'e list \<Rightarrow> 's \<Rightarrow> 's" where
  "deliver adapter evs st = fold (\<lambda>ev s. snd (adapter ev s)) evs st"

lemma deliver_simps [simp]:
  "deliver f [] st = st" "deliver f (ev # evs) st = deliver f evs (snd (f ev st))" "deliver f (xs @ ys) st = deliver f ys (deliver f xs st)"
  by (simp_all add: deliver_def)

section \<open>Balance\<close>

definition started :: "string \<Rightarrow> lineage_event list \<Rightarrow> nat" where
  "started i es = length (filter (\<lambda>e. le_type e = START \<and> le_run_id e = i) es)"

definition ended :: "string \<Rightarrow> lineage_event list \<Rightarrow> nat" where
  "ended i es = length (filter (\<lambda>e. le_type e \<noteq> START \<and> le_run_id e = i) es)"

definition balanced :: "lineage_event list \<Rightarrow> bool" where
  "balanced es \<longleftrightarrow> (\<forall>k i. ended i (take k es) \<le> started i (take k es))"

definition open_ids :: "('v, 'w) lineage_adapter \<Rightarrow> string \<Rightarrow> string list \<Rightarrow> (lineage_key, lineage_step) dict \<Rightarrow> nat" where
  "open_ids la i runs steps = length (filter (\<lambda>r. la_uuid5 la r = i) runs) + length (filter (\<lambda>(_, sr). la_uuid5 la (lr_run_id sr) = i) steps)"

definition lineage_inv :: "('v, 'w) lineage_adapter \<Rightarrow> 'w lineage_state \<Rightarrow> bool" where
  "lineage_inv la st \<longleftrightarrow> distinct (ls_runs st) \<and> dict_ok (ls_steps st) \<and> balanced (ls_sent st)
     \<and> (\<forall>i. ended i (ls_sent st) + open_ids la i (ls_runs st) (ls_steps st) \<le> started i (ls_sent st))"

lemma balanced_snoc: "balanced es \<Longrightarrow> ended (le_run_id e) (es @ [e]) \<le> started (le_run_id e) (es @ [e]) \<Longrightarrow> balanced (es @ [e])"
proof -
  assume a: "balanced es" "ended (le_run_id e) (es @ [e]) \<le> started (le_run_id e) (es @ [e])"
  have "ended i es \<le> started i es" for i using a(1) unfolding balanced_def by (metis order_refl take_all)
  then have "ended i (es @ [e]) \<le> started i (es @ [e])" for i
    using a(2) by (cases "i = le_run_id e") (auto simp: started_def ended_def)
  note snoc = this
  have "ended i (take k (es @ [e])) \<le> started i (take k (es @ [e]))" for k i
  proof (cases "k \<le> length es")
    case True
    then show ?thesis using a(1) by (simp add: balanced_def)
  next
    case False
    then have "take k (es @ [e]) = es @ [e]" by simp
    then show ?thesis using snoc [of i] by presburger
  qed
  then show "balanced (es @ [e])" unfolding balanced_def by blast
qed

lemma counts_snoc:
  "started i (es @ [e]) = started i es + (if le_type e = START \<and> le_run_id e = i then 1 else 0)"
  "ended i (es @ [e]) = ended i es + (if le_type e \<noteq> START \<and> le_run_id e = i then 1 else 0)"
  by (simp_all add: started_def ended_def)

lemma filter_removeAll: "distinct xs \<Longrightarrow> x \<in> set xs \<Longrightarrow> length (filter P xs) = length (filter P (removeAll x xs)) + (if P x then 1 else 0)"
proof (induction xs)
  case (Cons y xs)
  show ?case
  proof (cases "x = y")
    case True
    then have "removeAll x xs = xs" using Cons.prems by simp
    then show ?thesis using True by simp
  next
    case False
    then show ?thesis using Cons by simp
  qed
qed simp

lemma filter_delete: "dict_ok d \<Longrightarrow> map_of d k = Some v \<Longrightarrow>
   length (filter P d) = length (filter P (AList.delete k d)) + (if P (k, v) then 1 else 0)"
proof (induction d)
  case (Cons a d)
  show ?case
  proof (cases "fst a = k")
    case True
    then have "AList.delete k d = d" using Cons.prems(1) by (auto simp: dict_ok_def intro!: delete_id)
    then show ?thesis using True Cons.prems(2) by (cases a) auto
  next
    case False
    then show ?thesis using Cons by (cases a) (auto simp: dict_ok_def)
  qed
qed simp

lemma filter_update: "length (filter P (AList.update k v d)) \<le> length (filter P d) + (if P (k, v) then 1 else 0)"
  by (induction d) auto

lemma lineage_send_state: "snd (lineage_send la e st) = st\<lparr>ls_user := snd (la_client la e (ls_user st)), ls_sent := ls_sent st @ [e]\<rparr>"
  by (simp add: lineage_send_def split: prod.split)

lemma lineage_new_id_state: "lineage_new_id la st = (fst (la_uuid4 la (ls_user st)), st\<lparr>ls_user := snd (la_uuid4 la (ls_user st))\<rparr>)"
  by (simp add: lineage_new_id_def split: prod.split)

lemma lineage_inv_user [simp]: "lineage_inv la (st\<lparr>ls_user := u\<rparr>) = lineage_inv la st"
  by (simp add: lineage_inv_def)

text \<open>Handing over an event keeps the invariant when a start opens and an end closes its identifier.\<close>

lemma lineage_send_inv:
  assumes "lineage_inv la st" "distinct runs" "dict_ok steps"
    and "\<And>i. (if le_type e \<noteq> START \<and> le_run_id e = i then 1 else 0) + open_ids la i runs steps
      \<le> (if le_type e = START \<and> le_run_id e = i then 1 else 0) + open_ids la i (ls_runs st) (ls_steps st)"
  shows "lineage_inv la \<lparr>ls_user = u, ls_runs = runs, ls_steps = steps, ls_sent = ls_sent st @ [e]\<rparr>"
proof -
  have c: "ended i (ls_sent st @ [e]) + open_ids la i runs steps \<le> started i (ls_sent st @ [e])" for i
  proof -
    have "ended i (ls_sent st) + open_ids la i (ls_runs st) (ls_steps st) \<le> started i (ls_sent st)" using assms(1) by (simp add: lineage_inv_def)
    then show ?thesis using assms(4) [of i] unfolding counts_snoc by linarith
  qed
  have "ended i (ls_sent st @ [e]) \<le> started i (ls_sent st @ [e])" for i using c [of i] by simp
  then have "balanced (ls_sent st @ [e])" using assms(1) by (intro balanced_snoc) (simp_all add: lineage_inv_def)
  then show ?thesis using assms(2,3) c by (simp add: lineage_inv_def)
qed

lemma lineage_emit_inv: "lineage_inv la st \<Longrightarrow> lineage_inv la (snd (lineage_emit la ev st))"
proof -
  assume inv: "lineage_inv la st"
  then have d: "distinct (ls_runs st)" "dict_ok (ls_steps st)" by (simp_all add: lineage_inv_def)
  have runs: "lineage_inv la (snd (lineage_finish_run la run ty err st))" if "ty \<noteq> START" for run ty err
  proof (cases "rc_run_id run \<in> set (ls_runs st)")
    case True
    have "lineage_inv la \<lparr>ls_user = u, ls_runs = removeAll (rc_run_id run) (ls_runs st), ls_steps = ls_steps st,
        ls_sent = ls_sent st @ [lineage_run_finished la run ty err]\<rparr>" for u
      by (rule lineage_send_inv [OF inv]) (use d that in \<open>simp_all add: lineage_run_finished_def open_ids_def distinct_removeAll filter_removeAll [OF d(1) True]\<close>)
    then show ?thesis using True by (cases st) (simp add: lineage_finish_run_def lineage_send_state)
  qed (use inv in \<open>simp add: lineage_finish_run_def\<close>)
  have steps: "lineage_inv la (snd (lineage_finish_step la step ty err st))" if "ty \<noteq> START" for step ty err
  proof (cases "map_of (ls_steps st) (lineage_step_key step)")
    case (Some sr)
    have "lineage_inv la \<lparr>ls_user = u, ls_runs = ls_runs st, ls_steps = AList.delete (lineage_step_key step) (ls_steps st),
        ls_sent = ls_sent st @ [lineage_step_event la step sr ty err]\<rparr>" for u
      by (rule lineage_send_inv [OF inv]) (use d that in \<open>simp_all add: lineage_step_event_def open_ids_def dict_ok_delete filter_delete [OF d(2) Some]\<close>)
    then show ?thesis using Some by (cases st) (simp add: lineage_finish_step_def lineage_send_state)
  qed (use inv in \<open>simp add: lineage_finish_step_def\<close>)
  show ?thesis
  proof (cases ev)
    case (RunStarted run es)
    have "lineage_inv la \<lparr>ls_user = u, ls_runs = List.insert (rc_run_id run) (ls_runs st), ls_steps = ls_steps st, ls_sent = ls_sent st @ [e]\<rparr>"
      "lineage_inv la \<lparr>ls_user = u, ls_runs = ls_runs st, ls_steps = ls_steps st, ls_sent = ls_sent st @ [e]\<rparr>"
      if "lineage_run_started la run es = Inr e" for e u
      by (rule lineage_send_inv [OF inv]; use d that in \<open>auto simp: lineage_run_started_def bindR_eq_Inr open_ids_def List.insert_def\<close>)+
    then show ?thesis using RunStarted inv
      by (cases st) (auto simp: lineage_start_run_def bindS_def lineage_send_def split: sum.splits prod.splits)
  next
    case (StepStarted step)
    have "lineage_inv la \<lparr>ls_user = u, ls_runs = ls_runs st, ls_steps = AList.update (lineage_step_key step) sr (ls_steps st),
        ls_sent = ls_sent st @ [lineage_step_event la step sr START None]\<rparr>" for sr u
      by (rule lineage_send_inv [OF inv])
        (use d in \<open>auto simp: lineage_step_event_def open_ids_def dict_ok_update intro!: order_trans [OF filter_update]\<close>)
    moreover have "lineage_inv la \<lparr>ls_user = u, ls_runs = ls_runs st, ls_steps = ls_steps st, ls_sent = ls_sent st @ [lineage_step_event la step sr START None]\<rparr>" for sr u
      by (rule lineage_send_inv [OF inv]) (use d in \<open>simp_all add: lineage_step_event_def\<close>)
    moreover have "lineage_inv la (st\<lparr>ls_user := u\<rparr>)" for u using inv by simp
    ultimately show ?thesis using StepStarted inv
      by (cases st) (auto simp: lineage_start_step_def bindS_def lineage_send_def lineage_new_id_def Let_def split: sum.splits prod.splits)
  qed (use runs steps in simp_all)
qed

lemma lineage_deliver_inv: "lineage_inv la (deliver (lineage_emit la) evs (lineage_init u))"
proof (induction evs rule: rev_induct)
  case Nil
  show ?case by (simp add: lineage_inv_def lineage_init_def balanced_def started_def ended_def open_ids_def)
next
  case (snoc ev evs)
  then show ?case by (simp add: lineage_emit_inv)
qed

text \<open>
  C21. No run or step is reported as ended more often than as started. Whatever events arrive, in whatever order,
  and whatever the client raises, at every point of what was handed to the client each identifier has at most as
  many completions and failures as starts.
\<close>

theorem lineage_balanced: "balanced (ls_sent (deliver (lineage_emit la) evs (lineage_init u)))"
  using lineage_deliver_inv [of la evs u] by (simp add: lineage_inv_def)

section \<open>Separation of runs\<close>

text \<open>A client that never raises, and the run that an event belongs to: its own identifier or that of its parent.\<close>

definition reliable :: "('v, 'w) lineage_adapter \<Rightarrow> bool" where
  "reliable la \<longleftrightarrow> (\<forall>e w. fst (la_client la e w) = Inr ()) \<and> (\<forall>w. okR (fst (la_uuid4 la w)))"

definition lineage_of :: "('v, 'w) lineage_adapter \<Rightarrow> string \<Rightarrow> lineage_event \<Rightarrow> bool" where
  "lineage_of la r e \<longleftrightarrow> (case lf_parent (le_facets e) of None \<Rightarrow> le_run_id e | Some (p, _) \<Rightarrow> p) = la_uuid5 la r"

definition erase_id :: "lineage_event \<Rightarrow> lineage_event" where
  "erase_id e = e\<lparr>le_run_id := []\<rparr>"

definition agrees :: "('v, 'w) lineage_adapter \<Rightarrow> string \<Rightarrow> 'w lineage_state \<Rightarrow> 'w lineage_state \<Rightarrow> bool" where
  "agrees la r st st' \<longleftrightarrow> (r \<in> set (ls_runs st) \<longleftrightarrow> r \<in> set (ls_runs st'))
     \<and> (\<forall>p n. map_option lr_job_name (map_of (ls_steps st) (r, p, n)) = map_option lr_job_name (map_of (ls_steps st') (r, p, n)))
     \<and> map erase_id (filter (lineage_of la r) (ls_sent st)) = map erase_id (ls_sent st')"

lemma reliable_send: "reliable la \<Longrightarrow> lineage_send la e st = (Inr (), st\<lparr>ls_user := snd (la_client la e (ls_user st)), ls_sent := ls_sent st @ [e]\<rparr>)"
  by (cases "la_client la e (ls_user st)") (auto simp: lineage_send_def reliable_def dest!: spec [of _ e] spec [of _ "ls_user st"])

lemma reliable_new_id: "reliable la \<Longrightarrow> \<exists>i u. lineage_new_id la st = (Inr i, st\<lparr>ls_user := u\<rparr>)"
  unfolding reliable_def okR_iff lineage_new_id_state by metis

lemma lineage_of_events:
  "lineage_run_started la run es = Inr e \<Longrightarrow> lineage_of la r e \<longleftrightarrow> la_uuid5 la (rc_run_id run) = la_uuid5 la r"
  "lineage_of la r (lineage_run_finished la run ty err) \<longleftrightarrow> la_uuid5 la (rc_run_id run) = la_uuid5 la r"
  "lineage_of la r (lineage_step_event la step sr ty err) \<longleftrightarrow> la_uuid5 la (rc_run_id (sx_run step)) = la_uuid5 la r"
  by (auto simp: lineage_of_def lineage_run_started_def lineage_run_finished_def lineage_step_event_def run_facets_def step_run_facets_def bindR_eq_Inr)

lemma erase_step_event: "erase_id (lineage_step_event la step sr ty err) = erase_id (lineage_step_event la step sr' ty err) \<longleftrightarrow> lr_job_name sr = lr_job_name sr'"
  by (auto simp: erase_id_def lineage_step_event_def)

lemma emit_other:
  assumes "reliable la" "la_uuid5 la (event_run_id ev) \<noteq> la_uuid5 la r" "agrees la r st st'"
  shows "agrees la r (snd (lineage_emit la ev st)) st'"
proof -
  note u = assms(2)
  show ?thesis
  proof (cases ev)
    case (RunStarted run es)
    then show ?thesis using assms u reliable_send [OF assms(1)]
      by (cases "lineage_run_started la run es") (auto simp: lineage_start_run_def agrees_def lineage_of_events)
  next
    case (StepStarted step)
    obtain i w where "lineage_new_id la st = (Inr i, st\<lparr>ls_user := w\<rparr>)" using reliable_new_id [OF assms(1)] by blast
    then show ?thesis using StepStarted assms u reliable_send [OF assms(1)]
      by (auto simp: lineage_start_step_def agrees_def lineage_of_events Let_def lineage_step_key_def update_conv')
  qed (use assms u reliable_send [OF assms(1)] in \<open>auto simp: lineage_finish_run_def lineage_finish_step_def agrees_def lineage_of_events
      lineage_step_key_def delete_conv' split: option.split\<close>)
qed

lemma emit_own:
  assumes "reliable la" "agrees la r st st'" "event_run_id ev = r"
  shows "agrees la r (snd (lineage_emit la ev st)) (snd (lineage_emit la ev st'))"
proof -
  have fin: "agrees la r (snd (lineage_finish_run la run ty err st)) (snd (lineage_finish_run la run ty err st'))" if "rc_run_id run = r" for run ty err
    using assms(2) that reliable_send [OF assms(1)] by (auto simp: lineage_finish_run_def agrees_def lineage_of_events)
  have step: "agrees la r (snd (lineage_finish_step la step ty err st)) (snd (lineage_finish_step la step ty err st'))" if "rc_run_id (sx_run step) = r" for step ty err
  proof -
    have "map_option lr_job_name (map_of (ls_steps st) (lineage_step_key step)) = map_option lr_job_name (map_of (ls_steps st') (lineage_step_key step))"
      using assms(2) that by (simp add: agrees_def lineage_step_key_def)
    then consider "map_of (ls_steps st) (lineage_step_key step) = None" "map_of (ls_steps st') (lineage_step_key step) = None"
      | sr sr' where "map_of (ls_steps st) (lineage_step_key step) = Some sr" "map_of (ls_steps st') (lineage_step_key step) = Some sr'" "lr_job_name sr = lr_job_name sr'"
      by (cases "map_of (ls_steps st) (lineage_step_key step)"; cases "map_of (ls_steps st') (lineage_step_key step)") auto
    then show ?thesis using assms(2) that reliable_send [OF assms(1)]
      by cases (auto simp: lineage_finish_step_def agrees_def lineage_of_events erase_step_event delete_conv')
  qed
  show ?thesis
  proof (cases ev)
    case (RunStarted run es)
    then show ?thesis using assms reliable_send [OF assms(1)]
      by (cases "lineage_run_started la run es") (auto simp: lineage_start_run_def agrees_def lineage_of_events)
  next
    case (StepStarted step)
    obtain i w where "lineage_new_id la st = (Inr i, st\<lparr>ls_user := w\<rparr>)" using reliable_new_id [OF assms(1)] by blast
    moreover obtain i' w' where "lineage_new_id la st' = (Inr i', st'\<lparr>ls_user := w'\<rparr>)" using reliable_new_id [OF assms(1)] by blast
    ultimately show ?thesis using StepStarted assms reliable_send [OF assms(1)]
      by (auto simp: lineage_start_step_def agrees_def lineage_of_events Let_def lineage_step_key_def update_conv' erase_step_event)
  qed (use fin step assms(3) in auto)
qed

text \<open>
  C20. The lineage of a run does not depend on the other runs. Whatever events of other runs are interleaved with
  those of a run, the events that are handed to a reliable client for it and its steps are, up to the new
  identifiers of steps, the ones that its own events alone give. The only thing asked of \<open>uuid5\<close> is that none
  of the other runs has the identifier of this one.
\<close>

theorem lineage_separate:
  assumes "reliable la" "\<forall>ev \<in> set evs. event_run_id ev \<noteq> r \<longrightarrow> la_uuid5 la (event_run_id ev) \<noteq> la_uuid5 la r"
  shows "map erase_id (filter (lineage_of la r) (ls_sent (deliver (lineage_emit la) evs (lineage_init u))))
    = map erase_id (ls_sent (deliver (lineage_emit la) (filter (\<lambda>ev. event_run_id ev = r) evs) (lineage_init u)))"
proof -
  have "agrees la r (deliver (lineage_emit la) evs (lineage_init u)) (deliver (lineage_emit la) (filter (\<lambda>ev. event_run_id ev = r) evs) (lineage_init u))"
    using assms(2)
  proof (induction evs rule: rev_induct)
    case Nil
    show ?case by (simp add: agrees_def lineage_init_def)
  next
    case (snoc ev evs)
    then have a: "agrees la r (deliver (lineage_emit la) evs (lineage_init u)) (deliver (lineage_emit la) (filter (\<lambda>ev. event_run_id ev = r) evs) (lineage_init u))"
      by simp
    show ?case using emit_other [OF assms(1) _ a] emit_own [OF assms(1) a] snoc.prems by (cases "event_run_id ev = r") simp_all
  qed
  then show ?thesis by (simp add: agrees_def)
qed

section \<open>The end of a run\<close>

fun run_end :: "string \<Rightarrow> 'v telemetry_event \<Rightarrow> bool" where
  "run_end r (RunCompleted run es) \<longleftrightarrow> rc_run_id run = r"
| "run_end r (RunFailed run es e) \<longleftrightarrow> rc_run_id run = r"
| "run_end r _ \<longleftrightarrow> False"

lemma emit_grows: "\<exists>t. ls_sent (snd (lineage_emit la ev st)) = ls_sent st @ t"
  by (cases ev) (auto simp: lineage_start_run_def lineage_finish_run_def lineage_start_step_def lineage_finish_step_def lineage_send_state
      lineage_new_id_state bindS_def lineage_send_def Let_def split: sum.split prod.split option.split)

lemma deliver_grows: "\<exists>t. ls_sent (deliver (lineage_emit la) evs st) = ls_sent st @ t"
proof (induction evs arbitrary: st)
  case (Cons ev evs)
  show ?case using emit_grows [of la ev st] Cons [of "snd (lineage_emit la ev st)"] unfolding deliver_simps by (metis append.assoc)
qed simp

lemma emit_keeps_run: "\<not> run_end r ev \<Longrightarrow> r \<in> set (ls_runs st) \<Longrightarrow> r \<in> set (ls_runs (snd (lineage_emit la ev st)))"
  by (cases ev) (auto simp: lineage_start_run_def lineage_finish_run_def lineage_start_step_def lineage_finish_step_def lineage_send_state
      lineage_new_id_state bindS_def lineage_send_def Let_def split: sum.split prod.split option.split)

lemma deliver_keeps_run: "(\<And>ev. ev \<in> set evs \<Longrightarrow> \<not> run_end r ev) \<Longrightarrow> r \<in> set (ls_runs st) \<Longrightarrow> r \<in> set (ls_runs (deliver (lineage_emit la) evs st))"
  by (induction evs arbitrary: st) (auto simp: emit_keeps_run)

text \<open>
  C19. Every run that is started and ended is reported as such. When a run starts, and its end is the first
  one to arrive after that, a reliable client gets a start event and later, as the last event so far, the completion
  or failure with the same identifier, and the run is not open any more.
\<close>

theorem lineage_run_reported:
  assumes "reliable la" "lineage_run_started la run es = Inr e" "\<forall>ev' \<in> set b. \<not> run_end (rc_run_id run) ev'" "run_end (rc_run_id run) ev"
  shows "\<exists>mid e'. ls_sent (deliver (lineage_emit la) (a @ RunStarted run es # b @ [ev]) (lineage_init u))
      = ls_sent (deliver (lineage_emit la) a (lineage_init u)) @ e # mid @ [e']
    \<and> le_type e = START \<and> le_type e' \<noteq> START \<and> le_run_id e' = le_run_id e
    \<and> rc_run_id run \<notin> set (ls_runs (deliver (lineage_emit la) (a @ RunStarted run es # b @ [ev]) (lineage_init u)))"
proof -
  let ?s0 = "deliver (lineage_emit la) a (lineage_init u)"
  let ?s1 = "snd (lineage_emit la (RunStarted run es) ?s0)"
  let ?s2 = "deliver (lineage_emit la) b ?s1"
  have s1: "ls_sent ?s1 = ls_sent ?s0 @ [e]" "rc_run_id run \<in> set (ls_runs ?s1)"
    by (simp_all add: lineage_start_run_def assms(2) reliable_send [OF assms(1)])
  obtain mid where mid: "ls_sent ?s2 = ls_sent ?s1 @ mid" using deliver_grows by blast
  have open2: "rc_run_id run \<in> set (ls_runs ?s2)" using assms(3) s1(2) by (intro deliver_keeps_run) auto
  have e: "le_type e = START" "le_run_id e = la_uuid5 la (rc_run_id run)" using assms(2) by (auto simp: lineage_run_started_def bindR_eq_Inr)
  have "\<exists>run' ty err. ty \<noteq> START \<and> rc_run_id run' = rc_run_id run \<and> lineage_emit la ev = lineage_finish_run la run' ty err"
    using assms(4) by (cases ev) (auto intro: exI [of _ COMPLETE] exI [of _ FAIL])
  then obtain run' ty err where f: "ty \<noteq> START" "rc_run_id run' = rc_run_id run" "lineage_emit la ev = lineage_finish_run la run' ty err" by blast
  then have "ls_sent (snd (lineage_emit la ev ?s2)) = ls_sent ?s2 @ [lineage_run_finished la run' ty err]"
    "rc_run_id run \<notin> set (ls_runs (snd (lineage_emit la ev ?s2)))"
    using open2 by (simp_all add: lineage_finish_run_def lineage_send_state)
  moreover have "le_type (lineage_run_finished la run' ty err) = ty" "le_run_id (lineage_run_finished la run' ty err) = le_run_id e"
    using f(2) e(2) by (simp_all add: lineage_run_finished_def)
  ultimately show ?thesis using s1(1) mid e(1) f(1) by (intro exI [of _ mid] exI [of _ "lineage_run_finished la run' ty err"]) simp
qed

section \<open>The OpenTelemetry adapter\<close>

text \<open>
  \<open>start_as_current_span\<close> gives a context manager, which is entered, or a plain span. Of a span that is closed the
  attributes and the status are set before its context manager is exited or the span is ended.
\<close>

datatype 'p span_call = SetDuration 'p | RecordException 'p error | StatusError 'p error | StatusOk 'p | ExitScope 'p "error option" | EndSpan 'p

record ('p, 'w) tracer =
  tr_start :: "string \<Rightarrow> (string \<times> json) list \<Rightarrow> ('w, 'p) op"
  tr_is_scope :: "'p \<Rightarrow> bool"
  tr_enter :: "'p \<Rightarrow> ('w, 'p) op"
  tr_call :: "'p span_call \<Rightarrow> ('w, unit) op"

record ('v, 'p, 'w) otel_adapter =
  ot_tracer :: "('p, 'w) tracer"
  ot_service :: string
  ot_show :: "'v \<Rightarrow> string"

record 'p active_span =
  as_span :: 'p
  as_scope :: "'p option"

record ('p, 'w) otel_state =
  os_user :: 'w
  os_runs :: "(string, 'p active_span) dict"
  os_steps :: "(lineage_key, 'p active_span) dict"
  os_opened :: "'p active_span list"
  os_closed :: "'p active_span list"

definition otel_init :: "'w \<Rightarrow> ('p, 'w) otel_state" where
  "otel_init u = \<lparr>os_user = u, os_runs = [], os_steps = [], os_opened = [], os_closed = []\<rparr>"

definition otel_call :: "('w, 'a) op \<Rightarrow> (('p, 'w) otel_state, 'a) op" where
  "otel_call m st = (case m (os_user st) of (r, u) \<Rightarrow> (r, st\<lparr>os_user := u\<rparr>))"

definition otel_enter :: "('v, 'p, 'w) otel_adapter \<Rightarrow> string \<Rightarrow> (string \<times> json) list \<Rightarrow> (('p, 'w) otel_state, 'p active_span) op" where
  "otel_enter ot name attributes = bindS (otel_call (tr_start (ot_tracer ot) name attributes)) (\<lambda>scope.
     bindS (if \<not> tr_is_scope (ot_tracer ot) scope then returnS \<lparr>as_span = scope, as_scope = None\<rparr>
       else bindS (otel_call (tr_enter (ot_tracer ot) scope)) (\<lambda>span. returnS \<lparr>as_span = span, as_scope = Some scope\<rparr>)) (\<lambda>active st.
     (Inr active, st\<lparr>os_opened := os_opened st @ [active]\<rparr>)))"

definition exit_calls :: "'p active_span \<Rightarrow> error option \<Rightarrow> 'p span_call list" where
  "exit_calls active err = [SetDuration (as_span active)]
     @ (case err of Some e \<Rightarrow> [RecordException (as_span active) e, StatusError (as_span active) e] | None \<Rightarrow> [StatusOk (as_span active)])
     @ (case as_scope active of Some scope \<Rightarrow> [ExitScope scope err] | None \<Rightarrow> [EndSpan (as_span active)])"

definition otel_exit :: "('v, 'p, 'w) otel_adapter \<Rightarrow> 'p active_span \<Rightarrow> error option \<Rightarrow> (('p, 'w) otel_state, unit) op" where
  "otel_exit ot active err st = forS (\<lambda>c. otel_call (tr_call (ot_tracer ot) c)) (exit_calls active err) (st\<lparr>os_closed := os_closed st @ [active]\<rparr>)"

definition otel_step_attributes :: "('v, 'p, 'w) otel_adapter \<Rightarrow> 'v step_context \<Rightarrow> (string \<times> json) list" where
  "otel_step_attributes ot step =
     (let source = node_str (ot_show ot) (node_id_of (sx_source step)); target = node_str (ot_show ot) (node_id_of (sx_target step)) in
      [(''service.name'', JStr (ot_service ot)), (''migration.name'', JStr (sx_name step)),
       (''migration.namespace'', JStr (nid_namespace (node_id_of (sx_source step)))), (''migration.kind'', JStr (nid_kind (node_id_of (sx_source step)))),
       (''migration.source'', JStr source), (''migration.target'', JStr target),
       (''migration.from_version'', JStr source), (''migration.to_version'', JStr target),
       (''migration.discriminator'', JStr (eid_discriminator (sx_edge step)))]
      @ (case sx_migration step of None \<Rightarrow> []
         | Some d \<Rightarrow> [(''migration.strategy'', JStr (md_strategy d)), (''migration.identity'', JStr (md_identity d))]))"

definition otel_start_run :: "('v, 'p, 'w) otel_adapter \<Rightarrow> run_context \<Rightarrow> 'v plan_entry list \<Rightarrow> (('p, 'w) otel_state, unit) op" where
  "otel_start_run ot run es = bindS (otel_enter ot (ot_service ot @ ''.run'')
       [(''service.name'', JStr (ot_service ot)), (''run.id'', JStr (rc_run_id run)), (''migration.entries'', JInt (int (length es)))]) (\<lambda>active st.
     (Inr (), st\<lparr>os_runs := AList.update (rc_run_id run) active (os_runs st)\<rparr>))"

definition otel_finish_run :: "('v, 'p, 'w) otel_adapter \<Rightarrow> run_context \<Rightarrow> error option \<Rightarrow> (('p, 'w) otel_state, unit) op" where
  "otel_finish_run ot run err st = (case map_of (os_runs st) (rc_run_id run) of
     None \<Rightarrow> (Inr (), st)
   | Some active \<Rightarrow> otel_exit ot active err (st\<lparr>os_runs := AList.delete (rc_run_id run) (os_runs st)\<rparr>))"

definition otel_start_step :: "('v, 'p, 'w) otel_adapter \<Rightarrow> 'v step_context \<Rightarrow> (('p, 'w) otel_state, unit) op" where
  "otel_start_step ot step = bindS (otel_enter ot (ot_service ot @ ''.migrate'') (otel_step_attributes ot step)) (\<lambda>active st.
     (Inr (), st\<lparr>os_steps := AList.update (lineage_step_key step) active (os_steps st)\<rparr>))"

definition otel_finish_step :: "('v, 'p, 'w) otel_adapter \<Rightarrow> 'v step_context \<Rightarrow> error option \<Rightarrow> (('p, 'w) otel_state, unit) op" where
  "otel_finish_step ot step err st = (case map_of (os_steps st) (lineage_step_key step) of
     None \<Rightarrow> (Inr (), st)
   | Some active \<Rightarrow> otel_exit ot active err (st\<lparr>os_steps := AList.delete (lineage_step_key step) (os_steps st)\<rparr>))"

fun otel_emit :: "('v, 'p, 'w) otel_adapter \<Rightarrow> 'v telemetry_event \<Rightarrow> (('p, 'w) otel_state, unit) op" where
  "otel_emit ot (RunStarted run es) = otel_start_run ot run es"
| "otel_emit ot (RunCompleted run es) = otel_finish_run ot run None"
| "otel_emit ot (RunFailed run es e) = otel_finish_run ot run (Some e)"
| "otel_emit ot (StepStarted step) = otel_start_step ot step"
| "otel_emit ot (StepCompleted step) = otel_finish_step ot step None"
| "otel_emit ot (StepFailed step e) = otel_finish_step ot step (Some e)"

section \<open>Spans\<close>

definition otel_inv :: "('p, 'w) otel_state \<Rightarrow> bool" where
  "otel_inv st \<longleftrightarrow> dict_ok (os_runs st) \<and> dict_ok (os_steps st)
     \<and> mset (os_closed st) + mset (map snd (os_runs st)) + mset (map snd (os_steps st)) \<subseteq># mset (os_opened st)"

lemma mset_delete: "dict_ok d \<Longrightarrow> map_of d k = Some v \<Longrightarrow> mset (map snd d) = add_mset v (mset (map snd (AList.delete k d)))"
proof (induction d)
  case (Cons a d)
  show ?case
  proof (cases "fst a = k")
    case True
    then have "AList.delete k d = d" using Cons.prems(1) by (auto simp: dict_ok_def intro!: delete_id)
    then show ?thesis using True Cons.prems(2) by (cases a) auto
  next
    case False
    then show ?thesis using Cons by (cases a) (auto simp: dict_ok_def)
  qed
qed simp

lemma mset_update: "mset (map snd (AList.update k v d)) \<subseteq># add_mset v (mset (map snd d))"
  by (induction d) auto

lemma otel_call_keeps [keeps_intros]: "(\<And>st u. P (st\<lparr>os_user := u\<rparr>) = P st) \<Longrightarrow> keeps P (otel_call m)"
  by (auto simp: keeps_def otel_call_def split: prod.split)

lemma otel_inv_user [simp]: "otel_inv (st\<lparr>os_user := u\<rparr>) = otel_inv st"
  by (simp add: otel_inv_def)

text \<open>What entering a span does to the state: nothing but that it was opened, or nothing at all when it raises.\<close>

lemma otel_enter_cases:
  obtains e u where "otel_enter ot name attributes st = (Inl e, st\<lparr>os_user := u\<rparr>)"
  | active u where "otel_enter ot name attributes st = (Inr active, st\<lparr>os_user := u, os_opened := os_opened st @ [active]\<rparr>)"
proof (cases "tr_start (ot_tracer ot) name attributes (os_user st)")
  case (Pair r u)
  show thesis
  proof (cases r)
    case (Inl e)
    then show thesis using Pair that(1) by (simp add: otel_enter_def otel_call_def bindS_def)
  next
    case (Inr scope)
    then have enter: "otel_enter ot name attributes st = bindS (if \<not> tr_is_scope (ot_tracer ot) scope then returnS \<lparr>as_span = scope, as_scope = None\<rparr>
        else bindS (otel_call (tr_enter (ot_tracer ot) scope)) (\<lambda>span. returnS \<lparr>as_span = span, as_scope = Some scope\<rparr>)) (\<lambda>active st.
        (Inr active, st\<lparr>os_opened := os_opened st @ [active]\<rparr>)) (st\<lparr>os_user := u\<rparr>)" (is "_ = ?rest")
      using Pair by (simp add: otel_enter_def otel_call_def bindS_def)
    have "(\<exists>e v. ?rest = (Inl e, st\<lparr>os_user := v\<rparr>)) \<or> (\<exists>active v. ?rest = (Inr active, st\<lparr>os_user := v, os_opened := os_opened st @ [active]\<rparr>))"
      by (cases "tr_enter (ot_tracer ot) scope u"; cases "fst (tr_enter (ot_tracer ot) scope u)"; cases "tr_is_scope (ot_tracer ot) scope"; cases st)
        (auto simp: otel_call_def bindS_def)
    then show thesis using that unfolding enter by blast
  qed
qed

lemma otel_exit_inv: "otel_inv (st\<lparr>os_closed := os_closed st @ [active]\<rparr>) \<Longrightarrow> otel_inv (snd (otel_exit ot active err st))"
  unfolding otel_exit_def by (rule keepsD [of otel_inv]) (auto intro!: keeps_intros)

lemma otel_emit_inv: "otel_inv st \<Longrightarrow> otel_inv (snd (otel_emit ot ev st))"
proof -
  assume inv: "otel_inv st"
  then have d: "dict_ok (os_runs st)" "dict_ok (os_steps st)"
    and m: "mset (os_closed st) + mset (map snd (os_runs st)) + mset (map snd (os_steps st)) \<subseteq># mset (os_opened st)" by (simp_all add: otel_inv_def)
  have fr: "otel_inv (snd (otel_finish_run ot run err st))" for run err
  proof (cases "map_of (os_runs st) (rc_run_id run)")
    case (Some active)
    have "otel_inv (st\<lparr>os_runs := AList.delete (rc_run_id run) (os_runs st), os_closed := os_closed st @ [active]\<rparr>)"
      using d m mset_delete [OF d(1) Some] by (simp add: otel_inv_def dict_ok_delete)
    then show ?thesis using Some by (simp add: otel_finish_run_def otel_exit_inv)
  qed (use inv in \<open>simp add: otel_finish_run_def\<close>)
  have fs: "otel_inv (snd (otel_finish_step ot step err st))" for step err
  proof (cases "map_of (os_steps st) (lineage_step_key step)")
    case (Some active)
    have "otel_inv (st\<lparr>os_steps := AList.delete (lineage_step_key step) (os_steps st), os_closed := os_closed st @ [active]\<rparr>)"
      using d m mset_delete [OF d(2) Some] by (simp add: otel_inv_def dict_ok_delete)
    then show ?thesis using Some by (simp add: otel_finish_step_def otel_exit_inv)
  qed (use inv in \<open>simp add: otel_finish_step_def\<close>)
  have up: "A + M + B \<subseteq># add_mset v X" if "A + C + B \<subseteq># X" "M \<subseteq># add_mset v C" for A B C M X :: "'a active_span multiset" and v
  proof -
    have "A + M + B \<subseteq># A + add_mset v C + B" using that(2) by (intro subset_mset.add_mono) simp_all
    also have "\<dots> = add_mset v (A + C + B)" by simp
    also have "\<dots> \<subseteq># add_mset v X" using that(1) by (simp only: mset_subset_eq_add_mset_cancel)
    finally show ?thesis .
  qed
  show ?thesis
  proof (cases ev)
    case (RunStarted run es)
    show ?thesis
      by (rule otel_enter_cases [of ot "ot_service ot @ ''.run''"
            "[(''service.name'', JStr (ot_service ot)), (''run.id'', JStr (rc_run_id run)), (''migration.entries'', JInt (int (length es)))]" st])
        (use RunStarted inv d up [OF m mset_update] in \<open>auto simp: otel_start_run_def otel_inv_def dict_ok_update\<close>)
  next
    case (StepStarted step)
    have m': "mset (os_closed st) + mset (map snd (os_steps st)) + mset (map snd (os_runs st)) \<subseteq># mset (os_opened st)" using m by (simp add: ac_simps)
    show ?thesis
      by (rule otel_enter_cases [of ot "ot_service ot @ ''.migrate''" "otel_step_attributes ot step" st])
        (use StepStarted inv d up [OF m' mset_update] in \<open>auto simp: otel_start_step_def otel_inv_def dict_ok_update ac_simps\<close>)
  qed (use fr fs in simp_all)
qed

text \<open>
  No span is closed that was not opened, and none is closed twice, whatever events arrive and whatever the tracer
  raises: the closed spans together with those that are still open are among the opened ones, with multiplicity.
\<close>

theorem otel_spans_closed_once:
  fixes ot :: "('v, 'p, 'w) otel_adapter"
  shows "let st = deliver (otel_emit ot) evs (otel_init u) in
    mset (os_closed st) + mset (map snd (os_runs st)) + mset (map snd (os_steps st)) \<subseteq># mset (os_opened st)"
proof -
  have "otel_inv (deliver (otel_emit ot) evs (otel_init u))"
    by (induction evs rule: rev_induct) (simp_all add: otel_emit_inv, simp add: otel_inv_def otel_init_def)
  then show ?thesis by (simp add: otel_inv_def Let_def)
qed

section \<open>Publishing errors only\<close>

text \<open>
  What both adapters promise to the publisher: an adapter that is idle, because it has seen no start, has nothing
  to do for a failure.
\<close>

locale lifecycle_adapter =
  fixes adapter :: "'v telemetry_event \<Rightarrow> ('s, unit) op"
    and idle :: "'s \<Rightarrow> bool"
  assumes idle_failure: "idle s \<Longrightarrow> is_failure ev \<Longrightarrow> adapter ev s = (Inr (), s)"
begin

lemma errors_only:
  assumes "tp_mode t = ''errors''" "tp_adapters t = [adapter]" "idle (wd_user w)"
  shows "wd_user (deliver (emit t) evs w) = wd_user w"
  using assms(3)
proof (induction evs arbitrary: w)
  case (Cons ev evs)
  have "wd_user (snd (emit t ev w)) = wd_user w"
    using idle_failure [OF Cons.prems, of ev] assms(1,2) by (cases "is_failure ev") (auto simp: emit_def catchS_def outside_call_def bindS_def)
  then show ?case using Cons.IH [of "snd (emit t ev w)"] Cons.prems by simp
qed simp

end

interpretation lineage_life: lifecycle_adapter "lineage_emit la" "\<lambda>st. ls_runs st = [] \<and> ls_steps st = []" for la :: "('v, 'w) lineage_adapter"
proof
  show "lineage_emit la ev s = (Inr (), s)" if "ls_runs s = [] \<and> ls_steps s = []" "is_failure ev" for s ev
    using that by (cases ev) (simp_all add: lineage_finish_run_def lineage_finish_step_def)
qed

interpretation otel_life: lifecycle_adapter "otel_emit ot" "\<lambda>st. os_runs st = [] \<and> os_steps st = []" for ot :: "('v, 'p, 'w) otel_adapter"
proof
  show "otel_emit ot ev s = (Inr (), s)" if "os_runs s = [] \<and> os_steps s = []" "is_failure ev" for s ev
    using that by (cases ev) (simp_all add: otel_finish_run_def otel_finish_step_def)
qed

text \<open>
  C22. Publishing errors only reports nothing. With the mode \<open>errors\<close> the publisher delivers failures but no starts,
  and both adapters drop the failure of a run or a step whose start they have not seen: whatever fails, the client
  of OpenLineage gets no event, and the tracer of OpenTelemetry opens and closes no span.
\<close>

theorem errors_mode_silent:
  assumes "tp_mode t = ''errors''" "tp_adapters t = [lineage_emit la]" "tp_mode t' = ''errors''" "tp_adapters t' = [otel_emit ot]"
  shows "wd_user (deliver (emit t) evs \<lparr>wd_user = lineage_init u, wd_trace = []\<rparr>) = lineage_init u
    \<and> wd_user (deliver (emit t') evs' \<lparr>wd_user = otel_init u', wd_trace = []\<rparr>) = otel_init u'"
  using lineage_life.errors_only [OF assms(1,2), of "\<lparr>wd_user = lineage_init u, wd_trace = []\<rparr>" evs]
    otel_life.errors_only [OF assms(3,4), of "\<lparr>wd_user = otel_init u', wd_trace = []\<rparr>" evs']
  by (simp add: lineage_init_def otel_init_def)

section \<open>Two interleaved runs\<close>

definition sample_lineage :: "(nat, nat) lineage_adapter" where
  "sample_lineage = \<lparr>la_client = (\<lambda>_ w. (Inr (), w)), la_producer = ''p'', la_uuid5 = take 16, la_uuid4 = (\<lambda>w. (Inr (show_nat w), Suc w)), la_show = show_nat\<rparr>"

definition sample_run :: "string \<Rightarrow> run_context" where
  "sample_run i = \<lparr>rc_run_id = i, rc_namespace = ''n'', rc_bindings = context_empty\<rparr>"

definition sample_events :: "nat telemetry_event list" where
  "sample_events = [RunStarted (sample_run ''a'') [], RunStarted (sample_run ''b'') [], RunFailed (sample_run ''b'') [] ValueError, RunCompleted (sample_run ''a'') []]"

lemma sample_reliable: "reliable sample_lineage"
  by (simp add: reliable_def sample_lineage_def)

text \<open>The two runs of the sample have different identifiers, although the identifiers of runs are not unique in general.\<close>

theorem lineage_separate_witness:
  "map le_type (filter (lineage_of sample_lineage ''a'') (ls_sent (deliver (lineage_emit sample_lineage) sample_events (lineage_init 0)))) = [START, COMPLETE]
   \<and> map erase_id (filter (lineage_of sample_lineage ''a'') (ls_sent (deliver (lineage_emit sample_lineage) sample_events (lineage_init 0))))
     = map erase_id (ls_sent (deliver (lineage_emit sample_lineage) (filter (\<lambda>ev. event_run_id ev = ''a'') sample_events) (lineage_init 0)))"
proof (rule conjI)
  show "map le_type (filter (lineage_of sample_lineage ''a'') (ls_sent (deliver (lineage_emit sample_lineage) sample_events (lineage_init 0)))) = [START, COMPLETE]"
    by code_simp
  show "map erase_id (filter (lineage_of sample_lineage ''a'') (ls_sent (deliver (lineage_emit sample_lineage) sample_events (lineage_init 0))))
     = map erase_id (ls_sent (deliver (lineage_emit sample_lineage) (filter (\<lambda>ev. event_run_id ev = ''a'') sample_events) (lineage_init 0)))"
    by (rule lineage_separate [OF sample_reliable]) (simp add: sample_events_def sample_run_def sample_lineage_def)
qed

theorem lineage_run_reported_witness:
  "''a'' \<notin> set (ls_runs (deliver (lineage_emit sample_lineage) sample_events (lineage_init 0)))"
proof -
  obtain e where e: "lineage_run_started sample_lineage (sample_run ''a'') [] = Inr e" by (simp add: lineage_run_started_def)
  have "\<forall>ev' \<in> set [RunStarted (sample_run ''b'') [], RunFailed (sample_run ''b'') [] ValueError :: nat telemetry_event]. \<not> run_end (rc_run_id (sample_run ''a'')) ev'"
    "run_end (rc_run_id (sample_run ''a'')) (RunCompleted (sample_run ''a'') [] :: nat telemetry_event)" by (simp_all add: sample_run_def)
  from lineage_run_reported [OF sample_reliable e this, of "[]" 0] show ?thesis by (auto simp: sample_events_def sample_run_def)
qed

theorem errors_mode_silent_witness:
  "wd_user (deliver (emit \<lparr>tp_adapters = [lineage_emit sample_lineage], tp_mode = ''errors'', tp_sample_rate = 1, tp_fraction = (\<lambda>_. 0)\<rparr>)
      sample_events \<lparr>wd_user = lineage_init 0, wd_trace = []\<rparr>) = lineage_init 0"
  using errors_mode_silent [of "\<lparr>tp_adapters = [lineage_emit sample_lineage], tp_mode = ''errors'', tp_sample_rate = 1, tp_fraction = (\<lambda>_. 0)\<rparr>" sample_lineage
      "\<lparr>tp_adapters = [otel_emit ot], tp_mode = ''errors'', tp_sample_rate = 1, tp_fraction = (\<lambda>_. 0)\<rparr>" ot for ot :: "(nat, nat, nat) otel_adapter"]
  by simp

end
