(* ===== verification/Patches.thy ===== *)
theory Patches
  imports Registry
begin

text \<open>
  Migrations as JSON patches and back: the renderer of a diff (\<open>discovery/reflection/render.py\<close>), the
  declarative migration that wraps a patch (\<open>migrations/json_patch\<close>), the discovery of a diff from a patch or
  from the syntax tree of a function (\<open>discovery/reflection/discovery.py\<close>), and the reflection that the registry
  uses (\<open>discovery/reflection/reflection.py\<close>, \<open>core/registry/reflection.py\<close>). Operations of a patch are Python
  dictionaries; the constructor of the \<open>jsonpatch\<close> package is a parameter that accepts or rejects them.
\<close>

section \<open>Python dictionaries as values\<close>

definition py_dict :: "(string \<times> pyval) list \<Rightarrow> pyval" where
  "py_dict d = PMap (map (\<lambda>(k, v). (PStr k, v)) d)"

text \<open>\<open>op.get(key)\<close>, and \<open>op.get(key, "")\<close> as a text.\<close>

fun py_get :: "pyval \<Rightarrow> string \<Rightarrow> pyval option res" where
  "py_get (PMap m) k = Inr (map_of m (PStr k))"
| "py_get _ k = Inl AttributeError"

definition py_text :: "pyval \<Rightarrow> string \<Rightarrow> string res" where
  "py_text op k = bindR (py_get op k) (\<lambda>x. case x of
     None \<Rightarrow> Inr [] | Some (PStr s) \<Rightarrow> Inr s | Some (PBytes _) \<Rightarrow> Inl TypeError | Some _ \<Rightarrow> Inl AttributeError)"

section \<open>Rendering\<close>

definition pointer_to :: "string \<Rightarrow> pyval" where
  "pointer_to field = PStr (CHR ''/'' # field)"

definition render_added :: "'v diff \<Rightarrow> string \<Rightarrow> pyval" where
  "render_added d field = py_dict [(''op'', PStr ''add''), (''path'', pointer_to field), (''value'', added_default d field)]"

definition render_removed :: "string \<Rightarrow> pyval" where
  "render_removed field = py_dict [(''op'', PStr ''remove''), (''path'', pointer_to field)]"

definition render_modified :: "string \<times> (string \<times> pyval) list \<Rightarrow> pyval res" where
  "render_modified = (\<lambda>(field, changes).
     bindR (case map_of changes ''required_changed'' of
              None \<Rightarrow> Inr False | Some rc \<Rightarrow> bindR (py_item rc ''from'') (\<lambda>was. Inr (\<not> py_truthy was))) (\<lambda>relaxed.
       Inr (py_dict ([(''op'', PStr ''replace''), (''path'', pointer_to field), (''changes'', py_dict changes)]
         @ (if dict_has changes ''type_changed'' \<or> relaxed then [(''value'', PNone)] else [])))))"

definition render_patch :: "'v diff \<Rightarrow> pyval list res" where
  "render_patch d = bindR (mapR render_modified (modified_fields d)) (\<lambda>replaced.
     Inr (map (render_added d) (added_fields d) @ map render_removed (removed_fields d) @ replaced))"

section \<open>Patch migrations\<close>

record patch_migration =
  pm_spec :: pyval
  pm_ops :: "pyval list"

text \<open>\<open>_translate\<close>: a move or a copy names its destination \<open>to\<close>.\<close>

definition translate_op :: "pyval \<Rightarrow> pyval res" where
  "translate_op op = bindR (py_get op ''op'') (\<lambda>kind.
     if kind = Some (PStr ''move'') \<or> kind = Some (PStr ''copy'')
     then bindR (py_item op ''to'') (\<lambda>to. case op of PMap m \<Rightarrow> Inr (PMap (AList.update (PStr ''path'') to m)) | _ \<Rightarrow> Inl TypeError)
     else Inr op)"

definition version_text :: "pyval \<Rightarrow> string \<Rightarrow> unit res" where
  "version_text spec key = bindR (py_get spec key) (\<lambda>x. case x of Some (PStr (c # s)) \<Rightarrow> Inr () | _ \<Rightarrow> Inl ValueError)"

definition mk_patch_migration :: "(pyval list \<Rightarrow> unit res) \<Rightarrow> pyval \<Rightarrow> patch_migration res" where
  "mk_patch_migration json_patch spec = (case spec of
     PMap m \<Rightarrow>
       bindR (version_text spec ''from'') (\<lambda>_. bindR (version_text spec ''to'') (\<lambda>_.
       bindR (py_get spec ''ops'') (\<lambda>ops. case ops of
         Some (PSeq (op # rest)) \<Rightarrow> bindR (mapR translate_op (op # rest)) (\<lambda>translated.
           bindR (json_patch translated) (\<lambda>_. Inr \<lparr>pm_spec = spec, pm_ops = translated\<rparr>))
       | _ \<Rightarrow> Inl ValueError)))
   | _ \<Rightarrow> Inl ValueError)"

definition patch_identity :: "patch_migration \<Rightarrow> migration_descriptor res" where
  "patch_identity m = bindR (canonical_dumps (pm_spec m)) (\<lambda>text. Inr \<lparr>md_strategy = ''jsonpatch'', md_identity = text\<rparr>)"

text \<open>\<open>JsonPatchMigrationBackend.materialize\<close>; \<open>show\<close> is \<open>str\<close> of a version.\<close>

definition patch_materialize :: "('v \<Rightarrow> string) \<Rightarrow> (pyval list \<Rightarrow> unit res) \<Rightarrow> 'v diff \<Rightarrow> patch_migration res" where
  "patch_materialize show json_patch d = bindR (render_patch d) (\<lambda>ops.
     mk_patch_migration json_patch (py_dict [(''from'', PStr (show (nid_version (node_id_of (diff_source d))))),
       (''to'', PStr (show (nid_version (node_id_of (diff_target d))))), (''ops'', PSeq ops)]))"

section \<open>Discovery from a patch\<close>

record discovered =
  dc_added :: "string list"
  dc_removed :: "string list"
  dc_modified :: "(string, (string \<times> pyval) list) dict"

definition nothing_discovered :: discovered where
  "nothing_discovered = \<lparr>dc_added = [], dc_removed = [], dc_modified = []\<rparr>"

text \<open>\<open>path.lstrip("/").split("/", 1)[0]\<close>.\<close>

definition top_field :: "string \<Rightarrow> string" where
  "top_field s = takeWhile (\<lambda>c. c \<noteq> CHR ''/'') (dropWhile (\<lambda>c. c = CHR ''/'') s)"

definition add_name :: "string \<Rightarrow> string list \<Rightarrow> string list" where
  "add_name n ns = (if n \<in> set ns then ns else ns @ [n])"

definition mark_modified :: "string \<Rightarrow> string \<Rightarrow> pyval \<Rightarrow> (string, (string \<times> pyval) list) dict \<Rightarrow> (string, (string \<times> pyval) list) dict" where
  "mark_modified field key v d = AList.update field (AList.update key v (dict_get d field [])) d"

definition record_move :: "string \<Rightarrow> pyval \<Rightarrow> discovered \<Rightarrow> discovered res" where
  "record_move field op dc = bindR (py_text op ''from'') (\<lambda>from. let source = top_field from in
     Inr (dc\<lparr>dc_removed := (if source \<noteq> [] then add_name source (dc_removed dc) else dc_removed dc),
             dc_added := add_name field (dc_added dc)\<rparr>))"

definition record_op :: "pyval \<Rightarrow> discovered \<Rightarrow> discovered res" where
  "record_op op dc = bindR (py_text op ''path'') (\<lambda>path. let field = top_field path in
     if field = [] then Inr dc
     else bindR (py_get op ''op'') (\<lambda>kind.
       if kind = Some (PStr ''add'') then Inr (dc\<lparr>dc_added := add_name field (dc_added dc)\<rparr>)
       else if kind = Some (PStr ''remove'') then Inr (dc\<lparr>dc_removed := add_name field (dc_removed dc)\<rparr>)
       else if kind = Some (PStr ''replace'') then bindR (py_get op ''value'') (\<lambda>v.
         Inr (dc\<lparr>dc_modified := mark_modified field ''value_changed'' (from_to PNone (case v of None \<Rightarrow> PNone | Some x \<Rightarrow> x)) (dc_modified dc)\<rparr>))
       else if kind = Some (PStr ''move'') \<or> kind = Some (PStr ''copy'') then record_move field op dc
       else Inr dc))"

primrec collect_ops :: "pyval list \<Rightarrow> discovered \<Rightarrow> discovered res" where
  "collect_ops [] dc = Inr dc"
| "collect_ops (op # ops) dc = bindR (record_op op dc) (collect_ops ops)"

definition discovered_fields :: "discovered \<Rightarrow> (string, field_change) frozen_map" where
  "discovered_fields dc = dict_of (map (\<lambda>n. (n, FieldChange ADDED [])) (sort (dc_added dc))
     @ map (\<lambda>n. (n, FieldChange REMOVED [])) (sort (dc_removed dc))
     @ map (\<lambda>(n, changes). (n, FieldChange MODIFIED changes)) (dc_modified dc))"

definition discovered_diff :: "'v node \<Rightarrow> 'v node \<Rightarrow> discovered \<Rightarrow> 'v diff" where
  "discovered_diff source target dc =
     \<lparr>diff_source = source, diff_target = target, diff_fields = discovered_fields dc, diff_origin = MIGRATION\<rparr>"

definition discover_patch :: "pyval list \<Rightarrow> 'v node \<Rightarrow> 'v node \<Rightarrow> 'v diff res" where
  "discover_patch ops source target = bindR (collect_ops ops nothing_discovered) (\<lambda>dc. Inr (discovered_diff source target dc))"

section \<open>Discovery from a function\<close>

text \<open>
  The nodes of a syntax tree as far as the discovery looks at them, in the order of \<open>ast.walk\<close>. A dictionary
  display has a key or, for an unpacking, none.
\<close>

datatype py_expr = NameExpr string | StrConstant string | SubscriptExpr py_expr py_expr | DictExpr "py_expr option list" | OtherExpr

datatype py_node = AssignNode "py_expr list" | DeleteNode "py_expr list" | ReturnNode "py_expr option" | OtherNode

fun subscript_key :: "py_expr \<Rightarrow> string option" where
  "subscript_key (StrConstant s) = Some s"
| "subscript_key _ = None"

fun assign_target :: "py_expr \<Rightarrow> discovered \<Rightarrow> discovered" where
  "assign_target (SubscriptExpr (NameExpr x) key) dc = (if x \<noteq> ''data'' then dc else (case subscript_key key of
     None \<Rightarrow> dc | Some k \<Rightarrow> dc\<lparr>dc_added := add_name k (dc_added dc)\<rparr>))"
| "assign_target (SubscriptExpr (SubscriptExpr outer key) _) dc = (if outer \<noteq> NameExpr ''data'' then dc else (case subscript_key key of
     None \<Rightarrow> dc | Some k \<Rightarrow> dc\<lparr>dc_modified := mark_modified k ''nested_changed'' (PBool True) (dc_modified dc)\<rparr>))"
| "assign_target _ dc = dc"

fun delete_target :: "py_expr \<Rightarrow> discovered \<Rightarrow> discovered" where
  "delete_target (SubscriptExpr (NameExpr x) key) dc = (if x \<noteq> ''data'' then dc else (case subscript_key key of
     None \<Rightarrow> dc | Some k \<Rightarrow> dc\<lparr>dc_removed := add_name k (dc_removed dc)\<rparr>))"
| "delete_target _ dc = dc"

fun return_key :: "py_expr option \<Rightarrow> discovered \<Rightarrow> discovered" where
  "return_key (Some (StrConstant s)) dc = dc\<lparr>dc_added := add_name s (dc_added dc)\<rparr>"
| "return_key _ dc = dc"

fun record_node :: "py_node \<Rightarrow> discovered \<Rightarrow> discovered" where
  "record_node (AssignNode targets) dc = fold assign_target targets dc"
| "record_node (DeleteNode targets) dc = fold delete_target targets dc"
| "record_node (ReturnNode (Some (DictExpr ks))) dc = fold return_key ks dc"
| "record_node _ dc = dc"

text \<open>A function whose source cannot be found has an empty diff; \<open>ast.parse\<close> may raise.\<close>

definition discover_callable :: "py_node list option res \<Rightarrow> 'v node \<Rightarrow> 'v node \<Rightarrow> 'v diff res" where
  "discover_callable source_tree source target = bindR source_tree (\<lambda>tree. case tree of
     None \<Rightarrow> Inr \<lparr>diff_source = source, diff_target = target, diff_fields = [], diff_origin = MIGRATION\<rparr>
   | Some nodes \<Rightarrow> Inr (discovered_diff source target (fold record_node nodes nothing_discovered)))"

section \<open>Reflection\<close>

text \<open>What the discovery sees of a migration: a patch, something that has a patch, or a function.\<close>

datatype migration_body = PatchBody "pyval list" | PatchHolder "pyval list" | FunctionBody "py_node list option res"

definition discover :: "migration_body \<Rightarrow> 'v node \<Rightarrow> 'v node \<Rightarrow> 'v diff res" where
  "discover body source target = (case body of
     PatchBody ops \<Rightarrow> discover_patch ops source target
   | PatchHolder ops \<Rightarrow> discover_patch ops source target
   | FunctionBody tree \<Rightarrow> discover_callable tree source target)"

text \<open>\<open>AbstractModelAdapter.diff\<close> of two schemas; a source without a descriptor has no fields to compare.\<close>

definition adapter_diff :: "('v \<Rightarrow> string) \<Rightarrow> 'v node \<Rightarrow> 'v node \<Rightarrow> 'v diff res" where
  "adapter_diff strategy_of source target = (case source of
     ModelNode i r d \<Rightarrow> build_diff strategy_of i r d target | _ \<Rightarrow> Inl AttributeError)"

definition reflection_diff :: "('v \<Rightarrow> string) \<Rightarrow> migration_body option \<Rightarrow> 'v node \<Rightarrow> 'v node \<Rightarrow> 'v diff res" where
  "reflection_diff strategy_of migration source target = (case migration of
     Some body \<Rightarrow> discover body source target | None \<Rightarrow> adapter_diff strategy_of source target)"

definition reflector_reflect :: "('v diff \<Rightarrow> 'v node option res) \<Rightarrow> 'v diff \<Rightarrow> 'v node res" where
  "reflector_reflect materializer d = bindR (materializer d) (\<lambda>made. case made of
     Some n \<Rightarrow> if is_model n then Inr n else Inl TypeError | None \<Rightarrow> Inl TypeError)"

definition reflector_propose :: "('v \<Rightarrow> string) \<Rightarrow> ('v diff \<Rightarrow> 'b res) \<Rightarrow> 'v node \<Rightarrow> 'v node \<Rightarrow> 'b res" where
  "reflector_propose strategy_of materializer source target =
     (if nid_kind (node_id_of source) \<noteq> nid_kind (node_id_of target) then Inl CatalogError
      else if strategy_of (nid_version (node_id_of source)) \<noteq> strategy_of (nid_version (node_id_of target)) then Inl CatalogError
      else bindR (reflection_diff strategy_of None source target) materializer)"

text \<open>The reflection that a manager configures for its registry, over the body of each callable.\<close>

definition reflector :: "('v \<Rightarrow> string) \<Rightarrow> ('v \<Rightarrow> string) \<Rightarrow> (pyval list \<Rightarrow> unit res) \<Rightarrow> (callable \<Rightarrow> migration_body)
    \<Rightarrow> ('v diff \<Rightarrow> 'v node option res) \<Rightarrow> ('v, patch_migration) reflection_port" where
  "reflector strategy_of show json_patch body_of materializer =
     \<lparr>rp_diff = (\<lambda>source target func. reflection_diff strategy_of (map_option body_of func) source target),
      rp_reflect = reflector_reflect materializer, rp_bind = patch_materialize show json_patch\<rparr>"

section \<open>What a discovery records\<close>

lemma set_add_name [simp]: "set (add_name n ns) = insert n (set ns)"
  by (auto simp: add_name_def)

lemma keys_mark_modified [simp]: "fst ` set (mark_modified field key v d) = insert field (fst ` set d)"
  by (auto simp: mark_modified_def update_conv' simp flip: dom_map_of_conv_image_fst split: if_splits)

lemma map_of_names: "map_of (map (\<lambda>n. (n, c)) ns) n = (if n \<in> set ns then Some c else None)"
  by (induction ns) auto

text \<open>A name that was recorded in several ways counts as modified first, then as removed, then as added.\<close>

lemma discovered_status:
  "has_status MODIFIED (discovered_diff a b dc) n \<longleftrightarrow> n \<in> fst ` set (dc_modified dc)"
  "has_status REMOVED (discovered_diff a b dc) n \<longleftrightarrow> n \<in> set (dc_removed dc) \<and> n \<notin> fst ` set (dc_modified dc)"
  "has_status ADDED (discovered_diff a b dc) n \<longleftrightarrow> n \<in> set (dc_added dc) \<and> n \<notin> set (dc_removed dc) \<and> n \<notin> fst ` set (dc_modified dc)"
  "\<not> has_status UNCHANGED (discovered_diff a b dc) n"
proof -
  have m: "map_of (rev (map (\<lambda>(n, changes). (n, FieldChange MODIFIED changes)) d)) n = map_option (FieldChange MODIFIED) (map_of (rev d) n)" for d n
    by (induction d) (auto simp: map_add_def split: option.splits)
  have "map_of (diff_fields (discovered_diff a b dc)) n = (case map_of (rev (dc_modified dc)) n of
      Some changes \<Rightarrow> Some (FieldChange MODIFIED changes)
    | None \<Rightarrow> if n \<in> set (dc_removed dc) then Some (FieldChange REMOVED [])
        else if n \<in> set (dc_added dc) then Some (FieldChange ADDED []) else None)"
    using m [of "dc_modified dc"] by (cases "map_of (rev (dc_modified dc)) n")
      (simp_all add: discovered_diff_def discovered_fields_def map_of_dict_of map_add_def, simp_all add: rev_map map_of_names)
  moreover have "map_of (rev (dc_modified dc)) n = None \<longleftrightarrow> n \<notin> fst ` set (dc_modified dc)" by (simp add: map_of_eq_None_iff)
  ultimately show "has_status MODIFIED (discovered_diff a b dc) n \<longleftrightarrow> n \<in> fst ` set (dc_modified dc)"
    "has_status REMOVED (discovered_diff a b dc) n \<longleftrightarrow> n \<in> set (dc_removed dc) \<and> n \<notin> fst ` set (dc_modified dc)"
    "has_status ADDED (discovered_diff a b dc) n \<longleftrightarrow> n \<in> set (dc_added dc) \<and> n \<notin> set (dc_removed dc) \<and> n \<notin> fst ` set (dc_modified dc)"
    "\<not> has_status UNCHANGED (discovered_diff a b dc) n"
    by (auto simp: has_status_def split: option.splits)
qed

text \<open>The operations of a patch that count for a field.\<close>

definition op_at :: "pyval \<Rightarrow> string \<Rightarrow> string \<Rightarrow> bool" where
  "op_at op kind n \<longleftrightarrow> n \<noteq> [] \<and> py_get op ''op'' = Inr (Some (PStr kind)) \<and> map_sum id top_field (py_text op ''path'') = Inr n"

definition op_from :: "pyval \<Rightarrow> string \<Rightarrow> bool" where
  "op_from op n \<longleftrightarrow> n \<noteq> [] \<and> (\<exists>m. op_at op ''move'' m \<or> op_at op ''copy'' m) \<and> map_sum id top_field (py_text op ''from'') = Inr n"

definition op_adds :: "pyval \<Rightarrow> string \<Rightarrow> bool" where
  "op_adds op n \<longleftrightarrow> op_at op ''add'' n \<or> op_at op ''move'' n \<or> op_at op ''copy'' n"

definition op_removes :: "pyval \<Rightarrow> string \<Rightarrow> bool" where
  "op_removes op n \<longleftrightarrow> op_at op ''remove'' n \<or> op_from op n"

lemma record_op_names:
  assumes "record_op op dc = Inr dc'"
  shows "set (dc_added dc') = set (dc_added dc) \<union> {n. op_adds op n}"
    and "set (dc_removed dc') = set (dc_removed dc) \<union> {n. op_removes op n}"
    and "fst ` set (dc_modified dc') = fst ` set (dc_modified dc) \<union> {n. op_at op ''replace'' n}"
proof -
  from assms obtain path where p: "py_text op ''path'' = Inr path"
    by (auto simp: record_op_def bindR_eq_Inr)
  then obtain kind where k: "py_get op ''op'' = Inr kind" by (cases op) (auto simp: py_text_def bindR_def)
  have "set (dc_added dc') = set (dc_added dc) \<union> {n. op_adds op n} \<and> set (dc_removed dc') = set (dc_removed dc) \<union> {n. op_removes op n}
    \<and> fst ` set (dc_modified dc') = fst ` set (dc_modified dc) \<union> {n. op_at op ''replace'' n}"
  proof (cases "top_field path = []")
    case True
    then show ?thesis using assms p k by (auto simp: record_op_def op_at_def op_from_def op_adds_def op_removes_def)
  next
    case False
    note r = assms [unfolded record_op_def p k bindR_simps Let_def if_not_P [OF False]]
    consider "kind = Some (PStr ''add'')" | "kind = Some (PStr ''remove'')" | "kind = Some (PStr ''replace'')"
      | "kind = Some (PStr ''move'') \<or> kind = Some (PStr ''copy'')" | "kind \<notin> (\<lambda>k. Some (PStr k)) ` {''add'', ''remove'', ''replace'', ''move'', ''copy''}" by auto
    then show ?thesis
    proof cases
      case 3
      then obtain v where "py_get op ''value'' = Inr v" using k by (cases op) auto
      then have "dc' = dc\<lparr>dc_modified := mark_modified (top_field path) ''value_changed'' (from_to PNone (case v of None \<Rightarrow> PNone | Some x \<Rightarrow> x)) (dc_modified dc)\<rparr>"
        using r 3 by simp
      moreover have "{n. op_at op ''replace'' n} = {top_field path}" using p k 3 False by (auto simp: op_at_def)
      moreover have "{n. op_adds op n} = {}" "{n. op_removes op n} = {}" using p k 3 by (auto simp: op_at_def op_from_def op_adds_def op_removes_def)
      ultimately show ?thesis by (simp only: discovered.simps keys_mark_modified) simp
    next
      case 4
      then obtain f where "py_text op ''from'' = Inr f" using r by (auto simp: record_move_def bindR_eq_Inr)
      from this have dc': "dc' = dc\<lparr>dc_removed := (if top_field f \<noteq> [] then add_name (top_field f) (dc_removed dc) else dc_removed dc),
          dc_added := add_name (top_field path) (dc_added dc)\<rparr>"
        using r 4 by (auto simp: record_move_def Let_def)
      from 4 obtain c where c: "kind = Some (PStr c)" "c = ''move'' \<or> c = ''copy''" by auto
      have at: "op_at op x n \<longleftrightarrow> x = c \<and> n = top_field path" for x n using p k c(1) False by (auto simp: op_at_def)
      have "op_at op ''replace'' n \<longleftrightarrow> False" "op_adds op n \<longleftrightarrow> n = top_field path" for n
        using c(2) unfolding op_adds_def at by auto
      moreover have "op_removes op n \<longleftrightarrow> n \<noteq> [] \<and> n = top_field f" for n
        using c(2) \<open>py_text op ''from'' = Inr f\<close> unfolding op_removes_def op_from_def at by auto
      ultimately have "{n. op_adds op n} = {top_field path}" "{n. op_at op ''replace'' n} = {}"
        "{n. op_removes op n} = (if top_field f \<noteq> [] then {top_field f} else {})" by auto
      then show ?thesis using dc' by simp
    qed (use r p k False in \<open>auto simp: op_at_def op_from_def op_adds_def op_removes_def\<close>)
  qed
  then show "set (dc_added dc') = set (dc_added dc) \<union> {n. op_adds op n}"
    "set (dc_removed dc') = set (dc_removed dc) \<union> {n. op_removes op n}"
    "fst ` set (dc_modified dc') = fst ` set (dc_modified dc) \<union> {n. op_at op ''replace'' n}" by simp_all
qed

lemma collect_ops_names:
  assumes "collect_ops ops dc = Inr dc'"
  shows "set (dc_added dc') = set (dc_added dc) \<union> {n. \<exists>op \<in> set ops. op_adds op n}
    \<and> set (dc_removed dc') = set (dc_removed dc) \<union> {n. \<exists>op \<in> set ops. op_removes op n}
    \<and> fst ` set (dc_modified dc') = fst ` set (dc_modified dc) \<union> {n. \<exists>op \<in> set ops. op_at op ''replace'' n}"
  using assms
proof (induction ops arbitrary: dc)
  case (Cons op ops)
  then obtain d where d: "record_op op dc = Inr d" "collect_ops ops d = Inr dc'" by (auto simp: bindR_eq_Inr)
  from Cons.IH [OF d(2)] record_op_names [OF d(1)] show ?case by auto
qed simp

text \<open>
  The diff that is discovered in a patch. A field is modified exactly when the patch replaces something in
  it; otherwise it is removed exactly when the patch removes something in it or moves or copies something
  out of it; otherwise it is added exactly when the patch adds, moves or copies something into it. A field is
  the first component of a pointer, so an addition deep inside a field counts as an addition of that field.
\<close>

theorem discover_patch_spec:
  assumes "discover (PatchBody ops) a b = Inr d"
  shows "(is_modified d n \<longleftrightarrow> (\<exists>op \<in> set ops. op_at op ''replace'' n))
    \<and> (is_removed d n \<longleftrightarrow> \<not> is_modified d n \<and> (\<exists>op \<in> set ops. op_removes op n))
    \<and> (is_added d n \<longleftrightarrow> \<not> is_modified d n \<and> \<not> is_removed d n \<and> (\<exists>op \<in> set ops. op_adds op n))"
proof -
  from assms obtain dc where dc: "collect_ops ops nothing_discovered = Inr dc" "d = discovered_diff a b dc"
    by (auto simp: discover_def discover_patch_def bindR_eq_Inr)
  from collect_ops_names [OF dc(1)] show ?thesis
    unfolding dc(2) is_added_def is_removed_def is_modified_def discovered_status by (auto simp: nothing_discovered_def)
qed

section \<open>Rendering and discovery\<close>

text \<open>Field names that a pointer without escapes can hold.\<close>

definition names_proper :: "'v diff \<Rightarrow> bool" where
  "names_proper d \<longleftrightarrow> dict_ok (diff_fields d) \<and> (\<forall>n \<in> fst ` set (diff_fields d). n \<noteq> [] \<and> CHR ''/'' \<notin> set n)"

lemma top_field_pointer: "n \<noteq> [] \<Longrightarrow> CHR ''/'' \<notin> set n \<Longrightarrow> top_field (CHR ''/'' # n) = n"
  by (cases n) (auto simp: top_field_def takeWhile_eq_all_conv)

lemma py_get_dict [simp]: "py_get (py_dict d) k = Inr (map_of d k)"
proof -
  have "map_of (map (\<lambda>(k, v). (PStr k, v)) d) (PStr k) = map_of d k" by (induction d) auto
  then show ?thesis by (simp add: py_dict_def)
qed

lemma py_text_dict [simp]: "py_text (py_dict d) k = (case map_of d k of
    None \<Rightarrow> Inr [] | Some (PStr s) \<Rightarrow> Inr s | Some (PBytes _) \<Rightarrow> Inl TypeError | Some _ \<Rightarrow> Inl AttributeError)"
  by (simp add: py_text_def)

lemma render_modified_Inr:
  assumes "render_modified (field, changes) = Inr op"
  obtains rest where "op = py_dict ((''op'', PStr ''replace'') # (''path'', pointer_to field) # rest)"
  using assms by (auto simp: render_modified_def bindR_eq_Inr)

text \<open>What a rendered operation counts for.\<close>

lemma rendered_ops:
  assumes "n \<noteq> []" "CHR ''/'' \<notin> set n"
  shows "op_at (render_added d n) k m \<longleftrightarrow> k = ''add'' \<and> m = n" "op_at (render_removed n) k m \<longleftrightarrow> k = ''remove'' \<and> m = n"
    "render_modified (n, changes) = Inr op \<Longrightarrow> op_at op k m \<longleftrightarrow> k = ''replace'' \<and> m = n"
  using top_field_pointer [OF assms] assms(1)
  by (auto simp: op_at_def render_added_def render_removed_def pointer_to_def elim!: render_modified_Inr)

lemma collect_ops_ok:
  assumes "\<forall>op \<in> set ops. \<exists>d. op = py_dict d \<and> (\<exists>k p. map_of d ''op'' = Some (PStr k) \<and> k \<notin> {''move'', ''copy''} \<and> map_of d ''path'' = Some (PStr p))"
  shows "\<exists>dc'. collect_ops ops dc = Inr dc'"
  using assms
proof (induction ops arbitrary: dc)
  case (Cons op ops)
  then obtain d k p where "op = py_dict d" "map_of d ''op'' = Some (PStr k)" "k \<notin> {''move'', ''copy''}" "map_of d ''path'' = Some (PStr p)" by auto
  then have "\<exists>dc1. record_op op dc = Inr dc1" by (auto simp: record_op_def Let_def)
  then show ?case using Cons by auto
qed simp

lemma mk_patch_Inr:
  assumes "mk_patch_migration json_patch spec = Inr m"
  shows "\<exists>ops. py_get spec ''ops'' = Inr (Some (PSeq ops)) \<and> ops \<noteq> [] \<and> mapR translate_op ops = Inr (pm_ops m)"
proof -
  from assms obtain d where d: "spec = PMap d" by (cases spec) (simp_all add: mk_patch_migration_def)
  from assms obtain ops where ops: "py_get spec ''ops'' = Inr ops"
    by (auto simp: d mk_patch_migration_def)
  from assms d ops obtain op rest where o: "ops = Some (PSeq (op # rest))"
    by (auto simp: mk_patch_migration_def bindR_eq_Inr split: option.splits pyval.splits list.splits)
  with assms d ops show ?thesis by (auto simp: mk_patch_migration_def bindR_eq_Inr)
qed

text \<open>The names with a status.\<close>

lemma status_names:
  assumes "dict_ok (diff_fields d)"
  shows "n \<in> set (added_fields d) \<longleftrightarrow> is_added d n" "n \<in> set (removed_fields d) \<longleftrightarrow> is_removed d n"
    "n \<in> fst ` set (modified_fields d) \<longleftrightarrow> is_modified d n"
proof -
  have "has_status st d n \<longleftrightarrow> (\<exists>c. (n, c) \<in> set (diff_fields d) \<and> fc_status c = st)" for st
    using dict_ok_map_of [OF assms] by (fastforce simp: has_status_def dest: map_of_SomeD split: option.splits)
  then show "n \<in> set (added_fields d) \<longleftrightarrow> is_added d n" "n \<in> set (removed_fields d) \<longleftrightarrow> is_removed d n"
    "n \<in> fst ` set (modified_fields d) \<longleftrightarrow> is_modified d n"
    by (simp_all add: added_fields_def removed_fields_def names_with_set is_added_def is_removed_def is_modified_def)
      (force simp: modified_fields_def info_with_def)
qed

lemma render_patch_ops:
  assumes "render_patch d = Inr ops"
  shows "op \<in> set ops \<longleftrightarrow> (\<exists>n \<in> set (added_fields d). op = render_added d n) \<or> (\<exists>n \<in> set (removed_fields d). op = render_removed n)
    \<or> (\<exists>x \<in> set (modified_fields d). render_modified x = Inr op)"
proof -
  from assms obtain rs where rs: "list_all2 (\<lambda>x op. render_modified x = Inr op) (modified_fields d) rs"
    "ops = map (render_added d) (added_fields d) @ map render_removed (removed_fields d) @ rs"
    by (auto simp: render_patch_def bindR_eq_Inr mapR_eq_Inr)
  then have "op \<in> set rs \<longleftrightarrow> (\<exists>x \<in> set (modified_fields d). render_modified x = Inr op)"
    by (fastforce simp: list_all2_conv_all_nth in_set_conv_nth)
  then show ?thesis using rs(2) by auto
qed

lemma rendered_shape:
  assumes "render_patch d = Inr ops" "op \<in> set ops"
  shows "\<exists>d k n. op = py_dict d \<and> map_of d ''op'' = Some (PStr k) \<and> k \<in> {''add'', ''remove'', ''replace''} \<and> map_of d ''path'' = Some (pointer_to n)"
    and "translate_op op = Inr op"
proof -
  from assms consider n where "op = render_added d n" | n where "op = render_removed n" | n c where "render_modified (n, c) = Inr op"
    unfolding render_patch_ops [OF assms(1)] by auto
  then have "\<exists>d k n. op = py_dict d \<and> map_of d ''op'' = Some (PStr k) \<and> k \<in> {''add'', ''remove'', ''replace''} \<and> map_of d ''path'' = Some (pointer_to n)"
    by cases (fastforce simp: render_added_def render_removed_def elim!: render_modified_Inr)+
  then show "\<exists>d k n. op = py_dict d \<and> map_of d ''op'' = Some (PStr k) \<and> k \<in> {''add'', ''remove'', ''replace''} \<and> map_of d ''path'' = Some (pointer_to n)"
    "translate_op op = Inr op" by (auto simp: translate_op_def)
qed

lemma rendered_collect: "render_patch d = Inr ops \<Longrightarrow> \<exists>dc'. collect_ops ops dc = Inr dc'"
  by (rule collect_ops_ok) (fastforce simp: pointer_to_def dest: rendered_shape(1))

lemma rendered_translate: "render_patch d = Inr ops \<Longrightarrow> mapR translate_op ops = Inr ops"
  using rendered_shape(2) by (auto simp: mapR_eq_Inr list_all2_same)

lemma rendered_at:
  assumes "names_proper d" "render_patch d = Inr ops"
  shows "(\<exists>op \<in> set ops. op_at op k n) \<longleftrightarrow> k = ''add'' \<and> is_added d n \<or> k = ''remove'' \<and> is_removed d n \<or> k = ''replace'' \<and> is_modified d n"
proof -
  note st = status_names [OF conjunct1 [OF assms(1) [unfolded names_proper_def]]]
  have "n \<in> fst ` set (diff_fields d)" if "has_status st d n" for n st
    using that by (force simp: has_status_def dest: map_of_SomeD split: option.splits)
  then have proper: "has_status st d n \<Longrightarrow> n \<noteq> [] \<and> CHR ''/'' \<notin> set n" for n st using assms(1) by (force simp: names_proper_def)
  have a: "is_added d m \<Longrightarrow> op_at (render_added d m) k n \<longleftrightarrow> k = ''add'' \<and> n = m"
    "is_removed d m \<Longrightarrow> op_at (render_removed m) k n \<longleftrightarrow> k = ''remove'' \<and> n = m" for m
    using rendered_ops(1,2) [of m] proper [of _ m] by (simp_all add: is_added_def is_removed_def)
  have r: "op_at op k n \<longleftrightarrow> k = ''replace'' \<and> n = fst x" if "x \<in> set (modified_fields d)" "render_modified x = Inr op" for x op
    using that st(3) [of "fst x"] proper [of MODIFIED "fst x"] rendered_ops(3) [of "fst x" "snd x" op k n] by (simp add: is_modified_def)
  have "\<exists>op. render_modified x = Inr op" if "x \<in> set (modified_fields d)" for x
    using assms(2) that by (auto simp: render_patch_def bindR_eq_Inr mapR_eq_Inr list_all2_conv_all_nth in_set_conv_nth)
  then have "(\<exists>op x. x \<in> set (modified_fields d) \<and> render_modified x = Inr op \<and> op_at op k n) \<longleftrightarrow>
      (\<exists>x \<in> set (modified_fields d). k = ''replace'' \<and> n = fst x)" using r by blast
  moreover have "\<dots> \<longleftrightarrow> k = ''replace'' \<and> is_modified d n" unfolding st(3) [symmetric] by auto
  moreover have "(\<exists>m. is_added d m \<and> op_at (render_added d m) k n) \<longleftrightarrow> k = ''add'' \<and> is_added d n"
    "(\<exists>m. is_removed d m \<and> op_at (render_removed m) k n) \<longleftrightarrow> k = ''remove'' \<and> is_removed d n" using a by blast+
  moreover have "(\<exists>op \<in> set ops. op_at op k n) \<longleftrightarrow> (\<exists>m. is_added d m \<and> op_at (render_added d m) k n)
      \<or> (\<exists>m. is_removed d m \<and> op_at (render_removed m) k n) \<or> (\<exists>op x. x \<in> set (modified_fields d) \<and> render_modified x = Inr op \<and> op_at op k n)"
    unfolding Bex_def render_patch_ops [OF assms(2)] st conj_disj_distribR ex_disj_distrib by blast
  ultimately show ?thesis by simp
qed

text \<open>
  C36. A proposed migration says what it was proposed for. The patch that is rendered for a diff with plain field
  names is read back as a diff with the same added, removed and modified fields.
\<close>

theorem proposal_roundtrip:
  assumes "names_proper d" "patch_materialize show json_patch d = Inr m"
  shows "\<exists>d'. discover (PatchHolder (pm_ops m)) a b = Inr d' \<and> diff_origin d' = MIGRATION
    \<and> (\<forall>n. is_added d' n = is_added d n \<and> is_removed d' n = is_removed d n \<and> is_modified d' n = is_modified d n)"
proof -
  from assms(2) obtain ops where ops: "render_patch d = Inr ops" "mapR translate_op ops = Inr (pm_ops m)"
    by (auto simp: patch_materialize_def bindR_eq_Inr dest!: mk_patch_Inr)
  then have m: "pm_ops m = ops" using rendered_translate [OF ops(1)] by simp
  note at = rendered_at [OF assms(1) ops(1)]
  obtain dc where dc: "collect_ops ops nothing_discovered = Inr dc" using rendered_collect [OF ops(1)] by blast
  have "\<not> op_from op n" if "op \<in> set ops" for op n using at [of "''move''"] at [of "''copy''"] that by (auto simp: op_from_def)
  then have names: "set (dc_added dc) = {n. is_added d n}" "set (dc_removed dc) = {n. is_removed d n}" "fst ` set (dc_modified dc) = {n. is_modified d n}"
    using collect_ops_names [OF dc] at unfolding op_adds_def op_removes_def nothing_discovered_def by (simp_all add: bex_disj_distrib cong: bex_cong)
  have "\<not> (is_added d n \<and> is_removed d n) \<and> \<not> (is_added d n \<and> is_modified d n) \<and> \<not> (is_removed d n \<and> is_modified d n)" for n
    by (auto simp: is_added_def is_removed_def is_modified_def has_status_def split: option.splits)
  moreover have "discover (PatchHolder (pm_ops m)) a b = Inr (discovered_diff a b dc)" "diff_origin (discovered_diff a b dc) = MIGRATION"
    using dc m by (simp_all add: discover_def discover_patch_def discovered_diff_def)
  ultimately show ?thesis
    using discovered_status [of a b dc] unfolding names is_added_def is_removed_def is_modified_def by (intro exI [of _ "discovered_diff a b dc"]) auto
qed

text \<open>What is documented of the constructor of a patch: it accepts operations of RFC 6902 with a pointer.\<close>

definition accepts_operations :: "(pyval list \<Rightarrow> unit res) \<Rightarrow> bool" where
  "accepts_operations json_patch \<longleftrightarrow> (\<forall>ops. (\<forall>op \<in> set ops. \<exists>k n. py_get op ''op'' = Inr (Some (PStr k))
     \<and> k \<in> {''add'', ''remove'', ''replace''} \<and> py_get op ''path'' = Inr (Some (pointer_to n))) \<longrightarrow> json_patch ops = Inr ())"

lemma schema_changes_render:
  assumes "adapter_diff strategy_of (ModelNode i r s) (ModelNode j r' t) = Inr d" "(n, c) \<in> set (modified_fields d)"
  shows "\<exists>op. render_modified (n, c) = Inr op"
proof -
  from assms have "diff_fields d = diff_fields_of s t" "(n, FieldChange MODIFIED c) \<in> set (diff_fields d)"
    by (auto simp: adapter_diff_def build_diff_def bindR_eq_Inr modified_fields_def info_with_def split: if_splits)
      (metis field_change.collapse)
  then have "FieldChange MODIFIED c = common_change (the (map_of (desc_fields s) n)) (the (map_of (desc_fields t) n))"
    by (auto simp: diff_fields_of_def added_change_def Let_def)
  then have "c = field_changes_of (the (map_of (desc_fields s) n)) (the (map_of (desc_fields t) n))" by (simp add: common_change_def Let_def)
  then show ?thesis by (auto simp: render_modified_def field_changes_of_def from_to_def)
qed

text \<open>
  A migration can be proposed between two model versions exactly when their fields differ. For equal
  fields the patch would have no operation, and the proposal raises \<open>ValueError\<close>.
\<close>

theorem proposal_exists:
  assumes "adapter_diff strategy_of (ModelNode i r s) (ModelNode j r' t) = Inr d" "accepts_operations json_patch"
    and "show (nid_version i) \<noteq> []" "show (nid_version j) \<noteq> []"
  shows "(patch_materialize show json_patch d = Inl ValueError \<longleftrightarrow> is_identity d)
    \<and> (okR (patch_materialize show json_patch d) \<longleftrightarrow> \<not> is_identity d)"
proof -
  have ends: "node_id_of (diff_source d) = i" "node_id_of (diff_target d) = j"
    using assms(1) by (auto simp: adapter_diff_def build_diff_def bindR_eq_Inr split: if_splits)
  have "mapR render_modified (modified_fields d) = Inr (map (projr \<circ> render_modified) (modified_fields d))"
    using schema_changes_render [OF assms(1)] by (intro mapR_Inr_map) (metis comp_apply surj_pair sum.sel(2))
  then obtain rs where rs: "mapR render_modified (modified_fields d) = Inr rs" by blast
  then obtain ops where ops: "render_patch d = Inr ops" by (simp add: render_patch_def)
  have "length rs = length (modified_fields d)" using rs by (simp add: mapR_eq_Inr list_all2_lengthD)
  then have empty: "ops = [] \<longleftrightarrow> is_identity d" using ops rs by (auto simp: render_patch_def is_identity_def)
  have "json_patch ops = Inr ()" using assms(2) rendered_shape(1) [OF ops] unfolding accepts_operations_def by fastforce
  then have "patch_materialize show json_patch d = (if ops = [] then Inl ValueError else Inr \<lparr>pm_spec = py_dict [(''from'', PStr (show (nid_version i))),
       (''to'', PStr (show (nid_version j))), (''ops'', PSeq ops)], pm_ops = ops\<rparr>)"
    using assms(3,4) rendered_translate [OF ops] ops
    by (cases "show (nid_version i)"; cases "show (nid_version j)"; cases ops)
      (simp_all add: patch_materialize_def mk_patch_migration_def version_text_def ends, simp_all add: py_dict_def version_text_def)
  then show ?thesis using empty by (auto simp: okR_def)
qed

section \<open>What a function is taken to do\<close>

definition node_adds :: "py_node \<Rightarrow> string \<Rightarrow> bool" where
  "node_adds x n \<longleftrightarrow> (\<exists>ts. x = AssignNode ts \<and> SubscriptExpr (NameExpr ''data'') (StrConstant n) \<in> set ts)
     \<or> (\<exists>ks. x = ReturnNode (Some (DictExpr ks)) \<and> Some (StrConstant n) \<in> set ks)"

definition node_removes :: "py_node \<Rightarrow> string \<Rightarrow> bool" where
  "node_removes x n \<longleftrightarrow> (\<exists>ts. x = DeleteNode ts \<and> SubscriptExpr (NameExpr ''data'') (StrConstant n) \<in> set ts)"

definition node_modifies :: "py_node \<Rightarrow> string \<Rightarrow> bool" where
  "node_modifies x n \<longleftrightarrow> (\<exists>ts k. x = AssignNode ts \<and> SubscriptExpr (SubscriptExpr (NameExpr ''data'') (StrConstant n)) k \<in> set ts)"

lemma subscript_key_Some: "subscript_key k = Some s \<longleftrightarrow> k = StrConstant s"
  by (cases k) auto

text \<open>The names that a discovery has of each sort.\<close>

definition dc_names :: "discovered \<Rightarrow> string set \<times> string set \<times> string set" where
  "dc_names dc = (set (dc_added dc), set (dc_removed dc), fst ` set (dc_modified dc))"

definition names_union :: "string set \<times> string set \<times> string set \<Rightarrow> string set \<times> string set \<times> string set \<Rightarrow> string set \<times> string set \<times> string set" where
  "names_union a b = (fst a \<union> fst b, fst (snd a) \<union> fst (snd b), snd (snd a) \<union> snd (snd b))"

lemma fold_names:
  assumes "\<And>x dc. dc_names (f x dc) = names_union (dc_names dc) (A x, R x, M x)"
  shows "dc_names (fold f xs dc) = names_union (dc_names dc) (\<Union>(A ` set xs), \<Union>(R ` set xs), \<Union>(M ` set xs))"
  by (induction xs arbitrary: dc) (auto simp: assms names_union_def)

lemma assign_target_names:
  "dc_names (assign_target t dc) = names_union (dc_names dc) ({n. t = SubscriptExpr (NameExpr ''data'') (StrConstant n)}, {},
     {n. \<exists>k. t = SubscriptExpr (SubscriptExpr (NameExpr ''data'') (StrConstant n)) k})"
  by (induction t dc rule: assign_target.induct) (auto simp: dc_names_def names_union_def subscript_key_Some split: option.split)

lemma delete_target_names:
  "dc_names (delete_target t dc) = names_union (dc_names dc) ({}, {n. t = SubscriptExpr (NameExpr ''data'') (StrConstant n)}, {})"
  by (induction t dc rule: delete_target.induct) (auto simp: dc_names_def names_union_def subscript_key_Some split: option.split)

lemma return_key_names: "dc_names (return_key k dc) = names_union (dc_names dc) ({n. k = Some (StrConstant n)}, {}, {})"
  by (induction k dc rule: return_key.induct) (auto simp: dc_names_def names_union_def)

lemma record_node_names:
  "dc_names (record_node x dc) = names_union (dc_names dc) ({n. node_adds x n}, {n. node_removes x n}, {n. node_modifies x n})"
proof (induction x dc rule: record_node.induct)
  case (1 targets dc)
  then show ?case by (simp add: fold_names [OF assign_target_names]) (auto simp: names_union_def node_adds_def node_removes_def node_modifies_def)
next
  case (2 targets dc)
  then show ?case by (simp add: fold_names [OF delete_target_names]) (auto simp: names_union_def node_adds_def node_removes_def node_modifies_def)
next
  case (3 ks dc)
  then show ?case by (simp add: fold_names [OF return_key_names]) (auto simp: names_union_def node_adds_def node_removes_def node_modifies_def)
qed (auto simp: names_union_def node_adds_def node_removes_def node_modifies_def)

text \<open>
  The diff that is discovered in a function. Its fields are those that the function assigns, deletes or
  returns under constant keys of a variable that is called \<open>data\<close>: nested assignments are modifications, other
  deletions are removals and other assignments or returned keys are additions. A function whose payload
  parameter has another name, or whose source is unknown, and that returns no dictionary display, changes nothing.
\<close>

theorem discover_callable_spec:
  assumes "discover (FunctionBody (Inr tree)) a b = Inr d"
  shows "(is_modified d n \<longleftrightarrow> (\<exists>x \<in> set (case tree of None \<Rightarrow> [] | Some xs \<Rightarrow> xs). node_modifies x n))
    \<and> (is_removed d n \<longleftrightarrow> \<not> is_modified d n \<and> (\<exists>x \<in> set (case tree of None \<Rightarrow> [] | Some xs \<Rightarrow> xs). node_removes x n))
    \<and> (is_added d n \<longleftrightarrow> \<not> is_modified d n \<and> \<not> is_removed d n \<and> (\<exists>x \<in> set (case tree of None \<Rightarrow> [] | Some xs \<Rightarrow> xs). node_adds x n))"
proof (cases tree)
  case None
  then show ?thesis using assms
    by (auto simp: discover_def discover_callable_def is_added_def is_removed_def is_modified_def has_status_def)
next
  case (Some xs)
  let ?dc = "fold record_node xs nothing_discovered"
  have d: "d = discovered_diff a b ?dc" using assms Some by (simp add: discover_def discover_callable_def)
  have "dc_names ?dc = ({n. \<exists>x \<in> set xs. node_adds x n}, {n. \<exists>x \<in> set xs. node_removes x n}, {n. \<exists>x \<in> set xs. node_modifies x n})"
    unfolding fold_names [OF record_node_names] by (auto simp: names_union_def dc_names_def nothing_discovered_def)
  then show ?thesis unfolding d is_added_def is_removed_def is_modified_def discovered_status using Some by (simp add: dc_names_def) blast
qed

section \<open>Concrete patches\<close>

definition sample_old :: "nat node" where
  "sample_old = ModelNode (NodeId ''a'' ''K'' 1) sample_ref (sample_desc [sample_field ''x'' True])"

definition sample_new :: "nat node" where
  "sample_new = ModelNode (NodeId ''a'' ''K'' 2) sample_ref (sample_desc [sample_field ''x'' False, sample_field ''y'' True])"

definition sample_diff :: "nat diff" where
  "sample_diff = projr (adapter_diff (\<lambda>_. ''int'') sample_old sample_new)"

theorem discover_patch_spec_witness:
  "\<exists>d. discover (PatchBody [py_dict [(''op'', PStr ''add''), (''path'', PStr ''/x/y'')]]) sample_old sample_new = Inr d \<and> is_added d ''x'' \<and> \<not> is_modified d ''x''"
proof -
  let ?ops = "[py_dict [(''op'', PStr ''add''), (''path'', PStr ''/x/y'')]]"
  have "okR (discover (PatchBody ?ops) sample_old sample_new)" by code_simp
  then obtain d where d: "discover (PatchBody ?ops) sample_old sample_new = Inr d" by (auto simp: okR_iff)
  have "op_at op k n \<longleftrightarrow> k = ''add'' \<and> n = ''x''" if "op \<in> set ?ops" for op k n
    using that by (auto simp: op_at_def top_field_def)
  then show ?thesis using d discover_patch_spec [OF d, of "''x''"] by (auto simp: op_adds_def op_removes_def op_from_def)
qed

lemma sample_diff: "adapter_diff (\<lambda>_. ''int'') sample_old sample_new = Inr sample_diff"
  by (simp add: sample_diff_def adapter_diff_def sample_old_def sample_new_def build_diff_def)

theorem proposal_roundtrip_witness:
  "\<exists>m d'. patch_materialize show_nat (\<lambda>_. Inr ()) sample_diff = Inr m \<and> discover (PatchHolder (pm_ops m)) sample_old sample_new = Inr d'
     \<and> is_added d' ''y'' \<and> is_modified d' ''x''"
proof -
  have "okR (patch_materialize show_nat (\<lambda>_. Inr ()) sample_diff)" "names_proper sample_diff" "is_added sample_diff ''y''" "is_modified sample_diff ''x''"
    by (code_simp)+
  then show ?thesis using proposal_roundtrip [of sample_diff show_nat "\<lambda>_. Inr ()" _ sample_old sample_new] unfolding okR_iff by metis
qed

theorem proposal_exists_witness:
  "okR (patch_materialize show_nat (\<lambda>_. Inr ()) sample_diff)"
proof -
  have "\<not> is_identity sample_diff" "show_nat 1 \<noteq> []" "show_nat 2 \<noteq> []" by code_simp+
  moreover have "accepts_operations (\<lambda>_. Inr ())" by (simp add: accepts_operations_def)
  ultimately show ?thesis
    using proposal_exists [OF sample_diff [unfolded sample_old_def sample_new_def], of "\<lambda>_. Inr ()" show_nat] by simp
qed

theorem discover_callable_spec_witness:
  "\<exists>d. discover (FunctionBody (Inr (Some [AssignNode [SubscriptExpr (NameExpr ''data'') (StrConstant ''y'')]]))) sample_old sample_new = Inr d \<and> is_added d ''y''"
proof -
  let ?xs = "[AssignNode [SubscriptExpr (NameExpr ''data'') (StrConstant ''y'')]]"
  obtain d where d: "discover (FunctionBody (Inr (Some ?xs))) sample_old sample_new = Inr d"
    by (simp add: discover_def discover_callable_def)
  then show ?thesis using discover_callable_spec [OF d, of "''y''"] by (auto simp: node_adds_def node_removes_def node_modifies_def)
qed

end
