(* ===== verification/Schemas.thy ===== *)
theory Schemas
  imports Patches
begin

text \<open>
  Model schemas: the identity policy of \<open>schemas/codec.py\<close>, the runtime of \<open>schemas/runtime.py\<close> that describes
  the fields of model classes, collects the models they refer to and builds reconstructed models, and the
  provider-neutral part of an adapter in \<open>schemas/base.py\<close>. Classes are an abstract type; a table gives what
  Python and \<open>pydantic\<close> know of each of them. Descriptions of nested models call one another, so they take a
  number of calls that may be nested: every call of \<open>describe_fields\<close> and \<open>_collect_references\<close> counts it down, and
  a call beyond it raises \<open>RecursionError\<close>. This counts levels of nested models. Python's own limit counts every
  frame, of which a level has several (the type references, the callbacks and the helpers in between), so the number
  that stands for a given Python limit is smaller than that limit.
\<close>

section \<open>Annotations and classes\<close>

text \<open>
  An annotation as \<open>get_origin\<close> and \<open>get_args\<close> take it apart. A sequence is a list or one of the other
  collections; \<open>VarTuple\<close> is a tuple with an ellipsis; \<open>OtherType\<close> has its \<open>str\<close> and its arguments.
\<close>

datatype 'm annot =
    NoneType
  | AnyType
  | SimpleType type_kind
  | AnnotatedType "'m annot"
  | LiteralType "json list"
  | UnionType "'m annot list"
  | TupleType "'m annot list"
  | VarTuple "'m annot"
  | SequenceType bool "'m annot list"
  | MappingType "'m annot list"
  | ClassType 'm
  | OtherType string "'m annot list"

record 'm class_field =
  cf_annotation :: "'m annot"
  cf_object :: pyval
  cf_required :: bool
  cf_default :: "pyval option"

record 'm model_class =
  mc_is_model :: bool
  mc_module :: string
  mc_qualname :: string
  mc_name :: string
  mc_fields :: "(string, 'm class_field) dict"

section \<open>The codec\<close>

record model_codec =
  cd_version_property :: string
  cd_kind_property :: string
  cd_namespace :: string

definition mk_codec :: "string \<Rightarrow> string \<Rightarrow> string \<Rightarrow> model_codec res" where
  "mk_codec version_property kind_property ns = (if ns = [] then Inl ValueError
     else Inr \<lparr>cd_version_property = version_property, cd_kind_property = kind_property, cd_namespace = ns\<rparr>)"

definition codec_default :: "(string, 'v field_descriptor) dict \<Rightarrow> string \<Rightarrow> string" where
  "codec_default fs name = (case map_of fs name of
     None \<Rightarrow> [] | Some f \<Rightarrow> (case fd_default f of None \<Rightarrow> [] | Some j \<Rightarrow> py_str j))"

definition codec_version :: "model_codec \<Rightarrow> (string, 'v field_descriptor) dict \<Rightarrow> string" where
  "codec_version cd fs = codec_default fs (cd_version_property cd)"

definition codec_kind :: "model_codec \<Rightarrow> (string, 'v field_descriptor) dict \<Rightarrow> string" where
  "codec_kind cd fs = codec_default fs (cd_kind_property cd)"

definition codec_version_key :: "('v version_arg \<Rightarrow> 'v res) \<Rightarrow> model_codec \<Rightarrow> string \<Rightarrow> 'v version_arg \<Rightarrow> 'v node_id res" where
  "codec_version_key parse cd k v = node_id_parse parse (cd_namespace cd) k v"

section \<open>Handles\<close>

type_synonym 'm handles = "(string \<times> string, 'm) dict"

definition runtime_model_id :: "('m \<Rightarrow> 'm model_class) \<Rightarrow> 'm \<Rightarrow> string" where
  "runtime_model_id ct c = mc_module (ct c) @ ''.'' @ mc_qualname (ct c)"

definition remember :: "('m \<Rightarrow> 'm model_class) \<Rightarrow> string \<Rightarrow> 'm \<Rightarrow> ('m handles, model_ref) op" where
  "remember ct provider c h = (let ref = \<lparr>mr_provider_id = provider, mr_entity_id = runtime_model_id ct c, mr_metadata = []\<rparr> in
     (Inr ref, dict_touch c (model_ref_key ref) h))"

definition runtime_resolve :: "model_ref \<Rightarrow> 'm handles \<Rightarrow> 'm res" where
  "runtime_resolve ref h = (case map_of h (model_ref_key ref) of None \<Rightarrow> Inl KeyError | Some c \<Rightarrow> Inr c)"

section \<open>Nested models\<close>

text \<open>\<open>getattr(annotation, "__args__", ())\<close>, as far as it has annotations.\<close>

fun annot_args :: "'m annot \<Rightarrow> 'm annot list" where
  "annot_args (AnnotatedType a) = [a]"
| "annot_args (UnionType xs) = xs"
| "annot_args (TupleType xs) = xs"
| "annot_args (VarTuple a) = [a]"
| "annot_args (SequenceType _ xs) = xs"
| "annot_args (MappingType xs) = xs"
| "annot_args (OtherType _ xs) = xs"
| "annot_args _ = []"

lemma annot_args_size [termination_simp]: "a \<in> set (annot_args x) \<Longrightarrow> size a < size x"
  by (cases x) (auto simp: less_Suc_eq_le size_list_estimation')

fun first_model :: "('a \<Rightarrow> 'm option) \<Rightarrow> 'a list \<Rightarrow> 'm option" where
  "first_model f [] = None"
| "first_model f (x # xs) = (case f x of Some c \<Rightarrow> Some c | None \<Rightarrow> first_model f xs)"

lemma first_model_cong [fundef_cong]: "xs = ys \<Longrightarrow> (\<And>x. x \<in> set ys \<Longrightarrow> f x = g x) \<Longrightarrow> first_model f xs = first_model g ys"
proof -
  have "(\<And>x. x \<in> set ys \<Longrightarrow> f x = g x) \<Longrightarrow> first_model f ys = first_model g ys" by (induction ys) (auto split: option.split)
  then show "xs = ys \<Longrightarrow> (\<And>x. x \<in> set ys \<Longrightarrow> f x = g x) \<Longrightarrow> first_model f xs = first_model g ys" by simp
qed

text \<open>The arguments in which \<open>resolve_model\<close> looks: only the first one for a list.\<close>

definition searched_args :: "'m annot \<Rightarrow> 'm annot list" where
  "searched_args a = (case a of SequenceType True (x # _) \<Rightarrow> [x] | _ \<Rightarrow> annot_args a)"

lemma searched_args_size [termination_simp]: "a \<in> set (searched_args x) \<Longrightarrow> size a < size x"
  by (rule annot_args_size) (auto simp: searched_args_def split: annot.splits list.splits bool.splits)

function resolve_model :: "('m \<Rightarrow> 'm model_class) \<Rightarrow> 'm annot \<Rightarrow> 'm option" where
  "resolve_model ct a = (case a of
     ClassType c \<Rightarrow> if mc_is_model (ct c) then Some c else None
   | _ \<Rightarrow> first_model (resolve_model ct) (searched_args a))"
  by pat_completeness auto
termination by (relation "measure (\<lambda>(ct, a). size a)") (auto dest: searched_args_size)

function iter_models :: "('m \<Rightarrow> 'm model_class) \<Rightarrow> 'm annot \<Rightarrow> 'm list" where
  "iter_models ct a = (case a of
     ClassType c \<Rightarrow> if mc_is_model (ct c) then [c] else []
   | _ \<Rightarrow> concat (map (iter_models ct) (annot_args a)))"
  by pat_completeness auto
termination by (relation "measure (\<lambda>(ct, a). size a)") (auto simp: less_Suc_eq_le size_list_estimation')

declare resolve_model.simps [simp del] iter_models.simps [simp del]

definition field_model :: "('m \<Rightarrow> 'm model_class) \<Rightarrow> 'm \<Rightarrow> string \<Rightarrow> 'm option" where
  "field_model ct parent name = (case map_of (mc_fields (ct parent)) name of
     None \<Rightarrow> None | Some f \<Rightarrow> resolve_model ct (cf_annotation f))"

section \<open>Type references\<close>

definition plain_ref :: "type_kind \<Rightarrow> type_ref" where
  "plain_ref k = TypeRef k None [] None None None [] None"

definition array_ref :: "type_ref \<Rightarrow> type_ref" where
  "array_ref t = TypeRef TK_ARRAY (Some t) [] None None None [] None"

definition union_ref :: "type_ref list \<Rightarrow> type_ref" where
  "union_ref ts = TypeRef TK_UNION None ts None None None [] None"

definition mapping_ref :: "type_ref \<Rightarrow> type_ref \<Rightarrow> type_ref" where
  "mapping_ref k v = TypeRef TK_MAP None [k, v] None None None [] None"

definition literal_ref :: "json list \<Rightarrow> type_ref" where
  "literal_ref vs = TypeRef TK_LITERAL None [] None None None vs None"

definition model_type_ref :: "model_ref \<Rightarrow> string option \<Rightarrow> type_ref" where
  "model_type_ref r v = TypeRef TK_MODEL None [] None (Some r) v [] None"

definition unknown_ref :: "string \<Rightarrow> type_ref" where
  "unknown_ref n = TypeRef TK_UNKNOWN None [] None None None [] (Some n)"

text \<open>
  The reference of a model has its version, which is what \<open>version\<close> describes: an empty version counts as none.
\<close>

definition resolved_type_ref :: "('m \<Rightarrow> ('s, model_ref) op) \<Rightarrow> ('m \<Rightarrow> ('s, string) op) \<Rightarrow> 'm \<Rightarrow> ('s, type_ref) op" where
  "resolved_type_ref ref_of version_of c = bindS (ref_of c) (\<lambda>r. bindS (version_of c) (\<lambda>v.
     returnS (model_type_ref r (if v = [] then None else Some v))))"

function annotation_type_ref :: "('m \<Rightarrow> 'm model_class) \<Rightarrow> ('m \<Rightarrow> ('s, model_ref) op) \<Rightarrow> ('m \<Rightarrow> ('s, string) op) \<Rightarrow> 'm annot \<Rightarrow> ('s, type_ref) op" where
  "annotation_type_ref ct ref_of version_of a = (case a of
     NoneType \<Rightarrow> returnS (plain_ref TK_NULL)
   | AnyType \<Rightarrow> returnS (plain_ref TK_ANY)
   | SimpleType k \<Rightarrow> returnS (plain_ref k)
   | AnnotatedType x \<Rightarrow> annotation_type_ref ct ref_of version_of x
   | LiteralType vs \<Rightarrow> returnS (literal_ref vs)
   | UnionType xs \<Rightarrow> bindS (mapS (annotation_type_ref ct ref_of version_of) xs) (\<lambda>ts. returnS (union_ref ts))
   | VarTuple x \<Rightarrow> bindS (annotation_type_ref ct ref_of version_of x) (\<lambda>t. returnS (array_ref t))
   | TupleType xs \<Rightarrow> bindS (mapS (annotation_type_ref ct ref_of version_of) xs) (\<lambda>ts. returnS (array_ref (union_ref ts)))
   | SequenceType _ [] \<Rightarrow> raiseS IndexError
   | SequenceType _ (x # _) \<Rightarrow> bindS (annotation_type_ref ct ref_of version_of x) (\<lambda>t. returnS (array_ref t))
   | MappingType (k # v # _) \<Rightarrow> bindS (annotation_type_ref ct ref_of version_of k) (\<lambda>s.
       bindS (annotation_type_ref ct ref_of version_of v) (\<lambda>t. returnS (mapping_ref s t)))
   | MappingType (k # []) \<Rightarrow> bindS (annotation_type_ref ct ref_of version_of k) (\<lambda>_. raiseS IndexError)
   | MappingType [] \<Rightarrow> raiseS IndexError
   | ClassType c \<Rightarrow> if mc_is_model (ct c) then resolved_type_ref ref_of version_of c
       else returnS (unknown_ref (mc_module (ct c) @ ''.'' @ mc_qualname (ct c)))
   | OtherType text _ \<Rightarrow> (case resolve_model ct a of
       Some c \<Rightarrow> resolved_type_ref ref_of version_of c | None \<Rightarrow> returnS (unknown_ref text)))"
  by pat_completeness auto
termination
  by (relation "measure (\<lambda>(ct, r, v, a). size a)") (auto simp: less_Suc_eq_le size_list_estimation')

declare annotation_type_ref.simps [simp del]

section \<open>Descriptions\<close>

definition encode_default :: "pyval option \<Rightarrow> json option res" where
  "encode_default d = (case d of None \<Rightarrow> Inr None | Some v \<Rightarrow> bindR (encode v) (\<lambda>j. Inr (Some j)))"

definition describe_field :: "('m annot \<Rightarrow> ('s, type_ref) op) \<Rightarrow> string \<times> 'm class_field \<Rightarrow> ('s, 'v field_descriptor) op" where
  "describe_field type_ref_of = (\<lambda>(name, f). bindS (type_ref_of (cf_annotation f)) (\<lambda>t.
     bindS (liftS (encode_default (cf_default f))) (\<lambda>d. returnS (FieldDescriptor name t (cf_required f) d [] (cf_object f)))))"

definition with_references :: "'v field_descriptor \<Rightarrow> 'v node_id list \<Rightarrow> 'v field_descriptor" where
  "with_references f refs = FieldDescriptor (fd_name f) (fd_type_ref f) (fd_required f) (fd_default f) refs (fd_annotation f)"

text \<open>What the runtime works with: the classes, the codec, the provider and the conversions of a version.\<close>

record ('v, 'm) schema_runtime =
  sr_classes :: "'m \<Rightarrow> 'm model_class"
  sr_codec :: model_codec
  sr_provider :: string
  sr_parse :: "'v version_arg \<Rightarrow> 'v res"
  sr_show :: "'v \<Rightarrow> string"

definition described_id :: "('v, 'm) schema_runtime \<Rightarrow> (string, 'v field_descriptor) dict \<Rightarrow> 'v node_id res" where
  "described_id rt fs = node_id_parse (sr_parse rt) (cd_namespace (sr_codec rt)) (codec_kind (sr_codec rt) fs) (StrArg (codec_version (sr_codec rt) fs))"

text \<open>
  One nested model of a field: models without a kind are passed over, and so are those whose version cannot be
  parsed; of the others the identity and all their own references are collected.
\<close>

definition add_nested :: "('v, 'm) schema_runtime \<Rightarrow> ('m \<Rightarrow> ('s, (string, 'v field_descriptor) dict) op) \<Rightarrow> ('m \<Rightarrow> ('s, 'v node_id list) op)
    \<Rightarrow> 'm \<Rightarrow> 'm \<Rightarrow> 'v node_id list \<Rightarrow> ('s, 'v node_id list) op" where
  "add_nested rt describe refs_of owner nested found = (if nested = owner then returnS found
     else bindS (describe nested) (\<lambda>fs. if codec_kind (sr_codec rt) fs = [] then returnS found
       else (case described_id rt fs of
         Inl e \<Rightarrow> if e = TypeError \<or> e = ValueError then returnS found else raiseS e
       | Inr i \<Rightarrow> bindS (refs_of nested) (\<lambda>more. returnS (fold List.insert more (List.insert i found))))))"

definition field_references :: "('v, 'm) schema_runtime \<Rightarrow> ('m \<Rightarrow> ('s, (string, 'v field_descriptor) dict) op) \<Rightarrow> ('m \<Rightarrow> ('s, 'v node_id list) op)
    \<Rightarrow> 'm \<Rightarrow> 'm annot \<Rightarrow> ('s, 'v node_id list) op" where
  "field_references rt describe refs_of owner a =
     bindS (foldS (add_nested rt describe refs_of owner) (iter_models (sr_classes rt) a) []) (\<lambda>found.
       returnS (sort_key (reference_order (sr_show rt)) found))"

definition describe_class :: "('v, 'm) schema_runtime \<Rightarrow> ('m annot \<Rightarrow> ('s, type_ref) op) \<Rightarrow> ('m annot \<Rightarrow> ('s, 'v node_id list) op)
    \<Rightarrow> 'm \<Rightarrow> ('s, (string, 'v field_descriptor) dict) op" where
  "describe_class rt type_ref_of references_of c =
     bindS (mapS (describe_field type_ref_of) (mc_fields (sr_classes rt c))) (\<lambda>ds.
       mapS (\<lambda>((name, f), d). bindS (references_of (cf_annotation f)) (\<lambda>refs. returnS (name, with_references d refs)))
         (zip (mc_fields (sr_classes rt c)) ds))"

text \<open>The references of a model with those of its nested models; a version that cannot be parsed is an error here.\<close>

definition visit_nested :: "('v, 'm) schema_runtime \<Rightarrow> ('m \<Rightarrow> ('s, (string, 'v field_descriptor) dict) op)
    \<Rightarrow> ('m \<Rightarrow> 'v node_id list \<times> 'm list \<Rightarrow> ('s, 'v node_id list \<times> 'm list) op)
    \<Rightarrow> 'm \<Rightarrow> 'm \<Rightarrow> 'v node_id list \<times> 'm list \<Rightarrow> ('s, 'v node_id list \<times> 'm list) op" where
  "visit_nested rt describe collect owner nested = (\<lambda>(found, seen). if nested = owner then returnS (found, seen)
     else bindS (describe nested) (\<lambda>fs. if codec_kind (sr_codec rt) fs = [] then returnS (found, seen)
       else bindS (liftS (described_id rt fs)) (\<lambda>i. collect nested (List.insert i found, seen))))"

text \<open>The type reference of an annotation remembers the models in it and describes them to know their versions.\<close>

definition runtime_type_ref :: "('v, 'm) schema_runtime \<Rightarrow> ('m \<Rightarrow> ('m handles, (string, 'v field_descriptor) dict) op)
    \<Rightarrow> 'm annot \<Rightarrow> ('m handles, type_ref) op" where
  "runtime_type_ref rt describe a = annotation_type_ref (sr_classes rt) (remember (sr_classes rt) (sr_provider rt))
     (\<lambda>m. bindS (describe m) (\<lambda>fs. returnS (codec_version (sr_codec rt) fs))) a"

fun describe_fields :: "nat \<Rightarrow> ('v, 'm) schema_runtime \<Rightarrow> 'm \<Rightarrow> ('m handles, (string, 'v field_descriptor) dict) op"
  and collect_references :: "nat \<Rightarrow> ('v, 'm) schema_runtime \<Rightarrow> 'm \<Rightarrow> 'v node_id list \<times> 'm list \<Rightarrow> ('m handles, 'v node_id list \<times> 'm list) op" where
  "describe_fields 0 rt c = raiseS RecursionError"
| "describe_fields (Suc n) rt c = (if \<not> mc_is_model (sr_classes rt c) then raiseS AttributeError
     else describe_class rt (runtime_type_ref rt (describe_fields n rt))
       (field_references rt (describe_fields n rt)
         (\<lambda>m. bindS (collect_references n rt m ([], [])) (\<lambda>(found, _). returnS found)) c) c)"
| "collect_references 0 rt c acc = raiseS RecursionError"
| "collect_references (Suc n) rt c acc = (if \<not> mc_is_model (sr_classes rt c) \<or> c \<in> set (snd acc) then returnS acc
     else foldS (visit_nested rt (describe_fields n rt) (collect_references n rt) c)
       (concat (map (\<lambda>(name, f). iter_models (sr_classes rt) (cf_annotation f)) (mc_fields (sr_classes rt c)))) (fst acc, c # snd acc))"

definition runtime_references :: "nat \<Rightarrow> ('v, 'm) schema_runtime \<Rightarrow> 'm \<Rightarrow> ('m handles, 'v node_id list) op" where
  "runtime_references n rt c = bindS (collect_references n rt c ([], [])) (\<lambda>(found, _). returnS found)"

section \<open>Reconstructed models\<close>

text \<open>The definitions of fields for \<open>create_model\<close>: a text, a field of the anchor, or an annotation with or without a default.\<close>

datatype 'm field_def = TextField string | KeptField "'m class_field" | RequiredField pyval | DefaultField pyval pyval

definition kept_fields :: "model_codec \<Rightarrow> 'v diff \<Rightarrow> (string, 'm class_field) dict \<Rightarrow> (string, 'm field_def) dict" where
  "kept_fields cd d fs = map (\<lambda>(n, f). (n, KeptField f)) (filter (\<lambda>(n, _). n \<noteq> cd_version_property cd \<and> n \<notin> set (removed_fields d)) fs)"

definition added_def :: "pyval \<Rightarrow> (string \<times> pyval) list \<Rightarrow> 'm field_def" where
  "added_def any info =
     (let annotation = (let t = dict_get info ''type'' PNone in if py_truthy t then t else any);
          d = dict_get info ''default'' PNone in
      if py_truthy (dict_get info ''required'' PNone) then RequiredField annotation else DefaultField annotation d)"

definition add_field_def :: "pyval \<Rightarrow> 'v diff \<Rightarrow> string \<Rightarrow> (string, 'm field_def) dict \<Rightarrow> (string, 'm field_def) dict" where
  "add_field_def any d name fs = (if dict_has fs name then fs
     else AList.update name (added_def any (dict_get (added_field_info d) name [])) fs)"

definition model_fields :: "pyval \<Rightarrow> ('v, 'm) schema_runtime \<Rightarrow> 'v diff \<Rightarrow> (string, 'm class_field) dict \<Rightarrow> (string, 'm field_def) dict" where
  "model_fields any rt d anchor = fold (add_field_def any d) (added_fields d)
     ((cd_version_property (sr_codec rt), TextField (sr_show rt (nid_version (node_id_of (diff_target d))))) # kept_fields (sr_codec rt) d anchor)"

definition class_name :: "('v, 'm) schema_runtime \<Rightarrow> 'm \<Rightarrow> 'v \<Rightarrow> string" where
  "class_name rt anchor v = mc_name (sr_classes rt anchor) @ ''V''
     @ map (\<lambda>c. if c = CHR ''.'' then CHR ''_'' else c) (sr_show rt v)"

text \<open>\<open>any\<close> is \<open>typing.Any\<close> and \<open>create\<close> is \<open>pydantic.create_model\<close>.\<close>

definition build_model :: "pyval \<Rightarrow> (string \<Rightarrow> (string, 'm field_def) dict \<Rightarrow> 'm res) \<Rightarrow> ('v, 'm) schema_runtime \<Rightarrow> 'v diff \<Rightarrow> ('m handles, 'm) op" where
  "build_model any create rt d h = (case descriptor (diff_source d) of
     None \<Rightarrow> (Inl AttributeError, h)
   | Some sd \<Rightarrow> (bindR (runtime_resolve (desc_ref sd) h) (\<lambda>anchor.
       create (class_name rt anchor (nid_version (node_id_of (diff_target d)))) (model_fields any rt d (mc_fields (sr_classes rt anchor)))), h))"

section \<open>The adapter\<close>

definition adapter_ref :: "('v, 'm) schema_runtime \<Rightarrow> 'm \<Rightarrow> ('m handles, model_ref) op" where
  "adapter_ref rt c = remember (sr_classes rt) (sr_provider rt) c"

definition identity_names :: "model_codec \<Rightarrow> string list" where
  "identity_names cd = [cd_version_property cd, cd_kind_property cd]"

definition adapter_descriptor :: "nat \<Rightarrow> ('v, 'm) schema_runtime \<Rightarrow> 'm \<Rightarrow> ('m handles, 'v model_descriptor) op" where
  "adapter_descriptor n rt c = bindS (describe_fields n rt c) (\<lambda>fs. bindS (adapter_ref rt c) (\<lambda>ref.
     returnS \<lparr>desc_ref = ref, desc_fields = filter (\<lambda>(name, _). name \<notin> set (identity_names (sr_codec rt))) fs\<rparr>))"

definition adapter_version :: "nat \<Rightarrow> ('v, 'm) schema_runtime \<Rightarrow> 'm \<Rightarrow> ('m handles, string) op" where
  "adapter_version n rt c = bindS (describe_fields n rt c) (\<lambda>fs. returnS (codec_version (sr_codec rt) fs))"

definition adapter_kind :: "nat \<Rightarrow> ('v, 'm) schema_runtime \<Rightarrow> 'm \<Rightarrow> ('m handles, string) op" where
  "adapter_kind n rt c = bindS (describe_fields n rt c) (\<lambda>fs. returnS (codec_kind (sr_codec rt) fs))"

text \<open>A given kind or version wins over the one of the class; an empty kind counts as not given.\<close>

definition versionable :: "nat \<Rightarrow> ('v, 'm) schema_runtime \<Rightarrow> 'm \<Rightarrow> string option \<Rightarrow> 'v version_arg option \<Rightarrow> ('m handles, 'v node) op" where
  "versionable n rt c kind version = bindS (adapter_descriptor n rt c) (\<lambda>d.
     bindS (case kind of Some (x # k) \<Rightarrow> returnS (x # k) | _ \<Rightarrow> adapter_kind n rt c) (\<lambda>k.
     bindS (case version of Some v \<Rightarrow> returnS v | None \<Rightarrow> bindS (adapter_version n rt c) (\<lambda>s. returnS (StrArg s))) (\<lambda>arg.
     bindS (liftS (node_id_parse (sr_parse rt) (cd_namespace (sr_codec rt)) k arg)) (\<lambda>i.
     returnS (ModelNode i (desc_ref d) d)))))"

definition adapter_materialize :: "nat \<Rightarrow> pyval \<Rightarrow> (string \<Rightarrow> (string, 'm field_def) dict \<Rightarrow> 'm res) \<Rightarrow> ('v::linorder, 'm) schema_runtime
    \<Rightarrow> 'v diff \<Rightarrow> ('m handles, 'v node) op" where
  "adapter_materialize n any create rt d =
     (let d' = (if nid_version (node_id_of (diff_source d)) > nid_version (node_id_of (diff_target d)) then diff_inverted d else d) in
      bindS (build_model any create rt d') (\<lambda>c. versionable n rt c None None))"

definition adapter_fields :: "nat \<Rightarrow> ('v, 'm) schema_runtime \<Rightarrow> 'm \<Rightarrow> ('m handles, string list) op" where
  "adapter_fields n rt c = bindS (describe_fields n rt c) (\<lambda>fs.
     returnS (filter (\<lambda>name. name \<notin> set (identity_names (sr_codec rt))) (map fst fs)))"

text \<open>
  \<open>ensure_compatible\<close>: a container, when there is one, has to be a model of which some reachable model has all the
  fields. \<open>reachable\<close> is \<open>_reachable_models\<close>, the nested models in the order in which a stack finds them.
\<close>

definition nested_models :: "('m \<Rightarrow> 'm model_class) \<Rightarrow> 'm \<Rightarrow> 'm list" where
  "nested_models ct c = concat (map (\<lambda>(_, f). iter_models ct (cf_annotation f)) (mc_fields (ct c)))"

definition note_model :: "'m \<Rightarrow> 'm list \<times> 'm list \<Rightarrow> 'm list \<times> 'm list" where
  "note_model m = (\<lambda>(found, stack). if m \<in> set found then (found, stack) else (found @ [m], m # stack))"

partial_function (option) reachable_loop :: "('m \<Rightarrow> 'm model_class) \<Rightarrow> 'm list \<Rightarrow> 'm list \<Rightarrow> 'm list option" where
  "reachable_loop ct found stack = (case stack of
     [] \<Rightarrow> Some found
   | current # rest \<Rightarrow> (case fold note_model (nested_models ct current) (found, rest) of
       (found', stack') \<Rightarrow> reachable_loop ct found' stack'))"

definition reachable_models :: "('m \<Rightarrow> 'm model_class) \<Rightarrow> 'm \<Rightarrow> 'm list option" where
  "reachable_models ct c = reachable_loop ct [c] [c]"

definition can_handle :: "('m \<Rightarrow> 'm model_class) \<Rightarrow> 'm \<Rightarrow> string list option \<Rightarrow> bool option" where
  "can_handle ct c wanted = (if \<not> mc_is_model (ct c) then Some False
     else (case wanted of
       None \<Rightarrow> Some True
     | Some ns \<Rightarrow> map_option (list_ex (\<lambda>m. set ns \<subseteq> fst ` set (mc_fields (ct m)))) (reachable_models ct c)))"

section \<open>Recursion\<close>

text \<open>The models whose version the type reference of an annotation needs.\<close>

function type_models :: "('m \<Rightarrow> 'm model_class) \<Rightarrow> 'm annot \<Rightarrow> 'm list" where
  "type_models ct a = (case a of
     AnnotatedType x \<Rightarrow> type_models ct x
   | UnionType xs \<Rightarrow> concat (map (type_models ct) xs)
   | VarTuple x \<Rightarrow> type_models ct x
   | TupleType xs \<Rightarrow> concat (map (type_models ct) xs)
   | SequenceType _ (x # _) \<Rightarrow> type_models ct x
   | MappingType (k # v # _) \<Rightarrow> type_models ct k @ type_models ct v
   | MappingType (k # []) \<Rightarrow> type_models ct k
   | ClassType c \<Rightarrow> if mc_is_model (ct c) then [c] else []
   | OtherType _ _ \<Rightarrow> (case resolve_model ct a of Some c \<Rightarrow> [c] | None \<Rightarrow> [])
   | _ \<Rightarrow> [])"
  by pat_completeness auto
termination by (relation "measure (\<lambda>(ct, a). size a)") (auto simp: less_Suc_eq_le size_list_estimation')

declare type_models.simps [simp del]

lemmas iter_models_simps [simp] =
  iter_models.simps [where a = "NoneType", simplified]
  iter_models.simps [where a = "AnyType", simplified]
  iter_models.simps [where a = "SimpleType k" for k, simplified]
  iter_models.simps [where a = "AnnotatedType x" for x, simplified]
  iter_models.simps [where a = "LiteralType vs" for vs, simplified]
  iter_models.simps [where a = "UnionType xs" for xs, simplified]
  iter_models.simps [where a = "TupleType xs" for xs, simplified]
  iter_models.simps [where a = "VarTuple x" for x, simplified]
  iter_models.simps [where a = "SequenceType b []" for b, simplified]
  iter_models.simps [where a = "SequenceType b (x # xs)" for b x xs, simplified]
  iter_models.simps [where a = "MappingType []", simplified]
  iter_models.simps [where a = "MappingType [k]" for k, simplified]
  iter_models.simps [where a = "MappingType (k # v # xs)" for k v xs, simplified]
  iter_models.simps [where a = "ClassType c" for c, simplified]
  iter_models.simps [where a = "OtherType t xs" for t xs, simplified]

lemmas type_models_simps [simp] =
  type_models.simps [where a = "NoneType", simplified]
  type_models.simps [where a = "AnyType", simplified]
  type_models.simps [where a = "SimpleType k" for k, simplified]
  type_models.simps [where a = "AnnotatedType x" for x, simplified]
  type_models.simps [where a = "LiteralType vs" for vs, simplified]
  type_models.simps [where a = "UnionType xs" for xs, simplified]
  type_models.simps [where a = "TupleType xs" for xs, simplified]
  type_models.simps [where a = "VarTuple x" for x, simplified]
  type_models.simps [where a = "SequenceType b []" for b, simplified]
  type_models.simps [where a = "SequenceType b (x # xs)" for b x xs, simplified]
  type_models.simps [where a = "MappingType []", simplified]
  type_models.simps [where a = "MappingType [k]" for k, simplified]
  type_models.simps [where a = "MappingType (k # v # xs)" for k v xs, simplified]
  type_models.simps [where a = "ClassType c" for c, simplified]
  type_models.simps [where a = "OtherType t xs" for t xs, simplified]

lemmas annotation_type_ref_simps [simp] =
  annotation_type_ref.simps [where a = "NoneType", simplified]
  annotation_type_ref.simps [where a = "AnyType", simplified]
  annotation_type_ref.simps [where a = "SimpleType k" for k, simplified]
  annotation_type_ref.simps [where a = "AnnotatedType x" for x, simplified]
  annotation_type_ref.simps [where a = "LiteralType vs" for vs, simplified]
  annotation_type_ref.simps [where a = "UnionType xs" for xs, simplified]
  annotation_type_ref.simps [where a = "TupleType xs" for xs, simplified]
  annotation_type_ref.simps [where a = "VarTuple x" for x, simplified]
  annotation_type_ref.simps [where a = "SequenceType b []" for b, simplified]
  annotation_type_ref.simps [where a = "SequenceType b (x # xs)" for b x xs, simplified]
  annotation_type_ref.simps [where a = "MappingType []", simplified]
  annotation_type_ref.simps [where a = "MappingType [k]" for k, simplified]
  annotation_type_ref.simps [where a = "MappingType (k # v # xs)" for k v xs, simplified]
  annotation_type_ref.simps [where a = "ClassType c" for c, simplified]
  annotation_type_ref.simps [where a = "OtherType t xs" for t xs, simplified]

lemma first_model_Some: "first_model f xs = Some c \<Longrightarrow> \<exists>x \<in> set xs. f x = Some c"
  by (induction xs) (auto split: option.splits)

lemma searched_args_sub: "set (searched_args a) \<subseteq> set (annot_args a)"
  by (auto simp: searched_args_def split: annot.splits list.splits bool.splits)

lemma resolve_model_iter: "resolve_model ct a = Some c \<Longrightarrow> c \<in> set (iter_models ct a)"
proof (induction ct a rule: resolve_model.induct)
  case (1 ct a)
  show ?case
  proof (cases "\<exists>c. a = ClassType c")
    case True
    then show ?thesis using "1.prems" by (auto simp: resolve_model.simps iter_models.simps split: if_splits)
  next
    case False
    then have "first_model (resolve_model ct) (searched_args a) = Some c"
      using "1.prems" by (subst (asm) resolve_model.simps) (auto split: annot.splits)
    then obtain x where x: "x \<in> set (searched_args a)" "resolve_model ct x = Some c" by (auto dest: first_model_Some)
    then have "c \<in> set (iter_models ct x)" using "1.IH" False by (cases a) auto
    moreover have "x \<in> set (annot_args a)" using x(1) searched_args_sub by blast
    moreover have "iter_models ct a = concat (map (iter_models ct) (annot_args a))"
      using False by (subst iter_models.simps) (auto split: annot.splits)
    ultimately show ?thesis by auto
  qed
qed

lemma type_models_iter: "set (type_models ct a) \<subseteq> set (iter_models ct a)"
proof (induction ct a rule: type_models.induct)
  case (1 ct a)
  show ?case
  proof (cases a)
    case (OtherType t xs)
    then show ?thesis using resolve_model_iter [of ct a] by (auto simp del: iter_models_simps split: option.splits)
  next
    case (SequenceType b xs)
    then show ?thesis using 1 by (cases xs) auto
  next
    case (MappingType xs)
    then show ?thesis using 1 by (cases xs; cases "tl xs") (auto simp: neq_Nil_conv subset_iff)
  qed (use 1 in auto)
qed

lemma bindS_ok: "okR (fst (bindS m f s)) \<longleftrightarrow> okR (fst (m s)) \<and> okR (fst (f (projr (fst (m s))) (snd (m s))))"
  by (cases "m s"; cases "fst (m s)") (auto simp: bindS_def)

lemma mapS_ok: "okR (fst (mapS f xs s)) \<Longrightarrow> x \<in> set xs \<Longrightarrow> \<exists>s'. okR (fst (f x s'))"
  by (induction xs arbitrary: s) (auto simp: bindS_ok)

lemma resolved_type_ref_ok: "okR (fst (resolved_type_ref ref_of version_of c s)) \<Longrightarrow> \<exists>s'. okR (fst (version_of c s'))"
  by (auto simp: resolved_type_ref_def bindS_ok)

text \<open>A type reference that is found has found the version of each of its models.\<close>

lemma type_ref_versions:
  "okR (fst (annotation_type_ref ct ref_of version_of a s)) \<Longrightarrow> c \<in> set (type_models ct a) \<Longrightarrow> \<exists>s'. okR (fst (version_of c s'))"
proof (induction ct ref_of version_of a arbitrary: s rule: annotation_type_ref.induct)
  case (1 ct ref_of version_of a)
  have parts: "\<exists>s' x. x \<in> set xs \<and> c \<in> set (type_models ct x) \<and> okR (fst (annotation_type_ref ct ref_of version_of x s'))"
    if "c \<in> set (concat (map (type_models ct) xs))" "okR (fst (bindS (mapS (annotation_type_ref ct ref_of version_of) xs) f s))" for xs f
    using that mapS_ok [of "annotation_type_ref ct ref_of version_of" xs s] by (auto simp: bindS_ok) blast
  show ?case
  proof (cases a)
    case (OtherType t xs)
    then show ?thesis using "1.prems" resolved_type_ref_ok by (fastforce split: option.splits)
  next
    case (ClassType m)
    then show ?thesis using "1.prems" resolved_type_ref_ok by (fastforce split: if_splits)
  next
    case (UnionType xs)
    from parts [of xs "\<lambda>ts. returnS (union_ref ts)"] "1.prems" UnionType show ?thesis using "1.IH"(2) [OF UnionType] by auto
  next
    case (TupleType xs)
    from parts [of xs "\<lambda>ts. returnS (array_ref (union_ref ts))"] "1.prems" TupleType show ?thesis using "1.IH"(3) [OF TupleType] by auto
  next
    case (SequenceType b xs)
    then show ?thesis using 1 by (cases xs) (auto simp: bindS_ok)
  next
    case (MappingType xs)
    then show ?thesis using 1 by (cases xs; cases "tl xs") (auto simp: bindS_ok neq_Nil_conv)
  qed (use 1 in \<open>auto simp: bindS_ok\<close>)
qed

lemma describe_class_ok:
  assumes "okR (fst (describe_class rt type_ref_of references_of c h))" "(name, f) \<in> set (mc_fields (sr_classes rt c))"
  shows "\<exists>h'. okR (fst (type_ref_of (cf_annotation f) h'))"
  using assms mapS_ok [of "describe_field type_ref_of" "mc_fields (sr_classes rt c)" h "(name, f)"]
  by (auto simp: describe_class_def bindS_ok describe_field_def)

lemma describe_fields_versions:
  assumes "okR (fst (describe_fields (Suc n) rt c h))" "(name, f) \<in> set (mc_fields (sr_classes rt c))" "m \<in> set (type_models (sr_classes rt) (cf_annotation f))"
  shows "\<exists>h'. okR (fst (describe_fields n rt m h'))"
proof -
  from assms(1) obtain h' where "okR (fst (runtime_type_ref rt (describe_fields n rt) (cf_annotation f) h'))"
    by (auto split: if_splits dest!: describe_class_ok [OF _ assms(2)])
  then show ?thesis using type_ref_versions [OF _ assms(3)] unfolding runtime_type_ref_def by (fastforce simp: bindS_ok)
qed

text \<open>An operation that does not need more nested calls than it may make.\<close>

named_theorems unlimited_intros \<open>operations that need no more nested calls than allowed\<close>

definition unlimited :: "('s, 'a) op \<Rightarrow> bool" where
  "unlimited m \<longleftrightarrow> (\<forall>s. fst (m s) \<noteq> Inl RecursionError)"

lemma unlimited_basic [unlimited_intros]:
  "unlimited (returnS x)" "e \<noteq> RecursionError \<Longrightarrow> unlimited (raiseS e)" "r \<noteq> Inl RecursionError \<Longrightarrow> unlimited (liftS r)"
  "unlimited (remember ct provider c)" "unlimited (Pair (Inr x))" "e \<noteq> RecursionError \<Longrightarrow> unlimited (Pair (Inl e))"
  by (simp_all add: unlimited_def remember_def Let_def)

lemma unlimited_bind [unlimited_intros]: "unlimited m \<Longrightarrow> (\<And>x. unlimited (f x)) \<Longrightarrow> unlimited (bindS m f)"
  unfolding unlimited_def bindS_def by (auto split: prod.split sum.split) (metis fst_conv)

lemma unlimited_map [unlimited_intros]: "(\<And>x. x \<in> set xs \<Longrightarrow> unlimited (f x)) \<Longrightarrow> unlimited (mapS f xs)"
  by (induction xs) (auto intro!: unlimited_intros)

lemma unlimited_fold [unlimited_intros]: "(\<And>x b. x \<in> set xs \<Longrightarrow> unlimited (f x b)) \<Longrightarrow> unlimited (foldS f xs b)"
  by (induction xs arbitrary: b) (auto intro!: unlimited_intros)

lemma unlimited_type_ref [unlimited_intros]:
  "(\<And>c. unlimited (ref_of c)) \<Longrightarrow> (\<And>c. c \<in> set (type_models ct a) \<Longrightarrow> unlimited (version_of c)) \<Longrightarrow> unlimited (annotation_type_ref ct ref_of version_of a)"
proof (induction ct ref_of version_of a rule: annotation_type_ref.induct)
  case (1 ct ref_of version_of a)
  have r: "unlimited (version_of c) \<Longrightarrow> unlimited (resolved_type_ref ref_of version_of c)" for c
    unfolding resolved_type_ref_def by (intro unlimited_intros "1.prems"(1))
  show ?case
  proof (cases a)
    case (OtherType t xs)
    then show ?thesis using "1.prems" by (auto intro!: r unlimited_intros split: option.split)
  next
    case (SequenceType b xs)
    then show ?thesis using 1 by (cases xs) (auto intro!: unlimited_intros)
  next
    case (MappingType xs)
    then show ?thesis using 1 by (cases xs; cases "tl xs") (auto simp: neq_Nil_conv intro!: unlimited_intros)
  next
    case (UnionType xs)
    then have "unlimited (annotation_type_ref ct ref_of version_of x)" if "x \<in> set xs" for x using "1.IH"(2) [OF UnionType that] "1.prems" that by auto
    then show ?thesis using UnionType by (auto intro!: unlimited_intros)
  next
    case (TupleType xs)
    then have "unlimited (annotation_type_ref ct ref_of version_of x)" if "x \<in> set xs" for x using "1.IH"(3) [OF TupleType that] "1.prems" that by auto
    then show ?thesis using TupleType by (auto intro!: unlimited_intros)
  qed (use 1 r in \<open>auto intro!: unlimited_intros\<close>)
qed

lemma encode_unlimited: "encode v \<noteq> Inl RecursionError"
proof (induction v rule: encode.induct)
  case (7 kvs)
  then show ?case by (fastforce simp: encode_mapping_def bindR_def split: sum.splits pyval.splits dest!: mapR_error)
next
  case (11 fs)
  then show ?case by (fastforce simp: encode_dataclass_def encode_mapping_def bindR_def split: sum.splits pyval.splits dest!: mapR_error)
next
  case (8 xs)
  then show ?case by (fastforce simp: encode_sequence_def bindR_def split: sum.splits dest!: mapR_error)
next
  case (9 xs)
  then show ?case by (fastforce simp: encode_set_def bindR_def split: sum.splits dest!: mapR_error)
qed (auto simp: encode_float_def)

lemma described_id_unlimited: "(\<And>v. sr_parse rt v \<noteq> Inl RecursionError) \<Longrightarrow> described_id rt fs \<noteq> Inl RecursionError"
  by (auto simp: described_id_def node_id_parse_def mk_node_id_def bindR_def split: sum.splits if_splits)

lemma unlimited_describe_class:
  assumes "\<And>name f. (name, f) \<in> set (mc_fields (sr_classes rt c)) \<Longrightarrow> unlimited (type_ref_of (cf_annotation f)) \<and> unlimited (references_of (cf_annotation f))"
  shows "unlimited (describe_class rt type_ref_of references_of c)"
proof -
  have "encode_default d \<noteq> Inl RecursionError" for d
    using encode_unlimited by (auto simp: encode_default_def bindR_def split: option.split sum.split)
  then have "unlimited (describe_field type_ref_of x)" if "x \<in> set (mc_fields (sr_classes rt c))" for x
    using assms [of "fst x" "snd x"] that unfolding describe_field_def by (auto simp: case_prod_unfold intro!: unlimited_intros)
  then show ?thesis using assms unfolding describe_class_def by (fastforce intro!: unlimited_intros dest: set_zip_leftD)
qed

text \<open>With a limit above its rank in an order of nesting, a model is described and its references are collected.\<close>

lemma describe_unlimited:
  assumes "\<And>v. sr_parse rt v \<noteq> Inl RecursionError"
    and rank: "\<And>c name f m. mc_is_model (sr_classes rt c) \<Longrightarrow> (name, f) \<in> set (mc_fields (sr_classes rt c))
      \<Longrightarrow> m \<in> set (iter_models (sr_classes rt) (cf_annotation f)) \<Longrightarrow> rank m < rank c"
  shows "rank c < n \<Longrightarrow> unlimited (describe_fields n rt c)" "rank c < n \<Longrightarrow> unlimited (collect_references n rt c acc)"
proof (induction n arbitrary: c acc)
  case (Suc n)
  { case 1
    show ?case
    proof (cases "mc_is_model (sr_classes rt c)")
      case True
      have r: "rank m < n" if "(name, f) \<in> set (mc_fields (sr_classes rt c))" "m \<in> set (iter_models (sr_classes rt) (cf_annotation f))" for name f m
        using rank [OF True that] 1 by simp
      have d: "unlimited (describe_fields n rt m)" "unlimited (collect_references n rt m acc)" if "rank m < n" for m acc using Suc that by blast+
      have "unlimited (add_nested rt (describe_fields n rt) (\<lambda>m. bindS (collect_references n rt m ([], [])) (\<lambda>(found, _). returnS found)) c m found)"
        if "rank m < n" for m found using d [OF that] described_id_unlimited [OF assms(1)]
        by (auto intro!: unlimited_intros simp: add_nested_def case_prod_unfold split: sum.split)
      then have "unlimited (field_references rt (describe_fields n rt) (\<lambda>m. bindS (collect_references n rt m ([], [])) (\<lambda>(found, _). returnS found)) c (cf_annotation f))"
        if "(name, f) \<in> set (mc_fields (sr_classes rt c))" for name f using r [OF that] unfolding field_references_def by (auto intro!: unlimited_intros)
      moreover have "unlimited (runtime_type_ref rt (describe_fields n rt) (cf_annotation f))"
        if "(name, f) \<in> set (mc_fields (sr_classes rt c))" for name f
        using r [OF that] d(1) type_models_iter [of "sr_classes rt" "cf_annotation f"] unfolding runtime_type_ref_def by (auto intro!: unlimited_intros)
      ultimately show ?thesis using True by (auto intro!: unlimited_describe_class)
    qed (simp add: unlimited_def)
  next
    case 2
    have "unlimited (visit_nested rt (describe_fields n rt) (collect_references n rt) c m acc)"
      if "mc_is_model (sr_classes rt c)" "(name, f) \<in> set (mc_fields (sr_classes rt c))" "m \<in> set (iter_models (sr_classes rt) (cf_annotation f))" for name f m acc
      using Suc [of m] rank [OF that] 2 described_id_unlimited [OF assms(1)]
      by (auto intro!: unlimited_intros simp: visit_nested_def case_prod_unfold)
    then show ?case by (auto intro!: unlimited_intros)
  }
qed (simp_all add: unlimited_def)

text \<open>More calls than a model needs make no difference: the description depends on the nested models only.\<close>

lemma foldS_cong: "(\<And>x b. x \<in> set xs \<Longrightarrow> f x b = g x b) \<Longrightarrow> foldS f xs b = foldS g xs b"
proof (induction xs arbitrary: b)
  case (Cons x xs)
  then have "foldS f xs = foldS g xs" by (intro ext) (metis list.set_intros(2))
  then show ?case using Cons.prems by simp
qed simp

lemma type_ref_cong:
  "(\<And>c. c \<in> set (type_models ct a) \<Longrightarrow> v c = v' c) \<Longrightarrow> annotation_type_ref ct ref_of v a = annotation_type_ref ct ref_of v' a"
proof (induction ct ref_of v a rule: annotation_type_ref.induct)
  case (1 ct ref_of v a)
  have r: "v c = v' c \<Longrightarrow> resolved_type_ref ref_of v c = resolved_type_ref ref_of v' c" for c by (simp add: resolved_type_ref_def)
  show ?case
  proof (cases a)
    case (OtherType t xs)
    then show ?thesis using "1.prems" by (auto intro!: r split: option.split)
  next
    case (SequenceType b xs)
    then show ?thesis using 1 by (cases xs) auto
  next
    case (MappingType xs)
    then show ?thesis using 1 by (cases xs; cases "tl xs") (auto simp: neq_Nil_conv)
  next
    case (UnionType xs)
    then have "annotation_type_ref ct ref_of v x = annotation_type_ref ct ref_of v' x" if "x \<in> set xs" for x
      using "1.IH"(2) [OF UnionType that] "1.prems" that by auto
    then show ?thesis using UnionType by (auto cong: mapS_cong)
  next
    case (TupleType xs)
    then have "annotation_type_ref ct ref_of v x = annotation_type_ref ct ref_of v' x" if "x \<in> set xs" for x
      using "1.IH"(3) [OF TupleType that] "1.prems" that by auto
    then show ?thesis using TupleType by (auto cong: mapS_cong)
  qed (use 1 r in auto)
qed

lemma describe_class_cong:
  assumes "\<And>name f. (name, f) \<in> set (mc_fields (sr_classes rt c)) \<Longrightarrow> t (cf_annotation f) = t' (cf_annotation f) \<and> r (cf_annotation f) = r' (cf_annotation f)"
  shows "describe_class rt t r c = describe_class rt t' r' c"
proof -
  have "describe_field t x = describe_field t' x" if "x \<in> set (mc_fields (sr_classes rt c))" for x
    using assms [of "fst x" "snd x"] that by (cases x) (simp add: describe_field_def)
  then have m: "mapS (describe_field t) (mc_fields (sr_classes rt c)) = mapS (describe_field t') (mc_fields (sr_classes rt c))" by (rule mapS_cong [OF refl])
  have "mapS (\<lambda>((name, f), d). bindS (r (cf_annotation f)) (\<lambda>refs. returnS (name, with_references d refs))) (zip (mc_fields (sr_classes rt c)) ds)
      = mapS (\<lambda>((name, f), d). bindS (r' (cf_annotation f)) (\<lambda>refs. returnS (name, with_references d refs))) (zip (mc_fields (sr_classes rt c)) ds)" for ds
    by (rule mapS_cong [OF refl]) (use assms in \<open>fastforce dest: set_zip_leftD\<close>)
  then show ?thesis unfolding describe_class_def m by simp
qed

lemma describe_stable:
  assumes rank: "\<And>c name f m. mc_is_model (sr_classes rt c) \<Longrightarrow> (name, f) \<in> set (mc_fields (sr_classes rt c))
      \<Longrightarrow> m \<in> set (iter_models (sr_classes rt) (cf_annotation f)) \<Longrightarrow> rank m < rank c"
  shows "rank c < n \<Longrightarrow> describe_fields (n + k) rt c = describe_fields n rt c"
    "rank c < n \<Longrightarrow> collect_references (n + k) rt c acc = collect_references n rt c acc"
proof (induction n arbitrary: c acc)
  case (Suc n)
  have nested: "rank m < n" if "rank c < Suc n" "mc_is_model (sr_classes rt c)" "(name, f) \<in> set (mc_fields (sr_classes rt c))"
    "m \<in> set (iter_models (sr_classes rt) (cf_annotation f))" for c name f m using rank [OF that(2-4)] that(1) by simp
  { case 1
    show ?case
    proof (cases "mc_is_model (sr_classes rt c)")
      case True
      let ?refs = "\<lambda>n m. bindS (collect_references n rt m ([], [])) (\<lambda>(found, _). returnS found)"
      have "runtime_type_ref rt (describe_fields (n + k) rt) (cf_annotation f) = runtime_type_ref rt (describe_fields n rt) (cf_annotation f)"
        "field_references rt (describe_fields (n + k) rt) (?refs (n + k)) c (cf_annotation f) = field_references rt (describe_fields n rt) (?refs n) c (cf_annotation f)"
        if f: "(name, f) \<in> set (mc_fields (sr_classes rt c))" for name f
      proof -
        have same: "describe_fields (n + k) rt m = describe_fields n rt m" "collect_references (n + k) rt m = collect_references n rt m"
          if "m \<in> set (iter_models (sr_classes rt) (cf_annotation f))" for m using Suc [of m] nested [OF 1 True f that] by (auto simp: fun_eq_iff)
        show "runtime_type_ref rt (describe_fields (n + k) rt) (cf_annotation f) = runtime_type_ref rt (describe_fields n rt) (cf_annotation f)"
          unfolding runtime_type_ref_def
          by (rule type_ref_cong) (use same(1) type_models_iter [of "sr_classes rt" "cf_annotation f"] in auto)
        have "foldS (add_nested rt (describe_fields (n + k) rt) (?refs (n + k)) c) (iter_models (sr_classes rt) (cf_annotation f)) []
            = foldS (add_nested rt (describe_fields n rt) (?refs n) c) (iter_models (sr_classes rt) (cf_annotation f)) []"
          by (rule foldS_cong) (unfold add_nested_def, subst same(1), assumption, subst same(2), assumption, rule refl)
        then show "field_references rt (describe_fields (n + k) rt) (?refs (n + k)) c (cf_annotation f) = field_references rt (describe_fields n rt) (?refs n) c (cf_annotation f)"
          unfolding field_references_def by (rule arg_cong)
      qed
      then show ?thesis using True by (auto intro!: describe_class_cong)
    qed simp
  next
    case 2
    show ?case
    proof (cases "mc_is_model (sr_classes rt c)")
      case True
      have "visit_nested rt (describe_fields (n + k) rt) (collect_references (n + k) rt) c m acc = visit_nested rt (describe_fields n rt) (collect_references n rt) c m acc"
        if "(name, f) \<in> set (mc_fields (sr_classes rt c))" "m \<in> set (iter_models (sr_classes rt) (cf_annotation f))" for name f m acc
      proof -
        have same: "describe_fields (n + k) rt m = describe_fields n rt m" "collect_references (n + k) rt m = collect_references n rt m"
          using Suc [of m] nested [OF 2 True that] by (auto simp: fun_eq_iff)
        show ?thesis unfolding visit_nested_def same ..
      qed
      then show ?thesis by (auto intro!: foldS_cong)
    qed simp
  }
qed simp_all

text \<open>
  C34. Describing a model and collecting its references come to an end when models are nested without cycles: if
  every model has a higher rank than the models in the annotations of its fields, then calls of \<open>describe_fields\<close> and
  \<open>_collect_references\<close> are nested no deeper than one level per rank. With more levels than the rank of the model
  no call raises \<open>RecursionError\<close>, and the outcome does not depend on how many levels there may be. Levels are
  counted, not the frames of Python, of which each level takes several.
\<close>

theorem describe_terminates:
  assumes "\<forall>v. sr_parse rt v \<noteq> Inl RecursionError" "rank c < n"
    and "\<forall>c. mc_is_model (sr_classes rt c) \<longrightarrow> (\<forall>m \<in> set (nested_models (sr_classes rt) c). rank m < rank c)"
  shows "fst (describe_fields n rt c h) \<noteq> Inl RecursionError \<and> fst (runtime_references n rt c h) \<noteq> Inl RecursionError
    \<and> (\<forall>k. describe_fields (n + k) rt c h = describe_fields n rt c h \<and> runtime_references (n + k) rt c h = runtime_references n rt c h)"
proof -
  have rank: "rank m < rank c" if "mc_is_model (sr_classes rt c)" "(name, f) \<in> set (mc_fields (sr_classes rt c))"
    "m \<in> set (iter_models (sr_classes rt) (cf_annotation f))" for c name f m using assms(3) that by (fastforce simp: nested_models_def)
  note u = describe_unlimited [of rt rank c n, OF _ rank assms(2)]
  have "unlimited (describe_fields n rt c)" by (rule u(1)) (use assms(1) in blast)+
  moreover have "unlimited (collect_references n rt c ([], []))" by (rule u(2)) (use assms(1) in blast)+
  then have "unlimited (runtime_references n rt c)" unfolding runtime_references_def by (auto intro!: unlimited_intros)
  moreover have "describe_fields (n + k) rt c = describe_fields n rt c" "runtime_references (n + k) rt c = runtime_references n rt c" for k
    unfolding runtime_references_def by (simp_all only: describe_stable [of rt rank c n, OF rank assms(2)])
  ultimately show ?thesis by (simp add: unlimited_def)
qed

text \<open>
  C35. A recursive model is never described. Take models each of which has a field whose type refers to one of
  them, for example a model with an optional field of its own type: describing it fails, whatever the recursion
  limit is, because the type reference of the field needs the version of the model, which is found by describing it.
\<close>

theorem recursive_models_undescribed:
  assumes "\<forall>c \<in> S. \<exists>(name, f) \<in> set (mc_fields (sr_classes rt c)). \<exists>m \<in> set (type_models (sr_classes rt) (cf_annotation f)). m \<in> S" "c \<in> S"
  shows "\<not> okR (fst (describe_fields n rt c h))"
  using assms(2)
proof (induction n arbitrary: c h)
  case (Suc n)
  from assms(1) Suc.prems obtain name f m where m: "(name, f) \<in> set (mc_fields (sr_classes rt c))" "m \<in> set (type_models (sr_classes rt) (cf_annotation f))" "m \<in> S"
    by fastforce
  show ?case using describe_fields_versions [OF _ m(1,2)] Suc.IH [OF m(3)] by blast
qed simp

section \<open>Fields of a reconstructed model\<close>

lemma fold_add_field_defs:
  "map_of (fold (add_field_def any d) ns fs) n = (if dict_has fs n then map_of fs n
     else if n \<in> set ns then Some (added_def any (dict_get (added_field_info d) n [])) else None)"
  "dict_ok fs \<Longrightarrow> dict_ok (fold (add_field_def any d) ns fs)"
proof -
  show "map_of (fold (add_field_def any d) ns fs) n = (if dict_has fs n then map_of fs n
     else if n \<in> set ns then Some (added_def any (dict_get (added_field_info d) n [])) else None)"
    by (induction ns arbitrary: fs) (auto simp: add_field_def_def dict_has_def update_conv')
  show "dict_ok fs \<Longrightarrow> dict_ok (fold (add_field_def any d) ns fs)"
    by (induction ns arbitrary: fs) (auto simp: add_field_def_def intro!: dict_ok_update)
qed

lemma inverted_status:
  "is_added (diff_inverted d) n \<longleftrightarrow> is_removed d n" "is_removed (diff_inverted d) n \<longleftrightarrow> is_added d n"
  "dict_ok (diff_fields d) \<Longrightarrow> dict_ok (diff_fields (diff_inverted d))"
proof -
  have "map_of (diff_fields (diff_inverted d)) n = map_option (\<lambda>c. FieldChange (status_inverted (fc_status c)) (fc_details c)) (map_of (diff_fields d) n)"
    by (simp add: diff_inverted_def map_of_map_snd)
  moreover have "status_inverted s = ADDED \<longleftrightarrow> s = REMOVED" "status_inverted s = REMOVED \<longleftrightarrow> s = ADDED" for s by (cases s; simp)+
  ultimately show "is_added (diff_inverted d) n \<longleftrightarrow> is_removed d n" "is_removed (diff_inverted d) n \<longleftrightarrow> is_added d n"
    by (auto simp: is_added_def is_removed_def has_status_def split: option.splits)
  show "dict_ok (diff_fields d) \<Longrightarrow> dict_ok (diff_fields (diff_inverted d))" by (simp add: diff_inverted_def dict_ok_map_snd)
qed

lemma kept_lookup: "map_of (kept_fields cd d fs) n = (if n \<noteq> cd_version_property cd \<and> n \<notin> set (removed_fields d) then map_option KeptField (map_of fs n) else None)"
  by (induction fs) (auto simp: kept_fields_def)

text \<open>
  The fields of a reconstructed model: the version property, the fields of the anchor that the diff does
  not remove, as the anchor has them, and the fields that the diff adds. Going back from a newer anchor the
  diff is inverted, so the fields that it adds are left out and those that it removes come back.
\<close>

theorem reconstructed_fields:
  assumes "dict_ok anchor" "dict_ok (diff_fields d)"
  shows "dict_ok (model_fields any rt d anchor)
    \<and> (dict_has (model_fields any rt d anchor) n \<longleftrightarrow> n = cd_version_property (sr_codec rt) \<or> dict_has anchor n \<and> \<not> is_removed d n \<or> is_added d n)
    \<and> (dict_has (model_fields any rt (diff_inverted d) anchor) n \<longleftrightarrow>
        n = cd_version_property (sr_codec rt) \<or> dict_has anchor n \<and> \<not> is_added d n \<or> is_removed d n)
    \<and> (\<forall>f. map_of anchor n = Some f \<longrightarrow> n \<noteq> cd_version_property (sr_codec rt) \<longrightarrow> \<not> is_removed d n \<longrightarrow>
        map_of (model_fields any rt d anchor) n = Some (KeptField f))"
proof -
  let ?v = "cd_version_property (sr_codec rt)"
  have l: "map_of (model_fields any rt e anchor) n = (if n = ?v then Some (TextField (sr_show rt (nid_version (node_id_of (diff_target e)))))
      else if \<not> is_removed e n \<and> dict_has anchor n then map_option KeptField (map_of anchor n)
      else if is_added e n then Some (added_def any (dict_get (added_field_info e) n [])) else None)" if "dict_ok (diff_fields e)" for e n
    by (auto simp: model_fields_def fold_add_field_defs(1) kept_lookup dict_has_def status_names [OF that])
  have "\<not> (is_added e n \<and> is_removed e n)" for e :: "'a diff" and n
    by (auto simp: is_added_def is_removed_def has_status_def split: option.splits)
  moreover have "dict_ok (kept_fields (sr_codec rt) d anchor)" "?v \<notin> fst ` set (kept_fields (sr_codec rt) d anchor)"
    using dict_ok_map_snd [OF dict_ok_filter [OF assms(1)], of "\<lambda>_. KeptField"] by (auto simp: kept_fields_def case_prod_unfold)
  then have "dict_ok (model_fields any rt d anchor)"
    unfolding model_fields_def by (intro fold_add_field_defs(2)) (auto simp: dict_ok_def)
  ultimately show ?thesis using l [OF assms(2)] l [OF inverted_status(3) [OF assms(2)]] by (auto simp: dict_has_def inverted_status)
qed

section \<open>Reachable models\<close>

lemma note_models:
  assumes "fold note_model ms (found, stack) = (found', stack')" "distinct found" "set stack \<subseteq> set found"
  shows "distinct found' \<and> set found' = set found \<union> set ms \<and> set stack' = set stack \<union> (set ms - set found)
    \<and> (found' = found \<and> stack' = stack \<or> set found \<subset> set found')"
  using assms
proof (induction ms arbitrary: found stack)
  case (Cons m ms)
  show ?case
  proof (cases "m \<in> set found")
    case True
    then show ?thesis using Cons.IH [of found stack] Cons.prems by (auto simp: note_model_def)
  next
    case False
    then have "note_model m (found, stack) = (found @ [m], m # stack)" by (simp add: note_model_def)
    then have "fold note_model ms (found @ [m], m # stack) = (found', stack')" using Cons.prems(1) by simp
    from Cons.IH [OF this] have IH: "distinct found'" "set found' = insert m (set found) \<union> set ms"
      "set stack' = insert m (set stack) \<union> (set ms - insert m (set found))" using False Cons.prems by auto
    have "set found' = set found \<union> set (m # ms)" "set stack' = set stack \<union> (set (m # ms) - set found)" "set found \<subset> set found'"
      unfolding IH(2,3) using False by auto
    then show ?thesis using IH(1) by blast
  qed
qed simp

lemma reachable_loop_returns:
  assumes "finite U" "\<forall>m \<in> U. set (nested_models ct m) \<subseteq> U" "distinct found" "set stack \<subseteq> set found" "set found \<subseteq> U"
    and "\<forall>m \<in> set found - set stack. set (nested_models ct m) \<subseteq> set found"
  shows "\<exists>ms. reachable_loop ct found stack = Some ms \<and> distinct ms \<and> set found \<subseteq> set ms
    \<and> (\<forall>m \<in> set ms. set (nested_models ct m) \<subseteq> set ms) \<and> set ms \<subseteq> {(a, b). b \<in> set (nested_models ct a)}\<^sup>* `` set found"
  using assms(3-)
proof (induction "(card (U - set found), length stack)" arbitrary: found stack rule: wf_induct_rule [OF wf_lex_prod [OF wf_less_than wf_less_than]])
  case 1
  let ?E = "{(a, b). b \<in> set (nested_models ct a)}"
  show ?case
  proof (cases stack)
    case Nil
    then show ?thesis using "1.prems" by (subst reachable_loop.simps) auto
  next
    case (Cons current rest)
    obtain found' stack' where n: "fold note_model (nested_models ct current) (found, rest) = (found', stack')" by fastforce
    have cur: "current \<in> set found" "set rest \<subseteq> set found" using "1.prems" Cons by auto
    note f = note_models [OF n "1.prems"(1) cur(2)]
    have sub: "set found' \<subseteq> U" using f "1.prems"(3) cur(1) assms(2) by auto
    have less: "((card (U - set found'), length stack'), (card (U - set found), length stack)) \<in> less_than <*lex*> less_than"
    proof (cases "found' = found \<and> stack' = rest")
      case False
      then have "set found \<subset> set found'" using f by blast
      then have "U - set found' \<subset> U - set found" using sub by blast
      then show ?thesis using psubset_card_mono [of "U - set found"] assms(1) by auto
    qed (use Cons in simp)
    have "\<forall>m \<in> set found' - set stack'. set (nested_models ct m) \<subseteq> set found'" using f "1.prems"(4) Cons by auto
    moreover have "distinct found'" "set stack' \<subseteq> set found'" using f cur(2) by auto
    ultimately obtain ms where ms: "reachable_loop ct found' stack' = Some ms" "distinct ms" "set found' \<subseteq> set ms"
      "\<forall>m \<in> set ms. set (nested_models ct m) \<subseteq> set ms" "set ms \<subseteq> ?E\<^sup>* `` set found'"
      using "1.hyps" [OF less _ _ sub] by metis
    moreover have "set found' \<subseteq> ?E\<^sup>* `` set found" using f cur(1) by (auto intro: r_into_rtrancl)
    then have "?E\<^sup>* `` set found' \<subseteq> ?E\<^sup>* `` set found" by (auto intro: rtrancl_trans)
    ultimately show ?thesis using f n Cons by (subst reachable_loop.simps) auto
  qed
qed

text \<open>
  \<open>_reachable_models\<close> ends whenever finitely many models are nested in one another, also recursively, and
  finds each model that can be reached through the fields exactly once.
\<close>

theorem reachable_models_correct:
  assumes "finite U" "c \<in> U" "\<forall>m \<in> U. set (nested_models ct m) \<subseteq> U"
  shows "\<exists>ms. reachable_models ct c = Some ms \<and> distinct ms \<and> set ms = {m. (c, m) \<in> {(a, b). b \<in> set (nested_models ct a)}\<^sup>*}"
proof -
  let ?E = "{(a, b). b \<in> set (nested_models ct a)}"
  from reachable_loop_returns [OF assms(1,3), of "[c]" "[c]"] assms(2) obtain ms where ms: "reachable_loop ct [c] [c] = Some ms" "distinct ms"
    "c \<in> set ms" "\<forall>m \<in> set ms. set (nested_models ct m) \<subseteq> set ms" "set ms \<subseteq> ?E\<^sup>* `` {c}" by auto
  have "m \<in> set ms" if "(c, m) \<in> ?E\<^sup>*" for m using that ms(3,4) by (induction rule: rtrancl_induct) auto
  then show ?thesis using ms by (auto simp: reachable_models_def)
qed

section \<open>Concrete models\<close>

definition text_field :: "string \<Rightarrow> 'm class_field" where
  "text_field s = \<lparr>cf_annotation = SimpleType TK_STRING, cf_object = PType ''builtins'' ''str'', cf_required = False, cf_default = Some (PStr s)\<rparr>"

definition model_field :: "'m annot \<Rightarrow> 'm class_field" where
  "model_field a = \<lparr>cf_annotation = a, cf_object = PNone, cf_required = True, cf_default = None\<rparr>"

text \<open>Model 0 is plain, model 1 has a list of models 0, and model 2 has an optional model 2.\<close>

definition sample_classes :: "nat \<Rightarrow> nat model_class" where
  "sample_classes c = \<lparr>mc_is_model = True, mc_module = ''m'', mc_qualname = show_nat c, mc_name = ''M'',
     mc_fields = [(''version'', text_field ''1''), (''kind'', text_field ''K'')]
       @ (if c = 1 then [(''items'', model_field (SequenceType True [ClassType 0]))]
          else if c = 2 then [(''next'', model_field (UnionType [ClassType 2, NoneType]))] else [])\<rparr>"

definition sample_runtime :: "(nat, nat) schema_runtime" where
  "sample_runtime = \<lparr>sr_classes = sample_classes, sr_codec = \<lparr>cd_version_property = ''version'', cd_kind_property = ''kind'', cd_namespace = ''a''\<rparr>,
     sr_provider = ''p'', sr_parse = (\<lambda>_. Inr 1), sr_show = show_nat\<rparr>"

lemma sample_nested: "nested_models sample_classes c = (if c = 1 then [0] else if c = 2 then [2] else [])"
  by (auto simp: nested_models_def sample_classes_def text_field_def model_field_def)

theorem describe_terminates_witness:
  "let rt = sample_runtime\<lparr>sr_classes := (\<lambda>c. sample_classes (min c 1))\<rparr>
   in okR (fst (describe_fields 2 rt 1 [])) \<and> describe_fields 1000 rt 1 [] = describe_fields 2 rt 1 []"
proof -
  let ?rt = "sample_runtime\<lparr>sr_classes := (\<lambda>c. sample_classes (min c 1))\<rparr>"
  have "nested_models (\<lambda>c. sample_classes (min c 1)) c = (if c = 0 then [] else [0])" for c
    by (auto simp: nested_models_def sample_classes_def text_field_def model_field_def)
  then have "\<forall>c. mc_is_model (sr_classes ?rt c) \<longrightarrow> (\<forall>m \<in> set (nested_models (sr_classes ?rt) c). (\<lambda>c. min c 1) m < (\<lambda>c. min c 1) c)" by simp
  moreover have "\<forall>v. sr_parse ?rt v \<noteq> Inl RecursionError" by (simp add: sample_runtime_def)
  moreover have "(\<lambda>c. min c 1) (1 :: nat) < (2 :: nat)" by simp
  ultimately have "describe_fields (2 + 998) ?rt 1 [] = describe_fields 2 ?rt 1 []"
    using describe_terminates [of ?rt "\<lambda>c. min c 1" 1 2 "[]"] by blast
  moreover have "okR (fst (describe_fields 2 ?rt 1 []))" by code_simp
  ultimately show ?thesis by (simp only: Let_def) simp
qed

theorem recursive_models_undescribed_witness:
  "\<not> okR (fst (describe_fields 1000 sample_runtime 2 []))"
proof (rule recursive_models_undescribed [where S = "{2}"])
  show "\<forall>c \<in> {2}. \<exists>(name, f) \<in> set (mc_fields (sr_classes sample_runtime c)).
      \<exists>m \<in> set (type_models (sr_classes sample_runtime) (cf_annotation f)). m \<in> {2}"
    by (simp add: sample_runtime_def sample_classes_def text_field_def model_field_def)
qed simp

theorem reconstructed_fields_witness:
  "dict_has (model_fields PNone sample_runtime sample_diff (mc_fields (sample_classes 0))) ''y''"
proof -
  have "dict_ok (mc_fields (sample_classes 0))" "dict_ok (diff_fields sample_diff)" "is_added sample_diff ''y''" by code_simp+
  then show ?thesis using reconstructed_fields [of "mc_fields (sample_classes 0)" sample_diff PNone sample_runtime "''y''"] by blast
qed

theorem reachable_models_correct_witness:
  "\<exists>ms. reachable_models sample_classes 2 = Some ms \<and> distinct ms"
  using reachable_models_correct [of "{2 :: nat}" 2 sample_classes] by (auto simp: sample_nested)

end
