(* ===== verification/Spec2Isabelle.thy ===== *)
theory Spec2Isabelle
  imports Commands Messaging Lineage Schemas
begin

text \<open>
  A verification library for pyverge, a Python package that versions data models and migrates payloads
  between their versions (\<open>src/src/pyverge\<close>).

  \<^bold>\<open>The program.\<close> Models are registered under an identity (namespace, kind, version) together with
  migrations between versions in a \<^emph>\<open>registry\<close>, which keeps sorted indexes, hooks and a health index that
  linters fill. A \<^emph>\<open>graph builder\<close> compiles the registry into an immutable \<^emph>\<open>snapshot\<close> over an indexed graph
  backend, with content digests and revisions; snapshots are published in a store by compare-and-swap. To
  migrate a payload the \<^emph>\<open>extractor\<close> discovers the versioned entries in it, the \<^emph>\<open>path finder\<close> resolves a
  target and a chain of migrations for each, the policy engine filters them, and the plan is split into
  levels, children before parents. The runtime binds callables and hooks to the plan and executes it step by
  step under telemetry, replacing the migrated values in the payload.

  \<^bold>\<open>The theories\<close>, in the order of their imports:

  \<^item> \<open>Prelude\<close>: exceptions as a datatype and results as sums, operations that raise while they mutate,
    dictionaries as association lists, \<open>bisect\<close> and sorted lists.
  \<^item> \<open>Values\<close>, \<open>Identity\<close>, \<open>Metadata\<close>, \<open>Canonical\<close>, \<open>Nodes\<close>, \<open>Edges\<close>, \<open>Diff\<close>: the package
    \<open>core/versioning\<close>: JSON and Python values, identities and their order, references and descriptors, the
    canonical encoding and its digests, version nodes and edges, field diffs. Shown: canonical texts identify
    values up to encoding, do not depend on insertion order, and canonical forms read back; diffs classify
    every field and invert.
  \<^item> \<open>Index\<close>, \<open>Registry\<close>, \<open>Registry_Write\<close>, \<open>Linters\<close>, \<open>Registry_Invariant\<close>, \<open>Registry_Spec\<close>, \<open>Health\<close>:
    \<open>core/registry\<close>: the in-memory registry as a record with its six indexes, every lookup and every mutation,
    and the linters. Shown: all indexes agree in every reachable state, also after an operation that raised
    half way, under conditions on \<open>remove_entry\<close>, \<open>copy_from\<close> and hashing that \<open>Registry_Invariant\<close> names and
    without which they need not; the registry refines an abstract catalog of finite maps; the health index is coherent; what the
    linters report.
  \<^item> \<open>Traversal\<close>, \<open>Topological\<close>, \<open>Backend\<close>: \<open>core/graph/backend\<close>: breadth-first search and Kahn's algorithm
    as \<open>partial_function\<close>s with proofs that they return, over the interfaces \<open>finite_graph\<close> and
    \<open>finite_dag_input\<close>, interpreted by the indexed backend; shortest paths, topological orders exactly for
    acyclic graphs, agreement of native backends.
  \<^item> \<open>Revision\<close>, \<open>Graph\<close>, \<open>Graph_Store\<close>: \<open>core/graph\<close>: digests and revisions, the snapshot with its lookups
    and the adjacent edge walk, the builder, the store. Shown: a snapshot agrees with the registry it was
    built from on entries, models, versions, edges and migrations (the interface \<open>model_catalog\<close>, interpreted by
    both), and on which lookups it does not; when a path exists; saves exclude each other when they do not overlap,
    and two that overlap can both be accepted.
  \<^item> \<open>Paths\<close>, \<open>Plans\<close>, \<open>Planning\<close>: \<open>core/graph/planning\<close>: payload paths, plan levels, direction and depth
    policies, target policies, the path finder with its cache. Shown: plans are sound, levels put children
    first, results of a level can be written back independently, caching is transparent.
  \<^item> \<open>Extractors\<close>: \<open>runtime/extractors.py\<close>. Shown: extraction finds exactly the versioned entries.
  \<^item> \<open>Run_Context\<close>, \<open>Effects\<close>, \<open>Bindings\<close>, \<open>Steps\<close>, \<open>Plan_Cache\<close>: \<open>runtime/context.py\<close>, \<open>telemetry\<close>,
    \<open>migrations.py\<close>, \<open>hooks\<close>, \<open>plan.py\<close>, \<open>strategies.py\<close> and \<open>plan_cache.py\<close>. Shown: scopes are exited in
    reverse order on every outcome, asynchronous execution agrees with synchronous execution, the plan cache
    is a least recently used cache, flattening a context is faithful.
  \<^item> \<open>Execution\<close>, \<open>Middleware\<close>, \<open>Runner\<close>: \<open>runtime/planner.py\<close>, \<open>coordinator.py\<close>, \<open>backends\<close>, \<open>middleware\<close>
    and \<open>runner.py\<close>: binding of plans, the coordinator with its caches, the backends, what is wrapped around
    them, and runs under telemetry. Shown: a run raises only what an entry raises, otherwise it migrates the
    outermost planned entries and changes nothing else, caching is transparent, transactions are ended once, retrying is bounded, a key runs once, a run is
    reported once.
  \<^item> \<open>Lineage\<close>: \<open>runtime/telemetry/openlineage.py\<close> and \<open>otel.py\<close>: the adapters that turn the telemetry of runs and
    steps into lineage events and spans, as operations over a state that records what they handed to the client
    or the tracer. Shown: starts and ends are balanced, runs do not influence each other, a run that is started and
    ended is reported, no span is closed twice, the mode that publishes errors only reports nothing.
  \<^item> \<open>Engine\<close>, \<open>Manager\<close>, \<open>Decorators\<close>: \<open>core/engine.py\<close>, \<open>runtime/manager\<close>, \<open>runtime/factory.py\<close> and
    \<open>runtime/facade.py\<close>: the facade over a registry and a model adapter, manager classes and their instances over one
    shared store of bindings, and the decorators that declare models, migrations and hooks on a class. Shown: every
    plan over a snapshot of an instance binds as long as nothing is removed and no ready-made engine is given, what removal and attaching do, declarations keep a manager consistent
    also when one of them raises.
  \<^item> \<open>Patches\<close>, \<open>Patch_Operations\<close>: \<open>discovery/reflection\<close>, \<open>core/registry/reflection.py\<close>, \<open>migrations/json_patch\<close>
    and \<open>migrations/jsonata\<close>: diffs discovered in patches and functions, diffs rendered as patches, the extended
    patch operations, JSONata migrations. Shown: a rendered patch is read back as its diff, when a migration can
    be proposed, what each discovery reports, coercion gives the type it promises.
  \<^item> \<open>Schemas\<close>: \<open>schemas/codec.py\<close>, \<open>schemas/runtime.py\<close> and \<open>schemas/base.py\<close>: descriptions of model classes,
    their references, reconstructed models and the adapter. Shown: descriptions end for acyclic nesting and
    fail for every recursive model, the fields of a reconstructed model, the reachable models.
  \<^item> \<open>Convergence\<close>, \<open>Messaging\<close>: \<open>adapters/runtime.py\<close>, \<open>adapters/httpx\<close>, \<open>adapters/celery\<close> and
    \<open>adapters/faststream\<close>: the runtime that the integrations share and that converges one payload with the runner
    bound to it, the transports, the tasks with the lifecycle of a worker, and the decoders and publishers of
    messages. Shown: both transports agree, what is sent for a request, the first runner that is bound stays, the order
    in which a target is selected, how a worker starts, which messages are published.
  \<^item> \<open>Manifests\<close>, \<open>Commands\<close>: \<open>cli/jgf\<close>, \<open>cli/export\<close> and the decisions of \<open>cli/commands\<close>: graph documents, their
    export from a registry or a snapshot and their import, manifests and their comparison, and the exit codes of the
    commands. Shown: an exported registry can be imported again, exactly which changes a comparison reports, a snapshot has
    the manifest of its registry, when the check against a baseline passes, when validation and compatibility fail.

  \<^bold>\<open>Conventions.\<close> A Python exception is a value of \<^typ>\<open>error\<close>; a function that may raise returns
  \<^typ>\<open>'a res\<close>, and one that may have changed its object before it raises returns the outcome together with the
  new state (\<^typ>\<open>('s, 'a) op\<close>). Dictionaries keep insertion order. Version values are a type variable with a
  linear order; hashing, version parsing, graph libraries, model adapters, migration callables, hooks and
  telemetry adapters are parameters, and so are the packages \<open>pydantic\<close>, \<open>jsonpatch\<close>, \<open>jsonpointer\<close>, \<open>jsonata\<close>
  and \<open>tenacity\<close>. Loops are structural, have a termination proof, or are partial functions that are shown to
  return. The descriptions of nested models take the number of levels that calls may be nested, beyond which a
  call raises \<open>RecursionError\<close> (Python's own limit counts frames, several per level): more levels than the nesting
  rank of a model are enough and make no difference, and for a recursive model no number is enough.

  \<^bold>\<open>Not modelled.\<close> Pools that run the entries of a level concurrently; the adapters of dataclasses and JSON schemas;
  the integration with fastmcp, the reading of settings, arguments and files and the printing of the command line, which
  hand values to libraries or to the terminal. Bodies of requests and messages are documents or opaque values, so that decoding bytes is left to the
  libraries; the times of lineage events are left out; the signatures of handlers are what \<open>inspect\<close> says of them.
\<close>

end
